(* ===== verification/Onerom_Prelude.thy ===== *)
theory Onerom_Prelude
  imports Main "HOL-Library.Word"
begin

text \<open>
  Shared vocabulary of the development: names for the Rust integer types, results
  (\<open>Result<T, E>\<close> is \<open>'e + 'a\<close>, \<open>Inl\<close> the error), checked \<open>usize\<close> arithmetic, the
  iterator operations the generator crate uses on byte slices (\<open>split\<close>, \<open>trim_ascii\<close>,
  \<open>chunks\<close>), and the lemmas about them that several components need.
\<close>

unbundle bit_operations_syntax

named_theorems result_simps \<open>equations that push a result through the ? operator\<close>
named_theorems usize_simps \<open>evaluation of checked and wrapping usize arithmetic\<close>
named_theorems text_simps \<open>splitting and trimming of rendered records\<close>

section \<open>Machine integers\<close>

type_synonym u8 = "8 word"
type_synonym u16 = "16 word"
type_synonym u32 = "32 word"

text \<open>
  A \<open>usize\<close> is a natural number not above \<open>usize_max\<close>; the host tools are 64-bit
  programs. \<open>checked_add\<close> and \<open>checked_mul\<close> are Rust's; \<open>wrapping_uadd\<close> is plain \<open>+\<close>
  as a release build computes it (the workspace's release profile leaves overflow checks off).
\<close>

type_synonym usize = nat

definition usize_max :: usize where
  "usize_max = 2 ^ 64 - 1"

definition checked_add :: "usize \<Rightarrow> usize \<Rightarrow> usize option" where
  "checked_add a b = (if a + b \<le> usize_max then Some (a + b) else None)"

definition checked_mul :: "usize \<Rightarrow> usize \<Rightarrow> usize option" where
  "checked_mul a b = (if a * b \<le> usize_max then Some (a * b) else None)"

definition wrapping_uadd :: "usize \<Rightarrow> usize \<Rightarrow> usize" where
  "wrapping_uadd a b = (a + b) mod 2 ^ 64"

lemma checked_add_Some_iff [simp]:
  "checked_add a b = Some c \<longleftrightarrow> c = a + b \<and> a + b \<le> usize_max"
  by (auto simp: checked_add_def)

lemma checked_add_None_iff [simp]:
  "checked_add a b = None \<longleftrightarrow> usize_max < a + b"
  by (auto simp: checked_add_def)

lemma checked_mul_Some_iff [simp]:
  "checked_mul a b = Some c \<longleftrightarrow> c = a * b \<and> a * b \<le> usize_max"
  by (auto simp: checked_mul_def)

lemma checked_mul_None_iff [simp]:
  "checked_mul a b = None \<longleftrightarrow> usize_max < a * b"
  by (auto simp: checked_mul_def)

lemma wrapping_uadd_small [usize_simps]:
  "a + b \<le> usize_max \<Longrightarrow> wrapping_uadd a b = a + b"
  by (simp add: wrapping_uadd_def usize_max_def)

lemma usize_max_ge_u32 [usize_simps]: "n \<le> 2 ^ 33 \<Longrightarrow> n \<le> usize_max"
  by (simp add: usize_max_def)

section \<open>Results\<close>

type_synonym ('e, 'a) result = "'e + 'a"

definition bind_r :: "('e, 'a) result \<Rightarrow> ('a \<Rightarrow> ('e, 'b) result) \<Rightarrow> ('e, 'b) result" where
  "bind_r r f = (case r of Inl e \<Rightarrow> Inl e | Inr a \<Rightarrow> f a)"

definition map_err :: "('e \<Rightarrow> 'f) \<Rightarrow> ('e, 'a) result \<Rightarrow> ('f, 'a) result" where
  "map_err h r = (case r of Inl e \<Rightarrow> Inl (h e) | Inr a \<Rightarrow> Inr a)"

definition ok_or :: "'a option \<Rightarrow> 'e \<Rightarrow> ('e, 'a) result" where
  "ok_or x e = (case x of None \<Rightarrow> Inl e | Some a \<Rightarrow> Inr a)"

fun is_ok :: "('e, 'a) result \<Rightarrow> bool" where
  "is_ok (Inl _) = False"
| "is_ok (Inr _) = True"

lemma bind_r_simps [simp, result_simps]:
  "bind_r (Inl e) f = Inl e"
  "bind_r (Inr a) f = f a"
  by (simp_all add: bind_r_def)

lemma map_err_simps [simp, result_simps]:
  "map_err h (Inl e) = Inl (h e)"
  "map_err h (Inr a) = Inr a"
  by (simp_all add: map_err_def)

lemma ok_or_simps [simp, result_simps]:
  "ok_or None e = Inl e"
  "ok_or (Some a) e = Inr a"
  by (simp_all add: ok_or_def)

lemma bind_r_Inr_iff: "bind_r r f = Inr b \<longleftrightarrow> (\<exists>a. r = Inr a \<and> f a = Inr b)"
  by (cases r) auto

lemma bind_r_Inl_iff:
  "bind_r r f = Inl e \<longleftrightarrow> r = Inl e \<or> (\<exists>a. r = Inr a \<and> f a = Inl e)"
  by (cases r) auto

lemma map_err_Inr_iff [simp]: "map_err h r = Inr a \<longleftrightarrow> r = Inr a"
  by (cases r) auto

lemma map_err_Inl_iff: "map_err h r = Inl e \<longleftrightarrow> (\<exists>d. r = Inl d \<and> e = h d)"
  by (cases r) auto

lemma ok_or_Inr_iff [simp]: "ok_or x e = Inr a \<longleftrightarrow> x = Some a"
  by (cases x) auto

lemma ok_or_Inl_iff [simp]: "ok_or x e = Inl d \<longleftrightarrow> x = None \<and> d = e"
  by (cases x) auto

lemma is_ok_iff: "is_ok r \<longleftrightarrow> (\<exists>a. r = Inr a)"
  by (cases r) auto

text \<open>\<open>collect::<Result<Vec<_>, _>>()\<close>: the first error, or all the values in order.\<close>

fun map_r :: "('a \<Rightarrow> ('e, 'b) result) \<Rightarrow> 'a list \<Rightarrow> ('e, 'b list) result" where
  "map_r f [] = Inr []"
| "map_r f (x # xs) = bind_r (f x) (\<lambda>y. bind_r (map_r f xs) (\<lambda>ys. Inr (y # ys)))"

lemma map_r_Inr: "(\<And>x. x \<in> set xs \<Longrightarrow> f x = Inr (g x)) \<Longrightarrow> map_r f xs = Inr (map g xs)"
  by (induction xs) auto

lemma map_r_Inr_iff: "map_r f xs = Inr ys \<longleftrightarrow> list_all2 (\<lambda>x y. f x = Inr y) xs ys"
  by (induction xs arbitrary: ys) (auto simp: bind_r_Inr_iff list_all2_Cons1)

lemma map_r_length: "map_r f xs = Inr ys \<Longrightarrow> length ys = length xs"
  by (auto simp: map_r_Inr_iff dest: list_all2_lengthD)

text \<open>A \<open>for\<close> loop whose body can only fail, and a failing \<open>if\<close> as a statement.\<close>

fun each_r :: "('a \<Rightarrow> ('e, unit) result) \<Rightarrow> 'a list \<Rightarrow> ('e, unit) result" where
  "each_r f [] = Inr ()"
| "each_r f (x # xs) = bind_r (f x) (\<lambda>_. each_r f xs)"

definition fail_if :: "bool \<Rightarrow> 'e \<Rightarrow> ('e, unit) result" where
  "fail_if c e = (if c then Inl e else Inr ())"

lemma each_r_Inr_iff [result_simps]: "each_r f xs = Inr u \<longleftrightarrow> (\<forall>x\<in>set xs. f x = Inr ())"
  by (induction xs) (auto simp: bind_r_Inr_iff)

lemma fail_if_Inr_iff [simp]: "fail_if c e = Inr u \<longleftrightarrow> \<not> c"
  by (simp add: fail_if_def)

lemma fail_if_Inl_iff [simp]: "fail_if c e = Inl d \<longleftrightarrow> c \<and> d = e"
  by (auto simp: fail_if_def)

text \<open>A fallible computation that may panic: \<open>None\<close> is the panic.\<close>

definition bind_p ::
  "('e, 'a) result option \<Rightarrow> ('a \<Rightarrow> ('e, 'b) result option) \<Rightarrow> ('e, 'b) result option" where
  "bind_p r f = (case r of None \<Rightarrow> None | Some (Inl e) \<Rightarrow> Some (Inl e) | Some (Inr a) \<Rightarrow> f a)"

lemma bind_p_simps [simp]:
  "bind_p None f = None" "bind_p (Some (Inl e)) f = Some (Inl e)" "bind_p (Some (Inr a)) f = f a"
  by (simp_all add: bind_p_def)

lemma bind_p_Inr_iff: "bind_p r f = Some (Inr b) \<longleftrightarrow> (\<exists>a. r = Some (Inr a) \<and> f a = Some (Inr b))"
  by (auto simp: bind_p_def split: option.splits sum.splits)

text \<open>\<open>xs.iter().enumerate()\<close>\<close>

definition enumerated :: "'a list \<Rightarrow> (nat \<times> 'a) list" where
  "enumerated xs = zip [0..<length xs] xs"

lemma set_enumerated: "(i, x) \<in> set (enumerated xs) \<longleftrightarrow> i < length xs \<and> x = xs ! i"
  by (auto simp: enumerated_def set_zip intro!: exI [of _ i])

section \<open>Splitting and trimming\<close>

text \<open>\<open>slice.split(|x| x == d)\<close>: always at least one piece, the delimiters dropped.\<close>

fun split_on :: "'a \<Rightarrow> 'a list \<Rightarrow> 'a list list" where
  "split_on d [] = [[]]"
| "split_on d (x # xs) =
     (if x = d then [] # split_on d xs
      else (case split_on d xs of [] \<Rightarrow> [[x]] | p # ps \<Rightarrow> (x # p) # ps))"

lemma split_on_not_Nil [simp]: "split_on d xs \<noteq> []"
  by (cases xs) (auto split: list.splits)

lemma split_on_append:
  "d \<notin> set p \<Longrightarrow> split_on d (p @ d # xs) = p # split_on d xs"
  by (induction p) auto

lemma split_on_no_delim: "d \<notin> set p \<Longrightarrow> split_on d p = [p]"
  by (induction p) auto

lemma split_on_lines [text_simps]:
  "(\<And>p. p \<in> set ps \<Longrightarrow> d \<notin> set p) \<Longrightarrow>
     split_on d (concat (map (\<lambda>p. p @ [d]) ps) @ xs) = ps @ split_on d xs"
  by (induction ps) (auto simp: split_on_append)

text \<open>Pieces joined by the delimiter: \<open>join\<close> and its inverse.\<close>

fun join_with :: "'a \<Rightarrow> 'a list list \<Rightarrow> 'a list" where
  "join_with d [] = []"
| "join_with d [p] = p"
| "join_with d (p # q # ps) = p @ d # join_with d (q # ps)"

lemma split_on_join_with:
  "ps \<noteq> [] \<Longrightarrow> (\<And>p. p \<in> set ps \<Longrightarrow> d \<notin> set p) \<Longrightarrow> split_on d (join_with d ps) = ps"
  by (induction d ps rule: join_with.induct) (auto simp: split_on_append split_on_no_delim)

definition trim_by :: "('a \<Rightarrow> bool) \<Rightarrow> 'a list \<Rightarrow> 'a list" where
  "trim_by ws xs = rev (dropWhile ws (rev (dropWhile ws xs)))"

lemma trim_by_clean:
  assumes "xs \<noteq> []" "\<not> ws (hd xs)" "\<not> ws (last xs)"
  shows "trim_by ws xs = xs"
proof -
  have "dropWhile ws xs = xs" "dropWhile ws (rev xs) = rev xs"
    using assms by (simp_all add: dropWhile_eq_self_iff hd_rev)
  then show ?thesis by (simp add: trim_by_def)
qed

lemma trim_by_Nil [simp]: "trim_by ws [] = []"
  by (simp add: trim_by_def)

lemma trim_by_none: "(\<And>x. x \<in> set xs \<Longrightarrow> \<not> ws x) \<Longrightarrow> trim_by ws xs = xs"
  by (cases "xs = []") (auto intro: trim_by_clean)

lemma trim_by_snoc [text_simps]:
  "xs \<noteq> [] \<Longrightarrow> \<not> ws (hd xs) \<Longrightarrow> \<not> ws (last xs) \<Longrightarrow> ws c \<Longrightarrow> trim_by ws (xs @ [c]) = xs"
  by (cases xs) (auto simp: trim_by_def hd_rev dropWhile_eq_self_iff simp flip: hd_rev)

lemma set_trim_by: "set (trim_by ws xs) \<subseteq> set xs"
  by (auto simp: trim_by_def dest!: set_dropWhileD)

section \<open>Chunks\<close>

function chunks :: "nat \<Rightarrow> 'a list \<Rightarrow> 'a list list" where
  "chunks n xs = (if xs = [] \<or> n = 0 then [] else take n xs # chunks n (drop n xs))"
  by pat_completeness auto
termination
  by (relation "measure (\<lambda>(n, xs). length xs)") auto

declare chunks.simps [simp del]

lemma chunks_Nil [simp]: "chunks n [] = []"
  by (simp add: chunks.simps)

lemma chunks_step: "xs \<noteq> [] \<Longrightarrow> 0 < n \<Longrightarrow> chunks n xs = take n xs # chunks n (drop n xs)"
  by (subst chunks.simps) simp

lemma concat_chunks: "0 < n \<Longrightarrow> concat (chunks n xs) = xs"
proof (induction n xs rule: chunks.induct)
  case (1 n xs)
  then show ?case by (cases "xs = []") (auto simp: chunks_step)
qed

lemma chunks_sizes: "c \<in> set (chunks n xs) \<Longrightarrow> c \<noteq> [] \<and> length c \<le> n"
proof (induction n xs rule: chunks.induct)
  case (1 n xs)
  show ?case
  proof (cases "xs = [] \<or> n = 0")
    case True
    with 1(2) show ?thesis by (auto simp: chunks.simps)
  next
    case False
    with 1 show ?thesis by (auto simp: chunks_step)
  qed
qed

section \<open>Lists updated by index\<close>

text \<open>\<open>Vec::resize\<close>: truncate, or fill up with copies of \<open>v\<close>.\<close>

definition resize :: "nat \<Rightarrow> 'a \<Rightarrow> 'a list \<Rightarrow> 'a list" where
  "resize n v xs = take n xs @ replicate (n - length xs) v"

lemma length_resize [simp]: "length (resize n v xs) = n"
  by (simp add: resize_def)

lemma nth_resize [simp]:
  "i < n \<Longrightarrow> resize n v xs ! i = (if i < length xs then xs ! i else v)"
  by (simp add: resize_def nth_append)

lemma resize_grow: "length xs \<le> n \<Longrightarrow> resize n v xs = xs @ replicate (n - length xs) v"
  by (simp add: resize_def)

text \<open>\<open>xs.first()\<close> and \<open>xs.get(i)\<close>.\<close>

definition first :: "'a list \<Rightarrow> 'a option" where
  "first xs = (case xs of [] \<Rightarrow> None | x # _ \<Rightarrow> Some x)"

definition get :: "'a list \<Rightarrow> nat \<Rightarrow> 'a option" where
  "get xs i = (if i < length xs then Some (xs ! i) else None)"

lemma first_simps [simp]: "first [] = None" "first (x # xs) = Some x"
  by (simp_all add: first_def)

lemma get_Some_iff: "get xs i = Some x \<longleftrightarrow> i < length xs \<and> xs ! i = x"
  by (auto simp: get_def)

section \<open>Bytes of wider integers\<close>

text \<open>A wrapping sum of bytes, as \<open>fold(0u8, wrapping_add)\<close> computes it.\<close>

definition byte_sum :: "u8 list \<Rightarrow> u8" where
  "byte_sum bs = fold (\<lambda>b acc. acc + b) bs 0"

lemma fold_plus_init: "fold (\<lambda>b acc. acc + b) bs s = s + fold (\<lambda>b acc. acc + b) bs (0 :: u8)"
proof (induction bs arbitrary: s)
  case (Cons b bs)
  have "fold (\<lambda>b acc. acc + b) bs (s + b) = s + b + fold (\<lambda>b acc. acc + b) bs 0"
    by (rule Cons.IH)
  moreover have "fold (\<lambda>b acc. acc + b) bs b = b + fold (\<lambda>b acc. acc + b) bs 0"
    by (rule Cons.IH)
  ultimately show ?case by (simp add: ac_simps)
qed simp

lemma byte_sum_simps [simp]:
  "byte_sum [] = 0"
  "byte_sum (b # bs) = b + byte_sum bs"
  by (simp_all add: byte_sum_def) (subst fold_plus_init, simp)

lemma byte_sum_append [simp]: "byte_sum (xs @ ys) = byte_sum xs + byte_sum ys"
  by (induction xs) (auto simp: ac_simps)

lemma byte_sum_update:
  "i < length bs \<Longrightarrow> byte_sum (bs[i := b]) = byte_sum bs - bs ! i + b"
  by (induction bs arbitrary: i) (auto split: nat.splits)

text \<open>
  The big-endian bytes a record writes of its address: byte \<open>k\<close> is \<open>(a >> (8 * k)) as u8\<close>,
  read back by shifting in one byte at a time.
\<close>

definition byte_at :: "nat \<Rightarrow> nat \<Rightarrow> u8" where
  "byte_at a k = word_of_nat (a div 2 ^ (8 * k))"

definition be_fold :: "u8 list \<Rightarrow> nat" where
  "be_fold bs = fold (\<lambda>b acc. acc * 256 + unat b) bs 0"

lemma be_fold_init:
  "fold (\<lambda>b acc. acc * 256 + unat b) bs s =
     s * 256 ^ length bs + fold (\<lambda>b acc. acc * 256 + unat b) bs 0"
proof (induction bs arbitrary: s)
  case (Cons b bs)
  let ?f = "fold (\<lambda>b acc. acc * 256 + unat b) bs"
  have "?f (s * 256 + unat b) = (s * 256 + unat b) * 256 ^ length bs + ?f 0"
    by (rule Cons.IH)
  moreover have "?f (unat b) = unat b * 256 ^ length bs + ?f 0"
    by (rule Cons.IH)
  ultimately show ?case by (simp add: algebra_simps)
qed simp

lemma be_fold_Cons: "be_fold (b # bs) = unat b * 256 ^ length bs + be_fold bs"
  using be_fold_init [of bs "unat b"] by (simp add: be_fold_def)

lemma be_fold_Nil [simp]: "be_fold [] = 0"
  by (simp add: be_fold_def)

lemma unat_byte_at: "unat (byte_at a k) = a div 256 ^ k mod 256"
  by (simp add: byte_at_def unat_of_nat power_mult)

lemma be_fold_bytes_mod: "be_fold (map (byte_at a) (rev [0..<w])) = a mod 256 ^ w"
proof (induction w)
  case (Suc w)
  have "a mod 256 ^ Suc w = a mod 256 ^ w + 256 ^ w * (a div 256 ^ w mod 256)"
    by (metis mod_mult2_eq add.commute power_Suc2)
  then show ?case
    by (simp add: be_fold_Cons Suc unat_byte_at mult.commute)
qed simp

lemma be_fold_bound: "be_fold bs < 256 ^ length bs"
proof (induction bs)
  case (Cons b bs)
  have "unat b < 256" using unsigned_less [of b] by simp
  then have "unat b * 256 ^ length bs + be_fold bs < (unat b + 1) * 256 ^ length bs"
    using Cons by simp
  also have "\<dots> \<le> 256 * 256 ^ length bs"
    using \<open>unat b < 256\<close> by (intro mult_right_mono) auto
  finally show ?case by (simp add: be_fold_Cons)
qed simp

lemma those_Some: "those xs = Some ys \<longleftrightarrow> xs = map Some ys"
proof (induction xs arbitrary: ys)
  case (Cons x xs)
  then show ?case by (cases ys) (auto split: option.splits)
qed auto

lemma bit_fold_or:
  "bit (fold (\<lambda>x r. r OR f x) xs r0) i \<longleftrightarrow> bit r0 i \<or> (\<exists>x \<in> set xs. bit (f x) i)"
  by (induction xs arbitrary: r0) (auto simp: bit_or_iff)

end
