(* ===== verification/Otp_Store.thy ===== *)
theory Otp_Store
  imports Onerom_Prelude
begin

text \<open>
  The One ROM OTP store (\<open>rust/metadata/src/otp.rs\<close>): the commissioning values a signing
  server signs, the rows a commissioning instance writes and in which order, and the parsers
  of the commissioning area and of the general store.

  An OTP row holds a 16-bit word; a row number is a natural number (all row numbers stay
  below \<open>0xec1\<close>, see \<open>area_ends\<close>, so the \<open>u16\<close> arithmetic on them never wraps). Strings
  are their UTF-8 bytes. An access that would panic is \<open>None\<close>: \<open>Otp_Parse\<close> shows no parser
  ever panics.

  \<open>OneromOtpEntry::parse\<close> and \<open>OneromOtpEntry::write\<close> are generated at build time from
  \<open>metadata_schema.toml\<close>; they are a parameter, the record \<open>otp_codec\<close>. The constants below
  are the schema's. A board's name comes from the build too and is an argument.
\<close>

section \<open>Constants of the schema\<close>

definition OTP_PAGE_ROWS :: nat where "OTP_PAGE_ROWS = 64"
definition OTP_COMMISSIONING_AREA_FIRST_ROW :: nat where
  "OTP_COMMISSIONING_AREA_FIRST_ROW = 0x0c0"
definition OTP_COMMISSIONING_AREA_LAST_ROW :: nat where
  "OTP_COMMISSIONING_AREA_LAST_ROW = 0x4bf"
definition OTP_GENERAL_STORE_FIRST_ROW :: nat where "OTP_GENERAL_STORE_FIRST_ROW = 0x4c0"
definition OTP_GENERAL_STORE_TERMINATOR_ROW :: nat where
  "OTP_GENERAL_STORE_TERMINATOR_ROW = 0xebe"
definition OTP_GENERAL_STORE_TERMINATOR_ROW_COUNT :: nat where
  "OTP_GENERAL_STORE_TERMINATOR_ROW_COUNT = 2"
definition OTP_STORE_MAGIC :: u16 where "OTP_STORE_MAGIC = 0x524f"
definition OTP_STORE_VERSION :: u16 where "OTP_STORE_VERSION = 1"
definition OTP_COMMISSIONING_SIG_LEN :: nat where "OTP_COMMISSIONING_SIG_LEN = 64"
definition OTP_COMMISSIONING_SIGNER_LEN :: nat where "OTP_COMMISSIONING_SIGNER_LEN = 2"

definition OTP_KEY_NONE :: u16 where "OTP_KEY_NONE = 0"
definition KEY_BOARD :: u16 where "KEY_BOARD = 1"
definition KEY_SIG :: u16 where "KEY_SIG = 2"
definition KEY_MANUFACTURER :: u16 where "KEY_MANUFACTURER = 3"
definition KEY_DATE :: u16 where "KEY_DATE = 4"
definition KEY_SIGNER :: u16 where "KEY_SIGNER = 5"

definition SIGNATURE_PREFIX :: "u8 list" where
  "SIGNATURE_PREFIX = map of_char ''onerom-commissioning-sig-v1''"

definition COMMISSIONING_AREA_END :: nat where
  "COMMISSIONING_AREA_END = OTP_COMMISSIONING_AREA_LAST_ROW + 1"

definition GENERAL_STORE_END :: nat where
  "GENERAL_STORE_END = OTP_GENERAL_STORE_TERMINATOR_ROW + OTP_GENERAL_STORE_TERMINATOR_ROW_COUNT"

lemmas otp_constants =
  OTP_PAGE_ROWS_def OTP_COMMISSIONING_AREA_FIRST_ROW_def OTP_COMMISSIONING_AREA_LAST_ROW_def
  OTP_GENERAL_STORE_FIRST_ROW_def OTP_GENERAL_STORE_TERMINATOR_ROW_def
  OTP_GENERAL_STORE_TERMINATOR_ROW_COUNT_def COMMISSIONING_AREA_END_def GENERAL_STORE_END_def

lemmas otp_keys =
  OTP_KEY_NONE_def KEY_BOARD_def KEY_SIG_def KEY_MANUFACTURER_def KEY_DATE_def KEY_SIGNER_def

lemma area_ends: "COMMISSIONING_AREA_END = 0x4c0" "GENERAL_STORE_END = 0xec0"
  by (simp_all add: otp_constants)

section \<open>Entries\<close>

datatype otp_entry =
    EntryBoard "u8 list"
  | EntrySig "u8 list"
  | EntryManufacturer "u8 list"
  | EntryDate "u8 list"
  | EntrySigner u16
  | EntryUnknown u32 "u8 list"

text \<open>
  The generated codec: \<open>parse\<close> reads one entry at the start of a view of the device's memory
  (an error is \<open>None\<close>), \<open>write\<close> writes one into a buffer.
\<close>

record otp_codec =
  codec_parse :: "u8 list \<Rightarrow> otp_entry option"
  codec_write :: "otp_entry \<Rightarrow> u8 list \<Rightarrow> u8 list"

definition u16_to_le_bytes :: "u16 \<Rightarrow> u8 list" where
  "u16_to_le_bytes r = [ucast r, ucast (drop_bit 8 r)]"

definition u16_from_le_bytes :: "u8 \<Rightarrow> u8 \<Rightarrow> u16" where
  "u16_from_le_bytes lo hi = ucast lo OR push_bit 8 (ucast hi)"

fun rows_of_bytes :: "u8 list \<Rightarrow> u16 list" where
  "rows_of_bytes (lo # hi # rest) = u16_from_le_bytes lo hi # rows_of_bytes rest"
| "rows_of_bytes _ = []"

definition entry_row_count :: "nat \<Rightarrow> nat" where
  "entry_row_count len = 2 + (len + 1) div 2"

definition instance_row_count :: "nat list \<Rightarrow> nat" where
  "instance_row_count rows =
     2 + sum_list rows + entry_row_count OTP_COMMISSIONING_SIG_LEN"

fun value_len :: "otp_entry \<Rightarrow> nat" where
  "value_len (EntryBoard name) = length name"
| "value_len (EntryManufacturer name) = length name"
| "value_len (EntryDate date) = length date"
| "value_len (EntrySig _) = OTP_COMMISSIONING_SIG_LEN"
| "value_len (EntrySigner _) = OTP_COMMISSIONING_SIGNER_LEN"
| "value_len (EntryUnknown _ params) = length params"

fun entry_key :: "otp_entry \<Rightarrow> u16" where
  "entry_key (EntryBoard _) = KEY_BOARD"
| "entry_key (EntrySig _) = KEY_SIG"
| "entry_key (EntryManufacturer _) = KEY_MANUFACTURER"
| "entry_key (EntryDate _) = KEY_DATE"
| "entry_key (EntrySigner _) = KEY_SIGNER"
| "entry_key (EntryUnknown key _) = ucast key"

definition entry_rows :: "otp_codec \<Rightarrow> otp_entry \<Rightarrow> u16 list" where
  "entry_rows c entry =
     (let bytes = replicate (2 * entry_row_count (value_len entry)) 0
      in rows_of_bytes (codec_write c entry bytes))"

definition signed_message :: "u16 list \<Rightarrow> u16 list \<Rightarrow> u8 list" where
  "signed_message chip_id rows =
     SIGNATURE_PREFIX @ concat (map u16_to_le_bytes (chip_id @ rows))"

section \<open>Writing\<close>

record commissioning_values =
  cv_entries :: "u16 list list"

record new_commissioning_instance =
  nc_first_row :: nat
  nc_values :: commissioning_values

record row_write =
  rw_row :: nat
  rw_value :: u16

datatype build_error =
    EmptyManufacturer | BadManufacturer | BadDate | BadSigner | BadFirstRow | DoesNotFit

definition check_manufacturer :: "u8 list \<Rightarrow> (build_error, unit) result" where
  "check_manufacturer name =
     (if name = [] then Inl EmptyManufacturer
      else
        let printable = list_all (\<lambda>b. 0x20 \<le> b \<and> b \<le> 0x7E \<and> b \<noteq> 0x2A) name in
        if \<not> printable \<or> hd name = 0x20 \<or> last name = 0x20 then Inl BadManufacturer
        else Inr ())"

definition commissioning_values_new ::
  "otp_codec \<Rightarrow> u8 list \<Rightarrow> u8 list \<Rightarrow> u8 list \<Rightarrow> u16 \<Rightarrow>
     (build_error, commissioning_values) result" where
  "commissioning_values_new c board_name manufacturer date signer =
     bind_r (check_manufacturer manufacturer) (\<lambda>_.
     if length date \<noteq> 8 \<or> \<not> list_all (\<lambda>b. 0x30 \<le> b \<and> b \<le> 0x39) date then Inl BadDate
     else if signer = 0 then Inl BadSigner
     else
       let entries = [EntryBoard board_name, EntryManufacturer manufacturer,
                      EntryDate date, EntrySigner signer];
           rows = instance_row_count (map (\<lambda>e. entry_row_count (value_len e)) entries)
       in
       if COMMISSIONING_AREA_END - OTP_COMMISSIONING_AREA_FIRST_ROW < rows
       then Inl DoesNotFit
       else Inr \<lparr>cv_entries = map (entry_rows c) entries\<rparr>)"

definition cv_message :: "commissioning_values \<Rightarrow> u16 list \<Rightarrow> u8 list" where
  "cv_message v chip_id =
     signed_message chip_id ([OTP_STORE_MAGIC, OTP_STORE_VERSION] @ concat (cv_entries v))"

definition cv_row_count :: "commissioning_values \<Rightarrow> nat" where
  "cv_row_count v = instance_row_count (map length (cv_entries v))"

definition new_instance ::
  "commissioning_values \<Rightarrow> nat \<Rightarrow> (build_error, new_commissioning_instance) result" where
  "new_instance values first_row =
     (if first_row mod OTP_PAGE_ROWS \<noteq> 0 \<or>
         \<not> (OTP_COMMISSIONING_AREA_FIRST_ROW \<le> first_row \<and> first_row < COMMISSIONING_AREA_END)
      then Inl BadFirstRow
      else if COMMISSIONING_AREA_END < first_row + cv_row_count values then Inl DoesNotFit
      else Inr \<lparr>nc_first_row = first_row, nc_values = values\<rparr>)"

text \<open>
  One entry's writes at \<open>row\<close>: indices \<open>(1..len)\<close> and then 0, so the key row goes last. An
  index out of range would panic; an entry always has its key row (\<open>entry_rows_not_Nil\<close> in
  \<open>Otp_Commission\<close>).
\<close>

definition entry_writes :: "nat \<Rightarrow> u16 list \<Rightarrow> row_write list" where
  "entry_writes row entry =
     map (\<lambda>i. \<lparr>rw_row = row + i, rw_value = entry ! i\<rparr>) ([1..<length entry] @ [0])"

fun entries_writes :: "nat \<Rightarrow> u16 list list \<Rightarrow> row_write list" where
  "entries_writes row [] = []"
| "entries_writes row (entry # entries) =
     entry_writes row entry @ entries_writes (row + length entry) entries"

definition writes ::
  "otp_codec \<Rightarrow> new_commissioning_instance \<Rightarrow> u8 list \<Rightarrow> row_write list" where
  "writes c inst signature =
     (let sig_rows = entry_rows c (EntrySig signature) in
      [\<lparr>rw_row = nc_first_row inst, rw_value = OTP_STORE_MAGIC\<rparr>,
       \<lparr>rw_row = nc_first_row inst + 1, rw_value = OTP_STORE_VERSION\<rparr>] @
      entries_writes (nc_first_row inst + 2) (cv_entries (nc_values inst) @ [sig_rows]))"

section \<open>The parsed store\<close>

datatype store_entry =
    StoreEntry (se_row: nat) otp_entry
  | StoreDeleted (se_row: nat) u16
  | StoreUnreadable (se_row: nat) u16 u16

fun store_entry_key :: "store_entry \<Rightarrow> u16 option" where
  "store_entry_key (StoreEntry _ entry) = Some (entry_key entry)"
| "store_entry_key (StoreDeleted _ _) = None"
| "store_entry_key (StoreUnreadable _ key _) = Some key"

datatype area_issue = UnknownVersion nat u16 | LostPlace nat

record commissioning_instance =
  ci_first_row :: nat
  ci_entries :: "store_entry list"
  ci_signed_rows :: "u16 list option"

record commissioning_area =
  ca_instances :: "commissioning_instance list"
  ca_issues :: "area_issue list"
  ca_current :: "nat option"
  ca_next_instance_row :: "nat option"

record general_store =
  gs_entries :: "store_entry list"
  gs_issues :: "area_issue list"

definition used :: "commissioning_instance \<Rightarrow> u16 \<Rightarrow> otp_entry option" where
  "used inst key =
     (case List.find (\<lambda>entry. store_entry_key entry = Some key) (rev (ci_entries inst)) of
        Some (StoreEntry _ entry) \<Rightarrow> Some entry
      | _ \<Rightarrow> None)"

definition ci_board :: "commissioning_instance \<Rightarrow> u8 list option" where
  "ci_board inst = (case used inst KEY_BOARD of Some (EntryBoard name) \<Rightarrow> Some name | _ \<Rightarrow> None)"

definition ci_manufacturer :: "commissioning_instance \<Rightarrow> u8 list option" where
  "ci_manufacturer inst =
     (case used inst KEY_MANUFACTURER of Some (EntryManufacturer name) \<Rightarrow> Some name | _ \<Rightarrow> None)"

definition ci_date :: "commissioning_instance \<Rightarrow> u8 list option" where
  "ci_date inst = (case used inst KEY_DATE of Some (EntryDate date) \<Rightarrow> Some date | _ \<Rightarrow> None)"

definition ci_signer :: "commissioning_instance \<Rightarrow> u16 option" where
  "ci_signer inst = (case used inst KEY_SIGNER of Some (EntrySigner i) \<Rightarrow> Some i | _ \<Rightarrow> None)"

definition ci_signature :: "commissioning_instance \<Rightarrow> u8 list option" where
  "ci_signature inst = (case used inst KEY_SIG of Some (EntrySig s) \<Rightarrow> Some s | _ \<Rightarrow> None)"

definition is_valid :: "commissioning_instance \<Rightarrow> bool" where
  "is_valid inst \<longleftrightarrow>
     ci_board inst \<noteq> None \<and> ci_manufacturer inst \<noteq> None \<and> ci_date inst \<noteq> None \<and>
     ci_signer inst \<noteq> None \<and> ci_signature inst \<noteq> None"

definition ci_message :: "commissioning_instance \<Rightarrow> u16 list \<Rightarrow> u8 list option" where
  "ci_message inst chip_id = map_option (signed_message chip_id) (ci_signed_rows inst)"

definition is_complete :: "commissioning_instance \<Rightarrow> bool" where
  "is_complete inst \<longleftrightarrow> ci_signed_rows inst \<noteq> None"

definition ca_current_instance :: "commissioning_area \<Rightarrow> commissioning_instance option" where
  "ca_current_instance a = map_option (\<lambda>i. ca_instances a ! i) (ca_current a)"

section \<open>Areas\<close>

record area =
  area_data :: "u16 list"
  area_first :: nat
  area_end :: nat

definition area_new :: "u16 list \<Rightarrow> nat \<Rightarrow> nat \<Rightarrow> area" where
  "area_new rows fst' stop' =
     (let rows' = take (min (length rows) (stop' - fst')) rows
      in \<lparr>area_data = rows', area_first = fst', area_end = fst' + length rows'\<rparr>)"

definition area_row :: "area \<Rightarrow> nat \<Rightarrow> u16 option" where
  "area_row a row =
     (if area_first a \<le> row \<and> row - area_first a < length (area_data a)
      then Some (area_data a ! (row - area_first a)) else None)"

definition area_rows :: "area \<Rightarrow> nat \<Rightarrow> nat \<Rightarrow> u16 list option" where
  "area_rows a from to =
     (if area_first a \<le> from \<and> from \<le> to \<and> to - area_first a \<le> length (area_data a)
      then Some (take (to - from) (drop (from - area_first a) (area_data a))) else None)"

definition page_after :: "nat \<Rightarrow> nat" where
  "page_after row = (row div OTP_PAGE_ROWS + 1) * OTP_PAGE_ROWS"

text \<open>The search of \<open>instance_after\<close>: the outer option is a panic, the inner one the result.\<close>

function find_magic :: "area \<Rightarrow> nat \<Rightarrow> nat option option" where
  "find_magic a boundary =
     (if boundary < area_end a then
        (case area_row a boundary of
           None \<Rightarrow> None
         | Some v \<Rightarrow>
             if v = OTP_STORE_MAGIC then Some (Some boundary)
             else find_magic a (boundary + OTP_PAGE_ROWS))
      else Some None)"
  by pat_completeness auto
termination
  by (relation "measure (\<lambda>(a, b). area_end a - b)") (auto simp: OTP_PAGE_ROWS_def)

declare find_magic.simps [simp del]

definition instance_after :: "area \<Rightarrow> nat \<Rightarrow> nat option option" where
  "instance_after a row = find_magic a (page_after row)"

definition parse_entry :: "otp_codec \<Rightarrow> u16 list \<Rightarrow> nat \<Rightarrow> store_entry option" where
  "parse_entry c rows row =
     (case rows of
        key # len # _ \<Rightarrow>
          Some (if key = OTP_KEY_NONE then StoreDeleted row len
            else
              let bytes = concat (map u16_to_le_bytes rows) in
              (case codec_parse c bytes of
                 Some entry \<Rightarrow>
                   if value_len entry = unat len then StoreEntry row entry
                   else StoreUnreadable row key len
               | None \<Rightarrow> StoreUnreadable row key len))
      | _ \<Rightarrow> None)"

datatype list_end = Terminated nat | Signature nat nat | LostAt nat

function parse_entries ::
  "otp_codec \<Rightarrow> area \<Rightarrow> nat \<Rightarrow> bool \<Rightarrow> (store_entry list \<times> list_end) option" where
  "parse_entries c a row signature_ends =
     (if row = area_end a then Some ([], Terminated (row - 1))
      else if row + 1 = area_end a then Some ([], LostAt row)
      else
        (case area_row a row of None \<Rightarrow> None | Some key \<Rightarrow>
        (case area_row a (row + 1) of None \<Rightarrow> None | Some len \<Rightarrow>
          if key = OTP_KEY_NONE \<and> len = 0 then Some ([], Terminated (row + 1))
          else
            let stop' = row + entry_row_count (unat len) in
            if area_end a < stop' then Some ([], LostAt row)
            else
              (case area_rows a row stop' of None \<Rightarrow> None | Some rows \<Rightarrow>
              (case parse_entry c rows row of None \<Rightarrow> None | Some e \<Rightarrow>
                if signature_ends \<and> key = KEY_SIG then Some ([e], Signature row (stop' - 1))
                else
                  (case parse_entries c a stop' signature_ends of
                     None \<Rightarrow> None
                   | Some (es, le) \<Rightarrow> Some (e # es, le)))))))"
  by pat_completeness auto
termination
  by (relation "measure (\<lambda>(c, a, row, s). area_end a - row)") (auto simp: entry_row_count_def)

declare parse_entries.simps [simp del]

datatype parsed_instance =
    InstEnded commissioning_instance nat
  | InstUnknownVersion u16
  | InstLost commissioning_instance nat

definition parse_instance :: "otp_codec \<Rightarrow> area \<Rightarrow> nat \<Rightarrow> parsed_instance option" where
  "parse_instance c a first_row =
     (let inst = (\<lambda>entries signed_rows.
        \<lparr>ci_first_row = first_row, ci_entries = entries, ci_signed_rows = signed_rows\<rparr>);
        version_row = first_row + 1
      in
      if version_row = area_end a then Some (InstLost (inst [] None) first_row)
      else
        (case area_row a version_row of None \<Rightarrow> None | Some version \<Rightarrow>
          if version = 0 then Some (InstEnded (inst [] None) version_row)
          else if version \<noteq> OTP_STORE_VERSION then Some (InstUnknownVersion version)
          else
            (case parse_entries c a (first_row + 2) True of
               None \<Rightarrow> None
             | Some (entries, Terminated last_row) \<Rightarrow>
                 Some (InstEnded (inst entries None) last_row)
             | Some (entries, Signature key_row last_row) \<Rightarrow>
                 (case area_rows a first_row key_row of
                    None \<Rightarrow> None
                  | Some rows \<Rightarrow> Some (InstEnded (inst entries (Some rows)) last_row))
             | Some (entries, LostAt row) \<Rightarrow> Some (InstLost (inst entries None) row))))"

lemma page_after_gt: "row < page_after row"
  using dividend_less_times_div [of 64 row] by (simp add: page_after_def OTP_PAGE_ROWS_def)

lemma page_after_mono: "row \<le> row' \<Longrightarrow> page_after row \<le> page_after row'"
  by (simp add: page_after_def OTP_PAGE_ROWS_def div_le_mono)

lemma find_magic_ge: "find_magic a b = Some (Some n) \<Longrightarrow> b \<le> n \<and> n < area_end a"
proof (induction a b rule: find_magic.induct)
  case (1 a b)
  then show ?case
    by (subst (asm) (2) find_magic.simps) (auto split: if_splits option.splits)
qed

fun list_end_row :: "list_end \<Rightarrow> nat" where
  "list_end_row (Terminated last_row) = last_row"
| "list_end_row (Signature key_row last_row) = last_row"
| "list_end_row (LostAt row) = row"

end
