(* ===== verification/Otp_Parse.thy ===== *)
theory Otp_Parse
  imports Otp_Store
begin

text \<open>
  The parsers of the two OTP areas (\<open>walk\<close>, \<open>CommissioningArea::parse\<close>,
  \<open>GeneralStore::parse\<close> of \<open>rust/metadata/src/otp.rs\<close>). The walk's termination is proved here
  for every content of the rows, and so is that no parser reads outside its rows. A parse
  that ends at a free page boundary does not depend on the rows after it
  (\<open>walk_agree\<close>), which is what lets \<open>Otp_Commission\<close> reason about an append.
\<close>

section \<open>Lists of entries as a relation\<close>

text \<open>
  The outcomes of \<open>parse_entries\<close> as an inductive relation: one rule per return of the loop
  and one for a further round. It gives the proofs a rule induction whose cases carry the
  conditions of the code's branches.
\<close>

lemma entry_row_count_ge: "2 \<le> entry_row_count n"
  by (simp add: entry_row_count_def)

inductive entries_at ::
  "otp_codec \<Rightarrow> area \<Rightarrow> bool \<Rightarrow> nat \<Rightarrow> store_entry list \<Rightarrow> list_end \<Rightarrow> bool"
  for c a s where
  full: "row = area_end a \<Longrightarrow> entries_at c a s row [] (Terminated (row - 1))"
| edge: "row + 1 = area_end a \<Longrightarrow> entries_at c a s row [] (LostAt row)"
| terminator:
    "row \<noteq> area_end a \<Longrightarrow> row + 1 \<noteq> area_end a \<Longrightarrow>
     area_row a row = Some OTP_KEY_NONE \<Longrightarrow> area_row a (row + 1) = Some 0 \<Longrightarrow>
     entries_at c a s row [] (Terminated (row + 1))"
| overrun:
    "row \<noteq> area_end a \<Longrightarrow> row + 1 \<noteq> area_end a \<Longrightarrow>
     area_row a row = Some key \<Longrightarrow> area_row a (row + 1) = Some len \<Longrightarrow>
     \<not> (key = OTP_KEY_NONE \<and> len = 0) \<Longrightarrow>
     area_end a < row + entry_row_count (unat len) \<Longrightarrow>
     entries_at c a s row [] (LostAt row)"
| signature:
    "row \<noteq> area_end a \<Longrightarrow> row + 1 \<noteq> area_end a \<Longrightarrow>
     area_row a row = Some key \<Longrightarrow> area_row a (row + 1) = Some len \<Longrightarrow>
     \<not> (key = OTP_KEY_NONE \<and> len = 0) \<Longrightarrow>
     stop' = row + entry_row_count (unat len) \<Longrightarrow> stop' \<le> area_end a \<Longrightarrow>
     area_rows a row stop' = Some rows \<Longrightarrow> parse_entry c rows row = Some e \<Longrightarrow>
     s \<Longrightarrow> key = KEY_SIG \<Longrightarrow>
     entries_at c a s row [e] (Signature row (stop' - 1))"
| entry:
    "row \<noteq> area_end a \<Longrightarrow> row + 1 \<noteq> area_end a \<Longrightarrow>
     area_row a row = Some key \<Longrightarrow> area_row a (row + 1) = Some len \<Longrightarrow>
     \<not> (key = OTP_KEY_NONE \<and> len = 0) \<Longrightarrow>
     stop' = row + entry_row_count (unat len) \<Longrightarrow> stop' \<le> area_end a \<Longrightarrow>
     area_rows a row stop' = Some rows \<Longrightarrow> parse_entry c rows row = Some e \<Longrightarrow>
     \<not> (s \<and> key = KEY_SIG) \<Longrightarrow> entries_at c a s stop' es le \<Longrightarrow>
     entries_at c a s row (e # es) le"

inductive_cases entries_atE: "entries_at c a s row es le"

lemma entries_at_parse: "entries_at c a s row es le \<Longrightarrow> parse_entries c a row s = Some (es, le)"
proof (induction rule: entries_at.induct)
  case (entry row key len stop' rows e es le)
  then show ?case by (subst parse_entries.simps) (auto simp: Let_def)
qed (subst parse_entries.simps, simp add: Let_def)+

lemma parse_entries_at: "parse_entries c a row s = Some (es, le) \<Longrightarrow> entries_at c a s row es le"
proof (induction c a row s arbitrary: es le rule: parse_entries.induct)
  case (1 c a row s)
  note step = "1.prems" [unfolded parse_entries.simps [of c a row s]]
  show ?case
  proof (cases "row = area_end a \<or> row + 1 = area_end a")
    case True
    then show ?thesis
      using step full [of row a c s] edge [of row a c s] by (auto split: if_split_asm)
  next
    case False
    then obtain key len where kl: "area_row a row = Some key" "area_row a (row + 1) = Some len"
      using step by (auto split: option.splits)
    show ?thesis
    proof (cases "key = OTP_KEY_NONE \<and> len = 0 \<or> area_end a < row + entry_row_count (unat len)")
      case True
      then show ?thesis
        using step kl False terminator [of row a c s] overrun [of row a key len c s]
        by (auto simp: Let_def split: if_splits)
    next
      case nz: False
      then obtain rows e where
        re: "area_rows a row (row + entry_row_count (unat len)) = Some rows"
        "parse_entry c rows row = Some e"
        using step kl False by (auto simp: Let_def split: option.splits if_splits)
      show ?thesis
      proof (cases "s \<and> key = KEY_SIG")
        case True
        then show ?thesis
          using step kl False nz re signature [OF _ _ kl _ refl _ re, where s = s]
          by (auto simp: Let_def)
      next
        case ns: False
        then obtain es' where
          next': "parse_entries c a (row + entry_row_count (unat len)) s = Some (es', le)"
          and es: "es = e # es'"
          using step kl False nz re by (auto simp: Let_def split: option.splits)
        have "entries_at c a s (row + entry_row_count (unat len)) es' le"
          using "1.IH" [OF _ _ kl _ refl _ re ns next'] False nz by blast
        then show ?thesis
          unfolding es using False kl nz re ns by (intro entry [OF _ _ kl _ refl _ re]) auto
      qed
    qed
  qed
qed

lemma parse_entries_iff:
  "parse_entries c a row s = Some (es, le) \<longleftrightarrow> entries_at c a s row es le"
  using parse_entries_at entries_at_parse by blast

text \<open>Where a list may end.\<close>

lemma entries_at_row:
  "entries_at c a s row es le \<Longrightarrow> row \<le> area_end a \<Longrightarrow> row - 1 \<le> list_end_row le \<and>
     (row \<noteq> area_end a \<longrightarrow> row \<le> list_end_row le)"
proof (induction rule: entries_at.induct)
  case (signature row key len stop' rows e)
  then show ?case using entry_row_count_ge [of "unat len"] by (simp del: One_nat_def) linarith
next
  case (entry row key len stop' rows e es le)
  then show ?case using entry_row_count_ge [of "unat len"] by auto
qed auto


section \<open>No parser reads outside its area\<close>

definition wf_area :: "area \<Rightarrow> bool" where
  "wf_area a \<longleftrightarrow> area_end a = area_first a + length (area_data a)"

lemma wf_area_new [simp]: "wf_area (area_new rows f t)"
  by (simp add: wf_area_def area_new_def Let_def)

lemma area_row_Some:
  "wf_area a \<Longrightarrow> area_first a \<le> row \<Longrightarrow> row < area_end a \<Longrightarrow>
     area_row a row = Some (area_data a ! (row - area_first a))"
  by (auto simp: area_row_def wf_area_def)

lemma area_rows_Some:
  "wf_area a \<Longrightarrow> area_first a \<le> f \<Longrightarrow> f \<le> t \<Longrightarrow> t \<le> area_end a \<Longrightarrow>
     area_rows a f t = Some (take (t - f) (drop (f - area_first a) (area_data a)))"
  by (auto simp: area_rows_def wf_area_def)

lemma parse_entry_Some: "2 \<le> length rows \<Longrightarrow> \<exists>e. parse_entry c rows row = Some e"
  by (cases rows; cases "tl rows") (auto simp: parse_entry_def)

lemma parse_entries_total:
  "wf_area a \<Longrightarrow> area_first a \<le> row \<Longrightarrow> row \<le> area_end a \<Longrightarrow>
     \<exists>es le. parse_entries c a row s = Some (es, le)"
proof (induction c a row s rule: parse_entries.induct)
  case (1 c a row s)
  show ?case
  proof (cases "row = area_end a \<or> row + 1 = area_end a")
    case True
    then show ?thesis by (subst parse_entries.simps) auto
  next
    case False
    then have kl: "area_row a row = Some (area_data a ! (row - area_first a))"
      "area_row a (row + 1) = Some (area_data a ! (row + 1 - area_first a))"
      using 1 by (simp_all add: area_row_Some)
    let ?len = "area_data a ! (row + 1 - area_first a)"
    let ?stop = "row + entry_row_count (unat ?len)"
    show ?thesis
    proof (cases "area_data a ! (row - area_first a) = OTP_KEY_NONE \<and> ?len = 0 \<or> area_end a < ?stop")
      case True
      then show ?thesis using False kl by (subst parse_entries.simps) (auto simp: Let_def)
    next
      case nz: False
      have rows: "area_rows a row ?stop =
          Some (take (?stop - row) (drop (row - area_first a) (area_data a)))"
        using 1 nz by (intro area_rows_Some) auto
      have "2 \<le> length (take (?stop - row) (drop (row - area_first a) (area_data a)))"
        using 1 nz entry_row_count_ge [of "unat ?len"] by (auto simp: wf_area_def)
      then obtain e where
        e: "parse_entry c (take (?stop - row) (drop (row - area_first a) (area_data a))) row = Some e"
        using parse_entry_Some by blast
      show ?thesis
      proof (cases "s \<and> area_data a ! (row - area_first a) = KEY_SIG")
        case True
        then show ?thesis using False kl nz rows e by (subst parse_entries.simps) (auto simp: Let_def)
      next
        case ns: False
        have "\<exists>es le. parse_entries c a ?stop s = Some (es, le)"
          using "1.IH" [OF _ _ kl _ refl _ rows e ns] False nz "1.prems" by force
        then show ?thesis using False kl nz rows e ns by (subst parse_entries.simps) (auto simp: Let_def)
      qed
    qed
  qed
qed


lemma entries_at_bounds:
  assumes "entries_at c a s row es le" "area_first a + 2 \<le> row" "row \<le> area_end a"
  shows "row - 1 \<le> list_end_row le" "list_end_row le < area_end a"
    "le = Signature k l \<Longrightarrow> row \<le> k \<and> k \<le> l"
    "le = LostAt r \<Longrightarrow> row \<le> r"
proof -
  show "row - 1 \<le> list_end_row le" using entries_at_row assms by blast
  show "list_end_row le < area_end a" using assms
  proof (induction rule: entries_at.induct)
    case (entry row key len stop' rows e es le)
    then show ?case using entry_row_count_ge [of "unat len"] by auto
  next
    case (signature row key len stop' rows e)
    then show ?case using entry_row_count_ge [of "unat len"] by auto
  qed auto
  show "le = Signature k l \<Longrightarrow> row \<le> k \<and> k \<le> l"
    using assms(1)
  proof (induction rule: entries_at.induct)
    case (signature row key len stop' rows e)
    then show ?case using entry_row_count_ge [of "unat len"] by (auto simp del: One_nat_def)
  qed auto
  show "le = LostAt r \<Longrightarrow> row \<le> r"
    using assms(1) by (induction rule: entries_at.induct) auto
qed

lemma entries_at_sig_le: "entries_at c a s row es le \<Longrightarrow> le = Signature k l \<Longrightarrow> k \<le> l"
proof (induction rule: entries_at.induct)
  case (signature row key len stop' rows e)
  then show ?case using entry_row_count_ge [of "unat len"] by (auto simp del: One_nat_def)
qed auto

lemma find_magic_total:
  "wf_area a \<Longrightarrow> area_first a \<le> b \<Longrightarrow> find_magic a b \<noteq> None"
proof (induction a b rule: find_magic.induct)
  case (1 a b)
  then show ?case by (subst find_magic.simps) (auto simp: area_row_Some)
qed

text \<open>The row a parsed instance leaves the walk at.\<close>

fun inst_row :: "parsed_instance \<Rightarrow> nat" where
  "inst_row (InstEnded _ last_row) = last_row"
| "inst_row (InstUnknownVersion _) = 0"
| "inst_row (InstLost _ row) = row"

lemma parse_instance_row:
  assumes "parse_instance c a b = Some p" "b < area_end a" "\<forall>v. p \<noteq> InstUnknownVersion v"
  shows "b \<le> inst_row p"
proof (cases "b + 1 = area_end a")
  case True
  then show ?thesis using assms by (auto simp: parse_instance_def Let_def)
next
  case False
  obtain v where v: "area_row a (b + 1) = Some v"
    using assms False by (auto simp: parse_instance_def Let_def split: option.splits)
  show ?thesis
  proof (cases "v = OTP_STORE_VERSION")
    case False
    then show ?thesis
      using assms v \<open>b + 1 \<noteq> area_end a\<close> by (auto simp: parse_instance_def Let_def split: if_splits)
  next
    case True
    then have "v \<noteq> 0" by (simp add: OTP_STORE_VERSION_def)
    obtain es le where pe: "parse_entries c a (b + 2) True = Some (es, le)"
      using assms v True False \<open>v \<noteq> 0\<close>
      by (auto simp: parse_instance_def Let_def split: option.splits)
    have "b \<le> list_end_row le"
      using entries_at_row [of c a True "b + 2" es le] pe assms(2) False
      by (auto simp: parse_entries_iff)
    then show ?thesis
      using assms v True False \<open>v \<noteq> 0\<close> pe
      by (auto simp: parse_instance_def Let_def split: list_end.splits option.splits)
  qed
qed

section \<open>The walk\<close>

datatype walk_end = WalkEnded "nat option" | WalkAbandoned

function walk ::
  "otp_codec \<Rightarrow> area \<Rightarrow> nat \<Rightarrow> commissioning_instance list \<Rightarrow> area_issue list \<Rightarrow>
     (commissioning_instance list \<times> area_issue list \<times> walk_end) option" where
  "walk c a boundary instances issues =
     (if boundary < area_end a then
        (case area_row a boundary of
           None \<Rightarrow> None
         | Some v \<Rightarrow>
             if v = 0 then Some (instances, issues, WalkEnded (Some boundary))
             else if v = OTP_STORE_MAGIC then
               (case parse_instance c a boundary of
                  None \<Rightarrow> None
                | Some (InstEnded inst last_row) \<Rightarrow>
                    walk c a (page_after last_row) (instances @ [inst]) issues
                | Some (InstUnknownVersion version) \<Rightarrow>
                    Some (instances, issues @ [UnknownVersion boundary version], WalkAbandoned)
                | Some (InstLost inst row) \<Rightarrow>
                    (case instance_after a row of
                       None \<Rightarrow> None
                     | Some None \<Rightarrow>
                         Some (instances @ [inst], issues @ [LostPlace row], WalkAbandoned)
                     | Some (Some next') \<Rightarrow>
                         walk c a next' (instances @ [inst]) (issues @ [LostPlace row])))
             else
               (case instance_after a boundary of
                  None \<Rightarrow> None
                | Some None \<Rightarrow> Some (instances, issues @ [LostPlace boundary], WalkAbandoned)
                | Some (Some next') \<Rightarrow> walk c a next' instances (issues @ [LostPlace boundary])))
      else Some (instances, issues, WalkEnded None))"
  by pat_completeness auto

lemma instance_after_gt: "instance_after a row = Some (Some n) \<Longrightarrow> row < n \<and> n < area_end a"
  unfolding instance_after_def using find_magic_ge page_after_gt less_le_trans by blast

termination walk
proof (relation "measure (\<lambda>(c, a, b, is, es). area_end a - b)", goal_cases)
  case (2 c a b instances issues v p inst last_row)
  then have "b \<le> last_row" using parse_instance_row [of c a b p] by auto
  then show ?case using page_after_gt [of last_row] 2 by auto
next
  case (3 c a b instances issues v p inst row n next')
  then have "b \<le> row" using parse_instance_row [of c a b p] by auto
  then show ?case using instance_after_gt [of a row next'] 3 by auto
next
  case (4 c a b instances issues v n next')
  then show ?case using instance_after_gt [of a b next'] by auto
qed auto

declare walk.simps [simp del]

definition rposition :: "('a \<Rightarrow> bool) \<Rightarrow> 'a list \<Rightarrow> nat option" where
  "rposition P xs = List.find (\<lambda>i. P (xs ! i)) (rev [0..<length xs])"

definition commissioning_area_parse :: "otp_codec \<Rightarrow> u16 list \<Rightarrow> commissioning_area option" where
  "commissioning_area_parse c rows =
     (let a = area_new rows OTP_COMMISSIONING_AREA_FIRST_ROW COMMISSIONING_AREA_END in
      case walk c a (area_first a) [] [] of
        None \<Rightarrow> None
      | Some (instances, issues, w) \<Rightarrow>
          let (current, next_row) =
            (case w of
               WalkEnded next_row \<Rightarrow>
                 ((case rposition is_complete instances of
                     None \<Rightarrow> None
                   | Some i \<Rightarrow> if is_valid (instances ! i) then Some i else None),
                  next_row)
             | WalkAbandoned \<Rightarrow> (None, None))
          in Some \<lparr>ca_instances = instances, ca_issues = issues, ca_current = current,
                   ca_next_instance_row = next_row\<rparr>)"

text \<open>The outer option is a panic; the inner one is \<open>None\<close> for a store not started.\<close>

definition general_store_parse :: "otp_codec \<Rightarrow> u16 list \<Rightarrow> general_store option option" where
  "general_store_parse c rows =
     (let a = area_new rows OTP_GENERAL_STORE_FIRST_ROW GENERAL_STORE_END;
          fst' = area_first a
      in
      if area_end a < fst' + 2 then Some None
      else
        (case area_row a fst' of None \<Rightarrow> None | Some magic \<Rightarrow>
          if magic \<noteq> OTP_STORE_MAGIC then Some None
          else
            (case area_row a (fst' + 1) of None \<Rightarrow> None | Some version \<Rightarrow>
              if version = 0 then Some None
              else if version = OTP_STORE_VERSION then
                (case parse_entries c a (fst' + 2) False of
                   None \<Rightarrow> None
                 | Some (entries, LostAt row) \<Rightarrow>
                     Some (Some \<lparr>gs_entries = entries, gs_issues = [LostPlace row]\<rparr>)
                 | Some (entries, _) \<Rightarrow>
                     Some (Some \<lparr>gs_entries = entries, gs_issues = []\<rparr>))
              else Some (Some \<lparr>gs_entries = [], gs_issues = [UnknownVersion fst' version]\<rparr>))))"


section \<open>The parsers return on every content\<close>

lemma parse_instance_total:
  assumes "wf_area a" "area_first a \<le> b" "b < area_end a"
  shows "\<exists>p. parse_instance c a b = Some p"
proof (cases "b + 1 = area_end a")
  case True
  then show ?thesis by (simp add: parse_instance_def Let_def)
next
  case False
  then have v: "area_row a (b + 1) = Some (area_data a ! (b + 1 - area_first a))"
    using assms by (intro area_row_Some) auto
  obtain es le where pe: "parse_entries c a (b + 2) True = Some (es, le)"
    using parse_entries_total [of a "b + 2" c True] assms False by auto
  have rows: "\<exists>rows. area_rows a b k = Some rows" if "le = Signature k l" for k l
  proof -
    have "b + 2 \<le> k" "k \<le> l"
      using entries_at_bounds(3) [of c a True "b + 2" es le k l] pe assms False that
      by (auto simp: parse_entries_iff)
    moreover have "l < area_end a"
      using entries_at_bounds(2) [of c a True "b + 2" es le] pe assms False that
      by (auto simp: parse_entries_iff)
    ultimately show ?thesis using assms by (auto simp: area_rows_Some)
  qed
  show ?thesis
    using v pe rows by (cases le) (auto simp: parse_instance_def Let_def)
qed

lemma instance_after_total:
  "wf_area a \<Longrightarrow> area_first a \<le> row \<Longrightarrow> instance_after a row \<noteq> None"
  unfolding instance_after_def using page_after_gt [of row]
  by (intro find_magic_total) auto

lemma walk_total:
  "wf_area a \<Longrightarrow> area_first a \<le> b \<Longrightarrow> walk c a b is es \<noteq> None"
proof (induction c a b "is" es rule: walk.induct)
  case (1 c a b "is" es)
  show ?case
  proof (cases "b < area_end a")
    case False
    then show ?thesis by (subst walk.simps) simp
  next
    case inside: True
    let ?v = "area_data a ! (b - area_first a)"
    have v: "area_row a b = Some ?v" using 1 inside by (simp add: area_row_Some)
    consider (free) "?v = 0" | (magic) "?v \<noteq> 0" "?v = OTP_STORE_MAGIC"
      | (other) "?v \<noteq> 0" "?v \<noteq> OTP_STORE_MAGIC" by blast
    then show ?thesis
    proof cases
      case free
      then show ?thesis using inside v by (subst walk.simps) simp
    next
      case other
      have ia: "instance_after a b \<noteq> None" using 1 instance_after_total by blast
      show ?thesis
      proof (cases "instance_after a b")
        case (Some n)
        then show ?thesis
          using "1.IH"(3) [OF inside v other Some] inside v other "1.prems"
            instance_after_gt [of a b]
          by (subst walk.simps) (auto split: option.splits)
      qed (use ia in simp)
    next
      case magic
      obtain p where p: "parse_instance c a b = Some p"
        using parse_instance_total 1 inside by blast
      show ?thesis
      proof (cases p)
        case (InstEnded inst l)
        then have "b \<le> l" using parse_instance_row [OF p inside] by auto
        then have "walk c a (page_after l) (is @ [inst]) es \<noteq> None"
          using "1.IH"(1) [OF inside v magic p InstEnded] "1.prems" page_after_gt [of l] by simp
        then show ?thesis using inside v magic p InstEnded by (subst walk.simps) simp
      next
        case (InstUnknownVersion x)
        then show ?thesis using inside v magic p by (subst walk.simps) simp
      next
        case (InstLost inst r)
        then have "b \<le> r" using parse_instance_row [OF p inside] by auto
        then have ia: "instance_after a r \<noteq> None"
          using instance_after_total "1.prems" by force
        show ?thesis
        proof (cases "instance_after a r")
          case (Some n)
          show ?thesis
          proof (cases n)
            case None
            then show ?thesis
              using inside v magic p InstLost Some by (subst walk.simps) simp
          next
            case (Some m)
            have "walk c a m (is @ [inst]) (es @ [LostPlace r]) \<noteq> None"
              using "1.IH"(2) [OF inside v magic p InstLost \<open>instance_after a r = Some n\<close> Some]
                "1.prems" \<open>b \<le> r\<close> instance_after_gt [of a r m] Some \<open>instance_after a r = Some n\<close>
              by simp
            then show ?thesis
              using inside v magic p InstLost Some \<open>instance_after a r = Some n\<close>
              by (subst walk.simps) simp
          qed
        qed (use ia in simp)
      qed
    qed
  qed
qed

lemma commissioning_parse_total: "\<exists>ca. commissioning_area_parse c rows = Some ca"
proof -
  let ?a = "area_new rows OTP_COMMISSIONING_AREA_FIRST_ROW COMMISSIONING_AREA_END"
  have "walk c ?a (area_first ?a) [] [] \<noteq> None" by (rule walk_total) auto
  then show ?thesis
    by (auto simp: commissioning_area_parse_def Let_def split: prod.splits)
qed

text \<open>
  Whatever the rows hold and however entries are decoded, both parsers return: neither
  loops, and neither indexes outside the rows it was given (the panics of the source).
\<close>

theorem otp_parsers_total:
  "commissioning_area_parse c rows \<noteq> None \<and> general_store_parse c rows \<noteq> None"
proof
  show "commissioning_area_parse c rows \<noteq> None" using commissioning_parse_total [of c rows] by auto
  let ?g = "area_new rows OTP_GENERAL_STORE_FIRST_ROW GENERAL_STORE_END"
  show "general_store_parse c rows \<noteq> None"
  proof (cases "area_end ?g < area_first ?g + 2")
    case False
    then obtain es le where "parse_entries c ?g (area_first ?g + 2) False = Some (es, le)"
      using parse_entries_total [of ?g "area_first ?g + 2" c False] by auto
    moreover have "area_row ?g (area_first ?g) \<noteq> None" "area_row ?g (area_first ?g + 1) \<noteq> None"
      using False by (simp_all add: area_row_Some)
    ultimately show ?thesis
      using False by (auto simp: general_store_parse_def Let_def split: list_end.splits)
  qed (simp add: general_store_parse_def Let_def)
qed


section \<open>The walk as a relation\<close>

lemma magic_not_zero [simp]: "OTP_STORE_MAGIC \<noteq> 0" "OTP_STORE_VERSION \<noteq> 0"
  by (simp_all add: OTP_STORE_MAGIC_def OTP_STORE_VERSION_def)

inductive walk_at ::
  "otp_codec \<Rightarrow> area \<Rightarrow> nat \<Rightarrow> commissioning_instance list \<Rightarrow> area_issue list \<Rightarrow>
     commissioning_instance list \<Rightarrow> area_issue list \<Rightarrow> walk_end \<Rightarrow> bool"
  for c a where
  all_read: "\<not> b < area_end a \<Longrightarrow> walk_at c a b is es is es (WalkEnded None)"
| free: "b < area_end a \<Longrightarrow> area_row a b = Some 0 \<Longrightarrow>
     walk_at c a b is es is es (WalkEnded (Some b))"
| unknown: "b < area_end a \<Longrightarrow> area_row a b = Some OTP_STORE_MAGIC \<Longrightarrow>
     parse_instance c a b = Some (InstUnknownVersion v) \<Longrightarrow>
     walk_at c a b is es is (es @ [UnknownVersion b v]) WalkAbandoned"
| ended: "b < area_end a \<Longrightarrow> area_row a b = Some OTP_STORE_MAGIC \<Longrightarrow>
     parse_instance c a b = Some (InstEnded inst l) \<Longrightarrow>
     walk_at c a (page_after l) (is @ [inst]) es is' es' w \<Longrightarrow>
     walk_at c a b is es is' es' w"
| lost: "b < area_end a \<Longrightarrow> area_row a b = Some OTP_STORE_MAGIC \<Longrightarrow>
     parse_instance c a b = Some (InstLost inst x) \<Longrightarrow> instance_after a x = Some (Some n) \<Longrightarrow>
     walk_at c a n (is @ [inst]) (es @ [LostPlace x]) is' es' w \<Longrightarrow>
     walk_at c a b is es is' es' w"
| lost_end: "b < area_end a \<Longrightarrow> area_row a b = Some OTP_STORE_MAGIC \<Longrightarrow>
     parse_instance c a b = Some (InstLost inst x) \<Longrightarrow> instance_after a x = Some None \<Longrightarrow>
     walk_at c a b is es (is @ [inst]) (es @ [LostPlace x]) WalkAbandoned"
| stray: "b < area_end a \<Longrightarrow> area_row a b = Some v \<Longrightarrow> v \<noteq> 0 \<Longrightarrow> v \<noteq> OTP_STORE_MAGIC \<Longrightarrow>
     instance_after a b = Some (Some n) \<Longrightarrow>
     walk_at c a n is (es @ [LostPlace b]) is' es' w \<Longrightarrow>
     walk_at c a b is es is' es' w"
| stray_end: "b < area_end a \<Longrightarrow> area_row a b = Some v \<Longrightarrow> v \<noteq> 0 \<Longrightarrow> v \<noteq> OTP_STORE_MAGIC \<Longrightarrow>
     instance_after a b = Some None \<Longrightarrow>
     walk_at c a b is es is (es @ [LostPlace b]) WalkAbandoned"

lemma walk_at_walk:
  "walk_at c a b is es is' es' w \<Longrightarrow> walk c a b is es = Some (is', es', w)"
  by (induction rule: walk_at.induct) (subst walk.simps, simp)+

lemma walk_walk_at:
  "walk c a b is es = Some (is', es', w) \<Longrightarrow> walk_at c a b is es is' es' w"
proof (induction c a b "is" es arbitrary: is' es' w rule: walk.induct)
  case (1 c a b "is" es)
  note step = "1.prems" [unfolded walk.simps [of c a b "is" es]]
  show ?case
  proof (cases "b < area_end a")
    case False
    then show ?thesis using step by (auto intro: all_read)
  next
    case inside: True
    then obtain v where v: "area_row a b = Some v" using step by (auto split: option.splits)
    consider (free) "v = 0" | (magic) "v \<noteq> 0" "v = OTP_STORE_MAGIC"
      | (other) "v \<noteq> 0" "v \<noteq> OTP_STORE_MAGIC" by blast
    then show ?thesis
    proof cases
      case free
      then show ?thesis using step inside v by (auto intro: walk_at.free)
    next
      case other
      obtain n where n: "instance_after a b = Some n"
        using step inside v other by (auto split: option.splits)
      show ?thesis
      proof (cases n)
        case None
        then show ?thesis using step inside v other n by (auto intro: stray_end)
      next
        case (Some m)
        then have "walk c a m is (es @ [LostPlace b]) = Some (is', es', w)"
          using step inside v other n by simp
        then show ?thesis
          using "1.IH"(3) [OF inside v other n Some] stray [OF inside v other] n Some by blast
      qed
    next
      case magic
      obtain p where p: "parse_instance c a b = Some p"
        using step inside v magic by (auto split: option.splits)
      show ?thesis
      proof (cases p)
        case (InstEnded inst l)
        then have "walk c a (page_after l) (is @ [inst]) es = Some (is', es', w)"
          using step inside v magic p by simp
        then show ?thesis
          using "1.IH"(1) [OF inside v magic p InstEnded] ended [OF inside] v magic p InstEnded
          by blast
      next
        case (InstUnknownVersion x)
        then show ?thesis using step inside v magic p by (auto intro: unknown)
      next
        case (InstLost inst x)
        obtain n where n: "instance_after a x = Some n"
          using step inside v magic p InstLost by (auto split: option.splits)
        show ?thesis
        proof (cases n)
          case None
          then show ?thesis using step inside v magic p InstLost n by (auto intro: lost_end)
        next
          case (Some m)
          then have "walk c a m (is @ [inst]) (es @ [LostPlace x]) = Some (is', es', w)"
            using step inside v magic p InstLost n by simp
          then show ?thesis
            using "1.IH"(2) [OF inside v magic p InstLost n Some] lost [OF inside] v magic p
              InstLost n Some by blast
        qed
      qed
    qed
  qed
qed

lemma walk_iff: "walk c a b is es = Some (is', es', w) \<longleftrightarrow> walk_at c a b is es is' es' w"
  using walk_walk_at walk_at_walk by blast

section \<open>What the walk finds\<close>

lemma page_after_aligned [simp]: "page_after row mod OTP_PAGE_ROWS = 0"
  by (simp add: page_after_def)

lemma page_after_boundary: "b mod OTP_PAGE_ROWS = 0 \<Longrightarrow> page_after b = b + 64"
  by (auto simp: page_after_def OTP_PAGE_ROWS_def)

lemma find_magic_found:
  "find_magic a b = Some (Some n) \<Longrightarrow>
     area_row a n = Some OTP_STORE_MAGIC \<and> n mod OTP_PAGE_ROWS = b mod OTP_PAGE_ROWS"
proof (induction a b rule: find_magic.induct)
  case (1 a b)
  then show ?case
    by (subst (asm) (2) find_magic.simps) (auto split: if_splits option.splits)
qed

lemma instance_after_found:
  assumes "instance_after a row = Some (Some n)"
  shows "area_row a n = Some OTP_STORE_MAGIC" "n mod OTP_PAGE_ROWS = 0" "row < n" "n < area_end a"
  using assms find_magic_found [of a "page_after row" n] instance_after_gt [OF assms]
  by (auto simp: instance_after_def)

lemma ended_row_gt: "parse_instance c a b = Some (InstEnded inst l) \<Longrightarrow> b < area_end a \<Longrightarrow> b < page_after l"
  using parse_instance_row [of c a b "InstEnded inst l"] page_after_gt [of l] by auto

lemma lost_row_ge: "parse_instance c a b = Some (InstLost inst x) \<Longrightarrow> b < area_end a \<Longrightarrow> b \<le> x"
  using parse_instance_row [of c a b "InstLost inst x"] by auto

lemma walk_at_free_row:
  "walk_at c a b is es is' es' w \<Longrightarrow> b mod OTP_PAGE_ROWS = 0 \<Longrightarrow> w = WalkEnded (Some r) \<Longrightarrow>
     b \<le> r \<and> r < area_end a \<and> area_row a r = Some 0 \<and> r mod OTP_PAGE_ROWS = 0"
proof (induction rule: walk_at.induct)
  case (ended b inst l "is" es is' es' w)
  then show ?case using ended_row_gt [OF ended(3,1)] by auto
next
  case (lost b inst x n "is" es is' es' w)
  then show ?case
    using instance_after_found [OF lost(4)] lost_row_ge [OF lost(3,1)] by auto
next
  case (stray b v n "is" es is' es' w)
  then show ?case using instance_after_found [OF stray(5)] by auto
qed auto

lemma parse_instance_first_row:
  "parse_instance c a b = Some (InstEnded inst l) \<Longrightarrow> ci_first_row inst = b"
  "parse_instance c a b = Some (InstLost inst l) \<Longrightarrow> ci_first_row inst = b"
  by (auto simp: parse_instance_def Let_def split: if_splits option.splits list_end.splits)

lemma walk_at_instances:
  "walk_at c a b is es is' es' w \<Longrightarrow> b mod OTP_PAGE_ROWS = 0 \<Longrightarrow> area_first a \<le> b \<Longrightarrow>
     \<exists>new. is' = is @ new \<and> sorted_wrt (<) (map ci_first_row new) \<and>
       (\<forall>i\<in>set new. b \<le> ci_first_row i \<and> ci_first_row i < area_end a \<and>
          ci_first_row i mod OTP_PAGE_ROWS = 0 \<and>
          area_row a (ci_first_row i) = Some OTP_STORE_MAGIC \<and>
          (\<forall>r. w = WalkEnded (Some r) \<longrightarrow> ci_first_row i < r))"
proof (induction rule: walk_at.induct)
  case (ended b inst l "is" es is' es' w)
  note gt = ended_row_gt [OF ended(3,1)]
  from ended gt obtain new where
    "is' = (is @ [inst]) @ new" "sorted_wrt (<) (map ci_first_row new)"
    "\<forall>i\<in>set new. page_after l \<le> ci_first_row i \<and> ci_first_row i < area_end a \<and>
      ci_first_row i mod OTP_PAGE_ROWS = 0 \<and> area_row a (ci_first_row i) = Some OTP_STORE_MAGIC \<and>
      (\<forall>r. w = WalkEnded (Some r) \<longrightarrow> ci_first_row i < r)"
    by auto
  then show ?case
    using ended gt parse_instance_first_row(1) [OF ended(3)] walk_at_free_row [OF ended(4)]
    by (intro exI [of _ "inst # new"]) fastforce
next
  case (lost b inst x n "is" es is' es' w)
  note f = instance_after_found [OF lost(4)] lost_row_ge [OF lost(3,1)]
  from lost f obtain new where
    "is' = (is @ [inst]) @ new" "sorted_wrt (<) (map ci_first_row new)"
    "\<forall>i\<in>set new. n \<le> ci_first_row i \<and> ci_first_row i < area_end a \<and>
      ci_first_row i mod OTP_PAGE_ROWS = 0 \<and> area_row a (ci_first_row i) = Some OTP_STORE_MAGIC \<and>
      (\<forall>r. w = WalkEnded (Some r) \<longrightarrow> ci_first_row i < r)"
    by auto
  then show ?case
    using lost f parse_instance_first_row(2) [OF lost(3)] walk_at_free_row [OF lost(5)]
    by (intro exI [of _ "inst # new"]) fastforce
next
  case (stray b v n "is" es is' es' w)
  note f = instance_after_found [OF stray(5)]
  from stray f obtain new where "is' = is @ new" "sorted_wrt (<) (map ci_first_row new)"
    "\<forall>i\<in>set new. n \<le> ci_first_row i \<and> ci_first_row i < area_end a \<and>
      ci_first_row i mod OTP_PAGE_ROWS = 0 \<and> area_row a (ci_first_row i) = Some OTP_STORE_MAGIC \<and>
      (\<forall>r. w = WalkEnded (Some r) \<longrightarrow> ci_first_row i < r)"
    by auto
  then show ?case using f by (intro exI [of _ new]) fastforce
qed (auto dest: parse_instance_first_row)


lemma rposition_snoc:
  "rposition P (xs @ [x]) = (if P x then Some (length xs) else rposition P xs)"
proof -
  have "List.find (\<lambda>i. P ((xs @ [x]) ! i)) (rev [0..<length xs]) =
      List.find (\<lambda>i. P (xs ! i)) (rev [0..<length xs])"
    by (rule find_cong) (auto simp: nth_append)
  then show ?thesis by (simp add: rposition_def)
qed

lemma rposition_Some:
  "rposition P xs = Some i \<Longrightarrow> i < length xs \<and> P (xs ! i) \<and> (\<forall>j<length xs. i < j \<longrightarrow> \<not> P (xs ! j))"
proof (induction xs rule: rev_induct)
  case (snoc x xs)
  then show ?case by (auto simp: rposition_snoc nth_append less_Suc_eq split: if_splits)
qed (simp add: rposition_def)

lemma commissioning_parse_walk:
  assumes "commissioning_area_parse c rows = Some ca"
  defines "a \<equiv> area_new rows OTP_COMMISSIONING_AREA_FIRST_ROW COMMISSIONING_AREA_END"
  obtains w where
    "walk_at c a OTP_COMMISSIONING_AREA_FIRST_ROW [] [] (ca_instances ca) (ca_issues ca) w"
    "ca_next_instance_row ca = (case w of WalkEnded r \<Rightarrow> r | WalkAbandoned \<Rightarrow> None)"
    "ca_current ca = (case w of WalkAbandoned \<Rightarrow> None
       | WalkEnded _ \<Rightarrow> (case rposition is_complete (ca_instances ca) of
           None \<Rightarrow> None | Some i \<Rightarrow> if is_valid (ca_instances ca ! i) then Some i else None))"
proof -
  have "area_first a = OTP_COMMISSIONING_AREA_FIRST_ROW"
    by (simp add: a_def area_new_def Let_def)
  then show thesis
    using assms that
    by (auto simp: commissioning_area_parse_def Let_def walk_iff
        split: option.splits prod.splits walk_end.splits)
qed

text \<open>
  C22: what a parsed commissioning area holds. Its instances start at increasing page
  boundaries inside the area that hold the magic value; the row offered for the next instance
  is an unwritten page boundary after all of them; and the current instance is valid,
  complete, and the last complete one.
\<close>

theorem commissioning_area_contents:
  assumes "commissioning_area_parse c rows = Some ca"
  shows "sorted_wrt (<) (map ci_first_row (ca_instances ca)) \<and>
    (\<forall>i\<in>set (ca_instances ca).
       OTP_COMMISSIONING_AREA_FIRST_ROW \<le> ci_first_row i \<and>
       ci_first_row i < COMMISSIONING_AREA_END \<and> ci_first_row i mod OTP_PAGE_ROWS = 0 \<and>
       get rows (ci_first_row i - OTP_COMMISSIONING_AREA_FIRST_ROW) = Some OTP_STORE_MAGIC) \<and>
    (\<forall>r. ca_next_instance_row ca = Some r \<longrightarrow>
       OTP_COMMISSIONING_AREA_FIRST_ROW \<le> r \<and> r < COMMISSIONING_AREA_END \<and>
       r mod OTP_PAGE_ROWS = 0 \<and>
       get rows (r - OTP_COMMISSIONING_AREA_FIRST_ROW) = Some 0 \<and>
       (\<forall>i\<in>set (ca_instances ca). ci_first_row i < r)) \<and>
    (\<forall>k. ca_current ca = Some k \<longrightarrow>
       k < length (ca_instances ca) \<and> is_complete (ca_instances ca ! k) \<and>
       is_valid (ca_instances ca ! k) \<and>
       (\<forall>j<length (ca_instances ca). k < j \<longrightarrow> \<not> is_complete (ca_instances ca ! j)))"
proof -
  define a where "a = area_new rows OTP_COMMISSIONING_AREA_FIRST_ROW COMMISSIONING_AREA_END"
  obtain w where w:
    "walk_at c a OTP_COMMISSIONING_AREA_FIRST_ROW [] [] (ca_instances ca) (ca_issues ca) w"
    and next': "ca_next_instance_row ca = (case w of WalkEnded r \<Rightarrow> r | WalkAbandoned \<Rightarrow> None)"
    and cur: "ca_current ca = (case w of WalkAbandoned \<Rightarrow> None
       | WalkEnded _ \<Rightarrow> (case rposition is_complete (ca_instances ca) of
           None \<Rightarrow> None | Some i \<Rightarrow> if is_valid (ca_instances ca ! i) then Some i else None))"
    using commissioning_parse_walk [OF assms] unfolding a_def by blast
  have first: "area_first a = OTP_COMMISSIONING_AREA_FIRST_ROW" and
    stop': "area_end a \<le> COMMISSIONING_AREA_END"
    by (auto simp: a_def area_new_def Let_def otp_constants)
  have al: "OTP_COMMISSIONING_AREA_FIRST_ROW mod OTP_PAGE_ROWS = 0" by (simp add: otp_constants)
  have row: "get rows (i - OTP_COMMISSIONING_AREA_FIRST_ROW) = Some v"
    if "area_row a i = Some v" for i v
    using that by (auto simp: a_def area_new_def Let_def area_row_def get_def split: if_splits)
  note inst = walk_at_instances [OF w al]
  have "sorted_wrt (<) (map ci_first_row (ca_instances ca))"
    and each: "\<forall>i\<in>set (ca_instances ca).
        OTP_COMMISSIONING_AREA_FIRST_ROW \<le> ci_first_row i \<and> ci_first_row i < area_end a \<and>
        ci_first_row i mod OTP_PAGE_ROWS = 0 \<and> area_row a (ci_first_row i) = Some OTP_STORE_MAGIC \<and>
        (\<forall>r. w = WalkEnded (Some r) \<longrightarrow> ci_first_row i < r)"
    using inst first by auto
  moreover have "OTP_COMMISSIONING_AREA_FIRST_ROW \<le> r \<and> r < area_end a \<and>
      area_row a r = Some 0 \<and> r mod OTP_PAGE_ROWS = 0 \<and> w = WalkEnded (Some r)"
    if "ca_next_instance_row ca = Some r" for r
    using walk_at_free_row [OF w al] next' that by (auto split: walk_end.splits)
  ultimately show ?thesis
    using row stop' cur rposition_Some [of is_complete "ca_instances ca"]
    by (auto split: walk_end.splits option.splits if_splits intro: less_le_trans)
qed

section \<open>Locality\<close>

text \<open>Two areas of the same extent that agree below row \<open>r\<close>.\<close>

definition agree :: "nat \<Rightarrow> area \<Rightarrow> area \<Rightarrow> bool" where
  "agree r a a' \<longleftrightarrow>
     area_first a' = area_first a \<and> area_end a' = area_end a \<and>
     length (area_data a') = length (area_data a) \<and>
     take (r - area_first a) (area_data a') = take (r - area_first a) (area_data a)"

lemma agree_row: "agree r a a' \<Longrightarrow> i < r \<Longrightarrow> area_row a' i = area_row a i"
  unfolding agree_def area_row_def
  by (auto dest!: arg_cong [of "take _ _" _ "\<lambda>xs. xs ! (i - area_first a)"])

lemma agree_rows:
  assumes "agree r a a'" "t \<le> r"
  shows "area_rows a' f t = area_rows a f t"
proof -
  have *: "take (t - area_first a) (area_data a') = take (t - area_first a) (area_data a)"
    using assms unfolding agree_def
    by (metis diff_le_mono min.absorb1 take_take)
  have "take (t - f) (drop (f - area_first a) (area_data a')) =
      take (t - f) (drop (f - area_first a) (area_data a))" if "area_first a \<le> f" "f \<le> t"
  proof -
    have "t - f + (f - area_first a) = t - area_first a" using that by simp
    then show ?thesis using * by (simp add: take_drop)
  qed
  then show ?thesis using assms by (simp add: area_rows_def agree_def)
qed

lemma entries_at_agree:
  "entries_at c a s row es le \<Longrightarrow> agree r a a' \<Longrightarrow> list_end_row le < r \<Longrightarrow>
     (\<forall>x. le = LostAt x \<longrightarrow> x + 1 < r) \<Longrightarrow> entries_at c a' s row es le"
proof (induction rule: entries_at.induct)
  case (full row)
  then show ?case using entries_at.full [of row a' c s] by (simp add: agree_def)
next
  case (edge row)
  then show ?case using entries_at.edge [of row a' c s] by (simp add: agree_def)
next
  case (terminator row)
  then show ?case
    by (intro entries_at.terminator) (auto simp: agree_row, auto simp: agree_def)
next
  case (overrun row key len)
  then show ?case
    by (intro entries_at.overrun [of _ _ key len]) (auto simp: agree_row, auto simp: agree_def)
next
  case (signature row key len stop' rows e)
  then have "stop' \<le> r" "row + 1 < r"
    using entry_row_count_ge [of "unat len"] by auto
  with signature show ?case
    by (intro entries_at.signature [of _ _ key len stop' rows])
      (auto simp: agree_row agree_rows, auto simp: agree_def)
next
  case (entry row key len stop' rows e es le)
  then have "stop' - 1 \<le> list_end_row le" using entries_at_row by blast
  then have "stop' \<le> r" "row + 1 < r"
    using entry entry_row_count_ge [of "unat len"] by auto
  with entry show ?case
    by (intro entries_at.entry [of _ _ key len stop' rows])
      (auto simp: agree_row agree_rows, auto simp: agree_def)
qed


lemma parse_instance_agree:
  assumes "agree r a a'" "parse_instance c a b = Some p" "b + 1 < r" "b < area_end a"
    and "(\<exists>inst l. p = InstEnded inst l \<and> l < r) \<or> (\<exists>inst x. p = InstLost inst x \<and> x + 1 < r)"
  shows "parse_instance c a' b = Some p"
proof (cases "b + 1 = area_end a")
  case True
  then show ?thesis using assms by (auto simp: parse_instance_def Let_def agree_def)
next
  case False
  obtain v where v: "area_row a (b + 1) = Some v"
    using assms False by (auto simp: parse_instance_def Let_def split: option.splits)
  have v': "area_row a' (b + 1) = Some v" using v assms agree_row by metis
  have stop': "area_end a' = area_end a" using assms by (simp add: agree_def)
  show ?thesis
  proof (cases "v = OTP_STORE_VERSION")
    case other: False
    then show ?thesis using assms(2) v v' False stop' by (auto simp: parse_instance_def Let_def)
  next
    case True
    obtain es le where pe: "parse_entries c a (b + 2) True = Some (es, le)"
      using assms(2) v True False by (auto simp: parse_instance_def Let_def split: option.splits)
    have le: "list_end_row le < r" "\<forall>x. le = LostAt x \<longrightarrow> x + 1 < r"
      using assms(2,5) v True False pe
      by (cases le; auto simp: parse_instance_def Let_def split: option.splits)+
    have pe': "parse_entries c a' (b + 2) True = Some (es, le)"
      using entries_at_agree [OF _ assms(1) le] pe by (simp add: parse_entries_iff)
    have "area_rows a' b k = area_rows a b k" if "le = Signature k l" for k l
    proof -
      have "k \<le> l"
        using pe that entries_at_row [of c a True "b + 2" es le] unfolding parse_entries_iff
        by (auto dest: entries_at_sig_le)
      then show ?thesis using le that agree_rows [OF assms(1)] by simp
    qed
    then show ?thesis
      using assms(2) v v' True False stop' pe pe'
      by (cases le) (auto simp: parse_instance_def Let_def)
  qed
qed

lemma find_magic_agree:
  "find_magic a b = Some (Some n) \<Longrightarrow> agree r a a' \<Longrightarrow> n < r \<Longrightarrow> find_magic a' b = Some (Some n)"
proof (induction a b rule: find_magic.induct)
  case (1 a b)
  have b: "b \<le> n" "n < area_end a" using find_magic_ge [OF 1(2)] by auto
  then have row: "area_row a' b = area_row a b" using 1 agree_row by (meson le_less_trans)
  have stop': "area_end a' = area_end a" using 1 by (simp add: agree_def)
  obtain v where v: "area_row a b = Some v"
    using 1(2) b by (subst (asm) find_magic.simps) (auto split: option.splits)
  show ?case
  proof (cases "v = OTP_STORE_MAGIC")
    case True
    then show ?thesis
      using 1(2) b v row stop' by (subst (asm) find_magic.simps) (subst find_magic.simps, simp)
  next
    case False
    then have "find_magic a (b + OTP_PAGE_ROWS) = Some (Some n)"
      using 1(2) b v by (subst (asm) find_magic.simps) simp
    then show ?thesis
      using "1.IH" [OF _ v False] 1 b False v row stop' by (subst find_magic.simps) simp
  qed
qed

text \<open>
  The walk of \<open>a\<close> that ends at the free row \<open>r\<close> is, in an area that agrees below \<open>r\<close>, the
  beginning of the walk there.
\<close>

lemma walk_agree:
  "walk_at c a b is es is' es' w \<Longrightarrow> w = WalkEnded (Some r) \<Longrightarrow> agree r a a' \<Longrightarrow>
     b mod OTP_PAGE_ROWS = 0 \<Longrightarrow> walk_at c a' r is' es' is2 es2 w2 \<Longrightarrow>
     walk_at c a' b is es is2 es2 w2"
proof (induction rule: walk_at.induct)
  case (free b "is" es)
  then show ?case by simp
next
  case (ended b inst l "is" es is' es' w)
  have r: "page_after l \<le> r" "r < area_end a" using walk_at_free_row [OF ended(4)] ended by auto
  have l: "b < page_after l" "b \<le> l" "l < page_after l"
    using ended_row_gt [OF ended(3,1)] parse_instance_row [OF ended(3,1)] page_after_gt by auto
  have "b + 1 < r"
    using page_after_mono [OF l(2)] page_after_boundary [OF ended.prems(3)] r(1) by linarith
  then have "parse_instance c a' b = Some (InstEnded inst l)"
    using parse_instance_agree [OF ended.prems(2) ended(3)] l r ended(1) by auto
  moreover have "area_row a' b = Some OTP_STORE_MAGIC" "b < area_end a'"
    using agree_row [OF ended.prems(2)] ended(1,2) l r ended.prems(2) by (auto simp: agree_def)
  ultimately show ?case using ended by (auto intro: walk_at.ended)
next
  case (lost b inst x n "is" es is' es' w)
  note f = instance_after_found [OF lost(4)] lost_row_ge [OF lost(3,1)]
  have r: "n \<le> r" "area_row a r = Some 0" using walk_at_free_row [OF lost(5)] lost f by auto
  then have "n < r" using f by (metis le_neq_implies_less magic_not_zero(1) option.inject)
  then have "parse_instance c a' b = Some (InstLost inst x)"
    using parse_instance_agree [OF lost.prems(2) lost(3)] f lost(1) by auto
  moreover have "area_row a' b = Some OTP_STORE_MAGIC" "b < area_end a'"
    using agree_row [OF lost.prems(2)] lost(1,2) f \<open>n < r\<close> lost.prems(2) by (auto simp: agree_def)
  moreover have "instance_after a' x = Some (Some n)"
    using find_magic_agree lost(4) lost.prems(2) \<open>n < r\<close> unfolding instance_after_def by blast
  ultimately show ?case using lost f by (auto intro: walk_at.lost)
next
  case (stray b v n "is" es is' es' w)
  note f = instance_after_found [OF stray(5)]
  have r: "n \<le> r" "area_row a r = Some 0" using walk_at_free_row [OF stray(6)] stray f by auto
  then have "n < r" using f by (metis le_neq_implies_less magic_not_zero(1) option.inject)
  moreover have "area_row a' b = Some v" "b < area_end a'"
    using agree_row [OF stray.prems(2)] stray(1,2) f \<open>n < r\<close> stray.prems(2) by (auto simp: agree_def)
  moreover have "instance_after a' b = Some (Some n)"
    using find_magic_agree stray(5) stray.prems(2) \<open>n < r\<close> unfolding instance_after_def by blast
  ultimately show ?case using stray f by (auto intro: walk_at.stray)
qed auto


theorem commissioning_area_contents_witness:
  "\<exists>ca. commissioning_area_parse \<lparr>codec_parse = \<lambda>_. None, codec_write = \<lambda>e buf. buf\<rparr> [OTP_STORE_MAGIC, 0] = Some ca \<and>
     (\<forall>i\<in>set (ca_instances ca). ci_first_row i mod 64 = 0 \<and> 0x0c0 \<le> ci_first_row i)"
proof -
  obtain ca where "commissioning_area_parse \<lparr>codec_parse = \<lambda>_. None, codec_write = \<lambda>e buf. buf\<rparr> [OTP_STORE_MAGIC, 0] = Some ca"
    using commissioning_parse_total by blast
  from this commissioning_area_contents [OF this] show ?thesis
    unfolding OTP_COMMISSIONING_AREA_FIRST_ROW_def OTP_PAGE_ROWS_def by blast
qed

end
