(* ===== verification/Otp_Commission.thy ===== *)
theory Otp_Commission
  imports Otp_Parse
begin

text \<open>
  Commissioning a board as one operation on OTP: the writes of
  \<open>NewCommissioningInstance::writes\<close> (\<open>rust/metadata/src/otp.rs\<close>), cut short anywhere,
  followed by \<open>CommissioningArea::parse\<close>. The generated entry codec is assumed to satisfy
  \<open>codec_ok\<close>: an entry's bytes are its key, its length and its value as the schema documents
  them, and parse back to the entry.
\<close>

section \<open>The codec's contract\<close>

definition ascii :: "u8 list \<Rightarrow> bool" where
  "ascii s \<longleftrightarrow> list_all (\<lambda>b. b < 0x80) s"

fun storable :: "otp_entry \<Rightarrow> bool" where
  "storable (EntryBoard name) \<longleftrightarrow> ascii name \<and> length name < 65536"
| "storable (EntryManufacturer name) \<longleftrightarrow> ascii name \<and> length name < 65536"
| "storable (EntryDate date) \<longleftrightarrow> ascii date \<and> length date < 65536"
| "storable (EntrySig s) \<longleftrightarrow> length s = OTP_COMMISSIONING_SIG_LEN"
| "storable (EntrySigner i) \<longleftrightarrow> True"
| "storable (EntryUnknown key params) \<longleftrightarrow> False"

definition codec_ok :: "otp_codec \<Rightarrow> bool" where
  "codec_ok c \<longleftrightarrow> (\<forall>e. storable e \<longrightarrow>
     (let n = 2 * entry_row_count (value_len e);
          bytes = codec_write c e (replicate n 0)
      in length bytes = n \<and>
         take 4 bytes = u16_to_le_bytes (entry_key e) @ u16_to_le_bytes (word_of_nat (value_len e)) \<and>
         codec_parse c bytes = Some e))"

lemma le_bytes_roundtrip [simp]:
  "u16_from_le_bytes (ucast r) (ucast (drop_bit 8 r)) = r"
  unfolding u16_from_le_bytes_def by (rule bit_word_eqI) (auto simp: bit_simps)

lemma from_le_to_le [simp]: "u16_to_le_bytes (u16_from_le_bytes lo hi) = [lo, hi]"
proof -
  have "\<not> bit lo (8 + n)" for n using bit_imp_le_length [of lo "8 + n"] by auto
  then show ?thesis
    unfolding u16_from_le_bytes_def u16_to_le_bytes_def
    by (auto intro!: bit_word_eqI simp: bit_simps)
qed

lemma bytes_of_rows_of_bytes:
  "even (length bs) \<Longrightarrow> concat (map u16_to_le_bytes (rows_of_bytes bs)) = bs"
  by (induction bs rule: rows_of_bytes.induct) auto

lemma length_rows_of_bytes: "length (rows_of_bytes bs) = length bs div 2"
  by (induction bs rule: rows_of_bytes.induct) auto

text \<open>Rows that hold an entry: what the parser needs to know of them.\<close>

definition stored_entry :: "otp_codec \<Rightarrow> u16 list \<Rightarrow> otp_entry \<Rightarrow> bool" where
  "stored_entry c es e \<longleftrightarrow>
     length es = entry_row_count (value_len e) \<and> value_len e < 65536 \<and>
     es ! 0 = entry_key e \<and> es ! 1 = word_of_nat (value_len e) \<and> entry_key e \<noteq> OTP_KEY_NONE \<and>
     (\<forall>row. parse_entry c es row = Some (StoreEntry row e))"

lemma storable_len: "storable e \<Longrightarrow> value_len e < 65536"
  by (cases e) (auto simp: OTP_COMMISSIONING_SIG_LEN_def OTP_COMMISSIONING_SIGNER_LEN_def)

lemma storable_key: "storable e \<Longrightarrow> entry_key e \<noteq> OTP_KEY_NONE"
  by (cases e) (auto simp: otp_keys)

lemma unat_len [simp]: "n < 65536 \<Longrightarrow> unat (word_of_nat n :: u16) = n"
  by (simp add: unat_of_nat)

lemma entry_rows_stored:
  assumes "codec_ok c" "storable e"
  shows "stored_entry c (entry_rows c e) e"
proof -
  let ?n = "2 * entry_row_count (value_len e)"
  define bs where "bs = codec_write c e (replicate ?n 0)"
  have bs: "length bs = ?n" "codec_parse c bs = Some e"
    "take 4 bs = u16_to_le_bytes (entry_key e) @ u16_to_le_bytes (word_of_nat (value_len e))"
    using assms unfolding codec_ok_def bs_def by (auto simp: Let_def)
  have es: "entry_rows c e = rows_of_bytes bs" by (simp add: entry_rows_def bs_def Let_def)
  have len: "length (rows_of_bytes bs) = entry_row_count (value_len e)"
    using bs by (simp add: length_rows_of_bytes)
  have "bs = take 4 bs @ drop 4 bs" by simp
  then obtain rest where
    "bs = u16_to_le_bytes (entry_key e) @ u16_to_le_bytes (word_of_nat (value_len e)) @ rest"
    using bs(3) by (metis append.assoc)
  then have head: "rows_of_bytes bs =
      entry_key e # word_of_nat (value_len e) # rows_of_bytes rest"
    by (simp add: u16_to_le_bytes_def)
  have "concat (map u16_to_le_bytes (rows_of_bytes bs)) = bs"
    using bs by (intro bytes_of_rows_of_bytes) auto
  then have "parse_entry c (rows_of_bytes bs) row = Some (StoreEntry row e)" for row
    using bs(2) storable_len [OF assms(2)] storable_key [OF assms(2)]
    unfolding head by (auto simp: parse_entry_def Let_def)
  then show ?thesis
    using es len head storable_len storable_key assms by (simp add: stored_entry_def)
qed

section \<open>OTP after a run of writes\<close>

text \<open>
  \<open>base\<close> is the row the list starts at. An unwritten row reads 0 and a row written with ECC
  reads what was written.
\<close>

definition otp_after :: "nat \<Rightarrow> row_write list \<Rightarrow> u16 list \<Rightarrow> u16 list" where
  "otp_after base ws rows = fold (\<lambda>w rs. rs[rw_row w - base := rw_value w]) ws rows"

definition written :: "row_write list \<Rightarrow> nat \<Rightarrow> u16 option" where
  "written ws = map_of (rev (map (\<lambda>w. (rw_row w, rw_value w)) ws))"

lemma written_simps [simp]:
  "written [] = Map.empty"
  "written (ws @ vs) = written ws ++ written vs"
  "written (w # ws) = [rw_row w \<mapsto> rw_value w] ++ written ws"
  by (simp_all add: written_def)

lemma length_otp_after [simp]: "length (otp_after base ws rows) = length rows"
  unfolding otp_after_def by (induction ws arbitrary: rows) auto

lemma otp_after_nth:
  "(\<forall>w\<in>set ws. base \<le> rw_row w) \<Longrightarrow> i < length rows \<Longrightarrow>
     otp_after base ws rows ! i = (case written ws (base + i) of Some v \<Rightarrow> v | None \<Rightarrow> rows ! i)"
proof (induction ws rule: rev_induct)
  case (snoc w ws)
  have "otp_after base (ws @ [w]) rows = (otp_after base ws rows)[rw_row w - base := rw_value w]"
    by (simp add: otp_after_def)
  then show ?case using snoc by (auto simp: nth_list_update)
qed (simp add: otp_after_def)

lemma written_map:
  "written (map (\<lambda>i. \<lparr>rw_row = row + i, rw_value = f i\<rparr>) is) x =
     (if row \<le> x \<and> x - row \<in> set is then Some (f (x - row)) else None)"
  by (induction "is" rule: rev_induct) (auto simp: map_add_def)

lemma written_entry:
  assumes "es \<noteq> []"
  shows "written (entry_writes row es) x =
    (if row \<le> x \<and> x < row + length es then Some (es ! (x - row)) else None)"
proof -
  have "set ([1..<length es] @ [0]) = {..<length es}" using assms by force
  then have "row \<le> x \<and> x - row \<in> set ([1..<length es] @ [0]) \<longleftrightarrow> row \<le> x \<and> x < row + length es"
    unfolding \<open>set _ = _\<close> lessThan_iff by linarith
  then show ?thesis by (simp only: entry_writes_def written_map)
qed

lemma written_entry_take:
  assumes "j < length es"
  shows "written (take j (entry_writes row es)) x =
    (if row < x \<and> x \<le> row + j then Some (es ! (x - row)) else None)"
proof -
  have "take j ([1..<length es] @ [0]) = [1..<Suc j]" using assms by (simp add: take_upt)
  then have "take j (entry_writes row es) =
      map (\<lambda>i. \<lparr>rw_row = row + i, rw_value = es ! i\<rparr>) [1..<Suc j]"
    by (simp only: entry_writes_def take_map)
  moreover have "row \<le> x \<and> x - row \<in> set [1..<Suc j] \<longleftrightarrow> row < x \<and> x \<le> row + j" by auto
  ultimately show ?thesis by (simp only: written_map)
qed

lemma written_entries:
  "\<forall>es\<in>set ess. es \<noteq> [] \<Longrightarrow> written (entries_writes row ess) x =
     (if row \<le> x \<and> x < row + length (concat ess) then Some (concat ess ! (x - row)) else None)"
proof (induction ess arbitrary: row)
  case (Cons es ess)
  then show ?case
    by (auto simp: written_entry nth_append map_add_def ac_simps)
qed simp

lemma length_entries_writes:
  "\<forall>es\<in>set ess. es \<noteq> [] \<Longrightarrow> length (entries_writes row ess) = length (concat ess)"
  by (induction ess arbitrary: row) (auto simp: entry_writes_def Suc_le_eq)

lemma take_entries_writes:
  "\<forall>es\<in>set ess. es \<noteq> [] \<Longrightarrow> k < length (entries_writes row ess) \<Longrightarrow>
     \<exists>m j. m < length ess \<and> j < length (ess ! m) \<and>
       take k (entries_writes row ess) = entries_writes row (take m ess) @
         take j (entry_writes (row + length (concat (take m ess))) (ess ! m))"
proof (induction ess arbitrary: row k)
  case (Cons es ess)
  have len: "length (entry_writes row es) = length es"
    using Cons.prems(1) by (cases es) (auto simp: entry_writes_def Suc_le_eq)
  show ?case
  proof (cases "k < length es")
    case True
    then show ?thesis using len by (intro exI [of _ 0] exI [of _ k]) simp
  next
    case False
    then have "k - length es < length (entries_writes (row + length es) ess)"
      using Cons.prems len by auto
    then obtain m j where "m < length ess" "j < length (ess ! m)"
      "take (k - length es) (entries_writes (row + length es) ess) =
         entries_writes (row + length es) (take m ess) @
         take j (entry_writes (row + length es + length (concat (take m ess))) (ess ! m))"
      using Cons.IH [of "k - length es" "row + length es"] Cons.prems(1) by (meson list.set_intros(2))
    then show ?thesis
      using False len by (intro exI [of _ "Suc m"] exI [of _ j]) (simp add: ac_simps)
  qed
qed simp

lemma entries_writes_rows: "w \<in> set (entries_writes row ess) \<Longrightarrow> row \<le> rw_row w"
  by (induction ess arbitrary: row) (force simp: entry_writes_def)+


section \<open>Parsing what was written\<close>

lemma area_rows_pointwise:
  assumes "wf_area a" "area_first a \<le> row" "row + length xs \<le> area_end a"
    "\<forall>i<length xs. area_row a (row + i) = Some (xs ! i)"
  shows "area_rows a row (row + length xs) = Some xs"
proof -
  have "take (length xs) (drop (row - area_first a) (area_data a)) = xs"
  proof (rule nth_equalityI)
    show "length (take (length xs) (drop (row - area_first a) (area_data a))) = length xs"
      using assms by (simp add: wf_area_def)
    fix i assume "i < length (take (length xs) (drop (row - area_first a) (area_data a)))"
    then have i: "i < length xs" by simp
    then have "area_data a ! (row + i - area_first a) = xs ! i"
      using assms area_row_Some [of a "row + i"] by auto
    then show "take (length xs) (drop (row - area_first a) (area_data a)) ! i = xs ! i"
      using i assms by (simp add: wf_area_def)
  qed
  then show ?thesis using assms by (simp add: area_rows_Some)
qed

fun place_entries :: "nat \<Rightarrow> u16 list list \<Rightarrow> otp_entry list \<Rightarrow> store_entry list" where
  "place_entries row (es # ess) (e # ents) =
     StoreEntry row e # place_entries (row + length es) ess ents"
| "place_entries row _ _ = []"

lemma stored_len_ge: "stored_entry c es e \<Longrightarrow> 2 \<le> length es"
  by (simp add: stored_entry_def entry_row_count_def)

lemma entries_at_stored:
  assumes "list_all2 (stored_entry c) ess ents" "\<forall>e\<in>set ents. entry_key e \<noteq> KEY_SIG"
    "wf_area a" "area_first a \<le> row" "row + length (concat ess) \<le> area_end a"
    "\<forall>i<length (concat ess). area_row a (row + i) = Some (concat ess ! i)"
    "entries_at c a True (row + length (concat ess)) rest le"
  shows "entries_at c a True row (place_entries row ess ents @ rest) le"
  using assms
proof (induction ess ents arbitrary: row rule: list_all2_induct)
  case Nil
  then show ?case by simp
next
  case (Cons es ess e ents)
  have len: "2 \<le> length es" "length es = entry_row_count (value_len e)"
    using Cons(1) stored_len_ge by (auto simp: stored_entry_def)
  have mem: "\<forall>i<length es. area_row a (row + i) = Some (es ! i)"
    using Cons.prems(5) by (auto simp: nth_append)
  have key: "area_row a row = Some (entry_key e)"
    "area_row a (row + 1) = Some (word_of_nat (value_len e))"
    using mem [rule_format, of 0] mem [rule_format, of 1] len Cons(1) by (auto simp: stored_entry_def)
  have room: "row + length es \<le> area_end a" using Cons.prems(4) by simp
  have rows: "area_rows a row (row + length es) = Some es"
    using area_rows_pointwise [OF Cons.prems(2,3) room mem] .
  have rest: "area_row a (row + length es + i) = Some (concat ess ! i)" if "i < length (concat ess)" for i
    using Cons.prems(5) [rule_format, of "length es + i"] that by (simp add: nth_append ac_simps)
  have "entries_at c a True (row + length es)
      (place_entries (row + length es) ess ents @ rest) le"
    using Cons.IH [of "row + length es"] Cons.prems rest by (simp add: ac_simps)
  then have "entries_at c a True row
      (StoreEntry row e # (place_entries (row + length es) ess ents @ rest)) le"
    using Cons(1) Cons.prems(1) len room
    by (intro entries_at.entry [OF _ _ key _ _ room rows])
      (auto simp: stored_entry_def)
  then show ?case by simp
qed

text \<open>Rows that were never written end a list, unless exactly one is left in the area.\<close>

lemma entries_at_blank:
  assumes "wf_area a" "area_first a \<le> row" "row \<le> area_end a" "row + 1 \<noteq> area_end a"
    "\<forall>i. row \<le> i \<and> i < area_end a \<longrightarrow> area_row a i = Some 0"
  shows "\<exists>l. entries_at c a s row [] (Terminated l) \<and> row - 1 \<le> l"
proof (cases "row = area_end a")
  case True
  then show ?thesis using entries_at.full by blast
next
  case False
  then have "area_row a row = Some OTP_KEY_NONE" "area_row a (row + 1) = Some 0"
    using assms by (simp_all add: OTP_KEY_NONE_def)
  then have "entries_at c a s row [] (Terminated (row + 1))"
    using assms(4) False by (intro entries_at.terminator)
  then show ?thesis by (intro exI [of _ "row + 1"]) auto
qed

text \<open>The walk goes no further than the last instance when the rows after it are unwritten.\<close>

lemma walk_at_blank:
  assumes "wf_area a" "area_first a \<le> b"
    "\<forall>i. b \<le> i \<and> i < area_end a \<longrightarrow> area_row a i = Some 0"
  shows "\<exists>w. walk_at c a b is es is es (WalkEnded w)"
proof (cases "b < area_end a")
  case True
  then show ?thesis using assms walk_at.free by (intro exI [of _ "Some b"]) auto
next
  case False
  then show ?thesis using walk_at.all_read by blast
qed


section \<open>One commissioning\<close>

text \<open>
  \<open>commissioning c rows old board manufacturer date signer v inst signature\<close>: the area's
  \<open>rows\<close> parse to \<open>old\<close>, which offers a row for the next instance and has nothing written
  from there on; \<open>v\<close> and \<open>inst\<close> are what \<open>CommissioningValues::new\<close> and
  \<open>NewCommissioningInstance::new\<close> return for the board's values and that row.
\<close>

definition commissioning ::
  "otp_codec \<Rightarrow> u16 list \<Rightarrow> commissioning_area \<Rightarrow> u8 list \<Rightarrow> u8 list \<Rightarrow> u8 list \<Rightarrow> u16 \<Rightarrow>
     commissioning_values \<Rightarrow> new_commissioning_instance \<Rightarrow> u8 list \<Rightarrow> bool" where
  "commissioning c rows old board manufacturer date signer v inst signature \<longleftrightarrow>
     codec_ok c \<and> ascii board \<and> length signature = OTP_COMMISSIONING_SIG_LEN \<and>
     length rows = COMMISSIONING_AREA_END - OTP_COMMISSIONING_AREA_FIRST_ROW \<and>
     commissioning_area_parse c rows = Some old \<and>
     ca_next_instance_row old = Some (nc_first_row inst) \<and>
     list_all (\<lambda>x. x = 0) (drop (nc_first_row inst - OTP_COMMISSIONING_AREA_FIRST_ROW) rows) \<and>
     commissioning_values_new c board manufacturer date signer = Inr v \<and>
     new_instance v (nc_first_row inst) = Inr inst"

definition value_entries :: "u8 list \<Rightarrow> u8 list \<Rightarrow> u8 list \<Rightarrow> u16 \<Rightarrow> otp_entry list" where
  "value_entries board manufacturer date signer =
     [EntryBoard board, EntryManufacturer manufacturer, EntryDate date, EntrySigner signer]"

lemma check_manufacturer_ascii:
  "check_manufacturer name = Inr () \<Longrightarrow> ascii name"
proof -
  assume "check_manufacturer name = Inr ()"
  then have "list_all (\<lambda>b. 0x20 \<le> b \<and> b \<le> 0x7E \<and> b \<noteq> 0x2A) name"
    by (auto simp: check_manufacturer_def Let_def split: if_splits)
  moreover have "b < 0x80" if "b \<le> 0x7E" for b :: u8
    using that by (rule le_less_trans) simp
  ultimately show "ascii name" by (auto simp: ascii_def list_all_iff)
qed

lemma values_new_facts:
  assumes "commissioning_values_new c board manufacturer date signer = Inr v"
    "codec_ok c" "ascii board"
  shows "cv_entries v = map (entry_rows c) (value_entries board manufacturer date signer)"
    "list_all2 (stored_entry c) (cv_entries v) (value_entries board manufacturer date signer)"
proof -
  have m: "check_manufacturer manufacturer = Inr ()"
    using assms(1) by (auto simp: commissioning_values_new_def bind_r_Inr_iff)
  have d: "length date = 8" "list_all (\<lambda>b. 0x30 \<le> b \<and> b \<le> 0x39) date"
    and fits: "instance_row_count (map (\<lambda>e. entry_row_count (value_len e))
        (value_entries board manufacturer date signer)) \<le> 0x400"
    and v: "cv_entries v = map (entry_rows c) (value_entries board manufacturer date signer)"
    using assms(1)
    by (auto simp: commissioning_values_new_def bind_r_Inr_iff Let_def value_entries_def
        otp_constants split: if_splits)
  have "b < 0x80" if "b \<le> 0x39" for b :: u8
    using that by (rule le_less_trans) simp
  then have "ascii date" using d by (auto simp: ascii_def list_all_iff)
  moreover have "length board < 65536" "length manufacturer < 65536"
    using fits by (simp_all add: instance_row_count_def value_entries_def entry_row_count_def)
  ultimately have "\<forall>e\<in>set (value_entries board manufacturer date signer). storable e"
    using check_manufacturer_ascii [OF m] assms(3) d by (auto simp: value_entries_def)
  then show "list_all2 (stored_entry c) (cv_entries v) (value_entries board manufacturer date signer)"
    unfolding v using entry_rows_stored [OF assms(2)] by (simp add: value_entries_def)
  show "cv_entries v = map (entry_rows c) (value_entries board manufacturer date signer)" by fact
qed

text \<open>Everything the proofs below need of a commissioning, in the terms of the parser.\<close>

lemma commissioning_facts:
  assumes "commissioning c rows old board manufacturer date signer v inst signature"
  defines "a \<equiv> area_new rows OTP_COMMISSIONING_AREA_FIRST_ROW COMMISSIONING_AREA_END"
    and "r \<equiv> nc_first_row inst"
    and "ess \<equiv> cv_entries v @ [entry_rows c (EntrySig signature)]"
  shows "list_all2 (stored_entry c) ess
      (value_entries board manufacturer date signer @ [EntrySig signature])"
    "nc_values inst = v" "r mod OTP_PAGE_ROWS = 0" "0x0c0 \<le> r" "r < 0x4c0"
    "r + 2 + length (concat ess) \<le> 0x4c0" "cv_row_count v = 2 + length (concat ess)"
    "walk_at c a 0x0c0 [] [] (ca_instances old) (ca_issues old) (WalkEnded (Some r))"
    "length (entry_rows c (EntrySig signature)) = 34" "length rows = 0x400"
    "\<forall>es\<in>set ess. es \<noteq> []"
proof -
  have c: "codec_ok c" "ascii board" "length signature = OTP_COMMISSIONING_SIG_LEN"
    "commissioning_area_parse c rows = Some old" "ca_next_instance_row old = Some r"
    "commissioning_values_new c board manufacturer date signer = Inr v" "new_instance v r = Inr inst"
    and len: "length rows = COMMISSIONING_AREA_END - OTP_COMMISSIONING_AREA_FIRST_ROW"
    using assms by (auto simp: commissioning_def)
  have sig: "stored_entry c (entry_rows c (EntrySig signature)) (EntrySig signature)"
    using entry_rows_stored [OF c(1)] c(3) by simp
  show all: "list_all2 (stored_entry c) ess
      (value_entries board manufacturer date signer @ [EntrySig signature])"
    unfolding ess_def using values_new_facts [OF c(6,1,2)] sig by (simp add: list_all2_appendI)
  show siglen: "length (entry_rows c (EntrySig signature)) = 34"
    using sig by (simp add: stored_entry_def entry_row_count_def OTP_COMMISSIONING_SIG_LEN_def)
  show count: "cv_row_count v = 2 + length (concat ess)"
    using siglen by (simp add: cv_row_count_def instance_row_count_def ess_def length_concat
        entry_row_count_def OTP_COMMISSIONING_SIG_LEN_def)
  show "nc_values inst = v" "r mod OTP_PAGE_ROWS = 0" "0x0c0 \<le> r" "r < 0x4c0"
    "r + 2 + length (concat ess) \<le> 0x4c0"
    using c(7) count by (auto simp: new_instance_def otp_constants split: if_splits)
  show "length rows = 0x400" using len by (simp add: otp_constants)
  obtain w where
    "walk_at c a OTP_COMMISSIONING_AREA_FIRST_ROW [] [] (ca_instances old) (ca_issues old) w"
    "ca_next_instance_row old = (case w of WalkEnded r \<Rightarrow> r | WalkAbandoned \<Rightarrow> None)"
    using commissioning_parse_walk [OF c(4)] unfolding a_def by metis
  moreover have "w = WalkEnded (Some r)"
    using calculation c(5) by (auto split: walk_end.splits)
  ultimately show "walk_at c a 0x0c0 [] [] (ca_instances old) (ca_issues old) (WalkEnded (Some r))"
    by (simp add: OTP_COMMISSIONING_AREA_FIRST_ROW_def)
  show "\<forall>es\<in>set ess. es \<noteq> []"
    using all stored_len_ge by (fastforce simp: list_all2_conv_all_nth in_set_conv_nth)
qed


text \<open>The area after any prefix of the writes: untouched below the instance, and above it the
  written values over zeros.\<close>

lemma writes_structure:
  assumes "commissioning c rows old board manufacturer date signer v inst signature"
  shows "writes c inst signature =
    [\<lparr>rw_row = nc_first_row inst, rw_value = OTP_STORE_MAGIC\<rparr>,
     \<lparr>rw_row = nc_first_row inst + 1, rw_value = OTP_STORE_VERSION\<rparr>] @
    entries_writes (nc_first_row inst + 2) (cv_entries v @ [entry_rows c (EntrySig signature)])"
  using commissioning_facts(2) [OF assms] by (simp add: writes_def Let_def)

lemma after_writes:
  assumes com: "commissioning c rows old board manufacturer date signer v inst signature"
    and ws: "ws = take k (writes c inst signature)"
  defines "a \<equiv> area_new rows OTP_COMMISSIONING_AREA_FIRST_ROW COMMISSIONING_AREA_END"
    and "a' \<equiv> area_new (otp_after OTP_COMMISSIONING_AREA_FIRST_ROW ws rows)
      OTP_COMMISSIONING_AREA_FIRST_ROW COMMISSIONING_AREA_END"
    and "r \<equiv> nc_first_row inst"
  shows "agree r a a'" "area_first a' = 0x0c0" "area_end a' = 0x4c0" "wf_area a'"
    "\<And>i. r \<le> i \<Longrightarrow> i < 0x4c0 \<Longrightarrow>
       area_row a' i = Some (case written ws i of Some x \<Rightarrow> x | None \<Rightarrow> 0)"
proof -
  note f = commissioning_facts [OF com, folded a_def r_def]
  have rows: "\<forall>w\<in>set ws. r \<le> rw_row w"
  proof
    fix w assume "w \<in> set ws"
    then have "w \<in> set (writes c inst signature)" unfolding ws by (rule in_set_takeD)
    then show "r \<le> rw_row w"
      unfolding writes_structure [OF com] r_def by (auto dest: entries_writes_rows)
  qed
  have wr: "otp_after 0x0c0 ws rows ! i =
      (case written ws (0x0c0 + i) of Some x \<Rightarrow> x | None \<Rightarrow> rows ! i)" if "i < 0x400" for i
  proof -
    have "\<forall>w\<in>set ws. 0x0c0 \<le> rw_row w" using rows f(4) le_trans by blast
    then show ?thesis using otp_after_nth [of ws "0x0c0" i rows] that f(10) by simp
  qed
  have ext: "area_data a' = otp_after 0x0c0 ws rows" "area_first a' = 0x0c0" "area_end a' = 0x4c0"
    "area_data a = rows" "area_first a = 0x0c0" "area_end a = 0x4c0"
    using f(10) by (simp_all add: a'_def a_def area_new_def Let_def otp_constants)
  then show "area_first a' = 0x0c0" "area_end a' = 0x4c0" "wf_area a'"
    by (simp_all add: a'_def)
  have "written ws x = None" if "x < r" for x
    using rows that unfolding written_def map_of_eq_None_iff by auto
  then have "take (r - 0x0c0) (otp_after 0x0c0 ws rows) = take (r - 0x0c0) rows"
    using wr f(4,5,10) by (intro nth_equalityI) auto
  then show "agree r a a'" using ext by (simp add: agree_def)
  fix i assume i: "r \<le> i" "i < 0x4c0"
  have eq: "rows ! (i - 0x0c0) = drop (r - 0x0c0) rows ! (i - r)"
    using i f(4,5,10) by simp
  have "list_all (\<lambda>x. x = 0) (drop (r - 0x0c0) rows)"
    using com by (simp add: commissioning_def r_def OTP_COMMISSIONING_AREA_FIRST_ROW_def)
  moreover have "i - r < length (drop (r - 0x0c0) rows)" using i f(4,10) by simp
  ultimately have "rows ! (i - 0x0c0) = 0" unfolding eq list_all_length by blast
  then show "area_row a' i = Some (case written ws i of Some x \<Rightarrow> x | None \<Rightarrow> 0)"
    using i f(4,10) ext wr [of "i - 0x0c0"] by (auto simp: area_row_def split: option.splits)
qed

text \<open>From the walk at the new instance to the whole parse.\<close>

lemma parse_after_writes:
  assumes com: "commissioning c rows old board manufacturer date signer v inst signature"
    and ws: "ws = take k (writes c inst signature)"
    and walk: "walk_at c (area_new (otp_after OTP_COMMISSIONING_AREA_FIRST_ROW ws rows)
        OTP_COMMISSIONING_AREA_FIRST_ROW COMMISSIONING_AREA_END)
      (nc_first_row inst) (ca_instances old) (ca_issues old) insts issues w"
  shows "\<exists>ca. commissioning_area_parse c (otp_after OTP_COMMISSIONING_AREA_FIRST_ROW ws rows) = Some ca \<and>
    ca_instances ca = insts \<and> ca_issues ca = issues \<and>
    ca_current ca = (case w of WalkAbandoned \<Rightarrow> None
      | WalkEnded _ \<Rightarrow> (case rposition is_complete insts of
          None \<Rightarrow> None | Some i \<Rightarrow> if is_valid (insts ! i) then Some i else None))"
proof -
  let ?a = "area_new (otp_after OTP_COMMISSIONING_AREA_FIRST_ROW ws rows)
    OTP_COMMISSIONING_AREA_FIRST_ROW COMMISSIONING_AREA_END"
  have "walk_at c ?a 0x0c0 [] [] insts issues w"
    using walk_agree [OF commissioning_facts(8) [OF com] refl after_writes(1) [OF com ws] _ walk]
    by (simp add: OTP_PAGE_ROWS_def)
  then have "walk c ?a (area_first ?a) [] [] = Some (insts, issues, w)"
    using after_writes(2) [OF com ws] by (simp add: walk_iff)
  then show ?thesis
    by (cases w) (auto simp: commissioning_area_parse_def Let_def)
qed

lemma current_old:
  assumes com: "commissioning c rows old board manufacturer date signer v inst signature"
  shows "ca_current old = (case rposition is_complete (ca_instances old) of
    None \<Rightarrow> None | Some i \<Rightarrow> if is_valid (ca_instances old ! i) then Some i else None)"
proof -
  have p: "commissioning_area_parse c rows = Some old" "ca_next_instance_row old \<noteq> None"
    using com by (auto simp: commissioning_def)
  show ?thesis
  proof (rule commissioning_parse_walk [OF p(1)])
    fix w
    assume "ca_next_instance_row old = (case w of WalkEnded r \<Rightarrow> r | WalkAbandoned \<Rightarrow> None)"
      "ca_current old = (case w of WalkAbandoned \<Rightarrow> None
       | WalkEnded _ \<Rightarrow> (case rposition is_complete (ca_instances old) of
           None \<Rightarrow> None | Some i \<Rightarrow> if is_valid (ca_instances old ! i) then Some i else None))"
    then show ?thesis using p(2) by (cases w) simp_all
  qed
qed

text \<open>An incomplete last instance leaves the current one as it was.\<close>

lemma current_incomplete:
  assumes "\<not> is_complete i"
    "cur = (case rposition is_complete insts of None \<Rightarrow> None
       | Some i \<Rightarrow> if is_valid (insts ! i) then Some i else None)"
  shows "(case rposition is_complete (insts @ [i]) of None \<Rightarrow> None
       | Some k \<Rightarrow> if is_valid ((insts @ [i]) ! k) then Some k else None) = cur"
  using assms rposition_Some [of is_complete insts]
  by (auto simp: rposition_snoc nth_append split: option.splits)


section \<open>A completed commissioning\<close>

lemma parse_instance_version:
  assumes "area_row a (b + 1) = Some OTP_STORE_VERSION" "b + 1 \<noteq> area_end a"
    "entries_at c a True (b + 2) es le"
  shows "parse_instance c a b = (let inst = (\<lambda>sr.
      \<lparr>ci_first_row = b, ci_entries = es, ci_signed_rows = sr\<rparr>) in
    case le of Terminated l \<Rightarrow> Some (InstEnded (inst None) l)
    | Signature k l \<Rightarrow> (case area_rows a b k of None \<Rightarrow> None
        | Some rows \<Rightarrow> Some (InstEnded (inst (Some rows)) l))
    | LostAt x \<Rightarrow> Some (InstLost (inst None) x))"
  using assms unfolding parse_entries_iff [symmetric]
  by (auto simp: parse_instance_def Let_def split: list_end.splits)

lemma value_entries_not_sig: "\<forall>e\<in>set (value_entries b m d s). entry_key e \<noteq> KEY_SIG"
  by (simp add: value_entries_def otp_keys)

lemma complete_instance:
  assumes com: "commissioning c rows old board manufacturer date signer v inst signature"
  defines "ws \<equiv> writes c inst signature" and "r \<equiv> nc_first_row inst"
  defines "a' \<equiv> area_new (otp_after OTP_COMMISSIONING_AREA_FIRST_ROW ws rows)
      OTP_COMMISSIONING_AREA_FIRST_ROW COMMISSIONING_AREA_END"
    and "q \<equiv> r + 2 + length (concat (cv_entries v))"
  defines "new \<equiv> \<lparr>ci_first_row = r,
      ci_entries = place_entries (r + 2) (cv_entries v)
          (value_entries board manufacturer date signer) @ [StoreEntry q (EntrySig signature)],
      ci_signed_rows = Some ([OTP_STORE_MAGIC, OTP_STORE_VERSION] @ concat (cv_entries v))\<rparr>"
  shows "area_row a' r = Some OTP_STORE_MAGIC" "parse_instance c a' r = Some (InstEnded new (q + 33))"
    "\<forall>i. q + 34 \<le> i \<and> i < 0x4c0 \<longrightarrow> area_row a' i = Some 0"
proof -
  have ws: "ws = take (length ws) (writes c inst signature)" by (simp add: ws_def)
  note f = commissioning_facts [OF com, folded r_def]
  note g = after_writes [OF com ws, folded a'_def r_def]
  let ?sig = "entry_rows c (EntrySig signature)"
  define ess where "ess = cv_entries v @ [?sig]"
  have stored: "list_all2 (stored_entry c) (cv_entries v) (value_entries board manufacturer date signer)"
    "stored_entry c ?sig (EntrySig signature)"
    using f(1) by (auto simp: list_all2_append2 list_all2_Cons2 value_entries_def)
  have stop': "r + 2 + length (concat ess) = q + 34" using f(9) by (simp add: q_def ess_def)
  have stop'': "q + 34 \<le> 0x4c0" using f(6) f(9) by (simp add: q_def)
  have mem: "area_row a' i = Some (if i = r then OTP_STORE_MAGIC else if i = r + 1 then OTP_STORE_VERSION
      else if i < q + 34 then concat ess ! (i - (r + 2)) else 0)" if "r \<le> i" "i < 0x4c0" for i
    using g(5) [OF that] that stop'
    unfolding ws_def writes_structure [OF com, folded r_def]
    by (auto simp: written_entries [OF f(11)] map_add_def ess_def split: if_splits option.splits)
  show "area_row a' r = Some OTP_STORE_MAGIC" using mem f(5) by simp
  show "\<forall>i. q + 34 \<le> i \<and> i < 0x4c0 \<longrightarrow> area_row a' i = Some 0"
    using mem by (auto simp: q_def)
  have rows: "area_rows a' row (row + length xs) = Some xs"
    if "r \<le> row" "row + length xs \<le> 0x4c0" "\<forall>i<length xs. area_row a' (row + i) = Some (xs ! i)"
    for row xs
    using that g f(4) by (intro area_rows_pointwise) auto
  have sig_mem: "\<forall>i<34. area_row a' (q + i) = Some (?sig ! i)"
    using mem stop'' f(9) by (auto simp: q_def ess_def nth_append)
  have sig_rows: "area_rows a' q (q + 34) = Some ?sig"
    using rows [of q ?sig] sig_mem f(9) stop'' by (simp add: q_def)
  have "entries_at c a' True q [StoreEntry q (EntrySig signature)] (Signature q (q + 34 - 1))"
  proof (rule entries_at.signature)
    show "area_row a' q = Some KEY_SIG" "area_row a' (q + 1) = Some (word_of_nat 64)"
      using sig_mem [rule_format, of 0] sig_mem [rule_format, of 1] stored(2)
      by (simp_all add: stored_entry_def OTP_COMMISSIONING_SIG_LEN_def)
    show "area_rows a' q (q + 34) = Some ?sig" by (rule sig_rows)
    show "parse_entry c ?sig q = Some (StoreEntry q (EntrySig signature))"
      using stored(2) by (simp add: stored_entry_def)
  qed (use stop'' g in \<open>auto simp: otp_keys entry_row_count_def\<close>)
  moreover have "\<forall>i<length (concat (cv_entries v)).
      area_row a' (r + 2 + i) = Some (concat (cv_entries v) ! i)"
    using mem stop'' by (auto simp: q_def ess_def nth_append)
  ultimately have "entries_at c a' True (r + 2) (ci_entries new) (Signature q (q + 33))"
    using entries_at_stored [OF stored(1) value_entries_not_sig, of a' "r + 2"] g f(4) stop''
    by (auto simp: new_def q_def)
  moreover have "area_rows a' r q = Some ([OTP_STORE_MAGIC, OTP_STORE_VERSION] @ concat (cv_entries v))"
  proof -
    let ?xs = "[OTP_STORE_MAGIC, OTP_STORE_VERSION] @ concat (cv_entries v)"
    have "area_row a' (r + i) = Some (?xs ! i)" if "i < length ?xs" for i
      using that mem [of "r + i"] stop'' by (auto simp: q_def ess_def nth_append nth_Cons' numeral_2_eq_2)
    then have "area_rows a' r (r + length ?xs) = Some ?xs"
      using stop'' by (intro rows) (simp_all add: q_def)
    then show ?thesis by (simp add: q_def ac_simps)
  qed
  moreover have "area_row a' (r + 1) = Some OTP_STORE_VERSION" using mem [of "r + 1"] stop'' by (simp add: q_def)
  ultimately show "parse_instance c a' r = Some (InstEnded new (q + 33))"
    using parse_instance_version [of a' r c _ _] g stop''
    by (simp add: new_def q_def)
qed

lemma new_instance_used:
  fixes new :: commissioning_instance
  assumes "ci_entries new = place_entries row [b', m', d', s'] (value_entries b m d s) @
    [StoreEntry q (EntrySig g)]"
  shows "ci_board new = Some b" "ci_manufacturer new = Some m" "ci_date new = Some d"
    "ci_signer new = Some s" "ci_signature new = Some g"
  using assms
  by (simp_all add: ci_board_def ci_manufacturer_def ci_date_def ci_signer_def ci_signature_def
      used_def value_entries_def otp_keys)

text \<open>
  C20: a completed commissioning is read back. After all its writes the area parses to the old
  instances and one more; that one is current, its values are exactly the board,
  manufacturer, date, signer and signature that were written, and its message is, for every
  chip, the message \<open>CommissioningValues::message\<close> gave the signing server.
\<close>

theorem commissioning_roundtrip:
  assumes "commissioning c rows old board manufacturer date signer v inst signature"
  shows "\<exists>ca new. commissioning_area_parse c
      (otp_after OTP_COMMISSIONING_AREA_FIRST_ROW (writes c inst signature) rows) = Some ca \<and>
    ca_instances ca = ca_instances old @ [new] \<and> ca_issues ca = ca_issues old \<and>
    ca_current_instance ca = Some new \<and> ci_first_row new = nc_first_row inst \<and>
    ci_board new = Some board \<and> ci_manufacturer new = Some manufacturer \<and>
    ci_date new = Some date \<and> ci_signer new = Some signer \<and> ci_signature new = Some signature \<and>
    (\<forall>chip_id. ci_message new chip_id = Some (cv_message v chip_id))"
proof -
  let ?ws = "writes c inst signature" and ?r = "nc_first_row inst"
  let ?a = "area_new (otp_after OTP_COMMISSIONING_AREA_FIRST_ROW ?ws rows)
      OTP_COMMISSIONING_AREA_FIRST_ROW COMMISSIONING_AREA_END"
  let ?q = "?r + 2 + length (concat (cv_entries v))"
  define new where "new = \<lparr>ci_first_row = ?r,
      ci_entries = place_entries (?r + 2) (cv_entries v)
          (value_entries board manufacturer date signer) @ [StoreEntry ?q (EntrySig signature)],
      ci_signed_rows = Some ([OTP_STORE_MAGIC, OTP_STORE_VERSION] @ concat (cv_entries v))\<rparr>"
  have ws: "?ws = take (length ?ws) (writes c inst signature)" by simp
  note f = commissioning_facts [OF assms] and g = after_writes [OF assms ws]
    and h = complete_instance [OF assms, folded new_def]
  have "\<exists>w. walk_at c ?a (page_after (?q + 33)) (ca_instances old @ [new]) (ca_issues old)
      (ca_instances old @ [new]) (ca_issues old) (WalkEnded w)"
    using h(3) g(2-4) f(4) page_after_gt [of "?q + 33"] by (intro walk_at_blank) auto
  then obtain w where "walk_at c ?a (page_after (?q + 33)) (ca_instances old @ [new]) (ca_issues old)
      (ca_instances old @ [new]) (ca_issues old) (WalkEnded w)" by blast
  then have walk: "walk_at c ?a ?r (ca_instances old) (ca_issues old)
      (ca_instances old @ [new]) (ca_issues old) (WalkEnded w)"
    using g(3) f(5) by (intro walk_at.ended [OF _ h(1,2)]) simp_all
  obtain b' m' d' s' where ess: "cv_entries v = [b', m', d', s']"
    using f(1) by (auto simp: value_entries_def list_all2_append2 list_all2_Cons2)
  have vals: "ci_board new = Some board" "ci_manufacturer new = Some manufacturer"
    "ci_date new = Some date" "ci_signer new = Some signer" "ci_signature new = Some signature"
    by (rule new_instance_used [of new "?r + 2" b' m' d' s' _ _ _ _ ?q]; simp add: new_def ess)+
  have "is_complete new" "is_valid new" using vals by (simp_all add: is_complete_def is_valid_def new_def)
  then show ?thesis
    using parse_after_writes [OF assms ws walk] vals
    by (fastforce simp: rposition_snoc ca_current_instance_def new_def ci_message_def cv_message_def)
qed


section \<open>An interrupted commissioning\<close>

text \<open>
  What the parser finds after the first \<open>m\<close> entries are complete and \<open>j\<close> of the next one's
  writes are done: a deleted entry, or nothing, and then unwritten rows. The list ends there
  unless the cut entry leaves exactly one row of the area.
\<close>

lemma entries_at_partial:
  assumes wf: "wf_area a" and first: "area_first a \<le> q"
    and room: "q + n \<le> area_end a" "2 \<le> n" and n: "n = entry_row_count len" "len < 65536"
    and mem: "area_row a q = Some 0" "area_row a (q + 1) = Some (if j = 0 then 0 else word_of_nat len)"
    and blank: "\<forall>i. (if j = 0 then q else q + n) \<le> i \<and> i < area_end a \<longrightarrow> area_row a i = Some 0"
  shows "if j \<noteq> 0 \<and> len \<noteq> 0 \<and> q + n + 1 = area_end a
    then entries_at c a True q [StoreDeleted q (word_of_nat len)] (LostAt (q + n))
    else \<exists>es l. entries_at c a True q es (Terminated l) \<and> q \<le> l \<and>
      (\<forall>i. l < i \<and> i < area_end a \<longrightarrow> area_row a i = Some 0)"
proof -
  have ne: "q \<noteq> area_end a" "q + 1 \<noteq> area_end a" using room by auto
  show ?thesis
  proof (cases "j = 0 \<or> len = 0")
    case True
    then have "n = 2 \<or> j = 0" using n by (auto simp: entry_row_count_def)
    have "entries_at c a True q [] (Terminated (q + 1))"
      using True mem ne by (intro entries_at.terminator) (auto simp: OTP_KEY_NONE_def)
    moreover have "\<forall>i. q + 1 < i \<and> i < area_end a \<longrightarrow> area_row a i = Some 0"
      using blank \<open>n = 2 \<or> j = 0\<close> by (auto split: if_splits)
    ultimately show ?thesis using True by (metis le_add1)
  next
    case False
    have len0: "(word_of_nat len :: u16) \<noteq> 0" and ulen: "unat (word_of_nat len :: u16) = len"
      using False n unat_len [of len] by (metis unat_0, simp)
    obtain rows where rows: "area_rows a q (q + n) = Some rows"
      using wf first room by (simp add: area_rows_Some)
    have "take 2 rows = [0, word_of_nat len]"
    proof -
      have nth: "length rows = n" "\<forall>i<n. rows ! i = area_data a ! (q + i - area_first a)"
        using rows wf first room by (auto simp: area_rows_Some wf_area_def)
      have "area_data a ! (q - area_first a) = 0"
        "area_data a ! (q + 1 - area_first a) = word_of_nat len"
        using mem False wf first room by (auto simp: area_row_Some)
      then have "rows ! 0 = 0" "rows ! 1 = word_of_nat len"
        using nth(2) [rule_format, of 0] nth(2) [rule_format, of 1] room(2) by simp_all
      then show ?thesis
        using nth(1) room(2) by (intro nth_equalityI) (auto simp: less_2_cases_iff)
    qed
    then obtain rest where "rows = 0 # word_of_nat len # rest"
      by (cases rows; cases "tl rows") auto
    then have pe: "parse_entry c rows q = Some (StoreDeleted q (word_of_nat len))"
      by (simp add: parse_entry_def OTP_KEY_NONE_def)
    have next': "entries_at c a True q (StoreDeleted q (word_of_nat len) # es) le"
      if "entries_at c a True (q + n) es le" for es le
      using that mem False len0 ulen n room
      by (intro entries_at.entry [OF ne mem(1) _ _ _ _ rows pe])
        (auto simp: OTP_KEY_NONE_def KEY_SIG_def)
    show ?thesis
    proof (cases "q + n + 1 = area_end a")
      case True
      then have "entries_at c a True (q + n) [] (LostAt (q + n))" by (intro entries_at.edge) simp
      then show ?thesis using next' False True by auto
    next
      case full: False
      obtain l where "entries_at c a True (q + n) [] (Terminated l)" "q + n - 1 \<le> l"
        using entries_at_blank [OF wf _ room(1) full, of c True] first blank False by auto
      then show ?thesis
        using next' False full blank room(2)
        by (auto intro!: exI [of _ "[StoreDeleted q (word_of_nat len)]"] exI [of _ l])
    qed
  qed
qed

text \<open>
  The rows after \<open>k\<close> of the writes, \<open>2 \<le> k\<close>: which entry is cut, and how the list of entries
  from the row after the version row parses.
\<close>

lemma interrupted_entries:
  assumes com: "commissioning c rows old board manufacturer date signer v inst signature"
    and k: "2 \<le> k" "k < length (writes c inst signature)"
  defines "ws \<equiv> take k (writes c inst signature)" and "r \<equiv> nc_first_row inst"
  defines "a' \<equiv> area_new (otp_after OTP_COMMISSIONING_AREA_FIRST_ROW ws rows)
      OTP_COMMISSIONING_AREA_FIRST_ROW COMMISSIONING_AREA_END"
  shows "area_row a' r = Some OTP_STORE_MAGIC \<and> area_row a' (r + 1) = Some OTP_STORE_VERSION \<and>
    ((\<exists>es l. entries_at c a' True (r + 2) es (Terminated l) \<and> r + 2 \<le> l \<and>
        (\<forall>i. l < i \<and> i < 0x4c0 \<longrightarrow> area_row a' i = Some 0)) \<and>
       \<not> (r + cv_row_count v + 1 = COMMISSIONING_AREA_END \<and>
          length (writes c inst signature) - 34 < k) \<or>
     (\<exists>es. entries_at c a' True (r + 2) es (LostAt (COMMISSIONING_AREA_END - 1))) \<and>
       r + cv_row_count v + 1 = COMMISSIONING_AREA_END \<and>
       length (writes c inst signature) - 34 < k)"
proof -
  note f = commissioning_facts [OF com, folded r_def]
    and g = after_writes [OF com meta_eq_to_obj_eq [OF ws_def], folded a'_def r_def]
  let ?sig = "entry_rows c (EntrySig signature)"
  define ess where "ess = cv_entries v @ [?sig]"
  define ents where "ents = value_entries board manufacturer date signer @ [EntrySig signature]"
  have stored: "list_all2 (stored_entry c) ess ents" using f(1) by (simp add: ess_def ents_def)
  note W = writes_structure [OF com, folded r_def ess_def]
  have ne: "\<forall>es\<in>set ess. es \<noteq> []" using f(11) by (simp add: ess_def)
  note lenw = length_entries_writes
  have "k - 2 < length (entries_writes (r + 2) ess)" using k W by simp
  then obtain m j where m: "m < length ess" and j: "j < length (ess ! m)"
    and tk: "take (k - 2) (entries_writes (r + 2) ess) = entries_writes (r + 2) (take m ess) @
      take j (entry_writes (r + 2 + length (concat (take m ess))) (ess ! m))"
    using take_entries_writes [OF ne] by blast
  let ?q = "r + 2 + length (concat (take m ess))"
  define pe where "pe = ess ! m"
  have ne_m: "\<forall>es\<in>set (take m ess). es \<noteq> []" using ne by (meson in_set_takeD)
  have len_pe: "0 < length pe" using j pe_def by auto
  have ws: "ws = [\<lparr>rw_row = r, rw_value = OTP_STORE_MAGIC\<rparr>, \<lparr>rw_row = r + 1, rw_value = OTP_STORE_VERSION\<rparr>]
      @ entries_writes (r + 2) (take m ess) @ take j (entry_writes ?q pe)"
    using k tk unfolding ws_def W pe_def
    by (cases k; cases "k - 1") (auto simp: take_Cons')
  have mem: "area_row a' i = Some (if i = r then OTP_STORE_MAGIC else if i = r + 1 then OTP_STORE_VERSION
      else if i < ?q then concat (take m ess) ! (i - (r + 2))
      else if ?q < i \<and> i \<le> ?q + j then pe ! (i - ?q) else 0)" if "r \<le> i" "i < 0x4c0" for i
    using g(5) [OF that] that unfolding ws
    by (auto simp: written_entries [OF ne_m] written_entry_take [OF j [folded pe_def]] map_add_def
        split: if_splits option.splits)
  have lens: "length ess = length ents" "length ents = 5" "length (cv_entries v) = 4"
    using list_all2_lengthD [OF stored] by (simp_all add: ess_def ents_def value_entries_def)
  define len where "len = value_len (ents ! m)"
  have pe: "length pe = entry_row_count len" "len < 65536" "pe ! 1 = word_of_nat len" "2 \<le> length pe"
    using list_all2_nthD [OF stored m] stored_len_ge
    by (auto simp: pe_def stored_entry_def len_def)
  have "ess = take m ess @ pe # drop (Suc m) ess" using m by (simp add: pe_def id_take_nth_drop)
  then have split: "length (concat ess) =
      length (concat (take m ess)) + length pe + length (concat (drop (Suc m) ess))"
    by (metis append.assoc concat.simps(2) concat_append length_append add.assoc)
  have total: "r + 2 + length (concat ess) \<le> 0x4c0" "cv_row_count v = 2 + length (concat ess)"
    "length ?sig = 34" "0x0c0 \<le> r"
    using f(4,6,7,9) by (simp_all add: ess_def)
  have kj: "k = 2 + length (concat (take m ess)) + j"
  proof -
    have "k - 2 = length (take (k - 2) (entries_writes (r + 2) ess))"
      using \<open>k - 2 < length (entries_writes (r + 2) ess)\<close> by simp
    also have "\<dots> = length (concat (take m ess)) + j"
      using j lenw [OF ne_m] lenw [of "[ess ! m]"] ne m unfolding tk by simp
    finally show ?thesis using k by simp
  qed
  have wlen: "length (writes c inst signature) - 34 = 2 + length (concat (cv_entries v))"
    using lenw [OF ne] total(3) unfolding W by (simp add: ess_def)
  have last: "m = 4 \<Longrightarrow> take m ess = cv_entries v \<and> pe = ?sig \<and> len = 64"
    using lens by (simp add: ess_def pe_def len_def ents_def value_entries_def nth_append
        OTP_COMMISSIONING_SIG_LEN_def)
  have sig_left: "?q + length pe + 34 \<le> 0x4c0 \<and> k \<le> length (writes c inst signature) - 34"
    if "m \<noteq> 4"
  proof -
    have m4: "m < 4" using m lens that by simp
    then have "drop (Suc m) ess = drop (Suc m) (cv_entries v) @ [?sig]"
      using lens by (simp add: ess_def)
    moreover have "take m ess = take m (cv_entries v)" "pe = cv_entries v ! m"
      using m4 lens by (simp_all add: ess_def pe_def nth_append)
    moreover have "cv_entries v = take m (cv_entries v) @ cv_entries v ! m # drop (Suc m) (cv_entries v)"
      using m4 lens by (simp add: id_take_nth_drop)
    then have "length (concat (cv_entries v)) = length (concat (take m (cv_entries v))) +
        length (cv_entries v ! m) + length (concat (drop (Suc m) (cv_entries v)))"
      by (metis append.assoc concat.simps(2) concat_append length_append add.assoc)
    ultimately show ?thesis using total split j kj wlen pe_def by simp
  qed
  have sorted': "if j \<noteq> 0 \<and> len \<noteq> 0 \<and> ?q + length pe + 1 = area_end a'
    then entries_at c a' True ?q [StoreDeleted ?q (word_of_nat len)] (LostAt (?q + length pe))
    else \<exists>es l. entries_at c a' True ?q es (Terminated l) \<and> ?q \<le> l \<and>
      (\<forall>i. l < i \<and> i < area_end a' \<longrightarrow> area_row a' i = Some 0)"
  proof (rule entries_at_partial)
    show "area_row a' ?q = Some 0"
      using mem [of ?q] total split pe(4) by simp
    show "area_row a' (?q + 1) = Some (if j = 0 then 0 else word_of_nat len)"
      using mem [of "?q + 1"] total split pe(3,4) by simp
    show "\<forall>i. (if j = 0 then ?q else ?q + length pe) \<le> i \<and> i < area_end a' \<longrightarrow> area_row a' i = Some 0"
      using mem j g(3) pe_def by auto
  qed (use g(2-4) total split pe in auto)
  have prefix: "entries_at c a' True (r + 2) (place_entries (r + 2) (take m ess) (take m ents) @ es) le"
    if "entries_at c a' True ?q es le" for es le
  proof (rule entries_at_stored [OF list_all2_takeI [OF stored]])
    show "\<forall>e\<in>set (take m ents). entry_key e \<noteq> KEY_SIG"
    proof -
      have "m \<le> length (value_entries board manufacturer date signer)"
        using m lens by (simp add: value_entries_def)
      then show ?thesis
        using value_entries_not_sig unfolding ents_def by (auto dest: in_set_takeD)
    qed
    show "\<forall>i<length (concat (take m ess)). area_row a' (r + 2 + i) = Some (concat (take m ess) ! i)"
      using mem total split by simp
  qed (use that g(2-4) total split in auto)
  have mv: "area_row a' r = Some OTP_STORE_MAGIC" "area_row a' (r + 1) = Some OTP_STORE_VERSION"
    using mem total split by simp_all
  show ?thesis
  proof (cases "j \<noteq> 0 \<and> len \<noteq> 0 \<and> ?q + length pe + 1 = area_end a'")
    case True
    then have "m = 4" using sig_left g(3) by auto
    then have "drop (Suc m) ess = []" using lens by simp
    then have "r + cv_row_count v + 1 = COMMISSIONING_AREA_END" "?q + length pe = COMMISSIONING_AREA_END - 1"
      using True total split g(3) by (simp_all add: area_ends)
    moreover have "length (writes c inst signature) - 34 < k"
      using True kj wlen last [OF \<open>m = 4\<close>] by simp
    ultimately show ?thesis using sorted' True prefix mv by auto
  next
    case False
    then obtain es l where el: "entries_at c a' True ?q es (Terminated l)" "?q \<le> l"
      "\<forall>i. l < i \<and> i < area_end a' \<longrightarrow> area_row a' i = Some 0"
      using sorted' by auto
    have "\<not> (r + cv_row_count v + 1 = COMMISSIONING_AREA_END \<and>
        length (writes c inst signature) - 34 < k)"
    proof
      assume *: "r + cv_row_count v + 1 = COMMISSIONING_AREA_END \<and>
        length (writes c inst signature) - 34 < k"
      then have "m = 4" using sig_left by force
      then have "drop (Suc m) ess = []" using lens by simp
      then have "?q + length pe + 1 = area_end a'"
        using * total split g(3) by (simp add: area_ends)
      moreover have "j \<noteq> 0" using * kj wlen last [OF \<open>m = 4\<close>] by simp
      ultimately show False using False last [OF \<open>m = 4\<close>] by simp
    qed
    moreover have "r + 2 \<le> l" using el(2) by simp
    moreover have "\<forall>i. l < i \<and> i < 0x4c0 \<longrightarrow> area_row a' i = Some 0" using el(3) g(3) by simp
    ultimately show ?thesis using mv prefix [OF el(1)] by blast
  qed
qed


text \<open>
  From a walk that adds at most one incomplete instance to the parsed area, and from an
  interrupted instance to such a walk.
\<close>

definition unchanged_but :: "commissioning_area \<Rightarrow> nat \<Rightarrow> commissioning_area \<Rightarrow> bool" where
  "unchanged_but old r ca \<longleftrightarrow> (\<exists>new. ca_instances ca = ca_instances old @ new \<and>
     ca_issues ca = ca_issues old \<and> ca_current_instance ca = ca_current_instance old \<and>
     length new \<le> 1 \<and> (\<forall>i\<in>set new. ci_first_row i = r \<and> ci_signed_rows i = None))"

lemma interrupted_walk:
  assumes com: "commissioning c rows old board manufacturer date signer v inst signature"
    and ws: "ws = take k (writes c inst signature)"
    and walk: "walk_at c (area_new (otp_after OTP_COMMISSIONING_AREA_FIRST_ROW ws rows)
        OTP_COMMISSIONING_AREA_FIRST_ROW COMMISSIONING_AREA_END)
      (nc_first_row inst) (ca_instances old) (ca_issues old)
      (ca_instances old @ new) (ca_issues old) (WalkEnded w)"
    and new: "length new \<le> 1" "\<forall>i\<in>set new. ci_first_row i = nc_first_row inst \<and> ci_signed_rows i = None"
  shows "\<exists>ca. commissioning_area_parse c (otp_after OTP_COMMISSIONING_AREA_FIRST_ROW ws rows) = Some ca \<and>
    unchanged_but old (nc_first_row inst) ca"
proof -
  have cur: "k < length (ca_instances old)" if "ca_current old = Some k" for k
    using current_old [OF com] rposition_Some [of is_complete "ca_instances old"] that
    by (auto split: option.splits if_splits)
  have "(case rposition is_complete (ca_instances old @ new) of None \<Rightarrow> None
     | Some k \<Rightarrow> if is_valid ((ca_instances old @ new) ! k) then Some k else None) = ca_current old"
  proof (cases new)
    case Nil
    show ?thesis unfolding Nil append_Nil2 by (rule current_old [OF com, symmetric])
  next
    case (Cons i rest)
    then have "new = [i]" using new by simp
    moreover have "\<not> is_complete i" using new Cons by (simp add: is_complete_def)
    ultimately show ?thesis using current_incomplete [OF _ current_old [OF com]] by blast
  qed
  then obtain ca where "commissioning_area_parse c (otp_after OTP_COMMISSIONING_AREA_FIRST_ROW ws rows) = Some ca"
    "ca_instances ca = ca_instances old @ new" "ca_issues ca = ca_issues old"
    "ca_current ca = ca_current old"
    using parse_after_writes [OF com ws walk] by auto
  moreover have "ca_current_instance ca = ca_current_instance old"
    using calculation cur by (cases "ca_current old") (auto simp: ca_current_instance_def nth_append)
  ultimately show ?thesis using new by (auto simp: unchanged_but_def)
qed

lemma interrupted_instance:
  assumes com: "commissioning c rows old board manufacturer date signer v inst signature"
    and ws: "ws = take k (writes c inst signature)"
  defines "a' \<equiv> area_new (otp_after OTP_COMMISSIONING_AREA_FIRST_ROW ws rows)
      OTP_COMMISSIONING_AREA_FIRST_ROW COMMISSIONING_AREA_END"
    and "r \<equiv> nc_first_row inst"
  assumes p: "parse_instance c a' r = Some (InstEnded i l)" and m: "area_row a' r = Some OTP_STORE_MAGIC"
    and i: "ci_first_row i = r" "ci_signed_rows i = None" and "r \<le> l"
    and blank: "\<forall>x. l < x \<and> x < 0x4c0 \<longrightarrow> area_row a' x = Some 0"
  shows "\<exists>ca. commissioning_area_parse c (otp_after OTP_COMMISSIONING_AREA_FIRST_ROW ws rows) = Some ca \<and>
    unchanged_but old r ca"
proof -
  note f = commissioning_facts [OF com, folded r_def]
    and g = after_writes [OF com ws, folded a'_def r_def]
  have "\<exists>w. walk_at c a' (page_after l) (ca_instances old @ [i]) (ca_issues old)
      (ca_instances old @ [i]) (ca_issues old) (WalkEnded w)"
    using blank g(2-4) f(4) page_after_gt [of l] \<open>r \<le> l\<close> by (intro walk_at_blank) auto
  then obtain w where "walk_at c a' r (ca_instances old) (ca_issues old)
      (ca_instances old @ [i]) (ca_issues old) (WalkEnded w)"
    using walk_at.ended [OF _ m p] g(3) f(5) by (metis (no_types))
  then show ?thesis
    using interrupted_walk [OF com ws, folded a'_def r_def, of "[i]" w] i by simp
qed

text \<open>
  C21: an interrupted commissioning changes nothing that counts, provided the instance does not
  leave exactly one row of the area unwritten. After any proper prefix of the writes of such an
  instance the area still parses without a new issue, to the old instances and at most one
  further instance, which is incomplete and has no message; the current instance is the one
  it was. For an instance that leaves exactly one row this is false: see
  \<open>interrupted_one_row_short\<close>.
\<close>

theorem commissioning_interrupted:
  assumes "commissioning c rows old board manufacturer date signer v inst signature"
    and "k < length (writes c inst signature)"
    and "nc_first_row inst + cv_row_count v + 1 \<noteq> COMMISSIONING_AREA_END"
  shows "\<exists>ca new. commissioning_area_parse c
      (otp_after OTP_COMMISSIONING_AREA_FIRST_ROW (take k (writes c inst signature)) rows) = Some ca \<and>
    ca_instances ca = ca_instances old @ new \<and> ca_issues ca = ca_issues old \<and>
    ca_current_instance ca = ca_current_instance old \<and>
    length new \<le> 1 \<and>
    (\<forall>i\<in>set new. ci_first_row i = nc_first_row inst \<and> \<not> is_complete i \<and> ci_message i chip_id = None)"
proof -
  let ?ws = "take k (writes c inst signature)" and ?r = "nc_first_row inst"
  let ?a = "area_new (otp_after OTP_COMMISSIONING_AREA_FIRST_ROW ?ws rows)
      OTP_COMMISSIONING_AREA_FIRST_ROW COMMISSIONING_AREA_END"
  note f = commissioning_facts [OF assms(1)] and g = after_writes [OF assms(1) refl, where k = k]
  consider "k = 0" | "k = 1" | "2 \<le> k" by linarith
  then have "\<exists>ca. commissioning_area_parse c
      (otp_after OTP_COMMISSIONING_AREA_FIRST_ROW ?ws rows) = Some ca \<and> unchanged_but old ?r ca"
  proof cases
    case 1
    then have "area_row ?a ?r = Some 0" using g(5) [of ?r] f(5) by simp
    then show ?thesis
      using walk_at.free [of ?r ?a c "ca_instances old" "ca_issues old"] g(3) f(5)
      by (intro interrupted_walk [OF assms(1) refl, of _ "[]" "Some ?r"]) auto
  next
    case 2
    have ws: "?ws = [\<lparr>rw_row = ?r, rw_value = OTP_STORE_MAGIC\<rparr>]"
      using 2 writes_structure [OF assms(1)] by simp
    have mem: "area_row ?a ?r = Some OTP_STORE_MAGIC" "area_row ?a (?r + 1) = Some 0"
      "\<forall>x. ?r < x \<and> x < 0x4c0 \<longrightarrow> area_row ?a x = Some 0"
      using g(5) f(5,6) unfolding ws by auto
    have "parse_instance c ?a ?r =
        Some (InstEnded \<lparr>ci_first_row = ?r, ci_entries = [], ci_signed_rows = None\<rparr> (?r + 1))"
      using mem(2) g(3) f(6) by (simp add: parse_instance_def Let_def)
    from interrupted_instance [OF assms(1) refl this mem(1)] show ?thesis using mem(3) by simp
  next
    case 3
    then obtain es l where el: "area_row ?a ?r = Some OTP_STORE_MAGIC"
      "area_row ?a (?r + 1) = Some OTP_STORE_VERSION"
      "entries_at c ?a True (?r + 2) es (Terminated l)" "?r + 2 \<le> l"
      "\<forall>i. l < i \<and> i < 0x4c0 \<longrightarrow> area_row ?a i = Some 0"
      using interrupted_entries [OF assms(1) _ assms(2)] assms(3) by blast
    have "parse_instance c ?a ?r =
        Some (InstEnded \<lparr>ci_first_row = ?r, ci_entries = es, ci_signed_rows = None\<rparr> l)"
      using parse_instance_version [OF el(2) _ el(3)] g(3) f(6) by (simp add: Let_def)
    from interrupted_instance [OF assms(1) refl this el(1)] show ?thesis using el(4,5) by simp
  qed
  then show ?thesis by (auto simp: unchanged_but_def is_complete_def ci_message_def)
qed

text \<open>
  C23: the exception. When the instance would leave exactly one row of the area unwritten, and
  the writes stop inside its signature entry after the entry's length row, the parser takes
  the single row left for an entry that runs past the area: it reports LostPlace there and no
  instance is current, not even a complete and valid earlier one.
\<close>

theorem interrupted_one_row_short:
  assumes "commissioning c rows old board manufacturer date signer v inst signature"
    and "k < length (writes c inst signature)"
    and "length (writes c inst signature) - 34 < k"
    and "nc_first_row inst + cv_row_count v + 1 = COMMISSIONING_AREA_END"
  shows "\<exists>ca. commissioning_area_parse c
      (otp_after OTP_COMMISSIONING_AREA_FIRST_ROW (take k (writes c inst signature)) rows) = Some ca \<and>
    ca_issues ca = ca_issues old @ [LostPlace OTP_COMMISSIONING_AREA_LAST_ROW] \<and>
    ca_current_instance ca = None"
proof -
  let ?ws = "take k (writes c inst signature)" and ?r = "nc_first_row inst"
  let ?a = "area_new (otp_after OTP_COMMISSIONING_AREA_FIRST_ROW ?ws rows)
      OTP_COMMISSIONING_AREA_FIRST_ROW COMMISSIONING_AREA_END"
  note f = commissioning_facts [OF assms(1)] and g = after_writes [OF assms(1) refl, where k = k]
  have "36 \<le> length (writes c inst signature)"
    unfolding writes_structure [OF assms(1)]
    using length_entries_writes [OF f(11)] f(9) by simp
  then have "2 \<le> k" using assms(3) by linarith
  from interrupted_entries [OF assms(1) this assms(2)] obtain es where
    m: "area_row ?a ?r = Some OTP_STORE_MAGIC" and
    v: "area_row ?a (?r + 1) = Some OTP_STORE_VERSION" and
    es: "entries_at c ?a True (?r + 2) es (LostAt (COMMISSIONING_AREA_END - 1))"
    using assms(3,4) by blast
  have p: "parse_instance c ?a ?r =
      Some (InstLost \<lparr>ci_first_row = ?r, ci_entries = es, ci_signed_rows = None\<rparr>
        (COMMISSIONING_AREA_END - 1))"
    using parse_instance_version [OF v _ es] g(3) f(6) by (simp add: Let_def)
  have "find_magic ?a 0x4c0 = Some None" using g(3) by (subst find_magic.simps) simp
  then have ia: "instance_after ?a (COMMISSIONING_AREA_END - 1) = Some None"
    by (simp add: instance_after_def page_after_def otp_constants)
  have "walk_at c ?a ?r (ca_instances old) (ca_issues old)
      (ca_instances old @ [\<lparr>ci_first_row = ?r, ci_entries = es, ci_signed_rows = None\<rparr>])
      (ca_issues old @ [LostPlace (COMMISSIONING_AREA_END - 1)]) WalkAbandoned"
    using walk_at.lost_end [OF _ m p ia] g(3) f(5) by simp
  from parse_after_writes [OF assms(1) refl this] show ?thesis
    by (auto simp: ca_current_instance_def otp_constants)
qed


section \<open>The contract can be met\<close>

text \<open>A codec with the layout the schema documents, and an erased area to commission.\<close>

fun entry_value :: "otp_entry \<Rightarrow> u8 list" where
  "entry_value (EntryBoard s) = s"
| "entry_value (EntryManufacturer s) = s"
| "entry_value (EntryDate s) = s"
| "entry_value (EntrySig s) = s"
| "entry_value (EntrySigner i) = u16_to_le_bytes i"
| "entry_value (EntryUnknown k s) = s"

definition layout_write :: "otp_entry \<Rightarrow> u8 list \<Rightarrow> u8 list" where
  "layout_write e buf =
     u16_to_le_bytes (entry_key e) @ u16_to_le_bytes (word_of_nat (value_len e)) @
     entry_value e @ drop (4 + length (entry_value e)) buf"

definition layout_parse :: "u8 list \<Rightarrow> otp_entry option" where
  "layout_parse bytes =
     (case bytes of
        k0 # k1 # l0 # l1 # rest \<Rightarrow>
          let key = u16_from_le_bytes k0 k1;
              val = take (unat (u16_from_le_bytes l0 l1)) rest
          in
          if key = KEY_BOARD then Some (EntryBoard val)
          else if key = KEY_MANUFACTURER then Some (EntryManufacturer val)
          else if key = KEY_DATE then Some (EntryDate val)
          else if key = KEY_SIG then Some (EntrySig val)
          else if key = KEY_SIGNER then
            (case val of lo # hi # _ \<Rightarrow> Some (EntrySigner (u16_from_le_bytes lo hi)) | _ \<Rightarrow> None)
          else Some (EntryUnknown (ucast key) val)
      | _ \<Rightarrow> None)"

definition layout_codec :: otp_codec where
  "layout_codec = \<lparr>codec_parse = layout_parse, codec_write = layout_write\<rparr>"

lemma otp_keys_distinct [simp]:
  "KEY_BOARD \<noteq> KEY_MANUFACTURER" "KEY_BOARD \<noteq> KEY_DATE" "KEY_BOARD \<noteq> KEY_SIG" "KEY_BOARD \<noteq> KEY_SIGNER"
  "KEY_MANUFACTURER \<noteq> KEY_BOARD" "KEY_MANUFACTURER \<noteq> KEY_DATE" "KEY_DATE \<noteq> KEY_BOARD"
  "KEY_DATE \<noteq> KEY_MANUFACTURER" "KEY_SIG \<noteq> KEY_BOARD" "KEY_SIG \<noteq> KEY_MANUFACTURER"
  "KEY_SIG \<noteq> KEY_DATE" "KEY_SIGNER \<noteq> KEY_BOARD" "KEY_SIGNER \<noteq> KEY_MANUFACTURER"
  "KEY_SIGNER \<noteq> KEY_DATE" "KEY_SIGNER \<noteq> KEY_SIG"
  by (simp_all add: otp_keys)

lemma layout_parse_bytes:
  assumes "unat L = length val"
  shows "layout_parse (u16_to_le_bytes K @ u16_to_le_bytes L @ val @ pad) =
    (if K = KEY_BOARD then Some (EntryBoard val)
     else if K = KEY_MANUFACTURER then Some (EntryManufacturer val)
     else if K = KEY_DATE then Some (EntryDate val)
     else if K = KEY_SIG then Some (EntrySig val)
     else if K = KEY_SIGNER then
       (case val of lo # hi # _ \<Rightarrow> Some (EntrySigner (u16_from_le_bytes lo hi)) | _ \<Rightarrow> None)
     else Some (EntryUnknown (ucast K) val))"
  using assms by (simp add: layout_parse_def u16_to_le_bytes_def [of K] u16_to_le_bytes_def [of L] Let_def)

lemma layout_codec_ok: "codec_ok layout_codec"
  unfolding codec_ok_def
proof (intro allI impI)
  fix e assume e: "storable e"
  have len: "length (entry_value e) = value_len e"
    using e by (cases e) (simp_all add: OTP_COMMISSIONING_SIGNER_LEN_def u16_to_le_bytes_def)
  define L :: u16 where "L = word_of_nat (value_len e)"
  have "unat L = length (entry_value e)" using storable_len [OF e] len by (simp add: L_def)
  note parse = layout_parse_bytes [OF this]
  have "layout_parse (layout_write e (replicate n 0)) = Some e" for n
    unfolding layout_write_def L_def [symmetric] parse
    using e by (cases e) (simp_all add: u16_to_le_bytes_def)
  moreover have "length (layout_write e (replicate (2 * entry_row_count (value_len e)) 0)) =
      2 * entry_row_count (value_len e)"
    using len by (simp add: layout_write_def u16_to_le_bytes_def entry_row_count_def)
  moreover have "take 4 (layout_write e buf) =
      u16_to_le_bytes (entry_key e) @ u16_to_le_bytes (word_of_nat (value_len e))" for buf
    by (simp add: layout_write_def u16_to_le_bytes_def)
  ultimately show "let n = 2 * entry_row_count (value_len e);
      bytes = codec_write layout_codec e (replicate n 0)
    in length bytes = n \<and>
      take 4 bytes = u16_to_le_bytes (entry_key e) @ u16_to_le_bytes (word_of_nat (value_len e)) \<and>
      codec_parse layout_codec bytes = Some e"
    by (simp add: Let_def layout_codec_def)
qed

definition erased_area :: commissioning_area where
  "erased_area = \<lparr>ca_instances = [], ca_issues = [], ca_current = None,
     ca_next_instance_row = Some 0x0c0\<rparr>"

lemma commissioning_erased:
  assumes "codec_ok c" "ascii board" "check_manufacturer manufacturer = Inr ()"
    "length date = 8" "list_all (\<lambda>b. 0x30 \<le> b \<and> b \<le> 0x39) date" "signer \<noteq> 0"
    "length signature = 64"
    and rows: "n = instance_row_count (map (\<lambda>e. entry_row_count (value_len e))
        (value_entries board manufacturer date signer))" "n \<le> 0x400"
  shows "\<exists>v inst. commissioning c (replicate 0x400 0) erased_area board manufacturer date signer
      v inst signature \<and> nc_first_row inst = 0x0c0 \<and> cv_row_count v = n"
proof -
  define v where "v = \<lparr>cv_entries = map (entry_rows c) (value_entries board manufacturer date signer)\<rparr>"
  have v: "commissioning_values_new c board manufacturer date signer = Inr v"
    using assms rows
    by (simp add: commissioning_values_new_def value_entries_def v_def otp_constants Let_def)
  have "length (entry_rows c e) = entry_row_count (value_len e)"
    if "e \<in> set (value_entries board manufacturer date signer)" for e
    using values_new_facts(2) [OF v assms(1,2)] that
    by (auto simp: v_def value_entries_def stored_entry_def)
  then have count: "cv_row_count v = n"
    by (simp add: rows v_def cv_row_count_def value_entries_def)
  define inst where "inst = \<lparr>nc_first_row = 0x0c0, nc_values = v\<rparr>"
  let ?a = "area_new (replicate 0x400 0) OTP_COMMISSIONING_AREA_FIRST_ROW COMMISSIONING_AREA_END"
  have "area_first ?a = 0x0c0" "area_end ?a = 0x4c0" "area_row ?a 0x0c0 = Some 0"
    by (simp_all add: area_new_def Let_def area_row_def otp_constants)
  then have "walk c ?a (area_first ?a) [] [] = Some ([], [], WalkEnded (Some 0x0c0))"
    by (subst walk.simps) simp
  then have "commissioning_area_parse c (replicate 0x400 0) = Some erased_area"
    by (simp add: commissioning_area_parse_def Let_def erased_area_def rposition_def)
  then have "commissioning c (replicate 0x400 0) erased_area board manufacturer date signer
      v inst signature"
    using assms v count rows
    by (simp add: commissioning_def inst_def erased_area_def new_instance_def otp_constants
        OTP_COMMISSIONING_SIG_LEN_def list_all_iff)
  then show ?thesis using count by (intro exI [of _ v] exI [of _ inst]) (simp add: inst_def)
qed

abbreviation some_date :: "u8 list" where
  "some_date \<equiv> [0x32, 0x30, 0x32, 0x36, 0x30, 0x37, 0x30, 0x31]"

abbreviation some_signature :: "u8 list" where
  "some_signature \<equiv> replicate 64 7"

lemma some_commissioning:
  "\<exists>v inst. commissioning layout_codec (replicate 0x400 0) erased_area [0x66, 0x32, 0x34]
     [0x70, 0x72] some_date 1 v inst some_signature \<and>
     nc_first_row inst = 0x0c0 \<and> cv_row_count v = 52"
  by (rule commissioning_erased [OF layout_codec_ok])
    (simp_all add: ascii_def check_manufacturer_def value_entries_def instance_row_count_def
      entry_row_count_def OTP_COMMISSIONING_SIG_LEN_def OTP_COMMISSIONING_SIGNER_LEN_def)


lemma length_writes:
  "commissioning c rows old board manufacturer date signer v inst signature \<Longrightarrow>
     length (writes c inst signature) = cv_row_count v"
  using length_entries_writes commissioning_facts(7,11) writes_structure by fastforce

theorem commissioning_roundtrip_witness:
  "\<exists>v inst ca new. commissioning_area_parse layout_codec
      (otp_after 0x0c0 (writes layout_codec inst some_signature) (replicate 0x400 0)) = Some ca \<and>
    ca_instances ca = [new] \<and> ca_current_instance ca = Some new \<and> ci_first_row new = 0x0c0 \<and>
    ci_board new = Some [0x66, 0x32, 0x34] \<and> ci_signer new = Some 1 \<and>
    ci_signature new = Some some_signature \<and>
    ci_message new [1, 2, 3, 4] = Some (cv_message v [1, 2, 3, 4])"
proof -
  obtain v inst where c: "commissioning layout_codec (replicate 0x400 0) erased_area [0x66, 0x32, 0x34]
     [0x70, 0x72] some_date 1 v inst some_signature" "nc_first_row inst = 0x0c0"
    using some_commissioning by blast
  show ?thesis
    using commissioning_roundtrip [OF c(1)] c(2)
    unfolding OTP_COMMISSIONING_AREA_FIRST_ROW_def
    by (intro exI [of _ v] exI [of _ inst]) (auto simp: erased_area_def)
qed

theorem commissioning_interrupted_witness:
  "\<exists>inst ca. commissioning_area_parse layout_codec
      (otp_after 0x0c0 (take 40 (writes layout_codec inst some_signature)) (replicate 0x400 0)) = Some ca \<and>
    length (ca_instances ca) \<le> 1 \<and> ca_issues ca = [] \<and> ca_current_instance ca = None"
proof -
  obtain v inst where c: "commissioning layout_codec (replicate 0x400 0) erased_area [0x66, 0x32, 0x34]
     [0x70, 0x72] some_date 1 v inst some_signature" "nc_first_row inst = 0x0c0" "cv_row_count v = 52"
    using some_commissioning by blast
  have "40 < length (writes layout_codec inst some_signature)"
    "nc_first_row inst + cv_row_count v + 1 \<noteq> COMMISSIONING_AREA_END"
    using length_writes [OF c(1)] c(2,3) by (simp_all add: area_ends)
  from commissioning_interrupted [OF c(1) this, of "[]"] show ?thesis
    unfolding OTP_COMMISSIONING_AREA_FIRST_ROW_def
    by (auto simp: erased_area_def ca_current_instance_def)
qed

theorem interrupted_one_row_short_witness:
  "\<exists>inst ca. commissioning_area_parse layout_codec
      (otp_after 0x0c0 (take 1000 (writes layout_codec inst some_signature)) (replicate 0x400 0)) = Some ca \<and>
    ca_issues ca = [LostPlace 0x4bf] \<and> ca_current_instance ca = None"
proof -
  have "check_manufacturer (replicate 948 0x41) = Inr ()"
    by (simp add: check_manufacturer_def list_all_iff hd_replicate last_replicate)
  then have "\<exists>v inst. commissioning layout_codec (replicate 0x400 0) erased_area (replicate 1000 0x41)
     (replicate 948 0x41) some_date 1 v inst some_signature \<and>
     nc_first_row inst = 0x0c0 \<and> cv_row_count v = 1023"
    by (intro commissioning_erased [OF layout_codec_ok])
      (simp_all add: ascii_def list_all_iff value_entries_def instance_row_count_def
        entry_row_count_def OTP_COMMISSIONING_SIG_LEN_def OTP_COMMISSIONING_SIGNER_LEN_def)
  then obtain v inst where c: "commissioning layout_codec (replicate 0x400 0) erased_area
     (replicate 1000 0x41) (replicate 948 0x41) some_date 1 v inst some_signature"
     "nc_first_row inst = 0x0c0" "cv_row_count v = 1023" by blast
  have "1000 < length (writes layout_codec inst some_signature)"
    "length (writes layout_codec inst some_signature) - 34 < 1000"
    "nc_first_row inst + cv_row_count v + 1 = COMMISSIONING_AREA_END"
    using length_writes [OF c(1)] c(2,3) by (simp_all add: area_ends)
  from interrupted_one_row_short [OF c(1) this] show ?thesis
    unfolding OTP_COMMISSIONING_AREA_FIRST_ROW_def OTP_COMMISSIONING_AREA_LAST_ROW_def
    by (auto simp: erased_area_def)
qed

end
