(* ===== verification/Onerom_Text.thy ===== *)
theory Onerom_Text
  imports Onerom_Prelude
begin

text \<open>
  Rust text. A \<open>&str\<close> or \<open>String\<close> is the list of its Unicode scalar values, so that
  \<open>str::trim\<close> (which strips Unicode white space) is modelled for every input, not only for
  ASCII. Numbers are written in decimal and hexadecimal as \<open>Display\<close> and \<open>{:#x}\<close> write
  them, and read as \<open>usize::from_str_radix\<close> reads them, the optional \<open>+\<close> sign and the
  overflow error included.
\<close>

type_synonym ustr = "nat list"

definition lit :: "string \<Rightarrow> ustr" where
  "lit s = map of_char s"

lemma lit_simps [simp]: "lit [] = []" "lit (c # s) = of_char c # lit s"
  by (simp_all add: lit_def)

lemma lit_append: "lit (s @ t) = lit s @ lit t"
  by (simp add: lit_def)

text \<open>\<open>str::len\<close>: the length of the UTF-8 form, in bytes.\<close>

definition char_len :: "nat \<Rightarrow> nat" where
  "char_len c = (if c < 0x80 then 1 else if c < 0x800 then 2 else if c < 0x10000 then 3 else 4)"

definition str_len :: "ustr \<Rightarrow> nat" where
  "str_len s = sum_list (map char_len s)"

section \<open>White space and prefixes\<close>

definition is_white_space :: "nat \<Rightarrow> bool" where
  "is_white_space c \<longleftrightarrow>
     9 \<le> c \<and> c \<le> 13 \<or> c = 32 \<or> c = 0x85 \<or> c = 0xA0 \<or> c = 0x1680 \<or>
     0x2000 \<le> c \<and> c \<le> 0x200A \<or> c = 0x2028 \<or> c = 0x2029 \<or> c = 0x202F \<or>
     c = 0x205F \<or> c = 0x3000"

definition str_trim :: "ustr \<Rightarrow> ustr" where
  "str_trim s = trim_by is_white_space s"

fun strip_prefix :: "ustr \<Rightarrow> ustr \<Rightarrow> ustr option" where
  "strip_prefix [] s = Some s"
| "strip_prefix (p # ps) [] = None"
| "strip_prefix (p # ps) (c # s) = (if p = c then strip_prefix ps s else None)"

lemma strip_prefix_append [simp]: "strip_prefix p (p @ s) = Some s"
  by (induction p) auto

lemma strip_prefix_Some_iff: "strip_prefix p s = Some r \<longleftrightarrow> s = p @ r"
  by (induction p s rule: strip_prefix.induct) auto

text \<open>\<open>split_once(d)\<close>: the parts before and after the first \<open>d\<close>.\<close>

fun split_once :: "nat \<Rightarrow> ustr \<Rightarrow> (ustr \<times> ustr) option" where
  "split_once d [] = None"
| "split_once d (c # s) =
     (if c = d then Some ([], s)
      else map_option (\<lambda>(a, b). (c # a, b)) (split_once d s))"

lemma split_once_append: "d \<notin> set a \<Longrightarrow> split_once d (a @ d # b) = Some (a, b)"
  by (induction a) auto

lemma split_once_None_iff: "split_once d s = None \<longleftrightarrow> d \<notin> set s"
  by (induction s) auto

lemma str_trim_printable:
  "(\<And>c. c \<in> set s \<Longrightarrow> 32 < c \<and> c < 127) \<Longrightarrow> str_trim s = s"
  unfolding str_trim_def by (rule trim_by_none) (fastforce simp: is_white_space_def)

text \<open>\<open>parts.join(sep)\<close> on strings.\<close>

fun str_join :: "ustr \<Rightarrow> ustr list \<Rightarrow> ustr" where
  "str_join sep [] = []"
| "str_join sep [p] = p"
| "str_join sep (p # q # ps) = p @ sep @ str_join sep (q # ps)"

lemma split_on_str_join:
  "ps \<noteq> [] \<Longrightarrow> (\<And>p. p \<in> set ps \<Longrightarrow> d \<notin> set p) \<Longrightarrow> split_on d (str_join [d] ps) = ps"
  by (induction "[d]" ps rule: str_join.induct) (auto simp: split_on_append split_on_no_delim)

section \<open>Numbers\<close>

definition to_digit :: "nat \<Rightarrow> nat \<Rightarrow> nat option" where
  "to_digit radix c =
     (let d = (if 48 \<le> c \<and> c \<le> 57 then c - 48
               else if 97 \<le> c \<and> c \<le> 122 then c - 97 + 10
               else if 65 \<le> c \<and> c \<le> 90 then c - 65 + 10
               else radix)
      in if d < radix then Some d else None)"

fun radix_acc :: "nat \<Rightarrow> ustr \<Rightarrow> usize \<Rightarrow> usize option" where
  "radix_acc radix [] acc = Some acc"
| "radix_acc radix (c # cs) acc =
     (case to_digit radix c of
        None \<Rightarrow> None
      | Some d \<Rightarrow>
          (case checked_mul acc radix of
             None \<Rightarrow> None
           | Some m \<Rightarrow>
               (case checked_add m d of
                  None \<Rightarrow> None
                | Some a \<Rightarrow> radix_acc radix cs a)))"

definition from_str_radix :: "ustr \<Rightarrow> nat \<Rightarrow> usize option" where
  "from_str_radix s radix =
     (case s of
        [] \<Rightarrow> None
      | c # cs \<Rightarrow>
          if c = of_char (CHR ''+'')
          then (if cs = [] then None else radix_acc radix cs 0)
          else radix_acc radix s 0)"

function digits_of :: "nat \<Rightarrow> nat \<Rightarrow> nat list" where
  "digits_of b n =
     (if b < 2 \<or> n < b then [n] else digits_of b (n div b) @ [n mod b])"
  by pat_completeness auto
termination
  by (relation "measure snd") auto

declare digits_of.simps [simp del]

definition digit_char :: "nat \<Rightarrow> nat" where
  "digit_char d = (if d < 10 then 48 + d else 87 + d)"

definition show_dec :: "nat \<Rightarrow> ustr" where
  "show_dec n = map digit_char (digits_of 10 n)"

definition show_hex :: "nat \<Rightarrow> ustr" where
  "show_hex n = map digit_char (digits_of 16 n)"

lemma to_digit_digit_char: "d < radix \<Longrightarrow> radix \<le> 36 \<Longrightarrow> to_digit radix (digit_char d) = Some d"
  by (auto simp: to_digit_def digit_char_def)

lemma digits_of_not_Nil [simp]: "digits_of b n \<noteq> []"
  by (subst digits_of.simps) simp

lemma digits_of_bound: "2 \<le> b \<Longrightarrow> d \<in> set (digits_of b n) \<Longrightarrow> d < b"
proof (induction b n rule: digits_of.induct)
  case (1 b n)
  then show ?case by (cases "n < b") (auto simp: digits_of.simps [of b n])
qed

lemma radix_acc_append:
  "radix_acc r (xs @ ys) acc = Option.bind (radix_acc r xs acc) (radix_acc r ys)"
  by (induction r xs acc rule: radix_acc.induct) (auto split: option.splits)

lemma radix_acc_digits:
  assumes "2 \<le> b" "b \<le> 36" "n \<le> usize_max"
  shows "radix_acc b (map digit_char (digits_of b n)) 0 = Some n"
  using assms
proof (induction b n rule: digits_of.induct)
  case (1 b n)
  show ?case
  proof (cases "n < b")
    case True
    with 1 show ?thesis
      by (simp add: digits_of.simps [of b n] to_digit_digit_char checked_mul_def checked_add_def)
  next
    case False
    have le: "n div b * b \<le> usize_max"
      using 1 by (meson div_times_less_eq_dividend le_trans)
    have "radix_acc b (map digit_char (digits_of b (n div b))) 0 = Some (n div b)"
      using 1 False by (simp add: div_le_dividend [THEN le_trans])
    then show ?thesis
      using False 1 le
      by (simp add: digits_of.simps [of b n] radix_acc_append to_digit_digit_char
          checked_mul_def checked_add_def)
  qed
qed

lemma digit_char_range: "d < 36 \<Longrightarrow> 48 \<le> digit_char d \<and> digit_char d \<le> 122 \<and> digit_char d \<noteq> 58"
  by (auto simp: digit_char_def)

lemma from_str_radix_digits:
  assumes "2 \<le> b" "b \<le> 36" "n \<le> usize_max"
  shows "from_str_radix (map digit_char (digits_of b n)) b = Some n"
proof -
  obtain d ds where ds: "digits_of b n = d # ds"
    by (cases "digits_of b n") auto
  have "d < 36" using digits_of_bound [OF assms(1), of d n] ds assms(2) by simp
  then have "digit_char d \<noteq> 43" using digit_char_range [of d] by simp
  then show ?thesis
    using radix_acc_digits [OF assms] by (simp add: from_str_radix_def ds)
qed

lemma parse_show_dec: "n \<le> usize_max \<Longrightarrow> from_str_radix (show_dec n) 10 = Some n"
  by (simp add: show_dec_def from_str_radix_digits)

lemma parse_show_hex: "n \<le> usize_max \<Longrightarrow> from_str_radix (show_hex n) 16 = Some n"
  by (simp add: show_hex_def from_str_radix_digits)

lemma show_dec_chars: "c \<in> set (show_dec n) \<Longrightarrow> 48 \<le> c \<and> c \<le> 57"
  using digits_of_bound [of 10 _ n] by (force simp: show_dec_def digit_char_def)

lemma show_hex_chars: "c \<in> set (show_hex n) \<Longrightarrow> 48 \<le> c \<and> c \<le> 57 \<or> 97 \<le> c \<and> c \<le> 102"
  using digits_of_bound [of 16 _ n] by (force simp: show_hex_def digit_char_def)

lemma show_dec_trim [simp]: "str_trim (show_dec n) = show_dec n"
  by (rule str_trim_printable) (auto dest: show_dec_chars)

lemma show_dec_not_Nil [simp]: "show_dec n \<noteq> []"
  by (simp add: show_dec_def)

end
