(* ===== verification/Otp_Identity.thy ===== *)
theory Otp_Identity
  imports Onerom_Text
begin

text \<open>
  The rest of \<open>rust/metadata/src/otp.rs\<close>: the board size that OTP configures and the flash
  layouts the tools make, the CHIPID's text form, and a signing key's record file. With
  \<open>rust/config/src/hw/board_size.rs\<close>, the names of the sizes.

  Text is a list of code points. The source counts bytes where this model counts code points,
  which only differs on text that is refused either way, as it checks that every byte is a
  hexadecimal digit. \<open>Sha256::digest\<close> is a parameter.
\<close>

section \<open>Board size\<close>

datatype board_size = Size_M | Size_L

definition board_size_supported_values :: "board_size list" where
  "board_size_supported_values = [Size_M, Size_L]"

fun board_size_name :: "board_size \<Rightarrow> ustr" where
  "board_size_name Size_M = lit ''M''"
| "board_size_name Size_L = lit ''L''"

definition ascii_lower :: "nat \<Rightarrow> nat" where
  "ascii_lower c = (if 65 \<le> c \<and> c \<le> 90 then c + 32 else c)"

definition eq_ignore_ascii_case :: "ustr \<Rightarrow> ustr \<Rightarrow> bool" where
  "eq_ignore_ascii_case s t \<longleftrightarrow> map ascii_lower s = map ascii_lower t"

datatype board_size_error = BoardSizeUnknown

definition board_size_from_str :: "ustr \<Rightarrow> (board_size_error, board_size) result" where
  "board_size_from_str s =
     ok_or (List.find (\<lambda>sz. eq_ignore_ascii_case (board_size_name sz) s)
              board_size_supported_values) BoardSizeUnknown"

datatype onerom_board_size = BoardSizeM | BoardSizeL | BoardSizeOther

datatype flash_size =
    FlashSizeNone | FlashSize8kb | FlashSize16kb | FlashSize32kb | FlashSize64kb
  | FlashSize128kb | FlashSize256kb | FlashSize512kb | FlashSize1mb | FlashSize2mb
  | FlashSize4mb | FlashSize8mb | FlashSize16mb

definition flash_sizes :: "flash_size list" where
  "flash_sizes = [FlashSizeNone, FlashSize8kb, FlashSize16kb, FlashSize32kb, FlashSize64kb,
     FlashSize128kb, FlashSize256kb, FlashSize512kb, FlashSize1mb, FlashSize2mb,
     FlashSize4mb, FlashSize8mb, FlashSize16mb]"

text \<open>\<open>size as u8\<close> and \<open>try_from(u8)\<close> of the schema's enum, whose values are 0 to 12.\<close>

fun flash_size_code :: "flash_size \<Rightarrow> nat" where
  "flash_size_code FlashSizeNone = 0"
| "flash_size_code FlashSize8kb = 1"
| "flash_size_code FlashSize16kb = 2"
| "flash_size_code FlashSize32kb = 3"
| "flash_size_code FlashSize64kb = 4"
| "flash_size_code FlashSize128kb = 5"
| "flash_size_code FlashSize256kb = 6"
| "flash_size_code FlashSize512kb = 7"
| "flash_size_code FlashSize1mb = 8"
| "flash_size_code FlashSize2mb = 9"
| "flash_size_code FlashSize4mb = 10"
| "flash_size_code FlashSize8mb = 11"
| "flash_size_code FlashSize16mb = 12"

definition flash_size_try_from :: "nat \<Rightarrow> flash_size option" where
  "flash_size_try_from code = get flash_sizes code"

definition OTP_BOOT_FLAGS0_FLASH_DEVINFO_ENABLE :: u32 where
  "OTP_BOOT_FLAGS0_FLASH_DEVINFO_ENABLE = 0x20"
definition OTP_FLASH_DEVINFO_CS0_SIZE_SHIFT :: nat where "OTP_FLASH_DEVINFO_CS0_SIZE_SHIFT = 8"
definition OTP_FLASH_DEVINFO_CS1_SIZE_SHIFT :: nat where "OTP_FLASH_DEVINFO_CS1_SIZE_SHIFT = 12"
definition OTP_FLASH_DEVINFO_SIZE_BITS :: u16 where "OTP_FLASH_DEVINFO_SIZE_BITS = 0xf"
definition OTP_FLASH_DEVINFO_SIZE_UNIT :: nat where "OTP_FLASH_DEVINFO_SIZE_UNIT = 4096"
definition TOTAL_FLASH_SIZE_M :: usize where "TOTAL_FLASH_SIZE_M = 0x200000"
definition TOTAL_FLASH_SIZE_L :: usize where "TOTAL_FLASH_SIZE_L = 0x400000"

record flash_layout =
  fl_cs0 :: flash_size
  fl_cs1 :: flash_size

definition FLASH_LAYOUTS :: "(board_size \<times> flash_layout) list" where
  "FLASH_LAYOUTS =
     [(Size_M, \<lparr>fl_cs0 = FlashSize2mb, fl_cs1 = FlashSizeNone\<rparr>),
      (Size_L, \<lparr>fl_cs0 = FlashSize2mb, fl_cs1 = FlashSize2mb\<rparr>)]"

text \<open>\<open>None\<close> is the panic of \<open>expect\<close>.\<close>

definition flash_layout_of :: "board_size \<Rightarrow> flash_layout option" where
  "flash_layout_of sz = map_option snd (List.find (\<lambda>(row_size, _). row_size = sz) FLASH_LAYOUTS)"

definition flash_size_bytes :: "flash_size \<Rightarrow> usize" where
  "flash_size_bytes sz =
     (if sz = FlashSizeNone then 0
      else OTP_FLASH_DEVINFO_SIZE_UNIT * 2 ^ flash_size_code sz)"

definition layout_board_size :: "flash_layout \<Rightarrow> board_size option" where
  "layout_board_size l =
     (let total = flash_size_bytes (fl_cs0 l) + flash_size_bytes (fl_cs1 l) in
      if total = TOTAL_FLASH_SIZE_M then Some Size_M
      else if total = TOTAL_FLASH_SIZE_L then Some Size_L
      else None)"

definition devinfo_flash_size :: "u16 \<Rightarrow> nat \<Rightarrow> flash_size" where
  "devinfo_flash_size flash_devinfo shift =
     (let code = drop_bit shift flash_devinfo AND OTP_FLASH_DEVINFO_SIZE_BITS in
      case flash_size_try_from (unat code) of Some s \<Rightarrow> s | None \<Rightarrow> FlashSizeNone)"

definition otp_board_size :: "u32 \<Rightarrow> u32 \<Rightarrow> u32 \<Rightarrow> u16 \<Rightarrow> onerom_board_size" where
  "otp_board_size a b c flash_devinfo =
     (let majority = (a AND b) OR (a AND c) OR (b AND c) in
      if majority AND OTP_BOOT_FLAGS0_FLASH_DEVINFO_ENABLE = 0 then BoardSizeM
      else
        let layout = \<lparr>fl_cs0 = devinfo_flash_size flash_devinfo OTP_FLASH_DEVINFO_CS0_SIZE_SHIFT,
                      fl_cs1 = devinfo_flash_size flash_devinfo OTP_FLASH_DEVINFO_CS1_SIZE_SHIFT\<rparr>
        in
        case layout_board_size layout of
          Some Size_M \<Rightarrow> BoardSizeM
        | Some Size_L \<Rightarrow> BoardSizeL
        | None \<Rightarrow> BoardSizeOther)"

text \<open>The FLASH_DEVINFO row that stores a layout's two size codes.\<close>

definition devinfo_with :: "flash_layout \<Rightarrow> u16" where
  "devinfo_with l = push_bit 8 (word_of_nat (flash_size_code (fl_cs0 l))) OR
     push_bit 12 (word_of_nat (flash_size_code (fl_cs1 l)))"

lemma majority_of_two:
  fixes x z :: u32
  shows "x AND x OR x AND z OR x AND z = x" "x AND z OR x AND x OR z AND x = x"
    "z AND x OR z AND x OR x AND x = x"
  by (auto intro!: bit_word_eqI simp: bit_simps)

lemma enable_bit: "(x :: u32) AND 0x20 = 0 \<longleftrightarrow> \<not> bit x 5"
  using and_exp_eq_0_iff_not_bit [of x 5] by simp

text \<open>
  C26: the two halves of the board-size rule agree. The layout the tools make for a size is of
  that size, and an OTP whose FLASH_DEVINFO stores this layout's codes configures that size
  when FLASH_DEVINFO_ENABLE (bit 5) is set, and an M board when it is clear. Any one of the
  three copies of BOOT_FLAGS0 may hold anything without changing the answer.
\<close>

theorem board_size_rule:
  "\<exists>l. flash_layout_of sz = Some l \<and> layout_board_size l = Some sz \<and>
     otp_board_size x x x (devinfo_with l) =
       (if bit x 5 then (case sz of Size_M \<Rightarrow> BoardSizeM | Size_L \<Rightarrow> BoardSizeL) else BoardSizeM) \<and>
     otp_board_size x x z d = otp_board_size x x x d \<and>
     otp_board_size x z x d = otp_board_size x x x d \<and>
     otp_board_size z x x d = otp_board_size x x x d"
proof -
  have maj: "otp_board_size x x z d = otp_board_size x x x d"
    "otp_board_size x z x d = otp_board_size x x x d"
    "otp_board_size z x x d = otp_board_size x x x d"
    by (simp_all add: otp_board_size_def majority_of_two [of x z])
  have "flash_layout_of sz = Some l \<Longrightarrow> otp_board_size x x x (devinfo_with l) =
      (if bit x 5 then (case sz of Size_M \<Rightarrow> BoardSizeM | Size_L \<Rightarrow> BoardSizeL) else BoardSizeM)" for l
    by (cases sz)
      (auto simp: otp_board_size_def enable_bit OTP_BOOT_FLAGS0_FLASH_DEVINFO_ENABLE_def
        flash_layout_of_def FLASH_LAYOUTS_def devinfo_with_def devinfo_flash_size_def Let_def
        OTP_FLASH_DEVINFO_CS0_SIZE_SHIFT_def OTP_FLASH_DEVINFO_CS1_SIZE_SHIFT_def
        OTP_FLASH_DEVINFO_SIZE_BITS_def flash_size_try_from_def get_def flash_sizes_def
        layout_board_size_def flash_size_bytes_def OTP_FLASH_DEVINFO_SIZE_UNIT_def
        TOTAL_FLASH_SIZE_M_def TOTAL_FLASH_SIZE_L_def)
  moreover have "\<exists>l. flash_layout_of sz = Some l \<and> layout_board_size l = Some sz"
    by (cases sz) (simp_all add: flash_layout_of_def FLASH_LAYOUTS_def layout_board_size_def
        flash_size_bytes_def OTP_FLASH_DEVINFO_SIZE_UNIT_def TOTAL_FLASH_SIZE_M_def
        TOTAL_FLASH_SIZE_L_def Let_def)
  ultimately show ?thesis using maj by blast
qed

section \<open>Hexadecimal text of fixed width\<close>

text \<open>\<open>{:0wX}\<close> and \<open>{:0wx}\<close> for a number below \<open>16 ^ w\<close>: exactly \<open>w\<close> digits.\<close>

definition upper_digit :: "nat \<Rightarrow> nat" where
  "upper_digit d = (if d < 10 then 48 + d else 55 + d)"

definition hex_fixed :: "(nat \<Rightarrow> nat) \<Rightarrow> nat \<Rightarrow> nat \<Rightarrow> ustr" where
  "hex_fixed digit w n = map (\<lambda>k. digit (n div 16 ^ k mod 16)) (rev [0..<w])"

definition from_str_radix_below :: "nat \<Rightarrow> ustr \<Rightarrow> nat option" where
  "from_str_radix_below limit s =
     (case from_str_radix s 16 of Some n \<Rightarrow> if n < limit then Some n else None | None \<Rightarrow> None)"

definition format_chip_id :: "u16 list \<Rightarrow> ustr" where
  "format_chip_id chip_id = concat (map (\<lambda>row. hex_fixed upper_digit 4 (unat row)) (rev chip_id))"

definition is_upper_hex :: "nat \<Rightarrow> bool" where
  "is_upper_hex b \<longleftrightarrow> 48 \<le> b \<and> b \<le> 57 \<or> 65 \<le> b \<and> b \<le> 70"

definition is_lower_hex :: "nat \<Rightarrow> bool" where
  "is_lower_hex b \<longleftrightarrow> 48 \<le> b \<and> b \<le> 57 \<or> 97 \<le> b \<and> b \<le> 102"

text \<open>The loop fills \<open>chip_id\<close> from its last element: piece \<open>i\<close> of the text is row \<open>3 - i\<close>.\<close>

definition parse_chip_id :: "ustr \<Rightarrow> u16 list option" where
  "parse_chip_id text =
     (if length text \<noteq> 16 \<or> \<not> list_all is_upper_hex text then None
      else
        let pieces = map (\<lambda>i. from_str_radix_below (2 ^ 16) (take 4 (drop (4 * i) text))) [0..<4] in
        if None \<in> set pieces then None
        else Some (rev (map (\<lambda>p. word_of_nat (the p)) pieces)))"

record record_line =
  rl_hash :: "u8 list"

definition record_line_new :: "(u8 list \<Rightarrow> u8 list) \<Rightarrow> u8 list \<Rightarrow> record_line" where
  "record_line_new sha256 signature = \<lparr>rl_hash = sha256 signature\<rparr>"

definition show_hex_bytes :: "u8 list \<Rightarrow> ustr" where
  "show_hex_bytes bs = concat (map (\<lambda>b. hex_fixed digit_char 2 (unat b)) bs)"

definition show_record_line :: "record_line \<Rightarrow> ustr" where
  "show_record_line l = show_hex_bytes (rl_hash l)"

definition parse_record_line :: "ustr \<Rightarrow> record_line option" where
  "parse_record_line line =
     (if length line \<noteq> 64 \<or> \<not> list_all is_lower_hex line then None
      else
        let pieces = map (\<lambda>i. from_str_radix_below (2 ^ 8) (take 2 (drop (2 * i) line))) [0..<32] in
        if None \<in> set pieces then None
        else Some \<lparr>rl_hash = map (\<lambda>p. word_of_nat (the p)) pieces\<rparr>)"

text \<open>
  \<open>str::lines\<close>: a line's newline and a carriage return before it are dropped; a last line
  without a newline is kept as it is, and none is added for a final newline.
\<close>

definition strip_cr :: "ustr \<Rightarrow> ustr" where
  "strip_cr p = (if p \<noteq> [] \<and> last p = 13 then butlast p else p)"

fun finish_lines :: "ustr list \<Rightarrow> ustr list" where
  "finish_lines [] = []"
| "finish_lines [p] = (if p = [] then [] else [p])"
| "finish_lines (p # q # ps) = strip_cr p # finish_lines (q # ps)"

definition str_lines :: "ustr \<Rightarrow> ustr list" where
  "str_lines s = finish_lines (split_on 10 s)"

record record_error =
  re_line :: nat

definition parse_record :: "ustr \<Rightarrow> (record_error, record_line list) result" where
  "parse_record text =
     map_r (\<lambda>(i, line). ok_or (parse_record_line line) \<lparr>re_line = i + 1\<rparr>)
       (filter (\<lambda>(i, line). str_trim line \<noteq> []) (enumerate 0 (str_lines text)))"


section \<open>Alphabets of hexadecimal digits\<close>

text \<open>The contract of a digit set: each value is written as one character that parses back.\<close>

locale hex_alphabet =
  fixes digit :: "nat \<Rightarrow> nat" and is_hex :: "nat \<Rightarrow> bool"
  assumes digit_value: "d < 16 \<Longrightarrow> to_digit 16 (digit d) = Some d"
    and digit_hex: "d < 16 \<Longrightarrow> is_hex (digit d)"
    and hex_digit: "is_hex b \<Longrightarrow> \<exists>d<16. b = digit d"
    and no_sign: "\<not> is_hex 43"
begin

definition val :: "nat list \<Rightarrow> nat" where
  "val ds = foldl (\<lambda>a d. a * 16 + d) 0 ds"

lemma foldl_val: "foldl (\<lambda>a d. a * 16 + d) acc ds = acc * 16 ^ length ds + val ds"
proof (induction ds arbitrary: acc)
  case (Cons d ds)
  have "val (d # ds) = d * 16 ^ length ds + val ds"
    using Cons [of d] by (simp add: val_def)
  then show ?case using Cons [of "acc * 16 + d"] by (simp add: algebra_simps)
qed (simp add: val_def)

lemma val_Cons: "val (d # ds) = d * 16 ^ length ds + val ds"
  using foldl_val [of d ds] by (simp add: val_def)

lemma val_less: "list_all (\<lambda>d. d < 16) ds \<Longrightarrow> val ds < 16 ^ length ds"
proof (induction ds)
  case (Cons d ds)
  then have "d * 16 ^ length ds + val ds < d * 16 ^ length ds + 16 ^ length ds" by simp
  also have "\<dots> = (d + 1) * 16 ^ length ds" by simp
  also have "\<dots> \<le> 16 * 16 ^ length ds" using Cons.prems by (intro mult_right_mono) auto
  finally show ?case by (simp add: val_Cons)
qed (simp add: val_def)

lemma radix_acc_val:
  "list_all (\<lambda>d. d < 16) ds \<Longrightarrow> acc * 16 ^ length ds + val ds \<le> usize_max \<Longrightarrow>
     radix_acc 16 (map digit ds) acc = Some (acc * 16 ^ length ds + val ds)"
proof (induction ds arbitrary: acc)
  case (Cons d ds)
  have eq: "acc * 16 ^ length (d # ds) + val (d # ds) = (acc * 16 + d) * 16 ^ length ds + val ds"
    by (simp add: val_Cons algebra_simps)
  have "acc * 16 + d \<le> (acc * 16 + d) * 16 ^ length ds" by simp
  then have "acc * 16 + d \<le> usize_max" using Cons.prems(2) unfolding eq by linarith
  then show ?case
    using Cons unfolding eq by (auto simp: digit_value checked_mul_def checked_add_def)
qed (simp add: val_def)

lemma hex_fixed_Suc: "hex_fixed digit (Suc w) n = digit (n div 16 ^ w mod 16) # hex_fixed digit w n"
  by (simp add: hex_fixed_def)

lemma hex_fixed_high: "hex_fixed digit w (d * 16 ^ w + v) = hex_fixed digit w v"
proof -
  have "(d * 16 ^ w + v) div 16 ^ k mod 16 = v div 16 ^ k mod 16" if "k < w" for k
  proof -
    have "d * 16 ^ w = (d * 16 ^ (w - Suc k) * 16) * 16 ^ k"
      using that by (simp add: power_add [symmetric] mult.assoc flip: power_Suc)
    moreover have "(q * 16 * 16 ^ k + v) div 16 ^ k mod 16 = v div 16 ^ k mod 16" for q
      by (subst div_mult_self3) simp_all
    ultimately show ?thesis by metis
  qed
  then show ?thesis by (simp add: hex_fixed_def)
qed

lemma hex_fixed_val:
  "list_all (\<lambda>d. d < 16) ds \<Longrightarrow> hex_fixed digit (length ds) (val ds) = map digit ds"
proof (induction ds)
  case (Cons d ds)
  then have "val ds < 16 ^ length ds" using val_less by simp
  then show ?case
    using Cons by (simp add: hex_fixed_Suc hex_fixed_high val_Cons)
qed (simp add: hex_fixed_def)

lemma length_hex_fixed: "length (hex_fixed digit w n) = w"
  by (simp add: hex_fixed_def)

lemma hex_fixed_hex: "list_all is_hex (hex_fixed digit w n)"
  by (simp add: hex_fixed_def list_all_iff digit_hex)

lemma digits_exist: "list_all is_hex t \<Longrightarrow> \<exists>ds. t = map digit ds \<and> list_all (\<lambda>d. d < 16) ds"
proof (induction t)
  case (Cons b t)
  obtain d where d: "d < 16" "b = digit d" using hex_digit Cons.prems by auto
  obtain ds where ds: "t = map digit ds" "list_all (\<lambda>d. d < 16) ds" using Cons by auto
  show ?case by (intro exI [of _ "d # ds"]) (simp add: d ds)
qed simp

text \<open>Reading a fixed-width text and writing the number are inverse to each other.\<close>

lemma parse_fixed:
  assumes "length t = w" "list_all is_hex t" "0 < w" "w \<le> 8"
  shows "\<exists>n<16 ^ w. from_str_radix_below (16 ^ w) t = Some n \<and> hex_fixed digit w n = t"
proof -
  obtain ds where ds: "t = map digit ds" "list_all (\<lambda>d. d < 16) ds"
    using digits_exist [OF assms(2)] by blast
  have less: "val ds < 16 ^ w" using val_less [OF ds(2)] assms(1) ds(1) by simp
  have "(16 :: nat) ^ w \<le> 16 ^ 8" by (rule power_increasing) (use assms(4) in auto)
  then have "val ds \<le> usize_max" using less by (simp add: usize_max_def)
  then have "radix_acc 16 t 0 = Some (val ds)" using radix_acc_val [OF ds(2), of 0] ds(1) by simp
  moreover obtain c cs where "t = c # cs" using assms by (cases t) auto
  moreover have "c \<noteq> 43" using \<open>t = c # cs\<close> assms(2) no_sign by auto
  ultimately have "from_str_radix t 16 = Some (val ds)" by (simp add: from_str_radix_def)
  moreover have "hex_fixed digit w (val ds) = t" using hex_fixed_val [OF ds(2)] ds(1) assms(1) by simp
  ultimately show ?thesis using less by (auto simp: from_str_radix_below_def)
qed

lemma hex_fixed_inj:
  assumes "hex_fixed digit w m = hex_fixed digit w n" "m < 16 ^ w" "n < 16 ^ w"
  shows "m = n"
  using assms
proof (induction w arbitrary: m n)
  case (Suc w)
  have "digit (m div 16 ^ w mod 16) = digit (n div 16 ^ w mod 16)"
    and eq: "hex_fixed digit w m = hex_fixed digit w n"
    using Suc.prems(1) by (simp_all add: hex_fixed_Suc)
  then have "m div 16 ^ w mod 16 = n div 16 ^ w mod 16"
    by (metis digit_value mod_less_divisor option.inject zero_less_numeral)
  moreover have "m div 16 ^ w < 16" "n div 16 ^ w < 16"
    using Suc.prems by (simp_all add: less_mult_imp_div_less)
  ultimately have top': "m div 16 ^ w = n div 16 ^ w" by simp
  have "hex_fixed digit w (m mod 16 ^ w) = hex_fixed digit w m" for m
    using hex_fixed_high [of w "m div 16 ^ w" "m mod 16 ^ w"] by (simp add: div_mult_mod_eq)
  then have "m mod 16 ^ w = n mod 16 ^ w" using eq by (intro Suc.IH) auto
  then show ?case using top' by (metis div_mult_mod_eq)
qed simp

lemma parse_hex_fixed:
  assumes "n < 16 ^ w" "0 < w" "w \<le> 8"
  shows "from_str_radix_below (16 ^ w) (hex_fixed digit w n) = Some n"
  using parse_fixed [OF length_hex_fixed hex_fixed_hex assms(2,3)] hex_fixed_inj assms(1) by metis

end

interpretation upper: hex_alphabet upper_digit is_upper_hex
proof
  show "\<exists>d<16. b = upper_digit d" if "is_upper_hex b" for b
    using that unfolding is_upper_hex_def upper_digit_def
    by (intro exI [of _ "if b \<le> 57 then b - 48 else b - 55"]) auto
qed (auto simp: upper_digit_def is_upper_hex_def to_digit_def)

interpretation lower: hex_alphabet digit_char is_lower_hex
proof
  show "\<exists>d<16. b = digit_char d" if "is_lower_hex b" for b
    using that unfolding is_lower_hex_def digit_char_def
    by (intro exI [of _ "if b \<le> 57 then b - 48 else b - 87"]) auto
qed (auto simp: digit_char_def is_lower_hex_def to_digit_def)


section \<open>Texts of fixed-width pieces\<close>

lemma concat_pieces:
  "length t = w * m \<Longrightarrow> concat (map (\<lambda>i. take w (drop (w * i) t)) [0..<m]) = t"
proof (induction m arbitrary: t)
  case (Suc m)
  have "concat (map (\<lambda>i. take w (drop (w * i) (take (w * m) t))) [0..<m]) = take (w * m) t"
    using Suc by simp
  moreover have "take w (drop (w * i) (take (w * m) t)) = take w (drop (w * i) t)" if "i < m" for i
  proof -
    have "w + w * i \<le> w * m" using that by (metis Suc_leI mult_Suc_right mult_le_mono2)
    then show ?thesis by (simp add: drop_take min_def)
  qed
  then have "map (\<lambda>i. take w (drop (w * i) (take (w * m) t))) [0..<m] =
      map (\<lambda>i. take w (drop (w * i) t)) [0..<m]"
    by (intro map_cong) auto
  ultimately have "concat (map (\<lambda>i. take w (drop (w * i) t)) [0..<m]) = take (w * m) t" by simp
  then show ?case using Suc.prems by simp
qed simp

lemma piece_of_concat:
  "\<forall>p\<in>set ps. length p = w \<Longrightarrow> i < length ps \<Longrightarrow> take w (drop (w * i) (concat ps)) = ps ! i"
proof (induction ps arbitrary: i)
  case (Cons p ps)
  then show ?case by (cases i) auto
qed simp

lemma length_concat_pieces: "\<forall>p\<in>set ps. length p = w \<Longrightarrow> length (concat ps) = w * length ps"
  by (induction ps) auto

section \<open>CHIPID\<close>

lemma format_parse_chip_id:
  assumes "length chip_id = 4"
  shows "parse_chip_id (format_chip_id chip_id) = Some chip_id"
proof -
  let ?ps = "map (\<lambda>row. hex_fixed upper_digit 4 (unat row)) (rev chip_id)"
  have len: "\<forall>p\<in>set ?ps. length p = 4" by (auto simp: upper.length_hex_fixed)
  have "list_all is_upper_hex (concat ?ps)"
    using upper.hex_fixed_hex by (fastforce simp: list_all_iff)
  moreover have "length (concat ?ps) = 16" using length_concat_pieces [OF len] assms by simp
  moreover have "from_str_radix_below (2 ^ 16) (take 4 (drop (4 * i) (concat ?ps))) =
      Some (unat (rev chip_id ! i))" if "i < 4" for i
    using piece_of_concat [OF len, of i] that assms upper.parse_hex_fixed [of _ 4]
      unsigned_less [of "rev chip_id ! i"] by simp
  then have eq: "map (\<lambda>i. from_str_radix_below (2 ^ 16) (take 4 (drop (4 * i) (concat ?ps)))) [0..<4] =
      map (\<lambda>i. Some (unat (rev chip_id ! i))) [0..<4]"
    by (intro map_cong) auto
  moreover have "map ((!) (rev chip_id)) [0..<4] = rev chip_id"
    using map_nth [of "rev chip_id"] assms by simp
  ultimately show ?thesis
    unfolding parse_chip_id_def format_chip_id_def Let_def eq
    by (auto simp: comp_def simp del: upt_rec_numeral)
qed

lemma parse_format_chip_id:
  assumes "parse_chip_id text = Some chip_id"
  shows "format_chip_id chip_id = text \<and> length chip_id = 4"
proof -
  define piece where "piece i = take 4 (drop (4 * i) text)" for i
  have tx: "length text = 16" "list_all is_upper_hex text"
    using assms by (auto simp: parse_chip_id_def split: if_splits)
  have "\<exists>n<2 ^ 16. from_str_radix_below (2 ^ 16) (piece i) = Some n \<and>
      hex_fixed upper_digit 4 n = piece i" if "i < 4" for i
    using upper.parse_fixed [of "piece i" 4] tx that
    by (auto simp: piece_def list_all_iff dest: in_set_takeD in_set_dropD)
  then obtain n where n: "\<And>i. i < 4 \<Longrightarrow> n i < 2 ^ 16 \<and>
      from_str_radix_below (2 ^ 16) (piece i) = Some (n i) \<and> hex_fixed upper_digit 4 (n i) = piece i"
    by metis
  then have "map (\<lambda>i. from_str_radix_below (2 ^ 16) (piece i)) [0..<4] = map (\<lambda>i. Some (n i)) [0..<4]"
    by (intro map_cong) auto
  then have chip: "chip_id = rev (map (\<lambda>i. word_of_nat (n i)) [0..<4])"
    using assms tx unfolding parse_chip_id_def piece_def [symmetric]
    by (auto simp: Let_def comp_def split: if_splits)
  have "unat (word_of_nat (n i) :: u16) = n i" if "i < 4" for i
    using n [OF that] by (simp add: unat_of_nat)
  then have "format_chip_id chip_id = concat (map piece [0..<4])"
    using n unfolding chip format_chip_id_def by (auto simp: comp_def intro!: arg_cong [of _ _ concat] map_cong)
  also have "\<dots> = text" unfolding piece_def by (rule concat_pieces) (simp add: tx)
  finally show ?thesis by (simp add: chip)
qed

text \<open>
  \<open>parse_chip_id\<close> reads exactly what \<open>format_chip_id\<close> writes: every CHIPID is read back
  from its text, and a text that is read is the text of the CHIPID it gives.
\<close>

theorem chip_id_text:
  "parse_chip_id text = Some chip_id \<longleftrightarrow> format_chip_id chip_id = text \<and> length chip_id = 4"
  using format_parse_chip_id parse_format_chip_id by blast

section \<open>Record files\<close>

lemma show_parse_record_line:
  assumes "length (rl_hash l) = 32"
  shows "parse_record_line (show_record_line l) = Some l"
proof -
  let ?ps = "map (\<lambda>b. hex_fixed digit_char 2 (unat b)) (rl_hash l)"
  have len: "\<forall>p\<in>set ?ps. length p = 2" by (auto simp: lower.length_hex_fixed)
  have "list_all is_lower_hex (concat ?ps)"
    using lower.hex_fixed_hex by (fastforce simp: list_all_iff)
  moreover have "length (concat ?ps) = 64" using length_concat_pieces [OF len] assms by simp
  moreover have "from_str_radix_below (2 ^ 8) (take 2 (drop (2 * i) (concat ?ps))) =
      Some (unat (rl_hash l ! i))" if "i < 32" for i
    using piece_of_concat [OF len, of i] that assms lower.parse_hex_fixed [of _ 2]
      unsigned_less [of "rl_hash l ! i"] by simp
  then have eq: "map (\<lambda>i. from_str_radix_below (2 ^ 8) (take 2 (drop (2 * i) (concat ?ps)))) [0..<32] =
      map (\<lambda>i. Some (unat (rl_hash l ! i))) [0..<32]"
    by (intro map_cong) auto
  moreover have "map ((!) (rl_hash l)) [0..<32] = rl_hash l"
    using map_nth [of "rl_hash l"] assms by simp
  ultimately show ?thesis
    unfolding parse_record_line_def show_record_line_def show_hex_bytes_def Let_def eq
    by (auto simp: comp_def simp del: upt_rec_numeral)
qed

lemma parse_show_record_line:
  assumes "parse_record_line line = Some l"
  shows "show_record_line l = line \<and> length (rl_hash l) = 32"
proof -
  define piece where "piece i = take 2 (drop (2 * i) line)" for i
  have tx: "length line = 64" "list_all is_lower_hex line"
    using assms by (auto simp: parse_record_line_def split: if_splits)
  have "\<exists>n<2 ^ 8. from_str_radix_below (2 ^ 8) (piece i) = Some n \<and>
      hex_fixed digit_char 2 n = piece i" if "i < 32" for i
    using lower.parse_fixed [of "piece i" 2] tx that
    by (auto simp: piece_def list_all_iff dest: in_set_takeD in_set_dropD)
  then obtain n where n: "\<And>i. i < 32 \<Longrightarrow> n i < 2 ^ 8 \<and>
      from_str_radix_below (2 ^ 8) (piece i) = Some (n i) \<and> hex_fixed digit_char 2 (n i) = piece i"
    by metis
  then have "map (\<lambda>i. from_str_radix_below (2 ^ 8) (piece i)) [0..<32] = map (\<lambda>i. Some (n i)) [0..<32]"
    by (intro map_cong) auto
  then have l: "rl_hash l = map (\<lambda>i. word_of_nat (n i)) [0..<32]"
    using assms tx unfolding parse_record_line_def piece_def [symmetric]
    by (auto simp: Let_def comp_def simp del: upt_rec_numeral split: if_splits)
  have "unat (word_of_nat (n i) :: u8) = n i" if "i < 32" for i
    using n [OF that] by (simp add: unat_of_nat)
  then have "show_record_line l = concat (map piece [0..<32])"
    using n unfolding show_record_line_def show_hex_bytes_def l
    by (auto simp: comp_def simp del: upt_rec_numeral intro!: arg_cong [of _ _ concat] map_cong)
  also have "\<dots> = line" unfolding piece_def by (rule concat_pieces) (simp add: tx)
  finally show ?thesis by (simp add: l)
qed


lemma record_line_iff:
  "parse_record_line line = Some l \<longleftrightarrow> show_record_line l = line \<and> length (rl_hash l) = 32"
  using show_parse_record_line parse_show_record_line by blast

lemma map_r_Inl_first:
  "map_r f xs = Inl e \<Longrightarrow>
     \<exists>i<length xs. f (xs ! i) = Inl e \<and> (\<forall>j<i. \<exists>y. f (xs ! j) = Inr y)"
proof (induction xs)
  case (Cons x xs)
  show ?case
  proof (cases "f x")
    case (Inl d)
    then show ?thesis using Cons.prems by (intro exI [of _ 0]) simp
  next
    case (Inr y)
    then obtain i where "i < length xs" "f (xs ! i) = Inl e" "\<forall>j<i. \<exists>y. f (xs ! j) = Inr y"
      using Cons by (auto simp: bind_r_Inl_iff)
    then show ?thesis using Inr by (intro exI [of _ "Suc i"]) (auto simp: less_Suc_eq_0_disj)
  qed
qed simp

definition record_lines_of :: "ustr \<Rightarrow> (nat \<times> ustr) list" where
  "record_lines_of text = filter (\<lambda>(i, line). str_trim line \<noteq> []) (enumerate 0 (str_lines text))"

text \<open>
  A record file is read exactly: \<open>parse_record\<close> gives the lines \<open>ls\<close> if and only if the
  non-blank lines of the text are the texts of \<open>ls\<close>, in order; and when it refuses the file,
  the line it names is a non-blank line that is no record line, and every non-blank line
  before it is one.
\<close>

theorem record_file_exact:
  "(\<forall>ls. parse_record text = Inr ls \<longleftrightarrow>
      map snd (record_lines_of text) = map show_record_line ls \<and>
      list_all (\<lambda>l. length (rl_hash l) = 32) ls) \<and>
   (\<forall>e. parse_record text = Inl e \<longrightarrow>
      (\<exists>k<length (record_lines_of text).
         re_line e = fst (record_lines_of text ! k) + 1 \<and>
         parse_record_line (snd (record_lines_of text ! k)) = None \<and>
         (\<forall>j<k. parse_record_line (snd (record_lines_of text ! j)) \<noteq> None)))"
proof -
  let ?f = "\<lambda>(i, line). ok_or (parse_record_line line) \<lparr>re_line = i + 1\<rparr>"
  have p: "parse_record text = map_r ?f (record_lines_of text)"
    by (simp add: parse_record_def record_lines_of_def)
  have f: "?f x = Inr l \<longleftrightarrow> show_record_line l = snd x \<and> length (rl_hash l) = 32" for x l
    by (cases x) (simp add: record_line_iff)
  have "parse_record text = Inr ls \<longleftrightarrow>
      map snd (record_lines_of text) = map show_record_line ls \<and>
      list_all (\<lambda>l. length (rl_hash l) = 32) ls" for ls
    unfolding p map_r_Inr_iff f
    by (auto simp: list_all2_conv_all_nth list_all_length list_eq_iff_nth_eq)
  moreover have "\<exists>k<length (record_lines_of text).
      re_line e = fst (record_lines_of text ! k) + 1 \<and>
      parse_record_line (snd (record_lines_of text ! k)) = None \<and>
      (\<forall>j<k. parse_record_line (snd (record_lines_of text ! j)) \<noteq> None)"
    if inl: "parse_record text = Inl e" for e
  proof -
    obtain k where k: "k < length (record_lines_of text)" "?f (record_lines_of text ! k) = Inl e"
      "\<forall>j<k. \<exists>y. ?f (record_lines_of text ! j) = Inr y"
      using map_r_Inl_first [OF inl [unfolded p]] by blast
    show ?thesis
    proof (intro exI [of _ k] conjI allI impI)
      show "parse_record_line (snd (record_lines_of text ! j)) \<noteq> None" if "j < k" for j
        using k(3) [rule_format, OF that] by (auto simp: case_prod_beta)
    qed (use k in \<open>auto simp: case_prod_beta\<close>)
  qed
  ultimately show ?thesis by blast
qed

theorem record_file_exact_witness:
  "\<exists>e. parse_record (lit ''ab'') = Inl e \<and> re_line e = 1"
proof -
  have l: "record_lines_of (lit ''ab'') = [(0, lit ''ab'')]"
    by (simp add: record_lines_of_def str_lines_def str_trim_def trim_by_def is_white_space_def)
  have "parse_record (lit ''ab'') \<noteq> Inr ls" for ls
  proof
    assume "parse_record (lit ''ab'') = Inr ls"
    then have "map snd (record_lines_of (lit ''ab'')) = map show_record_line ls"
      "list_all (\<lambda>l. length (rl_hash l) = 32) ls"
      using conjunct1 [OF record_file_exact [of "lit ''ab''"]] by blast+
    then obtain h where "show_record_line h = lit ''ab''" "length (rl_hash h) = 32"
      unfolding l by (auto simp: Cons_eq_map_conv simp del: lit_simps)
    then have "parse_record_line (lit ''ab'') = Some h" by (simp add: record_line_iff del: lit_simps)
    then show False by (simp add: parse_record_line_def)
  qed
  then obtain e where e: "parse_record (lit ''ab'') = Inl e"
    by (cases "parse_record (lit ''ab'')") auto
  then have "re_line e = 1"
    using conjunct2 [OF record_file_exact [of "lit ''ab''"], rule_format, OF e]
    unfolding l by auto
  with e show ?thesis by blast
qed

end
