(* ===== verification/Hexfile.thy ===== *)
theory Hexfile
  imports Onerom_Text
begin

text \<open>
  \<open>rust/gen/src/hexfile.rs\<close>: what the two record-oriented ROM image formats share. The
  image accumulator places a record's bytes at their ROM offset, grows the image to its own
  extent, fills what no record wrote with \<open>UNWRITTEN_BYTE\<close> and refuses overlaps and images
  above \<open>MAX_IMAGE_SIZE\<close>. Its abstraction is the finite map from offsets to the bytes
  written (\<open>acc_map\<close>); every placement is shown to be a map update, and the accumulator is
  determined by its map. The locale \<open>record_image\<close> is what a decoder needs of it.
\<close>

section \<open>Constants and load addresses\<close>

definition MAX_IMAGE_SIZE :: usize where
  "MAX_IMAGE_SIZE = 0x80000"

definition UNWRITTEN_BYTE :: u8 where
  "UNWRITTEN_BYTE = 0xFF"

datatype load_address = LoadAddress usize

datatype address_parse_error = AddressParseError ustr

fun is_zero :: "load_address \<Rightarrow> bool" where
  "is_zero (LoadAddress a) = (a = 0)"

definition parse_str :: "ustr \<Rightarrow> (address_parse_error, load_address) result" where
  "parse_str s =
     (let trimmed = str_trim s;
          value =
            (case strip_prefix (lit ''$'') trimmed of
               Some hex \<Rightarrow> from_str_radix hex 16
             | None \<Rightarrow>
                 (case (case strip_prefix (lit ''0x'') trimmed of
                          Some hex \<Rightarrow> Some hex
                        | None \<Rightarrow> strip_prefix (lit ''0X'') trimmed) of
                    Some hex \<Rightarrow> from_str_radix hex 16
                  | None \<Rightarrow> from_str_radix trimmed 10))
      in case value of
           Some v \<Rightarrow> Inr (LoadAddress v)
         | None \<Rightarrow> Inl (AddressParseError trimmed))"

text \<open>\<open>Serialize\<close> writes \<open>{:#x}\<close>.\<close>

fun serialize_address :: "load_address \<Rightarrow> ustr" where
  "serialize_address (LoadAddress a) = lit ''0x'' @ show_hex a"

lemma serialize_address_trim: "str_trim (serialize_address a) = serialize_address a"
proof (cases a)
  case (LoadAddress n)
  show ?thesis
  proof (rule str_trim_printable)
    fix c assume "c \<in> set (serialize_address a)"
    then show "32 < c \<and> c < 127"
      using LoadAddress show_hex_chars [of c n] by auto
  qed
qed

lemma parse_serialized:
  "a \<le> usize_max \<Longrightarrow> parse_str (serialize_address (LoadAddress a)) = Inr (LoadAddress a)"
  using serialize_address_trim [of "LoadAddress a"]
  by (simp add: parse_str_def parse_show_hex)

section \<open>The image accumulator\<close>

datatype place_error =
    PlaceAddressBelowLoad usize usize
  | PlaceOverlap usize
  | PlaceTooLarge usize usize

record image_accumulator =
  acc_image :: "u8 list"
  acc_written :: "bool list"
  acc_any_data :: bool

definition acc_new :: image_accumulator where
  "acc_new = \<lparr>acc_image = [], acc_written = [], acc_any_data = False\<rparr>"

definition acc_is_empty :: "image_accumulator \<Rightarrow> bool" where
  "acc_is_empty acc \<longleftrightarrow> \<not> acc_any_data acc"

definition grow_to :: "nat \<Rightarrow> image_accumulator \<Rightarrow> image_accumulator" where
  "grow_to offset acc =
     (if length (acc_image acc) \<le> offset
      then acc\<lparr>acc_image := resize (offset + 1) UNWRITTEN_BYTE (acc_image acc),
               acc_written := resize (offset + 1) False (acc_written acc)\<rparr>
      else acc)"

definition write_byte :: "nat \<Rightarrow> u8 \<Rightarrow> image_accumulator \<Rightarrow> image_accumulator" where
  "write_byte offset byte acc =
     acc\<lparr>acc_written := (acc_written acc)[offset := True],
         acc_image := (acc_image acc)[offset := byte]\<rparr>"

fun place_loop ::
  "usize \<Rightarrow> usize \<Rightarrow> nat \<Rightarrow> u8 list \<Rightarrow> image_accumulator
     \<Rightarrow> (place_error, image_accumulator) result" where
  "place_loop address load_addr i [] acc = Inr acc"
| "place_loop address load_addr i (byte # rest) acc =
     bind_r (ok_or (checked_add address i) (PlaceTooLarge usize_max MAX_IMAGE_SIZE))
       (\<lambda>addr.
          if addr < load_addr then Inl (PlaceAddressBelowLoad addr load_addr)
          else let offset = addr - load_addr in
            if MAX_IMAGE_SIZE \<le> offset then Inl (PlaceTooLarge (offset + 1) MAX_IMAGE_SIZE)
            else let acc1 = grow_to offset acc in
              if acc_written acc1 ! offset then Inl (PlaceOverlap offset)
              else place_loop address load_addr (Suc i) rest (write_byte offset byte acc1))"

definition place ::
  "usize \<Rightarrow> usize \<Rightarrow> u8 list \<Rightarrow> image_accumulator
     \<Rightarrow> (place_error, image_accumulator) result" where
  "place address load_addr data acc =
     (if data = [] then Inr acc
      else place_loop address load_addr 0 data (acc\<lparr>acc_any_data := True\<rparr>))"

definition into_image :: "image_accumulator \<Rightarrow> u8 list" where
  "into_image acc = acc_image acc"

section \<open>Abstraction and invariant\<close>

definition acc_map :: "image_accumulator \<Rightarrow> nat \<rightharpoonup> u8" where
  "acc_map acc offset =
     (if offset < length (acc_image acc) \<and> acc_written acc ! offset
      then Some (acc_image acc ! offset) else None)"

definition acc_core :: "image_accumulator \<Rightarrow> bool" where
  "acc_core acc \<longleftrightarrow>
     length (acc_written acc) = length (acc_image acc) \<and>
     length (acc_image acc) \<le> MAX_IMAGE_SIZE \<and>
     (\<forall>i < length (acc_image acc). \<not> acc_written acc ! i \<longrightarrow> acc_image acc ! i = UNWRITTEN_BYTE) \<and>
     (acc_image acc \<noteq> [] \<longrightarrow> acc_written acc ! (length (acc_image acc) - 1))"

definition acc_inv :: "image_accumulator \<Rightarrow> bool" where
  "acc_inv acc \<longleftrightarrow> acc_core acc \<and> (acc_any_data acc \<longleftrightarrow> acc_image acc \<noteq> [])"

text \<open>The bytes \<open>d\<close> at offsets \<open>off, off + 1, ...\<close>.\<close>

definition block_map :: "nat \<Rightarrow> u8 list \<Rightarrow> nat \<rightharpoonup> u8" where
  "block_map off d o' = (if off \<le> o' \<and> o' < off + length d then Some (d ! (o' - off)) else None)"

lemma block_map_Nil [simp]: "block_map off [] = Map.empty"
  by (auto simp: block_map_def)

lemma block_map_step: "m(off \<mapsto> b) ++ block_map (Suc off) d = m ++ block_map off (b # d)"
  by (rule ext) (auto simp: block_map_def map_add_def nth_Cons' split: option.splits)

lemma dom_block_map: "dom (block_map off d) = {off..<off + length d}"
  by (auto simp: block_map_def split: if_splits)

lemma acc_new_inv [simp]: "acc_inv acc_new" and acc_map_new [simp]: "acc_map acc_new = Map.empty"
  by (auto simp: acc_inv_def acc_core_def acc_new_def acc_map_def)

lemma grow_to_core:
  assumes "acc_core acc"
  shows "length (acc_image (grow_to off acc)) = max (length (acc_image acc)) (off + 1)"
    and "length (acc_written (grow_to off acc)) = length (acc_image (grow_to off acc))"
    and "acc_map (grow_to off acc) = acc_map acc"
    and "acc_any_data (grow_to off acc) = acc_any_data acc"
    and "acc_written (grow_to off acc) ! off \<longleftrightarrow> acc_map acc off \<noteq> None"
    and "i < length (acc_image (grow_to off acc)) \<Longrightarrow> \<not> acc_written (grow_to off acc) ! i \<Longrightarrow>
           acc_image (grow_to off acc) ! i = UNWRITTEN_BYTE"
  using assms by (auto simp: grow_to_def acc_core_def acc_map_def fun_eq_iff split: if_splits)

lemma write_byte_core:
  assumes core: "acc_core acc" and off: "off < MAX_IMAGE_SIZE" and free: "acc_map acc off = None"
  shows "acc_core (write_byte off b (grow_to off acc))"
    and "acc_map (write_byte off b (grow_to off acc)) = (acc_map acc)(off \<mapsto> b)"
    and "acc_any_data (write_byte off b (grow_to off acc)) = acc_any_data acc"
    and "acc_image (write_byte off b (grow_to off acc)) \<noteq> []"
proof -
  let ?g = "grow_to off acc"
  note g = grow_to_core [OF core, where off = off]
  have len: "off < length (acc_image ?g)" by (simp add: g(1))
  show "acc_any_data (write_byte off b ?g) = acc_any_data acc"
    by (simp add: write_byte_def g)
  show "acc_image (write_byte off b ?g) \<noteq> []"
    using len by (auto simp: write_byte_def)
  have "acc_map (write_byte off b ?g) = (acc_map ?g)(off \<mapsto> b)"
    using len g(2) by (auto simp: acc_map_def write_byte_def fun_eq_iff nth_list_update)
  then show "acc_map (write_byte off b ?g) = (acc_map acc)(off \<mapsto> b)"
    by (simp add: g(3))
  have last: "acc_written (write_byte off b ?g) ! (length (acc_image ?g) - 1)"
  proof (cases "length (acc_image acc) \<le> off")
    case True
    then show ?thesis using len g(1,2) by (simp add: write_byte_def)
  next
    case False
    then show ?thesis
      using core by (auto simp: write_byte_def grow_to_def acc_core_def nth_list_update)
  qed
  have "length (acc_image ?g) \<le> MAX_IMAGE_SIZE"
    using core off by (simp add: g(1) acc_core_def)
  with last len g(2,6) show "acc_core (write_byte off b ?g)"
    by (auto simp: acc_core_def write_byte_def nth_list_update)
qed

section \<open>Placement is a map update\<close>

lemma place_loop_ok:
  assumes "acc_core acc" "place_loop address la i d acc = Inr acc'"
  shows "acc_core acc' \<and> acc_map acc' = acc_map acc ++ block_map (address + i - la) d \<and>
         acc_any_data acc' = acc_any_data acc \<and> (d \<noteq> [] \<longrightarrow> acc_image acc' \<noteq> [])"
  using assms
proof (induction d arbitrary: i acc)
  case (Cons b d)
  let ?off = "address + i - la"
  from Cons.prems have ge: "\<not> address + i < la" and lt: "?off < MAX_IMAGE_SIZE"
    and free: "acc_map acc ?off = None"
    and rest: "place_loop address la (Suc i) d (write_byte ?off b (grow_to ?off acc)) = Inr acc'"
    by (auto simp: bind_r_Inr_iff Let_def grow_to_core split: if_splits)
  note w = write_byte_core [OF Cons.prems(1) lt free, of b]
  have off: "Suc (address + i) - la = Suc ?off" using ge by (simp add: Suc_diff_le)
  have "acc_map acc' = (acc_map acc)(?off \<mapsto> b) ++ block_map (Suc ?off) d"
    using Cons.IH [OF w(1) rest] unfolding w(2) add_Suc_right off by blast
  also have "\<dots> = acc_map acc ++ block_map ?off (b # d)"
    by (rule block_map_step)
  finally show ?case
    using Cons.IH [OF w(1) rest] w(3,4) rest by (cases d) auto
qed simp

lemma place_loop_ok_iff:
  assumes "acc_core acc"
  shows "(\<exists>acc'. place_loop address la i d acc = Inr acc') \<longleftrightarrow>
     d = [] \<or> la \<le> address + i \<and> address + i + length d - 1 \<le> usize_max \<and>
       address + i - la + length d \<le> MAX_IMAGE_SIZE \<and>
       dom (acc_map acc) \<inter> {address + i - la..<address + i - la + length d} = {}"
  using assms
proof (induction d arbitrary: i acc)
  case (Cons b d)
  let ?off = "address + i - la"
  let ?acc1 = "write_byte ?off b (grow_to ?off acc)"
  show ?case
  proof (cases "address + i \<le> usize_max \<and> la \<le> address + i \<and> ?off < MAX_IMAGE_SIZE \<and>
                acc_map acc ?off = None")
    case False
    then show ?thesis
      using Cons.prems by (auto simp: Let_def grow_to_core bind_r_Inr_iff)
  next
    case True
    note w = write_byte_core [OF Cons.prems _ _, of ?off b]
    have step: "place_loop address la i (b # d) acc = place_loop address la (Suc i) d ?acc1"
      using True Cons.prems by (simp add: Let_def grow_to_core checked_add_def)
    have off: "address + Suc i - la = Suc ?off" using True by (simp add: Suc_diff_le)
    have doms: "dom (acc_map ?acc1) = insert ?off (dom (acc_map acc))"
      using w True by simp
    have split: "{?off..<?off + length (b # d)} = insert ?off {Suc ?off..<Suc ?off + length d}"
      by auto
    have free: "?off \<notin> dom (acc_map acc)" using True by auto
    show ?thesis
      unfolding step Cons.IH [OF w(1) [OF conjunct1 [OF conjunct2 [OF conjunct2 [OF True]]]
          conjunct2 [OF conjunct2 [OF conjunct2 [OF True]]]]]
        off doms split
      using True free by (cases d) auto
  qed
qed simp

text \<open>What each error of a placement says about the accumulator and the record.\<close>

lemma place_loop_error:
  assumes "acc_core acc" "place_loop address la i d acc = Inl e"
  shows "case e of
      PlaceAddressBelowLoad a l \<Rightarrow> l = la \<and> a < la \<and> address + i \<le> a \<and> a < address + i + length d
    | PlaceOverlap o' \<Rightarrow> o' \<in> dom (acc_map acc) \<and> address + i \<le> o' + la \<and> o' + la < address + i + length d
    | PlaceTooLarge s m \<Rightarrow> m = MAX_IMAGE_SIZE \<and> MAX_IMAGE_SIZE < s"
  using assms
proof (induction d arbitrary: i acc)
  case (Cons b d)
  let ?off = "address + i - la"
  show ?case
  proof (cases "address + i \<le> usize_max \<and> la \<le> address + i \<and> ?off < MAX_IMAGE_SIZE \<and>
                acc_map acc ?off = None")
    case True
    then have lt: "?off < MAX_IMAGE_SIZE" and free: "acc_map acc ?off = None" by auto
    note w = write_byte_core [OF Cons.prems(1) lt free, of b]
    from True Cons.prems have rest:
      "place_loop address la (Suc i) d (write_byte ?off b (grow_to ?off acc)) = Inl e"
      by (simp add: Let_def grow_to_core checked_add_def)
    show ?thesis
      using Cons.IH [OF w(1) rest] True by (auto simp: w(2) split: place_error.splits if_splits)
  next
    case False
    then show ?thesis
      using Cons.prems
      by (auto simp: Let_def grow_to_core bind_r_Inl_iff MAX_IMAGE_SIZE_def usize_max_def
          split: if_splits)
  qed
qed simp

text \<open>The same facts for a whole record.\<close>

lemma place_ok:
  assumes "acc_inv acc" "place address la d acc = Inr acc'"
  shows "acc_inv acc' \<and> acc_map acc' = acc_map acc ++ block_map (address - la) d"
proof (cases "d = []")
  case False
  have "acc_core (acc\<lparr>acc_any_data := True\<rparr>)" "acc_map (acc\<lparr>acc_any_data := True\<rparr>) = acc_map acc"
    using assms(1) by (auto simp: acc_inv_def acc_core_def acc_map_def)
  with False assms(2) place_loop_ok [of "acc\<lparr>acc_any_data := True\<rparr>" address la 0 d acc']
  show ?thesis by (auto simp: acc_inv_def place_def)
qed (use assms in \<open>auto simp: place_def\<close>)

lemma place_ok_iff:
  assumes "acc_inv acc"
  shows "(\<exists>acc'. place address la d acc = Inr acc') \<longleftrightarrow>
     d = [] \<or> la \<le> address \<and> address + length d - 1 \<le> usize_max \<and>
       address - la + length d \<le> MAX_IMAGE_SIZE \<and>
       dom (acc_map acc) \<inter> dom (block_map (address - la) d) = {}"
proof -
  have "acc_core (acc\<lparr>acc_any_data := True\<rparr>)" "acc_map (acc\<lparr>acc_any_data := True\<rparr>) = acc_map acc"
    using assms by (auto simp: acc_inv_def acc_core_def acc_map_def)
  then show ?thesis
    using place_loop_ok_iff [of "acc\<lparr>acc_any_data := True\<rparr>" address la 0 d]
    by (auto simp: place_def dom_block_map)
qed

lemma place_error:
  assumes "acc_inv acc" "place address la d acc = Inl e"
  shows "case e of
      PlaceAddressBelowLoad a l \<Rightarrow> l = la \<and> a < la \<and> address \<le> a \<and> a < address + length d
    | PlaceOverlap o' \<Rightarrow> o' \<in> dom (acc_map acc) \<and> address \<le> o' + la \<and> o' + la < address + length d
    | PlaceTooLarge s m \<Rightarrow> m = MAX_IMAGE_SIZE \<and> MAX_IMAGE_SIZE < s"
proof -
  have "acc_core (acc\<lparr>acc_any_data := True\<rparr>)" "acc_map (acc\<lparr>acc_any_data := True\<rparr>) = acc_map acc"
    using assms by (auto simp: acc_inv_def acc_core_def acc_map_def)
  then show ?thesis
    using assms(2) place_loop_error [of "acc\<lparr>acc_any_data := True\<rparr>" address la 0 d e]
    by (cases e) (auto simp: place_def split: if_splits)
qed

text \<open>The image is as long as the highest written offset needs, and is read off the map.\<close>

lemma acc_extent:
  assumes "acc_inv acc"
  shows "length (into_image acc) = (if dom (acc_map acc) = {} then 0 else Suc (Max (dom (acc_map acc))))"
proof (cases "acc_image acc = []")
  case True
  then show ?thesis by (auto simp: into_image_def acc_map_def)
next
  case False
  let ?n = "length (acc_image acc) - 1"
  have mem: "?n \<in> dom (acc_map acc)"
    using assms False by (auto simp: acc_inv_def acc_core_def acc_map_def)
  moreover have sub: "dom (acc_map acc) \<subseteq> {..?n}"
    by (auto simp: acc_map_def split: if_splits)
  moreover from sub have "finite (dom (acc_map acc))" by (rule finite_subset) simp
  ultimately have "Max (dom (acc_map acc)) = ?n"
    by (intro Max_eqI) auto
  with mem False show ?thesis by (auto simp: into_image_def)
qed

lemma into_image_nth:
  assumes "acc_inv acc" "i < length (into_image acc)"
  shows "into_image acc ! i = (case acc_map acc i of Some b \<Rightarrow> b | None \<Rightarrow> UNWRITTEN_BYTE)"
  using assms by (auto simp: into_image_def acc_inv_def acc_core_def acc_map_def)

lemma acc_map_inj:
  assumes "acc_inv a" "acc_inv b" "acc_map a = acc_map b"
  shows "a = b"
proof -
  have len: "length (acc_image a) = length (acc_image b)"
    using acc_extent [OF assms(1)] acc_extent [OF assms(2)] assms(3) by (simp add: into_image_def)
  have "acc_image a = acc_image b"
    using into_image_nth [OF assms(1)] into_image_nth [OF assms(2)] len assms(3)
    by (auto simp: list_eq_iff_nth_eq into_image_def)
  moreover have "acc_written a = acc_written b"
  proof (rule nth_equalityI)
    show "length (acc_written a) = length (acc_written b)"
      using assms len by (simp add: acc_inv_def acc_core_def)
    fix i assume "i < length (acc_written a)"
    then show "acc_written a ! i = acc_written b ! i"
      using assms(1,2) fun_cong [OF assms(3), of i] len
      by (auto simp: acc_inv_def acc_core_def acc_map_def split: if_splits)
  qed
  ultimately show ?thesis
    using assms by (simp add: acc_inv_def)
qed

lemma acc_is_empty_iff: "acc_inv acc \<Longrightarrow> acc_is_empty acc \<longleftrightarrow> acc_map acc = Map.empty"
  using acc_extent [of acc]
  by (auto simp: acc_is_empty_def acc_inv_def into_image_def split: if_splits)

lemma into_image_block:
  assumes "acc_inv acc" "acc_map acc = block_map 0 d"
  shows "into_image acc = d"
proof -
  have "length (into_image acc) = length d"
  proof (cases "d = []")
    case False
    then have "Max {0..<length d} = length d - 1"
      by (intro Max_eqI) auto
    with False show ?thesis
      using acc_extent [OF assms(1)] by (auto simp: assms(2) dom_block_map)
  qed (use acc_extent [OF assms(1)] assms(2) in simp)
  then show ?thesis
    using into_image_nth [OF assms(1)]
    by (auto simp: list_eq_iff_nth_eq assms(2) block_map_def)
qed

section \<open>What a decoder needs of the accumulator\<close>

locale record_image =
  fixes new_image :: 's
    and put :: "usize \<Rightarrow> usize \<Rightarrow> u8 list \<Rightarrow> 's \<Rightarrow> (place_error, 's) result"
    and content :: "'s \<Rightarrow> nat \<rightharpoonup> u8"
    and flatten :: "'s \<Rightarrow> u8 list"
    and valid :: "'s \<Rightarrow> bool"
  assumes valid_new: "valid new_image"
    and content_new: "content new_image = Map.empty"
    and put_content: "valid s \<Longrightarrow> put a la d s = Inr s' \<Longrightarrow>
          valid s' \<and> content s' = content s ++ block_map (a - la) d"
    and put_defined: "valid s \<Longrightarrow> (\<exists>s'. put a la d s = Inr s') \<longleftrightarrow>
          d = [] \<or> la \<le> a \<and> a + length d - 1 \<le> usize_max \<and> a - la + length d \<le> MAX_IMAGE_SIZE \<and>
          dom (content s) \<inter> dom (block_map (a - la) d) = {}"
    and content_inj: "valid s \<Longrightarrow> valid t \<Longrightarrow> content s = content t \<Longrightarrow> s = t"
    and flatten_block: "valid s \<Longrightarrow> content s = block_map 0 d \<Longrightarrow> flatten s = d"
begin

text \<open>Appending the next run of bytes to an image without gaps.\<close>

lemma put_append:
  assumes "valid s" "content s = block_map 0 xs" "d \<noteq> []"
    and "la + length xs + length d \<le> usize_max" "length xs + length d \<le> MAX_IMAGE_SIZE"
  shows "\<exists>s'. put (la + length xs) la d s = Inr s' \<and> valid s' \<and> content s' = block_map 0 (xs @ d)"
proof -
  have "dom (content s) \<inter> dom (block_map (la + length xs - la) d) = {}"
    by (auto simp: assms(2) dom_block_map)
  then obtain s' where s': "put (la + length xs) la d s = Inr s'"
    using put_defined [OF assms(1), of "la + length xs" la d] assms by auto
  have "content s' = block_map 0 xs ++ block_map (length xs) d"
    using put_content [OF assms(1) s'] assms(2) by simp
  also have "\<dots> = block_map 0 (xs @ d)"
    by (rule ext) (auto simp: block_map_def map_add_def nth_append split: option.splits)
  finally show ?thesis using s' put_content [OF assms(1) s'] by blast
qed

text \<open>Two records that both fit may come in either order: the image is the same.\<close>

lemma put_swap:
  assumes "valid s" "put a1 la d1 s = Inr s1" "put a2 la d2 s1 = Inr s2"
  shows "\<exists>t. put a2 la d2 s = Inr t \<and> put a1 la d1 t = Inr s2"
proof -
  note c1 = put_content [OF assms(1,2)]
  note c2 = put_content [OF conjunct1 [OF c1] assms(3)]
  have d1: "d1 = [] \<or> la \<le> a1 \<and> a1 + length d1 - 1 \<le> usize_max \<and>
      a1 - la + length d1 \<le> MAX_IMAGE_SIZE \<and> dom (content s) \<inter> dom (block_map (a1 - la) d1) = {}"
    using put_defined [OF assms(1), of a1 la d1] assms(2) by blast
  have d2: "d2 = [] \<or> la \<le> a2 \<and> a2 + length d2 - 1 \<le> usize_max \<and>
      a2 - la + length d2 \<le> MAX_IMAGE_SIZE \<and> dom (content s1) \<inter> dom (block_map (a2 - la) d2) = {}"
    using put_defined [OF conjunct1 [OF c1], of a2 la d2] assms(3) by blast
  obtain t where t: "put a2 la d2 s = Inr t"
    using put_defined [OF assms(1), of a2 la d2] d2 c1 by fastforce
  note ct = put_content [OF assms(1) t]
  obtain u where u: "put a1 la d1 t = Inr u"
    using put_defined [OF conjunct1 [OF ct], of a1 la d1] d1 d2 ct c1 by fastforce
  note cu = put_content [OF conjunct1 [OF ct] u]
  have "d2 = [] \<or> dom (block_map (a1 - la) d1) \<inter> dom (block_map (a2 - la) d2) = {}"
    using d2 c1 by fastforce
  then have "content u = content s2"
    using c1 c2 ct cu map_add_comm [of "block_map (a1 - la) d1" "block_map (a2 - la) d2"]
    by (auto simp flip: map_add_assoc)
  then have "u = s2" using c2 cu content_inj by blast
  with t u show ?thesis by blast
qed

end

interpretation acc: record_image acc_new place acc_map into_image acc_inv
  by unfold_locales
    (rule acc_new_inv, rule acc_map_new, erule (1) place_ok, erule place_ok_iff,
     erule (2) acc_map_inj, erule (1) into_image_block)

section \<open>Hexadecimal bytes\<close>

definition hex_val :: "u8 \<Rightarrow> u8 option" where
  "hex_val c =
     (if 48 \<le> c \<and> c \<le> 57 then Some (c - 48)
      else if 97 \<le> c \<and> c \<le> 102 then Some (c - 97 + 10)
      else if 65 \<le> c \<and> c \<le> 70 then Some (c - 65 + 10)
      else None)"

fun decode_pairs_loop :: "u8 list \<Rightarrow> u8 list \<Rightarrow> u8 list option" where
  "decode_pairs_loop (h # l # rest) bytes =
     Option.bind (hex_val h) (\<lambda>hi. Option.bind (hex_val l) (\<lambda>lo.
       decode_pairs_loop rest (bytes @ [push_bit 4 hi OR lo])))"
| "decode_pairs_loop _ bytes = Some bytes"

definition decode_hex_pairs :: "u8 list \<Rightarrow> u8 list option" where
  "decode_hex_pairs hex = (if odd (length hex) then None else decode_pairs_loop hex [])"

definition bytes_of :: "string \<Rightarrow> u8 list" where
  "bytes_of s = map of_char s"

lemma bytes_of_simps [simp]: "bytes_of [] = []" "bytes_of (c # s) = of_char c # bytes_of s"
  by (simp_all add: bytes_of_def)

definition hex_digits :: "u8 list" where
  "hex_digits = bytes_of ''0123456789ABCDEF''"

definition push_hex8 :: "u8 list \<Rightarrow> u8 \<Rightarrow> u8 list" where
  "push_hex8 out byte =
     out @ [hex_digits ! unat (drop_bit 4 byte), hex_digits ! unat (byte AND 0x0F)]"

definition hexs :: "u8 list \<Rightarrow> u8 list" where
  "hexs bs = concat (map (push_hex8 []) bs)"

lemma hexs_simps [simp]: "hexs [] = []" "hexs (b # bs) = push_hex8 [] b @ hexs bs"
  by (simp_all add: hexs_def)

lemma hexs_append: "hexs (xs @ ys) = hexs xs @ hexs ys"
  by (simp add: hexs_def)

lemma push_hex8_out: "push_hex8 out b = out @ push_hex8 [] b"
  by (simp add: push_hex8_def)

lemma hex_digit_table: "\<forall>n \<in> set [0..<16]. hex_val (hex_digits ! n) = Some (word_of_nat n)"
  by (simp add: hex_digits_def hex_val_def upt_rec)

lemma nibble_bounds: "unat (drop_bit 4 (b :: u8)) < 16" "unat (b AND 0x0F :: u8) < 16"
proof -
  have "unat b < 256" using unsigned_less [of b] by simp
  then show "unat (drop_bit 4 b) < 16" unfolding unat_drop_bit_eq by (simp add: drop_bit_eq_div)
  have "b AND 0x0F \<le> 0x0F" by (rule word_and_le1)
  then show "unat (b AND 0x0F) < 16" by (simp add: word_le_nat_alt)
qed

lemma nibbles_join: "push_bit 4 (drop_bit 4 b) OR (b AND 0x0F) = (b :: u8)"
proof -
  have "b AND 0x0F = take_bit 4 b" by (simp add: take_bit_eq_mask mask_eq_exp_minus_1)
  then show ?thesis by (intro bit_eqI) (auto simp: bit_simps not_le)
qed

lemma decode_pairs_loop_hexs: "decode_pairs_loop (hexs bs) acc = Some (acc @ bs)"
proof (induction bs arbitrary: acc)
  case (Cons b bs)
  have "hex_val (hex_digits ! unat (drop_bit 4 b)) = Some (drop_bit 4 b)"
    "hex_val (hex_digits ! unat (b AND 0x0F)) = Some (b AND 0x0F)"
    using hex_digit_table nibble_bounds [of b] by auto
  then show ?case using Cons.IH by (simp add: push_hex8_def nibbles_join)
qed simp

lemma length_hexs [simp]: "length (hexs bs) = 2 * length bs"
  by (induction bs) (auto simp: push_hex8_def)

lemma decode_hex_pairs_hexs [simp]: "decode_hex_pairs (hexs bs) = Some bs"
  by (simp add: decode_hex_pairs_def decode_pairs_loop_hexs)

lemma hex_digits_range: "n < 16 \<Longrightarrow> 48 \<le> hex_digits ! n \<and> hex_digits ! n \<le> 70"
proof -
  have "\<forall>n \<in> set [0..<16]. 48 \<le> hex_digits ! n \<and> hex_digits ! n \<le> 70"
    by (simp add: hex_digits_def upt_rec)
  then show "n < 16 \<Longrightarrow> ?thesis" by auto
qed

lemma hexs_range: "c \<in> set (hexs bs) \<Longrightarrow> 48 \<le> c \<and> c \<le> 70"
  using hex_digits_range nibble_bounds by (induction bs) (auto simp: push_hex8_def)

text \<open>The loop both encoders use to append data bytes while summing them.\<close>

lemma push_bytes_fold:
  "fold (\<lambda>b (out, csum). (push_hex8 out b, csum + b)) d (out, csum) = (out @ hexs d, csum + byte_sum d)"
proof (induction d arbitrary: out csum)
  case (Cons b d)
  then show ?case using push_hex8_out [of out b] by (simp add: add.assoc)
qed simp

end
