(* ===== verification/Fw_Version.thy ===== *)
theory Fw_Version
  imports Otp_Identity
begin

text \<open>
  Firmware versions, serving algorithms and microcontrollers: \<open>rust/config/src/fw.rs\<close> and
  \<open>rust/config/src/mcu.rs\<close>. A version is ordered by its four numbers from the major one
  down, as the derived \<open>Ord\<close> of the Rust struct orders its fields.
\<close>

section \<open>Versions\<close>

datatype firmware_version =
  FirmwareVersion (fv_major: u16) (fv_minor: u16) (fv_patch: u16) (fv_build: u16)

fun version_le :: "firmware_version \<Rightarrow> firmware_version \<Rightarrow> bool" where
  "version_le (FirmwareVersion a b c d) (FirmwareVersion a' b' c' d') \<longleftrightarrow>
     a < a' \<or> a = a' \<and> (b < b' \<or> b = b' \<and> (c < c' \<or> c = c' \<and> d \<le> d'))"

instantiation firmware_version :: linorder
begin

definition less_eq_firmware_version :: "firmware_version \<Rightarrow> firmware_version \<Rightarrow> bool" where
  "v \<le> w \<longleftrightarrow> version_le v w"

definition less_firmware_version :: "firmware_version \<Rightarrow> firmware_version \<Rightarrow> bool" where
  "less_firmware_version v w \<longleftrightarrow> v \<le> w \<and> \<not> w \<le> v"

instance
proof
  fix u v w :: firmware_version
  show "v < w \<longleftrightarrow> v \<le> w \<and> \<not> w \<le> v" by (rule less_firmware_version_def)
  show "v \<le> v" by (cases v) (simp add: less_eq_firmware_version_def)
  show "u \<le> v \<Longrightarrow> v \<le> w \<Longrightarrow> u \<le> w"
    by (cases u; cases v; cases w) (auto simp: less_eq_firmware_version_def dest: order.strict_trans)
  show "v \<le> w \<Longrightarrow> w \<le> v \<Longrightarrow> v = w" by (cases v; cases w) (auto simp: less_eq_firmware_version_def)
  show "v \<le> w \<or> w \<le> v" by (cases v; cases w) (auto simp: less_eq_firmware_version_def)
qed

end

lemma firmware_version_le [simp]:
  "FirmwareVersion a b c d \<le> FirmwareVersion a' b' c' d' \<longleftrightarrow>
     a < a' \<or> a = a' \<and> (b < b' \<or> b = b' \<and> (c < c' \<or> c = c' \<and> d \<le> d'))"
  by (simp add: less_eq_firmware_version_def)

lemma firmware_version_less [simp]:
  "FirmwareVersion a b c d < FirmwareVersion a' b' c' d' \<longleftrightarrow>
     a < a' \<or> a = a' \<and> (b < b' \<or> b = b' \<and> (c < c' \<or> c = c' \<and> d < d'))"
  by (auto simp: less_firmware_version_def less_eq_firmware_version_def)

definition matches_release :: "firmware_version \<Rightarrow> firmware_version \<Rightarrow> bool" where
  "matches_release v w \<longleftrightarrow>
     fv_major v = fv_major w \<and> fv_minor v = fv_minor w \<and> fv_patch v = fv_patch w"

section \<open>The text of a version\<close>

definition dot :: nat where "dot = of_char (CHR ''.'')"

definition show_version :: "firmware_version \<Rightarrow> ustr" where
  "show_version v = str_join [dot]
     [show_dec (unat (fv_major v)), show_dec (unat (fv_minor v)), show_dec (unat (fv_patch v))]"

definition show_version_alternate :: "firmware_version \<Rightarrow> ustr" where
  "show_version_alternate v = lit ''v'' @ str_join [dot]
     [show_dec (unat (fv_major v)), show_dec (unat (fv_minor v)), show_dec (unat (fv_patch v)),
      show_dec (unat (fv_build v))]"

text \<open>
  \<open>parse::<u16>()\<close>: the digits are accumulated as for a \<open>usize\<close>, and a value that does not
  fit sixteen bits is an error at whichever digit it is noticed.
\<close>

definition parse_u16 :: "ustr \<Rightarrow> u16 option" where
  "parse_u16 s =
     (case from_str_radix s 10 of
        Some n \<Rightarrow> if n < 2 ^ 16 then Some (word_of_nat n) else None
      | None \<Rightarrow> None)"

datatype version_error = InvalidFirmwareVersion

definition version_part :: "ustr option \<Rightarrow> (version_error, u16) result" where
  "version_part part =
     bind_r (ok_or part InvalidFirmwareVersion) (\<lambda>s. ok_or (parse_u16 s) InvalidFirmwareVersion)"

definition version_try_from_str :: "ustr \<Rightarrow> (version_error, firmware_version) result" where
  "version_try_from_str s =
     (let s = (case strip_prefix (lit ''v'') s of Some r \<Rightarrow> r | None \<Rightarrow> s);
          parts = split_on dot s
      in
      bind_r (version_part (get parts 0)) (\<lambda>major.
      bind_r (version_part (get parts 1)) (\<lambda>minor.
      bind_r (version_part (get parts 2)) (\<lambda>patch.
      bind_r (case get parts 3 of
                Some s \<Rightarrow> ok_or (parse_u16 s) InvalidFirmwareVersion
              | None \<Rightarrow> Inr 0) (\<lambda>build.
        if get parts 4 \<noteq> None then Inl InvalidFirmwareVersion
        else Inr (FirmwareVersion major minor patch build))))))"

lemma parse_u16_show: "parse_u16 (show_dec (unat (n :: u16))) = Some n"
proof -
  have n: "unat n < 2 ^ 16" using unsigned_less [of n] by simp
  then have "unat n \<le> usize_max" by (simp add: usize_max_def)
  then show ?thesis using n by (simp add: parse_u16_def parse_show_dec)
qed

lemma show_dec_no_dot: "dot \<notin> set (show_dec n)"
  by (auto simp: dot_def dest: show_dec_chars)

lemma show_dec_no_v: "strip_prefix [118] (show_dec n @ s) = None"
proof -
  obtain c cs where "show_dec n = c # cs" by (cases "show_dec n") simp_all
  then show ?thesis using show_dec_chars [of c n] by simp
qed

text \<open>
  A version survives its text. The long form, with the \<open>v\<close> and the build number, reads
  back as the version itself; the short form reads back as its release, with build number zero;
  with a fifth number neither is accepted.
\<close>

theorem version_text_roundtrip:
  "version_try_from_str (show_version_alternate v) = Inr v \<and>
   version_try_from_str (show_version v) =
     Inr (FirmwareVersion (fv_major v) (fv_minor v) (fv_patch v) 0) \<and>
   version_try_from_str (show_version_alternate v @ dot # s) = Inl InvalidFirmwareVersion"
proof (intro conjI)
  have long: "split_on dot (str_join [dot]
      [show_dec (unat (fv_major v)), show_dec (unat (fv_minor v)), show_dec (unat (fv_patch v)),
       show_dec (unat (fv_build v))]) = [show_dec (unat (fv_major v)), show_dec (unat (fv_minor v)),
       show_dec (unat (fv_patch v)), show_dec (unat (fv_build v))]"
    by (rule split_on_str_join) (auto simp: show_dec_no_dot)
  then show "version_try_from_str (show_version_alternate v) = Inr v"
    by (simp add: version_try_from_str_def show_version_alternate_def get_def version_part_def
        parse_u16_show Let_def)
  have "split_on dot (str_join [dot]
      [show_dec (unat (fv_major v)), show_dec (unat (fv_minor v)), show_dec (unat (fv_patch v))]) =
      [show_dec (unat (fv_major v)), show_dec (unat (fv_minor v)), show_dec (unat (fv_patch v))]"
    by (rule split_on_str_join) (auto simp: show_dec_no_dot)
  then show "version_try_from_str (show_version v) =
      Inr (FirmwareVersion (fv_major v) (fv_minor v) (fv_patch v) 0)"
    by (simp add: version_try_from_str_def show_version_def get_def version_part_def
        parse_u16_show Let_def show_dec_no_v)
  show "version_try_from_str (show_version_alternate v @ dot # s) = Inl InvalidFirmwareVersion"
    by (simp add: version_try_from_str_def show_version_alternate_def get_def version_part_def
        parse_u16_show Let_def split_on_append show_dec_no_dot)
qed

section \<open>Serving algorithms and microcontrollers\<close>

datatype serve_alg = AlgDefault | TwoCsOneAddr | AddrOnCs | AddrOnAnyCs

definition serve_alg_try_from_str :: "ustr \<Rightarrow> serve_alg option" where
  "serve_alg_try_from_str s =
     (if eq_ignore_ascii_case s (lit ''default'') then Some AlgDefault
      else if eq_ignore_ascii_case s (lit ''a'') \<or> eq_ignore_ascii_case s (lit ''two_cs_one_addr'')
      then Some TwoCsOneAddr
      else if eq_ignore_ascii_case s (lit ''b'') then Some AddrOnCs
      else None)"

fun c_enum_value :: "serve_alg \<Rightarrow> u8" where
  "c_enum_value TwoCsOneAddr = 0"
| "c_enum_value AlgDefault = 1"
| "c_enum_value AddrOnCs = 1"
| "c_enum_value AddrOnAnyCs = 2"

datatype family = Stm32f4 | Rp2350

fun get_flash_base :: "family \<Rightarrow> nat" where
  "get_flash_base Stm32f4 = 0x08000000"
| "get_flash_base Rp2350 = 0x10000000"

datatype variant =
  F446RC | F446RE | F411RC | F411RE | F405RG | F401RE | F401RB | F401RC | RP2350 | RP2350B

fun variant_family :: "variant \<Rightarrow> family" where
  "variant_family RP2350 = Rp2350"
| "variant_family RP2350B = Rp2350"
| "variant_family _ = Stm32f4"

fun flash_storage_kb :: "variant \<Rightarrow> usize" where
  "flash_storage_kb F446RC = 256"
| "flash_storage_kb F446RE = 512"
| "flash_storage_kb F411RC = 256"
| "flash_storage_kb F411RE = 512"
| "flash_storage_kb F405RG = 1024"
| "flash_storage_kb F401RB = 128"
| "flash_storage_kb F401RC = 256"
| "flash_storage_kb F401RE = 512"
| "flash_storage_kb RP2350 = 2048"
| "flash_storage_kb RP2350B = 2048"

definition flash_storage_bytes :: "variant \<Rightarrow> usize" where
  "flash_storage_bytes v = flash_storage_kb v * 1024"

end
