(* ===== verification/Chip_Set.thy ===== *)
theory Chip_Set
  imports Hexfile Fw_Version
begin

text \<open>
  What the v2 layout derivations share: the chip types and boards they look up, chip-select
  configuration (\<open>rust/gen/src/image.rs\<close>), the split of a multi set's control lines
  (\<open>v2/multi_cs_config.rs\<close>), the PIO window (\<open>v2/gpio_window.rs\<close>), the socket offset
  and slot context (\<open>v2/slot_context.rs\<close>), the algorithm preferences
  (\<open>v2/alg_preference.rs\<close>) and the search over dual-bonded pins.

  \<open>ChipType\<close> and \<open>Board\<close> are enumerations generated at build time from JSON; the model takes
  a chip type and a board as the records of the answers their accessors give. GPIO and pin
  numbers are natural numbers below 256 in those tables, so no \<open>u8\<close> arithmetic on them wraps.
\<close>

section \<open>Chip types and boards\<close>

datatype control_line_type = Configurable | FixedActiveLow | FixedActiveHigh

record control_line =
  cl_name :: string
  cl_pin :: nat
  cl_type :: control_line_type
  cl_allow_ignore :: bool

fun fixed_active_level :: "control_line_type \<Rightarrow> bool option" where
  "fixed_active_level FixedActiveLow = Some False"
| "fixed_active_level FixedActiveHigh = Some True"
| "fixed_active_level Configurable = None"

record chip_type =
  ct_name :: string
  ct_chip_pins :: nat
  ct_num_addr_lines :: nat
  ct_address_pins :: "nat list"
  ct_data_pins :: "nat list"
  ct_control_lines :: "control_line list"
  ct_size_bytes :: nat
  ct_deselect_all_high :: "nat list option"
  ct_is_ram :: bool
  ct_is_plugin :: bool
  ct_bit_modes :: "nat list"
  ct_rbcp_type :: nat
  ct_min_fw :: "firmware_version option"

datatype rp_variant = Rp235xB | Rp235xA

record board =
  bd_name :: string
  bd_chip_pins :: nat
  bd_socket_pin_map :: "(nat \<times> nat list) list"
  bd_x_pin_map :: "(nat \<times> nat list) list"
  bd_x_jumper_pull :: nat
  bd_pin_byte :: nat
  bd_mcu_family :: family
  bd_rp_variant :: "rp_variant option"
  bd_sel_pins :: "nat list"
  bd_sel_jumper_pulls :: "nat list"
  bd_pin_x1 :: nat
  bd_pin_x2 :: nat
  bd_has_usb :: bool
  bd_usb_vbus_pin :: "nat option"
  bd_external_flash_cs_pin :: "nat option"
  bd_pin_status :: nat
  bd_pin_neo :: "nat option"
  bd_swdio_sel_pin :: nat
  bd_swclk_sel_pin :: nat

definition gpios_for_socket_pin :: "board \<Rightarrow> nat \<Rightarrow> nat list" where
  "gpios_for_socket_pin b socket_pin =
     (case List.find (\<lambda>(pin, _). pin = socket_pin) (bd_socket_pin_map b) of
        Some (_, gpios) \<Rightarrow> gpios | None \<Rightarrow> [])"

definition socket_pin_for_gpio :: "board \<Rightarrow> nat \<Rightarrow> nat option" where
  "socket_pin_for_gpio b gpio =
     map_option fst (List.find (\<lambda>(_, gpios). gpio \<in> set gpios) (bd_socket_pin_map b))"

definition gpios_for_x_pin :: "board \<Rightarrow> nat \<Rightarrow> nat list" where
  "gpios_for_x_pin b x_pin =
     (case List.find (\<lambda>(pin, _). pin = x_pin) (bd_x_pin_map b) of
        Some (_, gpios) \<Rightarrow> gpios | None \<Rightarrow> [])"

definition x_pin_for_gpio :: "board \<Rightarrow> nat \<Rightarrow> nat option" where
  "x_pin_for_gpio b gpio =
     map_option fst (List.find (\<lambda>(_, gpios). gpio \<in> set gpios) (bd_x_pin_map b))"

fun ilog2 :: "nat \<Rightarrow> nat" where
  "ilog2 n = (if n < 2 then 0 else Suc (ilog2 (n div 2)))"

declare ilog2.simps [simp del]

lemma ilog2_MAX_IMAGE_SIZE: "ilog2 MAX_IMAGE_SIZE = 19"
  by (simp add: MAX_IMAGE_SIZE_def ilog2.simps)

definition num_excess_addr_lines :: "chip_type \<Rightarrow> nat" where
  "num_excess_addr_lines ct = ct_num_addr_lines ct - ilog2 MAX_IMAGE_SIZE"

definition requires_half_select_cs1 :: "chip_type \<Rightarrow> bool" where
  "requires_half_select_cs1 ct \<longleftrightarrow> 0 < num_excess_addr_lines ct"

section \<open>Chip-select configuration\<close>

datatype cs_logic = ActiveLow | ActiveHigh | CsIgnore

datatype cs_config =
    ChipSelect cs_logic "cs_logic option" "cs_logic option" "cs_logic option"
  | CeOe
  | CeOeExplicit cs_logic cs_logic

text \<open>\<open>None\<close> is the panic of \<open>expect\<close>.\<close>

definition cs_config_new ::
  "cs_logic option \<Rightarrow> cs_logic option \<Rightarrow> cs_logic option \<Rightarrow> cs_logic option \<Rightarrow> cs_config option" where
  "cs_config_new cs1 cs2 cs3 cs4 =
     (if cs1 = None \<and> cs2 = None \<and> cs3 = None \<and> cs4 = None then Some CeOe
      else map_option (\<lambda>c1. ChipSelect c1 cs2 cs3 cs4) cs1)"

definition new_with_ce_oe :: "cs_logic option \<Rightarrow> cs_logic option \<Rightarrow> cs_config" where
  "new_with_ce_oe ce oe =
     (let ce = (case ce of Some l \<Rightarrow> l | None \<Rightarrow> ActiveLow);
          oe = (case oe of Some l \<Rightarrow> l | None \<Rightarrow> ActiveLow)
      in if ce = ActiveLow \<and> oe = ActiveLow then CeOe else CeOeExplicit ce oe)"

definition resolve_line :: "chip_type \<Rightarrow> string \<Rightarrow> cs_logic option \<Rightarrow> cs_logic option" where
  "resolve_line ct name user =
     (case List.find (\<lambda>l. cl_name l = name) (ct_control_lines ct) of
        Some spec \<Rightarrow>
          (case fixed_active_level (cl_type spec) of
             Some active_high \<Rightarrow>
               Some (if user = Some CsIgnore then CsIgnore
                     else if active_high then ActiveHigh else ActiveLow)
           | None \<Rightarrow> user)
      | None \<Rightarrow> user)"

definition from_chip_type ::
  "chip_type \<Rightarrow> cs_logic option \<Rightarrow> cs_logic option \<Rightarrow> cs_logic option \<Rightarrow> cs_logic option \<Rightarrow>
     cs_logic option \<Rightarrow> cs_logic option \<Rightarrow> cs_config option" where
  "from_chip_type ct cs1 cs2 cs3 cs4 ce oe =
     (if ce \<noteq> None \<or> oe \<noteq> None then Some (new_with_ce_oe ce oe)
      else cs_config_new (resolve_line ct ''cs1'' cs1) (resolve_line ct ''cs2'' cs2)
             (resolve_line ct ''cs3'' cs3) (resolve_line ct ''cs4'' cs4))"

fun cs1_logic :: "cs_config \<Rightarrow> cs_logic option" where
  "cs1_logic (ChipSelect cs1 _ _ _) = Some cs1"
| "cs1_logic CeOe = Some ActiveLow"
| "cs1_logic (CeOeExplicit ce oe) = (if ce \<noteq> CsIgnore then Some ce else Some oe)"

fun cs2_logic :: "cs_config \<Rightarrow> cs_logic option" where
  "cs2_logic (ChipSelect _ cs2 _ _) = cs2"
| "cs2_logic CeOe = Some ActiveLow"
| "cs2_logic (CeOeExplicit ce oe) = (if ce \<noteq> CsIgnore then Some oe else Some ce)"

fun cs3_logic :: "cs_config \<Rightarrow> cs_logic option" where
  "cs3_logic (ChipSelect _ _ cs3 _) = cs3"
| "cs3_logic CeOe = None"
| "cs3_logic (CeOeExplicit _ _) = None"

fun cs4_logic :: "cs_config \<Rightarrow> cs_logic option" where
  "cs4_logic (ChipSelect _ _ _ cs4) = cs4"
| "cs4_logic CeOe = None"
| "cs4_logic (CeOeExplicit _ _) = None"

section \<open>Control lines of a multi set\<close>

datatype control_line_kind = KindCe | KindOe | KindCs1 | KindCs2 | KindCs3 | KindCs4

fun kind_name :: "control_line_kind \<Rightarrow> string" where
  "kind_name KindCe = ''ce''"
| "kind_name KindOe = ''oe''"
| "kind_name KindCs1 = ''cs1''"
| "kind_name KindCs2 = ''cs2''"
| "kind_name KindCs3 = ''cs3''"
| "kind_name KindCs4 = ''cs4''"

definition name_to_control_line_kind :: "string \<Rightarrow> control_line_kind option" where
  "name_to_control_line_kind name =
     (if name = ''ce'' then Some KindCe
      else if name = ''oe'' then Some KindOe
      else if name = ''cs1'' then Some KindCs1
      else if name = ''cs2'' then Some KindCs2
      else if name = ''cs3'' then Some KindCs3
      else if name = ''cs4'' then Some KindCs4
      else None)"

record multi_chip_cs_config =
  per_chip_select :: control_line_kind
  commoned_lines :: "control_line_kind list"
  ignored_lines :: "control_line_kind list"

definition or_active_low :: "cs_logic option \<Rightarrow> cs_logic" where
  "or_active_low l = (case l of Some l \<Rightarrow> l | None \<Rightarrow> ActiveLow)"

definition control_line_logic :: "string \<Rightarrow> cs_config \<Rightarrow> cs_logic" where
  "control_line_logic name c =
     (if name = ''ce'' then
        (case c of CeOe \<Rightarrow> ActiveLow | CeOeExplicit ce _ \<Rightarrow> ce | ChipSelect _ _ _ _ \<Rightarrow> ActiveLow)
      else if name = ''oe'' then
        (case c of CeOe \<Rightarrow> ActiveLow | CeOeExplicit _ oe \<Rightarrow> oe | ChipSelect _ _ _ _ \<Rightarrow> ActiveLow)
      else if name = ''cs1'' then or_active_low (cs1_logic c)
      else if name = ''cs2'' then or_active_low (cs2_logic c)
      else if name = ''cs3'' then or_active_low (cs3_logic c)
      else if name = ''cs4'' then or_active_low (cs4_logic c)
      else ActiveLow)"

text \<open>The \<open>for\<close> loop over the named lines; the triple is its mutable state.\<close>

fun split_lines ::
  "cs_config \<Rightarrow> cs_config \<Rightarrow> string list \<Rightarrow>
     control_line_kind option \<times> control_line_kind list \<times> control_line_kind list \<Rightarrow>
     control_line_kind option \<times> control_line_kind list \<times> control_line_kind list" where
  "split_lines chip0 secondary [] st = st"
| "split_lines chip0 secondary (name # names) (sel, commoned, ignored) =
     split_lines chip0 secondary names
       (case name_to_control_line_kind name of
          None \<Rightarrow> (sel, commoned, ignored)
        | Some kind \<Rightarrow>
            if control_line_logic name secondary \<noteq> CsIgnore then (Some kind, commoned, ignored)
            else if control_line_logic name chip0 = CsIgnore then (sel, commoned, ignored @ [kind])
            else (sel, commoned @ [kind], ignored))"

definition named_lines :: "chip_type \<Rightarrow> string list" where
  "named_lines ct =
     filter (\<lambda>n. name_to_control_line_kind n \<noteq> None) (map cl_name (ct_control_lines ct))"

text \<open>\<open>None\<close> is the panic of \<open>expect\<close>: no line is active on the secondaries.\<close>

definition derive_multi_cs_config ::
  "chip_type \<Rightarrow> cs_config \<Rightarrow> cs_config \<Rightarrow> multi_chip_cs_config option" where
  "derive_multi_cs_config chip0_type chip0_config secondary_config =
     (let named = named_lines chip0_type in
      if length named = 1 then
        map_option (\<lambda>kind. \<lparr>per_chip_select = kind, commoned_lines = [], ignored_lines = []\<rparr>)
          (name_to_control_line_kind (hd named))
      else
        let (sel, commoned, ignored) = split_lines chip0_config secondary_config named (None, [], [])
        in map_option (\<lambda>kind. \<lparr>per_chip_select = kind, commoned_lines = commoned,
             ignored_lines = ignored\<rparr>) sel)"

section \<open>Sockets, windows, preferences\<close>

definition socket_pin_offset :: "nat \<Rightarrow> nat \<Rightarrow> int option" where
  "socket_pin_offset chip_pins board_pins =
     (if (chip_pins, board_pins) \<in> {(24, 24), (28, 28), (32, 32), (40, 40)} then Some 0
      else if (chip_pins, board_pins) \<in> {(24, 28), (28, 32)} then Some 2
      else if (chip_pins, board_pins) = (24, 32) then Some 4
      else if (chip_pins, board_pins) \<in> {(28, 24), (32, 28)} then Some (- 2)
      else if (chip_pins, board_pins) = (32, 24) then Some (- 4)
      else None)"

datatype chip_set_type = Set_Single | Set_Banked | Set_Multi

datatype bit_mode = BitMode8 | BitMode16

record slot_context =
  sc_board :: board
  sc_set_type :: chip_set_type
  sc_chip_types :: "chip_type list"
  sc_cs_config :: cs_config
  sc_bit_mode :: bit_mode
  sc_pin_offset :: int
  sc_force_16_bit :: bool
  sc_multi_cs_config :: "multi_chip_cs_config option"

definition PIO_WINDOW_SIZE :: nat where "PIO_WINDOW_SIZE = 32"
definition PIO_GPIO_BASES :: "nat list" where "PIO_GPIO_BASES = [0, 16]"

definition fits_pio_window :: "nat \<Rightarrow> nat \<Rightarrow> bool" where
  "fits_pio_window gpio_base span =
     (let stop = gpio_base + span in
      list_ex (\<lambda>pio_base. pio_base \<le> gpio_base \<and> stop \<le> pio_base + PIO_WINDOW_SIZE) PIO_GPIO_BASES)"

lemma fits_pio_window_iff:
  "fits_pio_window b n \<longleftrightarrow> b + n \<le> 32 \<or> 16 \<le> b \<and> b + n \<le> 48"
  by (auto simp: fits_pio_window_def PIO_GPIO_BASES_def PIO_WINDOW_SIZE_def Let_def)

datatype cs_alg_preference = PrefCs0 | PrefCs1 | PrefCs2

fun pref_rank :: "cs_alg_preference \<Rightarrow> nat" where
  "pref_rank PrefCs0 = 0"
| "pref_rank PrefCs1 = 1"
| "pref_rank PrefCs2 = 2"

definition cs_alg_preference_of :: "nat option \<Rightarrow> 'a option \<Rightarrow> cs_alg_preference" where
  "cs_alg_preference_of cs_ignore_index alg_cs2 =
     (if alg_cs2 \<noteq> None then PrefCs2
      else if cs_ignore_index \<noteq> None then PrefCs1
      else PrefCs0)"

datatype layout_error =
    UnmappedPin board chip_type nat
  | MissingXPin board nat
  | NoValidLayout board
  | NoSelectLine board chip_type
  | NonContiguousSelect board chip_type "nat list"
  | MissingAddrPinGpios board chip_type
  | RomTooLargeNoCsConfig board chip_type
  | LayoutTableTooLarge board chip_type chip_set_type nat nat nat
  | IncompatiblePinCount board chip_type
  | InteriorIgnoredLine board chip_type nat

section \<open>The search over dual-bonded pins\<close>

text \<open>
  Both derivations enumerate the combinations of bond choices for the pins with more than
  one GPIO: bit \<open>k\<close> of the combination number picks the first or second GPIO of the
  \<open>k\<close>-th such pin. They keep the first candidate of the smallest score.
\<close>

definition two_option_slots :: "nat list list \<Rightarrow> nat list" where
  "two_option_slots candidates = filter (\<lambda>i. 1 < length (candidates ! i)) [0..<length candidates]"

definition position :: "nat list \<Rightarrow> nat \<Rightarrow> nat option" where
  "position xs x = List.find (\<lambda>k. xs ! k = x) [0..<length xs]"

definition resolve_combo :: "nat list list \<Rightarrow> nat \<Rightarrow> nat list" where
  "resolve_combo candidates combo =
     map (\<lambda>i. candidates ! i !
            (case position (two_option_slots candidates) i of
               Some k \<Rightarrow> of_bool (bit combo k) | None \<Rightarrow> 0))
       [0..<length candidates]"

definition num_combos :: "nat list list \<Rightarrow> nat" where
  "num_combos candidates = 2 ^ (length (two_option_slots candidates) mod 32)"

fun score_less :: "nat \<times> nat \<Rightarrow> nat \<times> nat \<Rightarrow> bool" where
  "score_less (a, b) (c, d) \<longleftrightarrow> a < c \<or> a = c \<and> b < d"

definition keep_best ::
  "('a \<times> (nat \<times> nat)) option \<Rightarrow> ('a \<times> (nat \<times> nat)) option \<Rightarrow> ('a \<times> (nat \<times> nat)) option" where
  "keep_best best candidate =
     (case candidate of None \<Rightarrow> best
      | Some (x, score) \<Rightarrow>
          (case best of None \<Rightarrow> Some (x, score)
           | Some (_, s) \<Rightarrow> if score_less score s then Some (x, score) else best))"


text \<open>The vectors a combination can stand for.\<close>

definition bond_choice :: "nat list list \<Rightarrow> nat list \<Rightarrow> bool" where
  "bond_choice candidates v \<longleftrightarrow>
     length v = length candidates \<and>
     (\<forall>i<length candidates. v ! i = candidates ! i ! 0 \<or>
        1 < length (candidates ! i) \<and> v ! i = candidates ! i ! 1)"

lemma two_option_slots_distinct: "distinct (two_option_slots c)"
  by (simp add: two_option_slots_def)

lemma set_two_option_slots:
  "i \<in> set (two_option_slots c) \<longleftrightarrow> i < length c \<and> 1 < length (c ! i)"
  by (auto simp: two_option_slots_def)

lemma position_Some: "position xs x = Some k \<Longrightarrow> k < length xs \<and> xs ! k = x"
  by (auto simp: position_def find_Some_iff)

lemma position_nth: "distinct xs \<Longrightarrow> k < length xs \<Longrightarrow> position xs (xs ! k) = Some k"
  by (auto simp: position_def find_Some_iff nth_eq_iff_index_eq intro!: exI [of _ k])

lemma position_None_iff: "position xs x = None \<longleftrightarrow> x \<notin> set xs"
  by (auto simp: position_def find_None_iff in_set_conv_nth)

lemma length_resolve_combo [simp]: "length (resolve_combo c combo) = length c"
  by (simp add: resolve_combo_def)

lemma resolve_combo_choice: "bond_choice c (resolve_combo c combo)"
  unfolding bond_choice_def
proof (intro conjI allI impI)
  fix i assume i: "i < length c"
  show "resolve_combo c combo ! i = c ! i ! 0 \<or>
      1 < length (c ! i) \<and> resolve_combo c combo ! i = c ! i ! 1"
  proof (cases "position (two_option_slots c) i")
    case None
    then show ?thesis using i by (simp add: resolve_combo_def)
  next
    case (Some k)
    then have "i \<in> set (two_option_slots c)" using position_Some nth_mem by fastforce
    then show ?thesis using i Some by (auto simp: resolve_combo_def set_two_option_slots)
  qed
qed simp

lemma resolve_combo_exists:
  assumes "bond_choice c v" "length (two_option_slots c) < 32"
  shows "\<exists>combo<num_combos c. resolve_combo c combo = v"
proof -
  let ?s = "two_option_slots c"
  define bs where "bs = map (\<lambda>i. v ! i \<noteq> c ! i ! 0) ?s"
  define combo where "combo = (horner_sum of_bool 2 bs :: nat)"
  have "combo < 2 ^ length bs" unfolding combo_def by (rule horner_sum_of_bool_2_less)
  then have less: "combo < num_combos c" using assms(2) by (simp add: num_combos_def bs_def)
  have bits: "bit combo k \<longleftrightarrow> v ! (?s ! k) \<noteq> c ! (?s ! k) ! 0" if "k < length ?s" for k
    using that by (simp add: combo_def bit_horner_sum_bit_iff bs_def)
  have "resolve_combo c combo = v"
  proof (rule nth_equalityI)
    show "length (resolve_combo c combo) = length v" using assms(1) by (simp add: bond_choice_def)
    fix i assume "i < length (resolve_combo c combo)"
    then have i: "i < length c" by simp
    show "resolve_combo c combo ! i = v ! i"
    proof (cases "position ?s i")
      case None
      then have "\<not> 1 < length (c ! i)" using i by (simp add: position_None_iff set_two_option_slots)
      then show ?thesis using None i assms(1) by (auto simp: resolve_combo_def bond_choice_def)
    next
      case (Some k)
      then have k: "k < length ?s" "?s ! k = i" using position_Some by blast+
      then show ?thesis
        using Some i assms(1) bits [OF k(1)] by (auto simp: resolve_combo_def bond_choice_def)
    qed
  qed
  then show ?thesis using less by blast
qed

lemma score_less_trans: "score_less a b \<Longrightarrow> score_less b c \<Longrightarrow> score_less a c"
  by (cases a; cases b; cases c) auto

lemma score_not_less_trans: "\<not> score_less b a \<Longrightarrow> score_less c a \<Longrightarrow> score_less c b"
  by (cases a; cases b; cases c) auto

lemma score_less_irrefl [simp]: "\<not> score_less a a"
  by (cases a) auto

text \<open>The search returns a candidate of least score, and fails only if there is none.\<close>

lemma keep_best_fold:
  "case fold (\<lambda>c best. keep_best best (f c)) cs None of
     None \<Rightarrow> \<forall>c\<in>set cs. f c = None
   | Some (x, s) \<Rightarrow> (\<exists>c\<in>set cs. f c = Some (x, s)) \<and>
       (\<forall>c\<in>set cs. \<forall>y t. f c = Some (y, t) \<longrightarrow> \<not> score_less t s)"
proof (induction cs rule: rev_induct)
  case (snoc c cs)
  let ?r = "fold (\<lambda>c best. keep_best best (f c)) cs None"
  show ?case
  proof (cases ?r)
    case None
    then show ?thesis using snoc by (cases "f c") (auto simp: keep_best_def)
  next
    case (Some r)
    obtain x s where r: "r = (x, s)" by (cases r)
    have IH: "\<exists>c\<in>set cs. f c = Some (x, s)"
      "\<And>c y t. c \<in> set cs \<Longrightarrow> f c = Some (y, t) \<Longrightarrow> \<not> score_less t s"
      using snoc Some r by auto
    show ?thesis
    proof (cases "f c")
      case None
      then show ?thesis using IH Some r by (auto simp: keep_best_def)
    next
      case (Some p)
      obtain y t where p: "p = (y, t)" by (cases p)
      show ?thesis
      proof (cases "score_less t s")
        case True
        then have "\<not> score_less t' t" if "c' \<in> set cs" "f c' = Some (y', t')" for c' y' t'
          using IH(2) [OF that] score_less_trans [of t' t s] by blast
        then show ?thesis using True Some p \<open>?r = Some r\<close> r by (auto simp: keep_best_def)
      next
        case False
        then show ?thesis using IH Some p \<open>?r = Some r\<close> r by (auto simp: keep_best_def)
      qed
    qed
  qed
qed simp


section \<open>Properties of chip-select configuration\<close>

lemma resolve_fixed:
  assumes "List.find (\<lambda>l. cl_name l = name) (ct_control_lines ct) = Some spec"
    "fixed_active_level (cl_type spec) = Some level"
  shows "resolve_line ct name user =
    Some (if user = Some CsIgnore then CsIgnore else if level then ActiveHigh else ActiveLow)"
  using assms by (simp add: resolve_line_def)

text \<open>
  A chip-select line whose polarity the silicon fixes keeps it: whatever the user supplies
  for the chip's CS lines, the configuration's logic for that line is the fixed level, unless
  the user said the line is ignored, in which case it is ignored.
\<close>

theorem fixed_polarity_wins:
  assumes "from_chip_type ct cs1 cs2 cs3 cs4 None None = Some cfg"
    and "List.find (\<lambda>l. cl_name l = name) (ct_control_lines ct) = Some spec"
    and "fixed_active_level (cl_type spec) = Some level"
    and "(name, user) \<in> {(''cs1'', cs1), (''cs2'', cs2), (''cs3'', cs3), (''cs4'', cs4)}"
  shows "control_line_logic name cfg =
    (if user = Some CsIgnore then CsIgnore else if level then ActiveHigh else ActiveLow)"
proof -
  have r: "resolve_line ct name user =
    Some (if user = Some CsIgnore then CsIgnore else if level then ActiveHigh else ActiveLow)"
    by (rule resolve_fixed [OF assms(2,3)])
  then have "\<not> (resolve_line ct ''cs1'' cs1 = None \<and> resolve_line ct ''cs2'' cs2 = None \<and>
      resolve_line ct ''cs3'' cs3 = None \<and> resolve_line ct ''cs4'' cs4 = None)"
    using assms(4) by auto
  then obtain c1 where "cfg = ChipSelect c1 (resolve_line ct ''cs2'' cs2)
      (resolve_line ct ''cs3'' cs3) (resolve_line ct ''cs4'' cs4)" "resolve_line ct ''cs1'' cs1 = Some c1"
    using assms(1) unfolding from_chip_type_def cs_config_new_def by (auto simp del: not_None_eq)
  then show ?thesis
    using r assms(4) unfolding control_line_logic_def or_active_low_def
    by (elim insertE) (simp_all add: list.inject char.inject)
qed

lemma split_lines_filters:
  "split_lines chip0 secondary names (sel, commoned, ignored) =
     (let known = filter (\<lambda>n. name_to_control_line_kind n \<noteq> None) names;
          kinds = (\<lambda>ns. map (\<lambda>n. the (name_to_control_line_kind n)) ns);
          active = (\<lambda>n. control_line_logic n secondary \<noteq> CsIgnore);
          on0 = (\<lambda>n. control_line_logic n chip0 \<noteq> CsIgnore)
      in (if filter active known = [] then sel else Some (last (kinds (filter active known))),
          commoned @ kinds (filter (\<lambda>n. \<not> active n \<and> on0 n) known),
          ignored @ kinds (filter (\<lambda>n. \<not> active n \<and> \<not> on0 n) known)))"
  by (induction names arbitrary: sel commoned ignored)
    (auto simp: Let_def split: option.splits)

text \<open>
  In a multi set of chips with several control lines, of which exactly one is active on
  the secondaries, that line is the per-chip select; of the others, the commoned lines are
  exactly those active on chip 0 and the ignored ones exactly those ignored there, each in
  the chip's order. A chip with a single control line always selects by it.
\<close>

theorem multi_cs_partition:
  assumes "length (named_lines ct) \<noteq> 1 \<longrightarrow>
    filter (\<lambda>n. control_line_logic n secondary \<noteq> CsIgnore) (named_lines ct) = [a]"
    and "length (named_lines ct) = 1 \<longrightarrow> named_lines ct = [a]"
  shows "\<exists>m. derive_multi_cs_config ct chip0 secondary = Some m \<and>
    kind_name (per_chip_select m) = a \<and>
    (length (named_lines ct) \<noteq> 1 \<longrightarrow>
      map kind_name (commoned_lines m) = filter (\<lambda>n. control_line_logic n secondary = CsIgnore \<and>
        control_line_logic n chip0 \<noteq> CsIgnore) (named_lines ct) \<and>
      map kind_name (ignored_lines m) = filter (\<lambda>n. control_line_logic n secondary = CsIgnore \<and>
        control_line_logic n chip0 = CsIgnore) (named_lines ct))"
proof -
  have nk: "kind_name k = n" if "name_to_control_line_kind n = Some k" for n k
    using that by (auto simp: name_to_control_line_kind_def split: if_splits)
  have known: "name_to_control_line_kind n \<noteq> None" if "n \<in> set (named_lines ct)" for n
    using that by (simp add: named_lines_def)
  have kn: "kind_name (the (name_to_control_line_kind n)) = n" if "n \<in> set (named_lines ct)" for n
    using known [OF that] nk by auto
  have names_back: "map (\<lambda>n. kind_name (the (name_to_control_line_kind n))) ns = ns"
    if "set ns \<subseteq> set (named_lines ct)" for ns
    using that kn by (intro map_idI) auto
  show ?thesis
  proof (cases "length (named_lines ct) = 1")
    case True
    then have "named_lines ct = [a]" using assms(2) by simp
    then show ?thesis using known [of a] nk by (auto simp: derive_multi_cs_config_def Let_def)
  next
    case False
    have all: "filter (\<lambda>n. name_to_control_line_kind n \<noteq> None) (named_lines ct) = named_lines ct"
      by (simp add: named_lines_def)
    have act: "filter (\<lambda>n. control_line_logic n secondary \<noteq> CsIgnore) (named_lines ct) = [a]"
      using assms(1) False by blast
    then have "a \<in> set (named_lines ct)" by (metis filter_is_subset list.set_intros(1) subsetD)
    then have ka: "kind_name (the (name_to_control_line_kind a)) = a" by (rule kn)
    define m where "m = \<lparr>per_chip_select = the (name_to_control_line_kind a),
      commoned_lines = map (\<lambda>n. the (name_to_control_line_kind n))
        (filter (\<lambda>n. control_line_logic n secondary = CsIgnore \<and>
          control_line_logic n chip0 \<noteq> CsIgnore) (named_lines ct)),
      ignored_lines = map (\<lambda>n. the (name_to_control_line_kind n))
        (filter (\<lambda>n. control_line_logic n secondary = CsIgnore \<and>
          control_line_logic n chip0 = CsIgnore) (named_lines ct))\<rparr>"
    have "filter (\<lambda>n. control_line_logic n secondary \<noteq> CsIgnore)
        (filter (\<lambda>n. name_to_control_line_kind n \<noteq> None) (named_lines ct)) = [a]"
      by (simp only: all act)
    then have "split_lines chip0 secondary (named_lines ct) (None, [], []) =
        (Some (per_chip_select m), commoned_lines m, ignored_lines m)"
      unfolding split_lines_filters Let_def all act m_def by simp
    then have "derive_multi_cs_config ct chip0 secondary = Some m"
      using False by (simp add: derive_multi_cs_config_def Let_def)
    moreover have "map kind_name (commoned_lines m) = filter (\<lambda>n. control_line_logic n secondary = CsIgnore \<and>
        control_line_logic n chip0 \<noteq> CsIgnore) (named_lines ct)"
      unfolding m_def by (simp add: comp_def) (rule names_back, auto)
    moreover have "map kind_name (ignored_lines m) = filter (\<lambda>n. control_line_logic n secondary = CsIgnore \<and>
        control_line_logic n chip0 = CsIgnore) (named_lines ct)"
      unfolding m_def by (simp add: comp_def) (rule names_back, auto)
    ultimately show ?thesis using ka by (auto simp: m_def)
  qed
qed

text \<open>A 23128-like chip: CS1 fly-leaded, CS2 commoned, CS3 ignored on every chip.\<close>

definition three_cs_chip :: chip_type where
  "three_cs_chip = \<lparr>ct_name = ''23128'', ct_chip_pins = 28, ct_num_addr_lines = 14,
     ct_address_pins = [10, 9, 8, 7, 6, 5, 4, 3, 25, 24, 21, 23, 2, 26],
     ct_data_pins = [11, 12, 13, 15, 16, 17, 18, 19],
     ct_control_lines = [\<lparr>cl_name = ''cs1'', cl_pin = 20, cl_type = Configurable, cl_allow_ignore = False\<rparr>,
       \<lparr>cl_name = ''cs2'', cl_pin = 22, cl_type = FixedActiveHigh, cl_allow_ignore = False\<rparr>,
       \<lparr>cl_name = ''cs3'', cl_pin = 27, cl_type = Configurable, cl_allow_ignore = False\<rparr>],
     ct_size_bytes = 16384, ct_deselect_all_high = None, ct_is_ram = False, ct_is_plugin = False,
     ct_bit_modes = [8], ct_rbcp_type = 3,
     ct_min_fw = Some (FirmwareVersion 0 5 8 0)\<rparr>"

theorem fixed_polarity_wins_witness:
  "from_chip_type three_cs_chip (Some ActiveLow) (Some ActiveLow) (Some CsIgnore) None None None =
     Some (ChipSelect ActiveLow (Some ActiveHigh) (Some CsIgnore) None) \<and>
   control_line_logic ''cs2'' (ChipSelect ActiveLow (Some ActiveHigh) (Some CsIgnore) None) = ActiveHigh"
proof
  show c: "from_chip_type three_cs_chip (Some ActiveLow) (Some ActiveLow) (Some CsIgnore) None None None =
     Some (ChipSelect ActiveLow (Some ActiveHigh) (Some CsIgnore) None)"
    by (simp add: from_chip_type_def cs_config_new_def resolve_line_def three_cs_chip_def)
  show "control_line_logic ''cs2'' (ChipSelect ActiveLow (Some ActiveHigh) (Some CsIgnore) None) = ActiveHigh"
    using fixed_polarity_wins [OF c, of "''cs2''" _ True "Some ActiveLow"]
    by (simp add: three_cs_chip_def)
qed

theorem multi_cs_partition_witness:
  "\<exists>m. derive_multi_cs_config three_cs_chip
      (ChipSelect ActiveLow (Some ActiveHigh) (Some CsIgnore) None)
      (ChipSelect ActiveLow (Some CsIgnore) (Some CsIgnore) None) = Some m \<and>
    kind_name (per_chip_select m) = ''cs1'' \<and> map kind_name (commoned_lines m) = [''cs2''] \<and>
    map kind_name (ignored_lines m) = [''cs3'']"
  using multi_cs_partition [of three_cs_chip "ChipSelect ActiveLow (Some CsIgnore) (Some CsIgnore) None"
      "''cs1''" "ChipSelect ActiveLow (Some ActiveHigh) (Some CsIgnore) None"]
  by (simp add: named_lines_def three_cs_chip_def name_to_control_line_kind_def
      control_line_logic_def or_active_low_def)

end
