(* ===== verification/Addr_Layout.thy ===== *)
theory Addr_Layout
  imports Chip_Set
begin

text \<open>
  The address-range layout of a chip set (\<open>rust/gen/src/v2/addr_layout.rs\<close>): the smallest
  contiguous range of GPIOs, inside one PIO window, that covers the set's address lines, its
  X pins and, for a multi set, the select lines. A result is an option, \<open>None\<close> being a panic
  (an index out of a chip's pin table, a chip without address lines), of an error or a layout.
\<close>

section \<open>The layout and its derivation\<close>

definition MIN_ADDR_PINS :: nat where "MIN_ADDR_PINS = 8"

record addr_layout =
  al_gpio_base :: nat
  al_num_addr_pins :: nat
  al_x1_gpio :: "nat option"
  al_x2_gpio :: "nat option"
  al_addr_pin_gpios :: "nat list"
  al_excess_addr_pin_gpios :: "nat list"

definition socket_pin_of :: "slot_context \<Rightarrow> nat \<Rightarrow> int" where
  "socket_pin_of ctx pin = int pin + sc_pin_offset ctx"

definition overhangs :: "slot_context \<Rightarrow> int \<Rightarrow> bool" where
  "overhangs ctx socket_pin \<longleftrightarrow> socket_pin < 1 \<or> int (bd_chip_pins (sc_board ctx)) < socket_pin"

definition addr_line_candidates ::
  "slot_context \<Rightarrow> chip_type \<Rightarrow> int \<Rightarrow> layout_error + nat list" where
  "addr_line_candidates ctx ct socket_pin =
     (let gpios = gpios_for_socket_pin (sc_board ctx) (nat socket_pin) in
      if gpios = [] then Inl (UnmappedPin (sc_board ctx) ct (nat socket_pin)) else Inr gpios)"

text \<open>The GPIOs of one address line, with the fly-lead count before and after it.\<close>

definition line_source ::
  "slot_context \<Rightarrow> chip_type \<Rightarrow> int \<Rightarrow> nat \<Rightarrow> layout_error + nat list \<times> nat" where
  "line_source ctx ct socket_pin fly =
     (if overhangs ctx socket_pin then
        if sc_set_type ctx \<noteq> Set_Single then Inl (NoValidLayout (sc_board ctx))
        else if 2 < fly + 1 then Inl (NoValidLayout (sc_board ctx))
        else
          let x_gpios = gpios_for_x_pin (sc_board ctx) (fly + 1) in
          if x_gpios = [] then Inl (MissingXPin (sc_board ctx) (fly + 1))
          else Inr (x_gpios, fly + 1)
      else
        case addr_line_candidates ctx ct socket_pin of
          Inl e \<Rightarrow> Inl e
        | Inr gpios \<Rightarrow> Inr (gpios, fly))"

fun line_candidates ::
  "slot_context \<Rightarrow> chip_type \<Rightarrow> nat list \<Rightarrow> nat \<Rightarrow> (layout_error + nat list list) option" where
  "line_candidates ctx ct [] fly = Some (Inr [])"
| "line_candidates ctx ct (idx # idxs) fly =
     (if length (ct_address_pins ct) \<le> idx then None
      else
        case line_source ctx ct (socket_pin_of ctx (ct_address_pins ct ! idx)) fly of
          Inl e \<Rightarrow> Some (Inl e)
        | Inr (gpios, fly') \<Rightarrow>
            map_option (map_sum id (\<lambda>rest. gpios # rest)) (line_candidates ctx ct idxs fly'))"

definition x_candidates :: "slot_context \<Rightarrow> layout_error + nat list list" where
  "x_candidates ctx =
     (if sc_set_type ctx = Set_Single then Inr []
      else
        let x1 = gpios_for_x_pin (sc_board ctx) 1 in
        if x1 = [] then Inl (MissingXPin (sc_board ctx) 1)
        else if 3 \<le> length (sc_chip_types ctx) then
          let x2 = gpios_for_x_pin (sc_board ctx) 2 in
          if x2 = [] then Inl (MissingXPin (sc_board ctx) 2) else Inr [x1, x2]
        else Inr [x1])"

definition control_line_gpio :: "slot_context \<Rightarrow> chip_type \<Rightarrow> control_line_kind \<Rightarrow> nat option" where
  "control_line_gpio ctx ct kind =
     (case List.find (\<lambda>l. cl_name l = kind_name kind) (ct_control_lines ct) of
        None \<Rightarrow> None
      | Some line \<Rightarrow>
          let socket_pin = socket_pin_of ctx (cl_pin line) in
          if overhangs ctx socket_pin then None
          else
            case gpios_for_socket_pin (sc_board ctx) (nat socket_pin) of
              [] \<Rightarrow> None | gpio # _ \<Rightarrow> Some gpio)"

definition multi_span_gpios :: "slot_context \<Rightarrow> chip_type \<Rightarrow> nat list" where
  "multi_span_gpios ctx ct =
     (if sc_set_type ctx = Set_Multi then
        case sc_multi_cs_config ctx of
          Some mcc \<Rightarrow> List.map_filter (control_line_gpio ctx ct) (per_chip_select mcc # commoned_lines mcc)
        | None \<Rightarrow> []
      else [])"

definition addr_line_start :: "slot_context \<Rightarrow> nat" where
  "addr_line_start ctx = (if sc_bit_mode ctx = BitMode16 then 1 else 0)"

definition max_useful_addr_lines :: "slot_context \<Rightarrow> nat" where
  "max_useful_addr_lines ctx =
     ilog2 (MAX_IMAGE_SIZE div (if sc_bit_mode ctx = BitMode16 then 2 else 1))"

text \<open>What the search over bond choices works on.\<close>

record addr_search =
  as_candidates :: "nat list list"
  as_in_range :: nat
  as_lines :: nat
  as_x1 :: "nat option"
  as_x2 :: "nat option"
  as_multi :: "nat list"

definition addr_search_of :: "slot_context \<Rightarrow> (layout_error + addr_search) option" where
  "addr_search_of ctx =
     (case sc_chip_types ctx of
        [] \<Rightarrow> None
      | chip0 # _ \<Rightarrow>
          if ct_num_addr_lines chip0 < addr_line_start ctx then None
          else
            let lines = ct_num_addr_lines chip0 - addr_line_start ctx in
            case line_candidates ctx chip0 [addr_line_start ctx..<addr_line_start ctx + lines] 0 of
              None \<Rightarrow> None
            | Some (Inl e) \<Rightarrow> Some (Inl e)
            | Some (Inr cands) \<Rightarrow>
                (case x_candidates ctx of
                   Inl e \<Rightarrow> Some (Inl e)
                 | Inr xs \<Rightarrow> Some (Inr \<lparr>as_candidates = cands @ xs,
                     as_in_range = min lines (max_useful_addr_lines ctx), as_lines = lines,
                     as_x1 = (if xs = [] then None else Some (length cands)),
                     as_x2 = (if length xs < 2 then None else Some (length cands + 1)),
                     as_multi = multi_span_gpios ctx chip0\<rparr>)))"

text \<open>The GPIOs the address range must cover under the bond choice \<open>v\<close>.\<close>

definition span_gpios :: "addr_search \<Rightarrow> nat list \<Rightarrow> nat list" where
  "span_gpios s v =
     take (as_in_range s) v @
     (case as_x1 s of None \<Rightarrow> [] | Some i \<Rightarrow> [v ! i]) @
     (case as_x2 s of None \<Rightarrow> [] | Some i \<Rightarrow> [v ! i]) @ as_multi s"

definition choice_base :: "addr_search \<Rightarrow> nat list \<Rightarrow> nat" where
  "choice_base s v = Min (set (span_gpios s v))"

definition choice_pins :: "addr_search \<Rightarrow> nat list \<Rightarrow> nat" where
  "choice_pins s v =
     max (Max (set (span_gpios s v)) - Min (set (span_gpios s v)) + 1) MIN_ADDR_PINS"

definition choice_layout :: "addr_search \<Rightarrow> nat list \<Rightarrow> addr_layout" where
  "choice_layout s v =
     \<lparr>al_gpio_base = choice_base s v, al_num_addr_pins = choice_pins s v,
      al_x1_gpio = map_option (\<lambda>i. v ! i) (as_x1 s), al_x2_gpio = map_option (\<lambda>i. v ! i) (as_x2 s),
      al_addr_pin_gpios = take (as_in_range s) v,
      al_excess_addr_pin_gpios = drop (as_in_range s) (take (as_lines s) v)\<rparr>"

definition try_choice :: "addr_search \<Rightarrow> nat list \<Rightarrow> (addr_layout \<times> (nat \<times> nat)) option" where
  "try_choice s v =
     (if fits_pio_window (choice_base s v) (choice_pins s v)
      then Some (choice_layout s v, (0, choice_pins s v * 1000 + choice_base s v))
      else None)"

definition search_addr :: "addr_search \<Rightarrow> (addr_layout \<times> (nat \<times> nat)) option" where
  "search_addr s =
     fold (\<lambda>combo best. keep_best best (try_choice s (resolve_combo (as_candidates s) combo)))
       [0..<num_combos (as_candidates s)] None"

definition derive_addr_layout :: "slot_context \<Rightarrow> (layout_error + addr_layout) option" where
  "derive_addr_layout ctx =
     (case addr_search_of ctx of
        None \<Rightarrow> None
      | Some (Inl e) \<Rightarrow> Some (Inl e)
      | Some (Inr s) \<Rightarrow>
          if span_gpios s (resolve_combo (as_candidates s) 0) = [] then None
          else
            (case search_addr s of
               None \<Rightarrow> Some (Inl (NoValidLayout (sc_board ctx)))
             | Some (layout, _) \<Rightarrow> Some (Inr layout)))"

section \<open>What the search returns\<close>

definition fits_choice :: "addr_search \<Rightarrow> nat list \<Rightarrow> bool" where
  "fits_choice s v \<longleftrightarrow> fits_pio_window (choice_base s v) (choice_pins s v)"

lemma search_addr_Some:
  assumes "search_addr s = Some (l, sc)"
  obtains v where "bond_choice (as_candidates s) v" "fits_choice s v" "l = choice_layout s v"
    "\<And>combo. combo < num_combos (as_candidates s) \<Longrightarrow>
       fits_choice s (resolve_combo (as_candidates s) combo) \<Longrightarrow>
       choice_pins s v * 1000 + choice_base s v
         \<le> choice_pins s (resolve_combo (as_candidates s) combo) * 1000 +
           choice_base s (resolve_combo (as_candidates s) combo)"
proof -
  let ?c = "as_candidates s"
  let ?f = "\<lambda>combo. try_choice s (resolve_combo ?c combo)"
  have b: "\<exists>c\<in>{0..<num_combos ?c}. ?f c = Some (l, sc)"
    "\<forall>c\<in>{0..<num_combos ?c}. \<forall>y t. ?f c = Some (y, t) \<longrightarrow> \<not> score_less t sc"
    using keep_best_fold [where f = ?f and cs = "[0..<num_combos ?c]"] assms by (simp_all add: search_addr_def)
  then obtain c where c: "c < num_combos ?c" "?f c = Some (l, sc)" by auto
  let ?v = "resolve_combo ?c c"
  have v: "fits_choice s ?v" "l = choice_layout s ?v"
    "sc = (0, choice_pins s ?v * 1000 + choice_base s ?v)"
    using c(2) by (auto simp: try_choice_def fits_choice_def split: if_splits)
  show thesis
  proof (rule that [OF resolve_combo_choice v(1,2)])
    fix combo
    assume a: "combo < num_combos ?c" "fits_choice s (resolve_combo ?c combo)"
    then have "\<not> score_less (0, choice_pins s (resolve_combo ?c combo) * 1000 +
        choice_base s (resolve_combo ?c combo)) sc"
      using b(2) by (auto simp: try_choice_def fits_choice_def)
    then show "choice_pins s ?v * 1000 + choice_base s ?v
        \<le> choice_pins s (resolve_combo ?c combo) * 1000 +
          choice_base s (resolve_combo ?c combo)"
      using v(3) by simp
  qed
qed

lemma search_addr_None:
  "search_addr s = None \<longleftrightarrow>
    (\<forall>combo<num_combos (as_candidates s). \<not> fits_choice s (resolve_combo (as_candidates s) combo))"
  using keep_best_fold [where f = "\<lambda>combo. try_choice s (resolve_combo (as_candidates s) combo)"
      and cs = "[0..<num_combos (as_candidates s)]"]
  by (auto simp: search_addr_def try_choice_def fits_choice_def split: option.splits if_splits)

lemma fits_choice_base: "fits_choice s v \<Longrightarrow> choice_base s v < 1000"
  by (auto simp: fits_choice_def fits_pio_window_iff)

lemma span_in_window:
  assumes "g \<in> set (span_gpios s v)"
  shows "choice_base s v \<le> g \<and> g < choice_base s v + choice_pins s v"
proof -
  have "Min (set (span_gpios s v)) \<le> g" "g \<le> Max (set (span_gpios s v))"
    using assms by (auto intro: Min_le Max_ge)
  then show ?thesis by (auto simp: choice_base_def choice_pins_def)
qed

lemma derive_addr_layout_Inr:
  "derive_addr_layout ctx = Some (Inr l) \<longleftrightarrow>
    (\<exists>s sc. addr_search_of ctx = Some (Inr s) \<and> search_addr s = Some (l, sc) \<and>
      span_gpios s (resolve_combo (as_candidates s) 0) \<noteq> [])"
  by (auto simp: derive_addr_layout_def split: option.splits sum.splits if_splits)

text \<open>Where each address line's GPIOs come from: its socket pin, or the next X pin if the
  chip overhangs the socket there.\<close>

definition line_overhangs :: "slot_context \<Rightarrow> chip_type \<Rightarrow> nat \<Rightarrow> bool" where
  "line_overhangs ctx ct idx \<longleftrightarrow> overhangs ctx (socket_pin_of ctx (ct_address_pins ct ! idx))"

definition fly_leads :: "slot_context \<Rightarrow> chip_type \<Rightarrow> nat list \<Rightarrow> nat" where
  "fly_leads ctx ct idxs = length (filter (line_overhangs ctx ct) idxs)"

definition line_wired :: "slot_context \<Rightarrow> chip_type \<Rightarrow> nat \<Rightarrow> nat \<Rightarrow> nat list \<Rightarrow> bool" where
  "line_wired ctx ct idx fly gpios \<longleftrightarrow>
     gpios \<noteq> [] \<and>
     (if line_overhangs ctx ct idx
      then sc_set_type ctx = Set_Single \<and> fly < 2 \<and> gpios = gpios_for_x_pin (sc_board ctx) (fly + 1)
      else gpios = gpios_for_socket_pin (sc_board ctx)
             (nat (socket_pin_of ctx (ct_address_pins ct ! idx))))"

lemma line_source_Inr:
  "line_source ctx ct (socket_pin_of ctx (ct_address_pins ct ! idx)) fly = Inr (gpios, fly') \<longleftrightarrow>
    line_wired ctx ct idx fly gpios \<and> fly' = fly + (if line_overhangs ctx ct idx then 1 else 0)"
  by (auto simp: line_source_def line_wired_def line_overhangs_def addr_line_candidates_def
      Let_def split: if_splits)

lemma fly_leads_simps [simp]:
  "fly_leads ctx ct [] = 0"
  "fly_leads ctx ct (i # is) = (if line_overhangs ctx ct i then 1 else 0) + fly_leads ctx ct is"
  by (simp_all add: fly_leads_def)

lemma map_sum_Inr_iff: "map_sum id f x = Inr y \<longleftrightarrow> (\<exists>z. x = Inr z \<and> y = f z)"
  by (cases x) auto

lemma line_candidates_wired:
  assumes "line_candidates ctx ct idxs fly = Some (Inr cs)"
  shows "length cs = length idxs \<and>
    (\<forall>k<length idxs. line_wired ctx ct (idxs ! k) (fly + fly_leads ctx ct (take k idxs)) (cs ! k))"
  using assms
proof (induction idxs arbitrary: fly cs)
  case (Cons idx idxs)
  then obtain gpios fly' rest where src:
      "line_source ctx ct (socket_pin_of ctx (ct_address_pins ct ! idx)) fly = Inr (gpios, fly')"
    and rest: "line_candidates ctx ct idxs fly' = Some (Inr rest)" and cs: "cs = gpios # rest"
    by (auto split: if_splits sum.splits prod.splits simp: map_sum_Inr_iff)
  have "line_wired ctx ct idx fly gpios"
    "fly' = fly + (if line_overhangs ctx ct idx then 1 else 0)"
    using src by (simp_all add: line_source_Inr)
  then show ?case
    using Cons.IH [OF rest] by (auto simp: cs nth_Cons' take_Cons' add.assoc)
qed simp

lemma addr_search_of_Inr:
  assumes "addr_search_of ctx = Some (Inr s)"
  obtains chip0 rest cands xs where "sc_chip_types ctx = chip0 # rest"
    "line_candidates ctx chip0 [addr_line_start ctx..<ct_num_addr_lines chip0] 0 = Some (Inr cands)"
    "x_candidates ctx = Inr xs" "as_candidates s = cands @ xs"
    "as_lines s = ct_num_addr_lines chip0 - addr_line_start ctx"
    "length cands = as_lines s"
    "as_in_range s = min (as_lines s) (max_useful_addr_lines ctx)"
    "as_x1 s = (if xs = [] then None else Some (length cands))"
    "as_x2 s = (if length xs < 2 then None else Some (length cands + 1))"
    "as_multi s = multi_span_gpios ctx chip0"
proof -
  obtain chip0 rest where c: "sc_chip_types ctx = chip0 # rest"
    using assms by (auto simp: addr_search_of_def split: list.splits)
  have st: "addr_line_start ctx \<le> ct_num_addr_lines chip0"
    using assms c by (auto simp: addr_search_of_def split: if_splits)
  then have e: "addr_line_start ctx + (ct_num_addr_lines chip0 - addr_line_start ctx) =
      ct_num_addr_lines chip0" by simp
  obtain cands where l: "line_candidates ctx chip0
      [addr_line_start ctx..<ct_num_addr_lines chip0] 0 = Some (Inr cands)"
    using assms c st e by (auto simp: addr_search_of_def Let_def split: option.splits sum.splits)
  obtain xs where x: "x_candidates ctx = Inr xs"
    using assms c l st e by (auto simp: addr_search_of_def Let_def split: sum.splits)
  have len: "length cands = ct_num_addr_lines chip0 - addr_line_start ctx"
    using line_candidates_wired [OF l] by simp
  have s: "s = \<lparr>as_candidates = cands @ xs,
      as_in_range = min (ct_num_addr_lines chip0 - addr_line_start ctx) (max_useful_addr_lines ctx),
      as_lines = ct_num_addr_lines chip0 - addr_line_start ctx,
      as_x1 = (if xs = [] then None else Some (length cands)),
      as_x2 = (if length xs < 2 then None else Some (length cands + 1)),
      as_multi = multi_span_gpios ctx chip0\<rparr>"
    using assms c l x st e by (simp add: addr_search_of_def Let_def)
  show thesis by (rule that [OF c l x]) (simp_all add: s len)
qed

lemma fly_leads_upt:
  "fly_leads ctx ct (take k [a..<b]) = fly_leads ctx ct [a..<min b (a + k)]"
  by (simp add: min_def)

lemma bond_choice_mem:
  assumes "bond_choice c v" "k < length c" "c ! k \<noteq> []"
  shows "v ! k \<in> set (c ! k)"
  using assms by (auto simp: bond_choice_def intro: nth_mem)

lemma take_drop_take: "i \<le> n \<Longrightarrow> take i xs @ drop i (take n xs) = take n xs"
  by (metis append_take_drop_id min.absorb1 take_take)

lemma span_gpios_empty:
  "length v = length w \<Longrightarrow> span_gpios s v = [] \<longleftrightarrow> span_gpios s w = []"
  by (auto simp: span_gpios_def split: option.splits)

section \<open>Properties of the address layout\<close>

lemma derived_window:
  assumes "derive_addr_layout ctx = Some (Inr l)"
  shows "fits_pio_window (al_gpio_base l) (al_num_addr_pins l) \<and>
    MIN_ADDR_PINS \<le> al_num_addr_pins l \<and>
    (\<forall>g \<in> set (al_addr_pin_gpios l) \<union> set_option (al_x1_gpio l) \<union> set_option (al_x2_gpio l) \<union>
        set (multi_span_gpios ctx (hd (sc_chip_types ctx))).
      al_gpio_base l \<le> g \<and> g < al_gpio_base l + al_num_addr_pins l)"
proof -
  obtain s sc where s: "addr_search_of ctx = Some (Inr s)" "search_addr s = Some (l, sc)"
    using assms by (auto simp: derive_addr_layout_Inr)
  obtain v where v: "fits_choice s v" "l = choice_layout s v"
    by (rule search_addr_Some [OF s(2)]) blast
  have m: "as_multi s = multi_span_gpios ctx (hd (sc_chip_types ctx))"
    by (rule addr_search_of_Inr [OF s(1)]) simp
  have "g \<in> set (span_gpios s v)"
    if "g \<in> set (al_addr_pin_gpios l) \<union> set_option (al_x1_gpio l) \<union> set_option (al_x2_gpio l) \<union>
        set (multi_span_gpios ctx (hd (sc_chip_types ctx)))" for g
    using that by (auto simp: v(2) choice_layout_def span_gpios_def m split: option.splits)
  then show ?thesis
    using v span_in_window [of _ s v]
    by (auto simp: choice_layout_def fits_choice_def choice_pins_def)
qed

text \<open>
  C27: a derived address range fits one PIO window, is at least eight pins wide, and covers
  every GPIO the address PIO must read: all the in-range address lines, the X pins the set
  uses and, for a multi set, its per-chip select and commoned lines.
\<close>

theorem addr_layout_covers:
  assumes "derive_addr_layout ctx = Some (Inr l)"
  shows "fits_pio_window (al_gpio_base l) (al_num_addr_pins l) \<and>
    MIN_ADDR_PINS \<le> al_num_addr_pins l \<and>
    (\<forall>g \<in> set (al_addr_pin_gpios l) \<union> set_option (al_x1_gpio l) \<union> set_option (al_x2_gpio l) \<union>
        set (multi_span_gpios ctx (hd (sc_chip_types ctx))).
      al_gpio_base l \<le> g \<and> g < al_gpio_base l + al_num_addr_pins l)"
  by (rule derived_window [OF assms])

lemma derived_addr_wired:
  assumes "derive_addr_layout ctx = Some (Inr l)"
  defines "ct \<equiv> hd (sc_chip_types ctx)" and "gs \<equiv> al_addr_pin_gpios l @ al_excess_addr_pin_gpios l"
  shows "length gs = ct_num_addr_lines ct - addr_line_start ctx \<and>
    length (al_addr_pin_gpios l) = min (length gs) (max_useful_addr_lines ctx) \<and>
    (\<forall>k<length gs. \<exists>gpios. gs ! k \<in> set gpios \<and>
      line_wired ctx ct (addr_line_start ctx + k)
        (fly_leads ctx ct [addr_line_start ctx..<addr_line_start ctx + k]) gpios)"
proof -
  obtain s sc where s: "addr_search_of ctx = Some (Inr s)" "search_addr s = Some (l, sc)"
    using assms(1) by (auto simp: derive_addr_layout_Inr)
  obtain v where v: "bond_choice (as_candidates s) v" "l = choice_layout s v"
    by (rule search_addr_Some [OF s(2)]) blast
  obtain cands xs where c: "as_candidates s = cands @ xs"
      "line_candidates ctx ct [addr_line_start ctx..<ct_num_addr_lines ct] 0 = Some (Inr cands)"
      "as_lines s = ct_num_addr_lines ct - addr_line_start ctx" "length cands = as_lines s"
      "as_in_range s = min (as_lines s) (max_useful_addr_lines ctx)"
    by (rule addr_search_of_Inr [OF s(1)]) (simp add: ct_def)
  have "length v = length cands + length xs" using v(1) c(1) by (simp add: bond_choice_def)
  then have lv: "as_lines s \<le> length v" using c(4) by simp
  have ir: "as_in_range s \<le> as_lines s" using c(5) by simp
  have gs: "gs = take (as_lines s) v"
    by (simp add: gs_def v(2) choice_layout_def take_drop_take [OF ir])
  then have gs: "gs = take (as_lines s) v" "length gs = as_lines s" using lv by simp_all
  have in_range: "length (al_addr_pin_gpios l) = min (length gs) (max_useful_addr_lines ctx)"
    using c(5) lv gs(2) by (simp add: v(2) choice_layout_def)
  show ?thesis
  proof (intro conjI allI impI)
    show "length gs = ct_num_addr_lines ct - addr_line_start ctx" using gs(2) c(3) by simp
    show "length (al_addr_pin_gpios l) = min (length gs) (max_useful_addr_lines ctx)" by (rule in_range)
    fix k assume k: "k < length gs"
    then have w: "line_wired ctx ct (addr_line_start ctx + k)
        (fly_leads ctx ct [addr_line_start ctx..<addr_line_start ctx + k]) (cands ! k)"
      using line_candidates_wired [OF c(2)] gs(2) c(3) by (simp add: fly_leads_upt min_def)
    have "v ! k \<in> set (as_candidates s ! k)"
      using k gs(2) c(1,4) w by (intro bond_choice_mem [OF v(1)]) (simp_all add: nth_append line_wired_def)
    then show "\<exists>gpios. gs ! k \<in> set gpios \<and> line_wired ctx ct (addr_line_start ctx + k)
        (fly_leads ctx ct [addr_line_start ctx..<addr_line_start ctx + k]) gpios"
      using w k gs c(1,4) by (auto simp: nth_append)
  qed
qed

lemma derived_x_wired:
  assumes "derive_addr_layout ctx = Some (Inr l)"
  shows "\<forall>g \<in> set_option (al_x1_gpio l). sc_set_type ctx \<noteq> Set_Single \<and>
      g \<in> set (gpios_for_x_pin (sc_board ctx) 1)"
    and "\<forall>g \<in> set_option (al_x2_gpio l). sc_set_type ctx \<noteq> Set_Single \<and>
      g \<in> set (gpios_for_x_pin (sc_board ctx) 2)"
proof -
  obtain s sc where s: "addr_search_of ctx = Some (Inr s)" "search_addr s = Some (l, sc)"
    using assms by (auto simp: derive_addr_layout_Inr)
  obtain v where v: "bond_choice (as_candidates s) v" "l = choice_layout s v"
    by (rule search_addr_Some [OF s(2)]) blast
  obtain cands xs where c: "as_candidates s = cands @ xs" "x_candidates ctx = Inr xs"
      "as_x1 s = (if xs = [] then None else Some (length cands))"
      "as_x2 s = (if length xs < 2 then None else Some (length cands + 1))"
    by (rule addr_search_of_Inr [OF s(1)])
  have m: "v ! (length cands + k) \<in> set (xs ! k)" if "k < length xs" "xs ! k \<noteq> []" for k
    using bond_choice_mem [OF v(1), of "length cands + k"] that c(1) by (simp add: nth_append)
  show "\<forall>g \<in> set_option (al_x1_gpio l). sc_set_type ctx \<noteq> Set_Single \<and>
      g \<in> set (gpios_for_x_pin (sc_board ctx) 1)"
    using c(2-4) m [of 0]
    by (auto simp: v(2) choice_layout_def x_candidates_def Let_def split: if_splits)
  show "\<forall>g \<in> set_option (al_x2_gpio l). sc_set_type ctx \<noteq> Set_Single \<and>
      g \<in> set (gpios_for_x_pin (sc_board ctx) 2)"
    using c(2-4) m [of 1]
    by (auto simp: v(2) choice_layout_def x_candidates_def Let_def split: if_splits)
qed

text \<open>
  Every address line is given a GPIO the board wires it to. Of the chip's address lines
  (less A-1 in 16-bit mode) the first \<open>log2\<close> of the table size are in range and the rest are
  excess; a line whose pin lies in the socket resolves to a GPIO of that socket pin, and a
  line that overhangs it to a GPIO of the first X pin no earlier line took, of which there
  are two and which only a single-chip set may use.
\<close>

theorem addr_lines_wired:
  assumes "derive_addr_layout ctx = Some (Inr l)"
  defines "ct \<equiv> hd (sc_chip_types ctx)" and "gs \<equiv> al_addr_pin_gpios l @ al_excess_addr_pin_gpios l"
  shows "length gs = ct_num_addr_lines ct - addr_line_start ctx \<and>
    length (al_addr_pin_gpios l) = min (length gs) (max_useful_addr_lines ctx) \<and>
    (\<forall>k<length gs. \<exists>gpios. gs ! k \<in> set gpios \<and>
      line_wired ctx ct (addr_line_start ctx + k)
        (fly_leads ctx ct [addr_line_start ctx..<addr_line_start ctx + k]) gpios)"
  unfolding ct_def gs_def by (rule derived_addr_wired [OF assms(1)])

text \<open>
  C28: the search finds a range whenever one exists, and the narrowest: for every choice of
  bonds under which the span fits a PIO window, the derived layout uses at most as many
  address pins, and at equal width starts at most as high.
\<close>

theorem addr_layout_narrowest:
  assumes "addr_search_of ctx = Some (Inr s)"
    and "bond_choice (as_candidates s) v" "length (two_option_slots (as_candidates s)) < 32"
    and "span_gpios s v \<noteq> []" "fits_pio_window (choice_base s v) (choice_pins s v)"
  shows "\<exists>l. derive_addr_layout ctx = Some (Inr l) \<and> al_num_addr_pins l \<le> choice_pins s v \<and>
    (al_num_addr_pins l = choice_pins s v \<longrightarrow> al_gpio_base l \<le> choice_base s v)"
proof -
  let ?c = "as_candidates s"
  obtain combo where combo: "combo < num_combos ?c" "resolve_combo ?c combo = v"
    using resolve_combo_exists [OF assms(2,3)] by blast
  have fits: "fits_choice s (resolve_combo ?c combo)"
    using assms(5) combo(2) by (simp add: fits_choice_def)
  then obtain l sc where l: "search_addr s = Some (l, sc)"
    using search_addr_None [of s] combo(1) by (cases "search_addr s") auto
  have "span_gpios s (resolve_combo ?c 0) \<noteq> []"
    using assms(2,4) span_gpios_empty [of v "resolve_combo ?c 0" s] by (simp add: bond_choice_def)
  then have d: "derive_addr_layout ctx = Some (Inr l)"
    using assms(1) l by (auto simp: derive_addr_layout_Inr)
  obtain w where w: "fits_choice s w" "l = choice_layout s w"
      "choice_pins s w * 1000 + choice_base s w \<le> choice_pins s v * 1000 + choice_base s v"
    using combo fits by (auto intro: search_addr_Some [OF l])
  then show ?thesis
    using fits_choice_base [OF fits] fits_choice_base [OF w(1)] d combo(2)
    by (auto simp: choice_layout_def)
qed

text \<open>The Fire 28 D board, and a banked pair of the 23128-like chip on it: X1 is wired to GPIOs 9
  and 28, of which only 28 keeps the range sixteen pins wide.\<close>

definition fire_28_d :: board where
  "fire_28_d = \<lparr>bd_name = ''fire-28-d'', bd_chip_pins = 28,
     bd_socket_pin_map = [(1, [18]), (2, [19]), (3, [20]), (4, [21]), (5, [22]), (6, [23]), (7, [24]),
       (8, [25]), (9, [26]), (10, [27]), (11, [0]), (12, [1]), (13, [2]), (15, [3]), (16, [4]),
       (17, [5]), (18, [6]), (19, [7]), (20, [10]), (21, [13]), (22, [11]), (23, [14]), (24, [15]),
       (25, [16]), (26, [17]), (27, [12])],
     bd_x_pin_map = [(1, [9, 28]), (2, [8, 29])],
     bd_x_jumper_pull = 0, bd_pin_byte = 255, bd_mcu_family = Rp2350, bd_rp_variant = Some Rp235xB,
     bd_sel_pins = [40, 41, 38, 39], bd_sel_jumper_pulls = [0, 0, 0, 1], bd_pin_x1 = 9, bd_pin_x2 = 8,
     bd_has_usb = True, bd_usb_vbus_pin = Some 46, bd_external_flash_cs_pin = None, bd_pin_status = 45,
     bd_pin_neo = Some 44, bd_swdio_sel_pin = 39, bd_swclk_sel_pin = 38\<rparr>"

definition banked_pair :: slot_context where
  "banked_pair = \<lparr>sc_board = fire_28_d, sc_set_type = Set_Banked,
     sc_chip_types = [three_cs_chip, three_cs_chip],
     sc_cs_config = ChipSelect ActiveLow (Some ActiveHigh) (Some CsIgnore) None,
     sc_bit_mode = BitMode8, sc_pin_offset = 0, sc_force_16_bit = False, sc_multi_cs_config = None\<rparr>"

definition banked_pair_layout :: addr_layout where
  "banked_pair_layout = \<lparr>al_gpio_base = 13, al_num_addr_pins = 16, al_x1_gpio = Some 28,
     al_x2_gpio = None,
     al_addr_pin_gpios = [27, 26, 25, 24, 23, 22, 21, 20, 16, 15, 13, 14, 19, 17],
     al_excess_addr_pin_gpios = []\<rparr>"

definition banked_pair_search :: addr_search where
  "banked_pair_search = \<lparr>as_candidates = map (\<lambda>g. [g]) (al_addr_pin_gpios banked_pair_layout) @ [[9, 28]],
     as_in_range = 14, as_lines = 14, as_x1 = Some 14, as_x2 = None, as_multi = []\<rparr>"

lemmas addr_search_defs =
  addr_search_of_def addr_line_start_def max_useful_addr_lines_def x_candidates_def
  multi_span_gpios_def line_source_def overhangs_def socket_pin_of_def addr_line_candidates_def
  gpios_for_socket_pin_def gpios_for_x_pin_def ilog2_MAX_IMAGE_SIZE

lemma upt_14: "[0..<14] = [0, 1, 2, 3, 4, 5, 6, 7, 8, 9, 10, 11, 12, 13]"
  by (simp add: upt_conv_Cons)

lemma upt_15: "[0..<15] = [0, 1, 2, 3, 4, 5, 6, 7, 8, 9, 10, 11, 12, 13, 14]"
  by (simp add: upt_conv_Cons)

lemma banked_pair_addr_search: "addr_search_of banked_pair = Some (Inr banked_pair_search)"
  by (simp add: addr_search_defs banked_pair_def fire_28_d_def three_cs_chip_def
      banked_pair_search_def banked_pair_layout_def Let_def upt_14)

lemma banked_pair_slots: "two_option_slots (as_candidates banked_pair_search) = [14]"
  by (simp add: two_option_slots_def banked_pair_search_def banked_pair_layout_def upt_15)

lemma banked_pair_choices:
  "resolve_combo (as_candidates banked_pair_search) combo =
    al_addr_pin_gpios banked_pair_layout @ [if odd combo then 28 else 9]"
  by (simp add: resolve_combo_def banked_pair_slots position_def)
    (simp add: banked_pair_search_def banked_pair_layout_def bit_0 upt_15)

lemma banked_pair_span:
  "span_gpios banked_pair_search (al_addr_pin_gpios banked_pair_layout @ [x]) =
    al_addr_pin_gpios banked_pair_layout @ [x]"
  by (simp add: span_gpios_def banked_pair_search_def banked_pair_layout_def)

lemma banked_pair_choice:
  "choice_base banked_pair_search (al_addr_pin_gpios banked_pair_layout @ [28]) = 13"
  "choice_pins banked_pair_search (al_addr_pin_gpios banked_pair_layout @ [28]) = 16"
  "choice_base banked_pair_search (al_addr_pin_gpios banked_pair_layout @ [9]) = 9"
  "choice_pins banked_pair_search (al_addr_pin_gpios banked_pair_layout @ [9]) = 19"
  unfolding choice_base_def choice_pins_def banked_pair_span MIN_ADDR_PINS_def
  by (simp_all add: banked_pair_layout_def)

lemma banked_pair_choice_layout:
  "choice_layout banked_pair_search (al_addr_pin_gpios banked_pair_layout @ [28]) = banked_pair_layout"
  unfolding choice_layout_def banked_pair_choice
  by (simp add: banked_pair_layout_def banked_pair_search_def)

lemma banked_pair_derived: "derive_addr_layout banked_pair = Some (Inr banked_pair_layout)"
proof -
  have "[0..<num_combos (as_candidates banked_pair_search)] = [0, 1]"
    by (simp add: num_combos_def banked_pair_slots upt_conv_Cons)
  then have "search_addr banked_pair_search = Some (banked_pair_layout, (0, 16013))"
    by (simp add: search_addr_def banked_pair_choices try_choice_def banked_pair_choice
        banked_pair_choice_layout fits_pio_window_iff keep_best_def)
  then show ?thesis
    by (simp add: derive_addr_layout_Inr banked_pair_addr_search banked_pair_choices banked_pair_span)
qed

theorem addr_layout_covers_witness:
  "fits_pio_window (al_gpio_base banked_pair_layout) (al_num_addr_pins banked_pair_layout) \<and>
    al_gpio_base banked_pair_layout \<le> 28 \<and>
    28 < al_gpio_base banked_pair_layout + al_num_addr_pins banked_pair_layout"
proof -
  have "28 \<in> set_option (al_x1_gpio banked_pair_layout)" by (simp add: banked_pair_layout_def)
  then show ?thesis using addr_layout_covers [OF banked_pair_derived] by blast
qed

theorem addr_lines_wired_witness:
  "\<exists>gpios. (14 :: nat) \<in> set gpios \<and> line_wired banked_pair three_cs_chip 11 0 gpios"
proof -
  have e: "hd (sc_chip_types banked_pair) = three_cs_chip" "addr_line_start banked_pair = 0"
    by (simp_all add: banked_pair_def addr_line_start_def)
  have "fly_leads banked_pair three_cs_chip [0..<11] = 0"
    by (simp add: upt_conv_Cons line_overhangs_def overhangs_def socket_pin_of_def
        banked_pair_def fire_28_d_def three_cs_chip_def)
  then show ?thesis
    using addr_lines_wired [OF banked_pair_derived, THEN conjunct2, THEN conjunct2, rule_format, of 11]
    unfolding e by (simp add: banked_pair_layout_def)
qed

theorem addr_layout_narrowest_witness:
  "\<exists>l. derive_addr_layout banked_pair = Some (Inr l) \<and> al_num_addr_pins l \<le> 19"
proof -
  let ?v = "al_addr_pin_gpios banked_pair_layout @ [9]"
  have "bond_choice (as_candidates banked_pair_search) ?v"
    using resolve_combo_choice [of "as_candidates banked_pair_search" 0]
    by (simp add: banked_pair_choices)
  then show ?thesis
    using addr_layout_narrowest [OF banked_pair_addr_search, of ?v]
    by (auto simp: banked_pair_slots banked_pair_choice banked_pair_span fits_pio_window_iff)
qed

end
