(* ===== verification/Cs_Data_Layout.thy ===== *)
theory Cs_Data_Layout
  imports Addr_Layout
begin

text \<open>
  The CS and data layout of a chip set (\<open>rust/gen/src/v2/cs_data_layout.rs\<close>): one PIO window
  from which the data lines, the select lines and any address qualifier are each a contiguous
  run of GPIOs. As for the address layout, a result is an option, \<open>None\<close> being a panic.
\<close>

section \<open>The layout\<close>

datatype select_role =
    RoleCs1 | RoleCs2 | RoleCs3 | RoleCs4 | RoleCe | RoleOe | RoleX1 | RoleX2 | RoleHalfSelect

record select_line =
  sl_role :: select_role
  sl_gpio :: nat

record alg_cs2_config =
  ac_base_qualifier_pin :: nat
  ac_num_qualifier_pins :: nat
  ac_qualifier_inactive_pattern :: u8

fun control_line_kind_to_select_role :: "control_line_kind \<Rightarrow> select_role" where
  "control_line_kind_to_select_role KindCe = RoleCe"
| "control_line_kind_to_select_role KindOe = RoleOe"
| "control_line_kind_to_select_role KindCs1 = RoleCs1"
| "control_line_kind_to_select_role KindCs2 = RoleCs2"
| "control_line_kind_to_select_role KindCs3 = RoleCs3"
| "control_line_kind_to_select_role KindCs4 = RoleCs4"

record cs_data_layout =
  cd_gpio_base :: nat
  cd_base_data_pin :: nat
  cd_num_data_pins :: nat
  cd_data_pin_gpios :: "nat list"
  cd_base_cs_pin :: nat
  cd_num_cs_pins :: nat
  cd_cs_ignore_index :: "nat option"
  cd_select_lines :: "select_line list"
  cd_commoned_lines :: "select_line list"
  cd_alg_cs2 :: "alg_cs2_config option"

section \<open>Gathering the candidates\<close>

definition select_role_of_name :: "string \<Rightarrow> select_role option" where
  "select_role_of_name name =
     (if name = ''ce'' then Some RoleCe
      else if name = ''oe'' then Some RoleOe
      else if name = ''cs1'' then Some RoleCs1
      else if name = ''cs2'' then Some RoleCs2
      else if name = ''cs3'' then Some RoleCs3
      else if name = ''cs4'' then Some RoleCs4
      else None)"

definition select_phys_pins ::
  "board \<Rightarrow> chip_type \<Rightarrow> cs_config \<Rightarrow> (layout_error, (select_role \<times> nat) list) result" where
  "select_phys_pins b ct c =
     (let pins = List.map_filter
        (\<lambda>line. case select_role_of_name (cl_name line) of
           None \<Rightarrow> None
         | Some role \<Rightarrow>
             if control_line_logic (cl_name line) c \<in> {ActiveLow, ActiveHigh}
             then Some (role, cl_pin line) else None) (ct_control_lines ct)
      in if pins = [] then Inl (NoSelectLine b ct) else Inr pins)"

definition gpios_for_pin :: "slot_context \<Rightarrow> chip_type \<Rightarrow> nat \<Rightarrow> (layout_error, nat list) result" where
  "gpios_for_pin ctx ct phys_pin =
     (let socket_pin = socket_pin_of ctx phys_pin in
      if overhangs ctx socket_pin then Inl (UnmappedPin (sc_board ctx) ct phys_pin)
      else
        let gpios = gpios_for_socket_pin (sc_board ctx) (nat socket_pin) in
        if gpios = [] then Inl (UnmappedPin (sc_board ctx) ct phys_pin) else Inr gpios)"

definition control_line_candidates ::
  "slot_context \<Rightarrow> chip_type \<Rightarrow> control_line_kind \<Rightarrow> (layout_error, nat list) result" where
  "control_line_candidates ctx ct kind =
     bind_r (ok_or (List.find (\<lambda>l. cl_name l = kind_name kind) (ct_control_lines ct))
              (NoSelectLine (sc_board ctx) ct))
       (\<lambda>line. gpios_for_pin ctx ct (cl_pin line))"

definition x_pin_candidates :: "slot_context \<Rightarrow> nat \<Rightarrow> (layout_error, nat list) result" where
  "x_pin_candidates ctx x =
     (let gpios = gpios_for_x_pin (sc_board ctx) x in
      if gpios = [] then Inl (MissingXPin (sc_board ctx) x) else Inr gpios)"

record select_gather =
  sg_select :: "(select_role \<times> nat list) list"
  sg_commoned :: "(select_role \<times> nat list) list"
  sg_ignored :: "nat list"

definition gather_single ::
  "slot_context \<Rightarrow> chip_type \<Rightarrow> (layout_error, select_gather) result" where
  "gather_single ctx ct =
     bind_r (select_phys_pins (sc_board ctx) ct (sc_cs_config ctx)) (\<lambda>pins.
     bind_r (map_r (\<lambda>(role, pin). bind_r (gpios_for_pin ctx ct pin) (\<lambda>gpios. Inr (role, gpios))) pins)
       (\<lambda>sel. Inr \<lparr>sg_select = sel, sg_commoned = [], sg_ignored = []\<rparr>))"

definition kind_candidates ::
  "slot_context \<Rightarrow> chip_type \<Rightarrow> control_line_kind \<Rightarrow> (layout_error, select_role \<times> nat list) result" where
  "kind_candidates ctx ct kind =
     bind_r (control_line_candidates ctx ct kind)
       (\<lambda>gpios. Inr (control_line_kind_to_select_role kind, gpios))"

definition x_lines :: "slot_context \<Rightarrow> (select_role \<times> nat) list" where
  "x_lines ctx =
     (if 2 \<le> length (sc_chip_types ctx) then [(RoleX1, 1)] else []) @
     (if 3 \<le> length (sc_chip_types ctx) then [(RoleX2, 2)] else [])"

definition gather_multi ::
  "slot_context \<Rightarrow> chip_type \<Rightarrow> multi_chip_cs_config \<Rightarrow> (layout_error, select_gather) result" where
  "gather_multi ctx ct mcc =
     bind_r (kind_candidates ctx ct (per_chip_select mcc)) (\<lambda>sel.
     bind_r (map_r (kind_candidates ctx ct) (commoned_lines mcc)) (\<lambda>commoned.
     bind_r (map_r (control_line_candidates ctx ct) (ignored_lines mcc)) (\<lambda>ignored.
     bind_r (map_r (\<lambda>(role, x). bind_r (x_pin_candidates ctx x) (\<lambda>gpios. Inr (role, gpios)))
               (x_lines ctx)) (\<lambda>xs.
     Inr \<lparr>sg_select = sel # xs, sg_commoned = commoned, sg_ignored = concat ignored\<rparr>))))"

definition gather_select ::
  "slot_context \<Rightarrow> chip_type \<Rightarrow> (layout_error, select_gather) result option" where
  "gather_select ctx ct =
     (if sc_set_type ctx = Set_Multi
      then map_option (gather_multi ctx ct) (sc_multi_cs_config ctx)
      else Some (gather_single ctx ct))"

section \<open>One combination of bonds\<close>

record cs_search =
  cq_set_type :: chip_set_type
  cq_data :: "nat list list"
  cq_gather :: select_gather
  cq_excess :: "nat list"
  cq_qual :: "nat list option"

definition cs_candidates :: "cs_search \<Rightarrow> nat list list" where
  "cs_candidates q = cq_data q @ map snd (sg_select (cq_gather q)) @ map snd (sg_commoned (cq_gather q))"

definition data_resolved :: "cs_search \<Rightarrow> nat list \<Rightarrow> nat list" where
  "data_resolved q v = take (length (cq_data q)) v"

definition select_resolved :: "cs_search \<Rightarrow> nat list \<Rightarrow> nat list" where
  "select_resolved q v = take (length (sg_select (cq_gather q))) (drop (length (cq_data q)) v)"

definition commoned_resolved :: "cs_search \<Rightarrow> nat list \<Rightarrow> nat list" where
  "commoned_resolved q v = drop (length (cq_data q) + length (sg_select (cq_gather q))) v"

definition select_gpios :: "cs_search \<Rightarrow> nat list \<Rightarrow> nat list" where
  "select_gpios q v = select_resolved q v @ cq_excess q @ commoned_resolved q v"

definition span_of :: "nat list \<Rightarrow> nat" where
  "span_of gs = Max (set gs) - Min (set gs) + 1"

definition first_gap :: "nat list \<Rightarrow> nat option" where
  "first_gap gs = List.find (\<lambda>k. Min (set gs) + k \<notin> set gs) [0..<span_of gs]"

definition ignored_gap :: "nat list \<Rightarrow> nat list \<Rightarrow> nat option" where
  "ignored_gap gs ignored =
     List.find (\<lambda>g. g \<notin> set gs \<and> g \<in> set ignored) [Min (set gs)..<Max (set gs) + 1]"

text \<open>The shift of a \<open>u8\<close> by the pin's distance wraps at eight, as in a release build.\<close>

definition alg_cs2_of :: "nat list \<Rightarrow> nat \<Rightarrow> alg_cs2_config" where
  "alg_cs2_of qg gpio_base =
     \<lparr>ac_base_qualifier_pin = Min (set qg) - gpio_base,
      ac_num_qualifier_pins = Max (set qg) - Min (set qg) + 1,
      ac_qualifier_inactive_pattern =
        fold (\<lambda>g acc. Bit_Operations.or acc (push_bit ((g - Min (set qg)) mod 8) 1)) qg 0\<rparr>"

text \<open>
  What one combination does to the loop: it is skipped, it is skipped recording a select span
  with gaps, it is a candidate with its score, or it panics on an empty data or qualifier list.
\<close>

datatype cs_outcome =
    Skipped
  | NonContiguous "nat list" "nat option"
  | Candidate cs_data_layout "nat \<times> nat"
  | Panicked

definition ignore_index_of :: "chip_set_type \<Rightarrow> nat list \<Rightarrow> nat option option" where
  "ignore_index_of set_type gs =
     (if span_of gs = card (set gs) then Some None
      else if span_of gs = card (set gs) + 1 \<and> set_type \<noteq> Set_Multi then Some (first_gap gs)
      else None)"

definition window_gpios :: "cs_search \<Rightarrow> nat list \<Rightarrow> nat list" where
  "window_gpios q v =
     data_resolved q v @ select_gpios q v @ (case cq_qual q of None \<Rightarrow> [] | Some qg \<Rightarrow> qg)"

definition pio_base_for :: "nat list \<Rightarrow> nat" where
  "pio_base_for gs = (if Min (set gs) < 16 then 0 else 16)"

definition cs_layout_of :: "cs_search \<Rightarrow> nat list \<Rightarrow> nat option \<Rightarrow> cs_data_layout" where
  "cs_layout_of q v ignore =
     (let gpio_base = pio_base_for (window_gpios q v) in
      \<lparr>cd_gpio_base = gpio_base,
       cd_base_data_pin = Min (set (data_resolved q v)) - gpio_base,
       cd_num_data_pins = length (cq_data q),
       cd_data_pin_gpios = data_resolved q v,
       cd_base_cs_pin = Min (set (select_gpios q v)) - gpio_base,
       cd_num_cs_pins = span_of (select_gpios q v),
       cd_cs_ignore_index = ignore,
       cd_select_lines =
         map (\<lambda>(role, gpio). \<lparr>sl_role = role, sl_gpio = gpio\<rparr>)
           (zip (map fst (sg_select (cq_gather q))) (select_resolved q v)) @
         map (\<lambda>gpio. \<lparr>sl_role = RoleHalfSelect, sl_gpio = gpio\<rparr>) (cq_excess q),
       cd_commoned_lines =
         map (\<lambda>(role, gpio). \<lparr>sl_role = role, sl_gpio = gpio\<rparr>)
           (zip (map fst (sg_commoned (cq_gather q))) (commoned_resolved q v)),
       cd_alg_cs2 = map_option (\<lambda>qg. alg_cs2_of qg gpio_base) (cq_qual q)\<rparr>)"

definition cs_score :: "cs_search \<Rightarrow> nat list \<Rightarrow> nat option \<Rightarrow> nat \<times> nat" where
  "cs_score q v ignore =
     (pref_rank (cs_alg_preference_of ignore (cq_qual q)), span_of (window_gpios q v))"

definition try_cs_choice :: "cs_search \<Rightarrow> nat list \<Rightarrow> cs_outcome" where
  "try_cs_choice q v =
     (if data_resolved q v = [] then Panicked
      else if span_of (data_resolved q v) \<noteq> card (set (data_resolved q v)) then Skipped
      else if select_gpios q v = [] then Panicked
      else
        case ignore_index_of (cq_set_type q) (select_gpios q v) of
          None \<Rightarrow> NonContiguous (sorted_list_of_set (set (select_gpios q v)))
                    (ignored_gap (select_gpios q v) (sg_ignored (cq_gather q)))
        | Some ignore \<Rightarrow>
            if cq_qual q = Some [] then Panicked
            else
              let gs = window_gpios q v; gpio_base = pio_base_for gs in
              if fits_pio_window gpio_base (Max (set gs) - gpio_base + 1)
              then Candidate (cs_layout_of q v ignore) (cs_score q v ignore)
              else Skipped)"

section \<open>The derivation\<close>

record cs_loop =
  cl_best :: "(cs_data_layout \<times> (nat \<times> nat)) option"
  cl_last_noncontig :: "nat list option"
  cl_interior_ignored :: "nat option"

fun outcome_candidate :: "cs_outcome \<Rightarrow> (cs_data_layout \<times> (nat \<times> nat)) option" where
  "outcome_candidate (Candidate l s) = Some (l, s)"
| "outcome_candidate _ = None"

definition cs_loop_step :: "cs_outcome \<Rightarrow> cs_loop \<Rightarrow> cs_loop" where
  "cs_loop_step out st =
     (case out of
        NonContiguous gs gap \<Rightarrow>
          st\<lparr>cl_last_noncontig := Some gs,
             cl_interior_ignored := (case cl_interior_ignored st of None \<Rightarrow> gap | Some g \<Rightarrow> Some g)\<rparr>
      | _ \<Rightarrow> st\<lparr>cl_best := keep_best (cl_best st) (outcome_candidate out)\<rparr>)"

definition cs_outcomes :: "cs_search \<Rightarrow> cs_outcome list" where
  "cs_outcomes q =
     map (\<lambda>combo. try_cs_choice q (resolve_combo (cs_candidates q) combo))
       [0..<num_combos (cs_candidates q)]"

definition cs_loop_end :: "cs_search \<Rightarrow> cs_loop" where
  "cs_loop_end q =
     fold cs_loop_step (cs_outcomes q)
       \<lparr>cl_best = None, cl_last_noncontig = None, cl_interior_ignored = None\<rparr>"

definition search_cs_data ::
  "slot_context \<Rightarrow> chip_type \<Rightarrow> cs_search \<Rightarrow> (layout_error, cs_data_layout) result option" where
  "search_cs_data ctx ct q =
     (if Panicked \<in> set (cs_outcomes q) then None
      else
        case cl_best (cs_loop_end q) of
          Some (layout, _) \<Rightarrow> Some (Inr layout)
        | None \<Rightarrow>
            (case cl_interior_ignored (cs_loop_end q) of
               Some gpio \<Rightarrow> Some (Inl (InteriorIgnoredLine (sc_board ctx) ct gpio))
             | None \<Rightarrow>
                 (case cl_last_noncontig (cs_loop_end q) of
                    Some gpios \<Rightarrow> Some (Inl (NonContiguousSelect (sc_board ctx) ct gpios))
                  | None \<Rightarrow> Some (Inl (NoValidLayout (sc_board ctx))))))"

text \<open>The GPIOs of the address lines that qualify the select; an index past them panics.\<close>

definition qualifier_gpios :: "nat list option \<Rightarrow> nat list \<Rightarrow> nat list option option" where
  "qualifier_gpios indices gpios =
     (case indices of
        None \<Rightarrow> Some None
      | Some is \<Rightarrow> if list_all (\<lambda>i. i < length gpios) is then Some (Some (map (\<lambda>i. gpios ! i) is)) else None)"

definition cs_prechecks :: "slot_context \<Rightarrow> chip_type \<Rightarrow> addr_layout option \<Rightarrow> layout_error option" where
  "cs_prechecks ctx ct addr_layout =
     (if ct_deselect_all_high ct \<noteq> None \<and> addr_layout = None
      then Some (MissingAddrPinGpios (sc_board ctx) ct)
      else if (case addr_layout of None \<Rightarrow> [] | Some a \<Rightarrow> al_excess_addr_pin_gpios a) \<noteq> [] \<and>
        cs1_logic (sc_cs_config ctx) \<notin> {Some ActiveLow, Some ActiveHigh}
      then Some (RomTooLargeNoCsConfig (sc_board ctx) ct)
      else None)"

definition cs_search_of ::
  "slot_context \<Rightarrow> chip_type \<Rightarrow> addr_layout option \<Rightarrow> (layout_error, cs_search) result option" where
  "cs_search_of ctx ct addr_layout =
     (case cs_prechecks ctx ct addr_layout of
        Some e \<Rightarrow> Some (Inl e)
      | None \<Rightarrow>
          (case qualifier_gpios (ct_deselect_all_high ct)
                  (case addr_layout of None \<Rightarrow> [] | Some a \<Rightarrow> al_addr_pin_gpios a) of
             None \<Rightarrow> None
           | Some qual \<Rightarrow>
               (case map_r (gpios_for_pin ctx ct) (ct_data_pins ct) of
                  Inl e \<Rightarrow> Some (Inl e)
                | Inr data \<Rightarrow>
                    map_option (\<lambda>r. bind_r r (\<lambda>g. Inr \<lparr>cq_set_type = sc_set_type ctx,
                      cq_data = data, cq_gather = g,
                      cq_excess = (case addr_layout of None \<Rightarrow> []
                                   | Some a \<Rightarrow> al_excess_addr_pin_gpios a),
                      cq_qual = qual\<rparr>)) (gather_select ctx ct))))"

definition derive_cs_data_layout ::
  "slot_context \<Rightarrow> addr_layout option \<Rightarrow> (layout_error, cs_data_layout) result option" where
  "derive_cs_data_layout ctx addr_layout =
     (case sc_chip_types ctx of
        [] \<Rightarrow> None
      | chip0 # _ \<Rightarrow>
          (case cs_search_of ctx chip0 addr_layout of
             None \<Rightarrow> None
           | Some (Inl e) \<Rightarrow> Some (Inl e)
           | Some (Inr q) \<Rightarrow> search_cs_data ctx chip0 q))"

section \<open>Contiguous spans\<close>

lemma span_atLeastAtMost:
  assumes "gs \<noteq> []"
  shows "set gs \<subseteq> {Min (set gs)..Max (set gs)}" "card {Min (set gs)..Max (set gs)} = span_of gs"
proof -
  show "set gs \<subseteq> {Min (set gs)..Max (set gs)}" by (auto intro: Min_le Max_ge)
  have "Min (set gs) \<le> Max (set gs)" using assms by (intro Min_le) simp_all
  then show "card {Min (set gs)..Max (set gs)} = span_of gs" by (simp add: span_of_def)
qed

lemma span_Max: "gs \<noteq> [] \<Longrightarrow> Max (set gs) + 1 = Min (set gs) + span_of gs"
  using Min_le [of "set gs" "Max (set gs)"] by (simp add: span_of_def)

lemma span_interval:
  "gs \<noteq> [] \<Longrightarrow> {Min (set gs)..<Min (set gs) + span_of gs} = {Min (set gs)..Max (set gs)}"
  using span_Max [of gs] by auto

lemma span_contiguous:
  assumes "gs \<noteq> []" "span_of gs = card (set gs)"
  shows "set gs = {Min (set gs)..<Min (set gs) + span_of gs}"
proof -
  have "set gs = {Min (set gs)..Max (set gs)}"
    using span_atLeastAtMost [OF assms(1)] assms(2) by (intro card_subset_eq) auto
  then show ?thesis by (simp only: span_interval [OF assms(1)])
qed

lemma span_one_gap:
  assumes "gs \<noteq> []" "span_of gs = card (set gs) + 1"
  obtains k where "first_gap gs = Some k" "0 < k" "k + 1 < span_of gs"
    "set gs = {Min (set gs)..<Min (set gs) + span_of gs} - {Min (set gs) + k}"
proof -
  let ?I = "{Min (set gs)..<Min (set gs) + span_of gs}"
  have I: "?I = {Min (set gs)..Max (set gs)}" by (rule span_interval [OF assms(1)])
  have sub: "set gs \<subseteq> ?I" using span_atLeastAtMost(1) [OF assms(1)] I by simp
  have "card (?I - set gs) = 1" using sub assms(2) by (simp add: card_Diff_subset)
  then obtain x where x: "?I - set gs = {x}" by (rule card_1_singletonE)
  have mem: "Min (set gs) \<in> set gs" "Max (set gs) \<in> set gs" using assms(1) by simp_all
  have xI: "x \<in> ?I" "x \<notin> set gs" using x by auto
  define k where "k = x - Min (set gs)"
  have k: "x = Min (set gs) + k" "k < span_of gs" using xI by (auto simp: k_def)
  have "0 < k" using xI mem(1) k(1) by (cases k) auto
  moreover have "k + 1 < span_of gs"
  proof -
    have "x \<noteq> Max (set gs)" using xI mem(2) by metis
    then show ?thesis using k span_Max [OF assms(1)] by linarith
  qed
  moreover have "Min (set gs) + j \<in> set gs" if "j < k" for j
    using that k x by (metis DiffI atLeastLessThan_iff le_add1 nat_add_left_cancel_less
        order.strict_trans singletonD less_irrefl)
  then have "first_gap gs = Some k"
    using xI k by (auto simp: first_gap_def find_Some_iff intro!: exI [of _ k])
  moreover have "set gs = ?I - {Min (set gs) + k}" using x sub k(1) by auto
  ultimately show thesis by (intro that)
qed

section \<open>What the search returns\<close>

lemma cl_best_fold:
  "cl_best (fold cs_loop_step outs st) =
    fold (\<lambda>out best. keep_best best (outcome_candidate out)) outs (cl_best st)"
  by (induction outs arbitrary: st)
    (auto simp: cs_loop_step_def keep_best_def split: cs_outcome.splits)

lemma cl_best_loop_end:
  "cl_best (cs_loop_end q) =
    fold (\<lambda>combo best. keep_best best
        (outcome_candidate (try_cs_choice q (resolve_combo (cs_candidates q) combo))))
      [0..<num_combos (cs_candidates q)] None"
  unfolding cs_loop_end_def cl_best_fold by (simp add: cs_outcomes_def fold_map comp_def)

lemma outcome_candidate_Some [simp]:
  "outcome_candidate out = Some (l, s) \<longleftrightarrow> out = Candidate l s"
  by (cases out) auto

lemma cl_best_cases:
  "case cl_best (cs_loop_end q) of
     None \<Rightarrow> \<forall>combo<num_combos (cs_candidates q).
       outcome_candidate (try_cs_choice q (resolve_combo (cs_candidates q) combo)) = None
   | Some (l, s) \<Rightarrow>
       (\<exists>combo<num_combos (cs_candidates q).
         try_cs_choice q (resolve_combo (cs_candidates q) combo) = Candidate l s) \<and>
       (\<forall>combo<num_combos (cs_candidates q). \<forall>l' s'.
         try_cs_choice q (resolve_combo (cs_candidates q) combo) = Candidate l' s' \<longrightarrow>
         \<not> score_less s' s)"
  using keep_best_fold [where f = "\<lambda>combo. outcome_candidate
      (try_cs_choice q (resolve_combo (cs_candidates q) combo))"
      and cs = "[0..<num_combos (cs_candidates q)]"]
  by (auto simp: cl_best_loop_end split: option.splits)

lemma try_cs_choice_Candidate:
  "try_cs_choice q v = Candidate l s \<longleftrightarrow>
    data_resolved q v \<noteq> [] \<and> span_of (data_resolved q v) = card (set (data_resolved q v)) \<and>
    select_gpios q v \<noteq> [] \<and> cq_qual q \<noteq> Some [] \<and>
    (\<exists>ignore. ignore_index_of (cq_set_type q) (select_gpios q v) = Some ignore \<and>
      l = cs_layout_of q v ignore \<and> s = cs_score q v ignore) \<and>
    fits_pio_window (pio_base_for (window_gpios q v))
      (Max (set (window_gpios q v)) - pio_base_for (window_gpios q v) + 1)"
  by (auto simp: try_cs_choice_def Let_def split: option.splits)

lemma search_cs_data_Inr:
  assumes "search_cs_data ctx ct q = Some (Inr l)"
  obtains v s where "bond_choice (cs_candidates q) v" "try_cs_choice q v = Candidate l s"
proof -
  obtain s where "cl_best (cs_loop_end q) = Some (l, s)"
    using assms by (auto simp: search_cs_data_def split: if_splits option.splits)
  then obtain combo where "try_cs_choice q (resolve_combo (cs_candidates q) combo) = Candidate l s"
    using cl_best_cases [of q] by auto
  then show thesis by (rule that [OF resolve_combo_choice])
qed

lemma derive_cs_data_layout_Inr:
  assumes "derive_cs_data_layout ctx al = Some (Inr l)"
  obtains ct rest q where "sc_chip_types ctx = ct # rest" "cs_search_of ctx ct al = Some (Inr q)"
    "search_cs_data ctx ct q = Some (Inr l)"
  using assms that by (auto simp: derive_cs_data_layout_def split: list.splits option.splits sum.splits)

lemma resolved_lengths:
  assumes "bond_choice (cs_candidates q) v"
  shows "length (data_resolved q v) = length (cq_data q)"
    "length (select_resolved q v) = length (sg_select (cq_gather q))"
    "length (commoned_resolved q v) = length (sg_commoned (cq_gather q))"
  using assms
  by (simp_all add: bond_choice_def cs_candidates_def data_resolved_def select_resolved_def
      commoned_resolved_def)

lemma map_snd_zip_lines:
  "length roles = length gs \<Longrightarrow>
    map sl_gpio (map (\<lambda>(role, gpio). \<lparr>sl_role = role, sl_gpio = gpio\<rparr>) (zip roles gs)) = gs"
  by (induction roles gs rule: list_induct2) auto

lemma layout_line_gpios:
  assumes "bond_choice (cs_candidates q) v"
  shows "map sl_gpio (cd_select_lines (cs_layout_of q v ig)) = select_resolved q v @ cq_excess q"
    "map sl_gpio (cd_commoned_lines (cs_layout_of q v ig)) = commoned_resolved q v"
  using resolved_lengths [OF assms]
  by (simp_all add: cs_layout_of_def Let_def map_snd_zip_lines comp_def del: map_map)
    (simp_all add: comp_def)

lemma layout_line_set:
  assumes "bond_choice (cs_candidates q) v"
  shows "sl_gpio ` set (cd_select_lines (cs_layout_of q v ig) @ cd_commoned_lines (cs_layout_of q v ig)) =
    set (select_gpios q v)"
proof -
  have "sl_gpio ` set (cd_select_lines (cs_layout_of q v ig) @ cd_commoned_lines (cs_layout_of q v ig)) =
      set (map sl_gpio (cd_select_lines (cs_layout_of q v ig))) \<union>
      set (map sl_gpio (cd_commoned_lines (cs_layout_of q v ig)))"
    by auto
  then show ?thesis unfolding layout_line_gpios [OF assms] select_gpios_def by auto
qed

lemma pio_window_bounds:
  assumes "fits_pio_window (pio_base_for gs) (Max (set gs) - pio_base_for gs + 1)" "g \<in> set gs"
  shows "pio_base_for gs \<le> g \<and> g < pio_base_for gs + 32"
proof -
  have "Min (set gs) \<le> g" "g \<le> Max (set gs)" using assms(2) by (auto intro: Min_le Max_ge)
  then show ?thesis using assms(1) by (auto simp: pio_base_for_def fits_pio_window_iff split: if_splits)
qed

lemma Candidate_cs_span:
  assumes "try_cs_choice q v = Candidate l s"
  shows "set (select_gpios q v) =
      {Min (set (select_gpios q v))..<Min (set (select_gpios q v)) + span_of (select_gpios q v)} -
      (case cd_cs_ignore_index l of None \<Rightarrow> {} | Some k \<Rightarrow> {Min (set (select_gpios q v)) + k})"
    "cd_cs_ignore_index l = Some k \<Longrightarrow>
      cq_set_type q \<noteq> Set_Multi \<and> 0 < k \<and> k + 1 < span_of (select_gpios q v)"
proof -
  let ?gs = "select_gpios q v"
  obtain ig where ig: "?gs \<noteq> []" "ignore_index_of (cq_set_type q) ?gs = Some ig"
    "cd_cs_ignore_index l = ig"
    using assms by (auto simp: try_cs_choice_Candidate cs_layout_of_def Let_def)
  have "set ?gs = {Min (set ?gs)..<Min (set ?gs) + span_of ?gs} -
      (case ig of None \<Rightarrow> {} | Some k \<Rightarrow> {Min (set ?gs) + k}) \<and>
    (\<forall>k. ig = Some k \<longrightarrow> cq_set_type q \<noteq> Set_Multi \<and> 0 < k \<and> k + 1 < span_of ?gs)"
  proof (cases "span_of ?gs = card (set ?gs)")
    case True
    then have "ig = None" using ig(2) by (simp add: ignore_index_of_def)
    then show ?thesis using span_contiguous [OF ig(1) True] by simp
  next
    case False
    then have g: "span_of ?gs = card (set ?gs) + 1" "cq_set_type q \<noteq> Set_Multi" "ig = first_gap ?gs"
      using ig(2) by (auto simp: ignore_index_of_def split: if_splits)
    obtain k where "first_gap ?gs = Some k" "0 < k" "k + 1 < span_of ?gs"
      "set ?gs = {Min (set ?gs)..<Min (set ?gs) + span_of ?gs} - {Min (set ?gs) + k}"
      by (rule span_one_gap [OF ig(1) g(1)])
    then show ?thesis using g(2,3) by simp
  qed
  then show "set ?gs = {Min (set ?gs)..<Min (set ?gs) + span_of ?gs} -
      (case cd_cs_ignore_index l of None \<Rightarrow> {} | Some k \<Rightarrow> {Min (set ?gs) + k})"
    "cd_cs_ignore_index l = Some k \<Longrightarrow>
      cq_set_type q \<noteq> Set_Multi \<and> 0 < k \<and> k + 1 < span_of ?gs"
    unfolding ig(3) by blast+
qed

lemma cs_search_of_Inr:
  assumes "cs_search_of ctx ct al = Some (Inr q)"
  shows "cq_set_type q = sc_set_type ctx"
    "cq_excess q = (case al of None \<Rightarrow> [] | Some a \<Rightarrow> al_excess_addr_pin_gpios a)"
    "map_r (gpios_for_pin ctx ct) (ct_data_pins ct) = Inr (cq_data q)"
    "gather_select ctx ct = Some (Inr (cq_gather q))"
    "cs_prechecks ctx ct al = None"
  using assms by (auto simp: cs_search_of_def bind_r_Inr_iff split: option.splits sum.splits)

section \<open>Properties of the CS and data layout\<close>

lemma derived_runs:
  assumes "derive_cs_data_layout ctx al = Some (Inr l)"
  shows "cd_gpio_base l \<in> {0, 16} \<and>
    set (cd_data_pin_gpios l) = {cd_gpio_base l + cd_base_data_pin l..<
      cd_gpio_base l + cd_base_data_pin l + card (set (cd_data_pin_gpios l))} \<and>
    sl_gpio ` set (cd_select_lines l @ cd_commoned_lines l) =
      {cd_gpio_base l + cd_base_cs_pin l..<cd_gpio_base l + cd_base_cs_pin l + cd_num_cs_pins l} -
      (case cd_cs_ignore_index l of None \<Rightarrow> {} | Some k \<Rightarrow> {cd_gpio_base l + cd_base_cs_pin l + k}) \<and>
    (\<forall>k. cd_cs_ignore_index l = Some k \<longrightarrow>
      sc_set_type ctx \<noteq> Set_Multi \<and> 0 < k \<and> k + 1 < cd_num_cs_pins l) \<and>
    (\<forall>g \<in> set (cd_data_pin_gpios l) \<union> sl_gpio ` set (cd_select_lines l @ cd_commoned_lines l).
      cd_gpio_base l \<le> g \<and> g < cd_gpio_base l + 32)"
proof -
  obtain ct rest q where q: "cs_search_of ctx ct al = Some (Inr q)"
    "search_cs_data ctx ct q = Some (Inr l)"
    by (rule derive_cs_data_layout_Inr [OF assms])
  obtain v s where v: "bond_choice (cs_candidates q) v" "try_cs_choice q v = Candidate l s"
    by (rule search_cs_data_Inr [OF q(2)])
  obtain ig where ig: "data_resolved q v \<noteq> []"
    "span_of (data_resolved q v) = card (set (data_resolved q v))" "select_gpios q v \<noteq> []"
    "l = cs_layout_of q v ig" "fits_pio_window (pio_base_for (window_gpios q v))
      (Max (set (window_gpios q v)) - pio_base_for (window_gpios q v) + 1)"
    using v(2) by (auto simp: try_cs_choice_Candidate)
  let ?B = "pio_base_for (window_gpios q v)"
  have win: "?B \<le> g \<and> g < ?B + 32" if "g \<in> set (data_resolved q v) \<union> set (select_gpios q v)" for g
    using that by (intro pio_window_bounds [OF ig(5)]) (auto simp: window_gpios_def)
  have l: "cd_gpio_base l = ?B" "cd_data_pin_gpios l = data_resolved q v"
    "cd_num_cs_pins l = span_of (select_gpios q v)"
    by (simp_all add: ig(4) cs_layout_of_def Let_def)
  have min_mem: "Min (set (data_resolved q v)) \<in> set (data_resolved q v)"
    "Min (set (select_gpios q v)) \<in> set (select_gpios q v)"
    using ig(1,3) by simp_all
  have bases: "?B + cd_base_data_pin l = Min (set (data_resolved q v))"
    "?B + cd_base_cs_pin l = Min (set (select_gpios q v))"
    using win [of "Min (set (data_resolved q v))"] win [of "Min (set (select_gpios q v))"] min_mem
    by (simp_all add: ig(4) cs_layout_of_def Let_def)
  have lines: "sl_gpio ` set (cd_select_lines l @ cd_commoned_lines l) = set (select_gpios q v)"
    unfolding ig(4) by (rule layout_line_set [OF v(1)])
  have t: "cq_set_type q = sc_set_type ctx" by (rule cs_search_of_Inr(1) [OF q(1)])
  show ?thesis
    unfolding lines l bases
    using span_contiguous [OF ig(1,2)] Candidate_cs_span [OF v(2)] win ig(2) t
    by (intro conjI) (auto simp: pio_base_for_def)
qed

text \<open>
  C29: a derived layout can be served by one PIO block. Its base is 0 or 16; the data lines
  fill a contiguous run of GPIOs from the data base; the select and commoned lines fill the
  CS run exactly, save for the one ignored position, which lies strictly inside the run and
  never occurs in a multi set; and every one of these GPIOs lies in the 32-pin window.
\<close>

theorem cs_layout_contiguous:
  assumes "derive_cs_data_layout ctx al = Some (Inr l)"
  shows "cd_gpio_base l \<in> {0, 16} \<and>
    set (cd_data_pin_gpios l) = {cd_gpio_base l + cd_base_data_pin l..<
      cd_gpio_base l + cd_base_data_pin l + card (set (cd_data_pin_gpios l))} \<and>
    sl_gpio ` set (cd_select_lines l @ cd_commoned_lines l) =
      {cd_gpio_base l + cd_base_cs_pin l..<cd_gpio_base l + cd_base_cs_pin l + cd_num_cs_pins l} -
      (case cd_cs_ignore_index l of None \<Rightarrow> {} | Some k \<Rightarrow> {cd_gpio_base l + cd_base_cs_pin l + k}) \<and>
    (\<forall>k. cd_cs_ignore_index l = Some k \<longrightarrow>
      sc_set_type ctx \<noteq> Set_Multi \<and> 0 < k \<and> k + 1 < cd_num_cs_pins l) \<and>
    (\<forall>g \<in> set (cd_data_pin_gpios l) \<union> sl_gpio ` set (cd_select_lines l @ cd_commoned_lines l).
      cd_gpio_base l \<le> g \<and> g < cd_gpio_base l + 32)"
  by (rule derived_runs [OF assms])

text \<open>What it means for a GPIO to be wired to a pin, a control line or an X pin.\<close>

definition wired_pin :: "slot_context \<Rightarrow> nat \<Rightarrow> nat \<Rightarrow> bool" where
  "wired_pin ctx pin g \<longleftrightarrow> \<not> overhangs ctx (socket_pin_of ctx pin) \<and>
     g \<in> set (gpios_for_socket_pin (sc_board ctx) (nat (socket_pin_of ctx pin)))"

definition wired_select :: "slot_context \<Rightarrow> select_role \<times> nat \<Rightarrow> select_line \<Rightarrow> bool" where
  "wired_select ctx rp line \<longleftrightarrow> sl_role line = fst rp \<and> wired_pin ctx (snd rp) (sl_gpio line)"

definition wired_kind :: "slot_context \<Rightarrow> chip_type \<Rightarrow> control_line_kind \<Rightarrow> select_line \<Rightarrow> bool" where
  "wired_kind ctx ct kind line \<longleftrightarrow> sl_role line = control_line_kind_to_select_role kind \<and>
     (\<exists>spec. List.find (\<lambda>l. cl_name l = kind_name kind) (ct_control_lines ct) = Some spec \<and>
       wired_pin ctx (cl_pin spec) (sl_gpio line))"

definition wired_x :: "slot_context \<Rightarrow> select_role \<times> nat \<Rightarrow> select_line \<Rightarrow> bool" where
  "wired_x ctx rx line \<longleftrightarrow> sl_role line = fst rx \<and>
     sl_gpio line \<in> set (gpios_for_x_pin (sc_board ctx) (snd rx))"

lemma gpios_for_pin_Inr:
  assumes "gpios_for_pin ctx ct pin = Inr gpios"
  shows "gpios \<noteq> [] \<and> (\<forall>g \<in> set gpios. wired_pin ctx pin g)"
  using assms by (auto simp: gpios_for_pin_def wired_pin_def Let_def split: if_splits)

lemma control_line_candidates_Inr:
  assumes "control_line_candidates ctx ct kind = Inr gpios"
  shows "gpios \<noteq> [] \<and> (\<forall>g \<in> set gpios.
    wired_kind ctx ct kind \<lparr>sl_role = control_line_kind_to_select_role kind, sl_gpio = g\<rparr>)"
  using assms gpios_for_pin_Inr
  by (fastforce simp: control_line_candidates_def bind_r_Inr_iff wired_kind_def)

lemma bond_choice_wired:
  assumes "bond_choice c v" "\<forall>gpios \<in> set c. gpios \<noteq> []"
  shows "list_all2 (\<lambda>gpios g. g \<in> set gpios) c v"
  using assms bond_choice_mem [OF assms(1)]
  by (auto simp: list_all2_conv_all_nth bond_choice_def)

text \<open>The lines of a gathered list under a bond choice.\<close>

definition lines_of :: "(select_role \<times> nat list) list \<Rightarrow> nat list \<Rightarrow> select_line list" where
  "lines_of sel gs = map (\<lambda>(role, gpio). \<lparr>sl_role = role, sl_gpio = gpio\<rparr>) (zip (map fst sel) gs)"

definition gathered :: "('a \<Rightarrow> select_line \<Rightarrow> bool) \<Rightarrow> 'a \<Rightarrow> select_role \<times> nat list \<Rightarrow> bool" where
  "gathered W a s \<longleftrightarrow> snd s \<noteq> [] \<and> (\<forall>g \<in> set (snd s). W a \<lparr>sl_role = fst s, sl_gpio = g\<rparr>)"

lemma gathered_nonempty:
  "list_all2 (gathered W) as sel \<Longrightarrow> \<forall>gpios \<in> set (map snd sel). gpios \<noteq> []"
  by (fastforce simp: list_all2_conv_all_nth in_set_conv_nth gathered_def)

lemma lines_of_wired:
  assumes "list_all2 (gathered W) as sel"
    and "list_all2 (\<lambda>gpios g. g \<in> set gpios) (map snd sel) gs"
  shows "list_all2 W as (lines_of sel gs)"
  using assms by (auto simp: list_all2_conv_all_nth lines_of_def gathered_def)

lemma gpios_for_pin_not_Nil [simp]: "gpios_for_pin ctx ct pin \<noteq> Inr []"
  by (simp add: gpios_for_pin_def Let_def)

lemma gathered_pins:
  assumes "map_r (\<lambda>(role, pin). bind_r (gpios_for_pin ctx ct pin) (\<lambda>gpios. Inr (role, gpios))) pins = Inr sel"
  shows "list_all2 (gathered (wired_select ctx)) pins sel"
  using assms gpios_for_pin_Inr unfolding map_r_Inr_iff
  by (elim list_all2_mono) (auto simp: bind_r_Inr_iff gathered_def wired_select_def)

lemma gathered_kind:
  assumes "kind_candidates ctx ct kind = Inr s"
  shows "gathered (wired_kind ctx ct) kind s"
  using assms control_line_candidates_Inr
  by (auto simp: kind_candidates_def bind_r_Inr_iff gathered_def)

lemma gathered_x:
  assumes "map_r (\<lambda>(role, x). bind_r (x_pin_candidates ctx x) (\<lambda>gpios. Inr (role, gpios))) xs = Inr sel"
  shows "list_all2 (gathered (wired_x ctx)) xs sel"
  using assms unfolding map_r_Inr_iff
  by (elim list_all2_mono)
    (auto simp: bind_r_Inr_iff gathered_def wired_x_def x_pin_candidates_def Let_def split: if_splits)

lemma gather_single_Inr:
  assumes "gather_single ctx ct = Inr g"
  obtains pins where "select_phys_pins (sc_board ctx) ct (sc_cs_config ctx) = Inr pins"
    "list_all2 (gathered (wired_select ctx)) pins (sg_select g)" "sg_commoned g = []"
  using assms gathered_pins by (fastforce simp: gather_single_def bind_r_Inr_iff)

lemma gather_multi_Inr:
  assumes "gather_multi ctx ct mcc = Inr g"
  obtains s xs where "sg_select g = s # xs" "gathered (wired_kind ctx ct) (per_chip_select mcc) s"
    "list_all2 (gathered (wired_x ctx)) (x_lines ctx) xs"
    "list_all2 (gathered (wired_kind ctx ct)) (commoned_lines mcc) (sg_commoned g)"
proof -
  obtain s xs com where g: "kind_candidates ctx ct (per_chip_select mcc) = Inr s"
    "map_r (\<lambda>(role, x). bind_r (x_pin_candidates ctx x) (\<lambda>gpios. Inr (role, gpios))) (x_lines ctx) = Inr xs"
    "map_r (kind_candidates ctx ct) (commoned_lines mcc) = Inr com"
    "sg_select g = s # xs" "sg_commoned g = com"
    using assms by (auto simp: gather_multi_def bind_r_Inr_iff)
  have "list_all2 (gathered (wired_kind ctx ct)) (commoned_lines mcc) com"
    using g(3) gathered_kind unfolding map_r_Inr_iff by (elim list_all2_mono) blast
  then show thesis
    using that [OF g(4) gathered_kind [OF g(1)] gathered_x [OF g(2)]] g(5) by simp
qed

lemma choice_parts:
  assumes "bond_choice (cs_candidates q) v" "\<forall>gpios \<in> set (cs_candidates q). gpios \<noteq> []"
  defines "mem \<equiv> \<lambda>gpios g. g \<in> set gpios"
  shows "list_all2 mem (cq_data q) (data_resolved q v)"
    "list_all2 mem (map snd (sg_select (cq_gather q))) (select_resolved q v)"
    "list_all2 mem (map snd (sg_commoned (cq_gather q))) (commoned_resolved q v)"
proof -
  have "list_all2 mem (cs_candidates q) v" unfolding mem_def by (rule bond_choice_wired [OF assms(1,2)])
  then obtain us vs ws where "v = us @ vs @ ws" "length us = length (cq_data q)"
    "length vs = length (sg_select (cq_gather q))" "list_all2 mem (cq_data q) us"
    "list_all2 mem (map snd (sg_select (cq_gather q))) vs"
    "list_all2 mem (map snd (sg_commoned (cq_gather q))) ws"
    by (auto simp: cs_candidates_def list_all2_append1)
  then show "list_all2 mem (cq_data q) (data_resolved q v)"
    "list_all2 mem (map snd (sg_select (cq_gather q))) (select_resolved q v)"
    "list_all2 mem (map snd (sg_commoned (cq_gather q))) (commoned_resolved q v)"
    by (simp_all add: data_resolved_def select_resolved_def commoned_resolved_def)
qed

definition half_select_lines :: "addr_layout option \<Rightarrow> select_line list" where
  "half_select_lines al =
     map (\<lambda>g. \<lparr>sl_role = RoleHalfSelect, sl_gpio = g\<rparr>)
       (case al of None \<Rightarrow> [] | Some a \<Rightarrow> al_excess_addr_pin_gpios a)"

lemma layout_parts:
  assumes "cs_search_of ctx ct al = Some (Inr q)" "try_cs_choice q v = Candidate l s"
  shows "cd_data_pin_gpios l = data_resolved q v"
    "cd_select_lines l = lines_of (sg_select (cq_gather q)) (select_resolved q v) @ half_select_lines al"
    "cd_commoned_lines l = lines_of (sg_commoned (cq_gather q)) (commoned_resolved q v)"
  using assms(2) cs_search_of_Inr(2) [OF assms(1)]
  by (auto simp: try_cs_choice_Candidate cs_layout_of_def Let_def lines_of_def half_select_lines_def)

lemma data_wired:
  assumes "map_r (gpios_for_pin ctx ct) pins = Inr cands"
  shows "\<forall>gpios \<in> set cands. gpios \<noteq> []"
    "list_all2 (\<lambda>gpios g. g \<in> set gpios) cands gs \<Longrightarrow> list_all2 (wired_pin ctx) pins gs"
proof -
  have all: "list_all2 (\<lambda>pin gpios. gpios_for_pin ctx ct pin = Inr gpios) pins cands"
    using assms by (simp add: map_r_Inr_iff)
  then show "\<forall>gpios \<in> set cands. gpios \<noteq> []"
    using gpios_for_pin_Inr by (fastforce simp: list_all2_conv_all_nth in_set_conv_nth)
  show "list_all2 (\<lambda>gpios g. g \<in> set gpios) cands gs \<Longrightarrow> list_all2 (wired_pin ctx) pins gs"
    using all gpios_for_pin_Inr by (fastforce simp: list_all2_conv_all_nth)
qed

lemma gather_select_wired:
  assumes "gather_select ctx ct = Some (Inr g)"
  shows "(\<forall>gpios \<in> set (map snd (sg_select g) @ map snd (sg_commoned g)). gpios \<noteq> []) \<and>
    (if sc_set_type ctx = Set_Multi
     then \<exists>mcc s xs. sc_multi_cs_config ctx = Some mcc \<and> sg_select g = s # xs \<and>
       gathered (wired_kind ctx ct) (per_chip_select mcc) s \<and>
       list_all2 (gathered (wired_x ctx)) (x_lines ctx) xs \<and>
       list_all2 (gathered (wired_kind ctx ct)) (commoned_lines mcc) (sg_commoned g)
     else \<exists>pins. select_phys_pins (sc_board ctx) ct (sc_cs_config ctx) = Inr pins \<and>
       list_all2 (gathered (wired_select ctx)) pins (sg_select g) \<and> sg_commoned g = [])"
proof (cases "sc_set_type ctx = Set_Multi")
  case True
  then obtain mcc where mcc: "sc_multi_cs_config ctx = Some mcc" "gather_multi ctx ct mcc = Inr g"
    using assms by (auto simp: gather_select_def)
  obtain s xs where g: "sg_select g = s # xs" "gathered (wired_kind ctx ct) (per_chip_select mcc) s"
    "list_all2 (gathered (wired_x ctx)) (x_lines ctx) xs"
    "list_all2 (gathered (wired_kind ctx ct)) (commoned_lines mcc) (sg_commoned g)"
    by (rule gather_multi_Inr [OF mcc(2)])
  then have "\<forall>gpios \<in> set (map snd (sg_select g) @ map snd (sg_commoned g)). gpios \<noteq> []"
    using gathered_nonempty [OF g(3)] gathered_nonempty [OF g(4)] by (auto simp: gathered_def)
  then show ?thesis using g True mcc(1) by auto
next
  case False
  then have "gather_single ctx ct = Inr g" using assms by (auto simp: gather_select_def)
  then obtain pins where "select_phys_pins (sc_board ctx) ct (sc_cs_config ctx) = Inr pins"
    "list_all2 (gathered (wired_select ctx)) pins (sg_select g)" "sg_commoned g = []"
    by (rule gather_single_Inr)
  then show ?thesis using gathered_nonempty False by auto
qed

lemma derived_lines_wired:
  assumes "derive_cs_data_layout ctx al = Some (Inr l)"
  defines "ct \<equiv> hd (sc_chip_types ctx)"
  shows "list_all2 (wired_pin ctx) (ct_data_pins ct) (cd_data_pin_gpios l) \<and>
    (\<exists>sel. cd_select_lines l = sel @ half_select_lines al \<and>
      (if sc_set_type ctx = Set_Multi
       then \<exists>mcc line xs. sc_multi_cs_config ctx = Some mcc \<and> sel = line # xs \<and>
         wired_kind ctx ct (per_chip_select mcc) line \<and> list_all2 (wired_x ctx) (x_lines ctx) xs \<and>
         list_all2 (wired_kind ctx ct) (commoned_lines mcc) (cd_commoned_lines l)
       else \<exists>pins. select_phys_pins (sc_board ctx) ct (sc_cs_config ctx) = Inr pins \<and>
         list_all2 (wired_select ctx) pins sel \<and> cd_commoned_lines l = []))"
proof -
  obtain q where q: "cs_search_of ctx ct al = Some (Inr q)" "search_cs_data ctx ct q = Some (Inr l)"
    by (rule derive_cs_data_layout_Inr [OF assms(1)]) (simp add: ct_def)
  obtain v s where v: "bond_choice (cs_candidates q) v" "try_cs_choice q v = Candidate l s"
    by (rule search_cs_data_Inr [OF q(2)])
  note data = data_wired [OF cs_search_of_Inr(3) [OF q(1)]]
  note sel = gather_select_wired [OF cs_search_of_Inr(4) [OF q(1)]]
  have nonempty: "\<forall>gpios \<in> set (cs_candidates q). gpios \<noteq> []"
    using data(1) sel by (auto simp: cs_candidates_def)
  note parts = choice_parts [OF v(1) nonempty]
  let ?sel = "lines_of (sg_select (cq_gather q)) (select_resolved q v)"
  have d: "list_all2 (wired_pin ctx) (ct_data_pins ct) (cd_data_pin_gpios l)"
    unfolding layout_parts(1) [OF q(1) v(2)] by (rule data(2) [OF parts(1)])
  note wired = lines_of_wired [OF _ parts(2)] and commoned = lines_of_wired [OF _ parts(3)]
  have "if sc_set_type ctx = Set_Multi
     then \<exists>mcc line xs. sc_multi_cs_config ctx = Some mcc \<and> ?sel = line # xs \<and>
       wired_kind ctx ct (per_chip_select mcc) line \<and> list_all2 (wired_x ctx) (x_lines ctx) xs \<and>
       list_all2 (wired_kind ctx ct) (commoned_lines mcc) (cd_commoned_lines l)
     else \<exists>pins. select_phys_pins (sc_board ctx) ct (sc_cs_config ctx) = Inr pins \<and>
       list_all2 (wired_select ctx) pins ?sel \<and> cd_commoned_lines l = []"
  proof (cases "sc_set_type ctx = Set_Multi")
    case True
    then obtain mcc s xs where m: "sc_multi_cs_config ctx = Some mcc"
      "sg_select (cq_gather q) = s # xs" "gathered (wired_kind ctx ct) (per_chip_select mcc) s"
      "list_all2 (gathered (wired_x ctx)) (x_lines ctx) xs"
      "list_all2 (gathered (wired_kind ctx ct)) (commoned_lines mcc) (sg_commoned (cq_gather q))"
      using sel by auto
    obtain g gs where gs: "select_resolved q v = g # gs" "g \<in> set (snd s)"
      "list_all2 (\<lambda>gpios g. g \<in> set gpios) (map snd xs) gs"
      using parts(2) m(2) by (auto simp: list_all2_Cons1)
    have "?sel = \<lparr>sl_role = fst s, sl_gpio = g\<rparr> # lines_of xs gs"
      by (simp add: m(2) gs(1) lines_of_def)
    then show ?thesis
      using True m gs lines_of_wired [OF m(4) gs(3)] commoned [OF m(5)]
      by (auto simp: gathered_def layout_parts(3) [OF q(1) v(2)])
  next
    case False
    then show ?thesis
      using sel wired by (auto simp: layout_parts(3) [OF q(1) v(2)] lines_of_def)
  qed
  then show ?thesis using d layout_parts(2) [OF q(1) v(2)] by blast
qed

text \<open>
  Every line of the layout is wired as the layout says. The data GPIOs are, in order, GPIOs
  of the chip's data pins. In a single or banked set the select lines are the control lines
  the configuration makes active, in order, each on a GPIO of its pin, and there is no commoned
  line; in a multi set they are the per-chip select and the X pins the set's size calls for,
  and the commoned lines are the configured ones. The excess address lines, as half selects,
  come last.
\<close>

theorem cs_lines_wired:
  assumes "derive_cs_data_layout ctx al = Some (Inr l)"
  defines "ct \<equiv> hd (sc_chip_types ctx)"
  shows "list_all2 (wired_pin ctx) (ct_data_pins ct) (cd_data_pin_gpios l) \<and>
    (\<exists>sel. cd_select_lines l = sel @ half_select_lines al \<and>
      (if sc_set_type ctx = Set_Multi
       then \<exists>mcc line xs. sc_multi_cs_config ctx = Some mcc \<and> sel = line # xs \<and>
         wired_kind ctx ct (per_chip_select mcc) line \<and> list_all2 (wired_x ctx) (x_lines ctx) xs \<and>
         list_all2 (wired_kind ctx ct) (commoned_lines mcc) (cd_commoned_lines l)
       else \<exists>pins. select_phys_pins (sc_board ctx) ct (sc_cs_config ctx) = Inr pins \<and>
         list_all2 (wired_select ctx) pins sel \<and> cd_commoned_lines l = []))"
  using derived_lines_wired [OF assms(1)] by (simp only: ct_def)

text \<open>Whether a combination panics does not depend on the bonds.\<close>

lemma try_cs_choice_Panicked:
  assumes "bond_choice (cs_candidates q) v"
  shows "try_cs_choice q v = Panicked \<Longrightarrow>
    cq_data q = [] \<or> sg_select (cq_gather q) = [] \<and> cq_excess q = [] \<and> sg_commoned (cq_gather q) = [] \<or>
    cq_qual q = Some []"
  using resolved_lengths [OF assms]
  by (auto simp: try_cs_choice_def select_gpios_def Let_def split: if_splits option.splits)

lemma Candidate_no_panic:
  assumes "bond_choice (cs_candidates q) v" "try_cs_choice q v = Candidate l s"
  shows "Panicked \<notin> set (cs_outcomes q)"
proof
  assume "Panicked \<in> set (cs_outcomes q)"
  then obtain combo where "try_cs_choice q (resolve_combo (cs_candidates q) combo) = Panicked"
    unfolding cs_outcomes_def set_map by (metis imageE)
  from try_cs_choice_Panicked [OF resolve_combo_choice this] show False
    using assms(2) resolved_lengths [OF assms(1)]
    by (auto simp: try_cs_choice_Candidate select_gpios_def)
qed

lemma Candidate_rank:
  assumes "try_cs_choice q v = Candidate l s"
  shows "s = (pref_rank (cs_alg_preference_of (cd_cs_ignore_index l) (cd_alg_cs2 l)),
    span_of (window_gpios q v))"
  using assms by (auto simp: try_cs_choice_Candidate cs_score_def cs_layout_of_def Let_def
      cs_alg_preference_of_def)

text \<open>
  C30: the search finds a layout whenever some choice of bonds gives one, and none better
  exists: no choice gives a layout for a preferred CS algorithm, and at equal preference none
  keeps its GPIOs closer together.
\<close>

theorem cs_layout_best:
  assumes "sc_chip_types ctx = ct # rest" "cs_search_of ctx ct al = Some (Inr q)"
    and "bond_choice (cs_candidates q) v" "length (two_option_slots (cs_candidates q)) < 32"
    and "try_cs_choice q v = Candidate l' s'"
  defines "rank \<equiv> \<lambda>l. pref_rank (cs_alg_preference_of (cd_cs_ignore_index l) (cd_alg_cs2 l))"
  shows "\<exists>l w s. derive_cs_data_layout ctx al = Some (Inr l) \<and> bond_choice (cs_candidates q) w \<and>
    try_cs_choice q w = Candidate l s \<and> rank l \<le> rank l' \<and>
    (rank l = rank l' \<longrightarrow> span_of (window_gpios q w) \<le> span_of (window_gpios q v))"
proof -
  obtain combo where combo: "combo < num_combos (cs_candidates q)"
    "resolve_combo (cs_candidates q) combo = v"
    using resolve_combo_exists [OF assms(3,4)] by blast
  then obtain l s where best: "cl_best (cs_loop_end q) = Some (l, s)"
    using cl_best_cases [of q] assms(5) by (cases "cl_best (cs_loop_end q)") auto
  then obtain c where c: "try_cs_choice q (resolve_combo (cs_candidates q) c) = Candidate l s"
    "\<not> score_less s' s"
  proof -
    have "\<exists>combo<num_combos (cs_candidates q).
        try_cs_choice q (resolve_combo (cs_candidates q) combo) = Candidate l s"
      "\<forall>combo<num_combos (cs_candidates q). \<forall>l' s'.
        try_cs_choice q (resolve_combo (cs_candidates q) combo) = Candidate l' s' \<longrightarrow>
        \<not> score_less s' s"
      using cl_best_cases [of q] by (simp_all add: best)
    then show thesis using that combo assms(5) by blast
  qed
  have "search_cs_data ctx ct q = Some (Inr l)"
    using Candidate_no_panic [OF assms(3,5)] best by (simp add: search_cs_data_def)
  then have "derive_cs_data_layout ctx al = Some (Inr l)"
    using assms(1,2) by (simp add: derive_cs_data_layout_def)
  then show ?thesis
    using c resolve_combo_choice [of "cs_candidates q" c]
      Candidate_rank [OF c(1)] Candidate_rank [OF assms(5)]
    unfolding rank_def by (intro exI [of _ l] exI [of _ "resolve_combo (cs_candidates q) c"]) auto
qed

text \<open>The error of an ignored line inside the select span.\<close>

definition is_interior_ignored :: "layout_error \<Rightarrow> bool" where
  "is_interior_ignored e \<longleftrightarrow> (\<exists>b ct g. e = InteriorIgnoredLine b ct g)"

lemma gpios_for_pin_not_interior:
  "gpios_for_pin ctx ct pin = Inl e \<Longrightarrow> \<not> is_interior_ignored e"
  by (auto simp: gpios_for_pin_def is_interior_ignored_def Let_def split: if_splits)

lemma map_r_Inl: "map_r f xs = Inl e \<Longrightarrow> \<exists>x \<in> set xs. f x = Inl e"
  by (induction xs) (auto simp: bind_r_Inl_iff)

lemma control_line_candidates_not_interior:
  "control_line_candidates ctx ct kind = Inl e \<Longrightarrow> \<not> is_interior_ignored e"
  by (auto simp: control_line_candidates_def bind_r_Inl_iff is_interior_ignored_def
      dest: gpios_for_pin_not_interior)

lemma gather_select_not_interior:
  assumes "gather_select ctx ct = Some (Inl e)"
  shows "\<not> is_interior_ignored e"
proof -
  have "\<not> is_interior_ignored e" if "gather_single ctx ct = Inl e"
  proof -
    have "\<not> is_interior_ignored e" if "select_phys_pins (sc_board ctx) ct (sc_cs_config ctx) = Inl e"
      using that by (auto simp: select_phys_pins_def is_interior_ignored_def Let_def split: if_splits)
    then show ?thesis
      using that
      by (auto simp: gather_single_def bind_r_Inl_iff dest!: map_r_Inl dest: gpios_for_pin_not_interior)
  qed
  moreover have "\<not> is_interior_ignored e" if "gather_multi ctx ct mcc = Inl e" for mcc
  proof -
    have "\<not> is_interior_ignored e" if "x_pin_candidates ctx x = Inl e" for x
      using that by (auto simp: x_pin_candidates_def is_interior_ignored_def Let_def split: if_splits)
    then show ?thesis
      using that
      by (auto simp: gather_multi_def kind_candidates_def bind_r_Inl_iff dest!: map_r_Inl
          dest: control_line_candidates_not_interior)
  qed
  ultimately show ?thesis using assms by (auto simp: gather_select_def split: if_splits)
qed

lemma cs_search_of_not_interior:
  "cs_search_of ctx ct al = Some (Inl e) \<Longrightarrow> \<not> is_interior_ignored e"
  by (auto simp: cs_search_of_def cs_prechecks_def bind_r_Inl_iff is_interior_ignored_def
      split: option.splits sum.splits if_splits dest!: map_r_Inl
      dest: gpios_for_pin_not_interior gather_select_not_interior)

lemma cl_interior_step:
  "cl_interior_ignored (cs_loop_step out st) = Some g \<Longrightarrow>
    cl_interior_ignored st = Some g \<or> (\<exists>gs. out = NonContiguous gs (Some g))"
  by (cases out) (auto simp: cs_loop_step_def split: option.splits)

lemma cl_interior_fold:
  "cl_interior_ignored (fold cs_loop_step outs st) = Some g \<Longrightarrow>
    cl_interior_ignored st = Some g \<or> (\<exists>gs. NonContiguous gs (Some g) \<in> set outs)"
proof (induction outs arbitrary: st)
  case (Cons out outs)
  then show ?case using cl_interior_step [of out st g] by fastforce
qed simp

lemma gather_single_ignored: "gather_single ctx ct = Inr g \<Longrightarrow> sg_ignored g = []"
  by (auto simp: gather_single_def bind_r_Inr_iff)

lemma gather_multi_ignored:
  assumes "gather_multi ctx ct mcc = Inr g"
  shows "\<exists>ignored. map_r (control_line_candidates ctx ct) (ignored_lines mcc) = Inr ignored \<and>
    sg_ignored g = concat ignored"
  using assms unfolding gather_multi_def bind_r_Inr_iff by (elim exE conjE) auto

lemma interior_ignored_found:
  assumes "search_cs_data ctx ct q = Some (Inl (InteriorIgnoredLine b ct' g))"
  shows "b = sc_board ctx \<and> ct' = ct \<and> cl_best (cs_loop_end q) = None \<and>
    (\<exists>w gs. bond_choice (cs_candidates q) w \<and> try_cs_choice q w = NonContiguous gs (Some g))"
proof -
  have i: "cl_interior_ignored (cs_loop_end q) = Some g" "b = sc_board ctx" "ct' = ct"
    "cl_best (cs_loop_end q) = None"
    using assms by (auto simp: search_cs_data_def split: if_splits option.splits)
  obtain gs where "NonContiguous gs (Some g) \<in> set (cs_outcomes q)"
    using i(1) cl_interior_fold unfolding cs_loop_end_def by fastforce
  then obtain combo where
    "try_cs_choice q (resolve_combo (cs_candidates q) combo) = NonContiguous gs (Some g)"
    unfolding cs_outcomes_def set_map by (metis imageE)
  then show ?thesis using i resolve_combo_choice [of "cs_candidates q" combo] by blast
qed

lemma find_Some_mem: "List.find P xs = Some x \<Longrightarrow> P x \<and> x \<in> set xs"
  by (induction xs) (auto split: if_splits)

lemma NonContiguous_gap:
  assumes "try_cs_choice q v = NonContiguous gs (Some g)"
  shows "Min (set (select_gpios q v)) < g \<and> g < Max (set (select_gpios q v)) \<and>
    g \<notin> set (select_gpios q v) \<and> g \<in> set (sg_ignored (cq_gather q))"
proof -
  let ?gs = "select_gpios q v"
  have n: "?gs \<noteq> []" and g: "ignored_gap ?gs (sg_ignored (cq_gather q)) = Some g"
    using assms by (auto simp: try_cs_choice_def Let_def split: if_splits option.splits)
  from g have "Min (set ?gs) \<le> g" "g < Suc (Max (set ?gs))" "g \<notin> set ?gs"
    "g \<in> set (sg_ignored (cq_gather q))"
    using find_Some_mem [OF g [unfolded ignored_gap_def]] by auto
  moreover have "Min (set ?gs) \<in> set ?gs" "Max (set ?gs) \<in> set ?gs" using n by simp_all
  ultimately show ?thesis by (metis less_Suc_eq_le nless_le)
qed

text \<open>
  The error for an interior ignored line means what it says. The derivation reports it only
  for a multi set none of whose bond choices gives a layout, and then the GPIO it names is wired
  to one of the control lines the set ignores, and under some choice of bonds lies strictly
  between the set's select GPIOs without being one of them.
\<close>

theorem interior_ignored_line:
  assumes "derive_cs_data_layout ctx al = Some (Inl (InteriorIgnoredLine b ct g))"
  shows "sc_set_type ctx = Set_Multi \<and> b = sc_board ctx \<and>
    (\<exists>mcc kind spec q v. sc_multi_cs_config ctx = Some mcc \<and> kind \<in> set (ignored_lines mcc) \<and>
      List.find (\<lambda>l. cl_name l = kind_name kind) (ct_control_lines ct) = Some spec \<and>
      wired_pin ctx (cl_pin spec) g \<and> cs_search_of ctx ct al = Some (Inr q) \<and>
      bond_choice (cs_candidates q) v \<and> g \<notin> set (select_gpios q v) \<and>
      Min (set (select_gpios q v)) < g \<and> g < Max (set (select_gpios q v)) \<and>
      (\<forall>combo<num_combos (cs_candidates q).
        outcome_candidate (try_cs_choice q (resolve_combo (cs_candidates q) combo)) = None))"
proof -
  obtain ct0 rest where c: "sc_chip_types ctx = ct0 # rest"
    using assms by (auto simp: derive_cs_data_layout_def split: list.splits)
  have "\<not> is_interior_ignored e" if "cs_search_of ctx ct0 al = Some (Inl e)" for e
    by (rule cs_search_of_not_interior [OF that])
  then obtain q where q: "cs_search_of ctx ct0 al = Some (Inr q)"
    "search_cs_data ctx ct0 q = Some (Inl (InteriorIgnoredLine b ct g))"
    using assms c
    by (auto simp: derive_cs_data_layout_def is_interior_ignored_def split: option.splits sum.splits)
  obtain v gs where v: "b = sc_board ctx" "ct = ct0" "cl_best (cs_loop_end q) = None"
    "bond_choice (cs_candidates q) v" "try_cs_choice q v = NonContiguous gs (Some g)"
    using interior_ignored_found [OF q(2)] by blast
  note gap = NonContiguous_gap [OF v(5)]
  obtain mcc where mcc: "sc_set_type ctx = Set_Multi" "sc_multi_cs_config ctx = Some mcc"
    "gather_multi ctx ct mcc = Inr (cq_gather q)"
    using cs_search_of_Inr(4) [OF q(1)] gap v(2) gather_single_ignored
    by (auto simp: gather_select_def split: if_splits)
  then obtain ignored where "map_r (control_line_candidates ctx ct) (ignored_lines mcc) = Inr ignored"
    "sg_ignored (cq_gather q) = concat ignored"
    using gather_multi_ignored by blast
  then obtain kind gpios where k: "kind \<in> set (ignored_lines mcc)"
    "control_line_candidates ctx ct kind = Inr gpios" "g \<in> set gpios"
    using gap by (fastforce simp: map_r_Inr_iff list_all2_conv_all_nth in_set_conv_nth)
  then obtain spec where
    "List.find (\<lambda>l. cl_name l = kind_name kind) (ct_control_lines ct) = Some spec"
    "wired_pin ctx (cl_pin spec) g"
    using control_line_candidates_Inr [OF k(2)] by (auto simp: wired_kind_def)
  then show ?thesis
    using mcc(1,2) k(1) q(1) v gap cl_best_cases [of q] by auto
qed

section \<open>Witnesses\<close>

text \<open>
  Two multi pairs of the 23128-like chip on Fire 28 D. In the first CS1 is the per-chip select
  and CS2 is commoned: X1 must be taken at GPIO 9. In the second CS3 selects and CS1 and CS2
  are ignored: with X1 at 9 they lie inside the span, with X1 at 28 the data lines do.
\<close>

definition multi_pair :: "multi_chip_cs_config \<Rightarrow> slot_context" where
  "multi_pair mcc = \<lparr>sc_board = fire_28_d, sc_set_type = Set_Multi,
     sc_chip_types = [three_cs_chip, three_cs_chip],
     sc_cs_config = ChipSelect ActiveLow (Some ActiveHigh) (Some CsIgnore) None,
     sc_bit_mode = BitMode8, sc_pin_offset = 0, sc_force_16_bit = False,
     sc_multi_cs_config = Some mcc\<rparr>"

definition cs1_select :: multi_chip_cs_config where
  "cs1_select = \<lparr>per_chip_select = KindCs1, commoned_lines = [KindCs2], ignored_lines = [KindCs3]\<rparr>"

definition cs3_select :: multi_chip_cs_config where
  "cs3_select = \<lparr>per_chip_select = KindCs3, commoned_lines = [], ignored_lines = [KindCs1, KindCs2]\<rparr>"

definition pair_search :: "select_gather \<Rightarrow> cs_search" where
  "pair_search g = \<lparr>cq_set_type = Set_Multi, cq_data = [[0], [1], [2], [3], [4], [5], [6], [7]],
     cq_gather = g, cq_excess = [], cq_qual = None\<rparr>"

lemmas cs_search_defs =
  cs_search_of_def cs_prechecks_def qualifier_gpios_def gpios_for_pin_def gather_select_def
  gather_multi_def kind_candidates_def control_line_candidates_def x_pin_candidates_def x_lines_def
  socket_pin_of_def overhangs_def gpios_for_socket_pin_def gpios_for_x_pin_def

definition cs1_gather :: select_gather where
  "cs1_gather = \<lparr>sg_select = [(RoleCs1, [10]), (RoleX1, [9, 28])], sg_commoned = [(RoleCs2, [11])],
     sg_ignored = [12]\<rparr>"

definition cs3_gather :: select_gather where
  "cs3_gather = \<lparr>sg_select = [(RoleCs3, [12]), (RoleX1, [9, 28])], sg_commoned = [],
     sg_ignored = [10, 11]\<rparr>"

lemma cs1_pair_search:
  "cs_search_of (multi_pair cs1_select) three_cs_chip None = Some (Inr (pair_search cs1_gather))"
  by (simp add: cs_search_defs multi_pair_def cs1_select_def fire_28_d_def three_cs_chip_def
      pair_search_def cs1_gather_def)

lemma cs3_pair_search:
  "cs_search_of (multi_pair cs3_select) three_cs_chip None = Some (Inr (pair_search cs3_gather))"
  by (simp add: cs_search_defs multi_pair_def cs3_select_def fire_28_d_def three_cs_chip_def
      pair_search_def cs3_gather_def)

lemma upt_10: "[0..<10] = [0, 1, 2, 3, 4, 5, 6, 7, 8, 9]"
  by (simp add: upt_conv_Cons)

lemma upt_11: "[0..<11] = [0, 1, 2, 3, 4, 5, 6, 7, 8, 9, 10]"
  by (simp add: upt_conv_Cons)

lemma cs1_slots: "two_option_slots (cs_candidates (pair_search cs1_gather)) = [9]"
  by (simp add: two_option_slots_def cs_candidates_def pair_search_def cs1_gather_def upt_11)

lemma cs1_choices:
  "resolve_combo (cs_candidates (pair_search cs1_gather)) combo =
    [0, 1, 2, 3, 4, 5, 6, 7, 10, if odd combo then 28 else 9, 11]"
  by (simp add: resolve_combo_def cs1_slots position_def)
    (simp add: cs_candidates_def pair_search_def cs1_gather_def upt_11 bit_0)

lemma cs3_slots: "two_option_slots (cs_candidates (pair_search cs3_gather)) = [9]"
  by (simp add: two_option_slots_def cs_candidates_def pair_search_def cs3_gather_def upt_10)

lemma cs3_choices:
  "resolve_combo (cs_candidates (pair_search cs3_gather)) combo =
    [0, 1, 2, 3, 4, 5, 6, 7, 12, if odd combo then 28 else 9]"
  by (simp add: resolve_combo_def cs3_slots position_def)
    (simp add: cs_candidates_def pair_search_def cs3_gather_def upt_10 bit_0)

lemmas cs_choice_defs =
  try_cs_choice_def data_resolved_def select_gpios_def select_resolved_def commoned_resolved_def
  span_of_def ignore_index_of_def window_gpios_def pio_base_for_def cs_layout_of_def cs_score_def
  ignored_gap_def fits_pio_window_iff cs_alg_preference_of_def

definition cs1_layout :: cs_data_layout where
  "cs1_layout = \<lparr>cd_gpio_base = 0, cd_base_data_pin = 0, cd_num_data_pins = 8,
     cd_data_pin_gpios = [0, 1, 2, 3, 4, 5, 6, 7], cd_base_cs_pin = 9, cd_num_cs_pins = 3,
     cd_cs_ignore_index = None,
     cd_select_lines = [\<lparr>sl_role = RoleCs1, sl_gpio = 10\<rparr>, \<lparr>sl_role = RoleX1, sl_gpio = 9\<rparr>],
     cd_commoned_lines = [\<lparr>sl_role = RoleCs2, sl_gpio = 11\<rparr>], cd_alg_cs2 = None\<rparr>"

lemma cs1_choice_9:
  "try_cs_choice (pair_search cs1_gather) [0, 1, 2, 3, 4, 5, 6, 7, 10, 9, 11] =
    Candidate cs1_layout (0, 12)"
  by (simp add: cs_choice_defs pair_search_def cs1_gather_def cs1_layout_def)

lemma cs1_choice_28:
  "outcome_candidate (try_cs_choice (pair_search cs1_gather) [0, 1, 2, 3, 4, 5, 6, 7, 10, 28, 11]) = None"
  by (simp add: cs_choice_defs pair_search_def cs1_gather_def)

lemma cs1_choice: "bond_choice (cs_candidates (pair_search cs1_gather)) [0, 1, 2, 3, 4, 5, 6, 7, 10, 9, 11]"
  using resolve_combo_choice [of "cs_candidates (pair_search cs1_gather)" 0]
  unfolding cs1_choices by (simp del: One_nat_def)

lemma cs1_derived: "derive_cs_data_layout (multi_pair cs1_select) None = Some (Inr cs1_layout)"
proof -
  have "[0..<num_combos (cs_candidates (pair_search cs1_gather))] = [0, 1]"
    by (simp add: num_combos_def cs1_slots upt_conv_Cons)
  then have "cl_best (cs_loop_end (pair_search cs1_gather)) = Some (cs1_layout, (0, 12))"
    by (simp add: cl_best_loop_end cs1_choices cs1_choice_9 cs1_choice_28 keep_best_def del: One_nat_def)
  then have "search_cs_data (multi_pair cs1_select) three_cs_chip (pair_search cs1_gather) =
      Some (Inr cs1_layout)"
    using Candidate_no_panic [OF cs1_choice cs1_choice_9] by (simp add: search_cs_data_def)
  then show ?thesis
    by (simp add: derive_cs_data_layout_def multi_pair_def [of cs1_select, THEN arg_cong, of sc_chip_types]
        cs1_pair_search)
qed

lemma cs3_choice_9:
  "try_cs_choice (pair_search cs3_gather) [0, 1, 2, 3, 4, 5, 6, 7, 12, 9] = NonContiguous [9, 12] (Some 10)"
  by (simp add: cs_choice_defs pair_search_def cs3_gather_def upt_conv_Cons)

lemma cs3_choice_28:
  "try_cs_choice (pair_search cs3_gather) [0, 1, 2, 3, 4, 5, 6, 7, 12, 28] = NonContiguous [12, 28] None"
  by (simp add: cs_choice_defs pair_search_def cs3_gather_def upt_conv_Cons)

lemma cs3_derived:
  "derive_cs_data_layout (multi_pair cs3_select) None =
    Some (Inl (InteriorIgnoredLine fire_28_d three_cs_chip 10))"
proof -
  have "[0..<num_combos (cs_candidates (pair_search cs3_gather))] = [0, 1]"
    by (simp add: num_combos_def cs3_slots upt_conv_Cons)
  then have "cs_outcomes (pair_search cs3_gather) =
      [NonContiguous [9, 12] (Some 10), NonContiguous [12, 28] None]"
    by (simp add: cs_outcomes_def cs3_choices cs3_choice_9 cs3_choice_28 del: One_nat_def)
  then have "search_cs_data (multi_pair cs3_select) three_cs_chip (pair_search cs3_gather) =
      Some (Inl (InteriorIgnoredLine fire_28_d three_cs_chip 10))"
    by (simp add: search_cs_data_def cs_loop_end_def cs_loop_step_def multi_pair_def)
  then show ?thesis
    by (simp add: derive_cs_data_layout_def multi_pair_def [of cs3_select, THEN arg_cong, of sc_chip_types]
        cs3_pair_search)
qed

theorem cs_layout_contiguous_witness:
  "set (cd_data_pin_gpios cs1_layout) = {0..<8} \<and>
    sl_gpio ` set (cd_select_lines cs1_layout @ cd_commoned_lines cs1_layout) = {9..<12}"
proof -
  have c: "card (set (cd_data_pin_gpios cs1_layout)) = 8" by (simp add: cs1_layout_def)
  show ?thesis
    using cs_layout_contiguous [OF cs1_derived] unfolding c by (simp add: cs1_layout_def)
qed

theorem cs_lines_wired_witness:
  "list_all2 (wired_pin (multi_pair cs1_select)) [11, 12, 13, 15, 16, 17, 18, 19] [0, 1, 2, 3, 4, 5, 6, 7] \<and>
    list_all2 (wired_kind (multi_pair cs1_select) three_cs_chip) [KindCs2]
      [\<lparr>sl_role = RoleCs2, sl_gpio = 11\<rparr>]"
  using cs_lines_wired [OF cs1_derived]
  by (auto simp: cs1_layout_def multi_pair_def cs1_select_def three_cs_chip_def)

theorem cs_layout_best_witness:
  "\<exists>l w s. derive_cs_data_layout (multi_pair cs1_select) None = Some (Inr l) \<and>
    bond_choice (cs_candidates (pair_search cs1_gather)) w \<and>
    try_cs_choice (pair_search cs1_gather) w = Candidate l s \<and>
    pref_rank (cs_alg_preference_of (cd_cs_ignore_index l) (cd_alg_cs2 l)) \<le> 0"
proof -
  have c: "sc_chip_types (multi_pair cs1_select) = three_cs_chip # [three_cs_chip]"
    by (simp add: multi_pair_def)
  have "pref_rank (cs_alg_preference_of (cd_cs_ignore_index cs1_layout) (cd_alg_cs2 cs1_layout)) = 0"
    by (simp add: cs1_layout_def cs_alg_preference_of_def)
  then show ?thesis
    using cs_layout_best [OF c cs1_pair_search cs1_choice _ cs1_choice_9] by (auto simp: cs1_slots)
qed

theorem interior_ignored_line_witness:
  "\<exists>spec. List.find (\<lambda>l. cl_name l = ''cs1'') (ct_control_lines three_cs_chip) = Some spec \<and>
    wired_pin (multi_pair cs3_select) (cl_pin spec) 10 \<or>
   List.find (\<lambda>l. cl_name l = ''cs2'') (ct_control_lines three_cs_chip) = Some spec \<and>
    wired_pin (multi_pair cs3_select) (cl_pin spec) 10"
proof -
  have "sc_multi_cs_config (multi_pair cs3_select) = Some cs3_select" by (simp add: multi_pair_def)
  then show ?thesis
    using interior_ignored_line [OF cs3_derived] by (auto simp: cs3_select_def)
qed

end
