(* ===== verification/Transform.thy ===== *)
theory Transform
  imports Onerom_Text
begin

text \<open>
  Image transforms (\<open>rust/gen/src/transform.rs\<close>): the byte-level rearrangements applied to a
  supplied ROM image before its size is reconciled with the chip, their parameters'
  validation, and their text encoding. A \<open>usize\<close> parameter is a natural number; the places
  where it matters that it is at most \<open>usize_max\<close> say so.
\<close>

section \<open>Transforms and their errors\<close>

datatype size_handling = SH_None | SH_Duplicate | SH_Truncate | SH_Pad

definition DEFAULT_BYTES :: usize where
  "DEFAULT_BYTES = 1"

definition SWAP_BYTES_NAMES :: "ustr list" where
  "SWAP_BYTES_NAMES = [lit ''swap_bytes'', lit ''swap-bytes'', lit ''swapbytes'']"

definition DEINTERLEAVE_NAMES :: "ustr list" where
  "DEINTERLEAVE_NAMES =
     [lit ''deinterleave'', lit ''de_interleave'', lit ''de-interleave'', lit ''deint'']"

definition TRANSFORM_LIST_SEPARATOR :: nat where
  "TRANSFORM_LIST_SEPARATOR = of_char (CHR ''+'')"

record transformed =
  tr_data :: "u8 list"
  used_size_handling :: bool

datatype transform =
    SwapBytes
  | Deinterleave (dl_offset: usize) (dl_stride: usize) (dl_bytes: usize)

datatype transform_error =
    UnknownTransform ustr
  | UnexpectedParameters ustr
  | MissingParameters ustr
  | BadParameters ustr ustr
  | InvalidStride usize
  | InvalidOffset usize usize
  | InvalidBytes usize
  | GroupOverflow usize usize
  | OddLength usize
  | Ragged usize usize

definition supported_forms :: "ustr list" where
  "supported_forms = [lit ''swap_bytes'', lit ''deinterleave:<offset>/<stride>[/<bytes>]'']"

fun show_transform_error :: "transform_error \<Rightarrow> ustr" where
  "show_transform_error (UnknownTransform name) =
     lit ''unknown transform '' @ [39] @ name @ [39, 10] @ lit ''  Supported: '' @
     str_join (lit '', '') supported_forms"
| "show_transform_error (UnexpectedParameters name) =
     lit ''transform '' @ [39] @ name @ [39] @ lit '' does not take parameters''"
| "show_transform_error (MissingParameters name) =
     lit ''transform '' @ [39] @ name @ [39] @ lit '' requires parameters, e.g. '' @
     [39] @ lit ''deinterleave:1/2'' @ [39]"
| "show_transform_error (BadParameters params reason) =
     lit ''invalid transform parameters '' @ [39] @ params @ [39] @ lit '': '' @ reason"
| "show_transform_error (InvalidStride stride) =
     lit ''deinterleave stride must be at least 2, got '' @ show_dec stride"
| "show_transform_error (InvalidOffset offset stride) =
     lit ''deinterleave offset must be less than the stride, got offset '' @ show_dec offset @
     lit '' with stride '' @ show_dec stride"
| "show_transform_error (InvalidBytes bytes) =
     lit ''deinterleave lane width must be at least 1 byte, got '' @ show_dec bytes"
| "show_transform_error (GroupOverflow bytes stride) =
     lit ''deinterleave lane width '' @ show_dec bytes @ lit '' multiplied by stride '' @
     show_dec stride @ lit '' overflows''"
| "show_transform_error (OddLength len) =
     lit ''swap_bytes requires an even-length image, got '' @ show_dec len @
     lit '' bytes.'' @ [10] @ lit ''  Use size_handling pad or truncate to resolve the odd byte.''"
| "show_transform_error (Ragged len grp) =
     lit ''deinterleave requires the image length to be a multiple of '' @ show_dec grp @
     lit '' bytes (lane width x stride), got '' @ show_dec len @ lit '' bytes''"

fun validate :: "transform \<Rightarrow> (transform_error, unit) result" where
  "validate SwapBytes = Inr ()"
| "validate (Deinterleave offset stride bytes) =
     (if bytes = 0 then Inl (InvalidBytes bytes)
      else if stride < 2 then Inl (InvalidStride stride)
      else if stride \<le> offset then Inl (InvalidOffset offset stride)
      else bind_r (ok_or (checked_mul bytes stride) (GroupOverflow bytes stride))
             (\<lambda>_. Inr ()))"

section \<open>Applying a transform\<close>

text \<open>\<open>as_chunks::<2>().0\<close> with each pair reversed: a trailing odd byte is not in a chunk.\<close>

fun swap_pairs :: "u8 list \<Rightarrow> u8 list" where
  "swap_pairs (a # b # rest) = b # a # swap_pairs rest"
| "swap_pairs _ = []"

definition swap_bytes ::
  "u8 list \<Rightarrow> size_handling \<Rightarrow> u8 \<Rightarrow> (transform_error, u8 list \<times> bool) result" where
  "swap_bytes data size_handling blank_byte =
     (if length data mod 2 = 0 then Inr (swap_pairs data, False)
      else case size_handling of
        SH_Pad \<Rightarrow> Inr (swap_pairs (data @ [blank_byte]), True)
      | SH_Truncate \<Rightarrow> Inr (swap_pairs (take (length data - 1) data), True)
      | SH_None \<Rightarrow> Inl (OddLength (length data))
      | SH_Duplicate \<Rightarrow> Inl (OddLength (length data)))"

text \<open>
  The \<open>while\<close> loop of \<open>deinterleave\<close>. A zero \<open>grp\<close> would not advance; \<open>deinterleave\<close> only
  enters the loop with a grp that divides the data's length, so a zero grp means no data.
  \<open>deint_slice_in_range\<close> below shows the slice \<open>data[pos..pos + bytes]\<close> never panics.
\<close>

function deint_loop :: "u8 list \<Rightarrow> usize \<Rightarrow> usize \<Rightarrow> usize \<Rightarrow> u8 list" where
  "deint_loop data pos bytes grp =
     (if pos < length data \<and> 0 < grp
      then take bytes (drop pos data) @ deint_loop data (pos + grp) bytes grp
      else [])"
  by pat_completeness auto
termination
  by (relation "measure (\<lambda>(data, pos, bytes, grp). length data - pos)") auto

declare deint_loop.simps [simp del]

definition wrapping_umul :: "usize \<Rightarrow> usize \<Rightarrow> usize" where
  "wrapping_umul a b = (a * b) mod 2 ^ 64"

definition deinterleave ::
  "u8 list \<Rightarrow> usize \<Rightarrow> usize \<Rightarrow> usize \<Rightarrow> (transform_error, u8 list) result" where
  "deinterleave data offset stride bytes =
     (let grp = wrapping_umul bytes stride in
      if \<not> grp dvd length data then Inl (Ragged (length data) grp)
      else Inr (deint_loop data (wrapping_umul offset bytes) bytes grp))"

definition apply_transform ::
  "transform \<Rightarrow> u8 list \<Rightarrow> size_handling \<Rightarrow> u8 \<Rightarrow> (transform_error, transformed) result" where
  "apply_transform t data size_handling blank_byte =
     bind_r (validate t) (\<lambda>_.
       case t of
         SwapBytes \<Rightarrow>
           bind_r (swap_bytes data size_handling blank_byte) (\<lambda>(d, used).
             Inr \<lparr>tr_data = d, used_size_handling = used\<rparr>)
       | Deinterleave offset stride bytes \<Rightarrow>
           bind_r (deinterleave data offset stride bytes) (\<lambda>d.
             Inr \<lparr>tr_data = d, used_size_handling = False\<rparr>))"

fun apply_loop ::
  "transform list \<Rightarrow> transformed \<Rightarrow> size_handling \<Rightarrow> u8 \<Rightarrow>
     (transform_error, transformed) result" where
  "apply_loop [] current size_handling blank_byte = Inr current"
| "apply_loop (t # ts) current size_handling blank_byte =
     bind_r (apply_transform t (tr_data current) size_handling blank_byte) (\<lambda>next'.
       apply_loop ts
         \<lparr>tr_data = tr_data next',
          used_size_handling = (used_size_handling current \<or> used_size_handling next')\<rparr>
         size_handling blank_byte)"

definition apply_transforms ::
  "u8 list \<Rightarrow> transform list \<Rightarrow> size_handling \<Rightarrow> u8 \<Rightarrow> (transform_error, transformed) result" where
  "apply_transforms data transforms size_handling blank_byte =
     apply_loop transforms \<lparr>tr_data = data, used_size_handling = False\<rparr>
       size_handling blank_byte"

section \<open>Text encoding\<close>

definition parse_number ::
  "ustr \<Rightarrow> ustr \<Rightarrow> ustr \<Rightarrow> (transform_error, usize) result" where
  "parse_number params val what =
     ok_or (from_str_radix (str_trim val) 10)
       (BadParameters params
          (what @ lit '' '' @ [39] @ str_trim val @ [39] @ lit '' is not a number''))"

text \<open>
  The \<open>split('/')\<close> iterator is read at most four times, so only its first four pieces matter:
  the first (always there), the second (required), the third (optional) and whether there is
  a fourth.
\<close>

definition parse_deinterleave :: "ustr \<Rightarrow> (transform_error, transform) result" where
  "parse_deinterleave params =
     (let bad = BadParameters params;
          parts = split_on (of_char (CHR ''/'')) params;
          offset = str_trim (case parts of [] \<Rightarrow> [] | p # _ \<Rightarrow> p)
      in
      bind_r (ok_or (get parts 1) (bad (lit ''expected <offset>/<stride>''))) (\<lambda>stride.
      if 3 < length parts
      then Inl (bad (lit ''too many values, expected <offset>/<stride>[/<bytes>]''))
      else
        bind_r (parse_number params offset (lit ''offset'')) (\<lambda>off.
        bind_r (parse_number params stride (lit ''stride'')) (\<lambda>str.
        bind_r (case get parts 2 of
                  Some bytes \<Rightarrow> parse_number params bytes (lit ''bytes'')
                | None \<Rightarrow> Inr DEFAULT_BYTES) (\<lambda>byt.
        bind_r (validate (Deinterleave off str byt)) (\<lambda>_.
          Inr (Deinterleave off str byt)))))))"

definition try_from_str :: "ustr \<Rightarrow> (transform_error, transform) result" where
  "try_from_str s =
     (let (name, params) =
        (case split_once (of_char (CHR '':'')) s of
           Some (name, params) \<Rightarrow> (str_trim name, Some (str_trim params))
         | None \<Rightarrow> (str_trim s, None))
      in
      if name \<in> set SWAP_BYTES_NAMES then
        (case params of
           None \<Rightarrow> Inr SwapBytes
         | Some _ \<Rightarrow> Inl (UnexpectedParameters name))
      else if name \<in> set DEINTERLEAVE_NAMES then
        (case params of
           Some params \<Rightarrow> parse_deinterleave params
         | None \<Rightarrow> Inl (MissingParameters name))
      else Inl (UnknownTransform name))"

fun show_transform :: "transform \<Rightarrow> ustr" where
  "show_transform SwapBytes = lit ''swap_bytes''"
| "show_transform (Deinterleave offset stride bytes) =
     (if bytes = DEFAULT_BYTES
      then lit ''deinterleave:'' @ show_dec offset @ lit ''/'' @ show_dec stride
      else lit ''deinterleave:'' @ show_dec offset @ lit ''/'' @ show_dec stride @
           lit ''/'' @ show_dec bytes)"

definition parse_transform_list :: "ustr \<Rightarrow> (transform_error, transform list) result" where
  "parse_transform_list s =
     (if str_trim s = [] then Inr []
      else map_r try_from_str (split_on TRANSFORM_LIST_SEPARATOR s))"

definition format_transform_list :: "transform list \<Rightarrow> ustr" where
  "format_transform_list transforms =
     str_join [TRANSFORM_LIST_SEPARATOR] (map show_transform transforms)"


section \<open>Parameters\<close>

lemma validate_Deinterleave_iff:
  "validate (Deinterleave offset stride bytes) = Inr () \<longleftrightarrow>
     0 < bytes \<and> 2 \<le> stride \<and> offset < stride \<and> bytes * stride \<le> usize_max"
  by (auto simp: bind_r_Inr_iff split: if_splits)

lemma valid_params_bounded:
  assumes "validate (Deinterleave offset stride bytes) = Inr ()"
  shows "offset \<le> usize_max" "stride \<le> usize_max" "bytes \<le> usize_max"
    "offset * bytes < bytes * stride" "0 < bytes * stride"
    "wrapping_umul bytes stride = bytes * stride" "wrapping_umul offset bytes = offset * bytes"
proof -
  have v: "0 < bytes" "2 \<le> stride" "offset < stride" "bytes * stride \<le> usize_max"
    using assms by (simp_all add: validate_Deinterleave_iff del: validate.simps)
  have "stride \<le> bytes * stride" "bytes \<le> bytes * stride" using v by simp_all
  then show "offset \<le> usize_max" "stride \<le> usize_max" "bytes \<le> usize_max"
    using v by linarith+
  show less: "offset * bytes < bytes * stride" using v by (simp add: mult.commute)
  show "0 < bytes * stride" using v by simp
  have "bytes * stride < 2 ^ 64" using v by (simp add: usize_max_def)
  then show "wrapping_umul bytes stride = bytes * stride"
    "wrapping_umul offset bytes = offset * bytes"
    using less_trans [OF less] unfolding wrapping_umul_def by (simp_all only: mod_less)
qed

section \<open>Text round trip\<close>

lemma dec_no_char: "c < 48 \<or> 57 < c \<Longrightarrow> c \<notin> set (show_dec n)"
  by (auto dest: show_dec_chars)

lemma parse_number_show_dec:
  "n \<le> usize_max \<Longrightarrow> parse_number params (show_dec n) what = Inr n"
  by (simp add: parse_number_def parse_show_dec)

definition deint_params :: "usize \<Rightarrow> usize \<Rightarrow> usize \<Rightarrow> ustr" where
  "deint_params offset stride bytes =
     str_join [47] ([show_dec offset, show_dec stride] @
       (if bytes = DEFAULT_BYTES then [] else [show_dec bytes]))"

lemma show_Deinterleave:
  "show_transform (Deinterleave offset stride bytes) =
     lit ''deinterleave'' @ 58 # deint_params offset stride bytes"
  by (simp add: deint_params_def)

lemma deint_params_chars: "c \<in> set (deint_params offset stride bytes) \<Longrightarrow> 47 \<le> c \<and> c \<le> 57"
  by (auto simp: deint_params_def dest: show_dec_chars split: if_splits)

lemma deint_params_trim [simp]:
  "str_trim (deint_params offset stride bytes) = deint_params offset stride bytes"
  by (rule str_trim_printable) (auto dest: deint_params_chars)

lemma deint_params_split:
  "split_on 47 (deint_params offset stride bytes) =
     [show_dec offset, show_dec stride] @ (if bytes = DEFAULT_BYTES then [] else [show_dec bytes])"
  unfolding deint_params_def
  by (rule split_on_str_join) (auto simp: dec_no_char split: if_splits)

lemma parse_deint_params:
  assumes "validate (Deinterleave offset stride bytes) = Inr ()"
  shows "parse_deinterleave (deint_params offset stride bytes) = Inr (Deinterleave offset stride bytes)"
  using assms valid_params_bounded [OF assms]
  by (cases "bytes = 1") (simp_all add: parse_deinterleave_def deint_params_split Let_def get_def parse_number_show_dec
      DEFAULT_BYTES_def del: validate.simps)

lemma try_from_show:
  assumes "validate t = Inr ()"
  shows "try_from_str (show_transform t) = Inr t"
proof (cases t)
  case SwapBytes
  have "split_once 58 (show_transform t) = None" by (simp add: SwapBytes split_once_None_iff)
  moreover have "str_trim (show_transform t) = show_transform t"
    by (rule str_trim_printable) (auto simp: SwapBytes)
  ultimately show ?thesis
    by (simp add: try_from_str_def SWAP_BYTES_NAMES_def) (simp add: SwapBytes)
next
  case (Deinterleave offset stride bytes)
  let ?n = "lit ''deinterleave''"
  have "split_once 58 (show_transform t) = Some (?n, deint_params offset stride bytes)"
    unfolding Deinterleave show_Deinterleave by (rule split_once_append) simp
  moreover have "str_trim ?n = ?n"
    by (rule str_trim_printable) auto
  moreover have "?n \<notin> set SWAP_BYTES_NAMES" "?n \<in> set DEINTERLEAVE_NAMES"
    by (simp_all add: SWAP_BYTES_NAMES_def DEINTERLEAVE_NAMES_def)
  ultimately show ?thesis
    using parse_deint_params assms unfolding Deinterleave
    by (simp add: try_from_str_def del: lit_simps)
qed

lemma show_transform_chars: "c \<in> set (show_transform t) \<Longrightarrow> 47 \<le> c \<and> c \<le> 122"
  by (cases t) (auto dest: show_dec_chars split: if_splits)

lemma show_transform_not_Nil: "show_transform t \<noteq> []"
  by (cases t) auto

text \<open>C24: text round trip.\<close>

theorem transform_text_roundtrip:
  assumes "\<forall>t\<in>set ts. validate t = Inr ()"
  shows "parse_transform_list (format_transform_list ts) = Inr ts"
proof (cases "ts = []")
  case True
  then show ?thesis
    by (simp add: parse_transform_list_def format_transform_list_def str_trim_def)
next
  case False
  let ?s = "format_transform_list ts"
  have split: "split_on TRANSFORM_LIST_SEPARATOR ?s = map show_transform ts"
    unfolding format_transform_list_def using False
    by (intro split_on_str_join) (auto simp: TRANSFORM_LIST_SEPARATOR_def dest: show_transform_chars)
  have chars: "set (str_join [43] ps) \<subseteq> {43} \<union> \<Union> (set ` set ps)" for ps
    by (induction "[43 :: nat]" ps rule: str_join.induct) auto
  have "\<forall>c\<in>set ?s. 32 < c \<and> c < 127"
    using chars [of "map show_transform ts"]
    by (force simp: format_transform_list_def TRANSFORM_LIST_SEPARATOR_def dest: show_transform_chars)
  then have "str_trim ?s = ?s" by (intro str_trim_printable) auto
  moreover have "?s \<noteq> []"
    using split False show_transform_not_Nil [THEN not_sym]
    by (auto simp: show_transform_not_Nil Cons_eq_map_conv)
  ultimately show ?thesis
    using split assms
    by (simp add: parse_transform_list_def map_r_Inr_iff try_from_show list_all2_conv_all_nth)
qed

theorem transform_text_roundtrip_witness:
  "parse_transform_list (format_transform_list [Deinterleave 1 2 2, SwapBytes]) =
     Inr [Deinterleave 1 2 2, SwapBytes]"
  by (rule transform_text_roundtrip)
    (simp add: validate_Deinterleave_iff usize_max_def del: validate.simps(2))


section \<open>Swapping bytes\<close>

lemma length_swap_pairs: "length (swap_pairs xs) = length xs div 2 * 2"
  by (induction xs rule: swap_pairs.induct) auto

lemma swap_pairs_nth:
  "i < length xs div 2 * 2 \<Longrightarrow>
     swap_pairs xs ! i = xs ! (if even i then i + 1 else i - 1)"
proof (induction xs arbitrary: i rule: swap_pairs.induct)
  case (1 a b rest)
  show ?case
  proof (cases "i < 2")
    case True
    then show ?thesis by (cases i) auto
  next
    case False
    then obtain k where k: "i = Suc (Suc k)"
      by (metis add_2_eq_Suc less_eqE not_less)
    then show ?thesis using 1 by (cases k) auto
  qed
qed auto

lemma swap_pairs_swap_pairs: "even (length xs) \<Longrightarrow> swap_pairs (swap_pairs xs) = xs"
  by (induction xs rule: swap_pairs.induct) auto

text \<open>The image \<open>swap_bytes\<close> works on: the size handling resolves an odd length.\<close>

definition even_image :: "u8 list \<Rightarrow> size_handling \<Rightarrow> u8 \<Rightarrow> u8 list option" where
  "even_image data sh blank =
     (if even (length data) then Some data
      else if sh = SH_Pad then Some (data @ [blank])
      else if sh = SH_Truncate then Some (butlast data)
      else None)"

lemma even_image_even: "even_image data sh blank = Some d \<Longrightarrow> even (length d)"
  by (auto simp: even_image_def split: if_splits)

lemma swap_bytes_even_image:
  "swap_bytes data sh blank =
     (case even_image data sh blank of
        None \<Rightarrow> Inl (OddLength (length data))
      | Some d \<Rightarrow> Inr (swap_pairs d, odd (length data)))"
  by (cases sh) (auto simp: swap_bytes_def even_image_def butlast_conv_take even_iff_mod_2_eq_zero)

text \<open>
  Swapping succeeds exactly when the length is even or the size handling pads or
  truncates, and is refused as OddLength otherwise; the result has the bytes of every 16-bit
  word exchanged, reports whether the size handling was used, and swapping it again restores
  the (evened) image without using the size handling.
\<close>

theorem swap_bytes_words:
  "case even_image data sh blank of
     None \<Rightarrow> apply_transform SwapBytes data sh blank = Inl (OddLength (length data))
   | Some d \<Rightarrow>
       (\<exists>out. apply_transform SwapBytes data sh blank =
            Inr \<lparr>tr_data = out, used_size_handling = odd (length data)\<rparr> \<and>
          length out = length d \<and>
          (\<forall>i<length d div 2. out ! (2 * i) = d ! (2 * i + 1) \<and> out ! (2 * i + 1) = d ! (2 * i)) \<and>
          apply_transform SwapBytes out sh blank =
            Inr \<lparr>tr_data = d, used_size_handling = False\<rparr>)"
proof (cases "even_image data sh blank")
  case None
  then show ?thesis by (simp add: apply_transform_def swap_bytes_even_image)
next
  case (Some d)
  note ev = even_image_even [OF Some]
  have len: "length (swap_pairs d) = length d" using ev by (simp add: length_swap_pairs)
  have again: "even_image (swap_pairs d) sh blank = Some (swap_pairs d)"
    using ev len by (simp add: even_image_def)
  show ?thesis
    using Some ev len again
    by (simp add: apply_transform_def swap_bytes_even_image swap_pairs_nth swap_pairs_swap_pairs)
qed

theorem swap_bytes_words_witness:
  "apply_transform SwapBytes [1, 2, 3] SH_Pad 0xAA =
     Inr \<lparr>tr_data = [2, 1, 0xAA, 3], used_size_handling = True\<rparr>"
  using swap_bytes_words [of "[1, 2, 3]" SH_Pad "0xAA"]
  by (simp add: apply_transform_def swap_bytes_def)

section \<open>Deinterleaving\<close>

lemma deint_loop_done: "length data \<le> pos \<Longrightarrow> deint_loop data pos bytes grp = []"
  by (simp add: deint_loop.simps)

lemma deint_loop_next:
  "pos < length data \<Longrightarrow> 0 < grp \<Longrightarrow>
     deint_loop data pos bytes grp =
       take bytes (drop pos data) @ deint_loop data (pos + grp) bytes grp"
  by (subst deint_loop.simps) simp

text \<open>
  The loop, for \<open>n\<close> further groups: it stops after exactly \<open>n\<close> slices, each of them in
  range, and element \<open>j * bytes + k\<close> of the result is byte \<open>k\<close> of the lane in group \<open>j\<close>.
\<close>

lemma deint_slice_in_range:
  assumes "o' + bytes \<le> grp" "length data = n * grp" "j < n"
  shows "j * grp + o' + bytes \<le> length data"
proof -
  have "j * grp + grp \<le> n * grp" using assms(3) by (metis Suc_leI mult_le_mono1 mult_Suc add.commute)
  then show ?thesis using assms by linarith
qed

lemma deint_loop_groups:
  assumes "o' + bytes \<le> grp" "0 < bytes" "length data = (m + n) * grp"
  shows "length (deint_loop data (m * grp + o') bytes grp) = n * bytes \<and>
    (\<forall>j<n. \<forall>k<bytes. deint_loop data (m * grp + o') bytes grp ! (j * bytes + k) =
       data ! ((m + j) * grp + o' + k))"
  using assms
proof (induction n arbitrary: m)
  case 0
  then show ?case by (simp add: deint_loop_done)
next
  case (Suc n)
  let ?L = "\<lambda>m. deint_loop data (m * grp + o') bytes grp"
  have room: "m * grp + o' + bytes \<le> length data"
    by (rule deint_slice_in_range [of _ _ _ _ "m + Suc n"]) (use Suc.prems in auto)
  then have "?L m = take bytes (drop (m * grp + o') data) @ ?L (Suc m)"
    using Suc.prems by (subst deint_loop_next) (auto simp: ac_simps)
  moreover have "length (take bytes (drop (m * grp + o') data)) = bytes" using room by simp
  moreover have IH: "length (?L (Suc m)) = n * bytes"
    "\<And>j k. j < n \<Longrightarrow> k < bytes \<Longrightarrow> ?L (Suc m) ! (j * bytes + k) = data ! ((Suc m + j) * grp + o' + k)"
    using Suc.IH [of "Suc m"] Suc.prems by simp_all
  moreover have "?L m ! (j * bytes + k) = data ! ((m + j) * grp + o' + k)"
    if "j < Suc n" "k < bytes" for j k
    using calculation that room by (cases j) (auto simp: nth_append ac_simps)
  ultimately show ?case by simp
qed

lemma deint_lane:
  assumes v: "validate (Deinterleave offset stride bytes) = Inr ()"
    and len: "length data = n * (bytes * stride)"
  shows "\<exists>out. deinterleave data offset stride bytes = Inr out \<and> length out = n * bytes \<and>
    (\<forall>j<n. \<forall>k<bytes. out ! (j * bytes + k) = data ! (j * (bytes * stride) + offset * bytes + k))"
proof -
  have p: "0 < bytes" "offset < stride"
    using v by (simp_all add: validate_Deinterleave_iff del: validate.simps)
  then have "(offset + 1) * bytes \<le> stride * bytes" by (intro mult_right_mono) auto
  then have fits: "offset * bytes + bytes \<le> bytes * stride" by (simp add: algebra_simps)
  show ?thesis
    using deint_loop_groups [of "offset * bytes" bytes "bytes * stride" data 0 n]
      fits p len valid_params_bounded(6,7) [OF v]
    by (simp add: deinterleave_def Let_def)
qed

text \<open>
  C25: for valid parameters and an image of \<open>n\<close> whole groups, every lane \<open>off < stride\<close> is
  extracted without error at \<open>1/stride\<close> of the length, and interleaving the lanes again gives
  every byte of the image back: byte \<open>i\<close> is byte \<open>i mod bytes\<close> of the group's slot in the lane
  that the position selects. An image with a ragged tail is refused.
\<close>

theorem deinterleave_lanes:
  assumes v: "validate (Deinterleave offset stride bytes) = Inr ()"
  shows "if bytes * stride dvd length data then
      (\<exists>lane. (\<forall>off < stride.
           apply_transform (Deinterleave off stride bytes) data sh blank =
             Inr \<lparr>tr_data = lane off, used_size_handling = False\<rparr> \<and>
           stride * length (lane off) = length data) \<and>
         (\<forall>i<length data.
           data ! i = lane (i div bytes mod stride) !
             (i div (bytes * stride) * bytes + i mod bytes)))
    else apply_transform (Deinterleave offset stride bytes) data sh blank =
      Inl (Ragged (length data) (bytes * stride))"
proof (cases "bytes * stride dvd length data")
  case False
  then show ?thesis
    using v valid_params_bounded(6) [OF v]
    by (simp add: apply_transform_def deinterleave_def Let_def del: validate.simps)
next
  case True
  then obtain n where n: "length data = n * (bytes * stride)" by (auto simp: dvd_def mult.commute)
  have pos: "0 < bytes" "0 < stride"
    using v by (simp_all add: validate_Deinterleave_iff del: validate.simps)
  have vo: "validate (Deinterleave off stride bytes) = Inr ()" if "off < stride" for off
    using v that by (simp add: validate_Deinterleave_iff del: validate.simps)
  define lane where "lane off = projr (deinterleave data off stride bytes)" for off
  have lane: "deinterleave data off stride bytes = Inr (lane off)" "length (lane off) = n * bytes"
    "\<And>j k. j < n \<Longrightarrow> k < bytes \<Longrightarrow>
       lane off ! (j * bytes + k) = data ! (j * (bytes * stride) + off * bytes + k)"
    if "off < stride" for off
    using deint_lane [OF vo [OF that] n] by (auto simp: lane_def)
  have "data ! i = lane (i div bytes mod stride) ! (i div (bytes * stride) * bytes + i mod bytes)"
    if i: "i < length data" for i
  proof -
    have "i div (bytes * stride) < n"
      using i pos by (simp add: n less_mult_imp_div_less)
    moreover have "i = i div (bytes * stride) * (bytes * stride) + i div bytes mod stride * bytes + i mod bytes"
      using mod_mult2_eq [of i bytes stride] div_mult_mod_eq [of i "bytes * stride"]
      by (simp add: ac_simps)
    ultimately show ?thesis
      using lane(3) [of "i div bytes mod stride" "i div (bytes * stride)" "i mod bytes"] pos by simp
  qed
  then show ?thesis
    using True lane vo by (auto simp: apply_transform_def n ac_simps simp del: validate.simps)
qed

theorem deinterleave_lanes_witness:
  "\<exists>lane :: nat \<Rightarrow> u8 list.
     apply_transform (Deinterleave 1 2 1) [1, 2, 3, 4] SH_None 0 =
       Inr \<lparr>tr_data = lane 1, used_size_handling = False\<rparr> \<and>
     length (lane 1) = 2 \<and> lane 0 ! 0 = 1 \<and> lane 1 ! 0 = 2 \<and> lane 0 ! 1 = 3 \<and> lane 1 ! 1 = 4"
proof -
  have v: "validate (Deinterleave 1 2 1) = Inr ()"
    by (simp add: validate_Deinterleave_iff usize_max_def del: validate.simps)
  obtain lane :: "nat \<Rightarrow> u8 list" where
    lane: "\<forall>off < 2. apply_transform (Deinterleave off 2 1) [1, 2, 3, 4] SH_None 0 =
        Inr \<lparr>tr_data = lane off, used_size_handling = False\<rparr> \<and>
        2 * length (lane off) = length [1, 2, 3, 4 :: u8]"
    and "\<forall>i<length [1, 2, 3, 4 :: u8]. [1, 2, 3, 4] ! i =
        lane (i div 1 mod 2) ! (i div (1 * 2) * 1 + i mod 1)"
    using deinterleave_lanes [OF v, of "[1, 2, 3, 4]" SH_None 0] by auto
  then have nth: "\<And>i. i < 4 \<Longrightarrow> [1, 2, 3, 4] ! i = lane (i mod 2) ! (i div 2)" by simp
  show ?thesis
    using lane [rule_format, of 1] nth [of 0] nth [of 1] nth [of 2] nth [of 3]
    by (intro exI [of _ lane]) simp
qed

section \<open>Chains of transforms\<close>

lemma apply_loop_append:
  "apply_loop (ts @ us) cur sh blank =
     bind_r (apply_loop ts cur sh blank) (\<lambda>mid. apply_loop us mid sh blank)"
proof (induction ts arbitrary: cur)
  case (Cons t ts)
  then show ?case by (cases "apply_transform t (tr_data cur) sh blank") auto
qed simp

lemma apply_loop_flag:
  "apply_loop ts \<lparr>tr_data = d, used_size_handling = u\<rparr> sh blank =
     bind_r (apply_loop ts \<lparr>tr_data = d, used_size_handling = False\<rparr> sh blank)
       (\<lambda>r. Inr (r\<lparr>used_size_handling := u \<or> used_size_handling r\<rparr>))"
proof (induction ts arbitrary: d u)
  case (Cons t ts)
  show ?case
  proof (cases "apply_transform t d sh blank")
    case (Inr next')
    let ?r = "apply_loop ts \<lparr>tr_data = tr_data next', used_size_handling = False\<rparr> sh blank"
    show ?thesis
      using Inr Cons [of "tr_data next'" "u \<or> used_size_handling next'"]
        Cons [of "tr_data next'" "used_size_handling next'"]
      by (cases ?r) (simp_all add: disj_assoc)
  qed simp
qed simp

text \<open>
  A chain is run left to right: applying a concatenated list is applying the first list
  and then the second to its output, an error of the first ending the run, and the
  size-handling flag is set exactly when one of the two parts set it.
\<close>

theorem apply_transforms_append:
  "apply_transforms data (ts @ us) sh blank =
     bind_r (apply_transforms data ts sh blank) (\<lambda>mid.
     bind_r (apply_transforms (tr_data mid) us sh blank) (\<lambda>r.
       Inr \<lparr>tr_data = tr_data r,
            used_size_handling = (used_size_handling mid \<or> used_size_handling r)\<rparr>))"
proof (cases "apply_transforms data ts sh blank")
  case (Inr mid)
  obtain d u where mid: "mid = \<lparr>tr_data = d, used_size_handling = u\<rparr>" by (cases mid)
  let ?r = "apply_loop us \<lparr>tr_data = d, used_size_handling = False\<rparr> sh blank"
  show ?thesis
    using Inr apply_loop_flag [of us d u sh blank]
    by (cases ?r) (simp_all add: apply_transforms_def apply_loop_append mid)
qed (simp add: apply_transforms_def apply_loop_append)

end
