(* ===== verification/Chip_Image.thy ===== *)
theory Chip_Image
  imports Transform Chip_Set
begin

text \<open>
  A chip of the configuration and the image it is given
  (\<open>Chip::from_raw_rom_image\<close> in \<open>rust/gen/src/image.rs\<close>): the image file is sliced to its
  location, rearranged by the transforms and reconciled with the size of the chip. The texts of
  the errors are kept as their data.
\<close>

section \<open>Chips\<close>

record location =
  lo_start :: usize
  lo_length :: usize

record chip =
  ch_index :: usize
  ch_filename :: ustr
  ch_label :: "ustr option"
  ch_type :: chip_type
  ch_type_raw :: ustr
  ch_cs_config :: cs_config
  ch_data :: "u8 list option"
  ch_location :: "location option"

definition chip_filename :: "chip \<Rightarrow> ustr" where
  "chip_filename c = (case ch_label c of Some l \<Rightarrow> l | None \<Rightarrow> ch_filename c)"

definition has_data :: "chip \<Rightarrow> bool" where
  "has_data c \<longleftrightarrow> ch_data c \<noteq> None"

datatype bad_location =
    LocationOverflow usize usize
  | FileTooShort usize usize

datatype image_error =
    TransformFailed ustr transform_error
  | MissingFile usize
  | BadLocation ustr bad_location
  | BufferTooSmall usize usize
  | RightSize chip_type ustr usize size_handling
  | ImageTooSmall chip_type ustr usize usize
  | DuplicationNotExactDivisor chip_type ustr usize usize
  | ImageExceedsServedSize chip_type ustr usize usize
  | ImageTooLarge chip_type ustr usize usize

section \<open>Reading an image\<close>

fun validate_all :: "ustr \<Rightarrow> transform list \<Rightarrow> (image_error, unit) result" where
  "validate_all filename [] = Inr ()"
| "validate_all filename (t # ts) =
     bind_r (map_err (TransformFailed filename) (validate t)) (\<lambda>_. validate_all filename ts)"

definition without_image ::
  "usize \<Rightarrow> ustr \<Rightarrow> ustr option \<Rightarrow> chip_type \<Rightarrow> ustr \<Rightarrow> cs_config \<Rightarrow> location option \<Rightarrow>
     transform list \<Rightarrow> (image_error, chip) result" where
  "without_image index filename label ct raw cs loc transforms =
     bind_r (validate_all filename transforms) (\<lambda>_.
       Inr \<lparr>ch_index = index, ch_filename = filename, ch_label = label, ch_type = ct,
         ch_type_raw = raw, ch_cs_config = cs, ch_data = None, ch_location = loc\<rparr>)"

definition locate :: "ustr \<Rightarrow> u8 list \<Rightarrow> location option \<Rightarrow> (image_error, u8 list) result" where
  "locate filename source loc =
     (case loc of
        None \<Rightarrow> Inr source
      | Some l \<Rightarrow>
          (case checked_add (lo_start l) (lo_length l) of
             None \<Rightarrow> Inl (BadLocation filename (LocationOverflow (lo_start l) (lo_length l)))
           | Some stop \<Rightarrow>
               if length source < stop
               then Inl (BadLocation filename (FileTooShort (length source) stop))
               else Inr (drop (lo_start l) (take stop source))))"

definition rearrange ::
  "ustr \<Rightarrow> u8 list \<Rightarrow> transform list \<Rightarrow> size_handling \<Rightarrow> u8 \<Rightarrow> (image_error, u8 list \<times> bool) result" where
  "rearrange filename source transforms sh blank =
     (if transforms = [] then Inr (source, False)
      else bind_r (map_err (TransformFailed filename) (apply_transforms source transforms sh blank))
        (\<lambda>t. Inr (tr_data t, used_size_handling t)))"

text \<open>\<open>dest[start..start + source.len()].copy_from_slice(source)\<close>\<close>

definition copy_at :: "usize \<Rightarrow> u8 list \<Rightarrow> u8 list \<Rightarrow> u8 list" where
  "copy_at start source dest = take start dest @ source @ drop (start + length source) dest"

definition pad_into :: "u8 list \<Rightarrow> usize \<Rightarrow> u8 \<Rightarrow> u8 list \<Rightarrow> u8 list" where
  "pad_into source expected blank dest =
     copy_at (length source) (replicate (expected - length source) blank) (copy_at 0 source dest)"

definition duplicate_into :: "u8 list \<Rightarrow> nat \<Rightarrow> u8 list \<Rightarrow> u8 list" where
  "duplicate_into source multiples dest =
     fold (\<lambda>i d. copy_at (i * length source) source d) [0..<multiples] dest"

definition served_size :: "chip_type \<Rightarrow> usize" where
  "served_size ct =
     (if ct_name ct = ''27C080'' then ct_size_bytes ct div 2 else ct_size_bytes ct)"

definition reconcile ::
  "chip_type \<Rightarrow> ustr \<Rightarrow> u8 list \<Rightarrow> bool \<Rightarrow> size_handling \<Rightarrow> u8 \<Rightarrow> u8 list \<Rightarrow>
     (image_error, u8 list) result" where
  "reconcile ct filename source used sh blank dest =
     (let expected = served_size ct in
      if length source = expected then
        (if sh = SH_None \<or> used then Inr (copy_at 0 (take expected source) dest)
         else Inl (RightSize ct filename expected sh))
      else if length source < expected then
        (case sh of
           SH_None \<Rightarrow>
             if ct_is_plugin ct then Inr (pad_into source expected blank dest)
             else Inl (ImageTooSmall ct filename expected (length source))
         | SH_Duplicate \<Rightarrow>
             if \<not> length source dvd expected
             then Inl (DuplicationNotExactDivisor ct filename (length source) expected)
             else Inr (duplicate_into source (expected div length source) dest)
         | SH_Pad \<Rightarrow> Inr (pad_into source expected blank dest)
         | SH_Truncate \<Rightarrow> Inl (ImageTooSmall ct filename expected (length source)))
      else
        (case sh of
           SH_Truncate \<Rightarrow> Inr (copy_at 0 (take expected source) dest)
         | _ \<Rightarrow>
             if expected \<noteq> ct_size_bytes ct
             then Inl (ImageExceedsServedSize ct filename (length source) expected)
             else Inl (ImageTooLarge ct filename (length source) expected)))"

definition from_raw_rom_image ::
  "usize \<Rightarrow> ustr \<Rightarrow> ustr option \<Rightarrow> u8 list option \<Rightarrow> u8 list \<Rightarrow> chip_type \<Rightarrow> ustr \<Rightarrow> cs_config \<Rightarrow>
     size_handling \<Rightarrow> u8 \<Rightarrow> location option \<Rightarrow> transform list \<Rightarrow> (image_error, chip) result" where
  "from_raw_rom_image index filename label source dest ct raw cs sh blank loc transforms =
     (let new = (\<lambda>data. \<lparr>ch_index = index, ch_filename = filename, ch_label = label, ch_type = ct,
            ch_type_raw = raw, ch_cs_config = cs, ch_data = data, ch_location = loc\<rparr>) in
      bind_r (validate_all filename transforms) (\<lambda>_.
        case source of
          None \<Rightarrow> if ct_is_ram ct then Inr (new None) else Inl (MissingFile index)
        | Some file \<Rightarrow>
            bind_r (locate filename file loc) (\<lambda>located.
            bind_r (rearrange filename located transforms sh blank) (\<lambda>(image, used).
              if length dest < ct_size_bytes ct
              then Inl (BufferTooSmall (ct_size_bytes ct) (length dest))
              else bind_r (reconcile ct filename image used sh blank dest)
                (\<lambda>data. Inr (new (Some data)))))))"

section \<open>What the image becomes\<close>

text \<open>The bytes an image is fitted to, if the size handling can fit it.\<close>

definition fit_image :: "chip_type \<Rightarrow> bool \<Rightarrow> size_handling \<Rightarrow> u8 \<Rightarrow> u8 list \<Rightarrow> u8 list option" where
  "fit_image ct used sh blank img =
     (if length img = served_size ct \<and> (sh = SH_None \<or> used) then Some img
      else if length img < served_size ct \<and> (sh = SH_Pad \<or> sh = SH_None \<and> ct_is_plugin ct)
      then Some (img @ replicate (served_size ct - length img) blank)
      else if length img < served_size ct \<and> sh = SH_Duplicate \<and> length img dvd served_size ct
      then Some (concat (replicate (served_size ct div length img) img))
      else if served_size ct < length img \<and> sh = SH_Truncate
      then Some (take (served_size ct) img)
      else None)"

lemma length_concat_replicate: "length (concat (replicate n xs)) = n * length xs"
  by (induction n) auto

lemma fit_image_length: "fit_image ct used sh blank img = Some bytes \<Longrightarrow> length bytes = served_size ct"
  by (auto simp: fit_image_def length_concat_replicate split: if_splits)

lemma copy_at_0: "copy_at 0 source dest = source @ drop (length source) dest"
  by (simp add: copy_at_def)

lemma pad_into_eq:
  assumes "length source \<le> expected" "expected \<le> length dest"
  shows "pad_into source expected blank dest =
    source @ replicate (expected - length source) blank @ drop expected dest"
  using assms by (simp add: pad_into_def copy_at_def)

lemma duplicate_into_prefix:
  assumes "multiples * length source \<le> length dest"
  shows "duplicate_into source multiples dest =
    concat (replicate multiples source) @ drop (multiples * length source) dest"
  using assms
proof (induction multiples)
  case (Suc k)
  have "duplicate_into source (Suc k) dest =
      copy_at (k * length source) source (duplicate_into source k dest)"
    by (simp add: duplicate_into_def)
  also have "duplicate_into source k dest =
      concat (replicate k source) @ drop (k * length source) dest"
    using Suc by simp
  also have "copy_at (k * length source) source \<dots> =
      concat (replicate k source) @ source @ drop (Suc k * length source) dest"
    by (simp add: copy_at_def length_concat_replicate add.commute)
  finally have e: "duplicate_into source (Suc k) dest =
    concat (replicate k source) @ source @ drop (Suc k * length source) dest" .
  have "concat (replicate (Suc k) source) = concat (replicate k source) @ source"
    by (simp only: replicate_Suc replicate_append_same [symmetric] concat_append) simp
  then show ?case unfolding e by simp
qed (simp add: duplicate_into_def)

lemma duplicate_into_eq:
  assumes "length source dvd expected" "0 < length source" "expected \<le> length dest"
  shows "duplicate_into source (expected div length source) dest =
    concat (replicate (expected div length source) source) @ drop expected dest"
  using duplicate_into_prefix [of "expected div length source" source dest] assms by simp

lemma served_size_le: "served_size ct \<le> ct_size_bytes ct"
  by (simp add: served_size_def)

lemma reconcile_fit:
  assumes "ct_size_bytes ct \<le> length dest"
  shows "reconcile ct filename img used sh blank dest = Inr data \<longleftrightarrow>
    (\<exists>bytes. fit_image ct used sh blank img = Some bytes \<and>
      data = bytes @ drop (served_size ct) dest)"
proof -
  have le: "served_size ct \<le> length dest" using served_size_le [of ct] assms by simp
  have pos: "length img < served_size ct \<Longrightarrow> length img dvd served_size ct \<Longrightarrow> 0 < length img"
    by (cases "length img = 0") auto
  show ?thesis
    using le pos
    by (cases sh)
      (auto simp: reconcile_def fit_image_def Let_def copy_at_0 pad_into_eq duplicate_into_eq
        split: if_splits)
qed

section \<open>Properties of chip images\<close>

text \<open>
  C31: what a chip serves is what the image file says. A chip built from a file holds a buffer
  of the destination's length whose served part is the located slice of the file, rearranged by
  the transforms and fitted to the chip: unchanged when it has the right size, followed by
  blank bytes when padded, repeated a whole number of times when duplicated, cut when
  truncated. The rest of the buffer, the half of a 27C080 no One ROM serves, is untouched.
\<close>

theorem chip_image_contents:
  assumes "from_raw_rom_image index filename label (Some file) dest ct raw cs sh blank loc transforms = Inr c"
  shows "\<exists>located img used bytes.
    located = (case loc of None \<Rightarrow> file | Some l \<Rightarrow> take (lo_length l) (drop (lo_start l) file)) \<and>
    (case loc of None \<Rightarrow> True | Some l \<Rightarrow> lo_start l + lo_length l \<le> length file) \<and>
    rearrange filename located transforms sh blank = Inr (img, used) \<and>
    fit_image ct used sh blank img = Some bytes \<and> length bytes = served_size ct \<and>
    ch_data c = Some (bytes @ drop (served_size ct) dest) \<and>
    length (bytes @ drop (served_size ct) dest) = length dest"
proof -
  obtain located img used data where l: "locate filename file loc = Inr located"
    and r: "rearrange filename located transforms sh blank = Inr (img, used)"
    and size: "ct_size_bytes ct \<le> length dest"
    and d: "reconcile ct filename img used sh blank dest = Inr data" and c: "ch_data c = Some data"
    using assms by (auto simp: from_raw_rom_image_def Let_def bind_r_Inr_iff split: if_splits)
  obtain bytes where b: "fit_image ct used sh blank img = Some bytes"
    "data = bytes @ drop (served_size ct) dest"
    using d reconcile_fit [OF size] by auto
  note n = fit_image_length [OF b(1)]
  have "length (bytes @ drop (served_size ct) dest) = length dest"
    using n served_size_le [of ct] size by simp
  moreover have "located = (case loc of None \<Rightarrow> file | Some l \<Rightarrow> take (lo_length l) (drop (lo_start l) file)) \<and>
      (case loc of None \<Rightarrow> True | Some l \<Rightarrow> lo_start l + lo_length l \<le> length file)"
    using l by (auto simp: locate_def drop_take split: option.splits if_splits)
  ultimately show ?thesis using r b n c by blast
qed

text \<open>
  The size errors. With no transform and no location, a file of the right size is refused
  exactly when a size handling is given; a shorter one when there is none (and the chip is no
  plugin), when it should be truncated, or duplicated but does not divide the size; a longer
  one unless it is truncated, with the error telling a part-served chip from the others.
\<close>

theorem chip_image_size_errors:
  fixes index and filename and label and contents and dest and ct and raw and cs and sh and blank
  assumes "ct_size_bytes ct \<le> length dest"
  defines "r \<equiv> from_raw_rom_image index filename label (Some contents) dest ct raw cs sh blank None []"
  shows "(length contents = served_size ct \<longrightarrow> sh \<noteq> SH_None \<longrightarrow>
      r = Inl (RightSize ct filename (served_size ct) sh)) \<and>
    (length contents < served_size ct \<longrightarrow> sh = SH_Truncate \<or> sh = SH_None \<and> \<not> ct_is_plugin ct \<longrightarrow>
      r = Inl (ImageTooSmall ct filename (served_size ct) (length contents))) \<and>
    (length contents < served_size ct \<longrightarrow> sh = SH_Duplicate \<longrightarrow> \<not> length contents dvd served_size ct \<longrightarrow>
      r = Inl (DuplicationNotExactDivisor ct filename (length contents) (served_size ct))) \<and>
    (served_size ct < length contents \<longrightarrow> sh \<noteq> SH_Truncate \<longrightarrow>
      r = Inl ((if served_size ct = ct_size_bytes ct then ImageTooLarge else ImageExceedsServedSize)
        ct filename (length contents) (served_size ct))) \<and>
    ((\<exists>c. r = Inr c) \<longleftrightarrow> fit_image ct False sh blank contents \<noteq> None)"
proof -
  have r: "r = bind_r (reconcile ct filename contents False sh blank dest)
      (\<lambda>data. Inr \<lparr>ch_index = index, ch_filename = filename, ch_label = label, ch_type = ct,
        ch_type_raw = raw, ch_cs_config = cs, ch_data = Some data, ch_location = None\<rparr>)"
    using assms(1) by (simp add: r_def from_raw_rom_image_def locate_def rearrange_def)
  have "(\<exists>c. r = Inr c) \<longleftrightarrow> fit_image ct False sh blank contents \<noteq> None"
    unfolding r bind_r_Inr_iff reconcile_fit [OF assms(1)] by auto
  moreover have "length contents = served_size ct \<longrightarrow> sh \<noteq> SH_None \<longrightarrow>
      r = Inl (RightSize ct filename (served_size ct) sh)"
    "length contents < served_size ct \<longrightarrow> sh = SH_Truncate \<or> sh = SH_None \<and> \<not> ct_is_plugin ct \<longrightarrow>
      r = Inl (ImageTooSmall ct filename (served_size ct) (length contents))"
    "length contents < served_size ct \<longrightarrow> sh = SH_Duplicate \<longrightarrow> \<not> length contents dvd served_size ct \<longrightarrow>
      r = Inl (DuplicationNotExactDivisor ct filename (length contents) (served_size ct))"
    unfolding r by (auto simp: reconcile_def Let_def)
  moreover have "served_size ct < length contents \<longrightarrow> sh \<noteq> SH_Truncate \<longrightarrow>
      r = Inl ((if served_size ct = ct_size_bytes ct then ImageTooLarge else ImageExceedsServedSize)
        ct filename (length contents) (served_size ct))"
    unfolding r by (cases sh) (auto simp: reconcile_def Let_def)
  ultimately show ?thesis by blast
qed

text \<open>
  A transform that can never work is reported before anything else is looked at, whether or
  not the chip has an image: the first invalid transform of the list is the error.
\<close>

theorem invalid_transform_first:
  assumes "\<forall>t \<in> set ok. validate t = Inr ()" "validate bad = Inl e"
  shows "from_raw_rom_image index filename label source dest ct raw cs sh blank loc (ok @ bad # rest) =
      Inl (TransformFailed filename e) \<and>
    without_image index filename label ct raw cs loc (ok @ bad # rest) = Inl (TransformFailed filename e)"
proof -
  have "validate_all filename (ok @ bad # rest) = Inl (TransformFailed filename e)"
    using assms by (induction ok) simp_all
  then show ?thesis by (simp add: from_raw_rom_image_def without_image_def)
qed

definition tiny_chip :: chip_type where
  "tiny_chip = \<lparr>ct_name = ''tiny'', ct_chip_pins = 24, ct_num_addr_lines = 2,
     ct_address_pins = [8, 7], ct_data_pins = [9, 10, 11, 13, 14, 15, 16, 17], ct_control_lines = [],
     ct_size_bytes = 4, ct_deselect_all_high = None, ct_is_ram = False, ct_is_plugin = False,
     ct_bit_modes = [8], ct_rbcp_type = 0, ct_min_fw = None\<rparr>"

theorem chip_image_contents_witness:
  "\<exists>c. from_raw_rom_image 0 [] None (Some [1, 2, 3, 4, 5, 6]) [0, 0, 0, 0, 9] tiny_chip [] CeOe SH_Pad 0xFF
      (Some \<lparr>lo_start = 1, lo_length = 3\<rparr>) [] = Inr c \<and> ch_data c = Some [2, 3, 4, 0xFF, 9]"
proof -
  have f: "from_raw_rom_image 0 [] None (Some [1, 2, 3, 4, 5, 6]) [0, 0, 0, 0, 9] tiny_chip [] CeOe SH_Pad
      0xFF (Some \<lparr>lo_start = 1, lo_length = 3\<rparr>) [] =
    Inr \<lparr>ch_index = 0, ch_filename = [], ch_label = None, ch_type = tiny_chip, ch_type_raw = [],
      ch_cs_config = CeOe, ch_data = Some [2, 3, 4, 0xFF, 9],
      ch_location = Some \<lparr>lo_start = 1, lo_length = 3\<rparr>\<rparr>"
    by (simp add: from_raw_rom_image_def locate_def rearrange_def reconcile_def served_size_def
        tiny_chip_def pad_into_def copy_at_def checked_add_def usize_max_def)
  show ?thesis
    using chip_image_contents [OF f] f by auto
qed

theorem chip_image_size_errors_witness:
  "from_raw_rom_image 0 [] None (Some [1, 2, 3]) [0, 0, 0, 0] tiny_chip [] CeOe SH_Duplicate 0xFF None [] =
    Inl (DuplicationNotExactDivisor tiny_chip [] 3 4)"
proof -
  have s: "served_size tiny_chip = 4" "ct_size_bytes tiny_chip \<le> length [0, 0, 0, 0 :: u8]"
    "length [1, 2, 3 :: u8] = 3" "\<not> (3 :: nat) dvd 4"
    by (simp_all add: served_size_def tiny_chip_def)
  show ?thesis
    using chip_image_size_errors [OF s(2), where index = 0
        and filename = "[]" and label = None and contents = "[1, 2, 3]" and raw = "[]" and cs = CeOe
        and sh = SH_Duplicate and blank = "0xFF", THEN conjunct2, THEN conjunct2, THEN conjunct1]
    unfolding s(1,3) using s(4) by simp
qed

theorem invalid_transform_first_witness:
  "from_raw_rom_image 0 [] None None [] tiny_chip [] CeOe SH_None 0 None [SwapBytes, Deinterleave 0 1 1] =
    Inl (TransformFailed [] (InvalidStride 1))"
  using invalid_transform_first [where ok = "[SwapBytes]" and bad = "Deinterleave 0 1 1"
      and e = "InvalidStride 1" and rest = "[]"] by simp

end
