(* ===== verification/Rom_Image.thy ===== *)
theory Rom_Image
  imports Cs_Data_Layout Chip_Image
begin

unbundle bit_operations_syntax

text \<open>
  The ROM table of a chip set (\<open>build_rom_image\<close> in \<open>rust/gen/src/v2/rom_image.rs\<close>): for every
  level of the address PIO's pins, the word to put on the data pins, its bits permuted to the
  board's wiring. Shifts take their amount modulo the width and \<open>u8\<close> subtraction wraps, as in a
  release build; an option \<open>None\<close> is a panic.
\<close>

section \<open>Building the table\<close>

datatype 'a maybe_known = Known 'a | UnknownRaw nat

datatype alg_dma_config = AlgDma0 "bit_mode maybe_known" nat | UnknownAlgDma nat

definition bytes_per_word :: "alg_dma_config \<Rightarrow> nat option" where
  "bytes_per_word dma =
     (case dma of
        AlgDma0 (Known BitMode8) _ \<Rightarrow> Some 1
      | AlgDma0 (Known BitMode16) _ \<Rightarrow> Some 2
      | AlgDma0 (UnknownRaw raw) _ \<Rightarrow> None
      | UnknownAlgDma alg \<Rightarrow> None)"

definition table_entries :: "addr_layout \<Rightarrow> nat" where
  "table_entries al = 2 ^ (al_num_addr_pins al mod 32)"

definition PAD_NO_CHIP_BYTE :: u8 where "PAD_NO_CHIP_BYTE = 0xAA"

datatype set_count = SingleCount nat | BankedCount nat | MultiCount nat

datatype rom_error =
    RomTableTooLarge usize usize
  | InvalidSetCount set_count
  | MissingImageData chip_type usize

definition u8_sub :: "nat \<Rightarrow> nat \<Rightarrow> nat" where
  "u8_sub a b = (a + 256 - b) mod 256"

definition mangle_word :: "u32 \<Rightarrow> nat list \<Rightarrow> u32" where
  "mangle_word raw positions =
     fold (\<lambda>(d, pos) m. m OR push_bit (pos mod 32) (of_bool (bit raw (d mod 32))))
       (enumerate 0 positions) 0"

definition index_bits :: "nat \<Rightarrow> nat list \<Rightarrow> nat" where
  "index_bits i positions =
     fold (\<lambda>(n, pos) a. a OR push_bit n (of_bool (bit i (pos mod 32)))) (enumerate 0 positions) 0"

definition bank_bit_positions ::
  "addr_layout \<Rightarrow> chip_set_type \<Rightarrow> nat \<Rightarrow> (rom_error, nat list) result option" where
  "bank_bit_positions al set_type n =
     (case set_type of
        Set_Single \<Rightarrow> Some (if n \<noteq> 1 then Inl (InvalidSetCount (SingleCount n)) else Inr [])
      | Set_Banked \<Rightarrow>
          (case al_x1_gpio al of
             None \<Rightarrow> None
           | Some x1 \<Rightarrow>
               let x1_bit = u8_sub x1 (al_gpio_base al) in
               if n = 2 then Some (Inr [x1_bit])
               else if n = 3 \<or> n = 4 then
                 map_option (\<lambda>x2. Inr [x1_bit, u8_sub x2 (al_gpio_base al)]) (al_x2_gpio al)
               else Some (Inl (InvalidSetCount (BankedCount n))))
      | Set_Multi \<Rightarrow>
          Some (if n < 2 \<or> 3 < n then Inl (InvalidSetCount (MultiCount n)) else Inr []))"

definition multi_select_bits ::
  "addr_layout \<Rightarrow> cs_data_layout \<Rightarrow> chip_set_type \<Rightarrow> nat \<Rightarrow> (nat \<times> nat \<times> nat option) option option" where
  "multi_select_bits al cd set_type n =
     (if set_type = Set_Multi then
        case (first (cd_select_lines cd), al_x1_gpio al) of
          (Some line, Some x1) \<Rightarrow>
            let cs1_bit = u8_sub (sl_gpio line) (al_gpio_base al);
                x1_bit = u8_sub x1 (al_gpio_base al)
            in if 3 \<le> n then
                 map_option (\<lambda>x2. Some (cs1_bit, x1_bit, Some (u8_sub x2 (al_gpio_base al))))
                   (al_x2_gpio al)
               else Some (Some (cs1_bit, x1_bit, None))
        | _ \<Rightarrow> None
      else Some None)"

definition select_chip ::
  "(nat \<times> nat \<times> nat option) option \<Rightarrow> nat list \<Rightarrow> nat \<Rightarrow> nat \<Rightarrow> nat option" where
  "select_chip multi banks n i =
     (case multi of
        Some (cs1_bit, x1_bit, x2_bit) \<Rightarrow>
          (case (bit i (cs1_bit mod 32), bit i (x1_bit mod 32),
                 case x2_bit of None \<Rightarrow> False | Some b \<Rightarrow> bit i (b mod 32)) of
             (True, False, False) \<Rightarrow> Some 0
           | (False, True, False) \<Rightarrow> Some 1
           | (False, False, True) \<Rightarrow> if 3 \<le> n then Some 2 else None
           | _ \<Rightarrow> None)
      | None \<Rightarrow>
          let bank_index = index_bits i banks in
          if bank_index < n then Some bank_index else None)"

definition is_power_of_two :: "nat \<Rightarrow> bool" where
  "is_power_of_two n \<longleftrightarrow> n = 2 ^ ilog2 n"

text \<open>The raw word of a chip: its bytes at the word address, low byte first.\<close>

definition raw_word :: "nat \<Rightarrow> u8 list \<Rightarrow> nat \<Rightarrow> u32 option" where
  "raw_word word_bytes data addr =
     (if word_bytes = 1 then map_option ucast (get data addr)
      else
        case (get data (addr * 2), get data (addr * 2 + 1)) of
          (Some lo, Some hi) \<Rightarrow> Some (ucast lo OR push_bit 8 (ucast hi))
        | _ \<Rightarrow> None)"

definition pad_raw :: "nat \<Rightarrow> u32" where
  "pad_raw word_bytes =
     fold (\<lambda>b acc. acc OR push_bit (8 * b) (ucast PAD_NO_CHIP_BYTE)) [0..<word_bytes] 0"

text \<open>The raw word at a chip address; \<open>Some None\<close> stands for the pad value.\<close>

definition chip_word :: "nat \<Rightarrow> nat \<Rightarrow> u8 list \<Rightarrow> nat \<Rightarrow> u32 option option" where
  "chip_word word_bytes chip_size data chip_addr =
     (if chip_size \<le> chip_addr then
        if is_power_of_two chip_size
        then map_option Some (raw_word word_bytes data (chip_addr AND (chip_size - 1)))
        else Some None
      else map_option Some (raw_word word_bytes data chip_addr))"

definition word_out :: "nat \<Rightarrow> u32 \<Rightarrow> u8 list" where
  "word_out word_bytes w = map (\<lambda>b. ucast (drop_bit (8 * b) w)) [0..<word_bytes]"

record rom_tables =
  rt_word_bytes :: nat
  rt_addr_bits :: "nat list"
  rt_bank_bits :: "nat list"
  rt_multi :: "(nat \<times> nat \<times> nat option) option"
  rt_data_bits :: "nat list"
  rt_chip_data :: "u8 list list"
  rt_chip_sizes :: "nat list"

definition table_entry :: "rom_tables \<Rightarrow> nat \<Rightarrow> u8 list option" where
  "table_entry t i =
     (let chip_addr = index_bits i (rt_addr_bits t);
          pad = word_out (rt_word_bytes t) (mangle_word (pad_raw (rt_word_bytes t)) (rt_data_bits t))
      in
        case select_chip (rt_multi t) (rt_bank_bits t) (length (rt_chip_data t)) i of
          None \<Rightarrow> Some pad
        | Some c \<Rightarrow>
            (case chip_word (rt_word_bytes t) (rt_chip_sizes t ! c) (rt_chip_data t ! c) chip_addr of
               None \<Rightarrow> None
             | Some None \<Rightarrow> Some pad
             | Some (Some raw) \<Rightarrow>
                 Some (word_out (rt_word_bytes t) (mangle_word raw (rt_data_bits t)))))"

fun collect_data :: "nat \<Rightarrow> chip list \<Rightarrow> (rom_error, u8 list list) result" where
  "collect_data index [] = Inr []"
| "collect_data index (c # cs) =
     bind_r (ok_or (ch_data c) (MissingImageData (ch_type c) index)) (\<lambda>d.
     bind_r (collect_data (index + 1) cs) (\<lambda>ds. Inr (d # ds)))"

definition rom_tables_of ::
  "addr_layout \<Rightarrow> cs_data_layout \<Rightarrow> chip list \<Rightarrow> nat \<Rightarrow> nat list \<Rightarrow>
     (nat \<times> nat \<times> nat option) option \<Rightarrow> u8 list list \<Rightarrow> rom_tables" where
  "rom_tables_of al cd chips wb banks multi data =
     \<lparr>rt_word_bytes = wb,
      rt_addr_bits = map (\<lambda>g. u8_sub g (al_gpio_base al)) (al_addr_pin_gpios al),
      rt_bank_bits = banks, rt_multi = multi,
      rt_data_bits =
        map (\<lambda>g. u8_sub g ((cd_gpio_base cd + cd_base_data_pin cd) mod 256)) (cd_data_pin_gpios cd),
      rt_chip_data = data,
      rt_chip_sizes = map (\<lambda>c. ct_size_bytes (ch_type c) div wb) chips\<rparr>"

definition build_rom_image ::
  "addr_layout \<Rightarrow> cs_data_layout \<Rightarrow> chip_set_type \<Rightarrow> chip list \<Rightarrow> alg_dma_config \<Rightarrow>
     (rom_error, u8 list) result option" where
  "build_rom_image al cd set_type chips dma =
     (case bytes_per_word dma of
        None \<Rightarrow> None
      | Some wb \<Rightarrow>
          let entries = table_entries al in
          if MAX_IMAGE_SIZE < entries * wb
          then Some (Inl (RomTableTooLarge (entries * wb) MAX_IMAGE_SIZE))
          else
            case bank_bit_positions al set_type (length chips) of
              None \<Rightarrow> None
            | Some (Inl e) \<Rightarrow> Some (Inl e)
            | Some (Inr banks) \<Rightarrow>
                (case multi_select_bits al cd set_type (length chips) of
                   None \<Rightarrow> None
                 | Some multi \<Rightarrow>
                     (case collect_data 0 chips of
                        Inl e \<Rightarrow> Some (Inl e)
                      | Inr data \<Rightarrow>
                          map_option (\<lambda>ws. Inr (concat ws))
                            (those (map (table_entry (rom_tables_of al cd chips wb banks multi data))
                              [0..<entries])))))"

section \<open>Bits\<close>

lemma bit_fold_index:
  "bit (fold (\<lambda>(n, pos) a. a OR push_bit n (of_bool (P pos))) (enumerate s ps) acc) k \<longleftrightarrow>
    bit (acc :: nat) k \<or> s \<le> k \<and> k - s < length ps \<and> P (ps ! (k - s))"
proof (induction ps arbitrary: s acc)
  case (Cons p ps)
  have "bit (push_bit s (of_bool (P p)) :: nat) k \<longleftrightarrow> k = s \<and> P p"
    by (auto simp: bit_push_bit_iff bit_of_bool_iff)
  moreover have "fold (\<lambda>(n, pos) a. a OR push_bit n (of_bool (P pos))) (enumerate s (p # ps)) acc =
      fold (\<lambda>(n, pos) a. a OR push_bit n (of_bool (P pos))) (enumerate (Suc s) ps)
        (acc OR push_bit s (of_bool (P p)))"
    by simp
  ultimately show ?case
    by (cases "s < k") (auto simp: Cons.IH bit_or_iff nth_Cons' Suc_le_eq simp del: fold_simps)
qed simp

lemma bit_index_bits: "bit (index_bits i ps) k \<longleftrightarrow> k < length ps \<and> bit i (ps ! k mod 32)"
  by (simp add: index_bits_def bit_fold_index)

lemma index_bits_horner: "index_bits i ps = horner_sum of_bool 2 (map (\<lambda>p. bit i (p mod 32)) ps)"
  by (rule bit_eqI) (auto simp: bit_index_bits bit_horner_sum_bit_iff)

lemma index_bits_less: "index_bits i ps < 2 ^ length ps"
  unfolding index_bits_horner
  using horner_sum_of_bool_2_less [of "map (\<lambda>p. bit i (p mod 32)) ps"] by simp

lemma bit_fold_mangle:
  "bit (fold (\<lambda>(d, pos) m. m OR push_bit (pos mod 32) (of_bool (P d))) (enumerate s ps) acc) k \<longleftrightarrow>
    bit (acc :: u32) k \<or> k < 32 \<and> (\<exists>j<length ps. ps ! j mod 32 = k \<and> P (s + j))"
proof (induction ps arbitrary: s acc)
  case (Cons p ps)
  have "bit (push_bit (p mod 32) (of_bool (P s)) :: u32) k \<longleftrightarrow> k < 32 \<and> k = p mod 32 \<and> P s"
    by (auto simp: bit_simps)
  moreover have "(\<exists>j<length (p # ps). (p # ps) ! j mod 32 = k \<and> P (s + j)) \<longleftrightarrow>
      k = p mod 32 \<and> P s \<or> (\<exists>j<length ps. ps ! j mod 32 = k \<and> P (Suc s + j))"
    by (auto simp: less_Suc_eq_0_disj)
  ultimately show ?case by (auto simp: Cons.IH bit_or_iff)
qed simp

lemma bit_mangle_word:
  "bit (mangle_word raw ps) k \<longleftrightarrow>
    k < 32 \<and> (\<exists>d<length ps. ps ! d mod 32 = k \<and> bit raw (d mod 32))"
  unfolding mangle_word_def by (simp add: bit_fold_mangle)

text \<open>Where the data lines go to different pins, each bit arrives at its own.\<close>

lemma bit_mangle_word_at:
  assumes "distinct ps" "\<forall>p \<in> set ps. p < 32" "d < length ps"
  shows "bit (mangle_word raw ps) (ps ! d) \<longleftrightarrow> bit raw d"
proof -
  have p: "ps ! j < 32" if "j < length ps" for j using assms(2) that by simp
  have "length ps \<le> 32"
  proof -
    have "set ps \<subseteq> {..<32}" using assms(2) by auto
    then have "card (set ps) \<le> 32" by (metis card_lessThan card_mono finite_lessThan)
    then show ?thesis using assms(1) by (simp add: distinct_card)
  qed
  then have "d < 32" using assms(3) by simp
  moreover have "ps ! j = ps ! d \<longleftrightarrow> j = d" if "j < length ps" for j
    using that assms(1,3) by (simp add: nth_eq_iff_index_eq)
  ultimately show ?thesis
    using p assms(3) by (auto simp: bit_mangle_word)
qed

lemma bit_byte_at [simp]: "bit (ucast (drop_bit (8 * b) (w :: u32)) :: u8) k \<longleftrightarrow> k < 8 \<and> bit w (8 * b + k)"
  by (auto simp: bit_simps)

lemma word_out_bit:
  assumes "k < 8 * wb"
  shows "bit (word_out wb w ! (k div 8)) (k mod 8) \<longleftrightarrow> bit w k"
proof -
  have "k div 8 < wb" using assms by (simp add: less_mult_imp_div_less mult.commute)
  then show ?thesis by (simp add: word_out_def)
qed

lemma raw_word_bit:
  assumes "raw_word wb data a = Some raw" "wb = 1 \<or> wb = 2" "d < 8 * wb"
  shows "bit raw d \<longleftrightarrow> bit (data ! (a * wb + d div 8)) (d mod 8)"
proof (cases "wb = 1")
  case True
  then show ?thesis using assms by (auto simp: raw_word_def get_Some_iff bit_simps)
next
  case False
  then have wb: "wb = 2" using assms(2) by simp
  obtain lo hi where r: "data ! (a * 2) = lo" "data ! Suc (a * 2) = hi"
    "raw = ucast lo OR push_bit 8 (ucast hi)"
    using assms(1) wb by (auto simp: raw_word_def get_Some_iff split: option.splits)
  show ?thesis
  proof (cases "d < 8")
    case True
    then show ?thesis by (simp add: wb r bit_simps)
  next
    case False
    then have "d div 8 = 1" "d mod 8 = d - 8" using assms(3) wb by (auto simp: mod_if)
    moreover have "\<not> bit lo d" using False bit_imp_le_length [of lo d] by auto
    ultimately show ?thesis using assms(3) wb False by (auto simp: r bit_simps)
  qed
qed

lemma bit_pad_raw:
  assumes "wb = 1 \<or> wb = 2" "d < 8 * wb"
  shows "bit (pad_raw wb) d \<longleftrightarrow> bit PAD_NO_CHIP_BYTE (d mod 8)"
proof -
  have "raw_word wb [PAD_NO_CHIP_BYTE, PAD_NO_CHIP_BYTE] 0 = Some (pad_raw wb)"
    using assms(1) by (auto simp: raw_word_def pad_raw_def get_def upt_conv_Cons)
  moreover have "[PAD_NO_CHIP_BYTE, PAD_NO_CHIP_BYTE] ! (d div 8) = PAD_NO_CHIP_BYTE"
    using assms by (cases "d < 8") (auto simp: nth_Cons')
  ultimately show ?thesis using raw_word_bit [OF _ assms] by simp
qed

section \<open>What the host should read\<close>

text \<open>
  \<open>pins\<close> gives the level of each GPIO. The address PIO reads the table index off its window;
  the host's address, and the chip it selects, are read off the pins directly.
\<close>

definition host_index :: "addr_layout \<Rightarrow> (nat \<Rightarrow> bool) \<Rightarrow> nat" where
  "host_index al pins =
     horner_sum of_bool 2 (map (\<lambda>k. pins (al_gpio_base al + k)) [0..<al_num_addr_pins al])"

definition host_address :: "addr_layout \<Rightarrow> (nat \<Rightarrow> bool) \<Rightarrow> nat" where
  "host_address al pins = horner_sum of_bool 2 (map pins (al_addr_pin_gpios al))"

definition host_chip ::
  "addr_layout \<Rightarrow> cs_data_layout \<Rightarrow> chip_set_type \<Rightarrow> nat \<Rightarrow> (nat \<Rightarrow> bool) \<Rightarrow> nat option" where
  "host_chip al cd set_type n pins =
     (let x1 = pins (the (al_x1_gpio al)); x2 = 3 \<le> n \<and> pins (the (al_x2_gpio al)) in
      case set_type of
        Set_Single \<Rightarrow> Some 0
      | Set_Banked \<Rightarrow> let bank = of_bool x1 + 2 * of_bool x2 in if bank < n then Some bank else None
      | Set_Multi \<Rightarrow>
          let cs = pins (sl_gpio (hd (cd_select_lines cd))) in
          if cs \<and> \<not> x1 \<and> \<not> x2 then Some 0
          else if \<not> cs \<and> x1 \<and> \<not> x2 then Some 1
          else if \<not> cs \<and> \<not> x1 \<and> x2 then Some 2
          else None)"

text \<open>Bit \<open>d\<close> of the word a chip of the set holds at an address: mirrored in an undersized chip of
  a power-of-two size, the pad byte beyond any other chip and where no chip is selected.\<close>

definition served_bit :: "chip list \<Rightarrow> nat \<Rightarrow> nat option \<Rightarrow> nat \<Rightarrow> nat \<Rightarrow> bool" where
  "served_bit chips wb sel a d =
     (case sel of
        None \<Rightarrow> bit PAD_NO_CHIP_BYTE (d mod 8)
      | Some c \<Rightarrow>
          let words = ct_size_bytes (ch_type (chips ! c)) div wb;
              data = the (ch_data (chips ! c))
          in if a < words then bit (data ! (a * wb + d div 8)) (d mod 8)
             else if is_power_of_two words then bit (data ! (a mod words * wb + d div 8)) (d mod 8)
             else bit PAD_NO_CHIP_BYTE (d mod 8))"

text \<open>The level of data GPIO \<open>g\<close> for a table index.\<close>

definition served_level :: "cs_data_layout \<Rightarrow> u8 list \<Rightarrow> nat \<Rightarrow> nat \<Rightarrow> nat \<Rightarrow> bool" where
  "served_level cd table wb i g =
     (let k = g - (cd_gpio_base cd + cd_base_data_pin cd) in
      bit (table ! (i * wb + k div 8)) (k mod 8))"

section \<open>The table against the specification\<close>

lemma bit_host_index:
  "bit (host_index al pins) k \<longleftrightarrow> k < al_num_addr_pins al \<and> pins (al_gpio_base al + k)"
  by (auto simp: host_index_def bit_horner_sum_bit_iff)

lemma host_index_less: "host_index al pins < 2 ^ al_num_addr_pins al"
  using horner_sum_of_bool_2_less [of "map (\<lambda>k. pins (al_gpio_base al + k)) [0..<al_num_addr_pins al]"]
  by (simp add: host_index_def)

definition in_addr_window :: "addr_layout \<Rightarrow> nat \<Rightarrow> bool" where
  "in_addr_window al g \<longleftrightarrow> al_gpio_base al \<le> g \<and> g < al_gpio_base al + al_num_addr_pins al"

lemma u8_sub_small: "b \<le> a \<Longrightarrow> a < 256 \<Longrightarrow> u8_sub a b = a - b"
proof -
  assume "b \<le> a" "a < 256"
  then have "a + 256 - b = (a - b) + 256" by simp
  then show ?thesis using \<open>a < 256\<close> unfolding u8_sub_def by (simp only: mod_add_self2) simp
qed

lemma index_bit_pin:
  assumes "in_addr_window al g" "al_num_addr_pins al < 32" "al_gpio_base al < 48"
  shows "bit (host_index al pins) (u8_sub g (al_gpio_base al) mod 32) \<longleftrightarrow> pins g"
  using assms by (auto simp: in_addr_window_def u8_sub_small bit_host_index)

lemma index_bits_address:
  assumes "\<forall>g \<in> set (al_addr_pin_gpios al). in_addr_window al g"
    "al_num_addr_pins al < 32" "al_gpio_base al < 48"
  shows "index_bits (host_index al pins) (map (\<lambda>g. u8_sub g (al_gpio_base al)) (al_addr_pin_gpios al)) =
    host_address al pins"
  unfolding index_bits_horner host_address_def map_map comp_def
  using assms index_bit_pin by (intro arg_cong [where f = "horner_sum of_bool 2"] map_cong) auto

lemma select_chip_host:
  assumes "bank_bit_positions al set_type n = Some (Inr banks)"
    and "multi_select_bits al cd set_type n = Some multi"
    and "al_num_addr_pins al < 32" "al_gpio_base al < 48"
    and "\<forall>g \<in> set_option (al_x1_gpio al) \<union> set_option (al_x2_gpio al). in_addr_window al g"
    and "set_type = Set_Multi \<longrightarrow> in_addr_window al (sl_gpio (hd (cd_select_lines cd)))"
  shows "select_chip multi banks n (host_index al pins) = host_chip al cd set_type n pins"
proof -
  note pin = index_bit_pin [OF _ assms(3,4)]
  show ?thesis
  proof (cases set_type)
    case Set_Single
    then show ?thesis using assms(1,2)
      by (auto simp: bank_bit_positions_def multi_select_bits_def select_chip_def host_chip_def
          index_bits_def split: if_splits)
  next
    case Set_Banked
    then show ?thesis using assms(1,2,5) pin
      by (auto simp: bank_bit_positions_def multi_select_bits_def select_chip_def host_chip_def
          index_bits_horner Let_def split: option.splits if_splits)
  next
    case Set_Multi
    then obtain line lines x1 where c: "cd_select_lines cd = line # lines" "al_x1_gpio al = Some x1"
      using assms(2) by (auto simp: multi_select_bits_def first_def split: list.splits option.splits)
    then show ?thesis using assms(1,2,5,6) pin Set_Multi
      by (auto simp: bank_bit_positions_def multi_select_bits_def select_chip_def host_chip_def
          Let_def split: if_splits bool.splits)
  qed
qed

lemma collect_data_Inr:
  "collect_data k cs = Inr ds \<longleftrightarrow> (\<forall>c \<in> set cs. ch_data c \<noteq> None) \<and> ds = map (\<lambda>c. the (ch_data c)) cs"
  by (induction cs arbitrary: k ds) (auto simp: bind_r_Inr_iff)

lemma host_chip_less:
  assumes "bank_bit_positions al set_type n = Some (Inr banks)" "host_chip al cd set_type n pins = Some c"
  shows "c < n"
  using assms
  by (auto simp: bank_bit_positions_def host_chip_def Let_def split: chip_set_type.splits if_splits)

lemma nth_concat_uniform:
  assumes "\<forall>w \<in> set ws. length w = n" "i < length ws" "j < n"
  shows "concat ws ! (i * n + j) = ws ! i ! j"
  using assms
proof (induction ws arbitrary: i)
  case (Cons w ws)
  then show ?case by (cases i) (auto simp: nth_append)
qed simp

lemma length_concat_uniform: "\<forall>w \<in> set ws. length w = n \<Longrightarrow> length (concat ws) = length ws * n"
  by (induction ws) auto

lemma length_word_out [simp]: "length (word_out wb w) = wb"
  by (simp add: word_out_def)

lemma table_entry_length: "table_entry t i = Some bytes \<Longrightarrow> length bytes = rt_word_bytes t"
  by (auto simp: table_entry_def Let_def split: option.splits)

lemma is_power_of_two_mask: "is_power_of_two n \<Longrightarrow> a AND (n - Suc 0) = a mod n"
  unfolding is_power_of_two_def One_nat_def [symmetric]
  by (metis mask_eq_exp_minus_1 take_bit_eq_mask take_bit_eq_mod)

text \<open>The word a chip answers with is the one the specification describes.\<close>

lemma chip_word_bit:
  assumes "chip_word wb words data a = Some r" "wb = 1 \<or> wb = 2" "d < 8 * wb"
  shows "bit (case r of Some raw \<Rightarrow> raw | None \<Rightarrow> pad_raw wb) d \<longleftrightarrow>
    (if a < words then bit (data ! (a * wb + d div 8)) (d mod 8)
     else if is_power_of_two words then bit (data ! (a mod words * wb + d div 8)) (d mod 8)
     else bit PAD_NO_CHIP_BYTE (d mod 8))"
  using assms raw_word_bit [OF _ assms(2,3)] bit_pad_raw [OF assms(2,3)]
  by (auto simp: chip_word_def is_power_of_two_mask split: if_splits)

text \<open>The hypotheses under which the table is read: the windows the layouts promise.\<close>

definition layouts_fit ::
  "addr_layout \<Rightarrow> cs_data_layout \<Rightarrow> chip_set_type \<Rightarrow> nat \<Rightarrow> bool" where
  "layouts_fit al cd set_type wb \<longleftrightarrow>
     al_num_addr_pins al < 32 \<and> al_gpio_base al < 48 \<and>
     (\<forall>g \<in> set (al_addr_pin_gpios al) \<union> set_option (al_x1_gpio al) \<union> set_option (al_x2_gpio al).
       in_addr_window al g) \<and>
     (set_type = Set_Multi \<longrightarrow> in_addr_window al (sl_gpio (hd (cd_select_lines cd)))) \<and>
     distinct (cd_data_pin_gpios cd) \<and> cd_gpio_base cd + cd_base_data_pin cd < 48 \<and>
     length (cd_data_pin_gpios cd) \<le> 8 * wb \<and>
     (\<forall>g \<in> set (cd_data_pin_gpios cd). cd_gpio_base cd + cd_base_data_pin cd \<le> g \<and>
       g < cd_gpio_base cd + cd_base_data_pin cd + 8 * wb)"

lemma data_bits_ok:
  assumes "layouts_fit al cd set_type wb" "wb = 1 \<or> wb = 2"
  defines "D \<equiv> cd_gpio_base cd + cd_base_data_pin cd"
  defines "ps \<equiv> map (\<lambda>g. u8_sub g (D mod 256)) (cd_data_pin_gpios cd)"
  shows "ps = map (\<lambda>g. g - D) (cd_data_pin_gpios cd)" "distinct ps" "\<forall>p \<in> set ps. p < 8 * wb"
proof -
  have g: "D \<le> g \<and> g < D + 8 * wb \<and> g < 256" if "g \<in> set (cd_data_pin_gpios cd)" for g
    using assms(1,2) that by (auto simp: layouts_fit_def D_def)
  have "D mod 256 = D" using assms(1) by (simp add: layouts_fit_def D_def)
  then show ps: "ps = map (\<lambda>g. g - D) (cd_data_pin_gpios cd)"
    using g by (auto simp: ps_def u8_sub_small)
  have "inj_on (\<lambda>g. g - D) (set (cd_data_pin_gpios cd))"
    using g by (intro inj_onI) (metis le_add_diff_inverse)
  then show "distinct ps" using assms(1) by (simp add: ps distinct_map layouts_fit_def)
  show "\<forall>p \<in> set ps. p < 8 * wb"
  proof
    fix p assume "p \<in> set ps"
    then obtain x where "x \<in> set (cd_data_pin_gpios cd)" "p = x - D" by (auto simp: ps)
    then show "p < 8 * wb" using g [of x] by linarith
  qed
qed

lemma mangled_out_bit:
  assumes "distinct ps" "\<forall>p \<in> set ps. p < 8 * wb" "wb = 1 \<or> wb = 2" "d < length ps"
  shows "bit (word_out wb (mangle_word raw ps) ! (ps ! d div 8)) (ps ! d mod 8) \<longleftrightarrow> bit raw d"
proof -
  have k: "ps ! d < 8 * wb" using assms(2,4) by simp
  have "\<forall>p \<in> set ps. p < 32" using assms(2,3) by auto
  then show ?thesis
    using word_out_bit [OF k] bit_mangle_word_at [OF assms(1) _ assms(4)] by simp
qed

lemma table_entry_bit:
  assumes "bank_bit_positions al set_type (length chips) = Some (Inr banks)"
    and "multi_select_bits al cd set_type (length chips) = Some multi"
    and "data = map (\<lambda>c. the (ch_data c)) chips"
    and "layouts_fit al cd set_type wb" "wb = 1 \<or> wb = 2"
    and "table_entry (rom_tables_of al cd chips wb banks multi data) (host_index al pins) = Some bytes"
    and "d < length (cd_data_pin_gpios cd)"
  defines "k \<equiv> cd_data_pin_gpios cd ! d - (cd_gpio_base cd + cd_base_data_pin cd)"
  shows "bit (bytes ! (k div 8)) (k mod 8) \<longleftrightarrow>
    served_bit chips wb (host_chip al cd set_type (length chips) pins) (host_address al pins) d"
proof -
  let ?t = "rom_tables_of al cd chips wb banks multi data"
  let ?a = "host_address al pins" and ?sel = "host_chip al cd set_type (length chips) pins"
  note ps = data_bits_ok [OF assms(4,5)]
  let ?ps = "rt_data_bits ?t"
  have t: "rt_word_bytes ?t = wb" "rt_chip_data ?t = data" "rt_multi ?t = multi" "rt_bank_bits ?t = banks"
    "rt_chip_sizes ?t = map (\<lambda>c. ct_size_bytes (ch_type c) div wb) chips"
    "?ps = map (\<lambda>g. u8_sub g ((cd_gpio_base cd + cd_base_data_pin cd) mod 256)) (cd_data_pin_gpios cd)"
    by (simp_all add: rom_tables_of_def)
  have addr: "index_bits (host_index al pins) (rt_addr_bits ?t) = ?a"
    using assms(4) by (simp add: rom_tables_of_def index_bits_address layouts_fit_def)
  have sel: "select_chip multi banks (length data) (host_index al pins) = ?sel"
    using select_chip_host [OF assms(1,2)] assms(3,4) by (simp add: layouts_fit_def)
  have psd: "?ps ! d = k" unfolding t(6) ps(1) using assms(7) by (simp add: k_def)
  have "d < length ?ps" by (simp add: t(6) assms(7))
  then have out: "bit (word_out wb (mangle_word raw ?ps) ! (k div 8)) (k mod 8) \<longleftrightarrow> bit raw d" for raw
    using mangled_out_bit [OF ps(2,3) assms(5), folded t(6), of d raw] unfolding psd by blast
  have d: "d < 8 * wb" using assms(4,7) by (simp add: layouts_fit_def)
  have pad: "bit (pad_raw wb) d \<longleftrightarrow> bit PAD_NO_CHIP_BYTE (d mod 8)"
    by (rule bit_pad_raw [OF assms(5) d])
  show ?thesis
  proof (cases ?sel)
    case None
    then have "bytes = word_out wb (mangle_word (pad_raw wb) ?ps)"
      using assms(6) by (simp add: table_entry_def Let_def t addr sel)
    then show ?thesis using None out pad by (simp add: served_bit_def)
  next
    case (Some c)
    then have c: "c < length chips" by (rule host_chip_less [OF assms(1)])
    then obtain r where r: "chip_word wb (ct_size_bytes (ch_type (chips ! c)) div wb) (data ! c) ?a = Some r"
      "bytes = word_out wb (mangle_word (case r of Some raw \<Rightarrow> raw | None \<Rightarrow> pad_raw wb) ?ps)"
      using assms(6) Some by (auto simp: table_entry_def Let_def t(1-5) addr sel split: option.splits)
    have "data ! c = the (ch_data (chips ! c))" using c assms(3) by simp
    then show ?thesis
      using chip_word_bit [OF r(1) assms(5) d] Some by (simp add: r(2) out served_bit_def Let_def)
  qed
qed

lemma build_rom_image_Inr:
  assumes "build_rom_image al cd set_type chips dma = Some (Inr table)" "bytes_per_word dma = Some wb"
  obtains banks multi data ws where "wb = 1 \<or> wb = 2"
    "table_entries al * wb \<le> MAX_IMAGE_SIZE"
    "bank_bit_positions al set_type (length chips) = Some (Inr banks)"
    "multi_select_bits al cd set_type (length chips) = Some multi"
    "\<forall>c \<in> set chips. ch_data c \<noteq> None" "data = map (\<lambda>c. the (ch_data c)) chips"
    "map (table_entry (rom_tables_of al cd chips wb banks multi data)) [0..<table_entries al] = map Some ws"
    "table = concat ws"
proof -
  note wb = assms(2)
  then have wb12: "wb = 1 \<or> wb = 2"
    by (auto simp: bytes_per_word_def split: alg_dma_config.splits maybe_known.splits bit_mode.splits)
  have size: "table_entries al * wb \<le> MAX_IMAGE_SIZE"
    using assms wb by (auto simp: build_rom_image_def Let_def split: if_splits)
  then obtain banks multi data where p:
    "bank_bit_positions al set_type (length chips) = Some (Inr banks)"
    "multi_select_bits al cd set_type (length chips) = Some multi" "collect_data 0 chips = Inr data"
    using assms wb by (auto simp: build_rom_image_def Let_def split: option.splits sum.splits)
  obtain ws where "those (map (table_entry (rom_tables_of al cd chips wb banks multi data))
      [0..<table_entries al]) = Some ws" "table = concat ws"
    using assms wb p size by (auto simp: build_rom_image_def Let_def)
  then show thesis
    using p by (intro that [OF wb12 size p(1,2)]) (auto simp: collect_data_Inr those_Some)
qed

section \<open>Properties of the ROM table\<close>

lemma rom_table_serves:
  assumes "build_rom_image al cd set_type chips dma = Some (Inr table)"
    and "bytes_per_word dma = Some wb" "layouts_fit al cd set_type wb"
    and "d < length (cd_data_pin_gpios cd)"
  shows "length table = 2 ^ al_num_addr_pins al * wb \<and>
    served_level cd table wb (host_index al pins) (cd_data_pin_gpios cd ! d) =
    served_bit chips wb (host_chip al cd set_type (length chips) pins) (host_address al pins) d"
proof -
  obtain banks multi data ws where b: "wb = 1 \<or> wb = 2"
    "bank_bit_positions al set_type (length chips) = Some (Inr banks)"
    "multi_select_bits al cd set_type (length chips) = Some multi"
    "data = map (\<lambda>c. the (ch_data c)) chips"
    "map (table_entry (rom_tables_of al cd chips wb banks multi data)) [0..<table_entries al] = map Some ws"
    "table = concat ws"
    by (rule build_rom_image_Inr [OF assms(1,2)])
  let ?t = "rom_tables_of al cd chips wb banks multi data"
  have n: "table_entries al = 2 ^ al_num_addr_pins al"
    using assms(3) by (simp add: table_entries_def layouts_fit_def)
  have len: "length ws = 2 ^ al_num_addr_pins al" using b(5) n by (metis length_map length_upt minus_nat.diff_0)
  have entry: "table_entry ?t i = Some (ws ! i)" if "i < 2 ^ al_num_addr_pins al" for i
    using b(5) that n len by (metis (no_types, lifting) add_0 diff_zero length_map length_upt nth_map nth_upt)
  have wlen: "\<forall>w \<in> set ws. length w = wb"
  proof
    fix w assume "w \<in> set ws"
    then obtain i where "i < 2 ^ al_num_addr_pins al" "w = ws ! i" using len by (metis in_set_conv_nth)
    then show "length w = wb" using table_entry_length [OF entry] by (simp add: rom_tables_of_def)
  qed
  let ?k = "cd_data_pin_gpios cd ! d - (cd_gpio_base cd + cd_base_data_pin cd)"
  let ?g = "cd_data_pin_gpios cd ! d" and ?D = "cd_gpio_base cd + cd_base_data_pin cd"
  have "?D \<le> ?g \<and> ?g < ?D + 8 * wb"
    using assms(3,4) nth_mem [of d "cd_data_pin_gpios cd"] by (auto simp: layouts_fit_def)
  then have "?k < 8 * wb" by linarith
  then have k: "?k div 8 < wb" by (simp add: less_mult_imp_div_less mult.commute)
  have i: "host_index al pins < 2 ^ al_num_addr_pins al" by (rule host_index_less)
  have "served_level cd table wb (host_index al pins) ?g =
      bit (ws ! host_index al pins ! (?k div 8)) (?k mod 8)"
    using nth_concat_uniform [OF wlen _ k] i len by (simp add: served_level_def Let_def b(6))
  also have "\<dots> = served_bit chips wb (host_chip al cd set_type (length chips) pins) (host_address al pins) d"
    by (rule table_entry_bit [OF b(2-4) assms(3) b(1) entry [OF i] assms(4)])
  finally show ?thesis using length_concat_uniform [OF wlen] len b(6) by simp
qed

text \<open>
  C9: the host reads what the chips hold. For a table built from fitting layouts, whatever the
  levels of the pins, each data line of the entry they index shows the bit the specification
  says: of the chip they select (by bank pins, or by exactly one active select line in a multi
  set), at the address on the address lines, mirrored or padded beyond the chip's size.
\<close>

theorem rom_image_serves:
  assumes "build_rom_image al cd set_type chips dma = Some (Inr table)"
    and "bytes_per_word dma = Some wb" "layouts_fit al cd set_type wb"
    and "d < length (cd_data_pin_gpios cd)"
  shows "length table = 2 ^ al_num_addr_pins al * wb \<and>
    served_level cd table wb (host_index al pins) (cd_data_pin_gpios cd ! d) =
    served_bit chips wb (host_chip al cd set_type (length chips) pins) (host_address al pins) d"
  by (rule rom_table_serves [OF assms])

section \<open>Derived layouts fit\<close>

text \<open>
  What the board tables guarantee: no GPIO is wired to two pins, GPIOs are those of the chip, and
  only a board without X pins, which serves no multi set, has socket pins on two GPIOs.
\<close>

definition board_ok :: "board \<Rightarrow> bool" where
  "board_ok b \<longleftrightarrow>
     distinct (map fst (bd_socket_pin_map b)) \<and> distinct (map fst (bd_x_pin_map b)) \<and>
     distinct (concat (map snd (bd_socket_pin_map b)) @ concat (map snd (bd_x_pin_map b))) \<and>
     (\<forall>(pin, gpios) \<in> set (bd_socket_pin_map b @ bd_x_pin_map b). \<forall>g \<in> set gpios. g < 48) \<and>
     (bd_x_pin_map b \<noteq> [] \<longrightarrow> (\<forall>(pin, gpios) \<in> set (bd_socket_pin_map b). length gpios \<le> 1))"

lemma gpios_for_socket_pin_entry:
  assumes "g \<in> set (gpios_for_socket_pin b p)"
  shows "(p, gpios_for_socket_pin b p) \<in> set (bd_socket_pin_map b)"
  using assms by (auto simp: gpios_for_socket_pin_def split: option.splits dest: find_Some_mem)

lemma concat_nth_disjoint:
  "distinct (concat xss) \<Longrightarrow> i < j \<Longrightarrow> j < length xss \<Longrightarrow> set (xss ! i) \<inter> set (xss ! j) = {}"
proof (induction xss arbitrary: i j)
  case (Cons xs xss)
  then have "set xs \<inter> set (xss ! k) = {}" if "k < length xss" for k using nth_mem [OF that] by fastforce
  then show ?case using Cons by (cases i; cases j) auto
qed simp

lemma gpio_of_one_pin:
  assumes "board_ok b" "g \<in> set (gpios_for_socket_pin b p)" "g \<in> set (gpios_for_socket_pin b q)"
  shows "p = q"
proof -
  have e: "(p, gpios_for_socket_pin b p) \<in> set (bd_socket_pin_map b)"
    "(q, gpios_for_socket_pin b q) \<in> set (bd_socket_pin_map b)"
    using assms(2,3) by (simp_all add: gpios_for_socket_pin_entry)
  then obtain i j where i: "i < length (bd_socket_pin_map b)" "bd_socket_pin_map b ! i = (p, gpios_for_socket_pin b p)"
    and j: "j < length (bd_socket_pin_map b)" "bd_socket_pin_map b ! j = (q, gpios_for_socket_pin b q)"
    by (metis in_set_conv_nth)
  have "\<not> i < j" "\<not> j < i"
    using assms i j concat_nth_disjoint [of "map snd (bd_socket_pin_map b)" i j]
      concat_nth_disjoint [of "map snd (bd_socket_pin_map b)" j i]
    by (auto simp: board_ok_def)
  then have "i = j" by simp
  then show ?thesis using i(2) j(2) by simp
qed

lemma gpio_unique:
  assumes "board_ok b" "bd_x_pin_map b \<noteq> []" "g \<in> set (gpios_for_socket_pin b p)"
  shows "gpios_for_socket_pin b p = [g]"
  using gpios_for_socket_pin_entry [OF assms(3)] assms
  by (cases "gpios_for_socket_pin b p") (auto simp: board_ok_def)

lemma wired_pin_inj:
  assumes "board_ok (sc_board ctx)" "wired_pin ctx p g" "wired_pin ctx q g"
  shows "p = q"
proof -
  have "nat (socket_pin_of ctx p) = nat (socket_pin_of ctx q)"
    using assms by (auto simp: wired_pin_def dest: gpio_of_one_pin)
  then show ?thesis using assms(2,3) by (auto simp: wired_pin_def overhangs_def socket_pin_of_def)
qed

lemma data_gpios_distinct:
  assumes "board_ok (sc_board ctx)" "distinct pins" "list_all2 (wired_pin ctx) pins gs"
  shows "distinct gs"
  unfolding distinct_conv_nth
proof (intro allI impI)
  fix i j assume ij: "i < length gs" "j < length gs" "i \<noteq> j"
  then have "wired_pin ctx (pins ! i) (gs ! i)" "wired_pin ctx (pins ! j) (gs ! j)"
    "pins ! i \<noteq> pins ! j"
    using assms(2,3) by (auto simp: list_all2_conv_all_nth nth_eq_iff_index_eq)
  then show "gs ! i \<noteq> gs ! j" using wired_pin_inj [OF assms(1)] by metis
qed

text \<open>The per-chip select line is in the address window, being spanned by it.\<close>

lemma per_chip_select_in_window:
  assumes "board_ok (sc_board ctx)" "derive_addr_layout ctx = Some (Inr al)"
    and "sc_set_type ctx = Set_Multi" "sc_multi_cs_config ctx = Some mcc"
    and "wired_kind ctx (hd (sc_chip_types ctx)) (per_chip_select mcc) line"
  shows "in_addr_window al (sl_gpio line)"
proof -
  let ?ct = "hd (sc_chip_types ctx)"
  obtain spec where spec:
    "List.find (\<lambda>l. cl_name l = kind_name (per_chip_select mcc)) (ct_control_lines ?ct) = Some spec"
    "wired_pin ctx (cl_pin spec) (sl_gpio line)"
    using assms(5) by (auto simp: wired_kind_def)
  have "bd_x_pin_map (sc_board ctx) \<noteq> []"
  proof -
    obtain s where "addr_search_of ctx = Some (Inr s)"
      using assms(2) by (auto simp: derive_addr_layout_Inr)
    then have "gpios_for_x_pin (sc_board ctx) 1 \<noteq> []"
      using assms(3) by (auto elim!: addr_search_of_Inr simp: x_candidates_def Let_def split: if_splits)
    then show ?thesis by (auto simp: gpios_for_x_pin_def)
  qed
  then have "gpios_for_socket_pin (sc_board ctx) (nat (socket_pin_of ctx (cl_pin spec))) = [sl_gpio line]"
    using gpio_unique [OF assms(1)] spec(2) by (simp add: wired_pin_def)
  then have "control_line_gpio ctx ?ct (per_chip_select mcc) = Some (sl_gpio line)"
    using spec by (simp add: control_line_gpio_def wired_pin_def)
  then have "sl_gpio line \<in> set (multi_span_gpios ctx ?ct)"
    using assms(3,4) by (simp add: multi_span_gpios_def map_filter_simps)
  then show ?thesis using derived_window [OF assms(2)] by (simp add: in_addr_window_def)
qed

lemma layouts_fit_derived:
  assumes "derive_addr_layout ctx = Some (Inr al)" "derive_cs_data_layout ctx (Some al) = Some (Inr cd)"
    and "board_ok (sc_board ctx)" "distinct (ct_data_pins (hd (sc_chip_types ctx)))"
    and "ct_data_pins (hd (sc_chip_types ctx)) \<noteq> []"
    and "length (ct_data_pins (hd (sc_chip_types ctx))) \<le> 8 * wb" "al_num_addr_pins al < 32" "wb \<le> 2"
  shows "layouts_fit al cd (sc_set_type ctx) wb"
proof -
  let ?ct = "hd (sc_chip_types ctx)"
  note win = derived_window [OF assms(1)] and runs = derived_runs [OF assms(2)]
    and wired = derived_lines_wired [OF assms(2)]
  have d: "list_all2 (wired_pin ctx) (ct_data_pins ?ct) (cd_data_pin_gpios cd)" using wired by blast
  then have dist: "distinct (cd_data_pin_gpios cd)" by (rule data_gpios_distinct [OF assms(3,4)])
  have len: "length (cd_data_pin_gpios cd) \<le> 8 * wb" using list_all2_lengthD [OF d] assms(6) by simp
  let ?D = "cd_gpio_base cd + cd_base_data_pin cd"
  have run: "set (cd_data_pin_gpios cd) = {?D..<?D + length (cd_data_pin_gpios cd)}"
    using runs distinct_card [OF dist] by simp
  have D: "?D < 48"
  proof -
    have "cd_data_pin_gpios cd \<noteq> []" using assms(5) list_all2_lengthD [OF d] by auto
    then have "?D \<in> set (cd_data_pin_gpios cd)" using run by simp
    then have "?D < cd_gpio_base cd + 32" "cd_gpio_base cd \<in> {0, 16}" using runs by blast+
    then show ?thesis by auto
  qed
  have base: "al_gpio_base al < 48"
    using win by (auto simp: fits_pio_window_iff MIN_ADDR_PINS_def)
  have sel: "in_addr_window al (sl_gpio (hd (cd_select_lines cd)))" if multi: "sc_set_type ctx = Set_Multi"
  proof -
    obtain mcc line xs where "sc_multi_cs_config ctx = Some mcc"
      "cd_select_lines cd = (line # xs) @ half_select_lines (Some al)"
      "wired_kind ctx ?ct (per_chip_select mcc) line"
      using wired multi by auto
    then show ?thesis using per_chip_select_in_window [OF assms(3,1) multi] by simp
  qed
  show ?thesis
    unfolding layouts_fit_def
    using win assms(7) base sel dist len run D
    by (auto simp: in_addr_window_def)
qed

text \<open>
  C10: the layouts the two derivations produce for one set are exactly what the ROM table needs.
  On a board whose socket pins have one GPIO each, no two sharing one, for a chip with distinct
  data pins, at most as many as the table's words have bits, they fit: every index bit lies
  in the address window and every data line in the word.
\<close>

theorem derived_layouts_fit:
  assumes "derive_addr_layout ctx = Some (Inr al)" "derive_cs_data_layout ctx (Some al) = Some (Inr cd)"
    and "board_ok (sc_board ctx)" "distinct (ct_data_pins (hd (sc_chip_types ctx)))"
    and "ct_data_pins (hd (sc_chip_types ctx)) \<noteq> []"
    and "length (ct_data_pins (hd (sc_chip_types ctx))) \<le> 8 * wb" "al_num_addr_pins al < 32" "wb \<le> 2"
  shows "layouts_fit al cd (sc_set_type ctx) wb"
  by (rule layouts_fit_derived [OF assms])

section \<open>The table is built\<close>

lemma raw_word_Some:
  assumes "wb = 1 \<or> wb = 2" "a < sz div wb" "sz \<le> length data"
  shows "\<exists>raw. raw_word wb data a = Some raw"
proof -
  have "a * wb + (wb - 1) < length data"
  proof -
    have "(a + 1) * wb \<le> sz div wb * wb" using assms(2) by (intro mult_right_mono) auto
    also have "\<dots> \<le> sz" by simp
    finally show ?thesis using assms(1,3) by auto
  qed
  then show ?thesis using assms(1) by (auto simp: raw_word_def get_def)
qed

lemma chip_word_Some:
  assumes "wb = 1 \<or> wb = 2" "sz \<le> length data"
  shows "\<exists>r. chip_word wb (sz div wb) data a = Some r"
proof -
  have "is_power_of_two n \<Longrightarrow> a mod n < n" for n
    by (simp add: is_power_of_two_def) (metis mod_less_divisor zero_less_numeral zero_less_power)
  then show ?thesis
    using raw_word_Some [OF assms(1) _ assms(2)]
    by (auto simp: chip_word_def is_power_of_two_mask not_le split: if_splits)
qed

text \<open>Whether a set's chip count and X pins are as its type wants them.\<close>

definition set_shape :: "addr_layout \<Rightarrow> cs_data_layout \<Rightarrow> chip_set_type \<Rightarrow> nat \<Rightarrow> bool" where
  "set_shape al cd set_type n \<longleftrightarrow>
     (case set_type of
        Set_Single \<Rightarrow> n = 1
      | Set_Banked \<Rightarrow> n \<in> {2, 3, 4}
      | Set_Multi \<Rightarrow> n \<in> {2, 3} \<and> cd_select_lines cd \<noteq> []) \<and>
     (set_type \<noteq> Set_Single \<longrightarrow> al_x1_gpio al \<noteq> None \<and> (3 \<le> n \<longrightarrow> al_x2_gpio al \<noteq> None))"

lemma set_shape_banks:
  "set_shape al cd set_type n \<Longrightarrow> \<exists>banks. bank_bit_positions al set_type n = Some (Inr banks)"
  by (cases set_type) (auto simp: set_shape_def bank_bit_positions_def Let_def)

lemma set_shape_multi:
  "set_shape al cd set_type n \<Longrightarrow> \<exists>multi. multi_select_bits al cd set_type n = Some multi"
  by (cases "cd_select_lines cd") (auto simp: set_shape_def multi_select_bits_def Let_def)

lemma select_chip_less:
  assumes "bank_bit_positions al set_type n = Some (Inr banks)"
    and "multi_select_bits al cd set_type n = Some multi" "select_chip multi banks n i = Some c"
  shows "c < n"
proof (cases multi)
  case None
  then show ?thesis using assms(3) by (auto simp: select_chip_def Let_def split: if_splits)
next
  case (Some m)
  then have "set_type = Set_Multi" using assms(2) by (auto simp: multi_select_bits_def split: if_splits)
  then have "2 \<le> n" using assms(1) by (auto simp: bank_bit_positions_def split: if_splits)
  then show ?thesis using assms(3) Some
    by (auto simp: select_chip_def split: prod.splits if_splits bool.splits)
qed

lemma collect_data_Inl:
  assumes "\<exists>c \<in> set cs. ch_data c = None"
  shows "\<exists>k<length cs. ch_data (cs ! k) = None \<and> (\<forall>j<k. ch_data (cs ! j) \<noteq> None) \<and>
    collect_data i cs = Inl (MissingImageData (ch_type (cs ! k)) (i + k))"
  using assms
proof (induction cs arbitrary: i)
  case (Cons c cs)
  show ?case
  proof (cases "ch_data c")
    case None
    then show ?thesis by (intro exI [of _ 0]) simp
  next
    case (Some d)
    then obtain k where k: "k < length cs" "ch_data (cs ! k) = None" "\<forall>j<k. ch_data (cs ! j) \<noteq> None"
      "collect_data (i + 1) cs = Inl (MissingImageData (ch_type (cs ! k)) (i + 1 + k))"
      using Cons.IH [of "i + 1"] Cons.prems by auto
    then show ?thesis using Some by (intro exI [of _ "Suc k"]) (auto simp: less_Suc_eq_0_disj)
  qed
qed simp

lemma those_all: "(\<And>i. f i \<noteq> None) \<Longrightarrow> \<exists>ws. those (map f is) = Some ws"
proof (induction "is")
  case (Cons a "is")
  have "f a \<noteq> None" by (rule Cons.prems)
  then obtain y where "f a = Some y" by blast
  moreover obtain ws where "those (map f is) = Some ws" using Cons by blast
  ultimately show ?case by simp
qed simp

lemma rom_image_outcome:
  assumes "bytes_per_word dma = Some wb" "set_shape al cd set_type (length chips)"
    and "\<forall>c \<in> set chips. \<forall>data. ch_data c = Some data \<longrightarrow> ct_size_bytes (ch_type c) \<le> length data"
  shows "if MAX_IMAGE_SIZE < table_entries al * wb
    then build_rom_image al cd set_type chips dma =
      Some (Inl (RomTableTooLarge (table_entries al * wb) MAX_IMAGE_SIZE))
    else if \<exists>c \<in> set chips. ch_data c = None
    then \<exists>k<length chips. ch_data (chips ! k) = None \<and> (\<forall>j<k. ch_data (chips ! j) \<noteq> None) \<and>
      build_rom_image al cd set_type chips dma = Some (Inl (MissingImageData (ch_type (chips ! k)) k))
    else \<exists>table. build_rom_image al cd set_type chips dma = Some (Inr table)"
proof -
  let ?n = "length chips"
  have wb12: "wb = 1 \<or> wb = 2"
    using assms(1) by (auto simp: bytes_per_word_def
        split: alg_dma_config.splits maybe_known.splits bit_mode.splits)
  obtain banks where banks: "bank_bit_positions al set_type ?n = Some (Inr banks)"
    using set_shape_banks [OF assms(2)] by blast
  obtain multi where multi: "multi_select_bits al cd set_type ?n = Some multi"
    using set_shape_multi [OF assms(2)] by blast
  have build: "build_rom_image al cd set_type chips dma =
      (case collect_data 0 chips of
         Inl e \<Rightarrow> Some (Inl e)
       | Inr data \<Rightarrow> map_option (\<lambda>ws. Inr (concat ws))
           (those (map (table_entry (rom_tables_of al cd chips wb banks multi data)) [0..<table_entries al])))"
    if "\<not> MAX_IMAGE_SIZE < table_entries al * wb"
    using that assms(1) banks multi by (simp add: build_rom_image_def Let_def)
  have missing: "\<exists>k<?n. ch_data (chips ! k) = None \<and> (\<forall>j<k. ch_data (chips ! j) \<noteq> None) \<and>
      collect_data 0 chips = Inl (MissingImageData (ch_type (chips ! k)) k)"
    if "\<exists>c \<in> set chips. ch_data c = None"
    using collect_data_Inl [OF that, of 0] by simp
  have built: "\<exists>ws. those (map (table_entry (rom_tables_of al cd chips wb banks multi data)) is) = Some ws"
    if "\<forall>c \<in> set chips. ch_data c \<noteq> None" "data = map (\<lambda>c. the (ch_data c)) chips" for data "is"
  proof (rule those_all)
    fix i
    show "table_entry (rom_tables_of al cd chips wb banks multi data) i \<noteq> None"
    proof (cases "select_chip multi banks ?n i")
      case None
      then show ?thesis by (simp add: table_entry_def rom_tables_of_def Let_def that(2))
    next
      case (Some c)
      have c: "c < ?n" by (rule select_chip_less [OF banks multi Some])
      then have "chips ! c \<in> set chips" by simp
      then have "ct_size_bytes (ch_type (chips ! c)) \<le> length (the (ch_data (chips ! c)))"
        using assms(3) that(1) by (metis option.collapse)
      then show ?thesis
        using chip_word_Some [OF wb12] Some c
        by (fastforce simp: table_entry_def rom_tables_of_def Let_def that(2) split: option.splits)
    qed
  qed
  show ?thesis
  proof (cases "MAX_IMAGE_SIZE < table_entries al * wb")
    case True
    then show ?thesis using assms(1) by (simp add: build_rom_image_def Let_def)
  next
    case small: False
    show ?thesis
    proof (cases "\<exists>c \<in> set chips. ch_data c = None")
      case True
      then show ?thesis using missing [OF True] build [OF small] small by auto
    next
      case False
      then have "collect_data 0 chips = Inr (map (\<lambda>c. the (ch_data c)) chips)"
        by (auto simp: collect_data_Inr)
      then show ?thesis
        using built [OF _ refl] build [OF small] small False by fastforce
    qed
  qed
qed

text \<open>
  C11: the table is always built. For a set of the right shape whose table fits the slot's RAM
  and whose chips hold at least their size in data, nothing panics and no error is returned;
  without the data of a chip, the first such chip is named; and a table too large is refused
  before anything else is looked at.
\<close>

theorem rom_image_built:
  assumes "bytes_per_word dma = Some wb" "set_shape al cd set_type (length chips)"
    and "\<forall>c \<in> set chips. \<forall>data. ch_data c = Some data \<longrightarrow> ct_size_bytes (ch_type c) \<le> length data"
  shows "if MAX_IMAGE_SIZE < table_entries al * wb
    then build_rom_image al cd set_type chips dma =
      Some (Inl (RomTableTooLarge (table_entries al * wb) MAX_IMAGE_SIZE))
    else if \<exists>c \<in> set chips. ch_data c = None
    then \<exists>k<length chips. ch_data (chips ! k) = None \<and> (\<forall>j<k. ch_data (chips ! j) \<noteq> None) \<and>
      build_rom_image al cd set_type chips dma = Some (Inl (MissingImageData (ch_type (chips ! k)) k))
    else \<exists>table. build_rom_image al cd set_type chips dma = Some (Inr table)"
  by (rule rom_image_outcome [OF assms])

section \<open>Witnesses\<close>

definition tiny_addr :: addr_layout where
  "tiny_addr = \<lparr>al_gpio_base = 10, al_num_addr_pins = 8, al_x1_gpio = None, al_x2_gpio = None,
     al_addr_pin_gpios = [12, 11], al_excess_addr_pin_gpios = []\<rparr>"

definition tiny_cs_data :: cs_data_layout where
  "tiny_cs_data = \<lparr>cd_gpio_base = 0, cd_base_data_pin = 0, cd_num_data_pins = 8,
     cd_data_pin_gpios = [7, 6, 5, 4, 3, 2, 1, 0], cd_base_cs_pin = 8, cd_num_cs_pins = 1,
     cd_cs_ignore_index = None, cd_select_lines = [\<lparr>sl_role = RoleCe, sl_gpio = 8\<rparr>],
     cd_commoned_lines = [], cd_alg_cs2 = None\<rparr>"

definition tiny_image :: "u8 list option \<Rightarrow> chip" where
  "tiny_image data = \<lparr>ch_index = 0, ch_filename = [], ch_label = None, ch_type = tiny_chip,
     ch_type_raw = [], ch_cs_config = CeOe, ch_data = data, ch_location = None\<rparr>"

definition tiny_dma :: alg_dma_config where
  "tiny_dma = AlgDma0 (Known BitMode8) 1"

lemma tiny_bytes: "bytes_per_word tiny_dma = Some 1"
  by (simp add: tiny_dma_def bytes_per_word_def)

lemma tiny_shape: "set_shape tiny_addr tiny_cs_data Set_Single 1"
  by (simp add: set_shape_def)

lemma tiny_size: "ct_size_bytes tiny_chip = 4"
  by (simp add: tiny_chip_def)

lemma tiny_fit: "layouts_fit tiny_addr tiny_cs_data Set_Single 1"
  by (simp add: layouts_fit_def tiny_addr_def tiny_cs_data_def in_addr_window_def)

theorem rom_image_serves_witness:
  "\<exists>table. build_rom_image tiny_addr tiny_cs_data Set_Single
      [tiny_image (Some [0x12, 0x34, 0x56, 0x78])] tiny_dma = Some (Inr table) \<and>
    length table = 256 \<and>
    served_level tiny_cs_data table 1 (host_index tiny_addr (\<lambda>g. g = 12)) 5"
proof -
  let ?c = "tiny_image (Some [0x12, 0x34, 0x56, 0x78])"
  have "\<not> MAX_IMAGE_SIZE < table_entries tiny_addr * 1"
    by (simp add: MAX_IMAGE_SIZE_def table_entries_def tiny_addr_def)
  then obtain table where t: "build_rom_image tiny_addr tiny_cs_data Set_Single [?c] tiny_dma = Some (Inr table)"
    using rom_image_outcome [OF tiny_bytes, of tiny_addr tiny_cs_data Set_Single "[?c]"] tiny_shape
    by (auto simp: tiny_image_def tiny_size)
  have a: "host_address tiny_addr (\<lambda>g. g = 12) = 1"
    by (simp add: host_address_def tiny_addr_def)
  have "served_bit [?c] 1 (host_chip tiny_addr tiny_cs_data Set_Single 1 (\<lambda>g. g = 12)) 1 2"
    by (simp add: served_bit_def host_chip_def tiny_image_def tiny_size)
  then show ?thesis
    using rom_image_serves [OF t tiny_bytes tiny_fit, of 2 "\<lambda>g. g = 12"] t a
    by (auto simp: tiny_cs_data_def tiny_addr_def nth_Cons')
qed

theorem rom_image_built_witness:
  "build_rom_image tiny_addr tiny_cs_data Set_Single [tiny_image None] tiny_dma =
    Some (Inl (MissingImageData tiny_chip 0))"
proof -
  have "\<not> MAX_IMAGE_SIZE < table_entries tiny_addr * 1"
    by (simp add: MAX_IMAGE_SIZE_def table_entries_def tiny_addr_def)
  then show ?thesis
    using rom_image_built [OF tiny_bytes, of tiny_addr tiny_cs_data Set_Single "[tiny_image None]"] tiny_shape
    by (auto simp: tiny_image_def)
qed

definition banked_search :: cs_search where
  "banked_search = \<lparr>cq_set_type = Set_Banked, cq_data = [[0], [1], [2], [3], [4], [5], [6], [7]],
     cq_gather = \<lparr>sg_select = [(RoleCs1, [10]), (RoleCs2, [11])], sg_commoned = [], sg_ignored = []\<rparr>,
     cq_excess = [], cq_qual = None\<rparr>"

definition banked_cs_data :: cs_data_layout where
  "banked_cs_data = \<lparr>cd_gpio_base = 0, cd_base_data_pin = 0, cd_num_data_pins = 8,
     cd_data_pin_gpios = [0, 1, 2, 3, 4, 5, 6, 7], cd_base_cs_pin = 10, cd_num_cs_pins = 2,
     cd_cs_ignore_index = None,
     cd_select_lines = [\<lparr>sl_role = RoleCs1, sl_gpio = 10\<rparr>, \<lparr>sl_role = RoleCs2, sl_gpio = 11\<rparr>],
     cd_commoned_lines = [], cd_alg_cs2 = None\<rparr>"

lemma banked_cs_search:
  "cs_search_of banked_pair three_cs_chip (Some banked_pair_layout) = Some (Inr banked_search)"
  by (simp add: cs_search_defs gather_single_def select_phys_pins_def select_role_of_name_def
      control_line_logic_def or_active_low_def banked_pair_def banked_pair_layout_def fire_28_d_def
      three_cs_chip_def banked_search_def map_filter_simps)

lemma banked_choice:
  "resolve_combo (cs_candidates banked_search) combo = [0, 1, 2, 3, 4, 5, 6, 7, 10, 11]"
  "num_combos (cs_candidates banked_search) = 1"
  by (simp_all add: resolve_combo_def two_option_slots_def position_def cs_candidates_def
      banked_search_def num_combos_def upt_10)

lemma banked_candidate:
  "try_cs_choice banked_search [0, 1, 2, 3, 4, 5, 6, 7, 10, 11] = Candidate banked_cs_data (0, 12)"
  by (simp add: cs_choice_defs banked_search_def banked_cs_data_def)

lemma banked_cs_derived:
  "derive_cs_data_layout banked_pair (Some banked_pair_layout) = Some (Inr banked_cs_data)"
proof -
  have "cs_outcomes banked_search = [Candidate banked_cs_data (0, 12)]"
    by (simp add: cs_outcomes_def banked_choice banked_candidate upt_conv_Cons del: One_nat_def)
  then have "search_cs_data banked_pair three_cs_chip banked_search = Some (Inr banked_cs_data)"
    by (simp add: search_cs_data_def cs_loop_end_def cs_loop_step_def keep_best_def)
  then show ?thesis
    by (simp add: derive_cs_data_layout_def banked_pair_def [THEN arg_cong, of sc_chip_types]
        banked_cs_search)
qed

theorem derived_layouts_fit_witness:
  "layouts_fit banked_pair_layout banked_cs_data Set_Banked 1"
proof -
  have "sc_board banked_pair = fire_28_d" "hd (sc_chip_types banked_pair) = three_cs_chip"
    "sc_set_type banked_pair = Set_Banked" "board_ok fire_28_d"
    by (simp_all add: banked_pair_def board_ok_def fire_28_d_def)
  then show ?thesis
    using derived_layouts_fit [OF banked_pair_derived banked_cs_derived, of 1]
    by (simp add: three_cs_chip_def banked_pair_layout_def)
qed

end
