(* ===== verification/Gpio_Overrides.thy ===== *)
theory Gpio_Overrides
  imports Rom_Image
begin

text \<open>
  The input overrides and pulls of a slot's GPIOs (\<open>rust/gen/src/v2/cs_overrides.rs\<close>,
  \<open>v2/gpio_pull_config.rs\<close>): select lines inverted to the polarity the chip-select PIO
  expects, a banked set's jumpers inverted where they pull low, and the pins of the address
  window no line uses forced low. \<open>pio_level\<close> is the level the PIO then sees.
\<close>

section \<open>Encoding\<close>

definition GPIO_NONE :: nat where "GPIO_NONE = 255"

datatype gpio_override = GpioOverNormal | GpioOverInvert | GpioOverLow | GpioOverHigh

fun override_code :: "gpio_override \<Rightarrow> nat" where
  "override_code GpioOverNormal = 0"
| "override_code GpioOverInvert = 1"
| "override_code GpioOverLow = 2"
| "override_code GpioOverHigh = 3"

definition encode_override :: "nat \<Rightarrow> gpio_override \<Rightarrow> u8" where
  "encode_override gpio ov = push_bit 6 (of_nat (override_code ov)) OR (of_nat gpio AND 0x3F)"

definition entry_gpio :: "u8 \<Rightarrow> nat" where "entry_gpio e = unat (e AND 0x3F)"

definition entry_mode :: "u8 \<Rightarrow> nat" where "entry_mode e = unat (drop_bit 6 e)"

definition encode_pull :: "nat \<Rightarrow> bool \<Rightarrow> u8" where
  "encode_pull gpio pull_up = (if pull_up then 0x80 OR of_nat gpio else of_nat gpio)"

definition u8_add :: "nat \<Rightarrow> nat \<Rightarrow> nat" where
  "u8_add a b = (a + b) mod 256"

section \<open>The data algorithm\<close>

text \<open>The named fields of \<open>OneromAlgDataConfig\<close> in the order of the source.\<close>

record alg_data_common =
  da_clkdiv_int :: nat
  da_clkdiv_frac :: nat
  da_gpio_base :: nat
  da_base_data_pin :: nat
  da_word_size :: nat

datatype alg_data_config =
    AlgData0 alg_data_common
  | AlgData1 alg_data_common (ad_byte_pin: nat) (ad_a_minus_1_pin: nat)
  | UnknownAlgData nat

section \<open>Select lines\<close>

text \<open>\<open>None\<close> is the panic of \<open>unwrap\<close>.\<close>

fun cs_logic_for_role :: "select_role \<Rightarrow> cs_config \<Rightarrow> cs_logic option" where
  "cs_logic_for_role RoleCs1 c = cs1_logic c"
| "cs_logic_for_role RoleX1 c = cs1_logic c"
| "cs_logic_for_role RoleX2 c = cs1_logic c"
| "cs_logic_for_role RoleHalfSelect c = cs1_logic c"
| "cs_logic_for_role RoleCs2 c = Some (or_active_low (cs2_logic c))"
| "cs_logic_for_role RoleCs3 c = Some (or_active_low (cs3_logic c))"
| "cs_logic_for_role RoleCs4 c = Some (or_active_low (cs4_logic c))"
| "cs_logic_for_role RoleCe c = Some ActiveLow"
| "cs_logic_for_role RoleOe c = Some ActiveLow"

fun required_cs_logic :: "chip_set_type \<Rightarrow> cs_logic" where
  "required_cs_logic Set_Single = ActiveLow"
| "required_cs_logic Set_Banked = ActiveLow"
| "required_cs_logic Set_Multi = ActiveHigh"

definition per_chip_role :: "cs_data_layout \<Rightarrow> select_role" where
  "per_chip_role layout =
     (case first (cd_select_lines layout) of Some l \<Rightarrow> sl_role l | None \<Rightarrow> RoleCs1)"

definition secondary_logic :: "cs_data_layout \<Rightarrow> cs_config option \<Rightarrow> cs_logic option" where
  "secondary_logic layout secondary =
     (case secondary of
        Some c \<Rightarrow> cs_logic_for_role (per_chip_role layout) c
      | None \<Rightarrow> Some ActiveLow)"

definition select_logic ::
  "cs_data_layout \<Rightarrow> cs_config \<Rightarrow> cs_config list \<Rightarrow> select_role \<Rightarrow> cs_logic option" where
  "select_logic layout cs_config secondaries role =
     (case role of
        RoleX1 \<Rightarrow> secondary_logic layout (first secondaries)
      | RoleX2 \<Rightarrow> secondary_logic layout (get secondaries 1)
      | _ \<Rightarrow> cs_logic_for_role role cs_config)"

text \<open>The entry of one line, if its configured logic is not the required one.\<close>

definition invert_unless :: "cs_logic \<Rightarrow> cs_logic option \<Rightarrow> nat \<Rightarrow> u8 list option" where
  "invert_unless required configured gpio =
     map_option (\<lambda>c. if c \<noteq> required then [encode_override gpio GpioOverInvert] else []) configured"

definition build_cs_overrides ::
  "cs_data_layout \<Rightarrow> chip_set_type \<Rightarrow> cs_config \<Rightarrow> cs_config list \<Rightarrow> u8 list option" where
  "build_cs_overrides layout set_type cs_config secondaries =
     (let required = required_cs_logic set_type in
      map_option concat (those
        (map (\<lambda>l. invert_unless required
             (select_logic layout cs_config secondaries (sl_role l)) (sl_gpio l)) (cd_select_lines layout) @
         map (\<lambda>l. invert_unless required (cs_logic_for_role (sl_role l) cs_config) (sl_gpio l))
           (cd_commoned_lines layout))))"

section \<open>Jumpers and unused pins\<close>

definition build_gpio_x_overrides ::
  "addr_layout \<Rightarrow> chip_set_type \<Rightarrow> nat \<Rightarrow> board \<Rightarrow> u8 list" where
  "build_gpio_x_overrides layout set_type num_chips b =
     (if set_type \<noteq> Set_Banked then []
      else if bd_x_jumper_pull b \<noteq> 0 then []
      else
        (case al_x1_gpio layout of Some g \<Rightarrow> [encode_override g GpioOverInvert] | None \<Rightarrow> []) @
        (if 3 \<le> num_chips then
           case al_x2_gpio layout of Some g \<Rightarrow> [encode_override g GpioOverInvert] | None \<Rightarrow> []
         else []))"

definition addr_used_gpios ::
  "addr_layout \<Rightarrow> cs_data_layout \<Rightarrow> alg_data_config \<Rightarrow> nat list" where
  "addr_used_gpios al cd alg_data =
     (let cs_base = u8_add (cd_gpio_base cd) (cd_base_cs_pin cd) in
      al_addr_pin_gpios al @
      (case al_x1_gpio al of Some g \<Rightarrow> [g] | None \<Rightarrow> []) @
      (case al_x2_gpio al of Some g \<Rightarrow> [g] | None \<Rightarrow> []) @
      al_excess_addr_pin_gpios al @ cd_data_pin_gpios cd @ map sl_gpio (cd_select_lines cd) @
      [cs_base..<u8_add cs_base (cd_num_cs_pins cd)] @
      (case alg_data of AlgData1 c byte_pin a \<Rightarrow> [u8_add byte_pin (cd_gpio_base cd)] | _ \<Rightarrow> []))"

definition build_unused_addr_overrides ::
  "addr_layout \<Rightarrow> cs_data_layout \<Rightarrow> alg_data_config \<Rightarrow> u8 list" where
  "build_unused_addr_overrides al cd alg_data =
     map (\<lambda>gpio. encode_override gpio GpioOverLow)
       (filter (\<lambda>gpio. gpio \<notin> set (addr_used_gpios al cd alg_data))
         [al_gpio_base al..<u8_add (al_gpio_base al) (al_num_addr_pins al)])"

definition build_gpio_pull_config ::
  "chip_set_type \<Rightarrow> nat \<Rightarrow> board \<Rightarrow> u8 list option" where
  "build_gpio_pull_config set_type num_chips b =
     (if set_type \<noteq> Set_Banked then None
      else
        let pull_up = bd_x_jumper_pull b = 0;
            params = map (\<lambda>g. encode_pull g pull_up) (gpios_for_x_pin b 1) @
              (if 3 \<le> num_chips then map (\<lambda>g. encode_pull g pull_up) (gpios_for_x_pin b 2) else [])
        in if params = [] then None else Some params)"

section \<open>What the PIO sees\<close>

text \<open>The input override of the GPIO control register: normal, inverted, low, high.\<close>

definition apply_mode :: "nat \<Rightarrow> bool \<Rightarrow> bool" where
  "apply_mode mode level =
     (if mode = 0 then level else if mode = 1 then \<not> level else mode \<noteq> 2)"

definition pio_level :: "u8 list \<Rightarrow> (nat \<Rightarrow> bool) \<Rightarrow> nat \<Rightarrow> bool" where
  "pio_level entries pins g =
     (case List.find (\<lambda>e. entry_gpio e = g) entries of
        None \<Rightarrow> pins g
      | Some e \<Rightarrow> apply_mode (entry_mode e) (pins g))"

section \<open>Entries\<close>

lemma encode_override_parts:
  assumes "gpio < 64"
  shows "entry_gpio (encode_override gpio ov) = gpio"
    and "entry_mode (encode_override gpio ov) = override_code ov"
proof -
  have "list_all (\<lambda>g. list_all (\<lambda>ov. entry_gpio (encode_override g ov) = g \<and>
      entry_mode (encode_override g ov) = override_code ov)
    [GpioOverNormal, GpioOverInvert, GpioOverLow, GpioOverHigh]) [0..<64]"
    by code_simp
  then have "list_all (\<lambda>ov. entry_gpio (encode_override gpio ov) = gpio \<and>
      entry_mode (encode_override gpio ov) = override_code ov)
    [GpioOverNormal, GpioOverInvert, GpioOverLow, GpioOverHigh]"
    using assms by (simp only: list_all_iff) simp
  then show "entry_gpio (encode_override gpio ov) = gpio"
    "entry_mode (encode_override gpio ov) = override_code ov"
    by (cases ov; simp)+
qed

lemma pio_level_pairs:
  assumes "\<forall>(g, ov) \<in> set es. g < 64"
  shows "pio_level (map (\<lambda>(g, ov). encode_override g ov) es) pins g =
    (case map_of es g of None \<Rightarrow> pins g | Some ov \<Rightarrow> apply_mode (override_code ov) (pins g))"
  using assms
proof (induction es)
  case (Cons e es)
  then show ?case
    by (cases e) (auto simp: pio_level_def encode_override_parts)
qed (simp add: pio_level_def)

lemma apply_mode_simps [simp]:
  "apply_mode (override_code GpioOverNormal) l = l"
  "apply_mode (override_code GpioOverInvert) l = (\<not> l)"
  "apply_mode (override_code GpioOverLow) l = False"
  "apply_mode (override_code GpioOverHigh) l = True"
  by (simp_all add: apply_mode_def)

section \<open>The overrides as pairs\<close>

lemma cs1_logic_Some: "\<exists>l. cs1_logic c = Some l"
  by (cases c) auto

lemma cs_logic_for_role_Some: "\<exists>l. cs_logic_for_role role c = Some l"
  using cs1_logic_Some [of c] by (cases role) auto

lemma select_logic_Some: "\<exists>l. select_logic layout c secondaries role = Some l"
  using cs_logic_for_role_Some cs1_logic_Some
  by (auto simp: select_logic_def secondary_logic_def split: select_role.splits option.splits)

text \<open>The logic each select and commoned line is configured with.\<close>

definition cs_lines_logic ::
  "cs_data_layout \<Rightarrow> cs_config \<Rightarrow> cs_config list \<Rightarrow> (nat \<times> cs_logic) list" where
  "cs_lines_logic layout c secondaries =
     map (\<lambda>l. (sl_gpio l, the (select_logic layout c secondaries (sl_role l)))) (cd_select_lines layout) @
     map (\<lambda>l. (sl_gpio l, the (cs_logic_for_role (sl_role l) c))) (cd_commoned_lines layout)"

lemma invert_unless_Some:
  "invert_unless required (Some c) gpio =
     Some (map (\<lambda>(g, ov). encode_override g ov) (if c \<noteq> required then [(gpio, GpioOverInvert)] else []))"
  by (simp add: invert_unless_def)

definition cs_pairs :: "cs_logic \<Rightarrow> (nat \<times> cs_logic) list \<Rightarrow> (nat \<times> gpio_override) list" where
  "cs_pairs required ls = map (\<lambda>(g, c). (g, GpioOverInvert)) (filter (\<lambda>(g, c). c \<noteq> required) ls)"

lemma those_inverts:
  "map_option concat (those (map (\<lambda>(g, c). invert_unless required (Some c) g) ls)) =
     Some (map (\<lambda>(g, ov). encode_override g ov) (cs_pairs required ls))"
proof (induction ls)
  case (Cons l ls)
  then obtain xss where "those (map (\<lambda>(g, c). invert_unless required (Some c) g) ls) = Some xss"
    "concat xss = map (\<lambda>(g, ov). encode_override g ov) (cs_pairs required ls)"
    by auto
  then show ?case by (cases l) (auto simp: invert_unless_Some cs_pairs_def)
qed (simp add: cs_pairs_def)

lemma build_cs_overrides_pairs:
  "build_cs_overrides layout set_type c secondaries =
     Some (map (\<lambda>(g, ov). encode_override g ov)
       (cs_pairs (required_cs_logic set_type) (cs_lines_logic layout c secondaries)))"
proof -
  have s: "invert_unless r (select_logic layout c secondaries role) g =
      invert_unless r (Some (the (select_logic layout c secondaries role))) g" for r role g
    using select_logic_Some [of layout c secondaries role] by auto
  have k: "invert_unless r (cs_logic_for_role role c) g =
      invert_unless r (Some (the (cs_logic_for_role role c))) g" for r role g
    using cs_logic_for_role_Some [of role c] by auto
  show ?thesis
    unfolding build_cs_overrides_def Let_def those_inverts [symmetric] cs_lines_logic_def
    by (simp add: s k comp_def)
qed

lemma map_of_cs_pairs:
  assumes "distinct (map fst ls)"
  shows "map_of (cs_pairs required ls) g =
    (case map_of ls g of None \<Rightarrow> None | Some c \<Rightarrow> if c \<noteq> required then Some GpioOverInvert else None)"
  using assms
proof (induction ls)
  case (Cons l ls)
  show ?case
  proof (cases l)
    case (Pair h c)
    have "map_of (cs_pairs required ls) h = None"
      using Cons Pair by (auto simp: map_of_eq_None_iff image_iff cs_pairs_def split: option.splits)
    then show ?thesis using Cons Pair by (auto simp: cs_pairs_def)
  qed
qed (simp add: cs_pairs_def)

end
