(* ===== verification/Alg_Config.thy ===== *)
theory Alg_Config
  imports Gpio_Overrides
begin

text \<open>
  The algorithm configuration of a slot (\<open>rust/gen/src/v2/alg_config.rs\<close>,
  \<open>v2/alg_cs.rs\<close>), what it prefers (\<open>v2/alg_preference.rs\<close>) and the GPIOs it uses
  (\<open>v2/gpio_use.rs\<close>). An option \<open>None\<close> is a panic.
\<close>

section \<open>Bit mode and data\<close>

definition DEFAULT_CLKDIV_INT :: nat where "DEFAULT_CLKDIV_INT = 1"
definition DEFAULT_CLKDIV_FRAC :: nat where "DEFAULT_CLKDIV_FRAC = 0"
definition ALG_DATA0_NUM_DELAY_CYCLES_8_BIT :: nat where "ALG_DATA0_NUM_DELAY_CYCLES_8_BIT = 2"
definition ALG_DATA1_NUM_DELAY_CYCLES_16_BIT :: nat where "ALG_DATA1_NUM_DELAY_CYCLES_16_BIT = 4"

definition supports_bit_mode :: "chip_type \<Rightarrow> nat \<Rightarrow> bool" where
  "supports_bit_mode ct mode \<longleftrightarrow> mode \<in> set (ct_bit_modes ct)"

definition bit_mode_for :: "chip_type \<Rightarrow> board \<Rightarrow> bit_mode" where
  "bit_mode_for ct b =
     (if supports_bit_mode ct 16 \<and> (\<not> supports_bit_mode ct 8 \<or> bd_pin_byte b \<noteq> GPIO_NONE)
      then BitMode16 else BitMode8)"

definition reads_byte_pin :: "chip_type \<Rightarrow> bit_mode \<Rightarrow> bool \<Rightarrow> bool" where
  "reads_byte_pin ct mode force_16_bit \<longleftrightarrow>
     mode = BitMode16 \<and> supports_bit_mode ct 8 \<and> \<not> force_16_bit"

definition data_common :: "cs_data_layout \<Rightarrow> nat \<Rightarrow> alg_data_common" where
  "data_common layout word_size =
     \<lparr>da_clkdiv_int = DEFAULT_CLKDIV_INT, da_clkdiv_frac = DEFAULT_CLKDIV_FRAC,
      da_gpio_base = cd_gpio_base layout, da_base_data_pin = cd_base_data_pin layout,
      da_word_size = word_size\<rparr>"

definition build_alg_data ::
  "cs_data_layout \<Rightarrow> board \<Rightarrow> chip_type \<Rightarrow> bit_mode \<Rightarrow> bool \<Rightarrow> alg_data_config option" where
  "build_alg_data layout b ct mode force_16_bit =
     (case mode of
        BitMode8 \<Rightarrow> Some (AlgData0 (data_common layout 8))
      | BitMode16 \<Rightarrow>
          if \<not> reads_byte_pin ct mode force_16_bit then Some (AlgData0 (data_common layout 16))
          else if cd_num_data_pins layout = 0 then None
          else map_option (\<lambda>top. AlgData1 (data_common layout 16)
                   (u8_sub (bd_pin_byte b) (cd_gpio_base layout)) (u8_sub top (cd_gpio_base layout)))
                 (get (cd_data_pin_gpios layout) (cd_num_data_pins layout - 1)))"

section \<open>Address\<close>

record alg_addr_common =
  aa_clkdiv_int :: nat
  aa_clkdiv_frac :: nat
  aa_gpio_base :: nat
  aa_num_delay_cycles :: nat
  aa_base_addr_pin :: nat
  aa_num_addr_pins :: nat
  aa_num_rom_table_bits :: nat

datatype alg_addr_config = AlgAddr0 alg_addr_common | UnknownAlgAddr nat alg_addr_common

definition addr_timing :: "addr_layout \<Rightarrow> alg_data_config \<Rightarrow> (nat \<times> nat) option" where
  "addr_timing layout alg_data =
     (case alg_data of
        AlgData0 c \<Rightarrow>
          Some (ALG_DATA0_NUM_DELAY_CYCLES_8_BIT,
            if da_word_size c = 8 then al_num_addr_pins layout else u8_add (al_num_addr_pins layout) 1)
      | AlgData1 c byte_pin a \<Rightarrow>
          Some (ALG_DATA1_NUM_DELAY_CYCLES_16_BIT, u8_add (al_num_addr_pins layout) 1)
      | UnknownAlgData alg \<Rightarrow> None)"

definition build_alg_addr :: "addr_layout \<Rightarrow> alg_data_config \<Rightarrow> alg_addr_config option" where
  "build_alg_addr layout alg_data =
     map_option (\<lambda>(cycles, bits).
       let pio_base = (if al_gpio_base layout < 16 then 0 else 16) in
       AlgAddr0 \<lparr>aa_clkdiv_int = DEFAULT_CLKDIV_INT, aa_clkdiv_frac = DEFAULT_CLKDIV_FRAC,
         aa_gpio_base = pio_base, aa_num_delay_cycles = cycles,
         aa_base_addr_pin = al_gpio_base layout - pio_base,
         aa_num_addr_pins = al_num_addr_pins layout, aa_num_rom_table_bits = bits\<rparr>)
       (addr_timing layout alg_data)"

definition build_alg_dma :: "bit_mode \<Rightarrow> alg_dma_config" where
  "build_alg_dma mode = AlgDma0 (Known mode) 1"

section \<open>Chip select\<close>

record alg_cs_common =
  ak_clkdiv_int :: nat
  ak_clkdiv_frac :: nat
  ak_gpio_base :: nat
  ak_base_cs_pin :: nat
  ak_num_cs_pins :: nat
  ak_base_data_pin :: nat
  ak_num_data_pins :: nat
  ak_cs_active_delay :: nat
  ak_cs_inactive_delay :: nat

datatype alg_cs_config =
    AlgCs0 alg_cs_common (as_serve_cs_low_0: nat) (as_byte_pin: nat) (as_first_rom_cs_base: nat)
      (as_first_rom_num_cs_pins: nat)
  | AlgCs1 alg_cs_common (as_cs_ignore_index: nat)
  | AlgCs2 alg_cs_common (as_qualifier: alg_cs2_config)
  | UnknownAlgCs nat alg_cs_common

fun serve_cs_low_0 :: "chip_set_type \<Rightarrow> nat" where
  "serve_cs_low_0 Set_Single = 0"
| "serve_cs_low_0 Set_Banked = 0"
| "serve_cs_low_0 Set_Multi = 1"

definition first_rom_cs :: "cs_data_layout \<Rightarrow> chip_set_type \<Rightarrow> (nat \<times> nat) option" where
  "first_rom_cs layout set_type =
     (if set_type = Set_Multi
      then map_option (\<lambda>l. (u8_sub (sl_gpio l) (cd_gpio_base layout), 1)) (first (cd_select_lines layout))
      else Some (cd_base_cs_pin layout, cd_num_cs_pins layout))"

definition cs_common :: "cs_data_layout \<Rightarrow> alg_cs_common" where
  "cs_common layout =
     \<lparr>ak_clkdiv_int = DEFAULT_CLKDIV_INT, ak_clkdiv_frac = DEFAULT_CLKDIV_FRAC,
      ak_gpio_base = cd_gpio_base layout, ak_base_cs_pin = cd_base_cs_pin layout,
      ak_num_cs_pins = cd_num_cs_pins layout, ak_base_data_pin = cd_base_data_pin layout,
      ak_num_data_pins = cd_num_data_pins layout, ak_cs_active_delay = 0, ak_cs_inactive_delay = 0\<rparr>"

definition cs_byte_pin :: "alg_data_config \<Rightarrow> nat" where
  "cs_byte_pin alg_data = (case alg_data of AlgData1 c byte_pin a \<Rightarrow> byte_pin | _ \<Rightarrow> GPIO_NONE)"

definition build_alg_cs ::
  "cs_data_layout \<Rightarrow> chip_set_type \<Rightarrow> alg_data_config \<Rightarrow> alg_cs_config option" where
  "build_alg_cs layout set_type alg_data =
     (case cd_alg_cs2 layout of
        Some cs2 \<Rightarrow> Some (AlgCs2 (cs_common layout) cs2)
      | None \<Rightarrow>
          (case cd_cs_ignore_index layout of
             None \<Rightarrow>
               map_option (\<lambda>(base, n). AlgCs0 (cs_common layout) (serve_cs_low_0 set_type)
                   (cs_byte_pin alg_data) base n) (first_rom_cs layout set_type)
           | Some k \<Rightarrow> Some (AlgCs1 (cs_common layout) k)))"

section \<open>The whole configuration\<close>

record alg_config =
  oc_cs :: alg_cs_config
  oc_addr :: alg_addr_config
  oc_data :: alg_data_config
  oc_dma :: alg_dma_config
  oc_pull :: "u8 list option"
  oc_override :: "u8 list option"

definition byte_overrides :: "cs_data_layout \<Rightarrow> alg_data_config \<Rightarrow> u8 list" where
  "byte_overrides cd alg_data =
     (case alg_data of
        AlgData1 c byte_pin a \<Rightarrow> [encode_override (u8_add byte_pin (cd_gpio_base cd)) GpioOverInvert]
      | _ \<Rightarrow> [])"

definition all_overrides ::
  "slot_context \<Rightarrow> addr_layout \<Rightarrow> cs_data_layout \<Rightarrow> cs_config list \<Rightarrow> alg_data_config \<Rightarrow>
     u8 list option" where
  "all_overrides ctx al cd secondaries alg_data =
     map_option (\<lambda>cs. cs @ byte_overrides cd alg_data @
       build_gpio_x_overrides al (sc_set_type ctx) (length (sc_chip_types ctx)) (sc_board ctx) @
       build_unused_addr_overrides al cd alg_data)
     (build_cs_overrides cd (sc_set_type ctx) (sc_cs_config ctx) secondaries)"

definition build_alg_config ::
  "slot_context \<Rightarrow> addr_layout \<Rightarrow> cs_data_layout \<Rightarrow> cs_config list \<Rightarrow> alg_config option" where
  "build_alg_config ctx al cd secondaries =
     Option.bind (first (sc_chip_types ctx)) (\<lambda>ct.
     Option.bind (build_alg_data cd (sc_board ctx) ct (sc_bit_mode ctx) (sc_force_16_bit ctx)) (\<lambda>alg_data.
     Option.bind (build_alg_addr al alg_data) (\<lambda>alg_addr.
     Option.bind (build_alg_cs cd (sc_set_type ctx) alg_data) (\<lambda>alg_cs.
     map_option (\<lambda>overrides.
       \<lparr>oc_cs = alg_cs, oc_addr = alg_addr, oc_data = alg_data,
        oc_dma = build_alg_dma (sc_bit_mode ctx),
        oc_pull = build_gpio_pull_config (sc_set_type ctx) (length (sc_chip_types ctx)) (sc_board ctx),
        oc_override = (if overrides = [] then None else Some overrides)\<rparr>)
     (all_overrides ctx al cd secondaries alg_data)))))"

section \<open>Preferences\<close>

datatype addr_alg_preference = PrefAddr0
datatype data_alg_preference = PrefData0 | PrefData1
datatype dma_alg_preference = PrefDma0

definition cs_preference :: "alg_cs_config \<Rightarrow> cs_alg_preference option" where
  "cs_preference alg =
     (case alg of
        AlgCs0 _ _ _ _ _ \<Rightarrow> Some PrefCs0
      | AlgCs1 _ _ \<Rightarrow> Some PrefCs1
      | AlgCs2 _ _ \<Rightarrow> Some PrefCs2
      | UnknownAlgCs _ _ \<Rightarrow> None)"

definition addr_preference :: "alg_addr_config \<Rightarrow> addr_alg_preference option" where
  "addr_preference alg = (case alg of AlgAddr0 _ \<Rightarrow> Some PrefAddr0 | UnknownAlgAddr _ _ \<Rightarrow> None)"

definition data_preference :: "alg_data_config \<Rightarrow> data_alg_preference option" where
  "data_preference alg =
     (case alg of
        AlgData0 _ \<Rightarrow> Some PrefData0
      | AlgData1 _ _ _ \<Rightarrow> Some PrefData1
      | UnknownAlgData _ \<Rightarrow> None)"

definition dma_preference :: "alg_dma_config \<Rightarrow> dma_alg_preference option" where
  "dma_preference alg = (case alg of AlgDma0 _ _ \<Rightarrow> Some PrefDma0 | UnknownAlgDma _ \<Rightarrow> None)"

type_synonym combined_preference =
  "cs_alg_preference \<times> addr_alg_preference \<times> data_alg_preference \<times> dma_alg_preference"

definition combined_alg_preference :: "alg_config \<Rightarrow> combined_preference option" where
  "combined_alg_preference alg =
     (case (cs_preference (oc_cs alg), addr_preference (oc_addr alg), data_preference (oc_data alg),
            dma_preference (oc_dma alg)) of
        (Some c, Some a, Some d, Some m) \<Rightarrow> Some (c, a, d, m)
      | _ \<Rightarrow> None)"

section \<open>The GPIOs used\<close>

definition saturating_u8_add :: "nat \<Rightarrow> nat \<Rightarrow> nat" where
  "saturating_u8_add a b = min 255 (a + b)"

definition gpio_span :: "nat \<Rightarrow> nat \<Rightarrow> 64 word" where
  "gpio_span start count =
     fold (\<lambda>gpio mask. mask OR push_bit gpio 1)
       (filter (\<lambda>gpio. gpio < 64)
         (List.map_filter (\<lambda>n. if start + n < 256 then Some (start + n) else None) [0..<count])) 0"

fun alg_cs_common_of :: "alg_cs_config \<Rightarrow> alg_cs_common" where
  "alg_cs_common_of (AlgCs0 c _ _ _ _) = c"
| "alg_cs_common_of (AlgCs1 c _) = c"
| "alg_cs_common_of (AlgCs2 c _) = c"
| "alg_cs_common_of (UnknownAlgCs _ c) = c"

fun alg_addr_common_of :: "alg_addr_config \<Rightarrow> alg_addr_common" where
  "alg_addr_common_of (AlgAddr0 c) = c"
| "alg_addr_common_of (UnknownAlgAddr _ c) = c"

definition forced_gpios :: "u8 list option \<Rightarrow> 64 word" where
  "forced_gpios params =
     fold (\<lambda>e mask. mask OR push_bit (entry_gpio e) 1)
       (filter (\<lambda>e. entry_mode e = override_code GpioOverLow \<or> entry_mode e = override_code GpioOverHigh)
         (case params of None \<Rightarrow> [] | Some ps \<Rightarrow> ps)) 0"

definition used_gpios :: "alg_config \<Rightarrow> 64 word" where
  "used_gpios alg =
     (let c = alg_cs_common_of (oc_cs alg); a = alg_addr_common_of (oc_addr alg);
          cs_data = gpio_span (saturating_u8_add (ak_gpio_base c) (ak_base_data_pin c)) (ak_num_data_pins c) OR
            gpio_span (saturating_u8_add (ak_gpio_base c) (ak_base_cs_pin c)) (ak_num_cs_pins c);
          byte = (case oc_cs alg of
              AlgCs0 _ _ byte_pin _ _ \<Rightarrow>
                if byte_pin \<noteq> GPIO_NONE
                then gpio_span (saturating_u8_add (ak_gpio_base c) byte_pin) 1 else 0
            | _ \<Rightarrow> 0)
      in cs_data OR byte OR
         (gpio_span (saturating_u8_add (aa_gpio_base a) (aa_base_addr_pin a)) (aa_num_addr_pins a) AND
          NOT (forced_gpios (oc_override alg))))"

section \<open>The override list\<close>

definition override_params :: "alg_config \<Rightarrow> u8 list" where
  "override_params alg = (case oc_override alg of None \<Rightarrow> [] | Some ps \<Rightarrow> ps)"

definition byte_gpios :: "cs_data_layout \<Rightarrow> alg_data_config \<Rightarrow> nat list" where
  "byte_gpios cd alg_data =
     (case alg_data of AlgData1 c byte_pin a \<Rightarrow> [u8_add byte_pin (cd_gpio_base cd)] | _ \<Rightarrow> [])"

definition jumper_gpios :: "addr_layout \<Rightarrow> chip_set_type \<Rightarrow> nat \<Rightarrow> nat list" where
  "jumper_gpios al set_type n =
     (if set_type \<noteq> Set_Banked then []
      else (case al_x1_gpio al of Some g \<Rightarrow> [g] | None \<Rightarrow> []) @
        (if 3 \<le> n then case al_x2_gpio al of Some g \<Rightarrow> [g] | None \<Rightarrow> [] else []))"

definition unused_gpios :: "addr_layout \<Rightarrow> cs_data_layout \<Rightarrow> alg_data_config \<Rightarrow> nat list" where
  "unused_gpios al cd alg_data =
     filter (\<lambda>g. g \<notin> set (addr_used_gpios al cd alg_data))
       [al_gpio_base al..<u8_add (al_gpio_base al) (al_num_addr_pins al)]"

definition override_pairs ::
  "slot_context \<Rightarrow> addr_layout \<Rightarrow> cs_data_layout \<Rightarrow> cs_config list \<Rightarrow> alg_data_config \<Rightarrow>
     (nat \<times> gpio_override) list" where
  "override_pairs ctx al cd secondaries alg_data =
     cs_pairs (required_cs_logic (sc_set_type ctx)) (cs_lines_logic cd (sc_cs_config ctx) secondaries) @
     map (\<lambda>g. (g, GpioOverInvert)) (byte_gpios cd alg_data) @
     (if bd_x_jumper_pull (sc_board ctx) \<noteq> 0 then []
      else map (\<lambda>g. (g, GpioOverInvert))
        (jumper_gpios al (sc_set_type ctx) (length (sc_chip_types ctx)))) @
     map (\<lambda>g. (g, GpioOverLow)) (unused_gpios al cd alg_data)"

lemma all_overrides_pairs:
  "all_overrides ctx al cd secondaries alg_data =
     Some (map (\<lambda>(g, ov). encode_override g ov) (override_pairs ctx al cd secondaries alg_data))"
  by (auto simp: all_overrides_def build_cs_overrides_pairs override_pairs_def byte_overrides_def
      byte_gpios_def build_gpio_x_overrides_def jumper_gpios_def build_unused_addr_overrides_def
      unused_gpios_def comp_def split: alg_data_config.splits option.splits)

lemma build_alg_config_Some:
  assumes "build_alg_config ctx al cd secondaries = Some alg"
  shows "override_params alg =
      map (\<lambda>(g, ov). encode_override g ov) (override_pairs ctx al cd secondaries (oc_data alg))"
    and "build_alg_data cd (sc_board ctx) (hd (sc_chip_types ctx)) (sc_bit_mode ctx)
      (sc_force_16_bit ctx) = Some (oc_data alg)"
    and "build_alg_addr al (oc_data alg) = Some (oc_addr alg)"
    and "build_alg_cs cd (sc_set_type ctx) (oc_data alg) = Some (oc_cs alg)"
    and "oc_dma alg = build_alg_dma (sc_bit_mode ctx)"
    and "sc_chip_types ctx \<noteq> []"
  using assms
  by (auto simp: build_alg_config_def all_overrides_pairs override_params_def first_def bind_eq_Some_conv
      split: list.splits)

section \<open>What the PIO sees\<close>

text \<open>The GPIOs an override is made for are distinct, and none is an address line.\<close>

definition gpios_apart ::
  "slot_context \<Rightarrow> addr_layout \<Rightarrow> cs_data_layout \<Rightarrow> alg_data_config \<Rightarrow> bool" where
  "gpios_apart ctx al cd alg_data \<longleftrightarrow>
     (let lines = map sl_gpio (cd_select_lines cd @ cd_commoned_lines cd);
          others = byte_gpios cd alg_data @ jumper_gpios al (sc_set_type ctx) (length (sc_chip_types ctx))
      in distinct (lines @ others) \<and> (\<forall>g \<in> set (lines @ others). g < 64) \<and>
         set lines \<subseteq> set (addr_used_gpios al cd alg_data) \<and>
         set (al_addr_pin_gpios al) \<inter> set (lines @ others) = {} \<and>
         al_gpio_base al + al_num_addr_pins al \<le> 64)"

lemma fst_cs_lines_logic:
  "map fst (cs_lines_logic cd c secondaries) = map sl_gpio (cd_select_lines cd @ cd_commoned_lines cd)"
  by (simp add: cs_lines_logic_def comp_def)

lemma map_of_map_pair: "map_of (map (\<lambda>g. (g, v)) gs) g = (if g \<in> set gs then Some v else None)"
  by (induction gs) auto

lemma set_unused_gpios:
  assumes "al_gpio_base al + al_num_addr_pins al \<le> 64"
  shows "g \<in> set (unused_gpios al cd alg_data) \<longleftrightarrow>
    in_addr_window al g \<and> g \<notin> set (addr_used_gpios al cd alg_data)"
  using assms by (auto simp: unused_gpios_def in_addr_window_def u8_add_def)

lemma others_used:
  "set (byte_gpios cd alg_data @ jumper_gpios al set_type n) \<subseteq> set (addr_used_gpios al cd alg_data)"
proof -
  have "set (byte_gpios cd alg_data) \<subseteq> set (addr_used_gpios al cd alg_data)"
    by (cases alg_data) (auto simp: byte_gpios_def addr_used_gpios_def Let_def)
  moreover have "set (jumper_gpios al set_type n) \<subseteq> set_option (al_x1_gpio al) \<union> set_option (al_x2_gpio al)"
    by (cases "set_type = Set_Banked"; cases "3 \<le> n"; cases "al_x1_gpio al"; cases "al_x2_gpio al")
      (simp_all add: jumper_gpios_def)
  moreover have "set_option (al_x1_gpio al) \<union> set_option (al_x2_gpio al) \<subseteq> set (addr_used_gpios al cd alg_data)"
    by (cases "al_x1_gpio al"; cases "al_x2_gpio al"; simp add: addr_used_gpios_def Let_def)
  ultimately show ?thesis by auto
qed

lemma override_pairs_small:
  assumes "gpios_apart ctx al cd alg_data"
  shows "\<forall>(g, ov) \<in> set (override_pairs ctx al cd secondaries alg_data). g < 64"
proof -
  have w: "al_gpio_base al + al_num_addr_pins al \<le> 64"
    using assms by (simp add: gpios_apart_def Let_def)
  have sub: "fst ` set (cs_pairs r ls) \<subseteq> set (map fst ls)" for r and ls :: "(nat \<times> cs_logic) list"
    by (force simp: cs_pairs_def)
  have small: "\<forall>g \<in> set (map sl_gpio (cd_select_lines cd @ cd_commoned_lines cd)). g < 64"
    "\<forall>g \<in> set (byte_gpios cd alg_data). g < 64"
    "\<forall>g \<in> set (jumper_gpios al (sc_set_type ctx) (length (sc_chip_types ctx))). g < 64"
    using assms by (auto simp: gpios_apart_def Let_def)
  have "g < 64" if "(g, ov) \<in> set (cs_pairs r (cs_lines_logic cd c secs))" for g ov r c secs
    using sub [of r "cs_lines_logic cd c secs"] that small(1) unfolding fst_cs_lines_logic by force
  moreover have "\<forall>g \<in> set (unused_gpios al cd alg_data). g < 64"
    using set_unused_gpios [OF w] w by (auto simp: in_addr_window_def)
  ultimately show ?thesis using small(2,3) by (auto simp: override_pairs_def)
qed

lemma overridden_level:
  assumes "build_alg_config ctx al cd secondaries = Some alg" "gpios_apart ctx al cd (oc_data alg)"
  defines "ls \<equiv> cs_lines_logic cd (sc_cs_config ctx) secondaries"
    and "xs \<equiv> jumper_gpios al (sc_set_type ctx) (length (sc_chip_types ctx))"
  shows "pio_level (override_params alg) pins g =
    (case map_of ls g of
       Some c \<Rightarrow> (if c \<noteq> required_cs_logic (sc_set_type ctx) then \<not> pins g else pins g)
     | None \<Rightarrow>
         if g \<in> set (byte_gpios cd (oc_data alg)) then \<not> pins g
         else if g \<in> set xs then (if bd_x_jumper_pull (sc_board ctx) = 0 then \<not> pins g else pins g)
         else if in_addr_window al g \<and> g \<notin> set (addr_used_gpios al cd (oc_data alg)) then False
         else pins g)"
proof -
  have w: "al_gpio_base al + al_num_addr_pins al \<le> 64"
    using assms(2) by (simp add: gpios_apart_def Let_def)
  have lines: "set (map fst ls) = set (map sl_gpio (cd_select_lines cd @ cd_commoned_lines cd))"
    by (simp only: ls_def fst_cs_lines_logic)
  have d: "distinct (map fst ls)"
    using assms(2) by (simp only: ls_def fst_cs_lines_logic) (simp add: gpios_apart_def Let_def)
  have apart: "g \<in> set (map fst ls) \<Longrightarrow>
      g \<notin> set (byte_gpios cd (oc_data alg)) \<and> g \<notin> set xs \<and> g \<in> set (addr_used_gpios al cd (oc_data alg))"
    unfolding lines using assms(2) by (auto simp: gpios_apart_def Let_def xs_def)
  have used: "set (byte_gpios cd (oc_data alg) @ xs) \<subseteq> set (addr_used_gpios al cd (oc_data alg))"
    unfolding xs_def by (rule others_used)
  have line: "map_of ls g = Some c \<Longrightarrow> g \<in> set (map fst ls)" for c
    by (simp add: map_of_SomeD image_iff) (metis fst_conv map_of_SomeD)
  show ?thesis
    unfolding build_alg_config_Some(1) [OF assms(1)] pio_level_pairs [OF override_pairs_small [OF assms(2)]]
    using apart used line
    by (auto simp: override_pairs_def map_of_append map_add_def map_of_cs_pairs [OF d, unfolded ls_def]
        map_of_map_pair set_unused_gpios [OF w] ls_def xs_def apply_mode_def split: option.splits)
qed

end
