(* ===== verification/Slot_Gpios.thy ===== *)
theory Slot_Gpios
  imports Alg_Config
begin

text \<open>
  No GPIO of a slot has two jobs: every GPIO of the derived layouts is wired to a pin of its own
  (a socket pin under the chip or an X pin), so on a board whose table keeps its pins apart the
  input overrides never meet, and none touches an address line.
\<close>

section \<open>Where a GPIO comes from\<close>

datatype gpio_source = Socket nat | XPin nat

fun source_gpios :: "board \<Rightarrow> gpio_source \<Rightarrow> nat list" where
  "source_gpios b (Socket p) = gpios_for_socket_pin b p"
| "source_gpios b (XPin x) = gpios_for_x_pin b x"

definition sourced :: "board \<Rightarrow> gpio_source \<Rightarrow> nat \<Rightarrow> bool" where
  "sourced b src g \<longleftrightarrow> g \<in> set (source_gpios b src)"

lemma gpios_for_x_pin_entry:
  assumes "g \<in> set (gpios_for_x_pin b p)"
  shows "(p, gpios_for_x_pin b p) \<in> set (bd_x_pin_map b)"
  using assms by (auto simp: gpios_for_x_pin_def split: option.splits dest: find_Some_mem)

lemma keyed_disjoint:
  assumes "distinct (concat (map snd m))" "(p, xs) \<in> set m" "(q, ys) \<in> set m" "g \<in> set xs" "g \<in> set ys"
    and "distinct (map fst m)"
  shows "p = q"
proof -
  obtain i j where i: "i < length m" "m ! i = (p, xs)" and j: "j < length m" "m ! j = (q, ys)"
    using assms(2,3) by (metis in_set_conv_nth)
  have "\<not> i < j" "\<not> j < i"
    using assms(1,4,5) i j concat_nth_disjoint [of "map snd m" i j]
      concat_nth_disjoint [of "map snd m" j i] by auto
  then have "i = j" by simp
  then show ?thesis using i(2) j(2) by simp
qed

lemma sourced_unique:
  assumes "board_ok b" "sourced b s g" "sourced b t g"
  shows "s = t"
proof -
  have d: "distinct (concat (map snd (bd_socket_pin_map b)))" "distinct (concat (map snd (bd_x_pin_map b)))"
    "distinct (map fst (bd_socket_pin_map b))" "distinct (map fst (bd_x_pin_map b))"
    "set (concat (map snd (bd_socket_pin_map b))) \<inter> set (concat (map snd (bd_x_pin_map b))) = {}"
    using assms(1) by (auto simp: board_ok_def)
  have sock: "p = q" if "g \<in> set (gpios_for_socket_pin b p)" "g \<in> set (gpios_for_socket_pin b q)" for p q
    using keyed_disjoint [OF d(1) gpios_for_socket_pin_entry gpios_for_socket_pin_entry _ _ d(3)] that by blast
  have x: "p = q" if "g \<in> set (gpios_for_x_pin b p)" "g \<in> set (gpios_for_x_pin b q)" for p q
    using keyed_disjoint [OF d(2) gpios_for_x_pin_entry gpios_for_x_pin_entry _ _ d(4)] that by blast
  have "\<not> (g \<in> set (gpios_for_socket_pin b p) \<and> g \<in> set (gpios_for_x_pin b q))" for p q
    using d(5) gpios_for_socket_pin_entry [of g b p] gpios_for_x_pin_entry [of g b q] by force
  then show ?thesis using assms(2,3) sock x by (cases s; cases t) (auto simp: sourced_def)
qed

lemma sourced_less: "board_ok b \<Longrightarrow> sourced b src g \<Longrightarrow> g < 48"
  using gpios_for_socket_pin_entry gpios_for_x_pin_entry
  by (cases src) (fastforce simp: sourced_def board_ok_def)+

lemma sourced_distinct:
  assumes "board_ok b" "list_all2 (sourced b) srcs gs" "distinct srcs"
  shows "distinct gs"
  unfolding distinct_conv_nth
proof (intro allI impI)
  fix i j assume ij: "i < length gs" "j < length gs" "i \<noteq> j"
  then have "sourced b (srcs ! i) (gs ! i)" "sourced b (srcs ! j) (gs ! j)" "srcs ! i \<noteq> srcs ! j"
    using assms(2,3) by (auto simp: list_all2_conv_all_nth nth_eq_iff_index_eq)
  then show "gs ! i \<noteq> gs ! j" using sourced_unique [OF assms(1)] by metis
qed

section \<open>Address lines\<close>

text \<open>
  What the chip tables guarantee: one pin per line, no pin with two lines (but for A-1, which
  16-bit mode leaves out and which is also the top data line), no name used twice.
\<close>

definition chip_pins_of :: "slot_context \<Rightarrow> nat list" where
  "chip_pins_of ctx =
     (let ct = hd (sc_chip_types ctx) in
      drop (addr_line_start ctx) (ct_address_pins ct) @ ct_data_pins ct @ map cl_pin (ct_control_lines ct))"

definition chip_ok :: "slot_context \<Rightarrow> bool" where
  "chip_ok ctx \<longleftrightarrow>
     (let ct = hd (sc_chip_types ctx) in
      ct_num_addr_lines ct = length (ct_address_pins ct) \<and> distinct (chip_pins_of ctx) \<and>
      distinct (map cl_name (ct_control_lines ct)))"

definition pin_source :: "slot_context \<Rightarrow> nat \<Rightarrow> gpio_source" where
  "pin_source ctx pin = Socket (nat (socket_pin_of ctx pin))"

definition addr_source :: "slot_context \<Rightarrow> nat \<Rightarrow> gpio_source" where
  "addr_source ctx k =
     (let ct = hd (sc_chip_types ctx); idx = addr_line_start ctx + k in
      if line_overhangs ctx ct idx then XPin (fly_leads ctx ct [addr_line_start ctx..<idx] + 1)
      else pin_source ctx (ct_address_pins ct ! idx))"

lemma wired_pin_sourced: "wired_pin ctx pin g \<Longrightarrow> sourced (sc_board ctx) (pin_source ctx pin) g"
  by (simp add: wired_pin_def sourced_def pin_source_def)

text \<open>Pins in the socket have sources of their own.\<close>

lemma pin_source_inj:
  assumes "\<not> overhangs ctx (socket_pin_of ctx p)" "\<not> overhangs ctx (socket_pin_of ctx q)"
    and "pin_source ctx p = pin_source ctx q"
  shows "p = q"
  using assms by (auto simp: pin_source_def overhangs_def socket_pin_of_def)

lemma fly_leads_grow:
  assumes "j < k" "line_overhangs ctx ct (s + j)"
  shows "fly_leads ctx ct [s..<s + j] < fly_leads ctx ct [s..<s + k]"
proof -
  have "[s..<s + k] = [s..<s + j] @ (s + j) # [s + j + 1..<s + k]"
    using assms(1) upt_add_eq_append [of s "s + j" "k - j"] by (simp add: upt_conv_Cons)
  then show ?thesis using assms(2) by (simp add: fly_leads_def)
qed

lemma addr_sources_distinct:
  assumes "chip_ok ctx"
  shows "distinct (map (addr_source ctx) [0..<length (drop (addr_line_start ctx)
    (ct_address_pins (hd (sc_chip_types ctx))))])"
proof -
  let ?ct = "hd (sc_chip_types ctx)" and ?s = "addr_line_start ctx"
  let ?n = "length (drop ?s (ct_address_pins ?ct))"
  have pins: "distinct (drop ?s (ct_address_pins ?ct))"
    using assms by (simp add: chip_ok_def chip_pins_of_def Let_def)
  have "addr_source ctx j \<noteq> addr_source ctx k" if jk: "j < k" "k < ?n" for j k
  proof
    assume eq: "addr_source ctx j = addr_source ctx k"
    have "ct_address_pins ?ct ! (?s + j) \<noteq> ct_address_pins ?ct ! (?s + k)"
      using pins jk nth_eq_iff_index_eq [OF pins, of j k] by simp
    then show False
      using eq fly_leads_grow [OF jk(1), of ctx ?ct ?s] pin_source_inj [of ctx]
      by (auto simp: addr_source_def Let_def pin_source_def line_overhangs_def split: if_splits)
  qed
  then show ?thesis
    by (auto simp: distinct_conv_nth) (metis nat_neq_iff)
qed

lemma addr_lines_sourced:
  assumes "derive_addr_layout ctx = Some (Inr al)" "chip_ok ctx"
  shows "list_all2 (sourced (sc_board ctx))
    (map (addr_source ctx) [0..<length (drop (addr_line_start ctx) (ct_address_pins (hd (sc_chip_types ctx))))])
    (al_addr_pin_gpios al @ al_excess_addr_pin_gpios al)"
proof -
  let ?ct = "hd (sc_chip_types ctx)" and ?gs = "al_addr_pin_gpios al @ al_excess_addr_pin_gpios al"
  note w = derived_addr_wired [OF assms(1)]
  have "sourced (sc_board ctx) (addr_source ctx k) (?gs ! k)" if k: "k < length ?gs" for k
  proof -
    obtain gpios where "?gs ! k \<in> set gpios" "line_wired ctx ?ct (addr_line_start ctx + k)
        (fly_leads ctx ?ct [addr_line_start ctx..<addr_line_start ctx + k]) gpios"
      using w k by blast
    then show ?thesis
      by (auto simp: sourced_def addr_source_def line_wired_def pin_source_def Let_def split: if_splits)
  qed
  moreover have "length ?gs = length (drop (addr_line_start ctx) (ct_address_pins ?ct))"
    using w assms(2) by (simp add: chip_ok_def Let_def)
  ultimately show ?thesis by (simp add: list_all2_conv_all_nth)
qed

text \<open>Only a single-chip set has address lines on X pins.\<close>

lemma addr_source_cases:
  assumes "derive_addr_layout ctx = Some (Inr al)" "chip_ok ctx"
    and "k < length (drop (addr_line_start ctx) (ct_address_pins (hd (sc_chip_types ctx))))"
  shows "(\<exists>pin \<in> set (drop (addr_line_start ctx) (ct_address_pins (hd (sc_chip_types ctx)))).
      \<not> overhangs ctx (socket_pin_of ctx pin) \<and> addr_source ctx k = pin_source ctx pin) \<or>
    sc_set_type ctx = Set_Single \<and> (\<exists>x. addr_source ctx k = XPin x)"
proof -
  let ?ct = "hd (sc_chip_types ctx)" and ?gs = "al_addr_pin_gpios al @ al_excess_addr_pin_gpios al"
  note w = derived_addr_wired [OF assms(1)]
  have "k < length ?gs" using w assms(2,3) by (simp add: chip_ok_def Let_def)
  then obtain gpios where "line_wired ctx ?ct (addr_line_start ctx + k)
      (fly_leads ctx ?ct [addr_line_start ctx..<addr_line_start ctx + k]) gpios"
    using w by blast
  moreover have "ct_address_pins ?ct ! (addr_line_start ctx + k) \<in> set (drop (addr_line_start ctx) (ct_address_pins ?ct))"
    using assms(3) nth_mem [OF assms(3)] by simp
  ultimately show ?thesis
    by (auto simp: addr_source_def line_wired_def line_overhangs_def Let_def split: if_splits)
qed

section \<open>Select lines\<close>

text \<open>
  The pins of the control lines that can select a chip. The others (\<open>byte\<close>, \<open>write\<close>, \<open>busy\<close>) are
  never read as selects, whatever GPIO they are wired to.
\<close>

definition select_pins_of :: "chip_type \<Rightarrow> nat list" where
  "select_pins_of ct =
     map cl_pin (filter (\<lambda>l. select_role_of_name (cl_name l) \<noteq> None) (ct_control_lines ct))"

lemma select_pins_sub: "set (select_pins_of ct) \<subseteq> set (map cl_pin (ct_control_lines ct))"
  by (auto simp: select_pins_of_def)

lemma select_role_kind: "select_role_of_name (kind_name kind) \<noteq> None"
  by (cases kind) (simp_all add: select_role_of_name_def)

text \<open>\<open>srcs\<close> are pins of select lines of the chip, in the socket.\<close>

definition control_sources :: "slot_context \<Rightarrow> gpio_source list \<Rightarrow> bool" where
  "control_sources ctx srcs \<longleftrightarrow>
     (\<forall>src \<in> set srcs. \<exists>pin \<in> set (select_pins_of (hd (sc_chip_types ctx))).
       \<not> overhangs ctx (socket_pin_of ctx pin) \<and> src = pin_source ctx pin)"

lemma pin_sources_distinct:
  assumes "distinct pins" "\<forall>pin \<in> set pins. \<not> overhangs ctx (socket_pin_of ctx pin)"
  shows "distinct (map (pin_source ctx) pins)"
  using assms pin_source_inj [of ctx] by (auto simp: distinct_map intro!: inj_onI)

lemma wired_pins_sources:
  assumes "list_all2 (wired_pin ctx) pins gs" "distinct pins"
    and "set pins \<subseteq> set (select_pins_of (hd (sc_chip_types ctx)))"
  shows "list_all2 (sourced (sc_board ctx)) (map (pin_source ctx) pins) gs \<and>
    distinct (map (pin_source ctx) pins) \<and> control_sources ctx (map (pin_source ctx) pins)"
proof -
  have "\<not> overhangs ctx (socket_pin_of ctx pin)" if pin: "pin \<in> set pins" for pin
  proof -
    obtain i where "i < length pins" "pins ! i = pin" using pin by (metis in_set_conv_nth)
    then show ?thesis using assms(1) by (auto simp: list_all2_conv_all_nth wired_pin_def)
  qed
  then show ?thesis
    using assms pin_sources_distinct [OF assms(2)]
    by (auto simp: control_sources_def list_all2_conv_all_nth wired_pin_sourced)
qed

lemma select_phys_pins_sub:
  assumes "select_phys_pins b ct c = Inr pins" "distinct (map cl_pin (ct_control_lines ct))"
  shows "distinct (map snd pins) \<and> set (map snd pins) \<subseteq> set (select_pins_of ct)"
proof -
  let ?f = "\<lambda>line. case select_role_of_name (cl_name line) of
      None \<Rightarrow> None
    | Some role \<Rightarrow>
        if control_line_logic (cl_name line) c \<in> {ActiveLow, ActiveHigh} then Some (role, cl_pin line) else None"
  have pins: "pins = List.map_filter ?f (ct_control_lines ct)"
    using assms(1) by (auto simp: select_phys_pins_def Let_def split: if_splits)
  have "map snd pins = map cl_pin (filter (\<lambda>line. ?f line \<noteq> None) (ct_control_lines ct))"
    unfolding pins List.map_filter_def
    by (auto simp: comp_def split: option.splits if_splits intro!: map_cong)
  then show ?thesis
    using assms(2) by (auto simp: distinct_map_filter select_pins_of_def split: option.splits)
qed

definition kind_pin :: "chip_type \<Rightarrow> control_line_kind \<Rightarrow> nat" where
  "kind_pin ct kind = (case List.find (\<lambda>l. cl_name l = kind_name kind) (ct_control_lines ct) of
     Some spec \<Rightarrow> cl_pin spec | None \<Rightarrow> 0)"

lemma kind_name_inj: "kind_name k = kind_name k' \<longleftrightarrow> k = k'"
  by (cases k; cases k') simp_all

lemma kind_pins_distinct:
  assumes "distinct kinds" "distinct (map cl_pin (ct_control_lines ct))"
    and "list_all2 (wired_kind ctx ct) kinds lines"
  shows "distinct (map (kind_pin ct) kinds)"
    and "set (map (kind_pin ct) kinds) \<subseteq> set (select_pins_of ct)"
    and "list_all2 (wired_pin ctx) (map (kind_pin ct) kinds) (map sl_gpio lines)"
proof -
  have k: "\<exists>spec \<in> set (ct_control_lines ct). cl_name spec = kind_name kind \<and> kind_pin ct kind = cl_pin spec"
    if kind: "kind \<in> set kinds" for kind
  proof -
    obtain i where "i < length kinds" "kinds ! i = kind" using kind by (metis in_set_conv_nth)
    then obtain spec where "List.find (\<lambda>l. cl_name l = kind_name kind) (ct_control_lines ct) = Some spec"
      using assms(3) by (auto simp: list_all2_conv_all_nth wired_kind_def)
    then show ?thesis by (auto simp: kind_pin_def dest: find_Some_mem)
  qed
  have "inj_on (kind_pin ct) (set kinds)"
  proof (rule inj_onI)
    fix a b assume ab: "a \<in> set kinds" "b \<in> set kinds" "kind_pin ct a = kind_pin ct b"
    obtain sa sb where s: "sa \<in> set (ct_control_lines ct)" "cl_name sa = kind_name a" "kind_pin ct a = cl_pin sa"
      "sb \<in> set (ct_control_lines ct)" "cl_name sb = kind_name b" "kind_pin ct b = cl_pin sb"
      using k [OF ab(1)] k [OF ab(2)] by blast
    then have "sa = sb" using assms(2) ab(3) by (auto simp: distinct_map dest: inj_onD)
    then show "a = b" using s kind_name_inj by simp
  qed
  then show "distinct (map (kind_pin ct) kinds)" using assms(1) by (simp add: distinct_map)
  show "set (map (kind_pin ct) kinds) \<subseteq> set (select_pins_of ct)"
  proof
    fix p assume "p \<in> set (map (kind_pin ct) kinds)"
    then obtain kind where kind: "kind \<in> set kinds" "p = kind_pin ct kind" by auto
    then obtain spec where "spec \<in> set (ct_control_lines ct)" "cl_name spec = kind_name kind" "p = cl_pin spec"
      using k by blast
    then show "p \<in> set (select_pins_of ct)"
      using select_role_kind [of kind] by (auto simp: select_pins_of_def)
  qed
  show "list_all2 (wired_pin ctx) (map (kind_pin ct) kinds) (map sl_gpio lines)"
    using assms(3) by (auto simp: list_all2_conv_all_nth wired_kind_def kind_pin_def)
qed

text \<open>The X lines of a multi set.\<close>

definition x_sources :: "slot_context \<Rightarrow> gpio_source list" where
  "x_sources ctx = map (\<lambda>(role, x). XPin x) (x_lines ctx)"

lemma x_lines_sourced:
  assumes "list_all2 (wired_x ctx) (x_lines ctx) xs"
  shows "list_all2 (sourced (sc_board ctx)) (x_sources ctx) (map sl_gpio xs)"
  using assms by (auto simp: x_sources_def list_all2_conv_all_nth wired_x_def sourced_def split_def)

lemma x_sources_distinct: "distinct (x_sources ctx)"
  by (simp add: x_sources_def x_lines_def)

lemma sourced_append:
  assumes "list_all2 (sourced b) ss gs" "list_all2 (sourced b) ts hs"
  shows "list_all2 (sourced b) (ss @ ts) (gs @ hs)"
  using assms by (rule list_all2_appendI)

lemma select_lines_sourced:
  assumes "derive_cs_data_layout ctx al = Some (Inr cd)" "chip_ok ctx"
    and "\<forall>mcc. sc_multi_cs_config ctx = Some mcc \<longrightarrow> distinct (per_chip_select mcc # commoned_lines mcc)"
  obtains sel ss cs where "cd_select_lines cd = sel @ half_select_lines al"
    and "list_all2 (sourced (sc_board ctx)) ss (map sl_gpio sel)"
    and "list_all2 (sourced (sc_board ctx)) cs (map sl_gpio (cd_commoned_lines cd))"
    and "distinct (ss @ cs)"
    and "\<forall>src \<in> set (ss @ cs). control_sources ctx [src] \<or> sc_set_type ctx = Set_Multi \<and> (\<exists>x. src = XPin x)"
proof -
  let ?ct = "hd (sc_chip_types ctx)"
  have pins: "distinct (map cl_pin (ct_control_lines ?ct))"
    using assms(2) by (simp add: chip_ok_def chip_pins_of_def Let_def)
  obtain sel where sel: "cd_select_lines cd = sel @ half_select_lines al"
    "if sc_set_type ctx = Set_Multi
       then \<exists>mcc line xs. sc_multi_cs_config ctx = Some mcc \<and> sel = line # xs \<and>
         wired_kind ctx ?ct (per_chip_select mcc) line \<and> list_all2 (wired_x ctx) (x_lines ctx) xs \<and>
         list_all2 (wired_kind ctx ?ct) (commoned_lines mcc) (cd_commoned_lines cd)
       else \<exists>pins. select_phys_pins (sc_board ctx) ?ct (sc_cs_config ctx) = Inr pins \<and>
         list_all2 (wired_select ctx) pins sel \<and> cd_commoned_lines cd = []"
    using derived_lines_wired [OF assms(1)] by blast
  show thesis
  proof (cases "sc_set_type ctx = Set_Multi")
    case True
    then obtain mcc line xs where m: "sc_multi_cs_config ctx = Some mcc" "sel = line # xs"
      "wired_kind ctx ?ct (per_chip_select mcc) line" "list_all2 (wired_x ctx) (x_lines ctx) xs"
      "list_all2 (wired_kind ctx ?ct) (commoned_lines mcc) (cd_commoned_lines cd)"
      using sel(2) by auto
    let ?kinds = "per_chip_select mcc # commoned_lines mcc"
    have "list_all2 (wired_kind ctx ?ct) ?kinds (line # cd_commoned_lines cd)" using m(3,5) by simp
    note k = kind_pins_distinct [OF assms(3) [rule_format, OF m(1)] pins this]
    note w = wired_pins_sources [OF k(3) k(1) k(2)]
    obtain p ps where ps: "map (pin_source ctx) (map (kind_pin ?ct) ?kinds) = p # ps" by simp
    have "p \<notin> set (x_sources ctx)" "set ps \<inter> set (x_sources ctx) = {}"
      using w unfolding ps by (auto simp: control_sources_def pin_source_def x_sources_def)
    then show thesis
      using w x_lines_sourced [OF m(4)] x_sources_distinct [of ctx] True unfolding ps
      by (intro that [OF sel(1), of "p # x_sources ctx" ps])
        (auto simp: m(2) control_sources_def x_sources_def)
  next
    case False
    then obtain pins' where p: "select_phys_pins (sc_board ctx) ?ct (sc_cs_config ctx) = Inr pins'"
      "list_all2 (wired_select ctx) pins' sel" "cd_commoned_lines cd = []"
      using sel(2) by auto
    have "list_all2 (wired_pin ctx) (map snd pins') (map sl_gpio sel)"
      using p(2) by (auto simp: list_all2_conv_all_nth wired_select_def)
    note w = wired_pins_sources [OF this]
    show thesis
      using w select_phys_pins_sub [OF p(1) pins] p(3)
      by (intro that [OF sel(1), of "map (pin_source ctx) (map snd pins')" "[]"])
        (auto simp: control_sources_def)
  qed
qed

section \<open>The GPIOs of a slot are apart\<close>

text \<open>
  The pins a slot reads: the address pins (A-1 apart in 16-bit mode) and the select pins.
\<close>

definition read_pins_of :: "slot_context \<Rightarrow> nat list" where
  "read_pins_of ctx =
     (let ct = hd (sc_chip_types ctx)
      in drop (addr_line_start ctx) (ct_address_pins ct) @ select_pins_of ct)"

text \<open>
  What the tables guarantee of a chip with a /BYTE pin on a board that wires that pin: its GPIO is
  one of the upper PIO blocks, no X pin and no pin read as an address or select line (the chip's
  own \<open>byte\<close> line is on it); the selects are neighbouring GPIOs; all address lines are in range,
  and none of them qualifies the select.
\<close>

definition byte_ok :: "slot_context \<Rightarrow> bool" where
  "byte_ok ctx \<longleftrightarrow>
     (let b = sc_board ctx; ct = hd (sc_chip_types ctx);
          gpios = (\<lambda>pin. set (source_gpios b (pin_source ctx pin)))
      in 16 \<le> bd_pin_byte b \<and> bd_pin_byte b < 48 \<and>
         (\<forall>pin \<in> set (read_pins_of ctx). bd_pin_byte b \<notin> gpios pin) \<and>
         (\<forall>(x, gs) \<in> set (bd_x_pin_map b). bd_pin_byte b \<notin> set gs) \<and>
         (\<forall>p \<in> set (select_pins_of ct). \<forall>q \<in> set (select_pins_of ct).
            \<forall>g \<in> gpios p. \<forall>h \<in> gpios q. g \<le> h + 1) \<and>
         ct_num_addr_lines ct \<le> addr_line_start ctx + max_useful_addr_lines ctx \<and>
         ct_deselect_all_high ct = None)"

lemma byte_ok_x: "byte_ok ctx \<Longrightarrow> \<not> sourced (sc_board ctx) (XPin x) (bd_pin_byte (sc_board ctx))"
  using gpios_for_x_pin_entry by (fastforce simp: byte_ok_def sourced_def Let_def)

lemma byte_ok_pin:
  assumes "byte_ok ctx" "pin \<in> set (read_pins_of ctx)"
  shows "\<not> sourced (sc_board ctx) (pin_source ctx pin) (bd_pin_byte (sc_board ctx))"
  using assms by (simp add: byte_ok_def sourced_def Let_def)

lemma u8_add_sub:
  assumes "a < 256" "b \<le> 256"
  shows "u8_add (u8_sub a b) b = a"
proof -
  have "u8_add (u8_sub a b) b = (a + 256 - b + b) mod 256"
    unfolding u8_add_def u8_sub_def by (rule mod_add_left_eq)
  then show ?thesis using assms by simp
qed

lemma byte_gpios_pin:
  assumes "build_alg_data cd b ct mode force = Some alg_data" "cd_gpio_base cd \<in> {0, 16}"
    and "g \<in> set (byte_gpios cd alg_data)" "reads_byte_pin ct mode force \<Longrightarrow> bd_pin_byte b < 64"
  shows "reads_byte_pin ct mode force \<and> g = bd_pin_byte b"
proof -
  have m: "mode = BitMode16" "reads_byte_pin ct mode force"
    using assms(1,3) by (cases mode; auto simp: build_alg_data_def byte_gpios_def split: if_splits)+
  then have p: "bd_pin_byte b < 64" by (intro assms(4))
  have "g = u8_add (u8_sub (bd_pin_byte b) (cd_gpio_base cd)) (cd_gpio_base cd)"
    using assms(1,3) m by (auto simp: build_alg_data_def byte_gpios_def split: if_splits)
  also have "\<dots> = bd_pin_byte b" using assms(2) p by (intro u8_add_sub) auto
  finally show ?thesis using m by simp
qed

lemma jumpers_sourced:
  assumes "derive_addr_layout ctx = Some (Inr al)"
  obtains js where "list_all2 (sourced (sc_board ctx)) js (jumper_gpios al (sc_set_type ctx) n)"
    and "distinct js" "\<forall>src \<in> set js. sc_set_type ctx = Set_Banked \<and> (\<exists>x. src = XPin x)"
proof -
  let ?js = "if sc_set_type ctx \<noteq> Set_Banked then []
    else (if al_x1_gpio al = None then [] else [XPin 1]) @
      (if 3 \<le> n then if al_x2_gpio al = None then [] else [XPin 2] else [])"
  note x = derived_x_wired [OF assms]
  show thesis
  proof (rule that)
    show "list_all2 (sourced (sc_board ctx)) ?js (jumper_gpios al (sc_set_type ctx) n)"
      using x by (cases "sc_set_type ctx = Set_Banked"; cases "3 \<le> n"; cases "al_x1_gpio al"; cases "al_x2_gpio al")
        (simp_all add: jumper_gpios_def sourced_def)
  qed auto
qed

lemma cs_run_bound:
  assumes "derive_cs_data_layout ctx al' = Some (Inr cd)" "cd_num_cs_pins cd \<noteq> 0"
  shows "cd_gpio_base cd + cd_base_cs_pin cd + cd_num_cs_pins cd \<le> 48"
proof -
  note r = derived_runs [OF assms(1)]
  let ?B = "cd_gpio_base cd + cd_base_cs_pin cd"
  have "cd_cs_ignore_index cd = None \<or> (\<exists>k. cd_cs_ignore_index cd = Some k \<and> 0 < k \<and> k + 1 < cd_num_cs_pins cd)"
    using r by auto
  then have "?B + cd_num_cs_pins cd - 1 \<in> sl_gpio ` set (cd_select_lines cd @ cd_commoned_lines cd)"
  proof
    assume none: "cd_cs_ignore_index cd = None"
    then show ?thesis using r assms(2) by (auto simp: none)
  next
    assume "\<exists>k. cd_cs_ignore_index cd = Some k \<and> 0 < k \<and> k + 1 < cd_num_cs_pins cd"
    then obtain k where k: "cd_cs_ignore_index cd = Some k" "0 < k" "k + 1 < cd_num_cs_pins cd" by blast
    then have "?B + cd_num_cs_pins cd - 1 \<in> {?B..<?B + cd_num_cs_pins cd} - {?B + k}" by auto
    then show ?thesis using r k(1) by simp
  qed
  then have "?B + cd_num_cs_pins cd - 1 < cd_gpio_base cd + 32" "cd_gpio_base cd \<in> {0, 16}"
    using r by blast+
  then show ?thesis by auto
qed

lemma lines_in_run:
  assumes "derive_cs_data_layout ctx al' = Some (Inr cd)"
  shows "set (map sl_gpio (cd_select_lines cd @ cd_commoned_lines cd)) \<subseteq>
    {cd_gpio_base cd + cd_base_cs_pin cd..<cd_gpio_base cd + cd_base_cs_pin cd + cd_num_cs_pins cd}"
proof -
  have "sl_gpio ` set (cd_select_lines cd @ cd_commoned_lines cd) \<subseteq>
    {cd_gpio_base cd + cd_base_cs_pin cd..<cd_gpio_base cd + cd_base_cs_pin cd + cd_num_cs_pins cd}"
    using derived_runs [OF assms] by blast
  then show ?thesis by (simp add: image_Un)
qed

lemma commoned_in_range:
  assumes "derive_cs_data_layout ctx al' = Some (Inr cd)"
  shows "set (map sl_gpio (cd_select_lines cd @ cd_commoned_lines cd)) \<subseteq> set (addr_used_gpios al cd alg_data)"
proof (cases "cd_num_cs_pins cd = 0")
  case True
  then show ?thesis using lines_in_run [OF assms] by simp
next
  case False
  then show ?thesis
    using lines_in_run [OF assms] cs_run_bound [OF assms]
    by (fastforce simp: addr_used_gpios_def Let_def u8_add_def)
qed

text \<open>The sources of the address lines, in range and excess, and what they are apart from.\<close>

lemma addr_sources_apart:
  assumes "derive_addr_layout ctx = Some (Inr al)" "chip_ok ctx" "src \<in> set (map (addr_source ctx)
      [0..<length (drop (addr_line_start ctx) (ct_address_pins (hd (sc_chip_types ctx))))])"
  shows "\<not> control_sources ctx [src]" "sc_set_type ctx \<noteq> Set_Single \<Longrightarrow> src \<noteq> XPin x"
proof -
  let ?ct = "hd (sc_chip_types ctx)"
  have "set (drop (addr_line_start ctx) (ct_address_pins ?ct)) \<inter> set (map cl_pin (ct_control_lines ?ct)) = {}"
    using assms(2) by (auto simp: chip_ok_def chip_pins_of_def Let_def)
  then have d: "set (drop (addr_line_start ctx) (ct_address_pins ?ct)) \<inter> set (select_pins_of ?ct) = {}"
    using select_pins_sub [of ?ct] by blast
  obtain k where "k < length (drop (addr_line_start ctx) (ct_address_pins ?ct))" "src = addr_source ctx k"
    using assms(3) by auto
  then consider pin where "pin \<in> set (drop (addr_line_start ctx) (ct_address_pins ?ct))"
      "\<not> overhangs ctx (socket_pin_of ctx pin)" "src = pin_source ctx pin"
    | x where "sc_set_type ctx = Set_Single" "src = XPin x"
    using addr_source_cases [OF assms(1,2)] by metis
  then have "\<not> control_sources ctx [src] \<and> (sc_set_type ctx \<noteq> Set_Single \<longrightarrow> src \<noteq> XPin x)"
  proof cases
    case 1
    then show ?thesis using d pin_source_inj [of ctx pin] by (auto simp: control_sources_def pin_source_def)
  next
    case 2
    then show ?thesis by (auto simp: control_sources_def pin_source_def)
  qed
  then show "\<not> control_sources ctx [src]" "sc_set_type ctx \<noteq> Set_Single \<Longrightarrow> src \<noteq> XPin x" by blast+
qed

lemma half_select_gpios: "map sl_gpio (half_select_lines (Some al)) = al_excess_addr_pin_gpios al"
  by (simp add: half_select_lines_def comp_def)

text \<open>Address lines, select and commoned lines and jumpers: all on different GPIOs.\<close>

lemma slot_gpios_distinct:
  assumes "derive_addr_layout ctx = Some (Inr al)" "derive_cs_data_layout ctx (Some al) = Some (Inr cd)"
    and "board_ok (sc_board ctx)" "chip_ok ctx"
    and "\<forall>mcc. sc_multi_cs_config ctx = Some mcc \<longrightarrow> distinct (per_chip_select mcc # commoned_lines mcc)"
  shows "distinct (al_addr_pin_gpios al @ map sl_gpio (cd_select_lines cd @ cd_commoned_lines cd) @
      jumper_gpios al (sc_set_type ctx) n)" (is "distinct ?gs")
    and "g \<in> set (al_addr_pin_gpios al @ map sl_gpio (cd_select_lines cd @ cd_commoned_lines cd) @
      jumper_gpios al (sc_set_type ctx) n) \<Longrightarrow>
      (\<exists>pin \<in> set (read_pins_of ctx). sourced (sc_board ctx) (pin_source ctx pin) g) \<or>
      (\<exists>x. sourced (sc_board ctx) (XPin x) g)"
proof -
  let ?b = "sc_board ctx" and ?A = "map (addr_source ctx)
      [0..<length (drop (addr_line_start ctx) (ct_address_pins (hd (sc_chip_types ctx))))]"
  obtain sel ss cs where s: "cd_select_lines cd = sel @ half_select_lines (Some al)"
    "list_all2 (sourced ?b) ss (map sl_gpio sel)" "list_all2 (sourced ?b) cs (map sl_gpio (cd_commoned_lines cd))"
    "distinct (ss @ cs)"
    "\<forall>src \<in> set (ss @ cs). control_sources ctx [src] \<or> sc_set_type ctx = Set_Multi \<and> (\<exists>x. src = XPin x)"
    by (rule select_lines_sourced [OF assms(2,4,5)])
  obtain js where j: "list_all2 (sourced ?b) js (jumper_gpios al (sc_set_type ctx) n)" "distinct js"
    "\<forall>src \<in> set js. sc_set_type ctx = Set_Banked \<and> (\<exists>x. src = XPin x)"
    by (rule jumpers_sourced [OF assms(1)])
  have a: "list_all2 (sourced ?b) ?A (al_addr_pin_gpios al @ al_excess_addr_pin_gpios al)" "distinct ?A"
    using addr_lines_sourced [OF assms(1,4)] addr_sources_distinct [OF assms(4)] by simp_all
  then obtain A1 A2 where A: "?A = A1 @ A2" "list_all2 (sourced ?b) A1 (al_addr_pin_gpios al)"
    "list_all2 (sourced ?b) A2 (al_excess_addr_pin_gpios al)"
    by (auto simp: list_all2_append2)
  note apart = addr_sources_apart [OF assms(1,4)]
  let ?srcs = "A1 @ (ss @ A2 @ cs) @ js"
  have all: "list_all2 (sourced ?b) ?srcs ?gs"
    using s A j(1) half_select_gpios [of al] by (auto simp: s(1) intro!: list_all2_appendI)
  have ctl_js: "set (ss @ cs) \<inter> set js = {}"
    using s(5) j(3) by (auto simp: control_sources_def pin_source_def)
  have A_ctl: "set ?A \<inter> set (ss @ cs) = {}" using apart s(5) by fastforce
  have A_js: "set ?A \<inter> set js = {}" using apart(2) j(3) by fastforce
  have "distinct ?srcs"
    using s(4) j(2) a(2) ctl_js A_ctl A_js unfolding A(1) by auto
  then show "distinct ?gs" by (rule sourced_distinct [OF assms(3) all])
  assume "g \<in> set ?gs"
  then obtain i where i: "i < length ?gs" "?gs ! i = g" by (metis in_set_conv_nth)
  have src: "?srcs ! i \<in> set ?srcs" "sourced ?b (?srcs ! i) g"
    using list_all2_nthD2 [OF all i(1)] list_all2_lengthD [OF all] i by (simp_all only: nth_mem)
  have "(\<exists>pin \<in> set (read_pins_of ctx). src = pin_source ctx pin) \<or> (\<exists>x. src = XPin x)"
    if m: "src \<in> set ?srcs" for src
  proof -
    consider "src \<in> set ?A" | "src \<in> set (ss @ cs)" | "src \<in> set js" using m unfolding A(1) by auto
    then show ?thesis
    proof cases
      case 1
      then obtain k where "k < length (drop (addr_line_start ctx) (ct_address_pins (hd (sc_chip_types ctx))))"
        "src = addr_source ctx k" by auto
      then show ?thesis using addr_source_cases [OF assms(1,4)] by (fastforce simp: read_pins_of_def Let_def)
    next
      case 2
      then show ?thesis using s(5) by (fastforce simp: control_sources_def read_pins_of_def Let_def)
    next
      case 3
      then show ?thesis using j(3) by blast
    qed
  qed
  then show "(\<exists>pin \<in> set (read_pins_of ctx). sourced ?b (pin_source ctx pin) g) \<or> (\<exists>x. sourced ?b (XPin x) g)"
    using src by metis
qed

lemma derived_gpios_apart:
  assumes "derive_addr_layout ctx = Some (Inr al)" "derive_cs_data_layout ctx (Some al) = Some (Inr cd)"
    and "board_ok (sc_board ctx)" "chip_ok ctx"
    and "\<forall>mcc. sc_multi_cs_config ctx = Some mcc \<longrightarrow> distinct (per_chip_select mcc # commoned_lines mcc)"
    and "reads_byte_pin ct (sc_bit_mode ctx) force \<longrightarrow> byte_ok ctx"
    and "build_alg_data cd (sc_board ctx) ct (sc_bit_mode ctx) force = Some alg_data"
  shows "gpios_apart ctx al cd alg_data"
proof -
  let ?n = "length (sc_chip_types ctx)" and ?b = "sc_board ctx"
  let ?lines = "map sl_gpio (cd_select_lines cd @ cd_commoned_lines cd)"
  let ?js = "jumper_gpios al (sc_set_type ctx) ?n"
  have d: "distinct (al_addr_pin_gpios al @ ?lines @ ?js)"
    by (rule slot_gpios_distinct(1) [OF assms(1-5)])
  note src = slot_gpios_distinct(2) [OF assms(1-5), of _ ?n]
  have base: "cd_gpio_base cd \<in> {0, 16}" using derived_runs [OF assms(2)] by blast
  have p: "g = bd_pin_byte ?b \<and> byte_ok ctx" if "g \<in> set (byte_gpios cd alg_data)" for g
    using byte_gpios_pin [OF assms(7) base that] assms(6) by (auto simp: byte_ok_def Let_def)
  have bs: "distinct (byte_gpios cd alg_data)" by (cases alg_data) (simp_all add: byte_gpios_def)
  have off: "g \<notin> set (al_addr_pin_gpios al @ ?lines @ ?js)" if "g \<in> set (byte_gpios cd alg_data)" for g
    using p [OF that] src [of g] byte_ok_x [of ctx] byte_ok_pin [of ctx] by auto
  have small: "g < 64" if "g \<in> set (al_addr_pin_gpios al @ ?lines @ ?js)" for g
    using src [OF that] sourced_less [OF assms(3)] by fastforce
  have bsmall: "g < 64" if "g \<in> set (byte_gpios cd alg_data)" for g
    using p [OF that] by (simp add: byte_ok_def Let_def)
  have w: "al_gpio_base al + al_num_addr_pins al \<le> 64"
    using derived_window [OF assms(1)] by (auto simp: fits_pio_window_iff)
  show ?thesis
    unfolding gpios_apart_def Let_def
    using d bs off small bsmall commoned_in_range [OF assms(2)] w by auto
qed

section \<open>A chip with a /BYTE pin\<close>

lemma derived_qualifier:
  assumes "derive_cs_data_layout ctx al = Some (Inr cd)" "ct_deselect_all_high (hd (sc_chip_types ctx)) = None"
  shows "cd_alg_cs2 cd = None"
proof -
  obtain q where q: "cs_search_of ctx (hd (sc_chip_types ctx)) al = Some (Inr q)"
    "search_cs_data ctx (hd (sc_chip_types ctx)) q = Some (Inr cd)"
    by (rule derive_cs_data_layout_Inr [OF assms(1)]) simp
  obtain v s where v: "try_cs_choice q v = Candidate cd s"
    by (rule search_cs_data_Inr [OF q(2)])
  have "cq_qual q = None"
    using q(1) assms(2)
    by (auto simp: cs_search_of_def qualifier_gpios_def bind_r_Inr_iff split: option.splits sum.splits)
  then show ?thesis using v by (auto simp: try_cs_choice_Candidate cs_layout_of_def Let_def)
qed

lemma no_excess_lines:
  assumes "derive_addr_layout ctx = Some (Inr al)"
    and "ct_num_addr_lines (hd (sc_chip_types ctx)) \<le> addr_line_start ctx + max_useful_addr_lines ctx"
  shows "half_select_lines (Some al) = []"
proof -
  have "al_excess_addr_pin_gpios al = []" using derived_addr_wired [OF assms(1)] assms(2) by auto
  then show ?thesis by (simp add: half_select_lines_def)
qed

text \<open>Its selects leave no gap, so the plain chip-select algorithm serves it, which reads the pin.\<close>

lemma byte_chip_plain_selects:
  assumes "derive_addr_layout ctx = Some (Inr al)" "derive_cs_data_layout ctx (Some al) = Some (Inr cd)"
    and "chip_ok ctx" "byte_ok ctx"
  shows "cd_alg_cs2 cd = None \<and> cd_cs_ignore_index cd = None"
proof
  let ?ct = "hd (sc_chip_types ctx)" and ?B = "cd_gpio_base cd + cd_base_cs_pin cd"
  have ok: "ct_deselect_all_high ?ct = None" "ct_num_addr_lines ?ct \<le> addr_line_start ctx + max_useful_addr_lines ctx"
    using assms(4) by (simp_all add: byte_ok_def Let_def)
  show "cd_alg_cs2 cd = None" by (rule derived_qualifier [OF assms(2) ok(1)])
  show "cd_cs_ignore_index cd = None"
  proof (rule ccontr)
    assume "cd_cs_ignore_index cd \<noteq> None"
    then obtain k where k: "cd_cs_ignore_index cd = Some k" by blast
    note run = derived_runs [OF assms(2)]
    have b: "sc_set_type ctx \<noteq> Set_Multi" "0 < k" "k + 1 < cd_num_cs_pins cd" using run k by blast+
    obtain pins where p: "select_phys_pins (sc_board ctx) ?ct (sc_cs_config ctx) = Inr pins"
      "list_all2 (wired_select ctx) pins (cd_select_lines cd)" "cd_commoned_lines cd = []"
      using derived_lines_wired [OF assms(2)] b(1) no_excess_lines [OF assms(1) ok(2)] by auto
    have "distinct (map cl_pin (ct_control_lines ?ct))"
      using assms(3) by (simp add: chip_ok_def chip_pins_of_def Let_def)
    then have sub: "set (map snd pins) \<subseteq> set (select_pins_of ?ct)" using select_phys_pins_sub [OF p(1)] by blast
    have src: "\<exists>pin \<in> set (select_pins_of ?ct). g \<in> set (source_gpios (sc_board ctx) (pin_source ctx pin))"
      if g: "g \<in> {?B, ?B + cd_num_cs_pins cd - 1}" for g
    proof -
      have "g \<in> {?B..<?B + cd_num_cs_pins cd} - {?B + k}" using g b by auto
      then have "g \<in> sl_gpio ` set (cd_select_lines cd)" using run k p(3) by simp
      then obtain i where i: "i < length (cd_select_lines cd)" "g = sl_gpio (cd_select_lines cd ! i)"
        by (metis imageE in_set_conv_nth)
      then have w: "i < length pins" "wired_pin ctx (snd (pins ! i)) g"
        using p(2) by (auto simp: list_all2_conv_all_nth wired_select_def)
      then have "snd (pins ! i) \<in> set (select_pins_of ?ct)" using sub by auto
      then show ?thesis using wired_pin_sourced [OF w(2)] by (auto simp: sourced_def)
    qed
    have "?B + cd_num_cs_pins cd - 1 \<le> ?B + 1"
      using src [of ?B] src [of "?B + cd_num_cs_pins cd - 1"] assms(4)
      unfolding byte_ok_def Let_def by blast
    then show False using b by simp
  qed
qed

lemma byte_gpios_plain:
  assumes "derive_addr_layout ctx = Some (Inr al)" "derive_cs_data_layout ctx (Some al) = Some (Inr cd)"
    and "chip_ok ctx" "reads_byte_pin ct (sc_bit_mode ctx) force \<longrightarrow> byte_ok ctx"
    and "build_alg_data cd (sc_board ctx) ct (sc_bit_mode ctx) force = Some alg_data"
  shows "\<forall>g \<in> set (byte_gpios cd alg_data). cd_gpio_base cd \<le> g \<and> cd_alg_cs2 cd = None \<and>
    cd_cs_ignore_index cd = None"
proof
  fix g assume g: "g \<in> set (byte_gpios cd alg_data)"
  have base: "cd_gpio_base cd \<in> {0, 16}" using derived_runs [OF assms(2)] by blast
  then have p: "g = bd_pin_byte (sc_board ctx)" "byte_ok ctx"
    using byte_gpios_pin [OF assms(5) base g] assms(4) by (auto simp: byte_ok_def Let_def)
  then have "cd_gpio_base cd \<le> g" using base by (auto simp: byte_ok_def Let_def)
  then show "cd_gpio_base cd \<le> g \<and> cd_alg_cs2 cd = None \<and> cd_cs_ignore_index cd = None"
    using byte_chip_plain_selects [OF assms(1-3) p(2)] by blast
qed

end
