(* ===== verification/Rom_Slot.thy ===== *)
theory Rom_Slot
  imports Slot_Gpios Onerom_Text
begin

text \<open>
  The ROM slot of a chip set (\<open>build_rom_slot\<close> in \<open>rust/gen/src/v2/rom_slot.rs\<close>) with the
  ROM info of its chips (\<open>v2/rom_info.rs\<close>), and what the whole chain serves: layouts,
  algorithm configuration, overrides and ROM table together. A result is an option, \<open>None\<close>
  being a panic, of an error or a value.
\<close>

section \<open>ROM info\<close>

definition MAX_ADDR_PINS :: nat where "MAX_ADDR_PINS = 24"
definition MAX_DATA_PINS :: nat where "MAX_DATA_PINS = 16"
definition MAX_ROM_FILENAME_LEN :: nat where "MAX_ROM_FILENAME_LEN = 128"

record rom_pin_map =
  pm_addr :: "nat list"
  pm_data :: "nat list"

text \<open>Writing entry \<open>i\<close> of an array; an index past its end panics.\<close>

definition array_set :: "nat list option \<Rightarrow> nat \<times> nat \<Rightarrow> nat list option" where
  "array_set arr ix = Option.bind arr (\<lambda>a. if fst ix < length a then Some (a[fst ix := snd ix]) else None)"

definition fill_pins :: "nat \<Rightarrow> nat list \<Rightarrow> nat list option" where
  "fill_pins n gpios = foldl array_set (Some (replicate n GPIO_NONE)) (enumerate 0 gpios)"

definition build_rom_pin_map :: "addr_layout \<Rightarrow> cs_data_layout \<Rightarrow> rom_pin_map option" where
  "build_rom_pin_map al cd =
     (case (fill_pins MAX_ADDR_PINS (al_addr_pin_gpios al), fill_pins MAX_DATA_PINS (cd_data_pin_gpios cd)) of
        (Some a, Some d) \<Rightarrow> Some \<lparr>pm_addr = a, pm_data = d\<rparr>
      | _ \<Rightarrow> None)"

text \<open>Character boundaries of a text, in bytes of its UTF-8 form.\<close>

definition is_char_boundary :: "ustr \<Rightarrow> nat \<Rightarrow> bool" where
  "is_char_boundary s k \<longleftrightarrow> k \<in> set (map (\<lambda>i. str_len (take i s)) [0..<length s + 1])"

fun boundary_below :: "ustr \<Rightarrow> nat \<Rightarrow> nat" where
  "boundary_below s 0 = 0"
| "boundary_below s (Suc k) = (if is_char_boundary s (Suc k) then Suc k else boundary_below s k)"

fun str_prefix :: "ustr \<Rightarrow> nat \<Rightarrow> ustr" where
  "str_prefix [] k = []"
| "str_prefix (c # s) k = (if char_len c \<le> k then c # str_prefix s (k - char_len c) else [])"

definition truncate_filename :: "ustr \<Rightarrow> ustr option" where
  "truncate_filename name =
     (if name = [] then None
      else if str_len name \<le> MAX_ROM_FILENAME_LEN then Some name
      else Some (str_prefix name (boundary_below name MAX_ROM_FILENAME_LEN)))"

record rom_info =
  ri_rom_type :: ustr
  ri_filename :: "ustr option"
  ri_pin_map :: rom_pin_map
  ri_chip_size :: nat
  ri_rbcp_rom_type :: nat

definition build_rom_info :: "chip \<Rightarrow> addr_layout \<Rightarrow> cs_data_layout \<Rightarrow> rom_info option" where
  "build_rom_info c al cd =
     map_option (\<lambda>pins.
       \<lparr>ri_rom_type = ch_type_raw c, ri_filename = truncate_filename (chip_filename c),
        ri_pin_map = pins, ri_chip_size = ct_size_bytes (ch_type c) mod 2 ^ 32,
        ri_rbcp_rom_type = ct_rbcp_type (ch_type c)\<rparr>)
     (build_rom_pin_map al cd)"

datatype rom_slot_type = SlotSingleRom | SlotMultiRom | SlotBankedRom | SlotSingleRam

definition rom_slot_type_of :: "chip_set_type \<Rightarrow> chip_type \<Rightarrow> rom_slot_type" where
  "rom_slot_type_of set_type chip0 =
     (case set_type of
        Set_Multi \<Rightarrow> SlotMultiRom
      | Set_Banked \<Rightarrow> SlotBankedRom
      | Set_Single \<Rightarrow> if ct_name chip0 = ''6116'' then SlotSingleRam else SlotSingleRom)"

section \<open>The slot\<close>

record 'o rom_slot =
  rs_data :: nat
  rs_size :: nat
  rs_roms :: "rom_info list"
  rs_rom_count :: nat
  rs_slot_type :: rom_slot_type
  rs_alg :: alg_config
  rs_overrides :: "'o option"

definition rom_table_size :: "addr_layout \<Rightarrow> alg_dma_config \<Rightarrow> nat option" where
  "rom_table_size al dma = map_option (\<lambda>wb. (table_entries al * wb) mod 2 ^ 32) (bytes_per_word dma)"

text \<open>The multi set's control lines, \<open>None\<close> for the other set types.\<close>

definition multi_config_of ::
  "chip_set_type \<Rightarrow> chip list \<Rightarrow> multi_chip_cs_config option option" where
  "multi_config_of set_type chips =
     (if set_type = Set_Multi then
        case chips of
          c0 # c1 # _ \<Rightarrow>
            map_option Some (derive_multi_cs_config (ch_type c0) (ch_cs_config c0) (ch_cs_config c1))
        | _ \<Rightarrow> None
      else Some None)"

definition slot_context_of ::
  "board \<Rightarrow> chip_set_type \<Rightarrow> chip list \<Rightarrow> bool \<Rightarrow> (layout_error, slot_context) result option" where
  "slot_context_of b set_type chips force_16_bit =
     (case chips of
        [] \<Rightarrow> None
      | c0 # _ \<Rightarrow>
          (case socket_pin_offset (ct_chip_pins (ch_type c0)) (bd_chip_pins b) of
             None \<Rightarrow> Some (Inl (IncompatiblePinCount b (ch_type c0)))
           | Some offset \<Rightarrow>
               map_option (\<lambda>mcc. Inr
                 \<lparr>sc_board = b, sc_set_type = set_type, sc_chip_types = map ch_type chips,
                  sc_cs_config = ch_cs_config c0, sc_bit_mode = bit_mode_for (ch_type c0) b,
                  sc_pin_offset = offset, sc_force_16_bit = force_16_bit, sc_multi_cs_config = mcc\<rparr>)
                 (multi_config_of set_type chips)))"

definition secondary_configs :: "chip_set_type \<Rightarrow> chip list \<Rightarrow> cs_config list" where
  "secondary_configs set_type chips = (if set_type = Set_Multi then map ch_cs_config (tl chips) else [])"

text \<open>The slot from its layouts and algorithm configuration.\<close>

definition assemble_slot ::
  "slot_context \<Rightarrow> chip list \<Rightarrow> nat \<Rightarrow> 'o option \<Rightarrow> addr_layout \<Rightarrow> cs_data_layout \<Rightarrow> alg_config \<Rightarrow>
     (layout_error, 'o rom_slot \<times> addr_layout \<times> cs_data_layout \<times> combined_preference) result option" where
  "assemble_slot ctx chips data fw al cd alg =
     Option.bind (rom_table_size al (oc_dma alg)) (\<lambda>size.
       if MAX_IMAGE_SIZE < size
       then Some (Inl (LayoutTableTooLarge (sc_board ctx) (hd (sc_chip_types ctx)) (sc_set_type ctx)
              (length (sc_chip_types ctx)) (al_num_addr_pins al) size))
       else
         Option.bind (those (map (\<lambda>c. build_rom_info c al cd) chips)) (\<lambda>roms.
         map_option (\<lambda>pref. Inr (
             \<lparr>rs_data = data, rs_size = size, rs_roms = roms, rs_rom_count = length chips mod 256,
              rs_slot_type = rom_slot_type_of (sc_set_type ctx) (hd (sc_chip_types ctx)),
              rs_alg = alg, rs_overrides = fw\<rparr>, al, cd, pref))
           (combined_alg_preference alg)))"

definition build_rom_slot ::
  "board \<Rightarrow> chip_set_type \<Rightarrow> chip list \<Rightarrow> nat \<Rightarrow> 'o option \<Rightarrow> bool \<Rightarrow>
     (layout_error, 'o rom_slot \<times> addr_layout \<times> cs_data_layout \<times> combined_preference) result option" where
  "build_rom_slot b set_type chips data fw force_16_bit =
     bind_p (slot_context_of b set_type chips force_16_bit) (\<lambda>ctx.
     bind_p (derive_addr_layout ctx) (\<lambda>al.
     bind_p (derive_cs_data_layout ctx (Some al)) (\<lambda>cd.
       Option.bind (build_alg_config ctx al cd (secondary_configs set_type chips))
         (assemble_slot ctx chips data fw al cd))))"

section \<open>Control lines of a multi set\<close>

lemma derive_multi_distinct:
  assumes "derive_multi_cs_config ct c0 c1 = Some m" "distinct (map cl_name (ct_control_lines ct))"
  shows "distinct (per_chip_select m # commoned_lines m)"
proof (cases "length (named_lines ct) = 1")
  case True
  then show ?thesis using assms(1) by (auto simp: derive_multi_cs_config_def Let_def)
next
  case False
  let ?k = "\<lambda>n. the (name_to_control_line_kind n)"
  let ?act = "\<lambda>n. control_line_logic n c1 \<noteq> CsIgnore" and ?on = "\<lambda>n. control_line_logic n c0 \<noteq> CsIgnore"
  let ?ns = "named_lines ct"
  have known: "filter (\<lambda>n. name_to_control_line_kind n \<noteq> None) ?ns = ?ns" by (simp add: named_lines_def)
  have d: "distinct ?ns" using assms(2) by (simp add: named_lines_def)
  have inj: "inj_on ?k (set ?ns)"
    by (rule inj_onI) (auto simp: named_lines_def name_to_control_line_kind_def split: if_splits)
  have m: "filter ?act ?ns \<noteq> []" "per_chip_select m = last (map ?k (filter ?act ?ns))"
    "commoned_lines m = map ?k (filter (\<lambda>n. \<not> ?act n \<and> ?on n) ?ns)"
  proof -
    have "split_lines c0 c1 ?ns (None, [], []) =
        (if filter ?act ?ns = [] then None else Some (last (map ?k (filter ?act ?ns))),
         map ?k (filter (\<lambda>n. \<not> ?act n \<and> ?on n) ?ns),
         map ?k (filter (\<lambda>n. \<not> ?act n \<and> \<not> ?on n) ?ns))"
      unfolding split_lines_filters Let_def known by simp
    then show "filter ?act ?ns \<noteq> []" "per_chip_select m = last (map ?k (filter ?act ?ns))"
      "commoned_lines m = map ?k (filter (\<lambda>n. \<not> ?act n \<and> ?on n) ?ns)"
      using assms(1) False by (auto simp: derive_multi_cs_config_def Let_def split: if_splits)
  qed
  have "per_chip_select m = ?k (last (filter ?act ?ns))" using m(1,2) by (simp add: last_map)
  moreover have l: "last (filter ?act ?ns) \<in> set (filter ?act ?ns)" using m(1) by (rule last_in_set)
  ultimately have "per_chip_select m \<notin> set (commoned_lines m)"
    using inj l unfolding m(3) by (auto dest: inj_onD)
  moreover have "distinct (commoned_lines m)"
    unfolding m(3) using d inj by (auto simp: distinct_map intro: inj_on_subset)
  ultimately show ?thesis by simp
qed

section \<open>What the host selects\<close>

text \<open>Closing a jumper drives its pin to the board's \<open>x_jumper_pull\<close> level.\<close>

definition jumper_closed :: "board \<Rightarrow> (nat \<Rightarrow> bool) \<Rightarrow> nat \<Rightarrow> bool" where
  "jumper_closed b pins g \<longleftrightarrow> (pins g \<longleftrightarrow> bd_x_jumper_pull b \<noteq> 0)"

definition asserted :: "(nat \<Rightarrow> bool) \<Rightarrow> nat \<Rightarrow> cs_logic \<Rightarrow> bool" where
  "asserted pins g l \<longleftrightarrow> (pins g \<longleftrightarrow> l = ActiveHigh)"

text \<open>
  The chip the host selects: the only one of a single set, the bank the closed jumpers count up
  to, the chip whose select line alone is asserted, at the polarity configured for that chip.
\<close>

definition selected_chip ::
  "slot_context \<Rightarrow> addr_layout \<Rightarrow> cs_data_layout \<Rightarrow> cs_config list \<Rightarrow> (nat \<Rightarrow> bool) \<Rightarrow> nat option" where
  "selected_chip ctx al cd secondaries pins =
     (let n = length (sc_chip_types ctx); b = sc_board ctx; x1 = the (al_x1_gpio al); x2 = the (al_x2_gpio al) in
      case sc_set_type ctx of
        Set_Single \<Rightarrow> Some 0
      | Set_Banked \<Rightarrow>
          let bank = of_bool (jumper_closed b pins x1) + 2 * of_bool (3 \<le> n \<and> jumper_closed b pins x2)
          in if bank < n then Some bank else None
      | Set_Multi \<Rightarrow>
          let logic = (\<lambda>role. the (select_logic cd (sc_cs_config ctx) secondaries role));
              line = hd (cd_select_lines cd);
              cs = asserted pins (sl_gpio line) (logic (sl_role line));
              x1 = asserted pins x1 (logic RoleX1);
              x2 = 3 \<le> n \<and> asserted pins x2 (logic RoleX2)
          in if cs \<and> \<not> x1 \<and> \<not> x2 then Some 0
             else if \<not> cs \<and> x1 \<and> \<not> x2 then Some 1
             else if \<not> cs \<and> \<not> x1 \<and> x2 then Some 2
             else None)"

text \<open>
  An X pin may be wired to two GPIOs, and the two derivations choose between them on their
  own; the overrides are made for the choice of the chip-select layout. They agree on every
  board whose X pins have one GPIO each.
\<close>

definition x_bonds_agree :: "addr_layout \<Rightarrow> cs_data_layout \<Rightarrow> bool" where
  "x_bonds_agree al cd \<longleftrightarrow>
     (\<forall>l \<in> set (cd_select_lines cd).
       (sl_role l = RoleX1 \<longrightarrow> al_x1_gpio al = Some (sl_gpio l)) \<and>
       (sl_role l = RoleX2 \<longrightarrow> al_x2_gpio al = Some (sl_gpio l)))"

section \<open>What the PIO reads\<close>

lemma level_addr:
  assumes "build_alg_config ctx al cd secondaries = Some alg" "gpios_apart ctx al cd (oc_data alg)"
    and "g \<in> set (al_addr_pin_gpios al)"
  shows "pio_level (override_params alg) pins g = pins g"
proof -
  have "g \<notin> set (map fst (cs_lines_logic cd (sc_cs_config ctx) secondaries))"
    unfolding fst_cs_lines_logic using assms(2,3) by (auto simp: gpios_apart_def Let_def)
  then have "map_of (cs_lines_logic cd (sc_cs_config ctx) secondaries) g = None"
    by (simp add: map_of_eq_None_iff)
  moreover have "g \<notin> set (byte_gpios cd (oc_data alg))"
    "g \<notin> set (jumper_gpios al (sc_set_type ctx) (length (sc_chip_types ctx)))"
    using assms(2,3) by (auto simp: gpios_apart_def Let_def)
  moreover have "g \<in> set (addr_used_gpios al cd (oc_data alg))"
    using assms(3) by (simp add: addr_used_gpios_def Let_def)
  ultimately show ?thesis by (simp add: overridden_level [OF assms(1,2)])
qed

lemma level_jumper:
  assumes "build_alg_config ctx al cd secondaries = Some alg" "gpios_apart ctx al cd (oc_data alg)"
    and "g \<in> set (jumper_gpios al (sc_set_type ctx) (length (sc_chip_types ctx)))"
  shows "pio_level (override_params alg) pins g = jumper_closed (sc_board ctx) pins g"
proof -
  have "g \<notin> set (map fst (cs_lines_logic cd (sc_cs_config ctx) secondaries))"
    unfolding fst_cs_lines_logic using assms(2,3) by (auto simp: gpios_apart_def Let_def)
  then have "map_of (cs_lines_logic cd (sc_cs_config ctx) secondaries) g = None"
    by (simp add: map_of_eq_None_iff)
  moreover have "g \<notin> set (byte_gpios cd (oc_data alg))"
    using assms(2,3) by (auto simp: gpios_apart_def Let_def)
  moreover have "g \<in> set (addr_used_gpios al cd (oc_data alg))"
    using others_used [of cd "oc_data alg" al] assms(3) by auto
  ultimately show ?thesis
    using assms(3) by (auto simp: overridden_level [OF assms(1,2)] jumper_closed_def)
qed

lemma level_byte:
  assumes "build_alg_config ctx al cd secondaries = Some alg" "gpios_apart ctx al cd (oc_data alg)"
    and "g \<in> set (byte_gpios cd (oc_data alg))"
  shows "pio_level (override_params alg) pins g = (\<not> pins g)"
proof -
  have "g \<notin> set (map fst (cs_lines_logic cd (sc_cs_config ctx) secondaries))"
    unfolding fst_cs_lines_logic using assms(2,3) by (auto simp: gpios_apart_def Let_def)
  then have "map_of (cs_lines_logic cd (sc_cs_config ctx) secondaries) g = None"
    by (simp add: map_of_eq_None_iff)
  then show ?thesis using assms(3) by (simp add: overridden_level [OF assms(1,2)])
qed

lemma level_line:
  assumes "build_alg_config ctx al cd secondaries = Some alg" "gpios_apart ctx al cd (oc_data alg)"
    and "(g, c) \<in> set (cs_lines_logic cd (sc_cs_config ctx) secondaries)"
  shows "pio_level (override_params alg) pins g =
    (if c \<noteq> required_cs_logic (sc_set_type ctx) then \<not> pins g else pins g)"
proof -
  have "distinct (map fst (cs_lines_logic cd (sc_cs_config ctx) secondaries))"
    unfolding fst_cs_lines_logic using assms(2) by (simp add: gpios_apart_def Let_def)
  then have "map_of (cs_lines_logic cd (sc_cs_config ctx) secondaries) g = Some c"
    using assms(3) by simp
  then show ?thesis by (simp add: overridden_level [OF assms(1,2)])
qed

lemma select_line_logic:
  "l \<in> set (cd_select_lines cd) \<Longrightarrow>
     (sl_gpio l, the (select_logic cd c secondaries (sl_role l))) \<in> set (cs_lines_logic cd c secondaries)"
  by (auto simp: cs_lines_logic_def)

text \<open>In a multi set, where the PIO wants a high level, it sees a select line high when asserted.\<close>

lemma level_select_multi:
  assumes "build_alg_config ctx al cd secondaries = Some alg" "gpios_apart ctx al cd (oc_data alg)"
    and "sc_set_type ctx = Set_Multi" "l \<in> set (cd_select_lines cd)"
  shows "pio_level (override_params alg) pins (sl_gpio l) =
    asserted pins (sl_gpio l) (the (select_logic cd (sc_cs_config ctx) secondaries (sl_role l)))"
  using level_line [OF assms(1,2) select_line_logic [OF assms(4)]] assms(3)
  by (auto simp: asserted_def)

text \<open>The X pins a set of this type reads.\<close>

definition x_pins_present :: "slot_context \<Rightarrow> addr_layout \<Rightarrow> cs_data_layout \<Rightarrow> bool" where
  "x_pins_present ctx al cd \<longleftrightarrow>
     (let n = length (sc_chip_types ctx) in
      (sc_set_type ctx = Set_Banked \<longrightarrow> al_x1_gpio al \<noteq> None \<and> (3 \<le> n \<longrightarrow> al_x2_gpio al \<noteq> None)) \<and>
      (sc_set_type ctx = Set_Multi \<longrightarrow> cd_select_lines cd \<noteq> [] \<and>
        (\<exists>l \<in> set (cd_select_lines cd). sl_role l = RoleX1) \<and>
        (3 \<le> n \<longrightarrow> (\<exists>l \<in> set (cd_select_lines cd). sl_role l = RoleX2))))"

lemma jumper_gpios_mem:
  "al_x1_gpio al = Some g \<Longrightarrow> g \<in> set (jumper_gpios al Set_Banked n)"
  "al_x2_gpio al = Some g \<Longrightarrow> 3 \<le> n \<Longrightarrow> g \<in> set (jumper_gpios al Set_Banked n)"
  by (cases "3 \<le> n"; cases "al_x1_gpio al"; cases "al_x2_gpio al"; simp add: jumper_gpios_def)+

lemma selected_chip_levels:
  assumes "build_alg_config ctx al cd secondaries = Some alg" "gpios_apart ctx al cd (oc_data alg)"
    and "x_pins_present ctx al cd" "sc_set_type ctx = Set_Multi \<longrightarrow> x_bonds_agree al cd"
  shows "host_chip al cd (sc_set_type ctx) (length (sc_chip_types ctx))
      (pio_level (override_params alg) pins) = selected_chip ctx al cd secondaries pins"
proof (cases "sc_set_type ctx")
  case Set_Single
  then show ?thesis by (simp add: host_chip_def selected_chip_def)
next
  case Set_Banked
  let ?n = "length (sc_chip_types ctx)"
  obtain g1 where g1: "al_x1_gpio al = Some g1" using assms(3) Set_Banked by (auto simp: x_pins_present_def)
  have x1: "pio_level (override_params alg) pins g1 = jumper_closed (sc_board ctx) pins g1"
    by (rule level_jumper [OF assms(1,2)]) (simp add: Set_Banked jumper_gpios_mem g1)
  show ?thesis
  proof (cases "3 \<le> ?n")
    case True
    then obtain g2 where g2: "al_x2_gpio al = Some g2"
      using assms(3) Set_Banked by (auto simp: x_pins_present_def Let_def)
    have "pio_level (override_params alg) pins g2 = jumper_closed (sc_board ctx) pins g2"
      by (rule level_jumper [OF assms(1,2)]) (simp add: Set_Banked jumper_gpios_mem g2 True)
    then show ?thesis using x1 g1 g2 Set_Banked True by (simp add: host_chip_def selected_chip_def)
  next
    case False
    then show ?thesis using x1 g1 Set_Banked by (simp add: host_chip_def selected_chip_def)
  qed
next
  case Set_Multi
  let ?n = "length (sc_chip_types ctx)"
  note level = level_select_multi [OF assms(1,2) Set_Multi]
  have p: "cd_select_lines cd \<noteq> []" "\<exists>l \<in> set (cd_select_lines cd). sl_role l = RoleX1"
    "3 \<le> ?n \<longrightarrow> (\<exists>l \<in> set (cd_select_lines cd). sl_role l = RoleX2)" "x_bonds_agree al cd"
    using assms(3,4) Set_Multi by (simp_all add: x_pins_present_def Let_def)
  have cs: "hd (cd_select_lines cd) \<in> set (cd_select_lines cd)" using p(1) by simp
  obtain l1 where l1: "l1 \<in> set (cd_select_lines cd)" "sl_role l1 = RoleX1" using p(2) by blast
  then have g1: "al_x1_gpio al = Some (sl_gpio l1)" using p(4) by (simp add: x_bonds_agree_def)
  show ?thesis
  proof (cases "3 \<le> ?n")
    case True
    then obtain l2 where l2: "l2 \<in> set (cd_select_lines cd)" "sl_role l2 = RoleX2" using p(3) by blast
    then have g2: "al_x2_gpio al = Some (sl_gpio l2)" using p(4) by (simp add: x_bonds_agree_def)
    show ?thesis
      using level [OF cs] level [OF l1(1)] level [OF l2(1)] True
      by (simp add: host_chip_def selected_chip_def Set_Multi g1 g2 l1(2) l2(2) Let_def)
  next
    case False
    then show ?thesis
      using level [OF cs] level [OF l1(1)]
      by (simp add: host_chip_def selected_chip_def Set_Multi g1 l1(2) Let_def)
  qed
qed

lemma derived_x_present:
  assumes "derive_addr_layout ctx = Some (Inr al)" "sc_set_type ctx \<noteq> Set_Single"
  shows "al_x1_gpio al \<noteq> None \<and> (3 \<le> length (sc_chip_types ctx) \<longrightarrow> al_x2_gpio al \<noteq> None)"
proof -
  obtain s sc where s: "addr_search_of ctx = Some (Inr s)" "search_addr s = Some (al, sc)"
    using assms(1) by (auto simp: derive_addr_layout_Inr)
  obtain v where v: "al = choice_layout s v" by (rule search_addr_Some [OF s(2)]) blast
  obtain cands :: "nat list list" and xs where "x_candidates ctx = Inr xs"
      "as_x1 s = (if xs = [] then None else Some (length cands))"
      "as_x2 s = (if length xs < 2 then None else Some (length cands + 1))"
    by (rule addr_search_of_Inr [OF s(1)])
  then show ?thesis
    using assms(2) by (auto simp: v choice_layout_def x_candidates_def Let_def split: if_splits)
qed

lemma derived_x_pins_present:
  assumes "derive_addr_layout ctx = Some (Inr al)" "derive_cs_data_layout ctx (Some al) = Some (Inr cd)"
    and "sc_set_type ctx = Set_Multi \<longrightarrow> 2 \<le> length (sc_chip_types ctx)"
  shows "x_pins_present ctx al cd"
proof -
  let ?n = "length (sc_chip_types ctx)"
  have banked: "al_x1_gpio al \<noteq> None \<and> (3 \<le> ?n \<longrightarrow> al_x2_gpio al \<noteq> None)"
    if "sc_set_type ctx = Set_Banked"
    using derived_x_present [OF assms(1)] that by simp
  have multi: "cd_select_lines cd \<noteq> [] \<and> (\<exists>l \<in> set (cd_select_lines cd). sl_role l = RoleX1) \<and>
        (3 \<le> ?n \<longrightarrow> (\<exists>l \<in> set (cd_select_lines cd). sl_role l = RoleX2))" if m: "sc_set_type ctx = Set_Multi"
  proof -
    obtain line xs where l: "cd_select_lines cd = (line # xs) @ half_select_lines (Some al)"
      "list_all2 (wired_x ctx) (x_lines ctx) xs"
      using derived_lines_wired [OF assms(2)] m by auto
    have "2 \<le> ?n" using assms(3) m by simp
    then have "x_lines ctx = (if 3 \<le> ?n then [(RoleX1, 1), (RoleX2, 2)] else [(RoleX1, 1)])"
      by (auto simp: x_lines_def)
    then show ?thesis
      using l by (auto simp: wired_x_def list_all2_Cons1 split: if_splits)
  qed
  show ?thesis using banked multi by (simp add: x_pins_present_def Let_def)
qed

text \<open>Where every X pin has a single GPIO the derivations cannot disagree.\<close>

lemma single_bonds_agree:
  assumes "derive_addr_layout ctx = Some (Inr al)" "derive_cs_data_layout ctx (Some al) = Some (Inr cd)"
    and "sc_set_type ctx = Set_Multi" "2 \<le> length (sc_chip_types ctx)"
    and "\<forall>x \<in> {1, 2}. length (gpios_for_x_pin (sc_board ctx) x) \<le> 1"
  shows "x_bonds_agree al cd"
proof -
  have one: "g = h" if "g \<in> set (gpios_for_x_pin (sc_board ctx) x)" "h \<in> set (gpios_for_x_pin (sc_board ctx) x)"
    "x \<in> {1, 2}" for g h x
    using assms(5) that by (cases "gpios_for_x_pin (sc_board ctx) x") auto
  obtain sel where sel: "cd_select_lines cd = sel @ half_select_lines (Some al)"
    "if sc_set_type ctx = Set_Multi
       then \<exists>mcc line xs. sc_multi_cs_config ctx = Some mcc \<and> sel = line # xs \<and>
         wired_kind ctx (hd (sc_chip_types ctx)) (per_chip_select mcc) line \<and>
         list_all2 (wired_x ctx) (x_lines ctx) xs \<and>
         list_all2 (wired_kind ctx (hd (sc_chip_types ctx))) (commoned_lines mcc) (cd_commoned_lines cd)
       else \<exists>pins. select_phys_pins (sc_board ctx) (hd (sc_chip_types ctx)) (sc_cs_config ctx) = Inr pins \<and>
         list_all2 (wired_select ctx) pins sel \<and> cd_commoned_lines cd = []"
    using derived_lines_wired [OF assms(2)] by blast
  then obtain mcc line xs where s: "sel = line # xs" and m: "sc_multi_cs_config ctx = Some mcc"
    and w: "wired_kind ctx (hd (sc_chip_types ctx)) (per_chip_select mcc) line"
      "list_all2 (wired_x ctx) (x_lines ctx) xs"
    using assms(3) by auto
  note l = sel(1) [unfolded s] w
  have line: "sl_role line \<noteq> RoleX1 \<and> sl_role line \<noteq> RoleX2"
    using l(2) by (cases "per_chip_select mcc") (auto simp: wired_kind_def)
  have xs: "sl_role l = RoleX1 \<and> sl_gpio l \<in> set (gpios_for_x_pin (sc_board ctx) 1) \<or>
      3 \<le> length (sc_chip_types ctx) \<and> sl_role l = RoleX2 \<and>
        sl_gpio l \<in> set (gpios_for_x_pin (sc_board ctx) 2)" if "l \<in> set xs" for l
    using l(3) that assms(4) by (auto simp: x_lines_def wired_x_def list_all2_Cons1 split: if_splits)
  have mem: "l \<in> set xs" if "l \<in> set (cd_select_lines cd)" "sl_role l = RoleX1 \<or> sl_role l = RoleX2" for l
    using that line l(1) by (auto simp: half_select_lines_def)
  have multi: "sc_set_type ctx \<noteq> Set_Single" using assms(3) by simp
  obtain g1 where g1: "al_x1_gpio al = Some g1" using derived_x_present [OF assms(1) multi] by blast
  have g2: "al_x2_gpio al \<noteq> None" if "3 \<le> length (sc_chip_types ctx)"
    using derived_x_present [OF assms(1) multi] that by blast
  note wired = derived_x_wired [OF assms(1)]
  show ?thesis
    unfolding x_bonds_agree_def
  proof (intro ballI conjI impI)
    fix l assume l: "l \<in> set (cd_select_lines cd)" "sl_role l = RoleX1"
    then have "sl_gpio l \<in> set (gpios_for_x_pin (sc_board ctx) 1)" using xs mem by fastforce
    then show "al_x1_gpio al = Some (sl_gpio l)" using one [of _ 1] wired(1) g1 by simp
  next
    fix l assume l: "l \<in> set (cd_select_lines cd)" "sl_role l = RoleX2"
    have "3 \<le> length (sc_chip_types ctx)" "sl_gpio l \<in> set (gpios_for_x_pin (sc_board ctx) 2)"
      using xs [OF mem, OF l(1)] l(2) by simp_all
    then show "al_x2_gpio al = Some (sl_gpio l)" using one [of _ 2] wired(2) g2 by auto
  qed
qed

section \<open>The slot, end to end\<close>

lemma build_rom_slot_Inr:
  assumes "build_rom_slot b set_type chips data fw force = Some (Inr (slot, al, cd, pref))"
  obtains ctx alg where "slot_context_of b set_type chips force = Some (Inr ctx)"
    "derive_addr_layout ctx = Some (Inr al)" "derive_cs_data_layout ctx (Some al) = Some (Inr cd)"
    "build_alg_config ctx al cd (secondary_configs set_type chips) = Some alg"
    "assemble_slot ctx chips data fw al cd alg = Some (Inr (slot, al, cd, pref))" "rs_alg slot = alg"
proof -
  obtain ctx al' cd' alg where c: "slot_context_of b set_type chips force = Some (Inr ctx)"
    "derive_addr_layout ctx = Some (Inr al')" "derive_cs_data_layout ctx (Some al') = Some (Inr cd')"
    "build_alg_config ctx al' cd' (secondary_configs set_type chips) = Some alg"
    "assemble_slot ctx chips data fw al' cd' alg = Some (Inr (slot, al, cd, pref))"
    using assms by (auto simp: build_rom_slot_def bind_p_Inr_iff bind_eq_Some_conv)
  then have "al' = al" "cd' = cd" "rs_alg slot = alg"
    by (auto simp: assemble_slot_def bind_eq_Some_conv split: if_splits)
  then show thesis using c by (intro that) auto
qed

lemma assemble_slot_Inr:
  assumes "assemble_slot ctx chips data fw al cd alg = Some (Inr (slot, al', cd', pref))"
  shows "rom_table_size al (oc_dma alg) = Some (rs_size slot)" "rs_size slot \<le> MAX_IMAGE_SIZE"
    "those (map (\<lambda>c. build_rom_info c al cd) chips) = Some (rs_roms slot)"
    "combined_alg_preference alg = Some pref"
  using assms by (auto simp: assemble_slot_def bind_eq_Some_conv split: if_splits)

lemma slot_context_of_Inr:
  assumes "slot_context_of b set_type chips force = Some (Inr ctx)"
  shows "sc_board ctx = b" "sc_set_type ctx = set_type" "sc_chip_types ctx = map ch_type chips"
    "chips \<noteq> []" "sc_bit_mode ctx = bit_mode_for (ch_type (hd chips)) b"
    "sc_cs_config ctx = ch_cs_config (hd chips)"
    "multi_config_of set_type chips = Some (sc_multi_cs_config ctx)"
  using assms by (auto simp: slot_context_of_def split: list.splits option.splits)

lemma multi_config_two: "multi_config_of Set_Multi chips = Some m \<Longrightarrow> 2 \<le> length chips"
  by (auto simp: multi_config_of_def split: list.splits)

lemma slot_multi_distinct:
  assumes "slot_context_of b set_type chips force = Some (Inr ctx)" "chip_ok ctx"
    "sc_multi_cs_config ctx = Some mcc"
  shows "distinct (per_chip_select mcc # commoned_lines mcc)"
proof -
  note c = slot_context_of_Inr [OF assms(1)]
  have "distinct (map cl_name (ct_control_lines (ch_type (hd chips))))"
    using assms(2) c(3,4) by (simp add: chip_ok_def hd_map Let_def)
  moreover obtain c0 c1 rest where "chips = c0 # c1 # rest"
    "derive_multi_cs_config (ch_type c0) (ch_cs_config c0) (ch_cs_config c1) = Some mcc"
    using c(7) assms(3) by (auto simp: multi_config_of_def split: if_splits list.splits)
  ultimately show ?thesis using derive_multi_distinct by auto
qed

text \<open>The set and the board a slot is built for, as their tables guarantee them.\<close>

definition slot_ok :: "slot_context \<Rightarrow> bool" where
  "slot_ok ctx \<longleftrightarrow>
     (let ct = hd (sc_chip_types ctx) in
      board_ok (sc_board ctx) \<and> chip_ok ctx \<and>
      (reads_byte_pin ct (sc_bit_mode ctx) (sc_force_16_bit ctx) \<longrightarrow> byte_ok ctx) \<and>
      ct_data_pins ct \<noteq> [] \<and>
      length (ct_data_pins ct) \<le> (if sc_bit_mode ctx = BitMode16 then 16 else 8))"

lemma bytes_per_word_dma: "bytes_per_word (build_alg_dma mode) = Some (if mode = BitMode16 then 2 else 1)"
  by (cases mode) (simp_all add: bytes_per_word_def build_alg_dma_def)

lemma slot_serves_host:
  fixes pins :: "nat \<Rightarrow> bool"
  assumes "build_rom_slot b set_type chips data fw force = Some (Inr (slot, al, cd, pref))"
    and "build_rom_image al cd set_type chips (oc_dma (rs_alg slot)) = Some (Inr table)"
    and "slot_context_of b set_type chips force = Some (Inr ctx)" "slot_ok ctx"
    and "al_num_addr_pins al < 32" "set_type = Set_Multi \<longrightarrow> x_bonds_agree al cd"
    and "d < length (cd_data_pin_gpios cd)"
  defines "seen \<equiv> pio_level (override_params (rs_alg slot)) pins"
    and "wb \<equiv> if sc_bit_mode ctx = BitMode16 then 2 else 1"
  shows "rs_size slot = length table \<and>
    served_level cd table wb (host_index al seen) (cd_data_pin_gpios cd ! d) =
    served_bit chips wb (selected_chip ctx al cd (secondary_configs set_type chips) pins)
      (host_address al pins) d"
proof -
  obtain alg where c: "derive_addr_layout ctx = Some (Inr al)"
    "derive_cs_data_layout ctx (Some al) = Some (Inr cd)"
    "build_alg_config ctx al cd (secondary_configs set_type chips) = Some alg"
    "assemble_slot ctx chips data fw al cd alg = Some (Inr (slot, al, cd, pref))" "rs_alg slot = alg"
    using build_rom_slot_Inr [OF assms(1)] assms(3) by (metis option.inject sum.inject(2))
  note s = slot_context_of_Inr [OF assms(3)]
  have ok: "board_ok (sc_board ctx)" "chip_ok ctx" "reads_byte_pin (hd (sc_chip_types ctx)) (sc_bit_mode ctx) (sc_force_16_bit ctx) \<longrightarrow> byte_ok ctx"
    "ct_data_pins (hd (sc_chip_types ctx)) \<noteq> []" "length (ct_data_pins (hd (sc_chip_types ctx))) \<le> 8 * wb"
    using assms(4) by (auto simp: slot_ok_def wb_def Let_def)
  have apart: "gpios_apart ctx al cd (oc_data alg)"
    using slot_multi_distinct [OF assms(3) ok(2)]
    by (intro derived_gpios_apart [OF c(1,2) ok(1,2) _ ok(3) build_alg_config_Some(2) [OF c(3)]]) blast
  have "distinct (ct_data_pins (hd (sc_chip_types ctx)))"
    using ok(2) by (simp add: chip_ok_def chip_pins_of_def Let_def)
  then have fit: "layouts_fit al cd set_type wb"
    using layouts_fit_derived [OF c(1,2) ok(1) _ ok(4,5) assms(5)] s(2) by (simp add: wb_def)
  have dma: "bytes_per_word (oc_dma (rs_alg slot)) = Some wb"
    using build_alg_config_Some(5) [OF c(3)] by (simp add: c(5) bytes_per_word_dma wb_def)
  note serves = rom_table_serves [OF assms(2) dma fit assms(7), of seen]
  have multi: "set_type = Set_Multi \<longrightarrow> 2 \<le> length (sc_chip_types ctx)"
    using s(3,7) multi_config_two [of chips] by auto
  have "x_pins_present ctx al cd" using derived_x_pins_present [OF c(1,2)] multi s(2) by simp
  then have sel: "host_chip al cd set_type (length chips) seen =
      selected_chip ctx al cd (secondary_configs set_type chips) pins"
    using selected_chip_levels [OF c(3) apart] assms(6) s(2,3) by (simp add: seen_def c(5))
  have addr: "host_address al seen = host_address al pins"
    unfolding host_address_def seen_def c(5)
    by (intro arg_cong [where f = "horner_sum of_bool 2"] map_cong refl level_addr [OF c(3) apart])
  have "rs_size slot = (table_entries al * wb) mod 2 ^ 32"
    using assemble_slot_Inr(1) [OF c(4)] dma by (simp add: rom_table_size_def c(5))
  moreover have "table_entries al * wb < 2 ^ 32"
  proof -
    have "table_entries al \<le> 2 ^ 31"
      unfolding table_entries_def by (rule power_increasing) (use assms(5) in auto)
    then have "MAX_IMAGE_SIZE < table_entries al * wb \<or> table_entries al * wb < 2 ^ 32"
      by (auto simp: MAX_IMAGE_SIZE_def)
    then show ?thesis using assms(2) dma by (auto simp: build_rom_image_def Let_def split: if_splits)
  qed
  moreover have "table_entries al = 2 ^ al_num_addr_pins al"
    using assms(5) by (simp add: table_entries_def)
  ultimately show ?thesis using serves sel addr by simp
qed

section \<open>What building a slot comes to\<close>

lemma ilog2_half_image: "ilog2 (MAX_IMAGE_SIZE div 2) = 18"
  by (simp add: MAX_IMAGE_SIZE_def ilog2.simps)

lemma max_useful_lines: "max_useful_addr_lines ctx = (if sc_bit_mode ctx = BitMode16 then 18 else 19)"
  using ilog2_half_image ilog2_MAX_IMAGE_SIZE by (simp add: max_useful_addr_lines_def)

lemma fill_pins_step:
  assumes "length done' + length rest \<le> n"
  shows "foldl array_set (Some (done' @ replicate (n - length done') v)) (enumerate (length done') rest) =
    Some ((done' @ rest) @ replicate (n - length (done' @ rest)) v)"
  using assms
proof (induction rest arbitrary: done')
  case (Cons g rest)
  have "replicate (n - length done') v = v # replicate (n - length (done' @ [g])) v"
    using Cons.prems by (simp add: Suc_diff_Suc flip: replicate_Suc)
  then have "array_set (Some (done' @ replicate (n - length done') v)) (length done', g) =
      Some ((done' @ [g]) @ replicate (n - length (done' @ [g])) v)"
    using Cons.prems by (simp add: array_set_def)
  then show ?case using Cons.IH [of "done' @ [g]"] Cons.prems by simp
qed simp

lemma fill_pins_Some:
  "length gpios \<le> n \<Longrightarrow> fill_pins n gpios = Some (gpios @ replicate (n - length gpios) GPIO_NONE)"
  using fill_pins_step [of "[]" gpios n GPIO_NONE] by (simp add: fill_pins_def)

lemma build_alg_data_Some:
  assumes "cd_data_pin_gpios cd \<noteq> []" "cd_num_data_pins cd = length (cd_data_pin_gpios cd)"
  shows "\<exists>alg_data. build_alg_data cd b ct mode force = Some alg_data \<and> (\<forall>alg. alg_data \<noteq> UnknownAlgData alg)"
  using assms by (cases mode) (auto simp: build_alg_data_def get_def)

lemma build_alg_config_total:
  assumes "cd_data_pin_gpios cd \<noteq> []" "cd_num_data_pins cd = length (cd_data_pin_gpios cd)"
    and "sc_set_type ctx = Set_Multi \<longrightarrow> cd_select_lines cd \<noteq> []" "sc_chip_types ctx \<noteq> []"
  shows "\<exists>alg pref. build_alg_config ctx al cd secondaries = Some alg \<and>
    combined_alg_preference alg = Some pref"
proof -
  obtain ct cts where ct: "sc_chip_types ctx = ct # cts" using assms(4) by (cases "sc_chip_types ctx") auto
  obtain d where d: "build_alg_data cd (sc_board ctx) ct (sc_bit_mode ctx) (sc_force_16_bit ctx) = Some d"
    "\<forall>alg. d \<noteq> UnknownAlgData alg"
    using build_alg_data_Some [OF assms(1,2)] by blast
  obtain a where a: "build_alg_addr al d = Some a" "addr_preference a = Some PrefAddr0"
    using d(2) by (cases d) (auto simp: build_alg_addr_def addr_timing_def addr_preference_def Let_def)
  obtain c where c: "build_alg_cs cd (sc_set_type ctx) d = Some c" "cs_preference c \<noteq> None"
  proof -
    have "first_rom_cs cd (sc_set_type ctx) \<noteq> None"
      using assms(3) by (cases "cd_select_lines cd") (auto simp: first_rom_cs_def)
    then obtain base n where "first_rom_cs cd (sc_set_type ctx) = Some (base, n)" by auto
    then have "\<exists>c. build_alg_cs cd (sc_set_type ctx) d = Some c \<and> cs_preference c \<noteq> None"
      by (cases "cd_alg_cs2 cd"; cases "cd_cs_ignore_index cd") (auto simp: build_alg_cs_def cs_preference_def)
    then show thesis using that by blast
  qed
  have "data_preference d \<noteq> None" using d(2) by (cases d) (auto simp: data_preference_def)
  then show ?thesis
    using ct d(1) a c
    by (auto simp: build_alg_config_def all_overrides_pairs combined_alg_preference_def
        dma_preference_def build_alg_dma_def)
qed

lemma build_rom_info_Some:
  assumes "length (al_addr_pin_gpios al) \<le> MAX_ADDR_PINS" "length (cd_data_pin_gpios cd) \<le> MAX_DATA_PINS"
  shows "build_rom_info c al cd = Some \<lparr>ri_rom_type = ch_type_raw c,
    ri_filename = truncate_filename (chip_filename c),
    ri_pin_map = \<lparr>pm_addr = al_addr_pin_gpios al @ replicate (MAX_ADDR_PINS - length (al_addr_pin_gpios al)) GPIO_NONE,
      pm_data = cd_data_pin_gpios cd @ replicate (MAX_DATA_PINS - length (cd_data_pin_gpios cd)) GPIO_NONE\<rparr>,
    ri_chip_size = ct_size_bytes (ch_type c) mod 2 ^ 32, ri_rbcp_rom_type = ct_rbcp_type (ch_type c)\<rparr>"
  using assms by (simp add: build_rom_info_def build_rom_pin_map_def fill_pins_Some)

lemma derived_num_data:
  assumes "derive_cs_data_layout ctx al = Some (Inr cd)"
  shows "cd_num_data_pins cd = length (cd_data_pin_gpios cd)" "cd_data_pin_gpios cd \<noteq> []"
proof -
  obtain ct q where q: "cs_search_of ctx ct al = Some (Inr q)" "search_cs_data ctx ct q = Some (Inr cd)"
    by (rule derive_cs_data_layout_Inr [OF assms])
  obtain v s where v: "bond_choice (cs_candidates q) v" "try_cs_choice q v = Candidate cd s"
    by (rule search_cs_data_Inr [OF q(2)])
  have "length (cq_data q) \<le> length v" using v(1) by (simp add: bond_choice_def cs_candidates_def)
  then show "cd_num_data_pins cd = length (cd_data_pin_gpios cd)" "cd_data_pin_gpios cd \<noteq> []"
    using v(2) by (auto simp: try_cs_choice_Candidate cs_layout_of_def data_resolved_def Let_def)
qed

lemma derived_multi_select:
  assumes "derive_cs_data_layout ctx al = Some (Inr cd)" "sc_set_type ctx = Set_Multi"
  shows "cd_select_lines cd \<noteq> []"
  using derived_lines_wired [OF assms(1)] assms(2) by auto

lemma slot_outcome_cases:
  assumes "slot_context_of b set_type chips force = Some (Inr ctx)"
    and "derive_addr_layout ctx = Some (Inr al)" "derive_cs_data_layout ctx (Some al) = Some (Inr cd)"
    and "length (al_addr_pin_gpios al) \<le> MAX_ADDR_PINS" "length (cd_data_pin_gpios cd) \<le> MAX_DATA_PINS"
  defines "tsize \<equiv> (table_entries al * (if bit_mode_for (ch_type (hd chips)) b = BitMode16 then 2 else 1)) mod 2 ^ 32"
  shows "if MAX_IMAGE_SIZE < tsize
    then build_rom_slot b set_type chips data fw force =
      Some (Inl (LayoutTableTooLarge b (ch_type (hd chips)) set_type (length chips) (al_num_addr_pins al) tsize))
    else \<exists>slot pref. build_rom_slot b set_type chips data fw force = Some (Inr (slot, al, cd, pref)) \<and>
      rs_size slot = tsize \<and> rs_rom_count slot = length chips mod 256 \<and> length (rs_roms slot) = length chips"
proof -
  note s = slot_context_of_Inr [OF assms(1)]
  have "sc_chip_types ctx \<noteq> []" using s(3,4) by simp
  then obtain alg pref where alg: "build_alg_config ctx al cd (secondary_configs set_type chips) = Some alg"
    "combined_alg_preference alg = Some pref"
    using build_alg_config_total [OF derived_num_data(2,1) [OF assms(3)]] derived_multi_select [OF assms(3)]
    by blast
  have size: "rom_table_size al (oc_dma alg) = Some tsize"
    using build_alg_config_Some(5) [OF alg(1)] by (simp add: rom_table_size_def bytes_per_word_dma s(5) tsize_def)
  define info where "info c = the (build_rom_info c al cd)" for c
  have "map (\<lambda>c. build_rom_info c al cd) chips = map Some (map info chips)"
    by (simp add: info_def build_rom_info_Some [OF assms(4,5)] comp_def)
  then have roms: "those (map (\<lambda>c. build_rom_info c al cd) chips) = Some (map info chips)"
    "length (map info chips) = length chips"
    by (simp_all add: those_Some)
  have "hd (map ch_type chips) = ch_type (hd chips)" using s(4) by (simp add: hd_map)
  then show ?thesis
    using alg size roms s(1-3)
    by (cases pref) (simp add: build_rom_slot_def assms(1-3) assemble_slot_def)
qed

section \<open>The GPIOs a slot uses\<close>

lemma bit_fold_masks:
  "bit (fold (\<lambda>x mask. mask OR push_bit (f x) 1) xs (0 :: 64 word)) g \<longleftrightarrow> g < 64 \<and> (\<exists>x \<in> set xs. f x = g)"
  unfolding bit_fold_or by (auto simp: bit_simps)

lemma bit_gpio_span: "bit (gpio_span start count) g \<longleftrightarrow> g < 64 \<and> start \<le> g \<and> g < start + count"
proof -
  have "(\<exists>n. n < count \<and> start + n < 256 \<and> start + n < 64 \<and> start + n = g) \<longleftrightarrow> g < 64 \<and> start \<le> g \<and> g < start + count"
    by (auto intro!: exI [of _ "g - start"])
  then show ?thesis
    unfolding gpio_span_def bit_fold_masks [of "\<lambda>g. g"] by (auto simp: List.map_filter_def)
qed

lemma bit_forced_gpios:
  "bit (forced_gpios params) g \<longleftrightarrow>
     g < 64 \<and> (\<exists>e \<in> set (case params of None \<Rightarrow> [] | Some ps \<Rightarrow> ps). entry_gpio e = g \<and>
       (entry_mode e = 2 \<or> entry_mode e = 3))"
  unfolding forced_gpios_def bit_fold_masks by auto

lemma bit_forced_unused:
  assumes "build_alg_config ctx al cd secondaries = Some alg" "gpios_apart ctx al cd (oc_data alg)"
  shows "bit (forced_gpios (oc_override alg)) g \<longleftrightarrow> g \<in> set (unused_gpios al cd (oc_data alg))"
proof -
  let ?es = "override_pairs ctx al cd secondaries (oc_data alg)"
  have ps: "(case oc_override alg of None \<Rightarrow> [] | Some ps \<Rightarrow> ps) = map (\<lambda>(g, ov). encode_override g ov) ?es"
    using build_alg_config_Some(1) [OF assms(1)] by (simp add: override_params_def)
  note small = override_pairs_small [OF assms(2), of secondaries]
  have "(\<exists>e \<in> set (map (\<lambda>(g, ov). encode_override g ov) ?es). entry_gpio e = g \<and>
      (entry_mode e = 2 \<or> entry_mode e = 3)) \<longleftrightarrow>
    (\<exists>(h, ov) \<in> set ?es. h = g \<and> (ov = GpioOverLow \<or> ov = GpioOverHigh))"
  proof -
    have code: "override_code ov = 2 \<or> override_code ov = 3 \<longleftrightarrow> ov = GpioOverLow \<or> ov = GpioOverHigh" for ov
      by (cases ov) simp_all
    have "entry_gpio (encode_override h ov) = h \<and> entry_mode (encode_override h ov) = override_code ov"
      if "(h, ov) \<in> set ?es" for h ov
      using small that encode_override_parts [of h ov] by auto
    then have part: "entry_gpio (encode_override h ov) = h" "entry_mode (encode_override h ov) = override_code ov"
      if "(h, ov) \<in> set ?es" for h ov using that by blast+
    show ?thesis
    proof
      assume "\<exists>e \<in> set (map (\<lambda>(g, ov). encode_override g ov) ?es). entry_gpio e = g \<and>
        (entry_mode e = 2 \<or> entry_mode e = 3)"
      then obtain h ov where "(h, ov) \<in> set ?es" "entry_gpio (encode_override h ov) = g"
        "entry_mode (encode_override h ov) = 2 \<or> entry_mode (encode_override h ov) = 3" by auto
      then show "\<exists>(h, ov) \<in> set ?es. h = g \<and> (ov = GpioOverLow \<or> ov = GpioOverHigh)"
        using part code [of ov] by (intro bexI [of _ "(h, ov)"]) auto
    next
      assume "\<exists>(h, ov) \<in> set ?es. h = g \<and> (ov = GpioOverLow \<or> ov = GpioOverHigh)"
      then obtain ov where "(g, ov) \<in> set ?es" "override_code ov = 2 \<or> override_code ov = 3"
        using code by auto
      then show "\<exists>e \<in> set (map (\<lambda>(g, ov). encode_override g ov) ?es). entry_gpio e = g \<and>
        (entry_mode e = 2 \<or> entry_mode e = 3)"
        using part by (intro bexI [of _ "encode_override g ov"]) force+
    qed
  qed
  also have "\<dots> \<longleftrightarrow> g \<in> set (unused_gpios al cd (oc_data alg))"
  proof -
    have none: "(g, GpioOverLow) \<notin> set (cs_pairs r ls)" "(g, GpioOverHigh) \<notin> set (cs_pairs r ls)"
      for r and ls :: "(nat \<times> cs_logic) list"
      by (auto simp: cs_pairs_def)
    have "(g, GpioOverLow) \<in> set ?es \<longleftrightarrow> g \<in> set (unused_gpios al cd (oc_data alg))"
      by (cases "bd_x_jumper_pull (sc_board ctx) = 0"; simp add: override_pairs_def none image_iff)
    moreover have "(g, GpioOverHigh) \<notin> set ?es"
      by (cases "bd_x_jumper_pull (sc_board ctx) = 0"; simp add: override_pairs_def none image_iff)
    ultimately show ?thesis by auto
  qed
  finally have "bit (forced_gpios (oc_override alg)) g \<longleftrightarrow> g < 64 \<and> g \<in> set (unused_gpios al cd (oc_data alg))"
    unfolding bit_forced_gpios ps by simp
  moreover have "g < 64" if "g \<in> set (unused_gpios al cd (oc_data alg))"
    using small that by (auto simp: override_pairs_def)
  ultimately show ?thesis by blast
qed

lemma build_alg_cs_common:
  "build_alg_cs cd set_type alg_data = Some c \<Longrightarrow> alg_cs_common_of c = cs_common cd"
  by (auto simp: build_alg_cs_def split: option.splits)

lemma build_alg_cs_AlgCs0:
  assumes "build_alg_cs cd set_type alg_data = Some c" "cd_alg_cs2 cd = None" "cd_cs_ignore_index cd = None"
  shows "\<exists>bs n. c = AlgCs0 (cs_common cd) (serve_cs_low_0 set_type) (cs_byte_pin alg_data) bs n"
  using assms by (auto simp: build_alg_cs_def)

lemma build_alg_addr_window:
  assumes "build_alg_addr al alg_data = Some a" "al_gpio_base al + al_num_addr_pins al \<le> 48"
  shows "bit (gpio_span (saturating_u8_add (aa_gpio_base (alg_addr_common_of a))
    (aa_base_addr_pin (alg_addr_common_of a))) (aa_num_addr_pins (alg_addr_common_of a))) g \<longleftrightarrow> in_addr_window al g"
  using assms by (auto simp: build_alg_addr_def Let_def bit_gpio_span saturating_u8_add_def in_addr_window_def)

lemma used_gpios_layouts:
  assumes "derive_addr_layout ctx = Some (Inr al)" "derive_cs_data_layout ctx (Some al) = Some (Inr cd)"
    and "build_alg_config ctx al cd secondaries = Some alg" "gpios_apart ctx al cd (oc_data alg)"
    and "distinct (cd_data_pin_gpios cd)"
    and "\<forall>g \<in> set (byte_gpios cd (oc_data alg)). cd_gpio_base cd \<le> g \<and> cd_alg_cs2 cd = None \<and>
      cd_cs_ignore_index cd = None"
  shows "bit (used_gpios alg) g \<longleftrightarrow> g \<in> set (addr_used_gpios al cd (oc_data alg))"
proof -
  note win = derived_window [OF assms(1)] and runs = derived_runs [OF assms(2)] and b = build_alg_config_Some [OF assms(3)]
  have base: "cd_gpio_base cd \<in> {0, 16}" using runs by blast
  let ?D = "cd_gpio_base cd + cd_base_data_pin cd" and ?B = "cd_gpio_base cd + cd_base_cs_pin cd"
  have cs: "alg_cs_common_of (oc_cs alg) = cs_common cd"
    by (rule build_alg_cs_common [OF b(4)])
  have data: "set (cd_data_pin_gpios cd) = {?D..<?D + cd_num_data_pins cd}" "?D < 48"
    "\<forall>g \<in> set (cd_data_pin_gpios cd). g < 48"
  proof -
    show d: "set (cd_data_pin_gpios cd) = {?D..<?D + cd_num_data_pins cd}"
      using runs distinct_card [OF assms(5)] derived_num_data(1) [OF assms(2)] by simp
    have lt: "\<forall>g \<in> set (cd_data_pin_gpios cd). g < cd_gpio_base cd + 32" using runs by blast
    then show lt48: "\<forall>g \<in> set (cd_data_pin_gpios cd). g < 48" using base by auto
    have "?D \<in> set (cd_data_pin_gpios cd)"
      unfolding d using derived_num_data [OF assms(2)] by (cases "cd_num_data_pins cd") auto
    then show "?D < 48" using lt48 by blast
  qed
  have data_span: "bit (gpio_span (saturating_u8_add (cd_gpio_base cd) (cd_base_data_pin cd)) (cd_num_data_pins cd)) g
      \<longleftrightarrow> g \<in> set (cd_data_pin_gpios cd)"
    using data by (auto simp: bit_gpio_span saturating_u8_add_def)
  have run: "{?B..<?B + cd_num_cs_pins cd} = {u8_add (cd_gpio_base cd) (cd_base_cs_pin cd)..<
      u8_add (u8_add (cd_gpio_base cd) (cd_base_cs_pin cd)) (cd_num_cs_pins cd)}"
    "bit (gpio_span (saturating_u8_add (cd_gpio_base cd) (cd_base_cs_pin cd)) (cd_num_cs_pins cd)) g
      \<longleftrightarrow> g \<in> {?B..<?B + cd_num_cs_pins cd}"
    using cs_run_bound [OF assms(2)]
    by (cases "cd_num_cs_pins cd = 0"; auto simp: u8_add_def bit_gpio_span saturating_u8_add_def)+
  have lines: "set (map sl_gpio (cd_select_lines cd @ cd_commoned_lines cd)) \<subseteq> {?B..<?B + cd_num_cs_pins cd}"
    by (rule lines_in_run [OF assms(2)])
  have excess: "set (al_excess_addr_pin_gpios al) \<subseteq> set (map sl_gpio (cd_select_lines cd))"
    using derived_lines_wired [OF assms(2)] half_select_gpios [of al] by (metis map_append set_append sup_ge2)
  have w: "al_gpio_base al + al_num_addr_pins al \<le> 48" using win by (auto simp: fits_pio_window_iff)
  have addr: "bit (gpio_span (saturating_u8_add (aa_gpio_base (alg_addr_common_of (oc_addr alg)))
        (aa_base_addr_pin (alg_addr_common_of (oc_addr alg))))
        (aa_num_addr_pins (alg_addr_common_of (oc_addr alg)))) g \<longleftrightarrow> in_addr_window al g"
    by (rule build_alg_addr_window [OF b(3) w])
  have byte: "bit (case oc_cs alg of
        AlgCs0 _ _ byte_pin _ _ \<Rightarrow>
          if byte_pin \<noteq> GPIO_NONE then gpio_span (saturating_u8_add (cd_gpio_base cd) byte_pin) 1 else 0
      | _ \<Rightarrow> 0) g \<longleftrightarrow> g \<in> set (byte_gpios cd (oc_data alg))"
  proof (cases "byte_gpios cd (oc_data alg)")
    case Nil
    then have "cs_byte_pin (oc_data alg) = GPIO_NONE"
      by (cases "oc_data alg") (auto simp: byte_gpios_def cs_byte_pin_def)
    then show ?thesis
      using b(4) Nil by (auto simp: build_alg_cs_def split: option.splits alg_cs_config.splits)
  next
    case (Cons h hs)
    then obtain c p a where d: "oc_data alg = AlgData1 c p a" "h = u8_add p (cd_gpio_base cd)" "hs = []"
      by (cases "oc_data alg") (auto simp: byte_gpios_def)
    have h: "cd_gpio_base cd \<le> h" "cd_alg_cs2 cd = None" "cd_cs_ignore_index cd = None"
      using assms(6) Cons by simp_all
    have "h < 64" using assms(4) Cons by (simp add: gpios_apart_def Let_def)
    moreover have "p < 256" using b(2) d(1) by (auto simp: build_alg_data_def u8_sub_def split: bit_mode.splits if_splits)
    ultimately have p: "cd_gpio_base cd + p = h"
      using h(1) base d(2) by (auto simp: u8_add_def mod_if split: if_splits)
    obtain bs n where cs0: "oc_cs alg = AlgCs0 (cs_common cd) (serve_cs_low_0 (sc_set_type ctx)) p bs n"
      using build_alg_cs_AlgCs0 [OF b(4) h(2,3)] d(1) by (auto simp: cs_byte_pin_def)
    show ?thesis
      using p \<open>h < 64\<close> by (auto simp: cs0 Cons d(3) GPIO_NONE_def bit_gpio_span saturating_u8_add_def)
  qed
  have unused: "bit (forced_gpios (oc_override alg)) g \<longleftrightarrow> in_addr_window al g \<and> g \<notin> set (addr_used_gpios al cd (oc_data alg))"
    using bit_forced_unused [OF assms(3,4)] set_unused_gpios w by simp
  have U: "bit (used_gpios alg) g \<longleftrightarrow> g \<in> set (cd_data_pin_gpios cd) \<or> g \<in> {?B..<?B + cd_num_cs_pins cd} \<or>
      g \<in> set (byte_gpios cd (oc_data alg)) \<or> in_addr_window al g \<and> g \<in> set (addr_used_gpios al cd (oc_data alg))"
    unfolding used_gpios_def Let_def cs bit_or_iff bit_and_iff
    by (simp only: cs_common_def alg_cs_common.simps data_span run(2) byte addr bit_not_iff unused)
      (use w in \<open>auto simp: in_addr_window_def\<close>)
  have A: "set (addr_used_gpios al cd (oc_data alg)) =
      set (al_addr_pin_gpios al) \<union> set_option (al_x1_gpio al) \<union> set_option (al_x2_gpio al) \<union>
      set (al_excess_addr_pin_gpios al) \<union> set (cd_data_pin_gpios cd) \<union> set (map sl_gpio (cd_select_lines cd)) \<union>
      {?B..<?B + cd_num_cs_pins cd} \<union> set (byte_gpios cd (oc_data alg))"
    by (cases "al_x1_gpio al"; cases "al_x2_gpio al")
      (auto simp: addr_used_gpios_def byte_gpios_def run(1) Let_def)
  have W: "set (al_addr_pin_gpios al) \<union> set_option (al_x1_gpio al) \<union> set_option (al_x2_gpio al) \<subseteq>
      {g. in_addr_window al g}"
    using win by (auto simp: in_addr_window_def)
  have E: "set (al_excess_addr_pin_gpios al) \<union> set (map sl_gpio (cd_select_lines cd)) \<subseteq> {?B..<?B + cd_num_cs_pins cd}"
    using excess lines by auto
  show ?thesis
  proof
    assume "bit (used_gpios alg) g"
    then show "g \<in> set (addr_used_gpios al cd (oc_data alg))" unfolding U A by blast
  next
    assume g: "g \<in> set (addr_used_gpios al cd (oc_data alg))"
    then consider "g \<in> set (al_addr_pin_gpios al) \<union> set_option (al_x1_gpio al) \<union> set_option (al_x2_gpio al)"
      | "g \<in> set (cd_data_pin_gpios cd)" | "g \<in> {?B..<?B + cd_num_cs_pins cd}"
      | "g \<in> set (byte_gpios cd (oc_data alg))"
      unfolding A using E by blast
    then show "bit (used_gpios alg) g"
      unfolding U by cases (use g W in blast)+
  qed
qed

section \<open>File names\<close>

lemma char_len_pos: "0 < char_len c" by (simp add: char_len_def)

lemma str_len_simps [simp]: "str_len [] = 0" "str_len (c # s) = char_len c + str_len s"
  by (simp_all add: str_len_def)

lemma is_char_boundary_iff: "is_char_boundary s k \<longleftrightarrow> (\<exists>i\<le>length s. str_len (take i s) = k)"
proof -
  have "set [0..<length s + 1] = {..length s}" by auto
  then show ?thesis unfolding is_char_boundary_def set_map by auto
qed

lemma str_prefix_take: "i \<le> length s \<Longrightarrow> str_prefix s (str_len (take i s)) = take i s"
proof (induction s arbitrary: i)
  case (Cons c s)
  then show ?case using char_len_pos [of c] by (cases i) auto
qed simp

lemma boundary_below_max:
  "is_char_boundary s (boundary_below s n) \<and> boundary_below s n \<le> n \<and>
    (\<forall>k\<le>n. is_char_boundary s k \<longrightarrow> k \<le> boundary_below s n)"
proof (induction n)
  case 0
  have "is_char_boundary s 0" by (auto simp: is_char_boundary_iff intro: exI [of _ 0])
  then show ?case by simp
next
  case (Suc n)
  then show ?case by (auto simp: le_Suc_eq)
qed

lemma str_len_mono: "i \<le> j \<Longrightarrow> str_len (take i s) \<le> str_len (take j s)"
proof (induction s arbitrary: i j)
  case (Cons c s)
  then show ?case by (cases i; cases j) auto
qed simp

lemma str_len_strict: "k < length s \<Longrightarrow> str_len (take k s) < str_len (take (Suc k) s)"
  using char_len_pos [of "s ! k"] by (simp add: take_Suc_conv_app_nth str_len_def)

lemma truncated_filename:
  assumes "name \<noteq> []"
  shows "\<exists>k\<le>length name. truncate_filename name = Some (take k name) \<and>
    str_len (take k name) \<le> MAX_ROM_FILENAME_LEN \<and>
    (k < length name \<longrightarrow> MAX_ROM_FILENAME_LEN < str_len (take (k + 1) name))"
proof (cases "str_len name \<le> MAX_ROM_FILENAME_LEN")
  case True
  then show ?thesis using assms by (auto simp: truncate_filename_def intro!: exI [of _ "length name"])
next
  case False
  note b = boundary_below_max [of name MAX_ROM_FILENAME_LEN]
  then obtain k where k: "k \<le> length name" "str_len (take k name) = boundary_below name MAX_ROM_FILENAME_LEN"
    by (auto simp: is_char_boundary_iff)
  have "MAX_ROM_FILENAME_LEN < str_len (take (k + 1) name)" if "k < length name"
  proof (rule ccontr)
    assume "\<not> ?thesis"
    moreover have "is_char_boundary name (str_len (take (k + 1) name))"
      using that by (auto simp: is_char_boundary_iff intro!: exI [of _ "k + 1"])
    ultimately have "str_len (take (k + 1) name) \<le> str_len (take k name)" using b k(2) by simp
    then show False using str_len_strict [OF that] by simp
  qed
  then show ?thesis
    using k b False assms str_prefix_take [OF k(1)]
    by (auto simp: truncate_filename_def intro!: exI [of _ k])
qed

section \<open>One override per GPIO\<close>

lemma override_entries_distinct:
  assumes "build_alg_config ctx al cd secondaries = Some alg" "gpios_apart ctx al cd (oc_data alg)"
  shows "distinct (map entry_gpio (override_params alg))"
    and "set (map entry_gpio (override_params alg)) \<inter> set (al_addr_pin_gpios al) = {}"
proof -
  let ?es = "override_pairs ctx al cd secondaries (oc_data alg)" and ?n = "length (sc_chip_types ctx)"
  let ?lines = "map sl_gpio (cd_select_lines cd @ cd_commoned_lines cd)"
  let ?used = "set (addr_used_gpios al cd (oc_data alg))"
  note small = override_pairs_small [OF assms(2), of secondaries]
  have "map entry_gpio (map (\<lambda>(g, ov). encode_override g ov) ?es) = map fst ?es"
    unfolding map_map using small by (intro map_cong) (auto simp: encode_override_parts)
  then have g: "map entry_gpio (override_params alg) = map fst ?es"
    by (simp only: build_alg_config_Some(1) [OF assms(1)])
  define js where "js = (if bd_x_jumper_pull (sc_board ctx) \<noteq> 0 then []
    else jumper_gpios al (sc_set_type ctx) ?n)"
  define cs where "cs = map fst (cs_pairs (required_cs_logic (sc_set_type ctx))
    (cs_lines_logic cd (sc_cs_config ctx) secondaries))"
  have es: "map fst ?es = cs @ byte_gpios cd (oc_data alg) @ js @ unused_gpios al cd (oc_data alg)"
    by (simp add: override_pairs_def cs_def js_def comp_def)
  have cs_sub: "set cs \<subseteq> set (map fst ls) \<and> (distinct (map fst ls) \<longrightarrow> distinct cs)"
    if "ls = cs_lines_logic cd (sc_cs_config ctx) secondaries" for ls
    unfolding cs_def that [symmetric] by (force simp: cs_pairs_def split_def comp_def distinct_map_filter)
  have lines: "set cs \<subseteq> set ?lines" "distinct ?lines \<Longrightarrow> distinct cs"
    using cs_sub [OF refl] unfolding fst_cs_lines_logic by blast+
  have js: "set js \<subseteq> set (jumper_gpios al (sc_set_type ctx) ?n)" "distinct (jumper_gpios al (sc_set_type ctx) ?n) \<Longrightarrow> distinct js"
    by (simp_all add: js_def)
  have a: "distinct ?lines" "distinct (byte_gpios cd (oc_data alg))" "distinct (jumper_gpios al (sc_set_type ctx) ?n)"
    "set ?lines \<inter> set (byte_gpios cd (oc_data alg)) = {}"
    "set ?lines \<inter> set (jumper_gpios al (sc_set_type ctx) ?n) = {}"
    "set (byte_gpios cd (oc_data alg)) \<inter> set (jumper_gpios al (sc_set_type ctx) ?n) = {}"
    "set ?lines \<subseteq> ?used" "al_gpio_base al + al_num_addr_pins al \<le> 64"
    "set (al_addr_pin_gpios al) \<inter> (set ?lines \<union> set (byte_gpios cd (oc_data alg)) \<union>
      set (jumper_gpios al (sc_set_type ctx) ?n)) = {}"
    using assms(2) unfolding gpios_apart_def Let_def distinct_append set_append by blast+
  have un: "set (unused_gpios al cd (oc_data alg)) \<inter> ?used = {}"
    using set_unused_gpios [OF a(8)] by blast
  have oth: "set (byte_gpios cd (oc_data alg)) \<subseteq> ?used" "set (jumper_gpios al (sc_set_type ctx) ?n) \<subseteq> ?used"
    using others_used [of cd "oc_data alg" al] by simp_all
  have du: "distinct (unused_gpios al cd (oc_data alg))" by (simp add: unused_gpios_def)
  have d: "distinct cs" "distinct js" using lines js a by blast+
  show "distinct (map entry_gpio (override_params alg))"
    unfolding g es distinct_append set_append using lines(1) js(1) a(2-7) un oth du d by blast
  have "set (al_addr_pin_gpios al) \<subseteq> ?used" by (simp add: addr_used_gpios_def Let_def)
  then show "set (map entry_gpio (override_params alg)) \<inter> set (al_addr_pin_gpios al) = {}"
    unfolding g es set_append using lines(1) js(1) a(9) un by blast
qed

section \<open>Properties of a slot\<close>

text \<open>
  C6: the host reads its chip through the whole chain. For a slot and the ROM table built with
  it, whatever the levels of the pins, the table entry the address PIO reads after the input
  overrides shows on each data line the bit of the chip the host selects (the bank its closed
  jumpers count up to, or the chip whose select line alone is asserted at the polarity
  configured for it) at the address on the address lines; pins no line uses do not matter.
  \<open>slot_ok\<close> is the condition on the board and the chip type, met by all those in the tables, with
  or without a /BYTE pin; of the layouts it is assumed that an index has fewer than 32 bits and
  that those of a multi set bond its X pins to the same GPIOs. For a chip served 16 bits wide the
  entry is the whole word.
\<close>

theorem slot_serves:
  fixes pins :: "nat \<Rightarrow> bool"
  assumes "build_rom_slot b set_type chips data fw force = Some (Inr (slot, al, cd, pref))"
    and "build_rom_image al cd set_type chips (oc_dma (rs_alg slot)) = Some (Inr table)"
    and "slot_context_of b set_type chips force = Some (Inr ctx)" "slot_ok ctx"
    and "al_num_addr_pins al < 32" "set_type = Set_Multi \<longrightarrow> x_bonds_agree al cd"
    and "d < length (cd_data_pin_gpios cd)"
  defines "seen \<equiv> pio_level (override_params (rs_alg slot)) pins"
    and "wb \<equiv> if sc_bit_mode ctx = BitMode16 then 2 else 1"
  shows "rs_size slot = length table \<and>
    served_level cd table wb (host_index al seen) (cd_data_pin_gpios cd ! d) =
    served_bit chips wb (selected_chip ctx al cd (secondary_configs set_type chips) pins)
      (host_address al pins) d"
  unfolding seen_def wb_def by (rule slot_serves_host [OF assms(1-7)])

lemma slot_apart:
  assumes "build_rom_slot b set_type chips data fw force = Some (Inr (slot, al, cd, pref))"
    and "slot_context_of b set_type chips force = Some (Inr ctx)" "slot_ok ctx"
  shows "derive_addr_layout ctx = Some (Inr al)" "derive_cs_data_layout ctx (Some al) = Some (Inr cd)"
    and "build_alg_config ctx al cd (secondary_configs set_type chips) = Some (rs_alg slot)"
    and "gpios_apart ctx al cd (oc_data (rs_alg slot))"
proof -
  show c: "derive_addr_layout ctx = Some (Inr al)" "derive_cs_data_layout ctx (Some al) = Some (Inr cd)"
    "build_alg_config ctx al cd (secondary_configs set_type chips) = Some (rs_alg slot)"
    using build_rom_slot_Inr [OF assms(1)] assms(2) by (metis option.inject sum.inject(2))+
  have ok: "board_ok (sc_board ctx)" "chip_ok ctx" "reads_byte_pin (hd (sc_chip_types ctx)) (sc_bit_mode ctx) (sc_force_16_bit ctx) \<longrightarrow> byte_ok ctx"
    using assms(3) by (auto simp: slot_ok_def Let_def)
  show "gpios_apart ctx al cd (oc_data (rs_alg slot))"
    using slot_multi_distinct [OF assms(2) ok(2)]
    by (intro derived_gpios_apart [OF c(1,2) ok(1,2) _ ok(3) build_alg_config_Some(2) [OF c(3)]]) blast
qed

lemma slot_byte_gpio:
  assumes "build_rom_slot b set_type chips data fw force = Some (Inr (slot, al, cd, pref))"
    and "slot_context_of b set_type chips force = Some (Inr ctx)" "slot_ok ctx"
    and "g \<in> set (byte_gpios cd (oc_data (rs_alg slot)))"
  shows "g = bd_pin_byte b"
proof -
  note c = slot_apart [OF assms(1-3)]
  have "cd_gpio_base cd \<in> {0, 16}" using derived_runs [OF c(2)] by blast
  then show ?thesis
    using byte_gpios_pin [OF build_alg_config_Some(2) [OF c(3)] _ assms(4)] assms(3) slot_context_of_Inr(1) [OF assms(2)]
    by (auto simp: slot_ok_def byte_ok_def Let_def)
qed

text \<open>
  C7: what the PIO sees. No GPIO of a slot has two override entries. The chip-select PIO sees
  every select and commoned line at the polarity the set type requires exactly when the host
  drives it at the polarity configured for it; address lines are seen as driven, a banked
  set's jumpers as closed or open whichever way the board pulls them, the board's /BYTE pin, where
  a 16-bit chip has it read, inverted, and every pin of the address window that no line uses as
  low. \<open>slot_ok\<close> is the condition on the board and the chip type, met by all those in the tables:
  a chip's own \<open>byte\<close> line may be on the board's /BYTE GPIO, and has one entry there.
\<close>

theorem slot_levels:
  fixes pins :: "nat \<Rightarrow> bool"
  assumes "build_rom_slot b set_type chips data fw force = Some (Inr (slot, al, cd, pref))"
    and "slot_context_of b set_type chips force = Some (Inr ctx)" "slot_ok ctx"
  defines "seen \<equiv> pio_level (override_params (rs_alg slot)) pins"
  shows "distinct (map entry_gpio (override_params (rs_alg slot))) \<and>
    (\<forall>(g, c) \<in> set (cs_lines_logic cd (sc_cs_config ctx) (secondary_configs set_type chips)).
      c \<noteq> CsIgnore \<longrightarrow> asserted seen g (required_cs_logic set_type) = asserted pins g c) \<and>
    (\<forall>g \<in> set (al_addr_pin_gpios al). seen g = pins g) \<and>
    (\<forall>g \<in> set (jumper_gpios al set_type (length chips)). seen g = jumper_closed b pins g) \<and>
    (\<forall>g \<in> set (byte_gpios cd (oc_data (rs_alg slot))). g = bd_pin_byte b \<and> seen g = (\<not> pins g)) \<and>
    (\<forall>g. in_addr_window al g \<and> g \<notin> set (addr_used_gpios al cd (oc_data (rs_alg slot))) \<longrightarrow> \<not> seen g)"
proof (intro conjI)
  note c = slot_apart [OF assms(1-3)] and s = slot_context_of_Inr [OF assms(2)]
  have n: "length (sc_chip_types ctx) = length chips" using s(3) by simp
  show "distinct (map entry_gpio (override_params (rs_alg slot)))"
    by (rule override_entries_distinct(1) [OF c(3,4)])
  show "\<forall>(g, c) \<in> set (cs_lines_logic cd (sc_cs_config ctx) (secondary_configs set_type chips)).
      c \<noteq> CsIgnore \<longrightarrow> asserted seen g (required_cs_logic set_type) = asserted pins g c"
  proof clarify
    fix g l
    assume l: "(g, l) \<in> set (cs_lines_logic cd (sc_cs_config ctx) (secondary_configs set_type chips))"
      "l \<noteq> CsIgnore"
    show "asserted seen g (required_cs_logic set_type) = asserted pins g l"
      using level_line [OF c(3,4) l(1), of pins] l(2) s(2) unfolding seen_def
      by (cases l; cases set_type) (simp_all add: asserted_def)
  qed
  show "\<forall>g \<in> set (al_addr_pin_gpios al). seen g = pins g"
    unfolding seen_def using level_addr [OF c(3,4)] by blast
  show "\<forall>g \<in> set (jumper_gpios al set_type (length chips)). seen g = jumper_closed b pins g"
    unfolding seen_def using level_jumper [OF c(3,4)] s(1,2) n by simp
  show "\<forall>g \<in> set (byte_gpios cd (oc_data (rs_alg slot))). g = bd_pin_byte b \<and> seen g = (\<not> pins g)"
    unfolding seen_def using level_byte [OF c(3,4)] slot_byte_gpio [OF assms(1-3)] by simp
  show "\<forall>g. in_addr_window al g \<and> g \<notin> set (addr_used_gpios al cd (oc_data (rs_alg slot))) \<longrightarrow> \<not> seen g"
  proof (intro allI impI)
    fix g assume g: "in_addr_window al g \<and> g \<notin> set (addr_used_gpios al cd (oc_data (rs_alg slot)))"
    have lines: "g \<notin> set (map fst (cs_lines_logic cd (sc_cs_config ctx) (secondary_configs set_type chips)))"
      unfolding fst_cs_lines_logic using c(4) g by (auto simp: gpios_apart_def Let_def)
    then have "map_of (cs_lines_logic cd (sc_cs_config ctx) (secondary_configs set_type chips)) g = None"
      by (simp add: map_of_eq_None_iff)
    moreover have "g \<notin> set (byte_gpios cd (oc_data (rs_alg slot)))"
      "g \<notin> set (jumper_gpios al (sc_set_type ctx) (length (sc_chip_types ctx)))"
      using others_used [of cd "oc_data (rs_alg slot)" al] g by auto
    ultimately show "\<not> seen g" unfolding seen_def overridden_level [OF c(3,4)] using g by simp
  qed
qed

text \<open>
  C32: a slot is built, or refused for its size. Where layouts are found whose address and data
  lines fit the pin map, nothing panics: the slot has one ROM info per chip and the size of its
  table, unless the table exceeds the maximum image size, which is reported with that size.
\<close>

theorem slot_outcome:
  assumes "slot_context_of b set_type chips force = Some (Inr ctx)"
    and "derive_addr_layout ctx = Some (Inr al)" "derive_cs_data_layout ctx (Some al) = Some (Inr cd)"
    and "length (al_addr_pin_gpios al) \<le> MAX_ADDR_PINS" "length (cd_data_pin_gpios cd) \<le> MAX_DATA_PINS"
  defines "tsize \<equiv> (table_entries al * (if bit_mode_for (ch_type (hd chips)) b = BitMode16 then 2 else 1)) mod 2 ^ 32"
  shows "if MAX_IMAGE_SIZE < tsize
    then build_rom_slot b set_type chips data fw force =
      Some (Inl (LayoutTableTooLarge b (ch_type (hd chips)) set_type (length chips) (al_num_addr_pins al) tsize))
    else \<exists>slot pref. build_rom_slot b set_type chips data fw force = Some (Inr (slot, al, cd, pref)) \<and>
      rs_size slot = tsize \<and> rs_rom_count slot = length chips mod 256 \<and> length (rs_roms slot) = length chips"
  unfolding tsize_def by (rule slot_outcome_cases [OF assms(1-5)])

lemma slot_used_gpios:
  assumes "build_rom_slot b set_type chips data fw force = Some (Inr (slot, al, cd, pref))"
    and "slot_context_of b set_type chips force = Some (Inr ctx)" "slot_ok ctx"
  shows "{g. bit (used_gpios (rs_alg slot)) g} = set (addr_used_gpios al cd (oc_data (rs_alg slot)))"
proof -
  note c = slot_apart [OF assms(1-3)]
  have "chip_ok ctx" "reads_byte_pin (hd (sc_chip_types ctx)) (sc_bit_mode ctx) (sc_force_16_bit ctx) \<longrightarrow> byte_ok ctx"
    using assms(3) by (auto simp: slot_ok_def Let_def)
  note bytes = byte_gpios_plain [OF c(1,2) this build_alg_config_Some(2) [OF c(3)]]
  have "board_ok (sc_board ctx)" "distinct (ct_data_pins (hd (sc_chip_types ctx)))"
    using assms(3) by (auto simp: slot_ok_def chip_ok_def chip_pins_of_def Let_def)
  then have "distinct (cd_data_pin_gpios cd)"
    using data_gpios_distinct derived_lines_wired [OF c(2)] by blast
  then show ?thesis using used_gpios_layouts [OF c(1-4) _ bytes] by blast
qed

text \<open>
  C8: the algorithm configuration alone tells which GPIOs a slot uses: the mask read off it has
  exactly the bits of the GPIOs the two layouts name, the /BYTE pin of a 16-bit chip among them
  when it is read. (\<open>slot_ok\<close>, a condition on the board and chip tables, is all that is assumed.)
\<close>

theorem used_gpios_identify:
  assumes "build_rom_slot b set_type chips data fw force = Some (Inr (slot, al, cd, pref))"
    and "slot_context_of b set_type chips force = Some (Inr ctx)" "slot_ok ctx"
  shows "{g. bit (used_gpios (rs_alg slot)) g} = set (addr_used_gpios al cd (oc_data (rs_alg slot)))"
  by (rule slot_used_gpios [OF assms])

text \<open>
  A file name is kept whole if its UTF-8 form has at most 128 bytes, and otherwise cut to the
  longest prefix of whole characters that does.
\<close>

theorem filename_cut:
  assumes "name \<noteq> []"
  shows "\<exists>k\<le>length name. truncate_filename name = Some (take k name) \<and>
    str_len (take k name) \<le> MAX_ROM_FILENAME_LEN \<and>
    (k < length name \<longrightarrow> MAX_ROM_FILENAME_LEN < str_len (take (k + 1) name))"
  by (rule truncated_filename [OF assms])

section \<open>Witnesses\<close>

definition bank_image :: "u8 \<Rightarrow> chip" where
  "bank_image v = \<lparr>ch_index = 0, ch_filename = lit ''bank.rom'', ch_label = None,
     ch_type = three_cs_chip, ch_type_raw = lit ''23128'', ch_cs_config = sc_cs_config banked_pair,
     ch_data = Some (replicate 16384 v), ch_location = None\<rparr>"

definition bank_images :: "chip list" where
  "bank_images = [bank_image 0xA5, bank_image 0x5A]"

lemma banked_context: "slot_context_of fire_28_d Set_Banked bank_images False = Some (Inr banked_pair)"
  by (simp add: slot_context_of_def bank_images_def bank_image_def socket_pin_offset_def three_cs_chip_def
      fire_28_d_def multi_config_of_def bit_mode_for_def supports_bit_mode_def banked_pair_def)

lemma banked_ok: "slot_ok banked_pair"
proof -
  have "board_ok fire_28_d" by (simp add: board_ok_def fire_28_d_def)
  then show ?thesis
    by (simp add: slot_ok_def banked_pair_def chip_ok_def chip_pins_of_def three_cs_chip_def addr_line_start_def
        reads_byte_pin_def)
qed

lemma banked_size: "table_entries banked_pair_layout = 65536" "bit_mode_for (ch_type (hd bank_images)) fire_28_d = BitMode8"
  by (simp_all add: table_entries_def banked_pair_layout_def bank_images_def bank_image_def bit_mode_for_def
      supports_bit_mode_def three_cs_chip_def)

theorem slot_outcome_witness:
  "\<exists>slot pref. build_rom_slot fire_28_d Set_Banked bank_images 0 (None :: unit option) False =
      Some (Inr (slot, banked_pair_layout, banked_cs_data, pref)) \<and> rs_size slot = 65536"
  using slot_outcome [OF banked_context banked_pair_derived banked_cs_derived, of 0 "None :: unit option"]
  by (simp add: banked_size MAX_IMAGE_SIZE_def banked_pair_layout_def [THEN arg_cong, of al_addr_pin_gpios]
      banked_cs_data_def [THEN arg_cong, of cd_data_pin_gpios] MAX_ADDR_PINS_def MAX_DATA_PINS_def) blast

lemma banked_slot:
  obtains slot pref where "build_rom_slot fire_28_d Set_Banked bank_images 0 (None :: unit option) False =
      Some (Inr (slot, banked_pair_layout, banked_cs_data, pref))"
  using slot_outcome_cases [OF banked_context banked_pair_derived banked_cs_derived, of 0 "None :: unit option"]
  by (auto simp: banked_size MAX_IMAGE_SIZE_def banked_pair_layout_def [THEN arg_cong, of al_addr_pin_gpios]
      banked_cs_data_def [THEN arg_cong, of cd_data_pin_gpios] MAX_ADDR_PINS_def MAX_DATA_PINS_def)

lemma banked_config:
  assumes "build_rom_slot fire_28_d Set_Banked bank_images 0 (None :: unit option) False =
      Some (Inr (slot, banked_pair_layout, banked_cs_data, pref))"
  shows "build_alg_config banked_pair banked_pair_layout banked_cs_data [] = Some (rs_alg slot)"
    and "oc_data (rs_alg slot) = AlgData0 (data_common banked_cs_data 8)"
    and "oc_dma (rs_alg slot) = build_alg_dma BitMode8"
proof -
  show c: "build_alg_config banked_pair banked_pair_layout banked_cs_data [] = Some (rs_alg slot)"
    using slot_apart(3) [OF assms banked_context banked_ok] by (simp add: secondary_configs_def)
  have m: "sc_bit_mode banked_pair = BitMode8" by (simp add: banked_pair_def)
  show "oc_data (rs_alg slot) = AlgData0 (data_common banked_cs_data 8)"
    using build_alg_config_Some(2) [OF c] by (simp add: build_alg_data_def m)
  show "oc_dma (rs_alg slot) = build_alg_dma BitMode8"
    using build_alg_config_Some(5) [OF c] by (simp add: m)
qed

lemma banked_table:
  "\<exists>table. build_rom_image banked_pair_layout banked_cs_data Set_Banked bank_images (build_alg_dma BitMode8) =
    Some (Inr table)"
proof -
  have "set_shape banked_pair_layout banked_cs_data Set_Banked (length bank_images)"
    by (simp add: set_shape_def banked_pair_layout_def bank_images_def)
  moreover have "\<forall>c \<in> set bank_images. \<forall>data. ch_data c = Some data \<longrightarrow> ct_size_bytes (ch_type c) \<le> length data"
    by (auto simp: bank_images_def bank_image_def three_cs_chip_def)
  ultimately show ?thesis
    using rom_image_outcome [of "build_alg_dma BitMode8" 1 banked_pair_layout banked_cs_data Set_Banked bank_images]
    by (simp add: bytes_per_word_dma banked_size MAX_IMAGE_SIZE_def) (simp add: bank_images_def bank_image_def)
qed

lemma banked_used:
  "addr_used_gpios banked_pair_layout banked_cs_data (AlgData0 (data_common banked_cs_data 8)) =
     [27, 26, 25, 24, 23, 22, 21, 20, 16, 15, 13, 14, 19, 17] @ [28] @ [0, 1, 2, 3, 4, 5, 6, 7] @ [10, 11] @ [10, 11]"
  by (simp add: addr_used_gpios_def banked_pair_layout_def banked_cs_data_def u8_add_def upt_conv_Cons)

theorem filename_cut_witness:
  "\<exists>k\<le>100. truncate_filename (replicate 100 0x20AC) = Some (take k (replicate 100 0x20AC)) \<and>
    str_len (take k (replicate 100 0x20AC)) \<le> MAX_ROM_FILENAME_LEN"
  using filename_cut [of "replicate 100 0x20AC"] by auto

end
