(* ===== verification/Native_Slot.thy ===== *)
theory Native_Slot
  imports Rom_Slot
begin

text \<open>
  A native 16-bit chip: the 27C400 on the Fire 40 B board, whose \<open>byte\<close> line stands on socket pin
  31, the GPIO the board reads /BYTE on. The tables meet \<open>slot_ok\<close>, the layouts are derived, and
  the properties of a slot are applied to it.
\<close>

section \<open>The board and the chip\<close>

definition fire_40_b :: board where
  "fire_40_b = \<lparr>bd_name = ''fire-40-b'', bd_chip_pins = 40,
     bd_socket_pin_map = [(1, [36]), (2, [28]), (3, [29]), (4, [30]), (5, [31]), (6, [32]), (7, [33]),
       (8, [34]), (9, [35]), (10, [17]), (12, [16]), (13, [0]), (14, [8]), (15, [1]), (16, [9]),
       (17, [2]), (18, [10]), (19, [3]), (20, [11]), (22, [4]), (23, [12]), (24, [5]), (25, [13]),
       (26, [6]), (27, [14]), (28, [7]), (29, [15, 37]), (31, [18]), (32, [19]), (33, [20]), (34, [21]),
       (35, [22]), (36, [23]), (37, [24]), (38, [25]), (39, [26]), (40, [27])],
     bd_x_pin_map = [],
     bd_x_jumper_pull = 0, bd_pin_byte = 18, bd_mcu_family = Rp2350, bd_rp_variant = Some Rp235xB,
     bd_sel_pins = [40, 41, 38, 39], bd_sel_jumper_pulls = [0, 0, 0, 1], bd_pin_x1 = 255, bd_pin_x2 = 255,
     bd_has_usb = True, bd_usb_vbus_pin = Some 46, bd_external_flash_cs_pin = Some 47, bd_pin_status = 45,
     bd_pin_neo = Some 44, bd_swdio_sel_pin = 39, bd_swclk_sel_pin = 38\<rparr>"

definition chip_27c400 :: chip_type where
  "chip_27c400 = \<lparr>ct_name = ''27C400'', ct_chip_pins = 40, ct_num_addr_lines = 19,
     ct_address_pins = [29, 9, 8, 7, 6, 5, 4, 3, 2, 40, 39, 38, 37, 36, 35, 34, 33, 32, 1],
     ct_data_pins = [13, 15, 17, 19, 22, 24, 26, 28, 14, 16, 18, 20, 23, 25, 27, 29],
     ct_control_lines = [\<lparr>cl_name = ''byte'', cl_pin = 31, cl_type = FixedActiveLow, cl_allow_ignore = False\<rparr>,
       \<lparr>cl_name = ''ce'', cl_pin = 10, cl_type = FixedActiveLow, cl_allow_ignore = False\<rparr>,
       \<lparr>cl_name = ''oe'', cl_pin = 12, cl_type = FixedActiveLow, cl_allow_ignore = False\<rparr>],
     ct_size_bytes = 524288, ct_deselect_all_high = None, ct_is_ram = False, ct_is_plugin = False,
     ct_bit_modes = [8, 16], ct_rbcp_type = 19, ct_min_fw = Some (FirmwareVersion 0 6 5 0)\<rparr>"

definition native_slot :: "bool \<Rightarrow> slot_context" where
  "native_slot force = \<lparr>sc_board = fire_40_b, sc_set_type = Set_Single, sc_chip_types = [chip_27c400],
     sc_cs_config = CeOe, sc_bit_mode = BitMode16, sc_pin_offset = 0, sc_force_16_bit = force,
     sc_multi_cs_config = None\<rparr>"

lemma native_fields [simp]:
  "sc_board (native_slot force) = fire_40_b" "sc_set_type (native_slot force) = Set_Single"
  "sc_chip_types (native_slot force) = [chip_27c400]" "sc_cs_config (native_slot force) = CeOe"
  "sc_bit_mode (native_slot force) = BitMode16" "sc_pin_offset (native_slot force) = 0"
  "sc_force_16_bit (native_slot force) = force" "sc_multi_cs_config (native_slot force) = None"
  by (simp_all add: native_slot_def)

lemma fire_40_b_ok: "board_ok fire_40_b"
  by (simp add: board_ok_def fire_40_b_def)

lemma native_chip_ok: "chip_ok (native_slot force)"
  by (simp add: chip_ok_def chip_pins_of_def chip_27c400_def addr_line_start_def)

lemma native_read_pins:
  "read_pins_of (native_slot force) = [9, 8, 7, 6, 5, 4, 3, 2, 40, 39, 38, 37, 36, 35, 34, 33, 32, 1, 10, 12]"
  "select_pins_of chip_27c400 = [10, 12]"
  by (simp_all add: read_pins_of_def select_pins_of_def chip_27c400_def addr_line_start_def select_role_of_name_def)

text \<open>The chip's own \<open>byte\<close> line is on the /BYTE GPIO; no pin it reads as an address or select is.\<close>

lemma native_byte_ok: "byte_ok (native_slot force)"
proof -
  have addr: "ct_num_addr_lines chip_27c400 \<le> addr_line_start (native_slot force) + max_useful_addr_lines (native_slot force)"
    using ilog2_half_image by (simp add: max_useful_addr_lines_def addr_line_start_def chip_27c400_def)
  show ?thesis
    unfolding byte_ok_def Let_def
    by (simp add: native_read_pins addr)
      (simp add: pin_source_def socket_pin_of_def gpios_for_socket_pin_def fire_40_b_def chip_27c400_def)
qed

lemma native_ok: "slot_ok (native_slot force)"
  unfolding slot_ok_def Let_def
  using fire_40_b_ok native_chip_ok native_byte_ok by (simp add: chip_27c400_def)

text \<open>
  The 27C400Pin31A17 has an address line on that pin and no /BYTE line: it is 16 bits wide only, so
  the pin is not read as /BYTE.
\<close>

definition chip_pin31_a17 :: chip_type where
  "chip_pin31_a17 = chip_27c400\<lparr>ct_name := ''27C400Pin31A17'',
     ct_address_pins := [29, 9, 8, 7, 6, 5, 4, 3, 2, 40, 39, 38, 37, 36, 35, 34, 33, 32, 31],
     ct_control_lines := drop 1 (ct_control_lines chip_27c400), ct_bit_modes := [16], ct_rbcp_type := 37,
     ct_min_fw := Some (FirmwareVersion 0 7 2 0)\<rparr>"

lemma pin31_a17_ok: "slot_ok (native_slot force\<lparr>sc_chip_types := [chip_pin31_a17]\<rparr>)"
  using fire_40_b_ok
  by (simp add: slot_ok_def chip_ok_def chip_pins_of_def chip_pin31_a17_def chip_27c400_def addr_line_start_def
      reads_byte_pin_def supports_bit_mode_def)

section \<open>The layouts\<close>

definition native_layout :: addr_layout where
  "native_layout = \<lparr>al_gpio_base = 19, al_num_addr_pins = 18, al_x1_gpio = None, al_x2_gpio = None,
     al_addr_pin_gpios = [35, 34, 33, 32, 31, 30, 29, 28, 27, 26, 25, 24, 23, 22, 21, 20, 19, 36],
     al_excess_addr_pin_gpios = []\<rparr>"

definition native_search :: addr_search where
  "native_search = \<lparr>as_candidates = map (\<lambda>g. [g]) (al_addr_pin_gpios native_layout),
     as_in_range = 18, as_lines = 18, as_x1 = None, as_x2 = None, as_multi = []\<rparr>"

lemma upt_18: "[0..<18] = [0, 1, 2, 3, 4, 5, 6, 7, 8, 9, 10, 11, 12, 13, 14, 15, 16, 17]"
  by (simp add: upt_conv_Cons)

lemma upt_1_19: "[Suc 0..<19] = [1, 2, 3, 4, 5, 6, 7, 8, 9, 10, 11, 12, 13, 14, 15, 16, 17, 18]"
  by (simp add: upt_conv_Cons)

lemma native_line_candidates:
  "line_candidates (native_slot force) chip_27c400 [Suc 0..<19] 0 = Some (Inr (as_candidates native_search))"
  unfolding upt_1_19
  by (simp add: line_source_def overhangs_def socket_pin_of_def addr_line_candidates_def
      gpios_for_socket_pin_def fire_40_b_def chip_27c400_def native_search_def native_layout_def Let_def)

lemma native_addr_search: "addr_search_of (native_slot force) = Some (Inr native_search)"
proof -
  have "addr_line_start (native_slot force) = 1" "max_useful_addr_lines (native_slot force) = 18"
    using ilog2_half_image by (simp_all add: addr_line_start_def max_useful_addr_lines_def)
  then show ?thesis
    using native_line_candidates [of force]
    by (simp add: addr_search_of_def chip_27c400_def [THEN arg_cong, of ct_num_addr_lines] x_candidates_def
        multi_span_gpios_def del: upt_Suc) (simp add: native_search_def native_layout_def)
qed

lemma native_slots: "two_option_slots (as_candidates native_search) = []"
  by (simp add: two_option_slots_def native_search_def native_layout_def upt_18)

lemma native_choice: "resolve_combo (as_candidates native_search) combo = al_addr_pin_gpios native_layout"
  by (simp add: resolve_combo_def native_slots position_def)
    (simp add: native_search_def native_layout_def upt_18)

lemma native_span: "span_gpios native_search (al_addr_pin_gpios native_layout) = al_addr_pin_gpios native_layout"
  by (simp add: span_gpios_def native_search_def native_layout_def)

lemma native_choice_range:
  "choice_base native_search (al_addr_pin_gpios native_layout) = 19"
  "choice_pins native_search (al_addr_pin_gpios native_layout) = 18"
  unfolding choice_base_def choice_pins_def native_span MIN_ADDR_PINS_def
  by (simp_all add: native_layout_def)

lemma native_choice_layout: "choice_layout native_search (al_addr_pin_gpios native_layout) = native_layout"
  unfolding choice_layout_def native_choice_range
  by (simp add: native_layout_def native_search_def)

lemma native_derived: "derive_addr_layout (native_slot force) = Some (Inr native_layout)"
proof -
  have "[0..<num_combos (as_candidates native_search)] = [0]"
    by (simp add: num_combos_def native_slots)
  then have "search_addr native_search = Some (native_layout, (0, 18019))"
    by (simp add: search_addr_def native_choice try_choice_def native_choice_range
        native_choice_layout fits_pio_window_iff keep_best_def)
  then show ?thesis
    by (simp add: derive_addr_layout_Inr native_addr_search native_choice native_span)
      (simp add: native_layout_def)
qed

definition native_cs_data :: cs_data_layout where
  "native_cs_data = \<lparr>cd_gpio_base = 0, cd_base_data_pin = 0, cd_num_data_pins = 16,
     cd_data_pin_gpios = [0, 1, 2, 3, 4, 5, 6, 7, 8, 9, 10, 11, 12, 13, 14, 15],
     cd_base_cs_pin = 16, cd_num_cs_pins = 2, cd_cs_ignore_index = None,
     cd_select_lines = [\<lparr>sl_role = RoleCe, sl_gpio = 17\<rparr>, \<lparr>sl_role = RoleOe, sl_gpio = 16\<rparr>],
     cd_commoned_lines = [], cd_alg_cs2 = None\<rparr>"

definition native_cs_search :: cs_search where
  "native_cs_search = \<lparr>cq_set_type = Set_Single,
     cq_data = map (\<lambda>g. [g]) [0, 1, 2, 3, 4, 5, 6, 7, 8, 9, 10, 11, 12, 13, 14] @ [[15, 37]],
     cq_gather = \<lparr>sg_select = [(RoleCe, [17]), (RoleOe, [16])], sg_commoned = [], sg_ignored = []\<rparr>,
     cq_excess = [], cq_qual = None\<rparr>"

lemma native_cs_search:
  "cs_search_of (native_slot force) chip_27c400 (Some native_layout) = Some (Inr native_cs_search)"
proof -
  have data: "map_r (gpios_for_pin (native_slot force) chip_27c400) (ct_data_pins chip_27c400) = Inr (cq_data native_cs_search)"
    by (simp add: gpios_for_pin_def overhangs_def socket_pin_of_def gpios_for_socket_pin_def fire_40_b_def
        chip_27c400_def native_cs_search_def Let_def)
  have sel: "gather_select (native_slot force) chip_27c400 = Some (Inr (cq_gather native_cs_search))"
    by (simp add: gather_select_def gather_single_def select_phys_pins_def select_role_of_name_def control_line_logic_def
        gpios_for_pin_def overhangs_def socket_pin_of_def gpios_for_socket_pin_def fire_40_b_def
        chip_27c400_def native_cs_search_def Let_def)
  show ?thesis
    using data sel
    by (simp add: cs_search_of_def cs_prechecks_def qualifier_gpios_def chip_27c400_def [THEN arg_cong, of ct_deselect_all_high]
        native_layout_def [THEN arg_cong, of al_excess_addr_pin_gpios]) (simp add: native_cs_search_def)
qed

lemma native_cs_slots: "two_option_slots (cs_candidates native_cs_search) = [15]"
  by (simp add: two_option_slots_def cs_candidates_def native_cs_search_def upt_18)

lemma native_cs_choices:
  "resolve_combo (cs_candidates native_cs_search) combo =
    [0, 1, 2, 3, 4, 5, 6, 7, 8, 9, 10, 11, 12, 13, 14, if odd combo then 37 else 15, 17, 16]"
  by (simp add: resolve_combo_def native_cs_slots position_def)
    (simp add: cs_candidates_def native_cs_search_def upt_18 bit_0)

lemma native_cs_choice_15:
  "try_cs_choice native_cs_search [0, 1, 2, 3, 4, 5, 6, 7, 8, 9, 10, 11, 12, 13, 14, 15, 17, 16] =
    Candidate native_cs_data (0, 18)"
  by (simp add: cs_choice_defs native_cs_search_def native_cs_data_def)

lemma native_cs_choice_37:
  "try_cs_choice native_cs_search [0, 1, 2, 3, 4, 5, 6, 7, 8, 9, 10, 11, 12, 13, 14, 37, 17, 16] = Skipped"
  by (simp add: cs_choice_defs native_cs_search_def)

lemma native_cs_choice:
  "bond_choice (cs_candidates native_cs_search) [0, 1, 2, 3, 4, 5, 6, 7, 8, 9, 10, 11, 12, 13, 14, 15, 17, 16]"
  using resolve_combo_choice [of "cs_candidates native_cs_search" 0]
  unfolding native_cs_choices by (simp del: One_nat_def)

lemma native_cs_derived: "derive_cs_data_layout (native_slot force) (Some native_layout) = Some (Inr native_cs_data)"
proof -
  have "[0..<num_combos (cs_candidates native_cs_search)] = [0, 1]"
    by (simp add: num_combos_def native_cs_slots upt_conv_Cons)
  then have "cl_best (cs_loop_end native_cs_search) = Some (native_cs_data, (0, 18))"
    by (simp add: cl_best_loop_end native_cs_choices native_cs_choice_15 native_cs_choice_37 keep_best_def del: One_nat_def)
  then have "search_cs_data (native_slot force) chip_27c400 native_cs_search = Some (Inr native_cs_data)"
    using Candidate_no_panic [OF native_cs_choice native_cs_choice_15] by (simp add: search_cs_data_def)
  then show ?thesis by (simp add: derive_cs_data_layout_def native_cs_search)
qed

section \<open>The slot\<close>

definition native_image :: "chip list" where
  "native_image = [\<lparr>ch_index = 0, ch_filename = lit ''kick.rom'', ch_label = None, ch_type = chip_27c400,
     ch_type_raw = lit ''27C400'', ch_cs_config = CeOe,
     ch_data = Some ([0x34, 0x12] @ replicate 524286 0), ch_location = None\<rparr>]"

lemma native_context: "slot_context_of fire_40_b Set_Single native_image False = Some (Inr (native_slot False))"
  by (simp add: slot_context_of_def native_image_def socket_pin_offset_def chip_27c400_def
      fire_40_b_def multi_config_of_def bit_mode_for_def supports_bit_mode_def native_slot_def GPIO_NONE_def)

lemma native_mode: "bit_mode_for (ch_type (hd native_image)) fire_40_b = BitMode16"
  using slot_context_of_Inr(5) [OF native_context] by simp

lemma native_built:
  obtains slot pref where "build_rom_slot fire_40_b Set_Single native_image 0 (None :: unit option) False =
      Some (Inr (slot, native_layout, native_cs_data, pref))"
  using slot_outcome_cases [OF native_context native_derived native_cs_derived, of 0 "None :: unit option"]
  by (auto simp: native_mode table_entries_def MAX_IMAGE_SIZE_def MAX_ADDR_PINS_def MAX_DATA_PINS_def
      native_layout_def [THEN arg_cong, of al_addr_pin_gpios] native_layout_def [THEN arg_cong, of al_num_addr_pins]
      native_cs_data_def [THEN arg_cong, of cd_data_pin_gpios])

lemma native_alg:
  assumes "build_rom_slot fire_40_b Set_Single native_image 0 (None :: unit option) False =
      Some (Inr (slot, native_layout, native_cs_data, pref))"
  shows "oc_data (rs_alg slot) = AlgData1 (data_common native_cs_data 16) 18 15"
    and "oc_dma (rs_alg slot) = build_alg_dma BitMode16"
proof -
  note c = slot_apart(3) [OF assms native_context native_ok]
  have "reads_byte_pin chip_27c400 BitMode16 False" "bd_pin_byte fire_40_b = 18"
    by (simp_all add: reads_byte_pin_def supports_bit_mode_def chip_27c400_def fire_40_b_def)
  then show "oc_data (rs_alg slot) = AlgData1 (data_common native_cs_data 16) 18 15"
    using build_alg_config_Some(2) [OF c]
    by (simp add: build_alg_data_def native_cs_data_def [THEN arg_cong, of cd_gpio_base]
        native_cs_data_def [THEN arg_cong, of cd_num_data_pins] native_cs_data_def [THEN arg_cong, of cd_data_pin_gpios]
        get_def u8_sub_def)
  show "oc_dma (rs_alg slot) = build_alg_dma BitMode16"
    using build_alg_config_Some(5) [OF c] by simp
qed

lemma native_byte_gpio: "byte_gpios native_cs_data (AlgData1 (data_common native_cs_data 16) 18 15) = [18]"
  by (simp add: byte_gpios_def u8_add_def native_cs_data_def [THEN arg_cong, of cd_gpio_base])

lemma native_used:
  "addr_used_gpios native_layout native_cs_data (AlgData1 (data_common native_cs_data 16) 18 15) =
     al_addr_pin_gpios native_layout @ [0, 1, 2, 3, 4, 5, 6, 7, 8, 9, 10, 11, 12, 13, 14, 15] @ [17, 16] @ [16, 17] @ [18]"
  by (simp add: addr_used_gpios_def native_layout_def native_cs_data_def u8_add_def upt_conv_Cons)

lemma native_table:
  "\<exists>table. build_rom_image native_layout native_cs_data Set_Single native_image (build_alg_dma BitMode16) =
    Some (Inr table)"
proof -
  have "set_shape native_layout native_cs_data Set_Single (length native_image)"
    by (simp add: set_shape_def native_image_def)
  moreover have "\<forall>c \<in> set native_image. \<forall>data. ch_data c = Some data \<longrightarrow> ct_size_bytes (ch_type c) \<le> length data"
    by (auto simp: native_image_def chip_27c400_def)
  moreover have "table_entries native_layout = 262144"
    by (simp add: table_entries_def native_layout_def [THEN arg_cong, of al_num_addr_pins])
  ultimately show ?thesis
    using rom_image_outcome [of "build_alg_dma BitMode16" 2 native_layout native_cs_data Set_Single native_image]
    by (simp add: bytes_per_word_dma MAX_IMAGE_SIZE_def) (simp add: native_image_def)
qed

section \<open>Witnesses\<close>

text \<open>The word at address 0 is \<open>0x1234\<close>: bit 9 is set, bit 8 is not.\<close>

theorem slot_serves_witness:
  "\<exists>slot pref table. build_rom_slot fire_40_b Set_Single native_image 0 (None :: unit option) False =
      Some (Inr (slot, native_layout, native_cs_data, pref)) \<and> rs_size slot = length table \<and>
    served_level native_cs_data table 2
      (host_index native_layout (pio_level (override_params (rs_alg slot)) (\<lambda>g. g = 18))) 9"
proof -
  obtain slot pref where slot: "build_rom_slot fire_40_b Set_Single native_image 0 (None :: unit option) False =
      Some (Inr (slot, native_layout, native_cs_data, pref))" by (rule native_built)
  obtain table where "build_rom_image native_layout native_cs_data Set_Single native_image
      (oc_dma (rs_alg slot)) = Some (Inr table)"
    using native_table native_alg(2) [OF slot] by auto
  note serves = slot_serves [OF slot this native_context native_ok, of 9 "\<lambda>g. g = 18"]
  have "selected_chip (native_slot False) native_layout native_cs_data [] (\<lambda>g. g = 18) = Some 0"
    by (simp add: selected_chip_def)
  moreover have "host_address native_layout (\<lambda>g. g = 18) = 0"
    by (simp add: host_address_def native_layout_def)
  moreover have "served_bit native_image 2 (Some 0) 0 9"
    by (simp add: served_bit_def native_image_def chip_27c400_def)
  ultimately have "rs_size slot = length table \<and> served_level native_cs_data table 2
      (host_index native_layout (pio_level (override_params (rs_alg slot)) (\<lambda>g. g = 18))) 9"
    using serves by (simp add: native_layout_def [THEN arg_cong, of al_num_addr_pins]
      native_cs_data_def [THEN arg_cong, of cd_data_pin_gpios] secondary_configs_def)
  then show ?thesis using slot by blast
qed

text \<open>GPIO 18 is seen inverted, the address GPIO 19 as driven, and no entry is made for it.\<close>

theorem slot_levels_witness:
  "\<exists>slot pref. build_rom_slot fire_40_b Set_Single native_image 0 (None :: unit option) False =
      Some (Inr (slot, native_layout, native_cs_data, pref)) \<and>
    distinct (map entry_gpio (override_params (rs_alg slot))) \<and>
    \<not> pio_level (override_params (rs_alg slot)) (\<lambda>g. True) 18 \<and>
    pio_level (override_params (rs_alg slot)) (\<lambda>g. False) 18 \<and>
    pio_level (override_params (rs_alg slot)) (\<lambda>g. True) 19"
proof -
  obtain slot pref where slot: "build_rom_slot fire_40_b Set_Single native_image 0 (None :: unit option) False =
      Some (Inr (slot, native_layout, native_cs_data, pref))" by (rule native_built)
  have "18 \<in> set (byte_gpios native_cs_data (oc_data (rs_alg slot)))"
    by (simp add: native_alg(1) [OF slot] native_byte_gpio)
  moreover have "19 \<in> set (al_addr_pin_gpios native_layout)" by (simp add: native_layout_def)
  ultimately show ?thesis
    using slot slot_levels [OF slot native_context native_ok, of "\<lambda>g. True"]
      slot_levels [OF slot native_context native_ok, of "\<lambda>g. False"]
    by (cases pref) auto
qed

text \<open>The /BYTE pin is found in the mask; GPIO 37, the bond of the top data line not used, is not.\<close>

theorem used_gpios_identify_witness:
  "\<exists>slot pref. build_rom_slot fire_40_b Set_Single native_image 0 (None :: unit option) False =
      Some (Inr (slot, native_layout, native_cs_data, pref)) \<and>
    bit (used_gpios (rs_alg slot)) 18 \<and> bit (used_gpios (rs_alg slot)) 15 \<and>
    \<not> bit (used_gpios (rs_alg slot)) 37"
proof -
  obtain slot pref where slot: "build_rom_slot fire_40_b Set_Single native_image 0 (None :: unit option) False =
      Some (Inr (slot, native_layout, native_cs_data, pref))" by (rule native_built)
  have "{g. bit (used_gpios (rs_alg slot)) g} =
      set (addr_used_gpios native_layout native_cs_data (oc_data (rs_alg slot)))"
    by (rule used_gpios_identify [OF slot native_context native_ok])
  then have "bit (used_gpios (rs_alg slot)) g \<longleftrightarrow> g \<in> set (addr_used_gpios native_layout native_cs_data
      (AlgData1 (data_common native_cs_data 16) 18 15))" for g
    unfolding native_alg(1) [OF slot] by blast
  then show ?thesis using slot by (cases pref) (simp add: native_used native_layout_def [THEN arg_cong, of al_addr_pin_gpios])
qed

end
