(* ===== verification/Firmware_Overrides.thy ===== *)
theory Firmware_Overrides
  imports Onerom_Text
begin

text \<open>
  The firmware overrides of a chip set: the configuration types of \<open>rust/gen/src/firmware.rs\<close>,
  their v1 encoding (\<open>rust/gen/src/meta/mod.rs\<close>, \<open>meta/metav1.rs\<close>) with the reader
  \<open>FirmwareConfig::from_bytes\<close>, their v2 encoding (\<open>v2/firmware_config.rs\<close>) and its readers
  in \<open>rust/metadata/src/firmware_overrides_impl.rs\<close>. The texts of errors are kept as their data.
\<close>

section \<open>Frequencies and voltages\<close>

datatype ice_cpu_freq = IceCpuFreq u16
datatype fire_cpu_freq = FireCpuFreq u16

fun ice_freq_get :: "ice_cpu_freq \<Rightarrow> u16" where "ice_freq_get (IceCpuFreq f) = f"
fun fire_freq_get :: "fire_cpu_freq \<Rightarrow> u16" where "fire_freq_get (FireCpuFreq f) = f"

definition ice_freq_try_from :: "u16 \<Rightarrow> (u16, ice_cpu_freq) result" where
  "ice_freq_try_from v =
     (if v = 0 then Inr (IceCpuFreq 0)
      else if v = 0xFFFF then Inr (IceCpuFreq 0xFFFF)
      else if 1 \<le> v \<and> v \<le> 450 then Inr (IceCpuFreq v)
      else Inl v)"

definition fire_freq_try_from :: "u16 \<Rightarrow> (u16, fire_cpu_freq) result" where
  "fire_freq_try_from v =
     (if v = 0 then Inr (FireCpuFreq 0)
      else if v = 0xFFFF then Inr (FireCpuFreq 0xFFFF)
      else if 16 \<le> v \<and> v \<le> 800 then Inr (FireCpuFreq v)
      else Inl v)"

text \<open>The numbers a frequency can hold: its field is private and only these constructors set it.\<close>

definition ice_freq_ok :: "ice_cpu_freq \<Rightarrow> bool" where
  "ice_freq_ok f \<longleftrightarrow> ice_freq_try_from (ice_freq_get f) = Inr f"

definition fire_freq_ok :: "fire_cpu_freq \<Rightarrow> bool" where
  "fire_freq_ok f \<longleftrightarrow> fire_freq_try_from (fire_freq_get f) = Inr f"

datatype fire_vreg =
    V0_55 | V0_60 | V0_65 | V0_70 | V0_75 | V0_80 | V0_85 | V0_90 | V0_95 | V1_00 | V1_05
     | V1_10 | V1_15 | V1_20 | V1_25 | V1_30 | V1_35 | V1_40 | V1_50 | V1_60 | V1_65 | V1_70
     | V1_80 | V1_90 | V2_00 | V2_35 | V2_50 | V2_65 | V2_80 | V3_00 | V3_15 | V3_30 | VregStock

fun fire_vreg_code :: "fire_vreg \<Rightarrow> u8" where
  "fire_vreg_code V0_55 = 0x00"
| "fire_vreg_code V0_60 = 0x01"
| "fire_vreg_code V0_65 = 0x02"
| "fire_vreg_code V0_70 = 0x03"
| "fire_vreg_code V0_75 = 0x04"
| "fire_vreg_code V0_80 = 0x05"
| "fire_vreg_code V0_85 = 0x06"
| "fire_vreg_code V0_90 = 0x07"
| "fire_vreg_code V0_95 = 0x08"
| "fire_vreg_code V1_00 = 0x09"
| "fire_vreg_code V1_05 = 0x0A"
| "fire_vreg_code V1_10 = 0x0B"
| "fire_vreg_code V1_15 = 0x0C"
| "fire_vreg_code V1_20 = 0x0D"
| "fire_vreg_code V1_25 = 0x0E"
| "fire_vreg_code V1_30 = 0x0F"
| "fire_vreg_code V1_35 = 0x10"
| "fire_vreg_code V1_40 = 0x11"
| "fire_vreg_code V1_50 = 0x12"
| "fire_vreg_code V1_60 = 0x13"
| "fire_vreg_code V1_65 = 0x14"
| "fire_vreg_code V1_70 = 0x15"
| "fire_vreg_code V1_80 = 0x16"
| "fire_vreg_code V1_90 = 0x17"
| "fire_vreg_code V2_00 = 0x18"
| "fire_vreg_code V2_35 = 0x19"
| "fire_vreg_code V2_50 = 0x1A"
| "fire_vreg_code V2_65 = 0x1B"
| "fire_vreg_code V2_80 = 0x1C"
| "fire_vreg_code V3_00 = 0x1D"
| "fire_vreg_code V3_15 = 0x1E"
| "fire_vreg_code V3_30 = 0x1F"
| "fire_vreg_code VregStock = 0xFF"

definition fire_vreg_try_from :: "u8 \<Rightarrow> (u8, fire_vreg) result" where
  "fire_vreg_try_from v = ok_or (map_of [
     (0x00, V0_55), (0x01, V0_60), (0x02, V0_65), (0x03, V0_70), (0x04, V0_75), (0x05, V0_80)
     , (0x06, V0_85), (0x07, V0_90), (0x08, V0_95), (0x09, V1_00), (0x0A, V1_05), (0x0B, V1_10)
     , (0x0C, V1_15), (0x0D, V1_20), (0x0E, V1_25), (0x0F, V1_30), (0x10, V1_35), (0x11, V1_40)
     , (0x12, V1_50), (0x13, V1_60), (0x14, V1_65), (0x15, V1_70), (0x16, V1_80), (0x17, V1_90)
     , (0x18, V2_00), (0x19, V2_35), (0x1A, V2_50), (0x1B, V2_65), (0x1C, V2_80), (0x1D, V3_00)
     , (0x1E, V3_15), (0x1F, V3_30), (0xFF, VregStock)] v) v"

lemma vreg_try_from_code: "fire_vreg_try_from (fire_vreg_code v) = Inr v"
  by (cases v) (simp_all add: fire_vreg_try_from_def)

section \<open>The configuration\<close>

datatype fire_serve_mode = ServePio | ServeCpu

record ice_config =
  ic_cpu_freq :: "ice_cpu_freq option"
  ic_overclock :: "bool option"

record fire_config =
  fi_cpu_freq :: "fire_cpu_freq option"
  fi_overclock :: "bool option"
  fi_vreg :: "fire_vreg option"
  fi_serve_mode :: "fire_serve_mode option"
  fi_rom_dma_preload :: bool
  fi_force_16_bit :: bool
  fi_standby :: "bool option"

text \<open>An LED or a debug section holds one flag each: \<open>enabled\<close>, \<open>swd_enabled\<close>.\<close>

record firmware_config =
  fw_ice :: "ice_config option"
  fw_fire :: "fire_config option"
  fw_led :: "bool option"
  fw_swd :: "bool option"
  fw_serve_alg_params :: "u8 list option"

definition ice_config_default :: ice_config where
  "ice_config_default = \<lparr>ic_cpu_freq = None, ic_overclock = None\<rparr>"

definition fire_config_default :: fire_config where
  "fire_config_default = \<lparr>fi_cpu_freq = None, fi_overclock = None, fi_vreg = None,
     fi_serve_mode = None, fi_rom_dma_preload = True, fi_force_16_bit = False, fi_standby = None\<rparr>"

definition standby :: "firmware_config \<Rightarrow> bool" where
  "standby c \<longleftrightarrow> Option.bind (fw_fire c) fi_standby = Some True"

section \<open>Flag bytes\<close>

text \<open>\<open>if c { byte |= 1 << k }\<close> and \<open>byte & (1 << k) != 0\<close>\<close>

definition set_if :: "bool \<Rightarrow> nat \<Rightarrow> u8 \<Rightarrow> u8" where
  "set_if c k byte = (if c then byte OR push_bit k 1 else byte)"

definition flag :: "u8 \<Rightarrow> nat \<Rightarrow> bool" where
  "flag byte k \<longleftrightarrow> byte AND push_bit k 1 \<noteq> 0"

lemma flag_bit: "k < 8 \<Longrightarrow> flag byte k \<longleftrightarrow> bit byte k"
  by (simp add: flag_def push_bit_eq_mult and_exp_eq_0_iff_not_bit)

lemma bit_set_if: "k < 8 \<Longrightarrow> bit (set_if c k byte) n \<longleftrightarrow> bit byte n \<or> c \<and> n = k"
  by (auto simp: set_if_def bit_simps)

lemma flag_set_if [simp]: "k < 8 \<Longrightarrow> n < 8 \<Longrightarrow> flag (set_if c k byte) n \<longleftrightarrow> flag byte n \<or> c \<and> n = k"
  by (simp add: flag_bit bit_set_if)

lemma flag_0 [simp]: "\<not> flag 0 k"
  by (simp add: flag_def)

lemma set_if_eq_0: "k < 8 \<Longrightarrow> set_if c k byte = 0 \<longleftrightarrow> \<not> c \<and> byte = 0"
  by (auto simp: set_if_def bit_eq_iff bit_simps)

definition le_bytes :: "u16 \<Rightarrow> u8 list" where
  "le_bytes w = [ucast w, ucast (drop_bit 8 w)]"

definition from_le_bytes :: "u8 \<Rightarrow> u8 \<Rightarrow> u16" where
  "from_le_bytes lo hi = ucast lo OR push_bit 8 (ucast hi)"

lemma from_le_le_bytes [simp]: "from_le_bytes (le_bytes w ! 0) (le_bytes w ! Suc 0) = w"
  by (auto simp: from_le_bytes_def le_bytes_def intro!: bit_word_eqI simp: bit_simps)

section \<open>The v1 encoding\<close>

definition PAD_METADATA_BYTE :: u8 where "PAD_METADATA_BYTE = 0xFF"

definition core_present :: "firmware_config \<Rightarrow> u8 list" where
  "core_present c =
     (let p0 = (case fw_ice c of None \<Rightarrow> 0 | Some i \<Rightarrow>
            set_if (ic_overclock i \<noteq> None) 1 (set_if (ic_cpu_freq i \<noteq> None) 0 0));
          p0 = (case fw_fire c of None \<Rightarrow> p0 | Some f \<Rightarrow>
            set_if (fi_serve_mode f \<noteq> None) 7 (set_if (fi_vreg f \<noteq> None) 4
              (set_if (fi_overclock f \<noteq> None) 3 (set_if (fi_cpu_freq f \<noteq> None) 2 p0))));
          p1 = (case fw_fire c of None \<Rightarrow> 0 | Some f \<Rightarrow> set_if (fi_force_16_bit f) 1 (set_if True 0 0));
          p0 = set_if (fw_led c \<noteq> None) 5 p0;
          p0 = set_if (fw_swd c \<noteq> None) 6 p0
      in [p0, p1, 0, 0, 0, 0, 0, 0])"

definition core_value :: "firmware_config \<Rightarrow> u8 list" where
  "core_value c =
     (let v = (case fw_ice c of None \<Rightarrow> 0 | Some i \<Rightarrow> set_if (ic_overclock i = Some True) 0 0);
          v = (case fw_fire c of None \<Rightarrow> v | Some f \<Rightarrow>
            set_if (fi_force_16_bit f) 6 (set_if (fi_rom_dma_preload f) 5
              (set_if (fi_serve_mode f = Some ServePio) 4 (set_if (fi_overclock f = Some True) 1 v))));
          v = set_if (fw_led c = Some True) 2 v;
          v = set_if (fw_swd c = Some True) 3 v
      in [v, 0, 0, 0, 0, 0, 0, 0])"

definition or_default :: "'a option \<Rightarrow> 'a \<Rightarrow> 'a" where
  "or_default x d = (case x of Some a \<Rightarrow> a | None \<Rightarrow> d)"

definition fw_overrides_core :: "firmware_config \<Rightarrow> u8 list" where
  "fw_overrides_core c =
     core_present c @
     le_bytes (or_default (map_option ice_freq_get (Option.bind (fw_ice c) ic_cpu_freq)) 0xFFFF) @
     le_bytes (or_default (map_option fire_freq_get (Option.bind (fw_fire c) fi_cpu_freq)) 0xFFFF) @
     [or_default (map_option fire_vreg_code (Option.bind (fw_fire c) fi_vreg)) 0xFF] @
     replicate 3 PAD_METADATA_BYTE @
     core_value c"

definition CHIP_SET_FIRMWARE_OVERRIDES_METADATA_LEN :: usize where
  "CHIP_SET_FIRMWARE_OVERRIDES_METADATA_LEN = 64"

text \<open>The error is the buffer's length; the value the buffer after writing.\<close>

definition serialize_firmware_overrides :: "firmware_config \<Rightarrow> u8 list \<Rightarrow> (usize, u8 list) result" where
  "serialize_firmware_overrides c buf =
     (if length buf < CHIP_SET_FIRMWARE_OVERRIDES_METADATA_LEN then Inl (length buf)
      else Inr (fw_overrides_core c @
        replicate (CHIP_SET_FIRMWARE_OVERRIDES_METADATA_LEN - 24) PAD_METADATA_BYTE @
        drop CHIP_SET_FIRMWARE_OVERRIDES_METADATA_LEN buf))"

datatype overrides_error = BufferTooSmallFor usize | InvalidIceFreq u16 | InvalidFireFreq u16 | InvalidFireVreg u8

definition read_ice :: "u8 list \<Rightarrow> u8 list \<Rightarrow> u16 \<Rightarrow> (overrides_error, ice_config option) result" where
  "read_ice present val freq =
     (if flag (present ! 0) 0 \<or> flag (present ! 0) 1 then
        bind_r (if flag (present ! 0) 0
                then bind_r (map_err InvalidIceFreq (ice_freq_try_from freq)) (\<lambda>f. Inr (Some f))
                else Inr None) (\<lambda>f.
          Inr (Some (ice_config_default
            \<lparr>ic_cpu_freq := f,
             ic_overclock := if flag (present ! 0) 1 then Some (flag (val ! 0) 0) else None\<rparr>)))
      else Inr None)"

definition read_fire ::
  "u8 list \<Rightarrow> u8 list \<Rightarrow> u16 \<Rightarrow> u8 \<Rightarrow> (overrides_error, fire_config option) result" where
  "read_fire present val freq vreg =
     (if flag (present ! 0) 2 \<or> flag (present ! 0) 3 \<or> flag (present ! 0) 4 \<or> flag (present ! 0) 7 then
        bind_r (if flag (present ! 0) 2
                then bind_r (map_err InvalidFireFreq (fire_freq_try_from freq)) (\<lambda>f. Inr (Some f))
                else Inr None) (\<lambda>f.
        bind_r (if flag (present ! 0) 4
                then bind_r (map_err InvalidFireVreg (fire_vreg_try_from vreg)) (\<lambda>v. Inr (Some v))
                else Inr None) (\<lambda>v.
          Inr (Some (fire_config_default
            \<lparr>fi_cpu_freq := f,
             fi_overclock := if flag (present ! 0) 3 then Some (flag (val ! 0) 1) else None,
             fi_vreg := v,
             fi_serve_mode := if flag (present ! 0) 7
               then Some (if flag (val ! 0) 4 then ServePio else ServeCpu) else None,
             fi_rom_dma_preload := if flag (present ! 1) 0 then flag (val ! 0) 5 else True,
             fi_force_16_bit := if flag (present ! 1) 1 then flag (val ! 0) 6 else False\<rparr>))))
      else Inr None)"

definition from_bytes :: "u8 list \<Rightarrow> (overrides_error, firmware_config) result" where
  "from_bytes buf =
     (if length buf < 64 then Inl (BufferTooSmallFor (length buf))
      else
        let present = take 8 buf;
            ice_freq = from_le_bytes (buf ! 8) (buf ! 9);
            fire_freq = from_le_bytes (buf ! 10) (buf ! 11);
            vreg = buf ! 12;
            val = take 8 (drop 16 buf)
        in
        bind_r (read_ice present val ice_freq) (\<lambda>ice.
        bind_r (read_fire present val fire_freq vreg) (\<lambda>fire.
          Inr \<lparr>fw_ice = ice, fw_fire = fire,
            fw_led = if flag (present ! 0) 5 then Some (flag (val ! 0) 2) else None,
            fw_swd = if flag (present ! 0) 6 then Some (flag (val ! 0) 3) else None,
            fw_serve_alg_params = None\<rparr>)))"

section \<open>Reading the v1 encoding back\<close>

text \<open>What the reader can see: a section none of whose flagged fields is set is not seen.\<close>

definition seen_ice :: "ice_config \<Rightarrow> ice_config option" where
  "seen_ice i = (if ic_cpu_freq i = None \<and> ic_overclock i = None then None else Some i)"

definition seen_fire :: "fire_config \<Rightarrow> fire_config option" where
  "seen_fire f =
     (if fi_cpu_freq f = None \<and> fi_overclock f = None \<and> fi_vreg f = None \<and> fi_serve_mode f = None
      then None else Some (f\<lparr>fi_standby := None\<rparr>))"

definition freqs_ok :: "firmware_config \<Rightarrow> bool" where
  "freqs_ok c \<longleftrightarrow>
     (case Option.bind (fw_ice c) ic_cpu_freq of None \<Rightarrow> True | Some f \<Rightarrow> ice_freq_ok f) \<and>
     (case Option.bind (fw_fire c) fi_cpu_freq of None \<Rightarrow> True | Some f \<Rightarrow> fire_freq_ok f)"

lemma length_le_bytes [simp]: "length (le_bytes w) = 2"
  by (simp add: le_bytes_def)

lemma core_fields:
  "length (fw_overrides_core c) = 24"
  "take 8 (fw_overrides_core c) = core_present c"
  "from_le_bytes (fw_overrides_core c ! 8) (fw_overrides_core c ! 9) =
     or_default (map_option ice_freq_get (Option.bind (fw_ice c) ic_cpu_freq)) 0xFFFF"
  "from_le_bytes (fw_overrides_core c ! 10) (fw_overrides_core c ! 11) =
     or_default (map_option fire_freq_get (Option.bind (fw_fire c) fi_cpu_freq)) 0xFFFF"
  "fw_overrides_core c ! 12 =
     or_default (map_option fire_vreg_code (Option.bind (fw_fire c) fi_vreg)) 0xFF"
  "drop 16 (fw_overrides_core c) = core_value c"
proof -
  have l: "length (core_present c) = 8" "length (core_value c) = 8"
    by (simp_all add: core_present_def core_value_def Let_def)
  show "length (fw_overrides_core c) = 24" "take 8 (fw_overrides_core c) = core_present c"
    "drop 16 (fw_overrides_core c) = core_value c"
    by (simp_all add: fw_overrides_core_def l)
  show "from_le_bytes (fw_overrides_core c ! 8) (fw_overrides_core c ! 9) =
     or_default (map_option ice_freq_get (Option.bind (fw_ice c) ic_cpu_freq)) 0xFFFF"
    "from_le_bytes (fw_overrides_core c ! 10) (fw_overrides_core c ! 11) =
     or_default (map_option fire_freq_get (Option.bind (fw_fire c) fi_cpu_freq)) 0xFFFF"
    "fw_overrides_core c ! 12 =
     or_default (map_option fire_vreg_code (Option.bind (fw_fire c) fi_vreg)) 0xFF"
    by (simp_all add: fw_overrides_core_def nth_append l)
qed

lemma present_flags:
  "flag (core_present c ! 0) 0 \<longleftrightarrow> Option.bind (fw_ice c) ic_cpu_freq \<noteq> None"
  "flag (core_present c ! 0) (Suc 0) \<longleftrightarrow> Option.bind (fw_ice c) ic_overclock \<noteq> None"
  "flag (core_present c ! 0) 2 \<longleftrightarrow> Option.bind (fw_fire c) fi_cpu_freq \<noteq> None"
  "flag (core_present c ! 0) 3 \<longleftrightarrow> Option.bind (fw_fire c) fi_overclock \<noteq> None"
  "flag (core_present c ! 0) 4 \<longleftrightarrow> Option.bind (fw_fire c) fi_vreg \<noteq> None"
  "flag (core_present c ! 0) 5 \<longleftrightarrow> fw_led c \<noteq> None"
  "flag (core_present c ! 0) 6 \<longleftrightarrow> fw_swd c \<noteq> None"
  "flag (core_present c ! 0) 7 \<longleftrightarrow> Option.bind (fw_fire c) fi_serve_mode \<noteq> None"
  "flag (core_present c ! Suc 0) 0 \<longleftrightarrow> fw_fire c \<noteq> None"
  "flag (core_present c ! Suc 0) (Suc 0) \<longleftrightarrow> (\<exists>f. fw_fire c = Some f \<and> fi_force_16_bit f)"
  by (cases "fw_ice c"; cases "fw_fire c"; simp add: core_present_def Let_def del: not_None_eq)+

lemma value_flags:
  "flag (core_value c ! 0) 0 \<longleftrightarrow> Option.bind (fw_ice c) ic_overclock = Some True"
  "flag (core_value c ! 0) (Suc 0) \<longleftrightarrow> Option.bind (fw_fire c) fi_overclock = Some True"
  "flag (core_value c ! 0) 2 \<longleftrightarrow> fw_led c = Some True"
  "flag (core_value c ! 0) 3 \<longleftrightarrow> fw_swd c = Some True"
  "flag (core_value c ! 0) 4 \<longleftrightarrow> Option.bind (fw_fire c) fi_serve_mode = Some ServePio"
  "flag (core_value c ! 0) 5 \<longleftrightarrow> (\<exists>f. fw_fire c = Some f \<and> fi_rom_dma_preload f)"
  "flag (core_value c ! 0) 6 \<longleftrightarrow> (\<exists>f. fw_fire c = Some f \<and> fi_force_16_bit f)"
  by (cases "fw_ice c"; cases "fw_fire c"; simp add: core_value_def Let_def)+

lemma some_flag: "(if x \<noteq> None then Some (x = Some True) else None) = x"
  by (cases x) auto

lemma some_mode: "(if x \<noteq> None then Some (if x = Some ServePio then ServePio else ServeCpu) else None) = x"
  by (cases x; cases "the x") auto

lemma read_ice_core:
  assumes "freqs_ok c"
  shows "read_ice (core_present c) (core_value c)
      (or_default (map_option ice_freq_get (Option.bind (fw_ice c) ic_cpu_freq)) 0xFFFF) =
    Inr (Option.bind (fw_ice c) seen_ice)"
proof (cases "fw_ice c")
  case (Some i)
  have "ic_cpu_freq i = Some f \<Longrightarrow> ice_freq_try_from (ice_freq_get f) = Inr f" for f
    using assms Some by (simp add: freqs_ok_def ice_freq_ok_def)
  then show ?thesis
    using Some some_flag [of "ic_overclock i"]
    by (cases "ic_cpu_freq i")
      (auto simp: read_ice_def present_flags value_flags seen_ice_def ice_config_default_def or_default_def)
qed (simp add: read_ice_def present_flags)

lemma read_fire_core:
  assumes "freqs_ok c"
  shows "read_fire (core_present c) (core_value c)
      (or_default (map_option fire_freq_get (Option.bind (fw_fire c) fi_cpu_freq)) 0xFFFF)
      (or_default (map_option fire_vreg_code (Option.bind (fw_fire c) fi_vreg)) 0xFF) =
    Inr (Option.bind (fw_fire c) seen_fire)"
proof (cases "fw_fire c")
  case (Some f)
  have "fi_cpu_freq f = Some q \<Longrightarrow> fire_freq_try_from (fire_freq_get q) = Inr q" for q
    using assms Some by (simp add: freqs_ok_def fire_freq_ok_def)
  then show ?thesis
    using Some some_flag [of "fi_overclock f"] some_mode [of "fi_serve_mode f"]
    by (cases "fi_cpu_freq f"; cases "fi_vreg f")
      (auto simp: read_fire_def present_flags value_flags seen_fire_def fire_config_default_def
        or_default_def vreg_try_from_code)
qed (simp add: read_fire_def present_flags)

text \<open>
  C39: a v1 override block is read back as what was written, with two losses the reader makes:
  a Fire section is seen only if its frequency, overclock, voltage or serve mode is set (a
  section that only disables the DMA preload or forces 16-bit mode vanishes), and standby has
  no place in the block. The LED and debug sections come back unchanged, and the parameters of
  the serving algorithm are stored elsewhere.
\<close>

theorem v1_overrides_readback:
  assumes "freqs_ok c" "64 \<le> length buf"
  shows "\<exists>out. serialize_firmware_overrides c buf = Inr out \<and> length out = length buf \<and>
    from_bytes out = Inr \<lparr>fw_ice = Option.bind (fw_ice c) seen_ice,
      fw_fire = Option.bind (fw_fire c) seen_fire, fw_led = fw_led c, fw_swd = fw_swd c,
      fw_serve_alg_params = None\<rparr>"
proof -
  define out where "out = fw_overrides_core c @
    replicate (CHIP_SET_FIRMWARE_OVERRIDES_METADATA_LEN - 24) PAD_METADATA_BYTE @
    drop CHIP_SET_FIRMWARE_OVERRIDES_METADATA_LEN buf"
  have len: "length out = length buf"
    using assms(2) by (simp add: out_def core_fields CHIP_SET_FIRMWARE_OVERRIDES_METADATA_LEN_def)
  have n: "out ! i = fw_overrides_core c ! i" if "i < 24" for i
    using that by (simp add: out_def nth_append core_fields)
  have "take 8 out = core_present c" "take 8 (drop 16 out) = core_value c"
    by (simp_all add: out_def core_fields) (simp add: core_value_def Let_def)
  then have "from_bytes out = Inr \<lparr>fw_ice = Option.bind (fw_ice c) seen_ice,
      fw_fire = Option.bind (fw_fire c) seen_fire, fw_led = fw_led c, fw_swd = fw_swd c,
      fw_serve_alg_params = None\<rparr>"
    using assms(2) len
    by (simp add: from_bytes_def n core_fields Let_def read_ice_core [OF assms(1)]
        read_fire_core [OF assms(1)] present_flags value_flags) auto
  moreover have "serialize_firmware_overrides c buf = Inr out"
    using assms(2) by (simp add: serialize_firmware_overrides_def out_def
        CHIP_SET_FIRMWARE_OVERRIDES_METADATA_LEN_def)
  ultimately show ?thesis using len by blast
qed

theorem v1_overrides_readback_witness:
  "\<exists>out. serialize_firmware_overrides \<lparr>fw_ice = None,
      fw_fire = Some (fire_config_default\<lparr>fi_rom_dma_preload := False\<rparr>), fw_led = Some True,
      fw_swd = None, fw_serve_alg_params = None\<rparr> (replicate 64 0) = Inr out \<and>
    from_bytes out = Inr \<lparr>fw_ice = None, fw_fire = None, fw_led = Some True, fw_swd = None,
      fw_serve_alg_params = None\<rparr>"
proof -
  define f where "f = fire_config_default\<lparr>fi_rom_dma_preload := False\<rparr>"
  define c where "c = \<lparr>fw_ice = None, fw_fire = Some f, fw_led = Some True, fw_swd = None,
    fw_serve_alg_params = None\<rparr>"
  have f: "seen_fire f = None" "fi_cpu_freq f = None"
    by (simp_all add: f_def fire_config_default_def seen_fire_def)
  have "freqs_ok c" by (simp add: c_def freqs_ok_def f)
  then have "\<exists>out. serialize_firmware_overrides c (replicate 64 0) = Inr out \<and>
      from_bytes out = Inr \<lparr>fw_ice = Option.bind (fw_ice c) seen_ice,
        fw_fire = Option.bind (fw_fire c) seen_fire, fw_led = fw_led c, fw_swd = fw_swd c,
        fw_serve_alg_params = None\<rparr>"
    using v1_overrides_readback [of c "replicate 64 0"] unfolding length_replicate by blast
  then show ?thesis unfolding f_def [symmetric] c_def by (simp add: f)
qed

section \<open>The v2 encoding\<close>

datatype override_state = StateNotSet | StateOff | StateOn

fun override_state_of :: "bool option \<Rightarrow> override_state" where
  "override_state_of None = StateNotSet"
| "override_state_of (Some False) = StateOff"
| "override_state_of (Some True) = StateOn"

text \<open>
  \<open>OneromFirmwareOverrides\<close>, with the voltage as its byte and the standby state as the one
  member of \<open>override_states\<close>. \<open>ice_freq\<close> is left at zero by the only writer.
\<close>

record onerom_firmware_overrides =
  fo_override_present :: "u8 list"
  fo_ice_freq :: u16
  fo_fire_freq :: u16
  fo_fire_vreg :: u8
  fo_override_value :: "u8 list"
  fo_standby :: "override_state option"

definition FIRE_VREG_NONE :: u8 where "FIRE_VREG_NONE = 0xFE"

text \<open>The bytes \<open>onerom_metadata::FireVreg\<close> has a variant for.\<close>

definition onerom_vreg_try_from :: "u8 \<Rightarrow> u8 option" where
  "onerom_vreg_try_from b = (if b \<le> 0x1F \<or> b = FIRE_VREG_NONE \<or> b = 0xFF then Some b else None)"

definition build_override_states :: "firmware_config \<Rightarrow> override_state option" where
  "build_override_states c = Some (override_state_of (Option.bind (fw_fire c) fi_standby))"

text \<open>\<open>None\<close> is the panic of \<open>expect\<close> on a voltage the metadata crate does not know.\<close>

definition build_firmware_overrides :: "firmware_config \<Rightarrow> onerom_firmware_overrides option" where
  "build_firmware_overrides c =
     (let p = (case fw_fire c of None \<Rightarrow> 0 | Some f \<Rightarrow>
            set_if (fi_vreg f \<noteq> None) 4 (set_if (fi_overclock f \<noteq> None) 3
              (set_if (fi_cpu_freq f \<noteq> None) 2 0)));
          v = (case fw_fire c of None \<Rightarrow> 0 | Some f \<Rightarrow> set_if (fi_overclock f = Some True) 1 0);
          freq = or_default (map_option fire_freq_get (Option.bind (fw_fire c) fi_cpu_freq)) 0;
          p = set_if (fw_led c \<noteq> None) 5 p;
          v = set_if (fw_led c = Some True) 2 v;
          p = set_if (fw_swd c \<noteq> None) 6 p;
          v = set_if (fw_swd c = Some True) 3 v
      in
      map_option (\<lambda>vreg.
        \<lparr>fo_override_present = (replicate 8 0)[0 := p], fo_ice_freq = 0, fo_fire_freq = freq,
         fo_fire_vreg = vreg, fo_override_value = (replicate 8 0)[0 := v],
         fo_standby = build_override_states c\<rparr>)
        (case Option.bind (fw_fire c) fi_vreg of
           None \<Rightarrow> Some FIRE_VREG_NONE
         | Some vreg \<Rightarrow> onerom_vreg_try_from (fire_vreg_code vreg)))"

definition fo_any_present :: "onerom_firmware_overrides \<Rightarrow> bool" where
  "fo_any_present o' \<longleftrightarrow> list_ex (\<lambda>b. b \<noteq> 0) (fo_override_present o') \<or>
     (fo_standby o' \<noteq> None \<and> fo_standby o' \<noteq> Some StateNotSet)"

definition fo_standby_override :: "onerom_firmware_overrides \<Rightarrow> override_state option" where
  "fo_standby_override o' =
     (case fo_standby o' of Some StateNotSet \<Rightarrow> None | s \<Rightarrow> s)"

definition fo_cpu_freq :: "onerom_firmware_overrides \<Rightarrow> u16 option" where
  "fo_cpu_freq o' = (if flag (fo_override_present o' ! 0) 2 then Some (fo_fire_freq o') else None)"

definition fo_vreg :: "onerom_firmware_overrides \<Rightarrow> u8 option" where
  "fo_vreg o' = (if flag (fo_override_present o' ! 0) 4 then Some (fo_fire_vreg o') else None)"

definition fo_led_enabled :: "onerom_firmware_overrides \<Rightarrow> bool option" where
  "fo_led_enabled o' = (if flag (fo_override_present o' ! 0) 5
     then Some (flag (fo_override_value o' ! 0) 2) else None)"

definition fo_swd_enabled :: "onerom_firmware_overrides \<Rightarrow> bool option" where
  "fo_swd_enabled o' = (if flag (fo_override_present o' ! 0) 6
     then Some (flag (fo_override_value o' ! 0) 3) else None)"

definition fo_overclock_enabled :: "onerom_firmware_overrides \<Rightarrow> bool option" where
  "fo_overclock_enabled o' = (if flag (fo_override_present o' ! 0) 3
     then Some (flag (fo_override_value o' ! 0) 1) else None)"

lemma onerom_vreg_of_code: "onerom_vreg_try_from (fire_vreg_code v) = Some (fire_vreg_code v)"
  by (cases v) (simp_all add: onerom_vreg_try_from_def FIRE_VREG_NONE_def)

lemma build_firmware_overrides_Some: "\<exists>o'. build_firmware_overrides c = Some o'"
  by (auto simp: build_firmware_overrides_def Let_def onerom_vreg_of_code split: option.splits)

text \<open>
  C40: a v2 override block says what the configuration says. Building it never panics; each
  reader of the metadata crate returns the configured frequency, voltage, overclock, LED, debug
  and standby setting, \<open>None\<close> exactly where the configuration leaves it alone; and the block
  counts as empty exactly when it leaves all of them alone.
\<close>

theorem v2_overrides_readback:
  "\<exists>o'. build_firmware_overrides c = Some o' \<and>
     fo_cpu_freq o' = map_option fire_freq_get (Option.bind (fw_fire c) fi_cpu_freq) \<and>
     fo_overclock_enabled o' = Option.bind (fw_fire c) fi_overclock \<and>
     fo_vreg o' = map_option fire_vreg_code (Option.bind (fw_fire c) fi_vreg) \<and>
     fo_led_enabled o' = fw_led c \<and>
     fo_swd_enabled o' = fw_swd c \<and>
     fo_standby_override o' = map_option (\<lambda>b. if b then StateOn else StateOff) (Option.bind (fw_fire c) fi_standby) \<and>
     (fo_any_present o' \<longleftrightarrow>
       fo_cpu_freq o' \<noteq> None \<or> fo_overclock_enabled o' \<noteq> None \<or> fo_vreg o' \<noteq> None \<or>
       fo_led_enabled o' \<noteq> None \<or> fo_swd_enabled o' \<noteq> None \<or> fo_standby_override o' \<noteq> None)"
proof -
  obtain o' where o: "build_firmware_overrides c = Some o'" using build_firmware_overrides_Some by blast
  let ?fire = "\<lambda>sel. Option.bind (fw_fire c) sel"
  have p: "fo_override_present o' = [set_if (fw_swd c \<noteq> None) 6 (set_if (fw_led c \<noteq> None) 5
      (set_if (?fire fi_vreg \<noteq> None) 4 (set_if (?fire fi_overclock \<noteq> None) 3
        (set_if (?fire fi_cpu_freq \<noteq> None) 2 0)))), 0, 0, 0, 0, 0, 0, 0]"
    and v: "fo_override_value o' = [set_if (fw_swd c = Some True) 3 (set_if (fw_led c = Some True) 2
      (set_if (?fire fi_overclock = Some True) 1 0)), 0, 0, 0, 0, 0, 0, 0]"
    using o by (cases "fw_fire c"; auto simp: build_firmware_overrides_def Let_def set_if_def numeral_eq_Suc)+
  have f: "fo_fire_freq o' = or_default (map_option fire_freq_get (?fire fi_cpu_freq)) 0"
    "fo_fire_vreg o' = or_default (map_option fire_vreg_code (?fire fi_vreg)) FIRE_VREG_NONE"
    "fo_standby o' = Some (override_state_of (?fire fi_standby))"
    using o by (auto simp: build_firmware_overrides_def Let_def onerom_vreg_of_code or_default_def
        build_override_states_def split: option.splits)
  have 1: "fo_cpu_freq o' = map_option fire_freq_get (?fire fi_cpu_freq)"
    "fo_vreg o' = map_option fire_vreg_code (?fire fi_vreg)"
    by (simp_all add: fo_cpu_freq_def fo_vreg_def p f or_default_def split: option.splits)
  have 2: "fo_overclock_enabled o' = ?fire fi_overclock" "fo_led_enabled o' = fw_led c"
    "fo_swd_enabled o' = fw_swd c"
    by (auto simp: fo_overclock_enabled_def fo_led_enabled_def fo_swd_enabled_def p v)
  have 3: "fo_standby_override o' = map_option (\<lambda>b. if b then StateOn else StateOff) (?fire fi_standby)"
    by (cases "?fire fi_standby"; cases "the (?fire fi_standby)"; simp add: fo_standby_override_def f)
  have 4: "fo_standby o' \<noteq> None \<and> fo_standby o' \<noteq> Some StateNotSet \<longleftrightarrow> ?fire fi_standby \<noteq> None"
    by (cases "?fire fi_standby"; cases "the (?fire fi_standby)"; simp add: f)
  have "fo_any_present o' \<longleftrightarrow>
      ?fire fi_cpu_freq \<noteq> None \<or> ?fire fi_overclock \<noteq> None \<or> ?fire fi_vreg \<noteq> None \<or>
      fw_led c \<noteq> None \<or> fw_swd c \<noteq> None \<or> ?fire fi_standby \<noteq> None"
    unfolding fo_any_present_def 4 p by (simp add: set_if_eq_0 del: not_None_eq) blast
  then show ?thesis using o 1 2 3 by (intro exI [of _ o'] conjI; simp del: not_None_eq)
qed

theorem v2_overrides_readback_witness:
  "\<exists>o'. build_firmware_overrides \<lparr>fw_ice = None, fw_fire = Some (fire_config_default\<lparr>fi_standby := Some True\<rparr>),
       fw_led = Some False, fw_swd = None, fw_serve_alg_params = None\<rparr> = Some o' \<and>
     fo_led_enabled o' = Some False \<and> fo_swd_enabled o' = None \<and> fo_standby_override o' = Some StateOn \<and>
     fo_any_present o'"
  using v2_overrides_readback [of "\<lparr>fw_ice = None, fw_fire = Some (fire_config_default\<lparr>fi_standby := Some True\<rparr>),
       fw_led = Some False, fw_swd = None, fw_serve_alg_params = None\<rparr>"]
  by (auto simp: fire_config_default_def)

end
