(* ===== verification/Header_Pin.thy ===== *)
theory Header_Pin
  imports Firmware_Overrides Chip_Set
begin

text \<open>
  The pins of a board's header: \<open>rust/config/src/pin.rs\<close>. A pin is written as an MCU GPIO
  (\<open>gpio23\<close>) or as a header pin (\<open>sel_a\<close>, \<open>x1\<close>), is parsed without knowing the board and
  resolved to a GPIO once it is known. GPIO numbers and select indices are \<open>u8\<close> values, kept as
  natural numbers. The two reserved-pin bytes are words.
\<close>

section \<open>Header pins\<close>

definition NO_PIN :: nat where "NO_PIN = 255"
definition MAX_SELECT_PINS :: nat where "MAX_SELECT_PINS = 7"

datatype header_pin = SelectPin nat | PinX1 | PinX2

definition gpio_on :: "header_pin \<Rightarrow> board \<Rightarrow> nat option" where
  "gpio_on p b =
     Option.bind (case p of
         SelectPin index \<Rightarrow> get (bd_sel_pins b) index
       | PinX1 \<Rightarrow> Some (bd_pin_x1 b)
       | PinX2 \<Rightarrow> Some (bd_pin_x2 b))
       (\<lambda>gpio. if gpio \<noteq> NO_PIN then Some gpio else None)"

definition has_gpio_on :: "header_pin \<Rightarrow> board \<Rightarrow> nat \<Rightarrow> bool" where
  "has_gpio_on p b gpio \<longleftrightarrow>
     (if gpio = NO_PIN then False
      else case p of
        SelectPin _ \<Rightarrow> gpio_on p b = Some gpio
      | PinX1 \<Rightarrow> gpio_on p b = Some gpio \<or> gpio \<in> set (gpios_for_x_pin b 1)
      | PinX2 \<Rightarrow> gpio_on p b = Some gpio \<or> gpio \<in> set (gpios_for_x_pin b 2))"

text \<open>The number of select pins is cast to \<open>u8\<close>.\<close>

definition all_on :: "board \<Rightarrow> header_pin list" where
  "all_on b = filter (\<lambda>p. gpio_on p b \<noteq> None)
     (map SelectPin [0..<length (bd_sel_pins b) mod 256] @ [PinX1, PinX2])"

definition select_letter :: "nat \<Rightarrow> nat \<Rightarrow> nat" where
  "select_letter index a = (if a + index < 256 \<and> index < 26 then a + index else of_char (CHR ''?''))"

definition show_header_pin :: "header_pin \<Rightarrow> ustr" where
  "show_header_pin p =
     (case p of
        SelectPin index \<Rightarrow> lit ''sel_'' @ [select_letter index (of_char (CHR ''a''))]
      | PinX1 \<Rightarrow> lit ''x1''
      | PinX2 \<Rightarrow> lit ''x2'')"

definition silkscreen :: "header_pin \<Rightarrow> ustr" where
  "silkscreen p =
     (case p of
        SelectPin index \<Rightarrow> lit ''SEL_'' @ [select_letter index (of_char (CHR ''A''))]
      | PinX1 \<Rightarrow> lit ''X1''
      | PinX2 \<Rightarrow> lit ''X2'')"

section \<open>Pins as written\<close>

datatype pin = GpioPin nat | HeaderPin header_pin

datatype resolve_error = NoBoard header_pin | NoSuchPin header_pin board

text \<open>The GPIO of the resolved pin; the pin itself is carried along unchanged.\<close>

definition resolve_pin :: "pin \<Rightarrow> board option \<Rightarrow> (resolve_error, nat) result" where
  "resolve_pin p board =
     (case p of
        GpioPin gpio \<Rightarrow> Inr gpio
      | HeaderPin hp \<Rightarrow>
          (case board of
             None \<Rightarrow> Inl (NoBoard hp)
           | Some b \<Rightarrow> ok_or (gpio_on hp b) (NoSuchPin hp b)))"

definition header_pin_on :: "pin \<Rightarrow> board \<Rightarrow> header_pin option" where
  "header_pin_on p b =
     (case p of
        HeaderPin hp \<Rightarrow> map_option (\<lambda>_. hp) (gpio_on hp b)
      | GpioPin gpio \<Rightarrow> List.find (\<lambda>hp. has_gpio_on hp b gpio) (all_on b))"

definition show_pin :: "pin \<Rightarrow> ustr" where
  "show_pin p =
     (case p of GpioPin gpio \<Rightarrow> lit ''gpio'' @ show_dec gpio | HeaderPin hp \<Rightarrow> show_header_pin hp)"

datatype pin_error =
    PinEmpty | MissingGpioNumber | GpioOutOfRange | BareNumber | AddressLine | NotAGpio | Unrecognised

definition is_ascii_digit :: "nat \<Rightarrow> bool" where
  "is_ascii_digit c \<longleftrightarrow> 48 \<le> c \<and> c \<le> 57"

text \<open>Only ASCII prefixes are stripped, so the byte length of the prefix is its number of characters.\<close>

definition strip_prefix_ignore_case :: "ustr \<Rightarrow> ustr \<Rightarrow> ustr option" where
  "strip_prefix_ignore_case name prefix =
     (if length prefix \<le> length name \<and> eq_ignore_ascii_case (take (length prefix) name) prefix
      then Some (drop (length prefix) name) else None)"

definition parse_u8 :: "ustr \<Rightarrow> nat option" where
  "parse_u8 s = Option.bind (from_str_radix s 10) (\<lambda>n. if n < 256 then Some n else None)"

definition parse_select_pin :: "ustr \<Rightarrow> header_pin option" where
  "parse_select_pin name =
     Option.bind (strip_prefix_ignore_case name (lit ''sel'')) (\<lambda>rest.
       let letters = (case strip_prefix (lit ''_'') rest of
             Some l \<Rightarrow> l
           | None \<Rightarrow> (case strip_prefix (lit ''-'') rest of Some l \<Rightarrow> l | None \<Rightarrow> rest))
       in case letters of
            [letter] \<Rightarrow>
              if 128 \<le> letter \<or> ascii_lower letter < of_char (CHR ''a'') then None
              else let index = ascii_lower letter - of_char (CHR ''a'')
                   in if index < MAX_SELECT_PINS then Some (SelectPin index) else None
          | _ \<Rightarrow> None)"

definition parse_header_pin :: "ustr \<Rightarrow> header_pin option" where
  "parse_header_pin name =
     (if eq_ignore_ascii_case name (lit ''x1'') then Some PinX1
      else if eq_ignore_ascii_case name (lit ''x2'') then Some PinX2
      else parse_select_pin name)"

definition is_address_line :: "ustr \<Rightarrow> bool" where
  "is_address_line name \<longleftrightarrow>
     (case strip_prefix_ignore_case name (lit ''a'') of
        None \<Rightarrow> False
      | Some digits \<Rightarrow> digits \<noteq> [] \<and> list_all is_ascii_digit digits)"

definition parse_pin :: "ustr \<Rightarrow> (pin_error, pin) result" where
  "parse_pin spec =
     (let name = str_trim spec in
      if name = [] then Inl PinEmpty
      else case strip_prefix_ignore_case name (lit ''gpio'') of
        Some digits \<Rightarrow>
          if digits = [] \<or> \<not> list_all is_ascii_digit digits then Inl MissingGpioNumber
          else (case parse_u8 digits of Some n \<Rightarrow> Inr (GpioPin n) | None \<Rightarrow> Inl GpioOutOfRange)
      | None \<Rightarrow>
          (case parse_header_pin name of
             Some hp \<Rightarrow> Inr (HeaderPin hp)
           | None \<Rightarrow>
               if list_all is_ascii_digit name then Inl BareNumber
               else if is_address_line name then Inl AddressLine
               else if list_ex (\<lambda>n. eq_ignore_ascii_case name (lit n))
                 [''run'', ''bootsel'', ''swclk'', ''swdio''] then Inl NotAGpio
               else Inl Unrecognised))"

section \<open>Reserved pins\<close>

record reserved_pins =
  rp_select :: u8
  rp_x :: u8

definition no_reserved :: reserved_pins where
  "no_reserved = \<lparr>rp_select = 0, rp_x = 0\<rparr>"

text \<open>The value of \<open>insert\<close> and the set after it.\<close>

definition reserved_insert :: "reserved_pins \<Rightarrow> header_pin \<Rightarrow> bool \<times> reserved_pins" where
  "reserved_insert r p =
     (case p of
        SelectPin index \<Rightarrow>
          if index < MAX_SELECT_PINS then (True, r\<lparr>rp_select := set_if True index (rp_select r)\<rparr>)
          else (False, r)
      | PinX1 \<Rightarrow> (True, r\<lparr>rp_x := set_if True 0 (rp_x r)\<rparr>)
      | PinX2 \<Rightarrow> (True, r\<lparr>rp_x := set_if True 1 (rp_x r)\<rparr>))"

definition reserved_contains :: "reserved_pins \<Rightarrow> header_pin \<Rightarrow> bool" where
  "reserved_contains r p \<longleftrightarrow>
     (case p of
        SelectPin index \<Rightarrow> index < MAX_SELECT_PINS \<and> flag (rp_select r) index
      | PinX1 \<Rightarrow> flag (rp_x r) 0
      | PinX2 \<Rightarrow> flag (rp_x r) 1)"

definition reserved_pin_list :: "reserved_pins \<Rightarrow> header_pin list" where
  "reserved_pin_list r =
     filter (reserved_contains r) (map SelectPin [0..<MAX_SELECT_PINS] @ [PinX1, PinX2])"

definition select_pins_read :: "reserved_pins \<Rightarrow> board \<Rightarrow> header_pin list" where
  "select_pins_read r b =
     filter (\<lambda>p. \<not> reserved_contains r p) (map SelectPin [0..<length (bd_sel_pins b) mod 256])"

definition show_reserved :: "reserved_pins \<Rightarrow> ustr" where
  "show_reserved r = str_join (lit '', '') (map silkscreen (reserved_pin_list r))"

section \<open>How a pin is written\<close>

definition decimal :: "ustr \<Rightarrow> nat" where
  "decimal ds = foldl (\<lambda>n c. n * 10 + (c - 48)) 0 ds"

text \<open>The spellings of a pin, in lower case and without white space around it.\<close>

definition spells :: "ustr \<Rightarrow> pin \<Rightarrow> bool" where
  "spells name p \<longleftrightarrow>
     (case p of
        GpioPin n \<Rightarrow> \<exists>ds. name = lit ''gpio'' @ ds \<and> ds \<noteq> [] \<and> list_all is_ascii_digit ds \<and>
          decimal ds = n \<and> n < 256
      | HeaderPin PinX1 \<Rightarrow> name = lit ''x1''
      | HeaderPin PinX2 \<Rightarrow> name = lit ''x2''
      | HeaderPin (SelectPin i) \<Rightarrow> i < MAX_SELECT_PINS \<and>
          (\<exists>form \<in> {''sel_'', ''sel-'', ''sel''}. name = lit form @ [97 + i]))"

lemma foldl_decimal_mono: "(m :: nat) \<le> foldl (\<lambda>n c. n * 10 + (c - 48)) m ds"
proof (induction ds arbitrary: m)
  case (Cons c ds)
  have "m \<le> m * 10 + (c - 48)" by simp
  also have "\<dots> \<le> foldl (\<lambda>n c. n * 10 + (c - 48)) (m * 10 + (c - 48)) ds" by (rule Cons.IH)
  finally show ?case by simp
qed simp

lemma to_digit_ascii: "is_ascii_digit c \<Longrightarrow> to_digit 10 c = Some (c - 48)"
  by (auto simp: is_ascii_digit_def to_digit_def Let_def)

lemma radix_acc_decimal:
  "list_all is_ascii_digit ds \<Longrightarrow>
     radix_acc 10 ds m = (let v = foldl (\<lambda>n c. n * 10 + (c - 48)) m ds in
       if ds = [] \<or> v \<le> usize_max then Some v else None)"
proof (induction ds arbitrary: m)
  case (Cons c ds)
  let ?m = "m * 10 + (c - 48)"
  have d: "to_digit 10 c = Some (c - 48)" using Cons.prems by (simp add: to_digit_ascii)
  show ?case
  proof (cases "?m \<le> usize_max")
    case True
    then have m: "checked_mul m 10 = Some (m * 10)" and a: "checked_add (m * 10) (c - 48) = Some ?m"
      by (simp_all add: checked_mul_def checked_add_def)
    have "radix_acc 10 (c # ds) m = radix_acc 10 ds ?m" by (simp only: radix_acc.simps d m a option.case)
    then show ?thesis using Cons True by (simp add: Let_def)
  next
    case False
    then have "\<not> foldl (\<lambda>n c. n * 10 + (c - 48)) ?m ds \<le> usize_max"
      using foldl_decimal_mono [of ?m ds] by linarith
    with False d show ?thesis
      by (auto simp: checked_mul_def checked_add_def Let_def split: option.splits)
  qed
qed (simp add: Let_def)

lemma parse_u8_decimal:
  assumes "ds \<noteq> []" "list_all is_ascii_digit ds"
  shows "parse_u8 ds = (if decimal ds < 256 then Some (decimal ds) else None)"
proof -
  have "hd ds \<noteq> 43" using assms by (cases ds) (auto simp: is_ascii_digit_def)
  then have "from_str_radix ds 10 = radix_acc 10 ds 0"
    using assms(1) by (cases ds) (simp_all add: from_str_radix_def)
  then show ?thesis
    using assms by (auto simp: parse_u8_def radix_acc_decimal decimal_def Let_def usize_max_def)
qed

lemma digit_lower: "is_ascii_digit (ascii_lower c) \<longleftrightarrow> is_ascii_digit c"
  by (auto simp: is_ascii_digit_def ascii_lower_def)

lemma lower_digit: "is_ascii_digit c \<Longrightarrow> ascii_lower c = c"
  by (auto simp: is_ascii_digit_def ascii_lower_def)

lemma lower_digits: "list_all is_ascii_digit (map ascii_lower s) \<longleftrightarrow> list_all is_ascii_digit s"
  by (simp add: list.pred_map comp_def digit_lower)

lemma lower_of_digits: "list_all is_ascii_digit s \<Longrightarrow> map ascii_lower s = s"
  by (induction s) (simp_all add: lower_digit)

text \<open>Stripping a prefix, told on the lower-case form.\<close>

lemma strip_ignore_case_iff:
  assumes "map ascii_lower prefix = prefix"
  shows "strip_prefix_ignore_case name prefix = Some r \<longleftrightarrow>
     (\<exists>head. name = head @ r \<and> map ascii_lower head = prefix)"
proof
  assume "strip_prefix_ignore_case name prefix = Some r"
  then show "\<exists>head. name = head @ r \<and> map ascii_lower head = prefix"
    using assms by (auto simp: strip_prefix_ignore_case_def eq_ignore_ascii_case_def split: if_splits
        intro!: exI [of _ "take (length prefix) name"])
next
  assume "\<exists>head. name = head @ r \<and> map ascii_lower head = prefix"
  then show "strip_prefix_ignore_case name prefix = Some r"
    using assms by (auto simp: strip_prefix_ignore_case_def eq_ignore_ascii_case_def)
qed

lemma strip_ignore_case_None:
  assumes "map ascii_lower prefix = prefix"
  shows "strip_prefix_ignore_case name prefix = None \<longleftrightarrow>
     (\<nexists>r. map ascii_lower name = prefix @ r)"
proof -
  have "strip_prefix_ignore_case name prefix = None \<longleftrightarrow> (\<nexists>r head. name = head @ r \<and> map ascii_lower head = prefix)"
    using strip_ignore_case_iff [OF assms, of name] by (metis not_None_eq)
  also have "\<dots> \<longleftrightarrow> (\<nexists>r. map ascii_lower name = prefix @ r)"
    by (auto simp: map_eq_append_conv)
  finally show ?thesis .
qed

lemma lit_lower:
  "map ascii_lower (lit ''gpio'') = lit ''gpio''" "map ascii_lower (lit ''sel'') = lit ''sel''"
  "map ascii_lower (lit ''x1'') = lit ''x1''" "map ascii_lower (lit ''x2'') = lit ''x2''"
  "map ascii_lower (lit ''a'') = lit ''a''"
  by (simp_all add: lit_def ascii_lower_def)


lemma lower_sep: "ascii_lower c = 95 \<longleftrightarrow> c = 95" "ascii_lower c = 45 \<longleftrightarrow> c = 45"
  by (auto simp: ascii_lower_def)

lemma lower_letter: "i < 26 \<Longrightarrow> ascii_lower c = 97 + i \<longleftrightarrow> c = 97 + i \<or> c = 65 + i"
  by (auto simp: ascii_lower_def)

definition select_of :: "nat \<Rightarrow> header_pin option" where
  "select_of letter =
     (if 128 \<le> letter \<or> ascii_lower letter < 97 then None
      else let index = ascii_lower letter - 97 in
        if index < MAX_SELECT_PINS then Some (SelectPin index) else None)"

lemma select_of_iff: "select_of letter = Some hp \<longleftrightarrow>
    (\<exists>i. hp = SelectPin i \<and> i < MAX_SELECT_PINS \<and> ascii_lower letter = 97 + i)"
proof
  assume "select_of letter = Some hp"
  then show "\<exists>i. hp = SelectPin i \<and> i < MAX_SELECT_PINS \<and> ascii_lower letter = 97 + i"
    by (auto simp: select_of_def Let_def split: if_splits)
next
  assume "\<exists>i. hp = SelectPin i \<and> i < MAX_SELECT_PINS \<and> ascii_lower letter = 97 + i"
  then obtain i where i: "hp = SelectPin i" "i < MAX_SELECT_PINS" "ascii_lower letter = 97 + i" by blast
  then have "letter = 97 + i \<or> letter = 65 + i" by (simp add: lower_letter MAX_SELECT_PINS_def)
  with i show "select_of letter = Some hp" by (auto simp: select_of_def MAX_SELECT_PINS_def)
qed

lemma parse_select_rest:
  "parse_select_pin name = Option.bind (strip_prefix_ignore_case name (lit ''sel'')) (\<lambda>rest.
     case rest of
       [] \<Rightarrow> None
     | [c] \<Rightarrow> if c = 95 \<or> c = 45 then None else select_of c
     | [c, d] \<Rightarrow> if c = 95 \<or> c = 45 then select_of d else None
     | _ \<Rightarrow> None)"
  by (auto simp: parse_select_pin_def lit_def select_of_def Let_def intro!: Option.bind_cong
      split: list.splits)

lemma parse_select_iff:
  "parse_select_pin name = Some hp \<longleftrightarrow>
     (\<exists>i < MAX_SELECT_PINS. hp = SelectPin i \<and>
       (\<exists>form \<in> {''sel_'', ''sel-'', ''sel''}. map ascii_lower name = lit form @ [97 + i]))"
    (is "?l \<longleftrightarrow> ?r")
proof
  assume ?l
  then obtain rest where rest: "strip_prefix_ignore_case name (lit ''sel'') = Some rest"
    and r: "(case rest of [] \<Rightarrow> None
     | [c] \<Rightarrow> if c = 95 \<or> c = 45 then None else select_of c
     | [c, d] \<Rightarrow> if c = 95 \<or> c = 45 then select_of d else None
     | _ \<Rightarrow> None) = Some hp"
    by (auto simp: parse_select_rest bind_eq_Some_conv)
  from rest [unfolded strip_ignore_case_iff [OF lit_lower(2)]]
  have name: "map ascii_lower name = lit ''sel'' @ map ascii_lower rest" by auto
  from r consider c where "rest = [c]" "select_of c = Some hp"
    | c d where "rest = [c, d]" "c = 95 \<or> c = 45" "select_of d = Some hp"
    by (auto split: list.splits if_splits)
  then show ?r
    by cases (auto simp: name select_of_iff lit_def ascii_lower_def [of 95] ascii_lower_def [of 45])
next
  assume ?r
  then obtain i form where i: "i < MAX_SELECT_PINS" "hp = SelectPin i" and
    form: "form \<in> {''sel_'', ''sel-'', ''sel''}" and name: "map ascii_lower name = lit form @ [97 + i]"
    by blast
  have "lit form @ [97 + i] = lit ''sel'' @ (drop 3 (lit form) @ [97 + i])"
    using form by (auto simp: lit_def)
  with name have "map ascii_lower name = lit ''sel'' @ (drop 3 (lit form) @ [97 + i])" by (simp only:)
  from this [unfolded map_eq_append_conv] obtain head rest where n: "name = head @ rest"
    and h: "lit ''sel'' = map ascii_lower head" and r: "drop 3 (lit form) @ [97 + i] = map ascii_lower rest"
    by blast
  note h = h [symmetric] and r = r [symmetric]
  have s: "strip_prefix_ignore_case name (lit ''sel'') = Some rest"
    unfolding strip_ignore_case_iff [OF lit_lower(2)] using n h by blast
  consider c where "rest = [c]" "ascii_lower c = 97 + i"
    | c d where "rest = [c, d]" "c = 95 \<or> c = 45" "ascii_lower d = 97 + i"
    using form r by (auto simp: lit_def map_eq_Cons_conv lower_sep)
  then show ?l
  proof cases
    case 1
    then have "c \<noteq> 95 \<and> c \<noteq> 45" by (auto simp: ascii_lower_def)
    then show ?thesis using 1 i s by (simp add: parse_select_rest select_of_iff)
  next
    case 2
    then show ?thesis using i s by (simp add: parse_select_rest select_of_iff)
  qed
qed


lemma pin_spellings_iff:
  "parse_pin s = Inr p \<longleftrightarrow> spells (map ascii_lower (str_trim s)) p"
proof -
  let ?n = "str_trim s" let ?l = "map ascii_lower (str_trim s)"
  show ?thesis
  proof (cases "strip_prefix_ignore_case ?n (lit ''gpio'')")
    case (Some ds)
    then obtain head where h: "?n = head @ ds" "map ascii_lower head = lit ''gpio''"
      unfolding strip_ignore_case_iff [OF lit_lower(1)] by blast
    then have l: "?l = lit ''gpio'' @ map ascii_lower ds" and ne: "?n \<noteq> []" by (auto simp: lit_def)
    have "parse_pin s = Inr p \<longleftrightarrow> (\<exists>n. p = GpioPin n \<and> ds \<noteq> [] \<and> list_all is_ascii_digit ds \<and>
        decimal ds = n \<and> n < 256)"
      using ne Some by (auto simp: parse_pin_def Let_def parse_u8_decimal)
    also have "\<dots> \<longleftrightarrow> spells ?l p"
    proof (cases p)
      case (GpioPin n)
      have "(\<exists>es. ?l = lit ''gpio'' @ es \<and> es \<noteq> [] \<and> list_all is_ascii_digit es \<and> decimal es = n \<and> n < 256)
          \<longleftrightarrow> (\<exists>es. es = map ascii_lower ds \<and> ds \<noteq> [] \<and> list_all is_ascii_digit es \<and> decimal es = n \<and> n < 256)"
        unfolding l by auto
      also have "\<dots> \<longleftrightarrow> ds \<noteq> [] \<and> list_all is_ascii_digit ds \<and> decimal ds = n \<and> n < 256"
        by (auto simp: lower_digits lower_of_digits)
      finally show ?thesis using GpioPin by (simp add: spells_def)
    next
      case (HeaderPin hp)
      then show ?thesis unfolding l spells_def by (cases hp) (auto simp: lit_def)
    qed
    finally show ?thesis .
  next
    case None
    then have no: "?l \<noteq> lit ''gpio'' @ r" for r
      unfolding strip_ignore_case_None [OF lit_lower(1)] by simp
    have "parse_pin s = Inr p \<longleftrightarrow> ?n \<noteq> [] \<and> (\<exists>hp. p = HeaderPin hp \<and> parse_header_pin ?n = Some hp)"
      using None by (auto simp: parse_pin_def Let_def split: option.splits)
    also have "\<dots> \<longleftrightarrow> spells ?l p"
    proof (cases p)
      case (GpioPin n)
      then show ?thesis using no by (auto simp: spells_def)
    next
      case (HeaderPin hp)
      define l where "l = ?l"
      have "eq_ignore_ascii_case ?n (lit ''x1'') \<longleftrightarrow> l = lit ''x1''" "eq_ignore_ascii_case ?n (lit ''x2'') \<longleftrightarrow> l = lit ''x2''"
        unfolding eq_ignore_ascii_case_def lit_lower l_def by (rule refl)+
      then have l: "eq_ignore_ascii_case ?n [120, 49] \<longleftrightarrow> l = [120, 49]"
        "eq_ignore_ascii_case ?n [120, 50] \<longleftrightarrow> l = [120, 50]" by (simp_all add: lit_def)
      have "parse_header_pin ?n = Some hp \<longleftrightarrow> spells l p"
        using HeaderPin by (cases hp)
          (auto simp: parse_header_pin_def spells_def l_def [symmetric] l parse_select_iff lit_def)
      moreover have "spells l p \<Longrightarrow> l \<noteq> []" using HeaderPin by (cases hp) (auto simp: spells_def lit_def)
      moreover have "l = [] \<longleftrightarrow> ?n = []" by (simp add: l_def)
      ultimately show ?thesis using HeaderPin unfolding l_def by auto
    qed
    finally show ?thesis .
  qed
qed

text \<open>
  A text is read as a pin exactly when, in lower case and trimmed, it spells it: \<open>gpio\<close> and
  the digits of a number below 256, \<open>x1\<close>, \<open>x2\<close>, or \<open>sel_\<close>, \<open>sel-\<close> or \<open>sel\<close> and one of the
  letters a to g.
\<close>

theorem pin_spellings:
  "parse_pin s = Inr p \<longleftrightarrow> spells (map ascii_lower (str_trim s)) p"
  by (rule pin_spellings_iff)

text \<open>The pins a text can name.\<close>

definition pin_ok :: "pin \<Rightarrow> bool" where
  "pin_ok p \<longleftrightarrow> (case p of GpioPin n \<Rightarrow> n < 256 | HeaderPin (SelectPin i) \<Rightarrow> i < MAX_SELECT_PINS | _ \<Rightarrow> True)"

lemma parse_pin_ok: "parse_pin s = Inr p \<Longrightarrow> pin_ok p"
  by (auto simp: pin_spellings_iff spells_def pin_ok_def split: pin.splits header_pin.splits)

section \<open>The set of reserved pins\<close>

definition selectable :: "header_pin \<Rightarrow> bool" where
  "selectable p \<longleftrightarrow> (case p of SelectPin i \<Rightarrow> i < MAX_SELECT_PINS | _ \<Rightarrow> True)"

lemma reserved_contains_none [simp]: "\<not> reserved_contains no_reserved p"
  by (cases p) (simp_all add: reserved_contains_def no_reserved_def)

lemma fst_reserved_insert: "fst (reserved_insert r p) \<longleftrightarrow> selectable p"
  by (cases p) (simp_all add: reserved_insert_def selectable_def)

lemma reserved_contains_insert:
  "reserved_contains (snd (reserved_insert r p)) q \<longleftrightarrow> reserved_contains r q \<or> selectable p \<and> q = p"
  by (cases p; cases q)
    (auto simp: reserved_insert_def reserved_contains_def selectable_def MAX_SELECT_PINS_def)

lemma reserved_contains_selectable: "reserved_contains r p \<Longrightarrow> selectable p"
  by (cases p) (simp_all add: reserved_contains_def selectable_def)

lemma set_reserved_pin_list: "p \<in> set (reserved_pin_list r) \<longleftrightarrow> reserved_contains r p"
  using reserved_contains_selectable [of r p]
  by (cases p) (auto simp: reserved_pin_list_def selectable_def)

lemma set_select_pins_read:
  "set (select_pins_read r b) =
     SelectPin ` {..<length (bd_sel_pins b) mod 256} - set (reserved_pin_list r)"
  by (auto simp: select_pins_read_def set_reserved_pin_list lessThan_atLeast0)

end
