(* ===== verification/Gen_Config.thy ===== *)
theory Gen_Config
  imports Chip_Image Header_Pin
begin

text \<open>
  The configuration the generator builds from (\<open>Config\<close>, \<open>ChipSetConfig\<close>, \<open>ChipConfig\<close> in
  \<open>rust/gen/src/lib.rs\<close>) and the structural checks of \<open>rust/gen/src/builder.rs\<close>: chip counts,
  firmware versions, files, locations and plugins. Descriptions, notes, categories and names,
  which no check or build step reads, are left out. An \<open>InvalidConfig\<close> error keeps the data of
  its text.
\<close>

section \<open>Configurations\<close>

datatype file_format = Binary | IntelHex | SrecFormat

record chip_config =
  cc_file :: ustr
  cc_plugin :: "ustr option"
  cc_license :: "ustr option"
  cc_chip_type :: chip_type
  cc_chip_type_raw :: ustr
  cc_cs1 :: "cs_logic option"
  cc_cs2 :: "cs_logic option"
  cc_cs3 :: "cs_logic option"
  cc_cs4 :: "cs_logic option"
  cc_ce :: "cs_logic option"
  cc_oe :: "cs_logic option"
  cc_allow_cs_ignore :: bool
  cc_size_handling :: size_handling
  cc_extract :: "ustr option"
  cc_label :: "ustr option"
  cc_location :: "location option"
  cc_format :: file_format
  cc_load_address :: load_address
  cc_transform :: "transform list"

definition chip_config_new :: "ustr \<Rightarrow> chip_type \<Rightarrow> ustr \<Rightarrow> chip_config" where
  "chip_config_new file ct raw =
     \<lparr>cc_file = file, cc_plugin = None, cc_license = None, cc_chip_type = ct, cc_chip_type_raw = raw,
      cc_cs1 = None, cc_cs2 = None, cc_cs3 = None, cc_cs4 = None, cc_ce = None, cc_oe = None,
      cc_allow_cs_ignore = False, cc_size_handling = SH_None, cc_extract = None, cc_label = None,
      cc_location = None, cc_format = Binary, cc_load_address = LoadAddress 0, cc_transform = []\<rparr>"

record chip_set_config =
  st_set_type :: chip_set_type
  st_chips :: "chip_config list"
  st_serve_alg :: "serve_alg option"
  st_overrides :: "firmware_config option"

record config =
  cf_version :: nat
  cf_chip_sets :: "chip_set_config list"
  cf_instance_name :: "ustr option"
  cf_serial_override :: "ustr option"
  cf_boot_logging :: bool
  cf_swd_enabled :: bool
  cf_turbo_boot :: bool
  cf_reserved_pins :: "pin list"

datatype chip_function = FunRom | FunRam | FunPlugin

definition chip_function_of :: "chip_type \<Rightarrow> chip_function" where
  "chip_function_of ct = (if ct_is_plugin ct then FunPlugin else if ct_is_ram ct then FunRam else FunRom)"

text \<open>Chip types are compared by name: the variants of the generated enumeration have distinct ones.\<close>

abbreviation is_type :: "chip_type \<Rightarrow> string \<Rightarrow> bool" where
  "is_type ct name \<equiv> ct_name ct = name"

definition all_chips :: "config \<Rightarrow> chip_config list" where
  "all_chips c = concat (map st_chips (cf_chip_sets c))"

section \<open>Errors\<close>

datatype config_issue =
    StandbyFilesMixed nat
  | FileNameEmpty nat
  | BankedTypesDiffer chip_type chip_type
  | LocationLengthZero nat
  | LocationWraps nat
  | PluginOnIce nat
  | SystemPluginNotFirst
  | UserPluginNotSecond
  | UserPluginWithoutSystem
  | NotAPlugin nat ustr
  | PluginAndField nat string
  | InstanceNameTooLong nat nat
  | SerialTooLong nat nat
  | CpuServing
  | IceOverrides
  | NoDmaPreload
  | LineNotOnChip string chip_type nat nat
  | BothCeOeIgnored chip_type nat nat
  | HalfSelectMissing chip_type nat nat
  | ConfigurableMissing chip_type string nat nat
  | PolarityFixed string chip_type nat nat
  | IgnoreNotAllowed string chip_type nat nat
  | CsOrder string chip_type nat nat
  | SecondarySelectCount chip_type nat nat "string list"
  | SelectNotOnPrimary chip_type nat nat string chip_type
  | SecondaryLacksLine chip_type nat nat string chip_type
  | SelectsDiffer chip_type nat nat string string
  | PrimaryIgnoresSelect chip_type nat string
  | UnknownControlLine string
  | LineNotUsed string chip_type
  | Cs1Ignored
  | Cs2Ignored
  | CsLinesDiffer chip_type "string list" "string list"
  | IgnoredInSingleSet string nat
  | Cs1IgnoredInMultiSet nat
  | CsConfigsDiffer chip_set_type nat chip_config chip_config
  | CeOeUnsupported string nat nat
  | FieldUnsupported string

datatype config_error =
    NoChips nat
  | FirmwareTooOld string firmware_version firmware_version
  | FirmwareTooNew firmware_version firmware_version
  | FirmwareUnsupported firmware_version
  | TooManyChips nat nat nat
  | UnsupportedToolChipType chip_type
  | UnsupportedConfigVersion nat
  | UnsupportedMcuFamily family firmware_version
  | InconsistentCsLogic cs_logic cs_logic
  | TurboBootMultiSlot nat
  | MissingCsConfig chip_type string
  | ReservedPinNotOnBoard pin board
  | ReservedPinNotReservable pin board
  | InvalidConfig config_issue

section \<open>The pins a configuration reserves\<close>

fun reserve_loop :: "board \<Rightarrow> reserved_pins \<Rightarrow> pin list \<Rightarrow> (config_error, reserved_pins) result" where
  "reserve_loop b reserved [] = Inr reserved"
| "reserve_loop b reserved (p # pins) =
     (case header_pin_on p b of
        None \<Rightarrow> Inl (case p of HeaderPin _ \<Rightarrow> ReservedPinNotOnBoard p b
            | GpioPin _ \<Rightarrow> ReservedPinNotReservable p b)
      | Some hp \<Rightarrow>
          let (ok, reserved) = reserved_insert reserved hp
          in if \<not> ok then Inl (ReservedPinNotOnBoard p b) else reserve_loop b reserved pins)"

definition reserved_pins_on :: "config \<Rightarrow> board \<Rightarrow> (config_error, reserved_pins) result" where
  "reserved_pins_on c b = reserve_loop b no_reserved (cf_reserved_pins c)"

text \<open>The header pin an entry stands for, among those that can be reserved.\<close>

definition reservable :: "board \<Rightarrow> pin \<Rightarrow> header_pin option" where
  "reservable b p = Option.bind (header_pin_on p b) (\<lambda>hp. if selectable hp then Some hp else None)"

lemma reserve_loop_Inr:
  "reserve_loop b r pins = Inr r' \<Longrightarrow>
     list_all (\<lambda>p. reservable b p \<noteq> None) pins \<and>
     (\<forall>q. reserved_contains r' q \<longleftrightarrow> reserved_contains r q \<or> Some q \<in> reservable b ` set pins)"
proof (induction pins arbitrary: r)
  case (Cons p pins)
  then obtain hp where hp: "header_pin_on p b = Some hp" by (auto split: option.splits)
  obtain ok r1 where r1: "reserved_insert r hp = (ok, r1)" by fastforce
  with Cons.prems hp have ok: "ok" and rec: "reserve_loop b r1 pins = Inr r'"
    by (auto split: if_splits)
  have s: "selectable hp" using fst_reserved_insert [of r hp] r1 ok by simp
  then have "reservable b p = Some hp" by (simp add: reservable_def hp)
  moreover have "reserved_contains r1 q \<longleftrightarrow> reserved_contains r q \<or> q = hp" for q
    using reserved_contains_insert [of r hp q] r1 s by simp
  ultimately show ?case using Cons.IH [OF rec] by auto
qed simp

lemma reserve_loop_Inl:
  "reserve_loop b r pins = Inl e \<Longrightarrow>
     \<exists>as p cs. pins = as @ p # cs \<and> list_all (\<lambda>p. reservable b p \<noteq> None) as \<and> reservable b p = None \<and>
       e = (case p of HeaderPin _ \<Rightarrow> ReservedPinNotOnBoard p b
         | GpioPin _ \<Rightarrow> if header_pin_on p b = None then ReservedPinNotReservable p b
             else ReservedPinNotOnBoard p b)"
proof (induction pins arbitrary: r)
  case (Cons p pins)
  show ?case
  proof (cases "reservable b p")
    case None
    then have "e = (case p of HeaderPin _ \<Rightarrow> ReservedPinNotOnBoard p b
         | GpioPin _ \<Rightarrow> if header_pin_on p b = None then ReservedPinNotReservable p b
             else ReservedPinNotOnBoard p b)"
      using Cons.prems fst_reserved_insert [of r]
      by (auto simp: reservable_def bind_eq_None_conv split: option.splits pin.splits if_splits prod.splits)
        (metis fst_conv)+
    with None show ?thesis by (intro exI [of _ "[]"] exI [of _ p] exI [of _ pins]) simp
  next
    case (Some hp)
    then have hp: "header_pin_on p b = Some hp" "selectable hp"
      by (auto simp: reservable_def bind_eq_Some_conv split: if_splits)
    obtain ok r1 where r1: "reserved_insert r hp = (ok, r1)" by fastforce
    with hp fst_reserved_insert [of r hp] have ok by simp
    with Cons.prems hp r1 have "reserve_loop b r1 pins = Inl e" by simp
    from Cons.IH [OF this] obtain as q cs where
      "pins = as @ q # cs" "list_all (\<lambda>p. reservable b p \<noteq> None) as" "reservable b q = None"
      "e = (case q of HeaderPin _ \<Rightarrow> ReservedPinNotOnBoard q b
         | GpioPin _ \<Rightarrow> if header_pin_on q b = None then ReservedPinNotReservable q b
             else ReservedPinNotOnBoard q b)" by blast
    with Some show ?thesis by (intro exI [of _ "p # as"] exI [of _ q] exI [of _ cs]) simp
  qed
qed simp

text \<open>
  The pins reserved on a board are exactly the header pins the entries stand for, and the
  firmware reads the image select pins that are left. Otherwise the first entry that stands for
  no reservable pin is named in the error.
\<close>

theorem reserved_pins_exact:
  "case reserved_pins_on c b of
     Inr r \<Rightarrow>
       list_all (\<lambda>p. reservable b p \<noteq> None) (cf_reserved_pins c) \<and>
       Some ` set (reserved_pin_list r) = reservable b ` set (cf_reserved_pins c) \<and>
       Some ` set (select_pins_read r b) =
         Some ` SelectPin ` {..<length (bd_sel_pins b) mod 256} - reservable b ` set (cf_reserved_pins c)
   | Inl e \<Rightarrow>
       (\<exists>as p cs. cf_reserved_pins c = as @ p # cs \<and> list_all (\<lambda>p. reservable b p \<noteq> None) as \<and>
          reservable b p = None \<and>
          e = (case p of HeaderPin _ \<Rightarrow> ReservedPinNotOnBoard p b
            | GpioPin _ \<Rightarrow> if header_pin_on p b = None then ReservedPinNotReservable p b
                else ReservedPinNotOnBoard p b))"
proof (cases "reserved_pins_on c b")
  case (Inl e)
  then show ?thesis using reserve_loop_Inl [of b no_reserved] by (simp add: reserved_pins_on_def)
next
  case (Inr r)
  then have facts: "list_all (\<lambda>p. reservable b p \<noteq> None) (cf_reserved_pins c)"
    "\<And>q. reserved_contains r q \<longleftrightarrow> Some q \<in> reservable b ` set (cf_reserved_pins c)"
    using reserve_loop_Inr [of b no_reserved] by (simp_all add: reserved_pins_on_def)
  have mem: "q \<in> set (reserved_pin_list r) \<longleftrightarrow> Some q \<in> reservable b ` set (cf_reserved_pins c)" for q
    by (simp add: set_reserved_pin_list facts)
  have pins: "Some ` set (reserved_pin_list r) = reservable b ` set (cf_reserved_pins c)"
  proof (rule set_eqI)
    fix x show "x \<in> Some ` set (reserved_pin_list r) \<longleftrightarrow> x \<in> reservable b ` set (cf_reserved_pins c)"
    proof (cases x)
      case None
      have "x \<notin> reservable b ` set (cf_reserved_pins c)"
        using facts(1) None by (auto simp: list_all_iff simp del: not_None_eq)
      with None show ?thesis by blast
    qed (auto simp: mem)
  qed
  have "Some ` set (select_pins_read r b) =
      Some ` SelectPin ` {..<length (bd_sel_pins b) mod 256} - Some ` set (reserved_pin_list r)"
    by (simp only: set_select_pins_read image_set_diff [OF inj_Some])
  then show ?thesis using Inr facts(1) pins by simp
qed

section \<open>Versions and supported chips\<close>

definition MIN_SUPPORTED_FIRMWARE_VERSION_V1 :: firmware_version where
  "MIN_SUPPORTED_FIRMWARE_VERSION_V1 = FirmwareVersion 0 2 0 0"

definition MAX_SUPPORTED_FIRMWARE_VERSION_V1 :: firmware_version where
  "MAX_SUPPORTED_FIRMWARE_VERSION_V1 = FirmwareVersion 0 6 999 0"

definition UNSUPPORTED_FIRMWARE_VERSIONS_V1 :: "firmware_version list" where
  "UNSUPPORTED_FIRMWARE_VERSIONS_V1 = [FirmwareVersion 0 6 3 0]"

definition MIN_SUPPORTED_FIRMWARE_VERSION_V2 :: firmware_version where
  "MIN_SUPPORTED_FIRMWARE_VERSION_V2 = FirmwareVersion 0 7 0 0"

definition MAX_SUPPORTED_FIRMWARE_VERSION_V2 :: firmware_version where
  "MAX_SUPPORTED_FIRMWARE_VERSION_V2 = FirmwareVersion 0 8 999 999"

definition UNSUPPORTED_FIRMWARE_VERSIONS_V2 :: "firmware_version list" where
  "UNSUPPORTED_FIRMWARE_VERSIONS_V2 = []"

definition MIN_FIRMWARE_OVERRIDES_VERSION :: firmware_version where
  "MIN_FIRMWARE_OVERRIDES_VERSION = FirmwareVersion 0 6 0 0"

definition SUPPORTED_CHIP_TYPES_V1 :: "string list" where
  "SUPPORTED_CHIP_TYPES_V1 =
     [''2316'', ''2716'', ''6116'', ''2332'', ''2732'', ''2364'', ''2764'', ''23128'', ''27128'', ''23256'',
      ''27256'', ''23512'', ''27512'', ''231024'', ''27C400'', ''27C010'', ''27C020'', ''27C040'', ''27C080'',
      ''27C301'', ''2704'', ''2708'', ''SystemPlugin'', ''UserPlugin'', ''PioPlugin'', ''28C16'', ''28C64'',
      ''28C256'', ''28C512'', ''23C1010'', ''23QL512'', ''23QL384'', ''27C200'', ''SST39SF040'']"

definition SUPPORTED_CHIP_TYPES_V2 :: "string list" where
  "SUPPORTED_CHIP_TYPES_V2 =
     [''2316'', ''2716'', ''2332'', ''2732'', ''2364'', ''2764'', ''23128'', ''27128'', ''23256'',
      ''27256'', ''23512'', ''27512'', ''231024'', ''27C400'', ''27C010'', ''27C020'', ''27C040'', ''27C080'',
      ''27C301'', ''2704'', ''2708'', ''SystemPlugin'', ''UserPlugin'', ''PioPlugin'', ''28C16'', ''28C64'',
      ''28C256'', ''28C512'', ''23C1001'', ''23C1010'', ''23QL512'', ''23QL384'', ''27C200'', ''SST39SF040'',
      ''HM7641'', ''27C400Pin31A17'', ''27C200Pin31NC'']"

definition chip_type_servable_by_tool :: "chip_type \<Rightarrow> family \<Rightarrow> bool" where
  "chip_type_servable_by_tool ct mcu_family \<longleftrightarrow>
     ct_name ct \<in> set SUPPORTED_CHIP_TYPES_V1 \<or>
     mcu_family = Rp2350 \<and> ct_name ct \<in> set SUPPORTED_CHIP_TYPES_V2"

definition validate_config_version :: "config \<Rightarrow> (config_error, unit) result" where
  "validate_config_version c = fail_if (cf_version c \<noteq> 1) (UnsupportedConfigVersion (cf_version c))"

definition validate_firmware_version ::
  "firmware_version \<Rightarrow> firmware_version \<Rightarrow> firmware_version \<Rightarrow> firmware_version list \<Rightarrow> string \<Rightarrow>
     (config_error, unit) result" where
  "validate_firmware_version version min_v max_v unsupported feat =
     (if version < min_v then Inl (FirmwareTooOld feat version min_v)
      else if version > max_v then Inl (FirmwareTooNew version max_v)
      else each_r (\<lambda>u. fail_if (version = u) (FirmwareUnsupported version)) unsupported)"

section \<open>The chips of a set\<close>

definition check_named_plugin :: "chip_config \<Rightarrow> nat \<Rightarrow> (config_error, unit) result" where
  "check_named_plugin chip chip_num =
     (if \<not> (is_type (cc_chip_type chip) ''SystemPlugin'' \<or> is_type (cc_chip_type chip) ''UserPlugin'')
      then Inl (InvalidConfig (NotAPlugin chip_num (cc_chip_type_raw chip)))
      else
        let conflict =
          (if cc_file chip \<noteq> [] then Some ''file''
           else if cc_extract chip \<noteq> None then Some ''extract''
           else if cc_location chip \<noteq> None then Some ''location''
           else if cc_format chip \<noteq> Binary then Some ''format''
           else if cc_transform chip \<noteq> [] then Some ''transform''
           else None)
        in case conflict of
             Some field \<Rightarrow> Inl (InvalidConfig (PluginAndField chip_num field))
           | None \<Rightarrow> Inr ())"

text \<open>The chip type is one the target's builder serves, from a firmware version that has it.\<close>

definition check_supported ::
  "firmware_version \<Rightarrow> string list \<Rightarrow> family \<Rightarrow> chip_type \<Rightarrow> (config_error, unit) result" where
  "check_supported version supported mcu_family ct =
     (if ct_name ct \<notin> set supported then
        (case ct_min_fw ct of
           Some min_version \<Rightarrow>
             if version < min_version \<and> chip_type_servable_by_tool ct mcu_family
             then Inl (FirmwareTooOld (ct_name ct) version min_version)
             else Inl (UnsupportedToolChipType ct)
         | None \<Rightarrow> Inl (UnsupportedToolChipType ct))
      else
        (case ct_min_fw ct of
           Some min_version \<Rightarrow>
             fail_if (version < min_version) (FirmwareTooOld (ct_name ct) version min_version)
         | None \<Rightarrow> Inl (UnsupportedToolChipType ct)))"

definition check_location :: "location option \<Rightarrow> nat \<Rightarrow> (config_error, unit) result" where
  "check_location loc chip_num =
     (case loc of
        None \<Rightarrow> Inr ()
      | Some l \<Rightarrow>
          bind_r (fail_if (lo_length l = 0) (InvalidConfig (LocationLengthZero chip_num))) (\<lambda>_.
            fail_if (checked_add (lo_start l) (lo_length l) = None)
              (InvalidConfig (LocationWraps chip_num))))"

text \<open>
  Where a plugin may stand. The first chip of the first set exists: a user plugin is looked at
  in the second set, after the first set passed the test for empty sets.
\<close>

definition check_plugin_place ::
  "config \<Rightarrow> family \<Rightarrow> nat \<Rightarrow> nat \<Rightarrow> chip_type \<Rightarrow> (config_error, unit) result" where
  "check_plugin_place config mcu_family set_id chip_num ct =
     bind_r (fail_if (ct_is_plugin ct \<and> mcu_family = Stm32f4) (InvalidConfig (PluginOnIce chip_num))) (\<lambda>_.
     bind_r (fail_if (is_type ct ''SystemPlugin'' \<and> set_id \<noteq> 0) (InvalidConfig SystemPluginNotFirst)) (\<lambda>_.
       if is_type ct ''UserPlugin'' then
         (if set_id \<noteq> 1 then Inl (InvalidConfig UserPluginNotSecond)
          else fail_if (\<not> is_type (cc_chip_type (st_chips (cf_chip_sets config ! 0) ! 0)) ''SystemPlugin'')
            (InvalidConfig UserPluginWithoutSystem))
       else Inr ()))"

definition check_chip ::
  "firmware_version \<Rightarrow> config \<Rightarrow> string list \<Rightarrow> family \<Rightarrow> nat \<Rightarrow> chip_set_config \<Rightarrow> bool \<Rightarrow> nat \<Rightarrow>
     chip_config \<Rightarrow> (config_error, unit) result" where
  "check_chip version config supported mcu_family set_id st stand chip_num chip =
     (let ct = cc_chip_type chip; chip0 = st_chips st ! 0 in
      bind_r (check_supported version supported mcu_family ct) (\<lambda>_.
      bind_r (if cc_plugin chip \<noteq> None then check_named_plugin chip chip_num else Inr ()) (\<lambda>_.
      let file_optional = (case chip_function_of ct of
          FunRam \<Rightarrow> True | FunRom \<Rightarrow> stand | FunPlugin \<Rightarrow> cc_plugin chip \<noteq> None) in
      bind_r (fail_if (cc_file chip = [] \<and> \<not> file_optional) (InvalidConfig (FileNameEmpty chip_num))) (\<lambda>_.
      bind_r (fail_if (st_set_type st = Set_Banked \<and> ct_name ct \<noteq> ct_name (cc_chip_type chip0))
          (InvalidConfig (BankedTypesDiffer ct (cc_chip_type chip0)))) (\<lambda>_.
      bind_r (check_location (cc_location chip) chip_num) (\<lambda>_.
        check_plugin_place config mcu_family set_id chip_num ct))))))"

definition set_standby :: "chip_set_config \<Rightarrow> bool" where
  "set_standby st \<longleftrightarrow> (case st_overrides st of None \<Rightarrow> False | Some c \<Rightarrow> standby c)"

definition check_set ::
  "firmware_version \<Rightarrow> nat \<Rightarrow> chip_set_config \<Rightarrow> (config_error, unit) result" where
  "check_set version set_id st =
     (let n = length (st_chips st) in
      bind_r (fail_if (st_chips st = []) (NoChips set_id)) (\<lambda>_.
      bind_r (fail_if (st_overrides st \<noteq> None \<and> version < MIN_FIRMWARE_OVERRIDES_VERSION)
          (FirmwareTooOld ''firmware overrides'' version MIN_FIRMWARE_OVERRIDES_VERSION)) (\<lambda>_.
      bind_r (if 1 < n then
          bind_r (fail_if (st_set_type st = Set_Single) (TooManyChips set_id 1 n)) (\<lambda>_.
          bind_r (fail_if (3 < n \<and> st_set_type st = Set_Multi) (TooManyChips set_id 3 n)) (\<lambda>_.
            fail_if (st_set_type st = Set_Banked \<and> 4 < n) (TooManyChips set_id 4 n)))
        else Inr ()) (\<lambda>_.
        fail_if (set_standby st \<and>
            list_ex (\<lambda>c. cc_file c = []) (st_chips st) \<and> list_ex (\<lambda>c. cc_file c \<noteq> []) (st_chips st))
          (InvalidConfig (StandbyFilesMixed set_id))))))"

text \<open>
  The loop over the sets: the number of the next chip and the count of sets without a plugin
  are its mutable variables, the count its result.
\<close>

fun check_sets_loop ::
  "firmware_version \<Rightarrow> config \<Rightarrow> string list \<Rightarrow> family \<Rightarrow> nat \<Rightarrow> nat \<Rightarrow> nat \<Rightarrow> chip_set_config list \<Rightarrow>
     (config_error, nat) result" where
  "check_sets_loop version config supported mcu_family set_id chip_num slots [] = Inr slots"
| "check_sets_loop version config supported mcu_family set_id chip_num slots (st # sets) =
     bind_r (check_set version set_id st) (\<lambda>_.
     bind_r (each_r (\<lambda>(i, chip). check_chip version config supported mcu_family set_id st
         (set_standby st) (chip_num + i) chip) (enumerated (st_chips st))) (\<lambda>_.
       check_sets_loop version config supported mcu_family (Suc set_id)
         (chip_num + length (st_chips st))
         (if list_ex (\<lambda>c. ct_is_plugin (cc_chip_type c)) (st_chips st) then slots else slots + 1) sets))"

definition check_chip_sets ::
  "firmware_version \<Rightarrow> config \<Rightarrow> string list \<Rightarrow> family \<Rightarrow> (config_error, nat) result" where
  "check_chip_sets version config supported mcu_family =
     check_sets_loop version config supported mcu_family 0 0 0 (cf_chip_sets config)"

end
