(* ===== verification/Cs_Check.thy ===== *)
theory Cs_Check
  imports Gen_Config
begin

text \<open>
  The v2 validation of control lines (\<open>check_cs_v2\<close> in \<open>rust/gen/src/builder.rs\<close>), and what
  it promises the derivations: the configuration of an accepted set resolves, and every chip of
  an accepted multi set is selected by one and the same line.
\<close>

section \<open>One chip\<close>

definition find_line :: "chip_type \<Rightarrow> string \<Rightarrow> control_line option" where
  "find_line ct name = List.find (\<lambda>l. cl_name l = name) (ct_control_lines ct)"

definition has_line :: "chip_type \<Rightarrow> string \<Rightarrow> bool" where
  "has_line ct name \<longleftrightarrow> list_ex (\<lambda>l. cl_name l = name) (ct_control_lines ct)"

definition cs_values :: "chip_config \<Rightarrow> (string \<times> cs_logic option) list" where
  "cs_values chip = [(''cs1'', cc_cs1 chip), (''cs2'', cc_cs2 chip), (''cs3'', cc_cs3 chip), (''cs4'', cc_cs4 chip)]"

definition check_cs_value ::
  "chip_type \<Rightarrow> nat \<Rightarrow> nat \<Rightarrow> string \<times> cs_logic option \<Rightarrow> (config_error, unit) result" where
  "check_cs_value ct set_id chip_idx nu =
     (let (name, user) = nu;
          virtual_cs1 = requires_half_select_cs1 ct \<and> name = ''cs1''
      in
      case (find_line ct name, user) of
        (None, Some _) \<Rightarrow>
          if \<not> virtual_cs1 then Inl (InvalidConfig (LineNotOnChip name ct set_id chip_idx)) else Inr ()
      | (None, None) \<Rightarrow>
          if virtual_cs1 then Inl (InvalidConfig (HalfSelectMissing ct set_id chip_idx)) else Inr ()
      | (Some s, None) \<Rightarrow>
          if cl_type s = Configurable
          then Inl (InvalidConfig (ConfigurableMissing ct name set_id chip_idx)) else Inr ()
      | (Some s, Some logic) \<Rightarrow>
          if cl_type s \<noteq> Configurable \<and> logic \<noteq> CsIgnore
          then Inl (InvalidConfig (PolarityFixed name ct set_id chip_idx)) else Inr ())"

definition check_ignore ::
  "chip_config \<Rightarrow> bool \<Rightarrow> nat \<Rightarrow> nat \<Rightarrow> string \<Rightarrow> cs_logic \<Rightarrow> (config_error, unit) result" where
  "check_ignore chip is_multi_secondary set_id chip_idx line_name logic =
     (if logic \<noteq> CsIgnore then Inr ()
      else if is_multi_secondary then Inr ()
      else if (case find_line (cc_chip_type chip) line_name of None \<Rightarrow> False | Some l \<Rightarrow> cl_allow_ignore l)
      then Inr ()
      else if cc_allow_cs_ignore chip then Inr ()
      else Inl (InvalidConfig (IgnoreNotAllowed line_name (cc_chip_type chip) set_id chip_idx)))"

definition line_active :: "cs_logic option \<Rightarrow> bool" where
  "line_active l \<longleftrightarrow> (case l of None \<Rightarrow> False | Some l \<Rightarrow> l \<noteq> CsIgnore)"

definition check_cs_order :: "chip_config \<Rightarrow> nat \<Rightarrow> nat \<Rightarrow> (config_error, unit) result" where
  "check_cs_order chip set_id chip_idx =
     (let ct = cc_chip_type chip;
          a1 = line_active (cc_cs1 chip); a2 = line_active (cc_cs2 chip);
          a3 = line_active (cc_cs3 chip); a4 = line_active (cc_cs4 chip)
      in
      bind_r (fail_if (\<not> a1 \<and> (a2 \<or> a3 \<or> a4)) (InvalidConfig (CsOrder ''cs1'' ct set_id chip_idx))) (\<lambda>_.
      bind_r (fail_if (\<not> a2 \<and> (a3 \<or> a4)) (InvalidConfig (CsOrder ''cs2'' ct set_id chip_idx))) (\<lambda>_.
        fail_if (\<not> a3 \<and> a4) (InvalidConfig (CsOrder ''cs3'' ct set_id chip_idx)))))"

definition check_chip_cs ::
  "chip_set_type \<Rightarrow> nat \<Rightarrow> nat \<times> chip_config \<Rightarrow> (config_error, unit) result" where
  "check_chip_cs set_type set_id ic =
     (let (chip_idx, chip) = ic; ct = cc_chip_type chip in
      if ct_is_plugin ct then Inr ()
      else
        let secondary = (set_type = Set_Multi \<and> 0 < chip_idx);
            has_ce = has_line ct ''ce''; has_oe = has_line ct ''oe'';
            ce_logic = or_active_low (cc_ce chip); oe_logic = or_active_low (cc_oe chip)
        in
        bind_r (fail_if (cc_ce chip \<noteq> None \<and> \<not> has_ce)
            (InvalidConfig (LineNotOnChip ''ce'' ct set_id chip_idx))) (\<lambda>_.
        bind_r (fail_if (cc_oe chip \<noteq> None \<and> \<not> has_oe)
            (InvalidConfig (LineNotOnChip ''oe'' ct set_id chip_idx))) (\<lambda>_.
        bind_r (fail_if (has_ce \<and> has_oe \<and> ce_logic = CsIgnore \<and> oe_logic = CsIgnore)
            (InvalidConfig (BothCeOeIgnored ct set_id chip_idx))) (\<lambda>_.
        bind_r (each_r (check_cs_value ct set_id chip_idx) (cs_values chip)) (\<lambda>_.
        bind_r (each_r (\<lambda>(name, user). case user of None \<Rightarrow> Inr ()
              | Some logic \<Rightarrow> check_ignore chip secondary set_id chip_idx name logic) (cs_values chip)) (\<lambda>_.
        bind_r (if has_ce then check_ignore chip secondary set_id chip_idx ''ce'' ce_logic else Inr ()) (\<lambda>_.
        bind_r (if has_oe then check_ignore chip secondary set_id chip_idx ''oe'' oe_logic else Inr ()) (\<lambda>_.
          if \<not> has_ce \<and> \<not> has_oe \<and> \<not> secondary \<and> \<not> cc_allow_cs_ignore chip
          then check_cs_order chip set_id chip_idx else Inr ()))))))))"

section \<open>Multi and banked sets\<close>

definition is_control :: "string \<Rightarrow> bool" where
  "is_control name \<longleftrightarrow> name \<in> {''ce'', ''oe'', ''cs1'', ''cs2'', ''cs3'', ''cs4''}"

definition line_logic :: "chip_config \<Rightarrow> string \<Rightarrow> cs_logic" where
  "line_logic chip name =
     (if name = ''ce'' then or_active_low (cc_ce chip)
      else if name = ''oe'' then or_active_low (cc_oe chip)
      else if name = ''cs1'' then or_active_low (cc_cs1 chip)
      else if name = ''cs2'' then or_active_low (cc_cs2 chip)
      else if name = ''cs3'' then or_active_low (cc_cs3 chip)
      else if name = ''cs4'' then or_active_low (cc_cs4 chip)
      else ActiveLow)"

definition control_names :: "chip_config \<Rightarrow> string list" where
  "control_names chip = filter is_control (map cl_name (ct_control_lines (cc_chip_type chip)))"

definition active_names :: "chip_config \<Rightarrow> string list" where
  "active_names chip = filter (\<lambda>n. line_logic chip n \<noteq> CsIgnore) (control_names chip)"

text \<open>One secondary; the value is the line it is selected by.\<close>

definition check_secondary ::
  "chip_config \<Rightarrow> nat \<Rightarrow> nat \<Rightarrow> string option \<Rightarrow> chip_config \<Rightarrow> (config_error, string) result" where
  "check_secondary chip0 set_id idx set_select chip =
     (let ct = cc_chip_type chip; active = active_names chip; universe = control_names chip0 in
      if length active \<noteq> 1
      then Inl (InvalidConfig (SecondarySelectCount ct set_id idx active))
      else
        let select = active ! 0 in
        bind_r (fail_if (select \<notin> set universe)
            (InvalidConfig (SelectNotOnPrimary ct set_id idx select (cc_chip_type chip0)))) (\<lambda>_.
        bind_r (case List.find (\<lambda>u. u \<notin> set (control_names chip)) universe of
              Some missing \<Rightarrow>
                Inl (InvalidConfig (SecondaryLacksLine ct set_id idx missing (cc_chip_type chip0)))
            | None \<Rightarrow> Inr ()) (\<lambda>_.
        case set_select of
          None \<Rightarrow> Inr select
        | Some earlier \<Rightarrow>
            if earlier \<noteq> select then Inl (InvalidConfig (SelectsDiffer ct set_id idx select earlier))
            else Inr earlier)))"

fun check_secondaries ::
  "chip_config \<Rightarrow> nat \<Rightarrow> nat \<Rightarrow> string option \<Rightarrow> chip_config list \<Rightarrow> (config_error, string option) result" where
  "check_secondaries chip0 set_id idx set_select [] = Inr set_select"
| "check_secondaries chip0 set_id idx set_select (chip # chips) =
     bind_r (check_secondary chip0 set_id idx set_select chip) (\<lambda>select.
       check_secondaries chip0 set_id (Suc idx) (Some select) chips)"

definition check_multi :: "nat \<Rightarrow> chip_config list \<Rightarrow> (config_error, unit) result" where
  "check_multi set_id chips =
     bind_r (check_secondaries (chips ! 0) set_id 1 None (drop 1 chips)) (\<lambda>set_select.
       case set_select of
         None \<Rightarrow> Inr ()
       | Some select \<Rightarrow> fail_if (line_logic (chips ! 0) select = CsIgnore)
           (InvalidConfig (PrimaryIgnoresSelect (cc_chip_type (chips ! 0)) set_id select)))"

definition cs_primary_polarity :: "chip_config \<Rightarrow> cs_logic option" where
  "cs_primary_polarity chip =
     (if has_line (cc_chip_type chip) ''ce'' then
        let ce = or_active_low (cc_ce chip); oe = or_active_low (cc_oe chip)
        in if ce \<noteq> CsIgnore then Some ce else Some oe
      else cc_cs1 chip)"

definition check_banked :: "chip_config list \<Rightarrow> (config_error, unit) result" where
  "check_banked chips =
     (let primary = cs_primary_polarity (chips ! 0) in
      each_r (\<lambda>chip. fail_if (cs_primary_polarity chip \<noteq> primary)
          (InconsistentCsLogic (or_active_low primary) (or_active_low (cs_primary_polarity chip))))
        (drop 1 chips))"

definition check_set_cs :: "nat \<times> chip_set_config \<Rightarrow> (config_error, unit) result" where
  "check_set_cs indexed =
     (let (set_id, st) = indexed; chips = st_chips st in
      if list_all (\<lambda>c. ct_is_plugin (cc_chip_type c)) chips then Inr ()
      else
        bind_r (each_r (check_chip_cs (st_set_type st) set_id) (enumerated chips)) (\<lambda>_.
        bind_r (if st_set_type st = Set_Multi \<and> 2 \<le> length chips
                then check_multi set_id chips else Inr ()) (\<lambda>_.
          if st_set_type st = Set_Banked \<and> 1 < length chips then check_banked chips else Inr ())))"

definition check_cs_v2 :: "config \<Rightarrow> (config_error, unit) result" where
  "check_cs_v2 config = each_r check_set_cs (enumerated (cf_chip_sets config))"

section \<open>What an accepted chip resolves to\<close>

text \<open>The control-line configuration \<open>chip_sets_with\<close> gives a chip.\<close>

definition chip_cs_config :: "chip_config \<Rightarrow> cs_config option" where
  "chip_cs_config chip = from_chip_type (cc_chip_type chip) (cc_cs1 chip) (cc_cs2 chip) (cc_cs3 chip)
     (cc_cs4 chip) (cc_ce chip) (cc_oe chip)"

text \<open>
  What the chip-type table guarantees of every type: distinct line names, CE and OE together, CS
  lines numbered from CS1. A type may have both CE/OE and CS lines (the 23C1001).
\<close>

definition lines_ok :: "chip_type \<Rightarrow> bool" where
  "lines_ok ct \<longleftrightarrow> distinct (map cl_name (ct_control_lines ct)) \<and>
     has_line ct ''ce'' = has_line ct ''oe'' \<and>
     (has_line ct ''cs2'' \<or> has_line ct ''cs3'' \<or> has_line ct ''cs4'' \<longrightarrow> has_line ct ''cs1'')"

lemma has_line_iff: "has_line ct name \<longleftrightarrow> find_line ct name \<noteq> None"
  by (auto simp: has_line_def find_line_def find_None_iff list_ex_iff)

lemma has_line_mem: "n \<in> set (control_names chip) \<longleftrightarrow> has_line (cc_chip_type chip) n \<and> is_control n"
  by (auto simp: control_names_def has_line_def list_ex_iff)

lemma resolve_line_find:
  "resolve_line ct name user =
     (case find_line ct name of
        None \<Rightarrow> user
      | Some l \<Rightarrow> (case fixed_active_level (cl_type l) of
          None \<Rightarrow> user
        | Some high \<Rightarrow> Some (if user = Some CsIgnore then CsIgnore
            else if high then ActiveHigh else ActiveLow)))"
  by (simp add: resolve_line_def find_line_def)

text \<open>The logic the configuration means: the stated or default one, fixed CS polarities applied.\<close>

definition intended_logic :: "chip_config \<Rightarrow> string \<Rightarrow> cs_logic" where
  "intended_logic chip n =
     (if n = ''ce'' \<or> n = ''oe'' \<or> line_logic chip n = CsIgnore then line_logic chip n
      else case find_line (cc_chip_type chip) n of
             None \<Rightarrow> line_logic chip n
           | Some l \<Rightarrow> (case fixed_active_level (cl_type l) of
               None \<Rightarrow> line_logic chip n
             | Some high \<Rightarrow> if high then ActiveHigh else ActiveLow))"

text \<open>
  A stated CE or OE level takes precedence over the CS lines (\<open>from_chip_type\<close>): on a type that has
  both, the levels of the CS lines are then not kept. CS1 reads as CE (as OE, if CE is
  ignored), CS2 as the other of the two, and CS3 and CS4 as active low.
\<close>

definition level_kept :: "chip_config \<Rightarrow> string \<Rightarrow> bool" where
  "level_kept chip n \<longleftrightarrow> n = ''ce'' \<or> n = ''oe'' \<or> cc_ce chip = None \<and> cc_oe chip = None"

definition dropped_logic :: "chip_config \<Rightarrow> string \<Rightarrow> cs_logic" where
  "dropped_logic chip n =
     (let (first, second) = (if line_logic chip ''ce'' = CsIgnore then (''oe'', ''ce'') else (''ce'', ''oe''))
      in if n = ''cs1'' then line_logic chip first
         else if n = ''cs2'' then line_logic chip second else ActiveLow)"

lemma intended_ignore: "intended_logic chip n = CsIgnore \<longleftrightarrow> line_logic chip n = CsIgnore"
  by (auto simp: intended_logic_def split: option.splits)

lemma check_chip_cs_facts:
  assumes "check_chip_cs set_type set_id (i, chip) = Inr ()" "\<not> ct_is_plugin (cc_chip_type chip)"
  shows "cc_ce chip \<noteq> None \<longrightarrow> has_line (cc_chip_type chip) ''ce''"
    "cc_oe chip \<noteq> None \<longrightarrow> has_line (cc_chip_type chip) ''oe''"
    "(name, user) \<in> set (cs_values chip) \<Longrightarrow> check_cs_value (cc_chip_type chip) set_id i (name, user) = Inr ()"
  using assms by (auto simp: check_chip_cs_def Let_def bind_r_Inr_iff each_r_Inr_iff)

text \<open>A CS line of an accepted chip is stated, unless the silicon fixes it.\<close>

lemma check_cs_value_line:
  assumes "check_cs_value ct set_id i (name, user) = Inr ()" "find_line ct name = Some l"
  shows "fixed_active_level (cl_type l) = None \<Longrightarrow> user \<noteq> None"
  using assms by (cases "cl_type l") (auto simp: check_cs_value_def Let_def split: option.splits if_splits)

lemma check_cs_value_stated:
  assumes "check_cs_value ct set_id i (name, Some logic) = Inr ()" "name \<noteq> ''cs1''"
  shows "has_line ct name"
  using assms by (auto simp: check_cs_value_def has_line_iff Let_def split: option.splits if_splits)

lemma cs_config_new_Some:
  "a \<noteq> None \<or> b = None \<and> c = None \<and> d = None \<Longrightarrow> \<exists>cfg. cs_config_new a b c d = Some cfg"
  by (cases a) (simp_all add: cs_config_new_def)

lemma cs_config_new_ChipSelect:
  "cs_config_new a b c d = Some cfg \<Longrightarrow> a \<noteq> None \<or> b \<noteq> None \<or> c \<noteq> None \<or> d \<noteq> None \<Longrightarrow>
     \<exists>c1. cfg = ChipSelect c1 b c d \<and> a = Some c1"
  by (cases a) (auto simp: cs_config_new_def split: if_splits)

lemma cs_config_new_ce_oe:
  "cs_config_new a b c d = Some cfg \<Longrightarrow>
     control_line_logic ''ce'' cfg = ActiveLow \<and> control_line_logic ''oe'' cfg = ActiveLow"
  by (auto simp: cs_config_new_def control_line_logic_def split: if_splits)

lemma new_with_ce_oe_logic:
  "control_line_logic ''ce'' (new_with_ce_oe ce oe) = or_active_low ce"
  "control_line_logic ''oe'' (new_with_ce_oe ce oe) = or_active_low oe"
  by (simp_all add: new_with_ce_oe_def Let_def control_line_logic_def or_active_low_def)

lemma chip_cs_config_cases:
  assumes "chip_cs_config chip = Some cfg"
  obtains (stated) "cc_ce chip \<noteq> None \<or> cc_oe chip \<noteq> None" "cfg = new_with_ce_oe (cc_ce chip) (cc_oe chip)"
  | (lines) "cc_ce chip = None" "cc_oe chip = None"
      "cs_config_new (resolve_line (cc_chip_type chip) ''cs1'' (cc_cs1 chip))
         (resolve_line (cc_chip_type chip) ''cs2'' (cc_cs2 chip))
         (resolve_line (cc_chip_type chip) ''cs3'' (cc_cs3 chip))
         (resolve_line (cc_chip_type chip) ''cs4'' (cc_cs4 chip)) = Some cfg"
proof (cases "cc_ce chip \<noteq> None \<or> cc_oe chip \<noteq> None")
  case True
  then show ?thesis using assms stated unfolding chip_cs_config_def from_chip_type_def by (simp only: if_True option.inject)
next
  case False
  then have n: "cc_ce chip = None" "cc_oe chip = None" by simp_all
  from assms show ?thesis by (intro lines [OF n]) (simp add: chip_cs_config_def from_chip_type_def n)
qed

lemma ChipSelect_logic:
  "control_line_logic ''cs1'' (ChipSelect a b c d) = a"
  "control_line_logic ''cs2'' (ChipSelect a b c d) = or_active_low b"
  "control_line_logic ''cs3'' (ChipSelect a b c d) = or_active_low c"
  "control_line_logic ''cs4'' (ChipSelect a b c d) = or_active_low d"
  "or_active_low (Some l) = l"
  by (simp_all add: control_line_logic_def or_active_low_def)

lemma chip_resolves:
  assumes "check_chip_cs set_type set_id (i, chip) = Inr ()" "\<not> ct_is_plugin (cc_chip_type chip)"
    "lines_ok (cc_chip_type chip)"
  shows "\<exists>cfg. chip_cs_config chip = Some cfg"
proof (cases "cc_ce chip \<noteq> None \<or> cc_oe chip \<noteq> None")
  case True
  then show ?thesis unfolding chip_cs_config_def from_chip_type_def by (simp only: if_True) blast
next
  case False
  let ?ct = "cc_chip_type chip"
  note accepted = check_chip_cs_facts(3) [OF assms(1,2)]
  have needs_cs1: "resolve_line ?ct name user = None \<or> has_line ?ct name"
    if n: "(name, user) \<in> set (cs_values chip)" "name \<noteq> ''cs1''" for name user
  proof (cases user)
    case None
    then show ?thesis by (cases "find_line ?ct name") (simp_all add: resolve_line_find has_line_iff)
  next
    case (Some logic)
    then show ?thesis using check_cs_value_stated accepted [OF n(1)] n(2) by blast
  qed
  have cs1: "resolve_line ?ct ''cs1'' (cc_cs1 chip) \<noteq> None" if line: "has_line ?ct ''cs1''"
  proof -
    obtain l where l: "find_line ?ct ''cs1'' = Some l" using line by (auto simp: has_line_iff)
    have "check_cs_value ?ct set_id i (''cs1'', cc_cs1 chip) = Inr ()"
      by (rule accepted) (simp add: cs_values_def)
    from check_cs_value_line [OF this l] show ?thesis
      by (cases "fixed_active_level (cl_type l)") (simp_all add: resolve_line_find l)
  qed
  have "resolve_line ?ct ''cs2'' (cc_cs2 chip) = None \<or> has_line ?ct ''cs2''"
    "resolve_line ?ct ''cs3'' (cc_cs3 chip) = None \<or> has_line ?ct ''cs3''"
    "resolve_line ?ct ''cs4'' (cc_cs4 chip) = None \<or> has_line ?ct ''cs4''"
    by (rule needs_cs1; simp add: cs_values_def)+
  then have "resolve_line ?ct ''cs1'' (cc_cs1 chip) \<noteq> None \<or>
      resolve_line ?ct ''cs2'' (cc_cs2 chip) = None \<and> resolve_line ?ct ''cs3'' (cc_cs3 chip) = None \<and>
      resolve_line ?ct ''cs4'' (cc_cs4 chip) = None"
    using cs1 assms(3) unfolding lines_ok_def by blast
  from cs_config_new_Some [OF this] show ?thesis
    using False unfolding chip_cs_config_def from_chip_type_def by (simp only: if_False)
qed

lemma ce_oe_logic:
  assumes "chip_cs_config chip = Some cfg" "n = ''ce'' \<or> n = ''oe''"
  shows "control_line_logic n cfg = line_logic chip n"
  using assms(1)
proof (cases rule: chip_cs_config_cases)
  case stated
  then show ?thesis using assms(2) by (auto simp: new_with_ce_oe_logic line_logic_def)
next
  case lines
  then show ?thesis using assms(2) cs_config_new_ce_oe [OF lines(3)]
    by (auto simp: line_logic_def or_active_low_def)
qed

lemma cs_line_logic:
  assumes ok: "check_chip_cs set_type set_id (i, chip) = Inr ()" "\<not> ct_is_plugin (cc_chip_type chip)"
    "chip_cs_config chip = Some cfg"
    and v: "(n, user) \<in> set (cs_values chip)" "has_line (cc_chip_type chip) n"
    and none: "cc_ce chip = None" "cc_oe chip = None"
  shows "control_line_logic n cfg = intended_logic chip n"
proof -
  let ?ct = "cc_chip_type chip"
  obtain l where l: "find_line ?ct n = Some l" using v(2) by (auto simp: has_line_iff)
  have user: "fixed_active_level (cl_type l) = None \<Longrightarrow> user \<noteq> None"
    by (rule check_cs_value_line [OF check_chip_cs_facts(3) [OF ok(1,2) v(1)] l])
  have n: "line_logic chip n = or_active_low user" "n \<noteq> ''ce''" "n \<noteq> ''oe''"
    using v(1) by (auto simp: cs_values_def line_logic_def)
  have r: "resolve_line ?ct n user = Some (intended_logic chip n)"
  proof (cases user)
    case None
    then obtain high where "fixed_active_level (cl_type l) = Some high" using user by fastforce
    then show ?thesis by (simp add: resolve_line_find intended_logic_def l n None or_active_low_def)
  next
    case (Some logic)
    then show ?thesis
      by (cases "fixed_active_level (cl_type l)")
        (simp_all add: resolve_line_find intended_logic_def l n or_active_low_def)
  qed
  have names: "(n, user) = (''cs1'', cc_cs1 chip) \<or> (n, user) = (''cs2'', cc_cs2 chip) \<or>
      (n, user) = (''cs3'', cc_cs3 chip) \<or> (n, user) = (''cs4'', cc_cs4 chip)"
    using v(1) by (simp add: cs_values_def)
  have "cs_config_new (resolve_line ?ct ''cs1'' (cc_cs1 chip)) (resolve_line ?ct ''cs2'' (cc_cs2 chip))
      (resolve_line ?ct ''cs3'' (cc_cs3 chip)) (resolve_line ?ct ''cs4'' (cc_cs4 chip)) = Some cfg"
    using ok(3) by (cases rule: chip_cs_config_cases) (use none in simp_all)
  from cs_config_new_ChipSelect [OF this] obtain c1 where
    "cfg = ChipSelect c1 (resolve_line ?ct ''cs2'' (cc_cs2 chip))
      (resolve_line ?ct ''cs3'' (cc_cs3 chip)) (resolve_line ?ct ''cs4'' (cc_cs4 chip))"
    "resolve_line ?ct ''cs1'' (cc_cs1 chip) = Some c1"
    using r names by auto
  with names r show ?thesis by (elim disjE) (simp_all add: ChipSelect_logic)
qed

lemma chip_logic:
  assumes "check_chip_cs set_type set_id (i, chip) = Inr ()" "\<not> ct_is_plugin (cc_chip_type chip)"
    "chip_cs_config chip = Some cfg" "n \<in> set (control_names chip)" "level_kept chip n"
  shows "control_line_logic n cfg = intended_logic chip n"
proof (cases "n = ''ce'' \<or> n = ''oe''")
  case True
  then show ?thesis unfolding ce_oe_logic [OF assms(3) True] by (auto simp: intended_logic_def)
next
  case False
  then obtain user where "(n, user) \<in> set (cs_values chip)"
    using assms(4) by (auto simp: has_line_mem is_control_def cs_values_def)
  then show ?thesis
    using cs_line_logic [OF assms(1-3)] assms(4,5) False by (auto simp: has_line_mem level_kept_def)
qed

lemma chip_logic_dropped:
  assumes "chip_cs_config chip = Some cfg" "is_control n" "\<not> level_kept chip n"
  shows "control_line_logic n cfg = dropped_logic chip n"
  using assms(1)
proof (cases rule: chip_cs_config_cases)
  case stated
  then show ?thesis
    using assms(2,3)
    by (auto simp: level_kept_def is_control_def dropped_logic_def new_with_ce_oe_def control_line_logic_def
        line_logic_def or_active_low_def Let_def)
next
  case lines
  then show ?thesis using assms(3) by (simp add: level_kept_def)
qed


section \<open>What an accepted multi set gives the derivations\<close>

lemma check_secondary_Inr:
  assumes "check_secondary chip0 set_id idx sel chip = Inr s"
  shows "active_names chip = [s] \<and> s \<in> set (control_names chip0) \<and>
    set (control_names chip0) \<subseteq> set (control_names chip) \<and> (sel = None \<or> sel = Some s)"
proof -
  have l: "length (active_names chip) = 1"
    using assms by (auto simp: check_secondary_def Let_def split: if_splits)
  then obtain a where a: "active_names chip = [a]" by (auto simp: length_Suc_conv)
  show ?thesis
    using assms unfolding check_secondary_def Let_def
    by (auto simp: a bind_r_Inr_iff find_None_iff split: option.splits if_splits)
qed

lemma check_secondaries_Inr:
  assumes "check_secondaries chip0 set_id idx sel chips = Inr r" "c \<in> set chips"
  shows "\<exists>s. r = Some s \<and> active_names c = [s] \<and> s \<in> set (control_names chip0) \<and>
    set (control_names chip0) \<subseteq> set (control_names c)"
proof -
  have keep: "check_secondaries chip0 set_id idx (Some s) chips = Inr r \<Longrightarrow> r = Some s" for idx s chips
    by (induction chips arbitrary: idx s) (auto simp: bind_r_Inr_iff dest!: check_secondary_Inr)
  show ?thesis using assms
  proof (induction chips arbitrary: idx sel)
    case (Cons a chips)
    then obtain s where s: "check_secondary chip0 set_id idx sel a = Inr s"
      and rest: "check_secondaries chip0 set_id (Suc idx) (Some s) chips = Inr r"
      by (auto simp: bind_r_Inr_iff)
    then show ?case using Cons check_secondary_Inr [OF s] keep [OF rest] by auto
  qed simp
qed

lemma named_lines_control: "named_lines (cc_chip_type chip) = control_names chip"
  unfolding named_lines_def control_names_def
  by (rule filter_cong) (auto simp: name_to_control_line_kind_def is_control_def)

lemma distinct_control_names: "lines_ok (cc_chip_type chip) \<Longrightarrow> distinct (control_names chip)"
  by (simp add: control_names_def lines_ok_def)

lemma filter_eq_single:
  "distinct xs \<Longrightarrow> a \<in> set xs \<Longrightarrow> (\<And>x. x \<in> set xs \<Longrightarrow> P x \<longleftrightarrow> x = a) \<Longrightarrow> filter P xs = [a]"
proof (induction xs)
  case (Cons x xs)
  show ?case
  proof (cases "x = a")
    case True
    then have "filter P xs = []" using Cons.prems by (auto simp: filter_empty_conv)
    then show ?thesis using Cons.prems(3) [of x] True by simp
  next
    case False
    then show ?thesis using Cons by auto
  qed
qed simp

definition chips_ok :: "chip_config list \<Rightarrow> bool" where
  "chips_ok chips \<longleftrightarrow>
     list_all (\<lambda>c. \<not> ct_is_plugin (cc_chip_type c) \<and> lines_ok (cc_chip_type c)) chips"

lemma check_set_cs_chip:
  assumes "check_set_cs (set_id, st) = Inr ()" "i < length (st_chips st)"
    "\<not> ct_is_plugin (cc_chip_type (st_chips st ! i))"
  shows "check_chip_cs (st_set_type st) set_id (i, st_chips st ! i) = Inr ()"
proof -
  have "\<not> list_all (\<lambda>c. ct_is_plugin (cc_chip_type c)) (st_chips st)"
    using assms(2,3) by (auto simp: list_all_length)
  then show ?thesis
    using assms(1,2) by (auto simp: check_set_cs_def Let_def bind_r_Inr_iff each_r_Inr_iff set_enumerated)
qed

lemma multi_set_select:
  assumes "check_set_cs (set_id, st) = Inr ()" "st_set_type st = Set_Multi" "2 \<le> length (st_chips st)"
    "\<not> ct_is_plugin (cc_chip_type (st_chips st ! 0))"
  shows "\<exists>s. line_logic (st_chips st ! 0) s \<noteq> CsIgnore \<and> s \<in> set (control_names (st_chips st ! 0)) \<and>
    (\<forall>c \<in> set (drop 1 (st_chips st)). active_names c = [s] \<and>
      set (control_names (st_chips st ! 0)) \<subseteq> set (control_names c))"
proof -
  have "\<not> list_all (\<lambda>c. ct_is_plugin (cc_chip_type c)) (st_chips st)"
    using assms(3,4) by (auto simp: list_all_length intro!: exI [of _ 0])
  then have "check_multi set_id (st_chips st) = Inr ()"
    using assms(1-3) by (auto simp: check_set_cs_def Let_def bind_r_Inr_iff)
  then obtain r where r: "check_secondaries (st_chips st ! 0) set_id 1 None (drop 1 (st_chips st)) = Inr r"
    and s: "\<And>s. r = Some s \<Longrightarrow> line_logic (st_chips st ! 0) s \<noteq> CsIgnore"
    by (auto simp: check_multi_def bind_r_Inr_iff split: option.splits)
  note all = check_secondaries_Inr [OF r]
  have "st_chips st ! 1 \<in> set (drop 1 (st_chips st))"
    using assms(3) by (cases "st_chips st"; cases "tl (st_chips st)") auto
  from all [OF this] obtain s0 where "r = Some s0" "s0 \<in> set (control_names (st_chips st ! 0))" by blast
  then show ?thesis using all s by blast
qed

text \<open>A line that is active in the configuration is active in what it resolves to, on some control line.\<close>

lemma check_chip_cs_select:
  assumes "check_chip_cs set_type set_id (i, chip) = Inr ()" "\<not> ct_is_plugin (cc_chip_type chip)"
    "has_line (cc_chip_type chip) ''ce''" "has_line (cc_chip_type chip) ''oe''"
  shows "line_logic chip ''ce'' \<noteq> CsIgnore \<or> line_logic chip ''oe'' \<noteq> CsIgnore"
  using assms by (auto simp: check_chip_cs_def Let_def bind_r_Inr_iff line_logic_def)

lemma sole_line_active:
  assumes "check_chip_cs set_type set_id (i, chip) = Inr ()" "\<not> ct_is_plugin (cc_chip_type chip)"
    "lines_ok (cc_chip_type chip)" "chip_cs_config chip = Some cfg" "active_names chip = [s]"
  shows "control_line_logic s cfg \<noteq> CsIgnore"
proof -
  have "s \<in> set (active_names chip)" using assms(5) by simp
  then have s: "s \<in> set (control_names chip)" "line_logic chip s \<noteq> CsIgnore" by (simp_all add: active_names_def)
  have "level_kept chip s"
  proof (rule ccontr)
    assume lost: "\<not> level_kept chip s"
    then have "has_line (cc_chip_type chip) ''ce''" "has_line (cc_chip_type chip) ''oe''"
      using check_chip_cs_facts(1,2) [OF assms(1,2)] assms(3) by (auto simp: level_kept_def lines_ok_def)
    moreover from this have "''ce'' \<in> set (control_names chip)" "''oe'' \<in> set (control_names chip)"
      by (simp_all add: has_line_mem is_control_def)
    moreover have "set (active_names chip) = {s}" using assms(5) by simp
    then have "line_logic chip n = CsIgnore" if "n \<in> set (control_names chip)" "n \<noteq> s" for n
      using that by (auto simp: active_names_def)
    ultimately show False
      using check_chip_cs_select [OF assms(1,2)] lost by (metis level_kept_def)
  qed
  then show ?thesis using chip_logic [OF assms(1,2,4) s(1)] s(2) intended_ignore by simp
qed

lemma derive_multi_Some:
  assumes "s \<in> set (named_lines ct)" "control_line_logic s c1 \<noteq> CsIgnore"
  shows "\<exists>m. derive_multi_cs_config ct c0 c1 = Some m"
proof (cases "length (named_lines ct) = 1")
  case True
  then have "hd (named_lines ct) \<in> set (named_lines ct)" by (intro hd_in_set) auto
  then have "name_to_control_line_kind (hd (named_lines ct)) \<noteq> None" by (simp add: named_lines_def)
  then show ?thesis using True by (auto simp: derive_multi_cs_config_def Let_def)
next
  case False
  have "filter (\<lambda>n. control_line_logic n c1 \<noteq> CsIgnore)
      (filter (\<lambda>n. name_to_control_line_kind n \<noteq> None) (named_lines ct)) \<noteq> []"
    using assms by (auto simp: filter_empty_conv named_lines_def)
  then have "fst (split_lines c0 c1 (named_lines ct) (None, [], [])) \<noteq> None"
    unfolding split_lines_filters Let_def by (simp only: fst_conv if_False) simp
  then show ?thesis
    using False by (auto simp: derive_multi_cs_config_def Let_def split: prod.splits)
qed

text \<open>The partition, where the select the checks found is also the one active in what is resolved.\<close>

lemma multi_partition:
  assumes "s \<in> set ns" "distinct ns" "ns = named_lines ct"
    and log0: "\<And>n. n \<in> set ns \<Longrightarrow> control_line_logic n cfg0 = CsIgnore \<longleftrightarrow> l0 n = CsIgnore"
    and log1: "\<And>n. n \<in> set ns \<Longrightarrow> control_line_logic n cfg1 = CsIgnore \<longleftrightarrow> n \<noteq> s"
    and "l0 s \<noteq> CsIgnore" "derive_multi_cs_config ct cfg0 cfg1 = Some m"
  shows "kind_name (per_chip_select m) = s \<and>
    map kind_name (commoned_lines m) = filter (\<lambda>n. n \<noteq> s \<and> l0 n \<noteq> CsIgnore) ns \<and>
    map kind_name (ignored_lines m) = filter (\<lambda>n. l0 n = CsIgnore) ns"
proof -
  have active: "filter (\<lambda>n. control_line_logic n cfg1 \<noteq> CsIgnore) ns = [s]"
    by (rule filter_eq_single [OF assms(2,1)]) (simp add: log1)
  have one: "ns = [s]" if "length ns = 1" using that assms(1) by (cases ns) auto
  have m: "kind_name (per_chip_select m) = s"
    and lines: "length ns \<noteq> 1 \<Longrightarrow>
      map kind_name (commoned_lines m) = filter (\<lambda>n. control_line_logic n cfg1 = CsIgnore \<and>
        control_line_logic n cfg0 \<noteq> CsIgnore) ns \<and>
      map kind_name (ignored_lines m) = filter (\<lambda>n. control_line_logic n cfg1 = CsIgnore \<and>
        control_line_logic n cfg0 = CsIgnore) ns"
    using multi_cs_partition [of ct cfg1 s cfg0] active one assms(3,7) by auto
  show ?thesis
  proof (cases "length ns = 1")
    case True
    then have "commoned_lines m = [] \<and> ignored_lines m = []"
      using assms(3,7) unfolding derive_multi_cs_config_def by (auto simp: Let_def)
    then show ?thesis using one [OF True] assms(6) m by simp
  next
    case False
    have "filter (\<lambda>n. control_line_logic n cfg1 = CsIgnore \<and> control_line_logic n cfg0 \<noteq> CsIgnore) ns =
        filter (\<lambda>n. n \<noteq> s \<and> l0 n \<noteq> CsIgnore) ns"
      using log0 log1 by (intro filter_cong) simp_all
    moreover have "filter (\<lambda>n. control_line_logic n cfg1 = CsIgnore \<and> control_line_logic n cfg0 = CsIgnore) ns =
        filter (\<lambda>n. l0 n = CsIgnore) ns"
    proof (intro filter_cong refl)
      fix n assume n: "n \<in> set ns"
      show "(control_line_logic n cfg1 = CsIgnore \<and> control_line_logic n cfg0 = CsIgnore) = (l0 n = CsIgnore)"
        unfolding log0 [OF n] log1 [OF n] using assms(6) by blast
    qed
    ultimately show ?thesis using lines [OF False] m by simp
  qed
qed

lemma multi_set_derives:
  assumes "check_set_cs (set_id, st) = Inr ()" "st_set_type st = Set_Multi" "2 \<le> length (st_chips st)"
    "chips_ok (st_chips st)"
  shows "\<exists>cfg0 cfg1 m s. chip_cs_config (st_chips st ! 0) = Some cfg0 \<and>
    chip_cs_config (st_chips st ! 1) = Some cfg1 \<and>
    derive_multi_cs_config (cc_chip_type (st_chips st ! 0)) cfg0 cfg1 = Some m \<and>
    line_logic (st_chips st ! 0) s \<noteq> CsIgnore \<and>
    (\<forall>c \<in> set (drop 1 (st_chips st)). active_names c = [s]) \<and>
    ((\<forall>c \<in> {st_chips st ! 0, st_chips st ! 1}. \<forall>n \<in> set (control_names c). level_kept c n) \<longrightarrow>
      kind_name (per_chip_select m) = s \<and>
      map kind_name (commoned_lines m) = filter (\<lambda>n. n \<noteq> s \<and>
        line_logic (st_chips st ! 0) n \<noteq> CsIgnore) (control_names (st_chips st ! 0)) \<and>
      map kind_name (ignored_lines m) = filter (\<lambda>n. line_logic (st_chips st ! 0) n = CsIgnore)
        (control_names (st_chips st ! 0)))"
proof -
  let ?c0 = "st_chips st ! 0" and ?c1 = "st_chips st ! 1"
  let ?ns = "control_names ?c0"
  have ok: "\<not> ct_is_plugin (cc_chip_type (st_chips st ! i))" "lines_ok (cc_chip_type (st_chips st ! i))"
    if "i < length (st_chips st)" for i
    using assms(4) that by (auto simp: chips_ok_def list_all_length)
  have l: "0 < length (st_chips st)" "1 < length (st_chips st)" using assms(3) by linarith+
  note acc = check_set_cs_chip [OF assms(1)]
  note a0 = acc [OF l(1) ok(1) [OF l(1)]] ok(1) [OF l(1)] and a1 = acc [OF l(2) ok(1) [OF l(2)]] ok(1) [OF l(2)]
  obtain cfg0 where cfg0: "chip_cs_config ?c0 = Some cfg0" using chip_resolves [OF a0 ok(2) [OF l(1)]] by blast
  obtain cfg1 where cfg1: "chip_cs_config ?c1 = Some cfg1" using chip_resolves [OF a1 ok(2) [OF l(2)]] by blast
  obtain s where s: "line_logic ?c0 s \<noteq> CsIgnore" "s \<in> set ?ns"
    and sec: "\<And>c. c \<in> set (drop 1 (st_chips st)) \<Longrightarrow> active_names c = [s] \<and> set ?ns \<subseteq> set (control_names c)"
    using multi_set_select [OF assms(1-3) ok(1) [OF l(1)]] by blast
  have "?c1 \<in> set (drop 1 (st_chips st))"
    using assms(3) by (cases "st_chips st"; cases "tl (st_chips st)") auto
  note sec1 = sec [OF this]
  obtain m where m: "derive_multi_cs_config (cc_chip_type ?c0) cfg0 cfg1 = Some m"
    using derive_multi_Some [of s "cc_chip_type ?c0" cfg1 cfg0] s(2)
      sole_line_active [OF a1 ok(2) [OF l(2)] cfg1] sec1 by (auto simp: named_lines_control)
  have part: "kind_name (per_chip_select m) = s \<and>
      map kind_name (commoned_lines m) = filter (\<lambda>n. n \<noteq> s \<and> line_logic ?c0 n \<noteq> CsIgnore) ?ns \<and>
      map kind_name (ignored_lines m) = filter (\<lambda>n. line_logic ?c0 n = CsIgnore) ?ns"
    if kept: "\<forall>c \<in> {?c0, ?c1}. \<forall>n \<in> set (control_names c). level_kept c n"
  proof (rule multi_partition [where ?l0.0 = "line_logic ?c0", OF s(2) distinct_control_names [OF ok(2) [OF l(1)]] named_lines_control [of ?c0, symmetric] _ _ s(1) m])
    fix n assume n: "n \<in> set ?ns"
    then show "control_line_logic n cfg0 = CsIgnore \<longleftrightarrow> line_logic ?c0 n = CsIgnore"
      using chip_logic [OF a0 cfg0 n] kept intended_ignore by simp
    have n1: "n \<in> set (control_names ?c1)" using sec1 n by blast
    have "control_line_logic n cfg1 = CsIgnore \<longleftrightarrow> n \<notin> set (active_names ?c1)"
      using chip_logic [OF a1 cfg1 n1] kept intended_ignore n1 by (simp add: active_names_def)
    then show "control_line_logic n cfg1 = CsIgnore \<longleftrightarrow> n \<noteq> s" using sec1 by simp
  qed
  show ?thesis
    by (intro exI conjI) (use cfg0 cfg1 m s(1) sec part in auto)
qed

text \<open>
  C37: an accepted multi set is one the derivation can serve. The set's chips resolve, and
  deriving the split of the control lines from the primary and the first secondary does not
  panic. There is one line the primary does not ignore and on which alone every secondary is
  active; if the first two chips keep their levels (which all do but a 23C1001 with a stated CE or
  OE level) that line is the per-chip select, and the primary's other lines are commoned or ignored
  exactly as its configuration uses or ignores them.
\<close>

theorem accepted_multi_set:
  assumes "check_set_cs (set_id, st) = Inr ()" "st_set_type st = Set_Multi" "2 \<le> length (st_chips st)"
    "chips_ok (st_chips st)"
  shows "\<exists>cfg0 cfg1 m s. chip_cs_config (st_chips st ! 0) = Some cfg0 \<and>
    chip_cs_config (st_chips st ! 1) = Some cfg1 \<and>
    derive_multi_cs_config (cc_chip_type (st_chips st ! 0)) cfg0 cfg1 = Some m \<and>
    line_logic (st_chips st ! 0) s \<noteq> CsIgnore \<and>
    (\<forall>c \<in> set (drop 1 (st_chips st)). active_names c = [s]) \<and>
    ((\<forall>c \<in> {st_chips st ! 0, st_chips st ! 1}. \<forall>n \<in> set (control_names c). level_kept c n) \<longrightarrow>
      kind_name (per_chip_select m) = s \<and>
      map kind_name (commoned_lines m) = filter (\<lambda>n. n \<noteq> s \<and>
        line_logic (st_chips st ! 0) n \<noteq> CsIgnore) (control_names (st_chips st ! 0)) \<and>
      map kind_name (ignored_lines m) = filter (\<lambda>n. line_logic (st_chips st ! 0) n = CsIgnore)
        (control_names (st_chips st ! 0)))"
  by (rule multi_set_derives [OF assms])

section \<open>Concrete sets\<close>

definition multi_primary :: chip_config where
  "multi_primary = (chip_config_new (lit ''a.bin'') three_cs_chip (lit ''23128''))
     \<lparr>cc_cs1 := Some ActiveLow, cc_cs3 := Some CsIgnore, cc_allow_cs_ignore := True\<rparr>"

definition multi_secondary :: chip_config where
  "multi_secondary = (chip_config_new (lit ''b.bin'') three_cs_chip (lit ''23128''))
     \<lparr>cc_cs1 := Some ActiveHigh, cc_cs2 := Some CsIgnore, cc_cs3 := Some CsIgnore\<rparr>"

definition multi_set :: chip_set_config where
  "multi_set = \<lparr>st_set_type = Set_Multi, st_chips = [multi_primary, multi_secondary],
     st_serve_alg = None, st_overrides = None\<rparr>"

lemma not_half_select: "ct_num_addr_lines ct \<le> 19 \<Longrightarrow> \<not> requires_half_select_cs1 ct"
  by (simp add: requires_half_select_cs1_def num_excess_addr_lines_def ilog2_MAX_IMAGE_SIZE)

lemma primary_fields:
  "cc_chip_type multi_primary = three_cs_chip" "cc_cs1 multi_primary = Some ActiveLow"
  "cc_cs2 multi_primary = None" "cc_cs3 multi_primary = Some CsIgnore" "cc_cs4 multi_primary = None"
  "cc_ce multi_primary = None" "cc_oe multi_primary = None" "cc_allow_cs_ignore multi_primary"
  by (simp_all add: multi_primary_def chip_config_new_def)

lemma secondary_fields:
  "cc_chip_type multi_secondary = three_cs_chip" "cc_cs1 multi_secondary = Some ActiveHigh"
  "cc_cs2 multi_secondary = Some CsIgnore" "cc_cs3 multi_secondary = Some CsIgnore" "cc_cs4 multi_secondary = None"
  "cc_ce multi_secondary = None" "cc_oe multi_secondary = None" "\<not> cc_allow_cs_ignore multi_secondary"
  by (simp_all add: multi_secondary_def chip_config_new_def)

lemma three_cs_lines:
  "find_line three_cs_chip ''cs1'' = Some \<lparr>cl_name = ''cs1'', cl_pin = 20, cl_type = Configurable, cl_allow_ignore = False\<rparr>"
  "find_line three_cs_chip ''cs2'' = Some \<lparr>cl_name = ''cs2'', cl_pin = 22, cl_type = FixedActiveHigh, cl_allow_ignore = False\<rparr>"
  "find_line three_cs_chip ''cs3'' = Some \<lparr>cl_name = ''cs3'', cl_pin = 27, cl_type = Configurable, cl_allow_ignore = False\<rparr>"
  "find_line three_cs_chip ''cs4'' = None" "find_line three_cs_chip ''ce'' = None" "find_line three_cs_chip ''oe'' = None"
  "map cl_name (ct_control_lines three_cs_chip) = [''cs1'', ''cs2'', ''cs3'']"
  "\<not> ct_is_plugin three_cs_chip" "\<not> requires_half_select_cs1 three_cs_chip"
  by (simp_all add: find_line_def three_cs_chip_def not_half_select)

lemmas multi_fields = primary_fields secondary_fields three_cs_lines

lemma multi_names:
  "control_names multi_primary = [''cs1'', ''cs2'', ''cs3'']" "control_names multi_secondary = [''cs1'', ''cs2'', ''cs3'']"
  by (simp_all add: control_names_def multi_fields is_control_def)

lemma multi_logic:
  "line_logic multi_primary ''cs1'' = ActiveLow" "line_logic multi_primary ''cs2'' = ActiveLow"
  "line_logic multi_primary ''cs3'' = CsIgnore" "line_logic multi_secondary ''cs1'' = ActiveHigh"
  "line_logic multi_secondary ''cs2'' = CsIgnore" "line_logic multi_secondary ''cs3'' = CsIgnore"
  by (simp_all add: line_logic_def multi_fields or_active_low_def)

lemma multi_set_accepted: "check_set_cs (0, multi_set) = Inr ()"
proof -
  have "check_chip_cs Set_Multi 0 (0, multi_primary) = Inr ()"
    by (simp add: check_chip_cs_def multi_fields has_line_iff check_cs_value_def cs_values_def
        check_ignore_def fail_if_def Let_def)
  moreover have "check_chip_cs Set_Multi 0 (1, multi_secondary) = Inr ()"
    by (simp add: check_chip_cs_def multi_fields has_line_iff check_cs_value_def cs_values_def
        check_ignore_def fail_if_def Let_def)
  moreover have "check_multi 0 [multi_primary, multi_secondary] = Inr ()"
    by (simp add: check_multi_def check_secondary_def multi_names active_names_def multi_logic fail_if_def Let_def)
  ultimately show ?thesis
    by (simp add: check_set_cs_def multi_set_def enumerated_def multi_fields Let_def)
qed

lemma three_cs_lines_ok: "lines_ok three_cs_chip"
  by (simp add: lines_ok_def three_cs_lines has_line_iff)


theorem accepted_multi_set_witness:
  "\<exists>cfg0 cfg1 m. chip_cs_config multi_primary = Some cfg0 \<and> chip_cs_config multi_secondary = Some cfg1 \<and>
    derive_multi_cs_config three_cs_chip cfg0 cfg1 = Some m \<and>
    kind_name (per_chip_select m) = ''cs1'' \<and> map kind_name (commoned_lines m) = [''cs2''] \<and>
    map kind_name (ignored_lines m) = [''cs3'']"
proof -
  have a: "active_names multi_secondary = [''cs1'']" by (simp add: active_names_def multi_names multi_logic)
  have ok: "chips_ok (st_chips multi_set)"
    by (simp add: multi_set_def chips_ok_def multi_fields three_cs_lines_ok)
  have kept: "\<forall>c \<in> {multi_primary, multi_secondary}. \<forall>n \<in> set (control_names c). level_kept c n"
    by (simp add: level_kept_def multi_fields)
  have two: "st_set_type multi_set = Set_Multi" "2 \<le> length (st_chips multi_set)"
    "st_chips multi_set ! 0 = multi_primary" "st_chips multi_set ! 1 = multi_secondary"
    "drop 1 (st_chips multi_set) = [multi_secondary]"
    by (simp_all add: multi_set_def)
  obtain cfg0 cfg1 m s where c: "chip_cs_config multi_primary = Some cfg0" "chip_cs_config multi_secondary = Some cfg1"
    "derive_multi_cs_config three_cs_chip cfg0 cfg1 = Some m" "active_names multi_secondary = [s]"
    and p: "kind_name (per_chip_select m) = s"
      "map kind_name (commoned_lines m) = filter (\<lambda>n. n \<noteq> s \<and> line_logic multi_primary n \<noteq> CsIgnore)
        (control_names multi_primary)"
      "map kind_name (ignored_lines m) = filter (\<lambda>n. line_logic multi_primary n = CsIgnore)
        (control_names multi_primary)"
    using accepted_multi_set [OF multi_set_accepted two(1,2) ok] kept
    unfolding two(3-5) multi_fields(1) by auto
  have "s = ''cs1''" using a c(4) by simp
  then show ?thesis
    using c p by (intro exI [of _ cfg0] exI [of _ cfg1] exI [of _ m]) (simp add: multi_names multi_logic)
qed

section \<open>A polarity that is lost\<close>

text \<open>
  Stating a CE or OE level discards the CS lines. On a chip type whose CS1 selects the
  half that is served (the 27C080) a configuration with CS1 and the default CE level stated is
  accepted, but resolves to plain CE/OE control: the half-select then reads active low, whatever
  CS1 says. Without the CE statement CS1 keeps its level.
\<close>

theorem half_select_polarity_lost:
  assumes "requires_half_select_cs1 (cc_chip_type chip)" "\<not> ct_is_plugin (cc_chip_type chip)"
    "has_line (cc_chip_type chip) ''ce''" "has_line (cc_chip_type chip) ''oe''" "lines_ok (cc_chip_type chip)"
    "\<not> has_line (cc_chip_type chip) ''cs1''" "cc_cs1 chip = Some level" "level \<noteq> CsIgnore" "cc_cs2 chip = None" "cc_cs3 chip = None" "cc_cs4 chip = None"
    "cc_ce chip = Some ActiveLow" "cc_oe chip = None"
  shows "check_chip_cs set_type set_id (i, chip) = Inr () \<and> chip_cs_config chip = Some CeOe \<and>
    cs1_logic CeOe = Some ActiveLow \<and>
    check_chip_cs set_type set_id (i, chip\<lparr>cc_ce := None\<rparr>) = Inr () \<and>
    chip_cs_config (chip\<lparr>cc_ce := None\<rparr>) = Some (ChipSelect level None None None) \<and>
    cs1_logic (ChipSelect level None None None) = Some level"
proof -
  have n: "find_line (cc_chip_type chip) ''cs1'' = None" "find_line (cc_chip_type chip) ''cs2'' = None"
    "find_line (cc_chip_type chip) ''cs3'' = None" "find_line (cc_chip_type chip) ''cs4'' = None"
    using assms(5,6) by (auto simp: lines_ok_def has_line_iff)
  have c: "check_chip_cs set_type set_id (i, chip\<lparr>cc_ce := ce\<rparr>) = Inr ()" if "ce = None \<or> ce = Some ActiveLow" for ce
    using assms that n
    by (auto simp: check_chip_cs_def cs_values_def check_cs_value_def check_ignore_def fail_if_def
        or_active_low_def Let_def)
  have "chip\<lparr>cc_ce := Some ActiveLow\<rparr> = chip" using assms(12) by simp
  then have "check_chip_cs set_type set_id (i, chip) = Inr ()"
    using c [of "Some ActiveLow"] by simp
  then show ?thesis
    using c [of None] assms n
    by (simp add: chip_cs_config_def from_chip_type_def new_with_ce_oe_def cs_config_new_def resolve_line_find)
qed

definition chip_27c080 :: chip_type where
  "chip_27c080 = \<lparr>ct_name = ''27C080'', ct_chip_pins = 32, ct_num_addr_lines = 20,
     ct_address_pins = [12, 11, 10, 9, 8, 7, 6, 5, 27, 26, 23, 25, 4, 28, 29, 3, 2, 30, 31, 1],
     ct_data_pins = [13, 14, 15, 17, 18, 19, 20, 21],
     ct_control_lines = [\<lparr>cl_name = ''ce'', cl_pin = 22, cl_type = FixedActiveLow, cl_allow_ignore = False\<rparr>,
       \<lparr>cl_name = ''oe'', cl_pin = 24, cl_type = FixedActiveLow, cl_allow_ignore = False\<rparr>],
     ct_size_bytes = 1048576, ct_deselect_all_high = None, ct_is_ram = False, ct_is_plugin = False,
     ct_bit_modes = [8], ct_rbcp_type = 16, ct_min_fw = Some (FirmwareVersion 0 6 8 0)\<rparr>"

theorem half_select_polarity_lost_witness:
  "let chip = (chip_config_new (lit ''upper.bin'') chip_27c080 (lit ''27C080''))
       \<lparr>cc_cs1 := Some ActiveHigh, cc_ce := Some ActiveLow\<rparr>
   in check_chip_cs Set_Single 0 (0, chip) = Inr () \<and> chip_cs_config chip = Some CeOe"
proof -
  let ?chip = "(chip_config_new (lit ''upper.bin'') chip_27c080 (lit ''27C080''))
    \<lparr>cc_cs1 := Some ActiveHigh, cc_ce := Some ActiveLow\<rparr>"
  have t: "cc_chip_type ?chip = chip_27c080" "cc_cs1 ?chip = Some ActiveHigh" "cc_cs2 ?chip = None"
    "cc_cs3 ?chip = None" "cc_cs4 ?chip = None" "cc_ce ?chip = Some ActiveLow" "cc_oe ?chip = None"
    by (simp_all add: chip_config_new_def)
  have "requires_half_select_cs1 chip_27c080"
    by (simp add: requires_half_select_cs1_def num_excess_addr_lines_def ilog2_MAX_IMAGE_SIZE chip_27c080_def)
  moreover have "\<not> ct_is_plugin chip_27c080" "has_line chip_27c080 ''ce''" "has_line chip_27c080 ''oe''"
    "lines_ok chip_27c080" "\<not> has_line chip_27c080 ''cs1''"
    by (simp_all add: chip_27c080_def has_line_def lines_ok_def)
  ultimately show ?thesis
    using half_select_polarity_lost [of ?chip ActiveHigh Set_Single 0 0] unfolding t Let_def by simp
qed

section \<open>A type with both kinds of line\<close>

text \<open>
  The 23C1001 has CE, OE, CS1 and CS2. Its CS levels must be stated, and are dropped once a CE or
  OE level is: a chip with CE stated and CS1 active high is accepted and reads CS1 active low.
\<close>

definition chip_23c1001 :: chip_type where
  "chip_23c1001 = \<lparr>ct_name = ''23C1001'', ct_chip_pins = 32, ct_num_addr_lines = 17,
     ct_address_pins = [12, 11, 10, 9, 8, 7, 6, 5, 27, 26, 23, 25, 4, 28, 29, 3, 2],
     ct_data_pins = [13, 14, 15, 17, 18, 19, 20, 21],
     ct_control_lines = [\<lparr>cl_name = ''ce'', cl_pin = 22, cl_type = FixedActiveLow, cl_allow_ignore = False\<rparr>,
       \<lparr>cl_name = ''cs1'', cl_pin = 31, cl_type = Configurable, cl_allow_ignore = True\<rparr>,
       \<lparr>cl_name = ''cs2'', cl_pin = 30, cl_type = Configurable, cl_allow_ignore = True\<rparr>,
       \<lparr>cl_name = ''oe'', cl_pin = 24, cl_type = FixedActiveLow, cl_allow_ignore = False\<rparr>],
     ct_size_bytes = 131072, ct_deselect_all_high = None, ct_is_ram = False, ct_is_plugin = False,
     ct_bit_modes = [8], ct_rbcp_type = 32, ct_min_fw = Some (FirmwareVersion 0 7 0 0)\<rparr>"

lemma mixed_lines:
  "find_line chip_23c1001 ''ce'' = Some \<lparr>cl_name = ''ce'', cl_pin = 22, cl_type = FixedActiveLow, cl_allow_ignore = False\<rparr>"
  "find_line chip_23c1001 ''oe'' = Some \<lparr>cl_name = ''oe'', cl_pin = 24, cl_type = FixedActiveLow, cl_allow_ignore = False\<rparr>"
  "find_line chip_23c1001 ''cs1'' = Some \<lparr>cl_name = ''cs1'', cl_pin = 31, cl_type = Configurable, cl_allow_ignore = True\<rparr>"
  "find_line chip_23c1001 ''cs2'' = Some \<lparr>cl_name = ''cs2'', cl_pin = 30, cl_type = Configurable, cl_allow_ignore = True\<rparr>"
  "find_line chip_23c1001 ''cs3'' = None" "find_line chip_23c1001 ''cs4'' = None"
  "map cl_name (ct_control_lines chip_23c1001) = [''ce'', ''cs1'', ''cs2'', ''oe'']"
  "\<not> ct_is_plugin chip_23c1001" "\<not> requires_half_select_cs1 chip_23c1001"
  by (simp_all add: find_line_def chip_23c1001_def not_half_select)

lemma mixed_lines_ok: "lines_ok chip_23c1001"
  by (simp add: lines_ok_def mixed_lines has_line_iff)

definition mixed_chip :: chip_config where
  "mixed_chip = (chip_config_new (lit ''a.bin'') chip_23c1001 (lit ''23C1001''))
     \<lparr>cc_cs1 := Some ActiveHigh, cc_cs2 := Some CsIgnore, cc_ce := Some ActiveLow\<rparr>"

lemma mixed_fields:
  "cc_chip_type mixed_chip = chip_23c1001" "cc_cs1 mixed_chip = Some ActiveHigh"
  "cc_cs2 mixed_chip = Some CsIgnore" "cc_cs3 mixed_chip = None" "cc_cs4 mixed_chip = None"
  "cc_ce mixed_chip = Some ActiveLow" "cc_oe mixed_chip = None" "\<not> cc_allow_cs_ignore mixed_chip"
  by (simp_all add: mixed_chip_def chip_config_new_def)

theorem mixed_cs_levels_dropped:
  "check_chip_cs Set_Single 0 (0, mixed_chip) = Inr () \<and> chip_cs_config mixed_chip = Some CeOe \<and>
   intended_logic mixed_chip ''cs1'' = ActiveHigh \<and> control_line_logic ''cs1'' CeOe = ActiveLow"
proof (intro conjI)
  show "check_chip_cs Set_Single 0 (0, mixed_chip) = Inr ()"
    by (simp add: check_chip_cs_def mixed_fields mixed_lines has_line_iff check_cs_value_def cs_values_def
        check_ignore_def fail_if_def or_active_low_def Let_def)
  show "chip_cs_config mixed_chip = Some CeOe"
    by (simp add: chip_cs_config_def from_chip_type_def new_with_ce_oe_def mixed_fields)
  show "intended_logic mixed_chip ''cs1'' = ActiveHigh"
    by (simp add: intended_logic_def line_logic_def mixed_fields mixed_lines or_active_low_def)
qed (simp add: control_line_logic_def or_active_low_def)

text \<open>
  An accepted multi set of such chips, with secondaries selected by CE alone: the per-chip select
  derived is CS1, which the secondaries ignore.
\<close>

theorem mixed_multi_set_misselects:
  assumes "check_set_cs (set_id, st) = Inr ()" "st_set_type st = Set_Multi" "2 \<le> length (st_chips st)"
    "\<forall>c \<in> set (st_chips st). cc_chip_type c = chip_23c1001" "active_names (st_chips st ! 1) = [''ce'']"
  shows "\<exists>cfg0 cfg1 m. chip_cs_config (st_chips st ! 0) = Some cfg0 \<and>
    chip_cs_config (st_chips st ! 1) = Some cfg1 \<and>
    derive_multi_cs_config chip_23c1001 cfg0 cfg1 = Some m \<and> per_chip_select m = KindCs1 \<and>
    (\<forall>c \<in> set (drop 1 (st_chips st)). active_names c = [''ce''])"
proof -
  let ?c0 = "st_chips st ! 0" and ?c1 = "st_chips st ! 1"
  have ok: "chips_ok (st_chips st)" using assms(4) mixed_lines_ok by (auto simp: chips_ok_def list_all_iff mixed_lines)
  have l: "0 < length (st_chips st)" "1 < length (st_chips st)" using assms(3) by linarith+
  have t: "cc_chip_type ?c0 = chip_23c1001" "cc_chip_type ?c1 = chip_23c1001" using assms(4) l nth_mem by blast+
  have mem: "?c1 \<in> set (drop 1 (st_chips st))"
    using assms(3) by (cases "st_chips st"; cases "tl (st_chips st)") auto
  obtain cfg0 cfg1 m s where d: "chip_cs_config ?c0 = Some cfg0" "chip_cs_config ?c1 = Some cfg1"
    "derive_multi_cs_config chip_23c1001 cfg0 cfg1 = Some m" "\<forall>c \<in> set (drop 1 (st_chips st)). active_names c = [s]"
    using multi_set_derives [OF assms(1-3) ok] unfolding t(1) by blast
  have names: "control_names ?c1 = [''ce'', ''cs1'', ''cs2'', ''oe'']"
    unfolding control_names_def t mixed_lines by (simp add: is_control_def)
  have active: "filter (\<lambda>n. line_logic ?c1 n \<noteq> CsIgnore) [''ce'', ''cs1'', ''cs2'', ''oe''] = [''ce'']"
    using assms(5) unfolding active_names_def names .
  then have ce: "line_logic ?c1 ''ce'' \<noteq> CsIgnore" "line_logic ?c1 ''oe'' = CsIgnore"
    by (auto split: if_splits)
  then have lost: "\<not> level_kept ?c1 ''cs1''" "\<not> level_kept ?c1 ''cs2''"
    by (auto simp: level_kept_def line_logic_def or_active_low_def)
  have "control_line_logic ''cs1'' cfg1 \<noteq> CsIgnore" "control_line_logic ''cs2'' cfg1 = CsIgnore"
    "control_line_logic ''oe'' cfg1 = CsIgnore"
    using ce ce_oe_logic [OF d(2)] chip_logic_dropped [OF d(2) _ lost(1)] chip_logic_dropped [OF d(2) _ lost(2)]
    by (auto simp: is_control_def dropped_logic_def Let_def)
  moreover have "named_lines chip_23c1001 = [''ce'', ''cs1'', ''cs2'', ''oe'']"
    by (simp add: named_lines_def mixed_lines name_to_control_line_kind_def)
  ultimately have "per_chip_select m = KindCs1"
    using d(3)
    by (auto simp: derive_multi_cs_config_def name_to_control_line_kind_def Let_def split: if_splits)
  moreover have "s = ''ce''" using d(4) mem assms(5) by simp
  ultimately show ?thesis using d by blast
qed

end
