(* ===== verification/Gen_Validate.thy ===== *)
theory Gen_Validate
  imports Cs_Check
begin

text \<open>
  The checks a configuration passes before the builder holds it: \<open>check_cs_v1\<close>,
  \<open>validate_config_v1\<close>, \<open>validate_config_v2\<close> and the part of
  \<open>Builder::from_json_with_overrides\<close> behind the JSON parser, in \<open>rust/gen/src/builder.rs\<close>.
  What they promise is stated once, as the well-formedness \<open>config_ok\<close> of a configuration.
\<close>

section \<open>Control lines before 0.7.0\<close>

definition v1_line_value :: "chip_config \<Rightarrow> string \<Rightarrow> (config_error, cs_logic option) result" where
  "v1_line_value chip name =
     (if name = ''cs1'' then Inr (cc_cs1 chip)
      else if name = ''cs2'' then Inr (cc_cs2 chip)
      else if name = ''cs3'' then Inr (cc_cs3 chip)
      else if name \<in> {''ce'', ''oe''} then Inr (Some CsIgnore)
      else if name \<in> {''write'', ''byte'', ''busy''} then Inr (Some CsIgnore)
      else Inl (InvalidConfig (UnknownControlLine name)))"

definition v1_lines :: "(string \<times> (chip_config \<Rightarrow> cs_logic option)) list" where
  "v1_lines = [(''cs1'', cc_cs1), (''cs2'', cc_cs2), (''cs3'', cc_cs3)]"

text \<open>The two sets of line names, in the order the \<open>BTreeSet\<close> keeps them.\<close>

definition required_cs_lines :: "chip_type \<Rightarrow> string list" where
  "required_cs_lines ct =
     filter (\<lambda>n. has_line ct n \<or> n = ''cs1'' \<and> is_type ct ''27C080'') (map fst v1_lines)"

definition specified_cs_lines :: "chip_config \<Rightarrow> string list" where
  "specified_cs_lines chip = map fst (filter (\<lambda>(n, cs). cs chip \<noteq> None) v1_lines)"

definition check_chip_cs_v1 ::
  "chip_set_type \<Rightarrow> nat \<Rightarrow> nat \<times> chip_config \<Rightarrow> (config_error, unit) result" where
  "check_chip_cs_v1 set_type n ic =
     (let (chip_num, chip) = ic; ct = cc_chip_type chip;
          cs1_active = line_active (cc_cs1 chip); cs2_active = line_active (cc_cs2 chip);
          cs3_active = line_active (cc_cs3 chip);
          required = required_cs_lines ct; specified = specified_cs_lines chip
      in
      bind_r (each_r (\<lambda>l. bind_r (v1_line_value chip (cl_name l)) (\<lambda>cs.
          fail_if (cs = None) (MissingCsConfig ct (cl_name l)))) (ct_control_lines ct)) (\<lambda>_.
      bind_r (fail_if (cc_cs2 chip \<noteq> None \<and> \<not> has_line ct ''cs2'')
          (InvalidConfig (LineNotUsed ''cs2'' ct))) (\<lambda>_.
      bind_r (fail_if (cc_cs3 chip \<noteq> None \<and> \<not> has_line ct ''cs3'')
          (InvalidConfig (LineNotUsed ''cs3'' ct))) (\<lambda>_.
      bind_r (fail_if (\<not> cs1_active \<and> (cs2_active \<or> cs3_active)) (InvalidConfig Cs1Ignored)) (\<lambda>_.
      bind_r (fail_if (\<not> cs2_active \<and> cs3_active) (InvalidConfig Cs2Ignored)) (\<lambda>_.
      bind_r (fail_if (required \<noteq> specified) (InvalidConfig (CsLinesDiffer ct required specified))) (\<lambda>_.
      bind_r (each_r (\<lambda>(line, _). fail_if (line \<notin> set required \<and> line \<in> set specified)
          (InvalidConfig (LineNotUsed line ct))) v1_lines) (\<lambda>_.
        if n = 1 then
          each_r (\<lambda>(line, cs). fail_if (cs chip = Some CsIgnore)
            (InvalidConfig (IgnoredInSingleSet line chip_num))) v1_lines
        else fail_if (set_type = Set_Multi \<and> \<not> cs1_active)
          (InvalidConfig (Cs1IgnoredInMultiSet chip_num))))))))))"

definition same_cs :: "chip_config \<Rightarrow> chip_config \<Rightarrow> bool" where
  "same_cs a b \<longleftrightarrow> cc_cs1 a = cc_cs1 b \<and> cc_cs2 a = cc_cs2 b \<and> cc_cs3 a = cc_cs3 b"

definition check_same_cs_v1 :: "chip_set_type \<Rightarrow> chip_config list \<Rightarrow> (config_error, unit) result" where
  "check_same_cs_v1 set_type chips =
     each_r (\<lambda>(idx, rom).
         if \<not> same_cs rom (chips ! 0) then
           fail_if (\<not> (cc_cs2 rom \<noteq> cc_cs2 (chips ! 0) \<and> cc_cs2 rom = Some CsIgnore))
             (InvalidConfig (CsConfigsDiffer set_type idx (chips ! 0) rom))
         else Inr ())
       (drop 1 (enumerated chips))"

fun check_sets_cs_v1 :: "nat \<Rightarrow> chip_set_config list \<Rightarrow> (config_error, unit) result" where
  "check_sets_cs_v1 chip_num [] = Inr ()"
| "check_sets_cs_v1 chip_num (st # sets) =
     (let chips = st_chips st in
      bind_r (each_r (check_chip_cs_v1 (st_set_type st) (length chips))
          (map (\<lambda>(i, chip). (chip_num + i, chip)) (enumerated chips))) (\<lambda>_.
      bind_r (if (st_set_type st = Set_Multi \<or> st_set_type st = Set_Banked) \<and> 1 < length chips
              then check_same_cs_v1 (st_set_type st) chips else Inr ()) (\<lambda>_.
        check_sets_cs_v1 (chip_num + length chips) sets)))"

definition check_cs_v1 :: "config \<Rightarrow> (config_error, unit) result" where
  "check_cs_v1 config = check_sets_cs_v1 0 (cf_chip_sets config)"

section \<open>Whole configurations\<close>

definition MAX_UNIT_NAME_LEN :: nat where "MAX_UNIT_NAME_LEN = 31"
definition MAX_SERIAL_NUMBER_LEN :: nat where "MAX_SERIAL_NUMBER_LEN = 31"

definition MIN_FW_CHIP_TYPE_231024 :: firmware_version where
  "MIN_FW_CHIP_TYPE_231024 = FirmwareVersion 0 6 3 0"

definition validate_config_v1 ::
  "firmware_version \<Rightarrow> family \<Rightarrow> config \<Rightarrow> (config_error, unit) result" where
  "validate_config_v1 version mcu_family config =
     bind_r (validate_config_version config) (\<lambda>_.
     bind_r (validate_firmware_version version MIN_SUPPORTED_FIRMWARE_VERSION_V1
         MAX_SUPPORTED_FIRMWARE_VERSION_V1 UNSUPPORTED_FIRMWARE_VERSIONS_V1 ''pre-0.7.0 firmware'') (\<lambda>_.
     bind_r (fail_if (cf_version config \<noteq> 1) (UnsupportedConfigVersion (cf_version config))) (\<lambda>_.
     bind_r (each_r (\<lambda>u. fail_if (matches_release u version) (FirmwareUnsupported version))
         UNSUPPORTED_FIRMWARE_VERSIONS_V1) (\<lambda>_.
     bind_r (check_chip_sets version config SUPPORTED_CHIP_TYPES_V1 mcu_family) (\<lambda>_.
     bind_r (check_cs_v1 config) (\<lambda>_.
     bind_r (each_r (\<lambda>(set_id, st). each_r (\<lambda>(chip_idx, chip).
           bind_r (fail_if (cc_ce chip \<noteq> None) (InvalidConfig (CeOeUnsupported ''ce'' set_id chip_idx))) (\<lambda>_.
             fail_if (cc_oe chip \<noteq> None) (InvalidConfig (CeOeUnsupported ''oe'' set_id chip_idx))))
           (enumerated (st_chips st))) (enumerated (cf_chip_sets config))) (\<lambda>_.
     bind_r (if version < MIN_FW_CHIP_TYPE_231024
         then each_r (\<lambda>chip. fail_if (is_type (cc_chip_type chip) ''231024'')
             (FirmwareTooOld ''231024 ROMs'' version MIN_FW_CHIP_TYPE_231024)) (all_chips config)
         else Inr ()) (\<lambda>_.
     bind_r (fail_if (cf_instance_name config \<noteq> None) (InvalidConfig (FieldUnsupported ''instance_name''))) (\<lambda>_.
     bind_r (fail_if (cf_boot_logging config) (InvalidConfig (FieldUnsupported ''boot_logging''))) (\<lambda>_.
     bind_r (fail_if (cf_turbo_boot config) (InvalidConfig (FieldUnsupported ''turbo_boot''))) (\<lambda>_.
       fail_if (\<not> cf_swd_enabled config) (InvalidConfig (FieldUnsupported ''swd_enabled'')))))))))))))"

datatype config_warning = WarnTurboBootMultiSlot nat

text \<open>The checks of one set's overrides: no Ice section, PIO serving, the preload left on.\<close>

definition cpu_serving :: "firmware_config \<Rightarrow> bool" where
  "cpu_serving o' \<longleftrightarrow> Option.bind (fw_fire o') fi_serve_mode = Some ServeCpu"

definition check_overrides_v2 :: "firmware_config \<Rightarrow> (config_error, unit) result" where
  "check_overrides_v2 o' =
     bind_r (fail_if (fw_ice o' \<noteq> None) (InvalidConfig IceOverrides)) (\<lambda>_.
     case fw_fire o' of
       None \<Rightarrow> Inr ()
     | Some fire \<Rightarrow>
         bind_r (fail_if (fi_serve_mode fire = Some ServeCpu) (InvalidConfig CpuServing)) (\<lambda>_.
           fail_if (\<not> fi_rom_dma_preload fire) (InvalidConfig NoDmaPreload)))"

text \<open>The last argument is \<open>ConfigOverrides::turbo_boot_multi_slot\<close>.\<close>

definition validate_config_v2 ::
  "firmware_version \<Rightarrow> family \<Rightarrow> config \<Rightarrow> bool \<Rightarrow> (config_error, config_warning list) result" where
  "validate_config_v2 version mcu_family config allow_turbo =
     bind_r (fail_if (mcu_family \<noteq> Rp2350) (UnsupportedMcuFamily mcu_family version)) (\<lambda>_.
     bind_r (validate_config_version config) (\<lambda>_.
     bind_r (validate_firmware_version version MIN_SUPPORTED_FIRMWARE_VERSION_V2
         MAX_SUPPORTED_FIRMWARE_VERSION_V2 UNSUPPORTED_FIRMWARE_VERSIONS_V2 ''v0.7.0+ firmware'') (\<lambda>_.
     bind_r (case cf_instance_name config of None \<Rightarrow> Inr ()
         | Some name \<Rightarrow> fail_if (MAX_UNIT_NAME_LEN < str_len name)
             (InvalidConfig (InstanceNameTooLong (str_len name) MAX_UNIT_NAME_LEN))) (\<lambda>_.
     bind_r (case cf_serial_override config of None \<Rightarrow> Inr ()
         | Some serial \<Rightarrow> fail_if (MAX_SERIAL_NUMBER_LEN < str_len serial)
             (InvalidConfig (SerialTooLong (str_len serial) MAX_SERIAL_NUMBER_LEN))) (\<lambda>_.
     bind_r (check_chip_sets version config SUPPORTED_CHIP_TYPES_V2 Rp2350) (\<lambda>slots.
     bind_r (check_cs_v2 config) (\<lambda>_.
     bind_r (each_r (\<lambda>st. case st_overrides st of None \<Rightarrow> Inr ()
         | Some o' \<Rightarrow> fail_if (cpu_serving o') (InvalidConfig CpuServing)) (cf_chip_sets config)) (\<lambda>_.
     bind_r (each_r (\<lambda>st. case st_overrides st of None \<Rightarrow> Inr ()
         | Some o' \<Rightarrow> check_overrides_v2 o') (cf_chip_sets config)) (\<lambda>_.
       if cf_turbo_boot config \<and> 1 < slots
       then (if allow_turbo then Inr [WarnTurboBootMultiSlot slots] else Inl (TurboBootMultiSlot slots))
       else Inr [])))))))))"

section \<open>Building from a parsed configuration\<close>

definition MIN_RESERVED_PINS_VERSION :: firmware_version where
  "MIN_RESERVED_PINS_VERSION = FirmwareVersion 0 8 0 0"

text \<open>
  The generated test of the one-member bit field \<open>onerom_override_states_t\<close>: standby is stored
  as a state, zero where it is not set, and arrived in 0.8.0.
\<close>

definition first_member_newer_than ::
  "firmware_config \<Rightarrow> firmware_version \<Rightarrow> (string \<times> firmware_version) option" where
  "first_member_newer_than o' release =
     (let first = FirmwareVersion 0 8 0 0 in
      if build_override_states o' \<notin> {None, Some StateNotSet} \<and> release < first then Some (''standby'', first) else None)"

definition check_config ::
  "firmware_version \<Rightarrow> family \<Rightarrow> config \<Rightarrow> bool \<Rightarrow> (config_error, config_warning list) result" where
  "check_config version mcu_family config allow_turbo =
     bind_r (fail_if (version > MAX_SUPPORTED_FIRMWARE_VERSION_V2)
         (FirmwareTooNew version MAX_SUPPORTED_FIRMWARE_VERSION_V2)) (\<lambda>_.
     bind_r (fail_if (cf_reserved_pins config \<noteq> [] \<and> version < MIN_RESERVED_PINS_VERSION)
         (FirmwareTooOld ''reserved_pins'' version MIN_RESERVED_PINS_VERSION)) (\<lambda>_.
     bind_r (each_r (\<lambda>st. case st_overrides st of None \<Rightarrow> Inr ()
         | Some o' \<Rightarrow> (case first_member_newer_than o' version of None \<Rightarrow> Inr ()
             | Some (feat, minimum) \<Rightarrow> Inl (FirmwareTooOld feat version minimum)))
         (cf_chip_sets config)) (\<lambda>_.
       if version \<ge> MIN_SUPPORTED_FIRMWARE_VERSION_V2
       then validate_config_v2 version mcu_family config allow_turbo
       else bind_r (validate_config_v1 version mcu_family config) (\<lambda>_. Inr []))))"

section \<open>Well-formed configurations\<close>

definition fitting_size :: "chip_set_config \<Rightarrow> bool" where
  "fitting_size st \<longleftrightarrow> st_chips st \<noteq> [] \<and>
     (case st_set_type st of
        Set_Single \<Rightarrow> length (st_chips st) = 1
      | Set_Multi \<Rightarrow> length (st_chips st) \<le> 3
      | Set_Banked \<Rightarrow> length (st_chips st) \<le> 4 \<and>
          list_all (\<lambda>c. ct_name (cc_chip_type c) = ct_name (cc_chip_type (st_chips st ! 0))) (st_chips st))"

text \<open>A chip has a file unless it is RAM, a plugin referred to by name, or a ROM of a standby set.\<close>

definition file_ok :: "chip_set_config \<Rightarrow> chip_config \<Rightarrow> bool" where
  "file_ok st chip \<longleftrightarrow> cc_file chip \<noteq> [] \<or>
     (case chip_function_of (cc_chip_type chip) of
        FunRam \<Rightarrow> True | FunRom \<Rightarrow> set_standby st | FunPlugin \<Rightarrow> cc_plugin chip \<noteq> None)"

text \<open>A plugin referred to by name says nothing about a file.\<close>

definition plugin_ok :: "chip_config \<Rightarrow> bool" where
  "plugin_ok chip \<longleftrightarrow> cc_plugin chip = None \<or>
     (is_type (cc_chip_type chip) ''SystemPlugin'' \<or> is_type (cc_chip_type chip) ''UserPlugin'') \<and>
     cc_file chip = [] \<and> cc_extract chip = None \<and> cc_location chip = None \<and>
     cc_format chip = Binary \<and> cc_transform chip = []"

definition location_ok :: "chip_config \<Rightarrow> bool" where
  "location_ok chip \<longleftrightarrow>
     (case cc_location chip of None \<Rightarrow> True
      | Some l \<Rightarrow> 0 < lo_length l \<and> lo_start l + lo_length l \<le> usize_max)"

text \<open>Plugins are for Fire: the system plugin in the first set, a user plugin in the second behind it.\<close>

definition place_ok :: "config \<Rightarrow> family \<Rightarrow> nat \<Rightarrow> chip_type \<Rightarrow> bool" where
  "place_ok c mcu_family i ct \<longleftrightarrow>
     (ct_is_plugin ct \<longrightarrow> mcu_family = Rp2350) \<and>
     (is_type ct ''SystemPlugin'' \<longrightarrow> i = 0) \<and>
     (is_type ct ''UserPlugin'' \<longrightarrow> i = 1 \<and>
        is_type (cc_chip_type (st_chips (cf_chip_sets c ! 0) ! 0)) ''SystemPlugin'')"

definition supported_ok :: "firmware_version \<Rightarrow> string list \<Rightarrow> chip_type \<Rightarrow> bool" where
  "supported_ok version supported ct \<longleftrightarrow> ct_name ct \<in> set supported \<and>
     (\<exists>minimum. ct_min_fw ct = Some minimum \<and> minimum \<le> version)"

definition set_ok :: "firmware_version \<Rightarrow> config \<Rightarrow> string list \<Rightarrow> family \<Rightarrow> nat \<Rightarrow> chip_set_config \<Rightarrow> bool" where
  "set_ok version c supported mcu_family i st \<longleftrightarrow>
     fitting_size st \<and>
     (st_overrides st \<noteq> None \<longrightarrow> MIN_FIRMWARE_OVERRIDES_VERSION \<le> version) \<and>
     (set_standby st \<longrightarrow> list_all (\<lambda>chip. cc_file chip = []) (st_chips st) \<or>
        list_all (\<lambda>chip. cc_file chip \<noteq> []) (st_chips st)) \<and>
     list_all (\<lambda>chip. supported_ok version supported (cc_chip_type chip) \<and> file_ok st chip \<and>
       plugin_ok chip \<and> location_ok chip \<and> place_ok c mcu_family i (cc_chip_type chip)) (st_chips st)"

definition rom_sets :: "config \<Rightarrow> chip_set_config list" where
  "rom_sets c = filter (\<lambda>st. \<not> list_ex (\<lambda>chip. ct_is_plugin (cc_chip_type chip)) (st_chips st)) (cf_chip_sets c)"

lemma check_set_ok:
  assumes "check_set version i st = Inr ()"
  shows "st_chips st \<noteq> []"
    "1 < length (st_chips st) \<Longrightarrow> st_set_type st \<noteq> Set_Single"
    "st_set_type st = Set_Multi \<Longrightarrow> length (st_chips st) \<le> 3"
    "st_set_type st = Set_Banked \<Longrightarrow> length (st_chips st) \<le> 4"
    "st_overrides st \<noteq> None \<Longrightarrow> MIN_FIRMWARE_OVERRIDES_VERSION \<le> version"
    "set_standby st \<Longrightarrow> list_all (\<lambda>chip. cc_file chip = []) (st_chips st) \<or>
        list_all (\<lambda>chip. cc_file chip \<noteq> []) (st_chips st)"
proof -
  show "st_chips st \<noteq> []" "st_overrides st \<noteq> None \<Longrightarrow> MIN_FIRMWARE_OVERRIDES_VERSION \<le> version"
    "set_standby st \<Longrightarrow> list_all (\<lambda>chip. cc_file chip = []) (st_chips st) \<or>
        list_all (\<lambda>chip. cc_file chip \<noteq> []) (st_chips st)"
    using assms by (auto simp: check_set_def Let_def bind_r_Inr_iff list_ex_iff list_all_iff not_less)
  show "1 < length (st_chips st) \<Longrightarrow> st_set_type st \<noteq> Set_Single"
    using assms by (simp add: check_set_def Let_def bind_r_Inr_iff)
  show "st_set_type st = Set_Multi \<Longrightarrow> length (st_chips st) \<le> 3"
    "st_set_type st = Set_Banked \<Longrightarrow> length (st_chips st) \<le> 4"
    using assms by (auto simp: check_set_def Let_def bind_r_Inr_iff split: if_splits)
qed

lemma check_set_fitting:
  assumes "check_set version i st = Inr ()"
    "st_set_type st = Set_Banked \<Longrightarrow>
       list_all (\<lambda>c. ct_name (cc_chip_type c) = ct_name (cc_chip_type (st_chips st ! 0))) (st_chips st)"
  shows "fitting_size st"
proof -
  have "length (st_chips st) = 1" if "st_set_type st = Set_Single"
    using check_set_ok(1,2) [OF assms(1)] that by (cases "st_chips st") auto
  then show ?thesis
    using check_set_ok(1,3,4) [OF assms(1)] assms(2) by (simp add: fitting_size_def split: chip_set_type.splits)
qed

lemma check_named_plugin_ok: "check_named_plugin chip n = Inr () \<Longrightarrow> plugin_ok chip"
  by (auto simp: check_named_plugin_def plugin_ok_def Let_def split: if_splits)

lemma check_supported_ok: "check_supported version supported mcu_family ct = Inr () \<Longrightarrow> supported_ok version supported ct"
  by (auto simp: check_supported_def supported_ok_def not_less split: if_splits option.splits)

lemma check_location_ok: "check_location (cc_location chip) n = Inr () \<Longrightarrow> location_ok chip"
  by (auto simp: check_location_def location_ok_def bind_r_Inr_iff checked_add_def split: option.splits if_splits)

lemma check_plugin_place_ok: "check_plugin_place c mcu_family i n ct = Inr () \<Longrightarrow> place_ok c mcu_family i ct"
  by (cases mcu_family) (auto simp: check_plugin_place_def place_ok_def bind_r_Inr_iff split: if_splits)

lemma check_chip_ok:
  assumes "check_chip version c supported mcu_family i st (set_standby st) n chip = Inr ()"
  shows "supported_ok version supported (cc_chip_type chip)" "plugin_ok chip" "file_ok st chip"
    "location_ok chip" "place_ok c mcu_family i (cc_chip_type chip)"
    "st_set_type st = Set_Banked \<Longrightarrow> ct_name (cc_chip_type chip) = ct_name (cc_chip_type (st_chips st ! 0))"
proof -
  note facts = assms [unfolded check_chip_def Let_def bind_r_Inr_iff, simplified]
  show "supported_ok version supported (cc_chip_type chip)" "location_ok chip"
    "place_ok c mcu_family i (cc_chip_type chip)"
    using facts by (blast intro: check_supported_ok check_location_ok check_plugin_place_ok)+
  show "plugin_ok chip"
  proof (cases "cc_plugin chip")
    case None
    then show ?thesis by (simp add: plugin_ok_def)
  next
    case (Some p)
    with facts have "check_named_plugin chip n = Inr ()" by simp
    then show ?thesis by (rule check_named_plugin_ok)
  qed
  show "file_ok st chip" using facts by (auto simp: file_ok_def split: chip_function.splits)
  show "st_set_type st = Set_Banked \<Longrightarrow> ct_name (cc_chip_type chip) = ct_name (cc_chip_type (st_chips st ! 0))"
    using facts by auto
qed

lemma check_one_set:
  assumes "check_set version i st = Inr ()"
    "each_r (\<lambda>(j, chip). check_chip version c supported mcu_family i st (set_standby st) (n + j) chip)
       (enumerated (st_chips st)) = Inr ()"
  shows "set_ok version c supported mcu_family i st"
proof -
  have chip: "check_chip version c supported mcu_family i st (set_standby st) (n + j) (st_chips st ! j) = Inr ()"
    if "j < length (st_chips st)" for j
    using assms(2) that by (auto simp: each_r_Inr_iff dest!: bspec [of _ _ "(j, st_chips st ! j)"] simp: set_enumerated)
  have "list_all (\<lambda>chip. supported_ok version supported (cc_chip_type chip) \<and> file_ok st chip \<and>
       plugin_ok chip \<and> location_ok chip \<and> place_ok c mcu_family i (cc_chip_type chip)) (st_chips st)"
    using check_chip_ok(1-5) [OF chip] by (simp add: list_all_length)
  moreover have "fitting_size st"
    using check_chip_ok(6) [OF chip] by (intro check_set_fitting [OF assms(1)]) (simp add: list_all_length)
  ultimately show ?thesis
    using check_set_ok(5,6) [OF assms(1)] by (simp add: set_ok_def)
qed

lemma check_sets_loop_ok:
  "check_sets_loop version c supported mcu_family i n slots sets = Inr m \<Longrightarrow>
     m = slots + length (filter (\<lambda>st. \<not> list_ex (\<lambda>chip. ct_is_plugin (cc_chip_type chip)) (st_chips st)) sets) \<and>
     (\<forall>k<length sets. set_ok version c supported mcu_family (i + k) (sets ! k))"
proof (induction sets arbitrary: i n slots)
  case (Cons st sets)
  from Cons.prems have ok: "set_ok version c supported mcu_family i st"
    by (auto simp: bind_r_Inr_iff intro: check_one_set)
  from Cons.prems obtain slots' n' where
    rest: "check_sets_loop version c supported mcu_family (Suc i) n' slots' sets = Inr m" and
    slots': "slots' = (if list_ex (\<lambda>c. ct_is_plugin (cc_chip_type c)) (st_chips st) then slots else slots + 1)"
    by (auto simp: bind_r_Inr_iff)
  from Cons.IH [OF rest] ok slots' show ?case by (auto simp: nth_Cons split: nat.splits)
qed simp

lemma check_chip_sets_ok:
  assumes "check_chip_sets version c supported mcu_family = Inr m"
  shows "m = length (rom_sets c)"
    "i < length (cf_chip_sets c) \<Longrightarrow> set_ok version c supported mcu_family i (cf_chip_sets c ! i)"
  using check_sets_loop_ok [OF assms [unfolded check_chip_sets_def]] by (simp_all add: rom_sets_def)


definition override_list :: "config \<Rightarrow> firmware_config list" where
  "override_list c = concat (map (\<lambda>st. case st_overrides st of None \<Rightarrow> [] | Some o' \<Rightarrow> [o']) (cf_chip_sets c))"

definition override_ok_v2 :: "firmware_config \<Rightarrow> bool" where
  "override_ok_v2 o' \<longleftrightarrow> fw_ice o' = None \<and>
     (case fw_fire o' of None \<Rightarrow> True
      | Some fire \<Rightarrow> fi_serve_mode fire \<noteq> Some ServeCpu \<and> fi_rom_dma_preload fire)"

definition short_text :: "nat \<Rightarrow> ustr option \<Rightarrow> bool" where
  "short_text n s \<longleftrightarrow> (case s of None \<Rightarrow> True | Some t \<Rightarrow> str_len t \<le> n)"

definition sets_ok :: "firmware_version \<Rightarrow> config \<Rightarrow> string list \<Rightarrow> family \<Rightarrow> bool" where
  "sets_ok version c supported mcu_family \<longleftrightarrow>
     (\<forall>i<length (cf_chip_sets c). set_ok version c supported mcu_family i (cf_chip_sets c ! i))"

definition config_ok :: "firmware_version \<Rightarrow> family \<Rightarrow> config \<Rightarrow> bool" where
  "config_ok version mcu_family c \<longleftrightarrow>
     cf_version c = 1 \<and>
     (version < FirmwareVersion 0 8 0 0 \<longrightarrow> cf_reserved_pins c = [] \<and>
        list_all (\<lambda>o'. Option.bind (fw_fire o') fi_standby = None) (override_list c)) \<and>
     (if version < MIN_SUPPORTED_FIRMWARE_VERSION_V2 then
        MIN_SUPPORTED_FIRMWARE_VERSION_V1 \<le> version \<and> version \<le> MAX_SUPPORTED_FIRMWARE_VERSION_V1 \<and>
        \<not> matches_release (FirmwareVersion 0 6 3 0) version \<and>
        sets_ok version c SUPPORTED_CHIP_TYPES_V1 mcu_family \<and>
        list_all (\<lambda>chip. cc_ce chip = None \<and> cc_oe chip = None) (all_chips c) \<and>
        cf_instance_name c = None \<and> \<not> cf_boot_logging c \<and> \<not> cf_turbo_boot c \<and> cf_swd_enabled c
      else
        version \<le> MAX_SUPPORTED_FIRMWARE_VERSION_V2 \<and> mcu_family = Rp2350 \<and>
        sets_ok version c SUPPORTED_CHIP_TYPES_V2 mcu_family \<and>
        short_text MAX_UNIT_NAME_LEN (cf_instance_name c) \<and>
        short_text MAX_SERIAL_NUMBER_LEN (cf_serial_override c) \<and>
        list_all override_ok_v2 (override_list c))"

lemma each_override:
  "each_r (\<lambda>st. case st_overrides st of None \<Rightarrow> Inr () | Some o' \<Rightarrow> f o') (cf_chip_sets c) = Inr u \<longleftrightarrow>
     list_all (\<lambda>o'. f o' = Inr ()) (override_list c)"
  by (auto simp: each_r_Inr_iff override_list_def list_all_iff split: option.splits)

lemma override_state_NotSet: "override_state_of x = StateNotSet \<longleftrightarrow> x = None"
  by (cases x rule: override_state_of.cases) simp_all

lemma first_member_None:
  "first_member_newer_than o' version = None \<longleftrightarrow>
     (version < FirmwareVersion 0 8 0 0 \<longrightarrow> Option.bind (fw_fire o') fi_standby = None)"
  by (auto simp: first_member_newer_than_def Let_def build_override_states_def override_state_NotSet)

lemma check_overrides_v2_ok: "check_overrides_v2 o' = Inr () \<Longrightarrow> override_ok_v2 o'"
  by (auto simp: check_overrides_v2_def override_ok_v2_def bind_r_Inr_iff split: option.splits)

lemma validate_firmware_version_ok:
  "validate_firmware_version version lo hi unsupported feat = Inr () \<Longrightarrow> lo \<le> version \<and> version \<le> hi"
  by (auto simp: validate_firmware_version_def not_less split: if_splits)

lemma bind_r_ignore: "bind_r m (\<lambda>_. k) = Inr u \<longleftrightarrow> (\<exists>a. m = Inr a) \<and> k = Inr u"
  by (auto simp: bind_r_Inr_iff)

lemma bind_r_InrE: "bind_r m f = Inr u \<Longrightarrow> (\<And>a. m = Inr a \<Longrightarrow> f a = Inr u \<Longrightarrow> P) \<Longrightarrow> P"
  by (auto simp: bind_r_Inr_iff)

lemma ex_Inr_unit: "(\<exists>a :: unit. m = Inr a) \<longleftrightarrow> m = Inr ()"
  by simp

lemma validate_v2_cases:
  assumes "validate_config_v2 version mcu_family c allow = Inr w"
  obtains slots where "check_chip_sets version c SUPPORTED_CHIP_TYPES_V2 Rp2350 = Inr slots"
    "mcu_family = Rp2350" "validate_config_version c = Inr ()"
    "validate_firmware_version version MIN_SUPPORTED_FIRMWARE_VERSION_V2
       MAX_SUPPORTED_FIRMWARE_VERSION_V2 UNSUPPORTED_FIRMWARE_VERSIONS_V2 ''v0.7.0+ firmware'' = Inr ()"
    "short_text MAX_UNIT_NAME_LEN (cf_instance_name c)"
    "short_text MAX_SERIAL_NUMBER_LEN (cf_serial_override c)"
    "check_cs_v2 c = Inr ()"
    "list_all (\<lambda>o'. check_overrides_v2 o' = Inr ()) (override_list c)"
    "(if cf_turbo_boot c \<and> 1 < slots
       then (if allow then Inr [WarnTurboBootMultiSlot slots] else Inl (TurboBootMultiSlot slots))
       else Inr []) = Inr w"
  using assms unfolding validate_config_v2_def
proof (elim bind_r_InrE, goal_cases)
  case (1 u1 u2 u3 u4 u5 slots u6 u7 u8)
  show ?case
  proof (rule that)
    show "check_chip_sets version c SUPPORTED_CHIP_TYPES_V2 Rp2350 = Inr slots" using 1 by blast
    show "short_text MAX_UNIT_NAME_LEN (cf_instance_name c)" "short_text MAX_SERIAL_NUMBER_LEN (cf_serial_override c)"
      using 1(5,6) by (simp_all add: short_text_def not_less split: option.splits)
    show "list_all (\<lambda>o'. check_overrides_v2 o' = Inr ()) (override_list c)" using 1(10) by (simp only: each_override)
  qed (use 1 in simp_all)
qed

lemma validate_v2_ok:
  assumes "validate_config_v2 version mcu_family c allow = Inr w"
  shows "cf_version c = 1" "mcu_family = Rp2350" "sets_ok version c SUPPORTED_CHIP_TYPES_V2 Rp2350"
    "version \<le> MAX_SUPPORTED_FIRMWARE_VERSION_V2" "short_text MAX_UNIT_NAME_LEN (cf_instance_name c)"
    "short_text MAX_SERIAL_NUMBER_LEN (cf_serial_override c)" "list_all override_ok_v2 (override_list c)"
    "check_cs_v2 c = Inr ()"
    "w = (if cf_turbo_boot c \<and> 1 < length (rom_sets c) then [WarnTurboBootMultiSlot (length (rom_sets c))] else [])"
    "cf_turbo_boot c \<Longrightarrow> 1 < length (rom_sets c) \<Longrightarrow> allow"
proof -
  from assms obtain slots where slots: "check_chip_sets version c SUPPORTED_CHIP_TYPES_V2 Rp2350 = Inr slots"
    and facts: "mcu_family = Rp2350" "validate_config_version c = Inr ()"
      "validate_firmware_version version MIN_SUPPORTED_FIRMWARE_VERSION_V2
         MAX_SUPPORTED_FIRMWARE_VERSION_V2 UNSUPPORTED_FIRMWARE_VERSIONS_V2 ''v0.7.0+ firmware'' = Inr ()"
      "short_text MAX_UNIT_NAME_LEN (cf_instance_name c)" "short_text MAX_SERIAL_NUMBER_LEN (cf_serial_override c)"
      "check_cs_v2 c = Inr ()"
      "list_all (\<lambda>o'. check_overrides_v2 o' = Inr ()) (override_list c)"
    and turbo: "(if cf_turbo_boot c \<and> 1 < slots
       then (if allow then Inr [WarnTurboBootMultiSlot slots] else Inl (TurboBootMultiSlot slots))
       else Inr []) = Inr w"
    by (rule validate_v2_cases)
  show "mcu_family = Rp2350" "check_cs_v2 c = Inr ()" by (fact facts)+
  show "cf_version c = 1" using facts(2) by (simp add: validate_config_version_def)
  show "sets_ok version c SUPPORTED_CHIP_TYPES_V2 Rp2350"
    using check_chip_sets_ok(2) [OF slots] by (simp add: sets_ok_def)
  show "version \<le> MAX_SUPPORTED_FIRMWARE_VERSION_V2" using validate_firmware_version_ok [OF facts(3)] by blast
  show "short_text MAX_UNIT_NAME_LEN (cf_instance_name c)" "short_text MAX_SERIAL_NUMBER_LEN (cf_serial_override c)"
    by (fact facts)+
  show "list_all override_ok_v2 (override_list c)"
    using facts(7) by (rule list.pred_mono_strong) (rule check_overrides_v2_ok)
  show "w = (if cf_turbo_boot c \<and> 1 < length (rom_sets c) then [WarnTurboBootMultiSlot (length (rom_sets c))] else [])"
    "cf_turbo_boot c \<Longrightarrow> 1 < length (rom_sets c) \<Longrightarrow> allow"
    using turbo check_chip_sets_ok(1) [OF slots] by (auto split: if_splits)
qed

lemma all_chips_enumerated:
  "each_r (\<lambda>(i, st). each_r (\<lambda>(j, chip). f i j chip) (enumerated (st_chips st))) (enumerated (cf_chip_sets c)) = Inr () \<Longrightarrow>
     (\<And>i j chip. f i j chip = Inr () \<Longrightarrow> P chip) \<Longrightarrow> list_all P (all_chips c)"
proof -
  assume ok: "each_r (\<lambda>(i, st). each_r (\<lambda>(j, chip). f i j chip) (enumerated (st_chips st))) (enumerated (cf_chip_sets c)) = Inr ()"
    and P: "\<And>i j chip. f i j chip = Inr () \<Longrightarrow> P chip"
  have "P (st_chips (cf_chip_sets c ! i) ! j)" if ij: "i < length (cf_chip_sets c)" "j < length (st_chips (cf_chip_sets c ! i))" for i j
  proof -
    have j: "(j, st_chips (cf_chip_sets c ! i) ! j) \<in> set (enumerated (st_chips (cf_chip_sets c ! i)))"
      using ij by (simp add: set_enumerated)
    have "(i, cf_chip_sets c ! i) \<in> set (enumerated (cf_chip_sets c))" using ij by (simp add: set_enumerated)
    from bspec [OF ok [unfolded each_r_Inr_iff] this]
    have "each_r (\<lambda>(j, chip). f i j chip) (enumerated (st_chips (cf_chip_sets c ! i))) = Inr ()" by simp
    from bspec [OF this [unfolded each_r_Inr_iff] j] have "f i j (st_chips (cf_chip_sets c ! i) ! j) = Inr ()" by simp
    then show ?thesis by (rule P)
  qed
  then show "list_all P (all_chips c)"
    by (simp add: all_chips_def list_all_iff all_set_conv_all_nth)
qed

lemma validate_v1_ok:
  assumes "validate_config_v1 version mcu_family c = Inr ()"
  shows "cf_version c = 1" "sets_ok version c SUPPORTED_CHIP_TYPES_V1 mcu_family"
    "MIN_SUPPORTED_FIRMWARE_VERSION_V1 \<le> version" "version \<le> MAX_SUPPORTED_FIRMWARE_VERSION_V1"
    "\<not> matches_release (FirmwareVersion 0 6 3 0) version"
    "list_all (\<lambda>chip. cc_ce chip = None \<and> cc_oe chip = None) (all_chips c)"
    "cf_instance_name c = None" "\<not> cf_boot_logging c" "\<not> cf_turbo_boot c" "cf_swd_enabled c"
    "check_cs_v1 c = Inr ()"
proof -
  from assms obtain slots where slots: "check_chip_sets version c SUPPORTED_CHIP_TYPES_V1 mcu_family = Inr slots"
    and facts: "validate_config_version c = Inr ()"
      "validate_firmware_version version MIN_SUPPORTED_FIRMWARE_VERSION_V1
         MAX_SUPPORTED_FIRMWARE_VERSION_V1 UNSUPPORTED_FIRMWARE_VERSIONS_V1 ''pre-0.7.0 firmware'' = Inr ()"
      "each_r (\<lambda>u. fail_if (matches_release u version) (FirmwareUnsupported version))
         UNSUPPORTED_FIRMWARE_VERSIONS_V1 = Inr ()"
      "check_cs_v1 c = Inr ()"
    and ce_oe: "each_r (\<lambda>(set_id, st). each_r (\<lambda>(chip_idx, chip).
           bind_r (fail_if (cc_ce chip \<noteq> None) (InvalidConfig (CeOeUnsupported ''ce'' set_id chip_idx))) (\<lambda>_.
             fail_if (cc_oe chip \<noteq> None) (InvalidConfig (CeOeUnsupported ''oe'' set_id chip_idx))))
           (enumerated (st_chips st))) (enumerated (cf_chip_sets c)) = Inr ()"
    and fields: "\<not> cf_instance_name c \<noteq> None" "\<not> cf_boot_logging c" "\<not> cf_turbo_boot c" "\<not> \<not> cf_swd_enabled c"
    unfolding validate_config_v1_def bind_r_ignore ex_Inr_unit fail_if_Inr_iff by blast
  show "check_cs_v1 c = Inr ()" by (fact facts)
  show "cf_instance_name c = None" "\<not> cf_boot_logging c" "\<not> cf_turbo_boot c" "cf_swd_enabled c"
    using fields by blast+
  show "cf_version c = 1" using facts(1) by (simp add: validate_config_version_def)
  show "sets_ok version c SUPPORTED_CHIP_TYPES_V1 mcu_family"
    using check_chip_sets_ok(2) [OF slots] by (simp add: sets_ok_def)
  show "MIN_SUPPORTED_FIRMWARE_VERSION_V1 \<le> version" "version \<le> MAX_SUPPORTED_FIRMWARE_VERSION_V1"
    using validate_firmware_version_ok [OF facts(2)] by blast+
  show "\<not> matches_release (FirmwareVersion 0 6 3 0) version"
    using facts(3) by (simp add: UNSUPPORTED_FIRMWARE_VERSIONS_V1_def bind_r_Inr_iff)
  show "list_all (\<lambda>chip. cc_ce chip = None \<and> cc_oe chip = None) (all_chips c)"
    using ce_oe by (rule all_chips_enumerated) (simp add: bind_r_Inr_iff)
qed


lemma check_config_facts:
  assumes "check_config version mcu_family c allow = Inr w"
  shows "config_ok version mcu_family c \<and>
    w = (if MIN_SUPPORTED_FIRMWARE_VERSION_V2 \<le> version \<and> cf_turbo_boot c \<and> 1 < length (rom_sets c)
         then [WarnTurboBootMultiSlot (length (rom_sets c))] else []) \<and>
    (w \<noteq> [] \<longrightarrow> allow)"
proof -
  from assms have common: "\<not> (cf_reserved_pins c \<noteq> [] \<and> version < MIN_RESERVED_PINS_VERSION)"
    "list_all (\<lambda>o'. (case first_member_newer_than o' version of None \<Rightarrow> Inr ()
         | Some (feat, minimum) \<Rightarrow> Inl (FirmwareTooOld feat version minimum)) = Inr ()) (override_list c)"
    and branch: "(if version \<ge> MIN_SUPPORTED_FIRMWARE_VERSION_V2
       then validate_config_v2 version mcu_family c allow
       else bind_r (validate_config_v1 version mcu_family c) (\<lambda>_. Inr [])) = Inr w"
    unfolding check_config_def bind_r_ignore ex_Inr_unit fail_if_Inr_iff each_override by blast+
  from common(2) have "list_all (\<lambda>o'. first_member_newer_than o' version = None) (override_list c)"
    by (rule list.pred_mono_strong) (auto split: option.splits)
  then have standby: "version < FirmwareVersion 0 8 0 0 \<Longrightarrow>
      list_all (\<lambda>o'. Option.bind (fw_fire o') fi_standby = None) (override_list c)"
    by (simp add: first_member_None)
  note pins = common(1) [unfolded MIN_RESERVED_PINS_VERSION_def]
  show ?thesis
  proof (cases "version \<ge> MIN_SUPPORTED_FIRMWARE_VERSION_V2")
    case True
    with branch have v2: "validate_config_v2 version mcu_family c allow = Inr w" by simp
    have "config_ok version mcu_family c"
      using validate_v2_ok(1-7) [OF v2] standby pins True by (auto simp: config_ok_def not_less)
    then show ?thesis using True validate_v2_ok(9,10) [OF v2] by auto
  next
    case False
    with branch have v1: "validate_config_v1 version mcu_family c = Inr ()" "w = []"
      by (auto simp: bind_r_Inr_iff)
    have "config_ok version mcu_family c"
      using validate_v1_ok [OF v1(1)] standby pins False by (auto simp: config_ok_def not_le)
    then show ?thesis using False v1(2) by simp
  qed
qed

lemma check_config_ok: "check_config version mcu_family c allow = Inr w \<Longrightarrow> config_ok version mcu_family c"
  using check_config_facts by blast

text \<open>
  C33: a configuration the builder accepts is well formed: its version and the firmware's are
  supported, every set has the size and the chip types its kind allows, every chip is of a type
  the target serves, has a file unless it may be without, a file range that does not wrap, and
  plugins stand where the firmware looks for them. For firmware before 0.7.0 no CE or OE level
  and none of the later fields is set; from 0.7.0 on, the target is Fire, the device texts fit
  their fields and no override asks for what that firmware cannot do. The only warning is that
  turbo boot was allowed with several ROM slots, and it is there when it must be.
\<close>

theorem accepted_config_well_formed:
  assumes "check_config version mcu_family c allow = Inr w"
  shows "config_ok version mcu_family c \<and>
    w = (if MIN_SUPPORTED_FIRMWARE_VERSION_V2 \<le> version \<and> cf_turbo_boot c \<and> 1 < length (rom_sets c)
         then [WarnTurboBootMultiSlot (length (rom_sets c))] else []) \<and>
    (w \<noteq> [] \<longrightarrow> allow)"
  by (rule check_config_facts [OF assms])

section \<open>A concrete configuration\<close>

definition single_set :: chip_set_config where
  "single_set = \<lparr>st_set_type = Set_Single, st_chips = [multi_primary], st_serve_alg = None, st_overrides = None\<rparr>"

definition single_config :: config where
  "single_config = \<lparr>cf_version = 1, cf_chip_sets = [single_set],
     cf_instance_name = Some (lit ''desk''), cf_serial_override = None, cf_boot_logging = False,
     cf_swd_enabled = True, cf_turbo_boot = True, cf_reserved_pins = [HeaderPin PinX1]\<rparr>"

lemma primary_file_fields:
  "cc_file multi_primary = lit ''a.bin''" "cc_plugin multi_primary = None"
  "cc_location multi_primary = None" "cc_extract multi_primary = None"
  by (simp_all add: multi_primary_def chip_config_new_def)

lemma three_cs_type:
  "ct_name three_cs_chip = ''23128''" "ct_min_fw three_cs_chip = Some (FirmwareVersion 0 5 8 0)"
  "\<not> ct_is_plugin three_cs_chip" "\<not> ct_is_ram three_cs_chip"
  by (simp_all add: three_cs_chip_def)

lemma single_set_fields:
  "st_set_type single_set = Set_Single" "st_chips single_set = [multi_primary]"
  "st_overrides single_set = None" "\<not> set_standby single_set"
  by (simp_all add: single_set_def set_standby_def)

lemma single_config_fields:
  "cf_version single_config = 1" "cf_chip_sets single_config = [single_set]"
  "cf_instance_name single_config = Some (lit ''desk'')" "cf_serial_override single_config = None"
  "cf_turbo_boot single_config" "cf_reserved_pins single_config = [HeaderPin PinX1]"
  by (simp_all add: single_config_def)

lemma single_config_cs: "check_cs_v2 single_config = Inr ()"
proof -
  have "check_chip_cs Set_Single 0 (0, multi_primary) = Inr ()"
    by (simp add: check_chip_cs_def multi_fields has_line_iff check_cs_value_def cs_values_def
        check_ignore_def fail_if_def Let_def)
  then show ?thesis
    by (simp add: check_cs_v2_def check_set_cs_def single_config_fields single_set_fields enumerated_def
        multi_fields Let_def)
qed

lemma single_config_sets:
  "check_chip_sets (FirmwareVersion 0 8 0 0) single_config SUPPORTED_CHIP_TYPES_V2 Rp2350 = Inr 1"
proof -
  have "check_set (FirmwareVersion 0 8 0 0) 0 single_set = Inr ()"
    by (simp add: check_set_def single_set_fields fail_if_def)
  moreover have "check_supported (FirmwareVersion 0 8 0 0) SUPPORTED_CHIP_TYPES_V2 Rp2350 three_cs_chip = Inr ()"
    by (simp add: check_supported_def three_cs_type SUPPORTED_CHIP_TYPES_V2_def fail_if_def)
  then have "check_chip (FirmwareVersion 0 8 0 0) single_config SUPPORTED_CHIP_TYPES_V2 Rp2350 0 single_set
      False 0 multi_primary = Inr ()"
    by (simp add: check_chip_def multi_fields primary_file_fields single_set_fields three_cs_type
        chip_function_of_def check_location_def check_plugin_place_def fail_if_def Let_def)
  ultimately show ?thesis
    by (simp add: check_chip_sets_def single_config_fields single_set_fields enumerated_def multi_fields)
qed

lemma single_config_accepted: "check_config (FirmwareVersion 0 8 0 0) Rp2350 single_config False = Inr []"
proof -
  have "str_len (lit ''desk'') = 4" by (simp add: str_len_def char_len_def lit_def)
  then have "validate_config_v2 (FirmwareVersion 0 8 0 0) Rp2350 single_config False = Inr []"
    by (simp add: validate_config_v2_def single_config_fields single_set_fields single_config_cs single_config_sets
        validate_config_version_def validate_firmware_version_def MIN_SUPPORTED_FIRMWARE_VERSION_V2_def
        MAX_SUPPORTED_FIRMWARE_VERSION_V2_def UNSUPPORTED_FIRMWARE_VERSIONS_V2_def MAX_UNIT_NAME_LEN_def fail_if_def)
  then show ?thesis
    by (simp add: check_config_def single_config_fields single_set_fields MIN_RESERVED_PINS_VERSION_def
        MIN_SUPPORTED_FIRMWARE_VERSION_V2_def MAX_SUPPORTED_FIRMWARE_VERSION_V2_def fail_if_def)
qed

theorem accepted_config_well_formed_witness:
  "config_ok (FirmwareVersion 0 8 0 0) Rp2350 single_config"
  using accepted_config_well_formed [OF single_config_accepted] by simp

end
