(* ===== verification/Btree_Map.thy ===== *)
theory Btree_Map
  imports Onerom_Prelude
begin

text \<open>
  Maps from indices, as the \<open>BTreeMap<usize, _>\<close> of the sources: an association list in key
  order, so that iterating gives the entries in the order the Rust map gives them. What a client
  relies on is the interface \<open>keyed_store\<close>.
\<close>

section \<open>The interface\<close>

locale keyed_store =
  fixes empty :: "'m" and insert :: "'k \<Rightarrow> 'v \<Rightarrow> 'm \<Rightarrow> 'm" and lookup :: "'m \<Rightarrow> 'k \<Rightarrow> 'v option"
  assumes lookup_empty: "lookup empty k = None"
    and lookup_insert: "lookup (insert k v m) k' = (if k' = k then Some v else lookup m k')"
begin

lemma lookup_fold:
  "lookup (fold (\<lambda>(k, v). insert k v) kvs m) = (\<lambda>k. case map_of (rev kvs) k of Some v \<Rightarrow> Some v | None \<Rightarrow> lookup m k)"
proof (induction kvs rule: rev_induct)
  case (snoc kv kvs)
  then show ?case by (cases kv) (auto simp: lookup_insert fun_eq_iff)
qed simp

lemma lookup_insert_dom: "lookup (insert k v m) k' \<noteq> None \<longleftrightarrow> k' = k \<or> lookup m k' \<noteq> None"
  by (simp add: lookup_insert)

end

section \<open>Sorted association lists\<close>

type_synonym 'v btree_map = "(nat \<times> 'v) list"

abbreviation bt_get :: "'v btree_map \<Rightarrow> nat \<Rightarrow> 'v option" where
  "bt_get \<equiv> map_of"

fun bt_insert :: "nat \<Rightarrow> 'v \<Rightarrow> 'v btree_map \<Rightarrow> 'v btree_map" where
  "bt_insert k v [] = [(k, v)]"
| "bt_insert k v ((k', v') # m) =
     (if k < k' then (k, v) # (k', v') # m
      else if k = k' then (k, v) # m
      else (k', v') # bt_insert k v m)"

definition bt_ok :: "'v btree_map \<Rightarrow> bool" where
  "bt_ok m \<longleftrightarrow> sorted_wrt (<) (map fst m)"

lemma bt_get_insert: "bt_get (bt_insert k v m) k' = (if k' = k then Some v else bt_get m k')"
  by (induction k v m rule: bt_insert.induct) auto

lemma fst_bt_insert: "fst ` set (bt_insert k v m) = insert k (fst ` set m)"
  by (induction k v m rule: bt_insert.induct) auto

lemma bt_ok_empty [simp]: "bt_ok []"
  by (simp add: bt_ok_def)

lemma bt_ok_insert: "bt_ok m \<Longrightarrow> bt_ok (bt_insert k v m)"
proof (induction k v m rule: bt_insert.induct)
  case (2 k v k' v' m)
  then show ?case
    using fst_bt_insert [of k v m] by (auto simp: bt_ok_def simp flip: set_map)
qed (simp add: bt_ok_def)

lemma bt_ok_distinct: "bt_ok m \<Longrightarrow> distinct (map fst m)"
  by (simp add: bt_ok_def strict_sorted_iff)

interpretation bt: keyed_store "[]" bt_insert bt_get
  by unfold_locales (simp_all add: bt_get_insert)

text \<open>\<open>map.values().collect::<BTreeSet<_>>().len()\<close>\<close>

definition distinct_values :: "nat btree_map \<Rightarrow> nat" where
  "distinct_values m = card (set (map snd m))"

lemma set_values: "bt_ok m \<Longrightarrow> set (map snd m) = ran (bt_get m)"
  using ran_distinct [OF bt_ok_distinct [of m]] by simp

end
