(* ===== verification/Gen_Builder.thy ===== *)
theory Gen_Builder
  imports Gen_Validate Btree_Map
begin

text \<open>
  The generator's \<open>Builder\<close> (\<open>rust/gen/src/builder.rs\<close>): a validated configuration, the files
  and licenses the caller still has to supply, and the map from chips to the files they are
  read from. A chip is named by its flat index over all sets. \<open>None\<close> is the panic of an
  \<open>unwrap\<close>. The builder is a state machine, its calls the steps.
\<close>

section \<open>State\<close>

record license =
  li_id :: nat
  li_file_id :: nat
  li_url :: ustr
  li_validated :: bool

definition license_new :: "nat \<Rightarrow> nat \<Rightarrow> ustr \<Rightarrow> license" where
  "license_new id' file_id url = \<lparr>li_id = id', li_file_id = file_id, li_url = url, li_validated = False\<rparr>"

record builder =
  bu_version :: firmware_version
  bu_config :: config
  bu_files :: "u8 list btree_map"
  bu_licenses :: "license btree_map"
  bu_file_ids :: "nat btree_map"

datatype plugin_issue =
    PluginHeaderMissing
  | PluginMagic
  | PluginApiVersion nat
  | PluginNeedsFirmware firmware_version firmware_version

datatype build_error =
    DuplicateFile nat
  | InvalidFile nat nat
  | MissingFileId nat
  | InvalidLicense nat
  | UnvalidatedLicense nat
  | NotAPluginByName nat
  | PluginByName ustr
  | InvalidPluginImage chip_type ustr plugin_issue

section \<open>Files\<close>

type_synonym file_key = "ustr \<times> ustr option"

definition file_key :: "chip_config \<Rightarrow> file_key" where
  "file_key chip = (cc_file chip, cc_extract chip)"

fun file_id_loop ::
  "nat \<Rightarrow> nat \<Rightarrow> (file_key \<rightharpoonup> nat) \<Rightarrow> nat btree_map \<Rightarrow> chip_config list \<Rightarrow> nat btree_map" where
  "file_id_loop chip_id file_id seen ids [] = ids"
| "file_id_loop chip_id file_id seen ids (chip # chips) =
     (if cc_file chip = [] then file_id_loop (Suc chip_id) file_id seen ids chips
      else case seen (file_key chip) of
        Some existing \<Rightarrow> file_id_loop (Suc chip_id) file_id seen (bt_insert chip_id existing ids) chips
      | None \<Rightarrow> file_id_loop (Suc chip_id) (file_id + 1) (seen(file_key chip \<mapsto> file_id))
          (bt_insert chip_id file_id ids) chips)"

definition build_file_id_map :: "config \<Rightarrow> nat btree_map" where
  "build_file_id_map c = file_id_loop 0 0 (\<lambda>_. None) [] (all_chips c)"

definition from_config ::
  "firmware_version \<Rightarrow> family \<Rightarrow> config \<Rightarrow> bool \<Rightarrow> (config_error, builder \<times> config_warning list) result" where
  "from_config version mcu_family c allow =
     bind_r (check_config version mcu_family c allow) (\<lambda>warnings.
       Inr (\<lparr>bu_version = version, bu_config = c, bu_files = [], bu_licenses = [],
          bu_file_ids = build_file_id_map c\<rparr>, warnings))"

definition total_file_count :: "builder \<Rightarrow> nat" where
  "total_file_count b = distinct_values (bu_file_ids b)"

record file_spec =
  fs_id :: nat
  fs_chip :: chip_config
  fs_set_id :: nat
  fs_set_type :: chip_set_type

text \<open>
  A file spec repeats fields of the first chip that needs the file; the model keeps that chip.
  The list is over the chips with the number and type of their set.
\<close>

definition placed_chips :: "config \<Rightarrow> (nat \<times> chip_set_type \<times> chip_config) list" where
  "placed_chips c = concat (map (\<lambda>(i, st). map (\<lambda>chip. (i, st_set_type st, chip)) (st_chips st))
     (enumerated (cf_chip_sets c)))"

fun specs_loop ::
  "nat btree_map \<Rightarrow> nat \<Rightarrow> file_key set \<Rightarrow> (nat \<times> chip_set_type \<times> chip_config) list \<Rightarrow> file_spec list option" where
  "specs_loop ids rom_id seen [] = Some []"
| "specs_loop ids rom_id seen ((set_id, set_type, rom) # roms) =
     (if cc_file rom = [] then specs_loop ids (Suc rom_id) seen roms
      else case bt_get ids rom_id of
        None \<Rightarrow> None
      | Some file_id \<Rightarrow>
          if file_key rom \<in> seen then specs_loop ids (Suc rom_id) seen roms
          else map_option (\<lambda>specs. \<lparr>fs_id = file_id, fs_chip = rom, fs_set_id = set_id, fs_set_type = set_type\<rparr> # specs)
            (specs_loop ids (Suc rom_id) (insert (file_key rom) seen) roms))"

definition file_specs :: "builder \<Rightarrow> file_spec list option" where
  "file_specs b = specs_loop (bu_file_ids b) 0 {} (placed_chips (bu_config b))"

definition add_file :: "builder \<Rightarrow> nat \<times> u8 list \<Rightarrow> (build_error, builder) result" where
  "add_file b fd =
     (let (id', data) = fd in
      bind_r (fail_if (bt_get (bu_files b) id' \<noteq> None) (DuplicateFile id')) (\<lambda>_.
      bind_r (fail_if (total_file_count b \<le> id') (InvalidFile id' (total_file_count b))) (\<lambda>_.
        Inr (b\<lparr>bu_files := bt_insert id' data (bu_files b)\<rparr>))))"

definition chip_data :: "builder \<Rightarrow> nat \<Rightarrow> u8 list option" where
  "chip_data b chip_index = Option.bind (bt_get (bu_file_ids b) chip_index) (bt_get (bu_files b))"

section \<open>Plugins named in the configuration\<close>

text \<open>\<open>flat_map\<close> over the sets, with the chip at a flat index replaced.\<close>

fun update_chip :: "nat \<Rightarrow> (chip_config \<Rightarrow> chip_config) \<Rightarrow> chip_set_config list \<Rightarrow> chip_set_config list" where
  "update_chip n f [] = []"
| "update_chip n f (st # sets) =
     (if n < length (st_chips st) then st\<lparr>st_chips := (st_chips st)[n := f (st_chips st ! n)]\<rparr> # sets
      else st # update_chip (n - length (st_chips st)) f sets)"

definition plugin_file_id :: "builder \<Rightarrow> ustr \<Rightarrow> nat" where
  "plugin_file_id b file =
     (case Option.bind
        (map_option fst (List.find (\<lambda>(_, chip). cc_file chip = file \<and> cc_extract chip = None)
          (enumerated (all_chips (bu_config b)))))
        (bt_get (bu_file_ids b)) of
        Some file_id \<Rightarrow> file_id
      | None \<Rightarrow> total_file_count b)"

definition set_plugin_file :: "builder \<Rightarrow> nat \<Rightarrow> ustr \<Rightarrow> (build_error, builder) result" where
  "set_plugin_file b chip_index file =
     (let file_id = plugin_file_id b file in
      case get (all_chips (bu_config b)) chip_index of
        None \<Rightarrow> Inl (NotAPluginByName chip_index)
      | Some chip \<Rightarrow>
          if cc_plugin chip = None then Inl (NotAPluginByName chip_index)
          else Inr (b\<lparr>bu_config := (bu_config b)\<lparr>cf_chip_sets := update_chip chip_index
                 (\<lambda>chip. chip\<lparr>cc_file := file, cc_plugin := None\<rparr>) (cf_chip_sets (bu_config b))\<rparr>,
               bu_file_ids := bt_insert chip_index file_id (bu_file_ids b)\<rparr>))"

section \<open>Licenses\<close>

fun licenses_loop :: "nat \<Rightarrow> nat \<Rightarrow> license btree_map \<Rightarrow> chip_config list \<Rightarrow> license list \<times> license btree_map" where
  "licenses_loop license_id rom_id lics [] = ([], lics)"
| "licenses_loop license_id rom_id lics (rom # roms) =
     (case cc_license rom of
        None \<Rightarrow> licenses_loop license_id (Suc rom_id) lics roms
      | Some url \<Rightarrow>
          let license = license_new license_id rom_id url;
              (rest, lics) = licenses_loop (license_id + 1) (Suc rom_id) (bt_insert license_id license lics) roms
          in (license # rest, lics))"

text \<open>The licenses to accept, and the builder after the call.\<close>

definition licenses :: "builder \<Rightarrow> license list \<times> builder" where
  "licenses b =
     (let (list, lics) = licenses_loop 0 0 (bu_licenses b) (all_chips (bu_config b))
      in (list, b\<lparr>bu_licenses := lics\<rparr>))"

definition accept_license :: "builder \<Rightarrow> license \<Rightarrow> (build_error, builder) result" where
  "accept_license b license =
     (case bt_get (bu_licenses b) (li_id license) of
        None \<Rightarrow> Inl (InvalidLicense (li_id license))
      | Some own \<Rightarrow>
          Inr (b\<lparr>bu_licenses := bt_insert (li_id license) (own\<lparr>li_validated := True\<rparr>) (bu_licenses b)\<rparr>))"

section \<open>Ready to build\<close>

definition check_plugins_set :: "config \<Rightarrow> (build_error, unit) result" where
  "check_plugins_set c =
     (case List.find (\<lambda>chip. cc_plugin chip \<noteq> None) (all_chips c) of
        Some chip \<Rightarrow> Inl (PluginByName (the (cc_plugin chip)))
      | None \<Rightarrow> Inr ())"

definition check_all_files_loaded :: "u8 list btree_map \<Rightarrow> nat \<Rightarrow> (build_error, unit) result" where
  "check_all_files_loaded files count =
     each_r (\<lambda>i. fail_if (bt_get files i = None) (MissingFileId i)) [0..<count]"

definition check_all_licenses_validated :: "license btree_map \<Rightarrow> (build_error, unit) result" where
  "check_all_licenses_validated lics =
     each_r (\<lambda>(id', license). fail_if (\<not> li_validated license) (UnvalidatedLicense id')) lics"

text \<open>The header of a plugin: magic, API version, firmware version. Shorter images are refused first.\<close>

definition le_u32 :: "u8 list \<Rightarrow> nat" where
  "le_u32 bs = (\<Sum>i<4. unat (bs ! i) * 256 ^ i)"

definition le_u16 :: "u8 \<Rightarrow> u8 \<Rightarrow> u16" where
  "le_u16 lo hi = from_le_bytes lo hi"

definition check_plugin_image ::
  "chip_config \<Rightarrow> u8 list \<Rightarrow> firmware_version \<Rightarrow> (build_error, unit) result" where
  "check_plugin_image rom data firmware =
     (let err = (\<lambda>issue. InvalidPluginImage (cc_chip_type rom) (cc_file rom) issue) in
      bind_r (fail_if (length data < 256) (err PluginHeaderMissing)) (\<lambda>_.
      bind_r (fail_if (take 4 data \<noteq> [0x4F, 0x52, 0x41, 0x20]) (err PluginMagic)) (\<lambda>_.
      bind_r (fail_if (le_u32 (drop 4 data) \<noteq> 1) (err (PluginApiVersion (le_u32 (drop 4 data))))) (\<lambda>_.
        let needs = FirmwareVersion (le_u16 (data ! 24) (data ! 25)) (le_u16 (data ! 26) (data ! 27))
              (le_u16 (data ! 28) (data ! 29)) 0
        in fail_if (needs > firmware) (err (PluginNeedsFirmware needs firmware))))))"

fun validate_plugins_loop ::
  "u8 list btree_map \<Rightarrow> nat btree_map \<Rightarrow> firmware_version \<Rightarrow> nat \<Rightarrow> chip_config list \<Rightarrow>
     (build_error, unit) result option" where
  "validate_plugins_loop files ids firmware rom_id [] = Some (Inr ())"
| "validate_plugins_loop files ids firmware rom_id (rom # roms) =
     bind_p (if list_ex (is_type (cc_chip_type rom)) [''SystemPlugin'', ''UserPlugin'', ''PioPlugin'']
             then Option.bind (bt_get ids rom_id) (\<lambda>file_id.
               map_option (\<lambda>data. check_plugin_image rom data firmware) (bt_get files file_id))
             else Some (Inr ())) (\<lambda>_.
       validate_plugins_loop files ids firmware (Suc rom_id) roms)"

definition validate_plugins :: "builder \<Rightarrow> firmware_version \<Rightarrow> (build_error, unit) result option" where
  "validate_plugins b firmware =
     validate_plugins_loop (bu_files b) (bu_file_ids b) firmware 0 (all_chips (bu_config b))"

text \<open>The argument is the firmware version of the build's properties.\<close>

definition build_validation :: "builder \<Rightarrow> firmware_version \<Rightarrow> (build_error, unit) result option" where
  "build_validation b firmware =
     bind_p (Some (check_plugins_set (bu_config b))) (\<lambda>_.
     bind_p (Some (check_all_files_loaded (bu_files b) (total_file_count b))) (\<lambda>_.
     bind_p (Some (check_all_licenses_validated (bu_licenses b))) (\<lambda>_.
       validate_plugins b firmware)))"

section \<open>The file map\<close>

text \<open>The file map while it is built: ids are given out in order, one to each distinct file.\<close>

definition ids_so_far :: "chip_config list \<Rightarrow> nat \<Rightarrow> (file_key \<rightharpoonup> nat) \<Rightarrow> nat btree_map \<Rightarrow> bool" where
  "ids_so_far chips next seen ids \<longleftrightarrow> bt_ok ids \<and>
     (\<forall>i. bt_get ids i = (if i < length chips \<and> cc_file (chips ! i) \<noteq> [] then seen (file_key (chips ! i)) else None)) \<and>
     dom seen = file_key ` {chip \<in> set chips. cc_file chip \<noteq> []} \<and> ran seen = {..<next} \<and> inj_on seen (dom seen)"

lemma ids_so_far_empty: "ids_so_far [] 0 (\<lambda>_. None) []"
  by (simp add: ids_so_far_def)

lemma ids_so_far_skip:
  assumes "ids_so_far chips next seen ids" "cc_file chip = []"
  shows "ids_so_far (chips @ [chip]) next seen ids"
  using assms by (auto simp: ids_so_far_def nth_append less_Suc_eq)

lemma ids_so_far_known:
  assumes "ids_so_far chips next seen ids" "cc_file chip \<noteq> []" "seen (file_key chip) = Some k"
  shows "ids_so_far (chips @ [chip]) next seen (bt_insert (length chips) k ids)"
proof -
  have "file_key chip \<in> file_key ` {c \<in> set chips. cc_file c \<noteq> []}"
    using assms(1,3) by (auto simp: ids_so_far_def)
  then have "file_key ` {c \<in> set (chips @ [chip]). cc_file c \<noteq> []} = file_key ` {c \<in> set chips. cc_file c \<noteq> []}"
    by auto
  then show ?thesis
    using assms by (auto simp: ids_so_far_def bt_ok_insert bt_get_insert nth_append)
qed

lemma inj_on_upd_new:
  assumes "inj_on m (dom m)" "m k = None" "\<And>x. m x \<noteq> Some v"
  shows "inj_on (m(k \<mapsto> v)) (dom (m(k \<mapsto> v)))"
  using assms by (auto simp: inj_on_def dom_def)

lemma ids_so_far_new:
  assumes "ids_so_far chips next seen ids" "cc_file chip \<noteq> []" "seen (file_key chip) = None"
  shows "ids_so_far (chips @ [chip]) (Suc next) (seen(file_key chip \<mapsto> next)) (bt_insert (length chips) next ids)"
proof -
  have seen: "dom seen = file_key ` {c \<in> set chips. cc_file c \<noteq> []}" "ran seen = {..<next}" "inj_on seen (dom seen)"
    "bt_ok ids" and get: "\<And>i. bt_get ids i = (if i < length chips \<and> cc_file (chips ! i) \<noteq> [] then seen (file_key (chips ! i)) else None)"
    using assms(1) by (auto simp: ids_so_far_def)
  have other: "file_key (chips ! i) \<noteq> file_key chip" if "i < length chips" "cc_file (chips ! i) \<noteq> []" for i
  proof
    assume "file_key (chips ! i) = file_key chip"
    then have "file_key chip \<in> dom seen" unfolding seen(1) using that by (force intro: image_eqI [of _ _ "chips ! i"])
    with assms(3) show False by auto
  qed
  have "seen k \<noteq> Some next" for k
    using seen(2) ranI [of seen k "next"] by auto
  then have "inj_on (seen(file_key chip \<mapsto> next)) (dom (seen(file_key chip \<mapsto> next)))"
    by (rule inj_on_upd_new [OF seen(3) assms(3)])
  moreover have "ran (seen(file_key chip \<mapsto> next)) = {..<Suc next}"
    using seen(2) assms(3) by (simp add: lessThan_Suc)
  moreover have "dom (seen(file_key chip \<mapsto> next)) = file_key ` {c \<in> set (chips @ [chip]). cc_file c \<noteq> []}"
    using seen(1) assms(2) by auto
  moreover have "bt_get (bt_insert (length chips) next ids) i =
      (if i < length (chips @ [chip]) \<and> cc_file ((chips @ [chip]) ! i) \<noteq> []
       then (seen(file_key chip \<mapsto> next)) (file_key ((chips @ [chip]) ! i)) else None)" for i
    using assms(2) other [of i] by (auto simp: bt_get_insert get nth_append)
  ultimately show ?thesis unfolding ids_so_far_def using bt_ok_insert [OF seen(4)] by blast
qed

lemma file_id_loop_ids:
  "ids_so_far chips next seen ids \<Longrightarrow>
     \<exists>next' seen'. ids_so_far (chips @ rest) next' seen' (file_id_loop (length chips) next seen ids rest)"
proof (induction rest arbitrary: chips "next" seen ids)
  case (Cons chip rest)
  have step: "\<exists>next' seen'. ids_so_far ((chips @ [chip]) @ rest) next' seen'
      (file_id_loop (length (chips @ [chip])) n s i rest)" if "ids_so_far (chips @ [chip]) n s i" for n s i
    by (rule Cons.IH [OF that])
  show ?case
  proof (cases "cc_file chip = []")
    case True
    then show ?thesis using step [OF ids_so_far_skip [OF Cons.prems]] by simp
  next
    case False
    show ?thesis
    proof (cases "seen (file_key chip)")
      case None
      then show ?thesis using False step [OF ids_so_far_new [OF Cons.prems False None]] by simp
    next
      case (Some k)
      then show ?thesis using False step [OF ids_so_far_known [OF Cons.prems False Some]] by simp
    qed
  qed
qed auto

section \<open>The invariant of a builder\<close>

text \<open>
  What every call keeps: the ids of the file map are dense, chips share an id exactly if they
  share a file, every chip with a file has an id, and a plugin has one unless it is still named.
\<close>

definition ids_inv :: "chip_config list \<Rightarrow> nat btree_map \<Rightarrow> bool" where
  "ids_inv chips ids \<longleftrightarrow>
     bt_ok ids \<and>
     (\<forall>i k. bt_get ids i = Some k \<longrightarrow> i < length chips \<and> cc_plugin (chips ! i) = None) \<and>
     ran (bt_get ids) = {..<distinct_values ids} \<and>
     (\<forall>i<length chips. cc_file (chips ! i) \<noteq> [] \<longrightarrow> bt_get ids i \<noteq> None) \<and>
     (\<forall>i<length chips. \<forall>j<length chips. cc_file (chips ! i) \<noteq> [] \<longrightarrow> cc_file (chips ! j) \<noteq> [] \<longrightarrow>
        (bt_get ids i = bt_get ids j \<longleftrightarrow> file_key (chips ! i) = file_key (chips ! j))) \<and>
     (\<forall>i<length chips. cc_plugin (chips ! i) \<noteq> None \<longrightarrow> cc_file (chips ! i) = [] \<and> cc_extract (chips ! i) = None) \<and>
     (\<forall>i<length chips. ct_is_plugin (cc_chip_type (chips ! i)) \<longrightarrow> cc_plugin (chips ! i) = None \<longrightarrow>
        bt_get ids i \<noteq> None)"

definition builder_inv :: "builder \<Rightarrow> bool" where
  "builder_inv b \<longleftrightarrow> ids_inv (all_chips (bu_config b)) (bu_file_ids b) \<and> bt_ok (bu_files b) \<and>
     dom (bt_get (bu_files b)) \<subseteq> {..<total_file_count b}"

lemma all_chips_mem: "chip \<in> set (all_chips c) \<longleftrightarrow> (\<exists>i<length (cf_chip_sets c). chip \<in> set (st_chips (cf_chip_sets c ! i)))"
  by (simp add: all_chips_def) (metis in_set_conv_nth)

lemma accepted_chips:
  assumes "check_config version mcu_family c allow = Inr w" "chip \<in> set (all_chips c)"
  shows "plugin_ok chip" "ct_is_plugin (cc_chip_type chip) \<Longrightarrow> cc_plugin chip = None \<Longrightarrow> cc_file chip \<noteq> []"
proof -
  from assms(2) obtain i where i: "i < length (cf_chip_sets c)" "chip \<in> set (st_chips (cf_chip_sets c ! i))"
    by (auto simp: all_chips_mem)
  have "\<exists>supported. sets_ok version c supported mcu_family"
    using check_config_ok [OF assms(1)] by (auto simp: config_ok_def split: if_splits)
  then obtain supported where "set_ok version c supported mcu_family i (cf_chip_sets c ! i)"
    using i(1) by (auto simp: sets_ok_def)
  then show "plugin_ok chip" "ct_is_plugin (cc_chip_type chip) \<Longrightarrow> cc_plugin chip = None \<Longrightarrow> cc_file chip \<noteq> []"
    using i(2) by (auto simp: set_ok_def list_all_iff file_ok_def chip_function_of_def)
qed

lemma from_config_inv:
  assumes "from_config version mcu_family c allow = Inr (b, w)"
  shows "builder_inv b"
proof -
  from assms have ok: "check_config version mcu_family c allow = Inr w"
    and b: "bu_config b = c" "bu_files b = []" "bu_file_ids b = build_file_id_map c"
    by (auto simp: from_config_def bind_r_Inr_iff)
  let ?chips = "all_chips c"
  obtain n seen where I: "ids_so_far ?chips n seen (bu_file_ids b)"
    using file_id_loop_ids [OF ids_so_far_empty, of ?chips] by (auto simp: b build_file_id_map_def)
  then have get: "\<And>i. bt_get (bu_file_ids b) i = (if i < length ?chips \<and> cc_file (?chips ! i) \<noteq> [] then seen (file_key (?chips ! i)) else None)"
    and seen: "bt_ok (bu_file_ids b)" "dom seen = file_key ` {c \<in> set ?chips. cc_file c \<noteq> []}" "ran seen = {..<n}" "inj_on seen (dom seen)"
    by (auto simp: ids_so_far_def)
  have known: "file_key (?chips ! i) \<in> dom seen" if "i < length ?chips" "cc_file (?chips ! i) \<noteq> []" for i
    unfolding seen(2) using that by (auto intro: image_eqI [of _ _ "?chips ! i"])
  have "ran (bt_get (bu_file_ids b)) = ran seen"
  proof
    show "ran (bt_get (bu_file_ids b)) \<subseteq> ran seen"
    proof
      fix k assume "k \<in> ran (bt_get (bu_file_ids b))"
      then obtain i where "bt_get (bu_file_ids b) i = Some k" unfolding ran_def by blast
      then show "k \<in> ran seen" by (auto simp: get intro: ranI split: if_splits)
    qed
    show "ran seen \<subseteq> ran (bt_get (bu_file_ids b))"
    proof
      fix k assume "k \<in> ran seen"
      then obtain f where f: "seen f = Some k" by (auto simp: ran_def)
      then have "f \<in> dom seen" by auto
      then obtain chip where "chip \<in> set ?chips" "cc_file chip \<noteq> []" "f = file_key chip" unfolding seen(2) by auto
      then obtain i where "i < length ?chips" "cc_file (?chips ! i) \<noteq> []" "f = file_key (?chips ! i)"
        by (auto simp: in_set_conv_nth)
      with f show "k \<in> ran (bt_get (bu_file_ids b))" by (intro ranI [of _ i]) (simp add: get)
    qed
  qed
  with seen(3) have ran: "ran (bt_get (bu_file_ids b)) = {..<n}" by simp
  then have total: "distinct_values (bu_file_ids b) = n"
    unfolding distinct_values_def set_values [OF seen(1)] by simp
  have plugin: "plugin_ok (?chips ! i)"
    "ct_is_plugin (cc_chip_type (?chips ! i)) \<Longrightarrow> cc_plugin (?chips ! i) = None \<Longrightarrow> cc_file (?chips ! i) \<noteq> []"
    if "i < length ?chips" for i
    using accepted_chips [OF ok] that by (simp_all add: nth_mem)
  have has: "bt_get (bu_file_ids b) i \<noteq> None" if "i < length ?chips" "cc_file (?chips ! i) \<noteq> []" for i
    using known [OF that] that by (auto simp: get)
  have "ids_inv ?chips (bu_file_ids b)"
    unfolding ids_inv_def
  proof (intro conjI allI impI)
    fix i k assume i: "bt_get (bu_file_ids b) i = Some k"
    then show l: "i < length ?chips" by (auto simp: get split: if_splits)
    from i have "cc_file (?chips ! i) \<noteq> []" by (auto simp: get split: if_splits)
    then show "cc_plugin (?chips ! i) = None" using plugin(1) [OF l] by (auto simp: plugin_ok_def)
  next
    fix i j assume ij: "i < length ?chips" "j < length ?chips" "cc_file (?chips ! i) \<noteq> []" "cc_file (?chips ! j) \<noteq> []"
    then show "bt_get (bu_file_ids b) i = bt_get (bu_file_ids b) j \<longleftrightarrow> file_key (?chips ! i) = file_key (?chips ! j)"
      using inj_onD [OF seen(4) _ known known, of i j] by (auto simp: get)
  next
    fix i assume i: "i < length ?chips" "cc_plugin (?chips ! i) \<noteq> None"
    then show "cc_file (?chips ! i) = []" "cc_extract (?chips ! i) = None"
      using plugin(1) [OF i(1)] i(2) unfolding plugin_ok_def by blast+
  next
    fix i assume "i < length ?chips" "ct_is_plugin (cc_chip_type (?chips ! i))" "cc_plugin (?chips ! i) = None"
    then show "bt_get (bu_file_ids b) i \<noteq> None" using plugin(2) has by blast
  qed (use ran total seen(1) has in simp_all)
  then show ?thesis by (simp add: builder_inv_def b)
qed


lemma add_file_inv:
  assumes "builder_inv b" "add_file b fd = Inr b'"
  shows "builder_inv b'"
proof -
  obtain i data where fd: "fd = (i, data)" by fastforce
  from assms(2) have b': "b' = b\<lparr>bu_files := bt_insert i data (bu_files b)\<rparr>" and i: "i < total_file_count b"
    by (auto simp: add_file_def fd bind_r_Inr_iff Let_def)
  have total: "total_file_count b' = total_file_count b" by (simp add: b' total_file_count_def)
  have "dom (bt_get (bt_insert i data (bu_files b))) \<subseteq> {..<total_file_count b}"
    using assms(1) i unfolding builder_inv_def subset_iff domIff bt_get_insert by simp
  then have "dom (bt_get (bu_files b')) \<subseteq> {..<total_file_count b'}" unfolding total by (simp add: b')
  then show ?thesis
    using assms(1) by (simp add: builder_inv_def b' bt_ok_insert)
qed

lemma licenses_inv: "builder_inv (b\<lparr>bu_licenses := l\<rparr>) \<longleftrightarrow> builder_inv b"
  by (simp add: builder_inv_def total_file_count_def)

text \<open>Replacing the chip at a flat index.\<close>

lemma length_update_chip:
  "map (length \<circ> st_chips) (update_chip n f sets) = map (length \<circ> st_chips) sets"
  by (induction n f sets rule: update_chip.induct) auto

lemma concat_update_chip:
  "n < length (concat (map st_chips sets)) \<Longrightarrow>
     concat (map st_chips (update_chip n f sets)) =
       (concat (map st_chips sets))[n := f (concat (map st_chips sets) ! n)]"
proof (induction n f sets rule: update_chip.induct)
  case (2 n f st sets)
  show ?case
  proof (cases "n < length (st_chips st)")
    case True
    then show ?thesis by (simp add: nth_append list_update_append)
  next
    case False
    with 2 show ?thesis by (simp add: nth_append list_update_append)
  qed
qed simp

lemma find_enumerated:
  assumes "map_option fst (List.find (\<lambda>(_, x). P x) (enumerated xs)) = Some i"
  shows "i < length xs" "P (xs ! i)"
proof -
  from assms obtain x where "List.find (\<lambda>(_, x). P x) (enumerated xs) = Some (i, x)" by auto
  then have "(i, x) \<in> set (enumerated xs)" "P x" by (auto simp: find_Some_iff in_set_conv_nth)
  then show "i < length xs" "P (xs ! i)" by (auto simp: set_enumerated)
qed

lemma find_enumerated_None:
  assumes "map_option fst (List.find (\<lambda>(_, x). P x) (enumerated xs)) = None" "i < length xs"
  shows "\<not> P (xs ! i)"
proof -
  have "(i, xs ! i) \<in> set (enumerated xs)" using assms(2) by (simp add: set_enumerated)
  with assms(1) show ?thesis by (auto simp: find_None_iff)
qed


lemma ids_invD:
  assumes "ids_inv chips ids"
  shows "bt_ok ids" "ran (bt_get ids) = {..<distinct_values ids}"
    "bt_get ids i = Some k \<Longrightarrow> i < length chips" "bt_get ids i = Some k \<Longrightarrow> cc_plugin (chips ! i) = None"
    "bt_get ids i = Some k \<Longrightarrow> k < distinct_values ids"
    "i < length chips \<Longrightarrow> cc_file (chips ! i) \<noteq> [] \<Longrightarrow> bt_get ids i \<noteq> None"
    "i < length chips \<Longrightarrow> j < length chips \<Longrightarrow> cc_file (chips ! i) \<noteq> [] \<Longrightarrow> cc_file (chips ! j) \<noteq> [] \<Longrightarrow>
       bt_get ids i = bt_get ids j \<longleftrightarrow> file_key (chips ! i) = file_key (chips ! j)"
    "i < length chips \<Longrightarrow> cc_plugin (chips ! i) \<noteq> None \<Longrightarrow> cc_file (chips ! i) = []"
    "i < length chips \<Longrightarrow> cc_plugin (chips ! i) \<noteq> None \<Longrightarrow> cc_extract (chips ! i) = None"
    "i < length chips \<Longrightarrow> ct_is_plugin (cc_chip_type (chips ! i)) \<Longrightarrow> cc_plugin (chips ! i) = None \<Longrightarrow> bt_get ids i \<noteq> None"
proof -
  note inv = assms [unfolded ids_inv_def]
  show ran: "ran (bt_get ids) = {..<distinct_values ids}" using inv by blast
  then show "bt_get ids i = Some k \<Longrightarrow> k < distinct_values ids" by (auto dest: ranI [of "bt_get ids"])
qed (use assms [unfolded ids_inv_def] in blast)+

text \<open>The id \<open>set_plugin_file\<close> takes: that of a chip with the same file, or the next unused one.\<close>

lemma plugin_file_id_cases:
  assumes "ids_inv (all_chips (bu_config b)) (bu_file_ids b)"
  obtains (known) j where "j < length (all_chips (bu_config b))" "cc_file (all_chips (bu_config b) ! j) = file"
      "cc_extract (all_chips (bu_config b) ! j) = None"
      "bt_get (bu_file_ids b) j = Some (plugin_file_id b file)"
  | (fresh) "plugin_file_id b file = total_file_count b"
      "\<And>j. j < length (all_chips (bu_config b)) \<Longrightarrow> file \<noteq> [] \<Longrightarrow>
         file_key (all_chips (bu_config b) ! j) \<noteq> (file, None)"
proof -
  let ?chips = "all_chips (bu_config b)" and ?P = "\<lambda>chip. cc_file chip = file \<and> cc_extract chip = None"
  show ?thesis
  proof (cases "map_option fst (List.find (\<lambda>(_, chip). ?P chip) (enumerated ?chips))")
    case None
    have no: "\<not> ?P (?chips ! j)" if "j < length ?chips" for j
      by (rule find_enumerated_None [of ?P, OF None that])
    show ?thesis
    proof (rule fresh)
      show "plugin_file_id b file = total_file_count b" using None by (simp add: plugin_file_id_def)
      show "file_key (?chips ! j) \<noteq> (file, None)" if "j < length ?chips" for j
        using no [OF that] by (simp add: file_key_def)
    qed
  next
    case (Some i)
    note i = find_enumerated [OF Some] and f = Some
    show ?thesis
    proof (cases "bt_get (bu_file_ids b) i")
      case None
      then have "file = []" using ids_invD(6) [OF assms i(1)] i(2) by blast
      moreover have "plugin_file_id b file = total_file_count b"
        unfolding plugin_file_id_def f by (simp add: None)
      ultimately show ?thesis by (intro fresh) simp_all
    next
      case (Some k)
      have "plugin_file_id b file = k"
        unfolding plugin_file_id_def f by (simp add: Some)
      with Some i show ?thesis by (intro known [of i]) simp_all
    qed
  qed
qed

lemma ran_upd_new: "m i = None \<Longrightarrow> ran (m(i \<mapsto> k)) = insert k (ran m)"
  by (rule ran_map_upd)

lemma set_plugin_file_inv:
  assumes inv: "builder_inv b" and set: "set_plugin_file b i file = Inr b'"
  shows "builder_inv b'"
proof -
  let ?chips = "all_chips (bu_config b)" and ?ids = "bu_file_ids b" and ?k = "plugin_file_id b file"
  have ids: "ids_inv ?chips ?ids" using inv by (simp add: builder_inv_def)
  from set have i: "i < length ?chips" "cc_plugin (?chips ! i) \<noteq> None"
    and b': "bu_file_ids b' = bt_insert i ?k ?ids" "bu_files b' = bu_files b"
      "bu_config b' = (bu_config b)\<lparr>cf_chip_sets := update_chip i
         (\<lambda>chip. chip\<lparr>cc_file := file, cc_plugin := None\<rparr>) (cf_chip_sets (bu_config b))\<rparr>"
    by (auto simp: set_plugin_file_def Let_def get_def split: option.splits if_splits)
  let ?new = "(?chips ! i)\<lparr>cc_file := file, cc_plugin := None\<rparr>"
  have chips': "all_chips (bu_config b') = ?chips[i := ?new]"
    using i(1) unfolding all_chips_def b'(3) by (simp add: concat_update_chip)
  have none: "bt_get ?ids i = None"
    using ids_invD(4) [OF ids, of i] i(2) by (cases "bt_get ?ids i") auto
  have old: "?chips[i := ?new] ! j = ?chips ! j" "bt_get (bt_insert i ?k ?ids) j = bt_get ?ids j" if "j \<noteq> i" for j
    using that by (simp_all add: bt_get_insert)
  have new: "?chips[i := ?new] ! i = ?new" "bt_get (bt_insert i ?k ?ids) i = Some ?k"
    using i(1) by (simp_all add: bt_get_insert)
  have key: "file_key ?new = (file, None)"
    using ids_invD(9) [OF ids i(1) i(2)] by (simp add: file_key_def)
  have same: "bt_get ?ids j = Some ?k \<longleftrightarrow> file_key (?chips ! j) = (file, None)"
    if j: "j < length ?chips" "cc_file (?chips ! j) \<noteq> []" and named: "file \<noteq> []" for j
    using ids
  proof (cases rule: plugin_file_id_cases [of b "file", case_names known fresh])
    case (known l)
    have "bt_get ?ids j = bt_get ?ids l \<longleftrightarrow> file_key (?chips ! j) = file_key (?chips ! l)"
      using known named by (intro ids_invD(7) [OF ids] j) simp_all
    then show ?thesis using known by (simp add: file_key_def)
  next
    case fresh
    have "bt_get ?ids j \<noteq> Some ?k" using ids_invD(5) [OF ids, of j ?k] fresh(1) by (auto simp: total_file_count_def)
    then show ?thesis using fresh(2) [OF j(1) named] by simp
  qed
  have ok': "bt_ok (bt_insert i ?k ?ids)" using ids_invD(1) [OF ids] by (rule bt_ok_insert)
  have get': "bt_get (bt_insert i ?k ?ids) = (bt_get ?ids)(i \<mapsto> ?k)" by (auto simp: bt_get_insert)
  have ran': "ran (bt_get (bt_insert i ?k ?ids)) = insert ?k {..<total_file_count b}"
    unfolding get' ran_upd_new [of "bt_get ?ids", OF none] ids_invD(2) [OF ids] total_file_count_def ..
  have k: "?k \<le> total_file_count b"
    using ids
  proof (cases rule: plugin_file_id_cases [of b "file", case_names known fresh])
    case (known l)
    then show ?thesis using ids_invD(5) [OF ids, of l ?k] by (simp add: total_file_count_def)
  qed simp
  obtain n where n: "insert ?k {..<total_file_count b} = {..<n}" "total_file_count b \<le> n"
  proof (cases "?k = total_file_count b")
    case True
    then show ?thesis by (intro that [of "Suc (total_file_count b)"]) (simp_all add: lessThan_Suc)
  next
    case False
    then show ?thesis using k by (intro that [of "total_file_count b"]) auto
  qed
  have dv: "distinct_values (bt_insert i ?k ?ids) = n"
    unfolding distinct_values_def set_values [OF ok'] ran' n(1) by simp
  have "ids_inv (?chips[i := ?new]) (bt_insert i ?k ?ids)"
    unfolding ids_inv_def length_list_update
  proof (intro conjI allI impI)
    fix j l assume "bt_get (bt_insert i ?k ?ids) j = Some l"
    then show "j < length ?chips" "cc_plugin (?chips[i := ?new] ! j) = None"
      using i(1) ids_invD(3,4) [OF ids, of j l] by (cases "j = i"; simp add: new old)+
  next
    fix j assume "j < length ?chips" "cc_file (?chips[i := ?new] ! j) \<noteq> []"
    then show "bt_get (bt_insert i ?k ?ids) j \<noteq> None"
      using ids_invD(6) [OF ids, of j] by (cases "j = i"; simp add: new old)
  next
    fix j l assume jl: "j < length ?chips" "l < length ?chips" "cc_file (?chips[i := ?new] ! j) \<noteq> []"
      "cc_file (?chips[i := ?new] ! l) \<noteq> []"
    consider "j = i" "l = i" | "j = i" "l \<noteq> i" | "j \<noteq> i" "l = i" | "j \<noteq> i" "l \<noteq> i" by blast
    then show "bt_get (bt_insert i ?k ?ids) j = bt_get (bt_insert i ?k ?ids) l \<longleftrightarrow>
        file_key (?chips[i := ?new] ! j) = file_key (?chips[i := ?new] ! l)"
    proof cases
      case 2
      then have "file \<noteq> []" "cc_file (?chips ! l) \<noteq> []" using jl by (simp_all add: new old)
      then show ?thesis using same [OF jl(2)] 2 by (auto simp: new old key)
    next
      case 3
      then have "file \<noteq> []" "cc_file (?chips ! j) \<noteq> []" using jl by (simp_all add: new old)
      then show ?thesis using same [OF jl(1)] 3 by (auto simp: new old key)
    next
      case 4
      then show ?thesis using jl ids_invD(7) [OF ids jl(1,2)] by (simp add: old)
    qed simp
  next
    fix j assume "j < length ?chips" "cc_plugin (?chips[i := ?new] ! j) \<noteq> None"
    then show "cc_file (?chips[i := ?new] ! j) = []" "cc_extract (?chips[i := ?new] ! j) = None"
      using ids_invD(8,9) [OF ids, of j] by (cases "j = i"; simp add: new old)+
  next
    fix j assume "j < length ?chips" "ct_is_plugin (cc_chip_type (?chips[i := ?new] ! j))"
      "cc_plugin (?chips[i := ?new] ! j) = None"
    then show "bt_get (bt_insert i ?k ?ids) j \<noteq> None"
      using ids_invD(10) [OF ids, of j] by (cases "j = i"; simp add: new old)
  qed (use ok' ran' n dv in simp_all)
  then show ?thesis
    using inv n dv unfolding builder_inv_def chips' b'(1,2) total_file_count_def by auto
qed

section \<open>The calls of a builder\<close>

inductive builder_step :: "builder \<Rightarrow> builder \<Rightarrow> bool" where
  load: "add_file b fd = Inr b' \<Longrightarrow> builder_step b b'"
| plugin: "set_plugin_file b i f = Inr b' \<Longrightarrow> builder_step b b'"
| list: "builder_step b (snd (licenses b))"
| accept: "accept_license b l = Inr b' \<Longrightarrow> builder_step b b'"
| licenses_mut: "builder_step b (b\<lparr>bu_licenses := ls\<rparr>)"

inductive_cases builder_stepE: "builder_step b b'"

text \<open>The chip table: the three plugin types have the plugin function.\<close>

definition plugin_type_ok :: "chip_type \<Rightarrow> bool" where
  "plugin_type_ok ct \<longleftrightarrow> (ct_name ct \<in> {''SystemPlugin'', ''UserPlugin'', ''PioPlugin''} \<longrightarrow> ct_is_plugin ct)"

definition types_ok :: "config \<Rightarrow> bool" where
  "types_ok c \<longleftrightarrow> list_all (\<lambda>chip. plugin_type_ok (cc_chip_type chip)) (all_chips c)"

inductive reachable :: "builder \<Rightarrow> bool" where
  start: "from_config version mcu_family c allow = Inr (b, w) \<Longrightarrow> types_ok c \<Longrightarrow> reachable b"
| step: "reachable b \<Longrightarrow> builder_step b b' \<Longrightarrow> reachable b'"

lemma licenses_only:
  "\<exists>ls. snd (licenses b) = b\<lparr>bu_licenses := ls\<rparr>"
  "accept_license b l = Inr b' \<Longrightarrow> \<exists>ls. b' = b\<lparr>bu_licenses := ls\<rparr>"
  by (auto simp: licenses_def accept_license_def split: prod.splits option.splits)

lemma set_plugin_chips:
  assumes "set_plugin_file b i f = Inr b'"
  shows "i < length (all_chips (bu_config b))"
    "all_chips (bu_config b') = (all_chips (bu_config b))[i := (all_chips (bu_config b) ! i)\<lparr>cc_file := f, cc_plugin := None\<rparr>]"
proof -
  from assms show i: "i < length (all_chips (bu_config b))"
    by (auto simp: set_plugin_file_def Let_def get_def split: option.splits if_splits)
  from assms have "bu_config b' = (bu_config b)\<lparr>cf_chip_sets := update_chip i
         (\<lambda>chip. chip\<lparr>cc_file := f, cc_plugin := None\<rparr>) (cf_chip_sets (bu_config b))\<rparr>"
    by (auto simp: set_plugin_file_def Let_def split: option.splits if_splits)
  with i show "all_chips (bu_config b') = (all_chips (bu_config b))[i := (all_chips (bu_config b) ! i)\<lparr>cc_file := f, cc_plugin := None\<rparr>]"
    unfolding all_chips_def by (simp add: concat_update_chip)
qed

lemma set_plugin_types:
  assumes "set_plugin_file b i f = Inr b'" "types_ok (bu_config b)"
  shows "types_ok (bu_config b')"
proof -
  have "plugin_type_ok (cc_chip_type ((all_chips (bu_config b'))!j))" if "j < length (all_chips (bu_config b))" for j
    using assms(2) that set_plugin_chips(1) [OF assms(1)] unfolding set_plugin_chips(2) [OF assms(1)]
    by (cases "j = i") (simp_all add: types_ok_def list_all_length)
  then show ?thesis unfolding types_ok_def list_all_length by (simp add: set_plugin_chips(2) [OF assms(1)])
qed

lemma builder_step_kinds:
  assumes "builder_step b b'"
  shows "(\<exists>fd. add_file b fd = Inr b') \<or> (\<exists>i f. set_plugin_file b i f = Inr b') \<or>
    (\<exists>ls. b' = b\<lparr>bu_licenses := ls\<rparr>)"
  using assms by (rule builder_step.cases) (use licenses_only in blast)+

lemma builder_step_inv: "builder_step b b' \<Longrightarrow> builder_inv b \<Longrightarrow> builder_inv b'"
  by (drule builder_step_kinds) (auto simp: licenses_inv intro: add_file_inv set_plugin_file_inv)

lemma add_file_config: "add_file b fd = Inr b' \<Longrightarrow> bu_config b' = bu_config b"
  by (auto simp: add_file_def bind_r_Inr_iff Let_def split: prod.splits)

lemma builder_step_types: "builder_step b b' \<Longrightarrow> types_ok (bu_config b) \<Longrightarrow> types_ok (bu_config b')"
  by (drule builder_step_kinds) (auto simp: add_file_config intro: set_plugin_types)

lemma reachable_inv: "reachable b \<Longrightarrow> builder_inv b \<and> types_ok (bu_config b)"
proof (induction rule: reachable.induct)
  case (start version mcu_family c allow b w)
  then show ?case using from_config_inv [OF start(1)] by (auto simp: from_config_def bind_r_Inr_iff)
qed (blast intro: builder_step_inv builder_step_types)

section \<open>The files to load\<close>

abbreviation spec_key :: "file_spec \<Rightarrow> file_key" where
  "spec_key s \<equiv> file_key (fs_chip s)"

lemma placed_chips_all: "map (snd \<circ> snd) (placed_chips c) = all_chips c"
proof -
  have "concat (map (\<lambda>x. st_chips (snd x)) (enumerated sets)) = concat (map st_chips (map snd (enumerated sets)))"
    for sets :: "chip_set_config list"
    by (simp add: comp_def)
  moreover have "map snd (enumerated sets) = sets" for sets :: "chip_set_config list"
    by (simp add: enumerated_def)
  ultimately show ?thesis
    by (simp add: placed_chips_def all_chips_def map_concat comp_def case_prod_beta)
qed

definition names_chip :: "nat btree_map \<Rightarrow> nat \<Rightarrow> chip_config list \<Rightarrow> file_spec \<Rightarrow> bool" where
  "names_chip ids n chips s \<longleftrightarrow>
     (\<exists>j<length chips. chips ! j = fs_chip s \<and> cc_file (fs_chip s) \<noteq> [] \<and> bt_get ids (n + j) = Some (fs_id s))"

lemma names_chip_Cons: "names_chip ids (Suc n) chips s \<Longrightarrow> names_chip ids n (chip # chips) s"
  unfolding names_chip_def by (elim exE) (rule_tac x = "Suc j" in exI, simp)

lemma names_chip_hd:
  "cc_file chip \<noteq> [] \<Longrightarrow> bt_get ids n = Some (fs_id s) \<Longrightarrow> fs_chip s = chip \<Longrightarrow> names_chip ids n (chip # chips) s"
  unfolding names_chip_def by (rule exI [of _ 0]) simp

abbreviation used_keys :: "chip_config list \<Rightarrow> file_key set" where
  "used_keys chips \<equiv> file_key ` {c \<in> set chips. cc_file c \<noteq> []}"

lemma specs_loop_spec:
  assumes "\<And>j. j < length roms \<Longrightarrow> cc_file (map (snd \<circ> snd) roms ! j) \<noteq> [] \<Longrightarrow> bt_get ids (n + j) \<noteq> None"
  shows "\<exists>specs. specs_loop ids n seen roms = Some specs \<and> distinct (map spec_key specs) \<and>
    spec_key ` set specs = used_keys (map (snd \<circ> snd) roms) - seen \<and>
    (\<forall>s \<in> set specs. names_chip ids n (map (snd \<circ> snd) roms) s)"
  using assms
proof (induction roms arbitrary: n seen)
  case (Cons r roms)
  obtain set_id ty rom where r: "r = (set_id, ty, rom)" by (cases r)
  let ?chips = "map (snd \<circ> snd) roms"
  have chips: "map (snd \<circ> snd) (r # roms) = rom # ?chips" by (simp add: r)
  have later: "\<And>j. j < length roms \<Longrightarrow> cc_file (?chips ! j) \<noteq> [] \<Longrightarrow> bt_get ids (Suc n + j) \<noteq> None"
    using Cons.prems [of "Suc j" for j] by simp
  have IH: "\<exists>specs. specs_loop ids (Suc n) seen roms = Some specs \<and> distinct (map spec_key specs) \<and>
    spec_key ` set specs = used_keys ?chips - seen \<and> (\<forall>s \<in> set specs. names_chip ids (Suc n) ?chips s)" for seen
    by (rule Cons.IH) (rule later)
  show ?case
  proof (cases "cc_file rom = []")
    case True
    obtain specs where specs: "specs_loop ids (Suc n) seen roms = Some specs" "distinct (map spec_key specs)"
        "spec_key ` set specs = used_keys ?chips - seen" "\<forall>s \<in> set specs. names_chip ids (Suc n) ?chips s"
      using IH [of seen] by blast
    have "specs_loop ids n seen (r # roms) = Some specs" using True specs(1) by (simp add: r)
    moreover have "used_keys (rom # ?chips) = used_keys ?chips" using True by auto
    then have "spec_key ` set specs = used_keys (rom # ?chips) - seen" using specs(3) by (simp only:)
    moreover have "\<forall>s \<in> set specs. names_chip ids n (rom # ?chips) s" using specs(4) names_chip_Cons by blast
    ultimately show ?thesis unfolding chips using specs(2) by blast
  next
    case False
    then obtain k where k: "bt_get ids n = Some k" using Cons.prems [of 0] by (auto simp: r)
    have keys: "used_keys (rom # ?chips) = insert (file_key rom) (used_keys ?chips)"
      using False by auto
    show ?thesis
    proof (cases "file_key rom \<in> seen")
      case True
      obtain specs where specs: "specs_loop ids (Suc n) seen roms = Some specs" "distinct (map spec_key specs)"
        "spec_key ` set specs = used_keys ?chips - seen" "\<forall>s \<in> set specs. names_chip ids (Suc n) ?chips s"
        using IH [of seen] by blast
      have "specs_loop ids n seen (r # roms) = Some specs" using False True k specs(1) by (simp add: r)
      moreover have "spec_key ` set specs = used_keys (rom # ?chips) - seen" unfolding keys using specs(3) True by simp
      moreover have "\<forall>s \<in> set specs. names_chip ids n (rom # ?chips) s" using specs(4) names_chip_Cons by blast
      ultimately show ?thesis unfolding chips using specs(2) by blast
    next
      case new: False
      let ?spec = "\<lparr>fs_id = k, fs_chip = rom, fs_set_id = set_id, fs_set_type = ty\<rparr>"
      obtain specs where specs: "specs_loop ids (Suc n) (insert (file_key rom) seen) roms = Some specs"
        "distinct (map spec_key specs)"
        "spec_key ` set specs = used_keys ?chips - insert (file_key rom) seen"
        "\<forall>s \<in> set specs. names_chip ids (Suc n) ?chips s"
        using IH [of "insert (file_key rom) seen"] by blast
      have "specs_loop ids n seen (r # roms) = Some (?spec # specs)" using False new k specs(1) by (simp add: r)
      moreover have "distinct (map spec_key (?spec # specs))" using specs(2,3) by auto
      moreover have "spec_key ` set (?spec # specs) = used_keys (rom # ?chips) - seen"
        unfolding keys using specs(3) new by auto
      moreover have "\<forall>s \<in> set (?spec # specs). names_chip ids n (rom # ?chips) s"
        using specs(4) names_chip_Cons names_chip_hd [OF False, of ids n ?spec] k by auto
      ultimately show ?thesis unfolding chips by blast
    qed
  qed
qed simp

definition named :: "builder \<Rightarrow> bool" where
  "named b \<longleftrightarrow> list_all (\<lambda>(i, _). cc_file (all_chips (bu_config b) ! i) \<noteq> []) (bu_file_ids b)"

lemma file_specs_inv:
  assumes "builder_inv b"
  obtains specs where "file_specs b = Some specs" "distinct (map fs_id specs)"
    "spec_key ` set specs = used_keys (all_chips (bu_config b))"
    "\<And>s. s \<in> set specs \<Longrightarrow> names_chip (bu_file_ids b) 0 (all_chips (bu_config b)) s"
proof -
  let ?chips = "all_chips (bu_config b)" and ?ids = "bu_file_ids b"
  have ids: "ids_inv ?chips ?ids" using assms by (simp add: builder_inv_def)
  have "length (placed_chips (bu_config b)) = length ?chips"
    using placed_chips_all [of "bu_config b"] by (metis length_map)
  then have has: "bt_get ?ids (0 + j) \<noteq> None"
    if "j < length (placed_chips (bu_config b))" "cc_file (map (snd \<circ> snd) (placed_chips (bu_config b)) ! j) \<noteq> []" for j
    using ids_invD(6) [OF ids, of j] that unfolding placed_chips_all by simp
  obtain specs where specs: "specs_loop ?ids 0 {} (placed_chips (bu_config b)) = Some specs"
    "distinct (map spec_key specs)" "spec_key ` set specs = used_keys ?chips"
    "\<forall>s \<in> set specs. names_chip ?ids 0 ?chips s"
    using specs_loop_spec [of "placed_chips (bu_config b)" ?ids 0 "{}", OF has] unfolding placed_chips_all by auto
  have "inj_on fs_id (set specs)"
  proof (rule inj_onI)
    fix s t assume st: "s \<in> set specs" "t \<in> set specs" "fs_id s = fs_id t"
    obtain i where i: "i < length ?chips" "?chips ! i = fs_chip s" "cc_file (fs_chip s) \<noteq> []" "bt_get ?ids i = Some (fs_id s)"
      using specs(4) st(1) by (auto simp: names_chip_def)
    obtain j where j: "j < length ?chips" "?chips ! j = fs_chip t" "cc_file (fs_chip t) \<noteq> []" "bt_get ?ids j = Some (fs_id t)"
      using specs(4) st(2) by (auto simp: names_chip_def)
    have "spec_key s = spec_key t"
      using ids_invD(7) [OF ids i(1) j(1)] i j st(3) by simp
    with specs(2) st(1,2) show "s = t" by (simp add: distinct_map inj_on_def)
  qed
  then have "distinct (map fs_id specs)" using specs(2) by (simp add: distinct_map)
  with specs show ?thesis by (intro that [of specs]) (auto simp: file_specs_def)
qed

lemma all_ids_used:
  assumes "builder_inv b" "named b" "spec_key ` set specs = used_keys (all_chips (bu_config b))"
    "\<And>s. s \<in> set specs \<Longrightarrow> names_chip (bu_file_ids b) 0 (all_chips (bu_config b)) s"
  shows "fs_id ` set specs = {..<total_file_count b}"
proof
  let ?chips = "all_chips (bu_config b)" and ?ids = "bu_file_ids b"
  have ids: "ids_inv ?chips ?ids" using assms(1) by (simp add: builder_inv_def)
  show "fs_id ` set specs \<subseteq> {..<total_file_count b}"
    using assms(4) ids_invD(5) [OF ids] by (fastforce simp: names_chip_def total_file_count_def)
  show "{..<total_file_count b} \<subseteq> fs_id ` set specs"
  proof
    fix k assume "k \<in> {..<total_file_count b}"
    then have "k \<in> ran (bt_get ?ids)" using ids_invD(2) [OF ids] by (simp add: total_file_count_def)
    then obtain i where i: "bt_get ?ids i = Some k" by (auto simp: ran_def)
    have l: "i < length ?chips" by (rule ids_invD(3) [OF ids i])
    have f: "cc_file (?chips ! i) \<noteq> []"
      using assms(2) map_of_SomeD [OF i] by (auto simp: named_def list_all_iff)
    have "file_key (?chips ! i) \<in> used_keys ?chips"
      using l f by (intro image_eqI [of _ _ "?chips ! i"]) simp_all
    then obtain s where s: "s \<in> set specs" "spec_key s = file_key (?chips ! i)"
      unfolding assms(3) [symmetric] by auto
    obtain j where j: "j < length ?chips" "?chips ! j = fs_chip s" "cc_file (fs_chip s) \<noteq> []" "bt_get ?ids j = Some (fs_id s)"
      using assms(4) [OF s(1)] by (auto simp: names_chip_def)
    have "bt_get ?ids i = bt_get ?ids j" using ids_invD(7) [OF ids l j(1)] f j s(2) by simp
    with i j(4) s(1) show "k \<in> fs_id ` set specs" by auto
  qed
qed

lemma check_all_files_loaded_iff:
  "check_all_files_loaded files n = Inr () \<longleftrightarrow> (\<forall>k<n. bt_get files k \<noteq> None)"
  by (auto simp: check_all_files_loaded_def each_r_Inr_iff)

lemma validate_plugins_returns:
  assumes "\<And>j. j < length roms \<Longrightarrow> ct_name (cc_chip_type (roms ! j)) \<in> {''SystemPlugin'', ''UserPlugin'', ''PioPlugin''} \<Longrightarrow>
    \<exists>k data. bt_get ids (n + j) = Some k \<and> bt_get files k = Some data"
  shows "\<exists>r. validate_plugins_loop files ids firmware n roms = Some r"
  using assms
proof (induction roms arbitrary: n)
  case (Cons rom roms)
  have "\<exists>r. validate_plugins_loop files ids firmware (Suc n) roms = Some r"
    by (rule Cons.IH) (use Cons.prems [of "Suc j" for j] in auto)
  moreover have "\<exists>r. (if list_ex (is_type (cc_chip_type rom)) [''SystemPlugin'', ''UserPlugin'', ''PioPlugin'']
      then Option.bind (bt_get ids n) (\<lambda>file_id. map_option (\<lambda>data. check_plugin_image rom data firmware) (bt_get files file_id))
      else Some (Inr ())) = Some r"
    using Cons.prems [of 0] by (auto split: if_splits)
  ultimately show ?case unfolding validate_plugins_loop.simps by (auto simp: bind_p_def split: sum.splits)
qed simp

lemma build_validation_inv:
  assumes "builder_inv b" "types_ok (bu_config b)"
  shows "\<exists>r. build_validation b firmware = Some r"
    "build_validation b firmware = Some (Inr ()) \<Longrightarrow> bt_get (bu_file_ids b) i = Some k \<Longrightarrow>
       bt_get (bu_files b) k \<noteq> None"
proof -
  let ?chips = "all_chips (bu_config b)"
  have ids: "ids_inv ?chips (bu_file_ids b)" using assms(1) by (simp add: builder_inv_def)
  have loaded: "bt_get (bu_files b) k \<noteq> None"
    if "check_all_files_loaded (bu_files b) (total_file_count b) = Inr ()" "bt_get (bu_file_ids b) i = Some k" for i k
    using that ids_invD(5) [OF ids that(2)] by (simp add: check_all_files_loaded_iff total_file_count_def)
  show "build_validation b firmware = Some (Inr ()) \<Longrightarrow> bt_get (bu_file_ids b) i = Some k \<Longrightarrow>
       bt_get (bu_files b) k \<noteq> None"
    using loaded by (auto simp: build_validation_def bind_p_Inr_iff)
  show "\<exists>r. build_validation b firmware = Some r"
  proof (cases "check_plugins_set (bu_config b) = Inr () \<and>
      check_all_files_loaded (bu_files b) (total_file_count b) = Inr ()")
    case True
    have "\<exists>r. validate_plugins b firmware = Some r"
      unfolding validate_plugins_def
    proof (rule validate_plugins_returns)
      fix j assume j: "j < length ?chips"
        "ct_name (cc_chip_type (?chips ! j)) \<in> {''SystemPlugin'', ''UserPlugin'', ''PioPlugin''}"
      have "cc_plugin (?chips ! j) = None"
        using True j(1) by (auto simp: check_plugins_set_def find_None_iff split: option.splits)
      moreover have "ct_is_plugin (cc_chip_type (?chips ! j))"
        using assms(2) j by (auto simp: types_ok_def list_all_length plugin_type_ok_def)
      ultimately have "bt_get (bu_file_ids b) j \<noteq> None" using ids_invD(10) [OF ids j(1)] by blast
      then show "\<exists>k data. bt_get (bu_file_ids b) (0 + j) = Some k \<and> bt_get (bu_files b) k = Some data"
        using loaded [OF conjunct2 [OF True]] by auto
    qed
    then show ?thesis by (auto simp: build_validation_def bind_p_def split: sum.splits)
  next
    case False
    then show ?thesis by (auto simp: build_validation_def bind_p_def split: sum.splits)
  qed
qed


fun add_files :: "builder \<Rightarrow> (nat \<times> u8 list) list \<Rightarrow> (build_error, builder) result" where
  "add_files b [] = Inr b"
| "add_files b (fd # fds) = bind_r (add_file b fd) (\<lambda>b'. add_files b' fds)"

lemma add_files_ok:
  "distinct (map fst fds) \<Longrightarrow> \<forall>fd \<in> set fds. fst fd < total_file_count b \<and> bt_get (bu_files b) (fst fd) = None \<Longrightarrow>
     add_files b fds = Inr (b\<lparr>bu_files := fold (\<lambda>(k, v). bt_insert k v) fds (bu_files b)\<rparr>)"
proof (induction fds arbitrary: b)
  case (Cons fd fds)
  obtain k v where fd: "fd = (k, v)" by fastforce
  let ?b = "b\<lparr>bu_files := bt_insert k v (bu_files b)\<rparr>"
  have one: "add_file b fd = Inr ?b" using Cons.prems(2) by (simp add: add_file_def fd fail_if_def)
  have t: "total_file_count ?b = total_file_count b" by (simp add: total_file_count_def)
  have "add_files ?b fds = Inr (?b\<lparr>bu_files := fold (\<lambda>(k, v). bt_insert k v) fds (bu_files ?b)\<rparr>)"
  proof (rule Cons.IH)
    show "distinct (map fst fds)" using Cons.prems(1) by simp
    have "k \<noteq> fst x" if "x \<in> set fds" for x using Cons.prems(1) that by (auto simp: fd)
    then show "\<forall>fd \<in> set fds. fst fd < total_file_count ?b \<and> bt_get (bu_files ?b) (fst fd) = None"
      using Cons.prems(2) unfolding t by (auto simp: bt_get_insert)
  qed
  then show ?case using one by (simp add: fd)
qed simp

lemma map_of_rev_distinct: "distinct (map fst xs) \<Longrightarrow> map_of (rev xs) = map_of xs"
proof (induction xs)
  case (Cons x xs)
  then have "map_of xs (fst x) = None" by (simp add: map_of_eq_None_iff)
  with Cons show ?case by (auto simp: map_add_def fun_eq_iff split: option.splits)
qed simp

lemma reachable_specs:
  assumes "reachable b" "file_specs b = Some specs"
  shows "distinct (map fs_id specs)" "spec_key ` set specs = used_keys (all_chips (bu_config b))"
    "\<And>s. s \<in> set specs \<Longrightarrow> names_chip (bu_file_ids b) 0 (all_chips (bu_config b)) s"
    "\<And>s. s \<in> set specs \<Longrightarrow> fs_id s < total_file_count b"
proof -
  have inv: "builder_inv b" using reachable_inv [OF assms(1)] by blast
  obtain specs' where s: "file_specs b = Some specs'" "distinct (map fs_id specs')"
    "spec_key ` set specs' = used_keys (all_chips (bu_config b))"
    "\<And>s. s \<in> set specs' \<Longrightarrow> names_chip (bu_file_ids b) 0 (all_chips (bu_config b)) s"
    by (rule file_specs_inv [OF inv]) (rule that)
  moreover have "specs' = specs" using s(1) assms(2) by simp
  ultimately show facts: "distinct (map fs_id specs)" "spec_key ` set specs = used_keys (all_chips (bu_config b))"
    "\<And>s. s \<in> set specs \<Longrightarrow> names_chip (bu_file_ids b) 0 (all_chips (bu_config b)) s" by blast+
  have ids: "ids_inv (all_chips (bu_config b)) (bu_file_ids b)" using inv by (simp add: builder_inv_def)
  show "fs_id s < total_file_count b" if "s \<in> set specs" for s
    using facts(3) [OF that] ids_invD(5) [OF ids] by (auto simp: names_chip_def total_file_count_def)
qed

section \<open>A builder never panics and can always be completed\<close>

text \<open>
  C35: whatever calls a builder has had, listing its files and checking that it is ready return;
  no two listed files have the same id and \<open>add_file\<close> takes every id. When the check passes, every
  chip with an entry in the file map has its data, so the \<open>unwrap\<close>s of the build are safe.
\<close>

theorem builder_never_panics:
  assumes "reachable b"
  shows "\<exists>specs r. file_specs b = Some specs \<and> distinct (map fs_id specs) \<and>
    list_all (\<lambda>s. fs_id s < total_file_count b) specs \<and>
    build_validation b firmware = Some r \<and>
    (r = Inr () \<longrightarrow> (\<forall>i. bt_get (bu_file_ids b) i \<noteq> None \<longrightarrow> chip_data b i \<noteq> None))"
proof -
  have inv: "builder_inv b" "types_ok (bu_config b)" using reachable_inv [OF assms] by blast+
  obtain specs where specs: "file_specs b = Some specs" by (rule file_specs_inv [OF inv(1)])
  note facts = reachable_specs [OF assms specs]
  obtain r where r: "build_validation b firmware = Some r" using build_validation_inv(1) [OF inv] by blast
  have "chip_data b i \<noteq> None" if "r = Inr ()" "bt_get (bu_file_ids b) i \<noteq> None" for i
    using that build_validation_inv(2) [OF inv, of firmware i] r by (auto simp: chip_data_def)
  with specs r facts(1,4) show ?thesis by (auto simp: list_all_iff)
qed

text \<open>
  C34: loading the listed files completes a builder. In whatever order the caller supplies one
  file for each listed id, every call succeeds, no file is missing afterwards, and each chip with
  a file reads the data that was supplied for the file it names. The builder must not have been
  given an empty name for a plugin, for which no file is listed.
\<close>

theorem files_load_in_any_order:
  assumes "reachable b" "named b" "bu_files b = []" "file_specs b = Some specs"
    "distinct (map fst fds)" "fst ` set fds = fs_id ` set specs"
  shows "\<exists>b'. add_files b fds = Inr b' \<and>
    check_all_files_loaded (bu_files b') (total_file_count b') = Inr () \<and>
    (\<forall>i<length (all_chips (bu_config b)). cc_file (all_chips (bu_config b) ! i) \<noteq> [] \<longrightarrow>
       (\<exists>s \<in> set specs. file_key (fs_chip s) = file_key (all_chips (bu_config b) ! i) \<and>
          chip_data b' i = map_of fds (fs_id s) \<and> chip_data b' i \<noteq> None))"
proof -
  let ?chips = "all_chips (bu_config b)"
  have inv: "builder_inv b" using reachable_inv [OF assms(1)] by blast
  then have ids: "ids_inv ?chips (bu_file_ids b)" by (simp add: builder_inv_def)
  note facts = reachable_specs [OF assms(1,4)]
  have all: "fst ` set fds = {..<total_file_count b}"
    using all_ids_used [OF inv assms(2) facts(2,3)] assms(6) by simp
  define b' where "b' = b\<lparr>bu_files := fold (\<lambda>(k, v). bt_insert k v) fds (bu_files b)\<rparr>"
  have added: "add_files b fds = Inr b'"
    unfolding b'_def using all assms(3) by (intro add_files_ok [OF assms(5)]) auto
  have get: "bt_get (bu_files b') k = map_of fds k" for k
    using bt.lookup_fold [of fds "[]"] assms(3)
    by (simp add: b'_def map_of_rev_distinct [OF assms(5)] split: option.splits)
  have some: "map_of fds k \<noteq> None" if "k < total_file_count b" for k
    using all that by (simp add: map_of_eq_None_iff)
  have ids': "bu_file_ids b' = bu_file_ids b" by (simp add: b'_def)
  have "total_file_count b' = total_file_count b" by (simp add: b'_def total_file_count_def)
  then have loaded: "check_all_files_loaded (bu_files b') (total_file_count b') = Inr ()"
    using some by (simp add: check_all_files_loaded_iff get)
  have "\<exists>s \<in> set specs. file_key (fs_chip s) = file_key (?chips ! i) \<and>
      chip_data b' i = map_of fds (fs_id s) \<and> chip_data b' i \<noteq> None"
    if i: "i < length ?chips" "cc_file (?chips ! i) \<noteq> []" for i
  proof -
    have "file_key (?chips ! i) \<in> used_keys ?chips"
      using i by (intro image_eqI [of _ _ "?chips ! i"]) simp_all
    then obtain s where s: "s \<in> set specs" "spec_key s = file_key (?chips ! i)"
      unfolding facts(2) [symmetric] by auto
    obtain j where j: "j < length ?chips" "?chips ! j = fs_chip s" "cc_file (fs_chip s) \<noteq> []"
      "bt_get (bu_file_ids b) j = Some (fs_id s)"
      using facts(3) [OF s(1)] by (auto simp: names_chip_def)
    have "bt_get (bu_file_ids b) i = Some (fs_id s)"
      using ids_invD(7) [OF ids i(1) j(1)] i(2) j s(2) by simp
    then have "chip_data b' i = map_of fds (fs_id s)" by (simp add: chip_data_def ids' get)
    with s some [OF facts(4) [OF s(1)]] show ?thesis by auto
  qed
  with added loaded show ?thesis by blast
qed

section \<open>A concrete builder\<close>

definition single_builder :: builder where
  "single_builder = \<lparr>bu_version = FirmwareVersion 0 8 0 0, bu_config = single_config, bu_files = [],
     bu_licenses = [], bu_file_ids = [(0, 0)]\<rparr>"

lemma single_chips: "all_chips single_config = [multi_primary]"
  by (simp add: all_chips_def single_config_fields single_set_fields)

lemma single_builder_reachable: "reachable single_builder"
proof (rule reachable.start)
  have "build_file_id_map single_config = [(0, 0)]"
    by (simp add: build_file_id_map_def single_chips primary_file_fields lit_def)
  then show "from_config (FirmwareVersion 0 8 0 0) Rp2350 single_config False = Inr (single_builder, [])"
    by (simp add: from_config_def single_config_accepted single_builder_def)
  show "types_ok single_config"
    by (simp add: types_ok_def single_chips multi_fields plugin_type_ok_def three_cs_type)
qed

lemma single_file_specs:
  "file_specs single_builder = Some [\<lparr>fs_id = 0, fs_chip = multi_primary, fs_set_id = 0, fs_set_type = Set_Single\<rparr>]"
  by (simp add: file_specs_def single_builder_def placed_chips_def single_config_fields single_set_fields
      enumerated_def primary_file_fields lit_def)

theorem builder_never_panics_witness:
  "\<exists>r. build_validation single_builder (FirmwareVersion 0 8 0 0) = Some r"
  using builder_never_panics [OF single_builder_reachable] by blast

theorem files_load_in_any_order_witness:
  "\<exists>b'. add_files single_builder [(0, [1, 2, 3])] = Inr b' \<and> chip_data b' 0 = Some [1, 2, 3]"
proof -
  have "bu_config single_builder = single_config" "bu_files single_builder = []" "bu_file_ids single_builder = [(0, 0)]"
    by (simp_all add: single_builder_def)
  moreover have "named single_builder"
    by (simp add: named_def single_builder_def single_chips primary_file_fields lit_def)
  ultimately show ?thesis
    using files_load_in_any_order [OF single_builder_reachable _ _ single_file_specs, of "[(0, [1, 2, 3])]"]
    by (auto simp: single_chips primary_file_fields lit_def)
qed

end
