(* ===== verification/Record_Lines.thy ===== *)
theory Record_Lines
  imports Hexfile
begin

text \<open>
  The line loop that \<open>decode_ihex\<close> and \<open>decode_srec\<close> share: split the input at line feeds,
  trim each line, skip blank ones, stop after the terminating record, parse, then act on the
  record. The locale \<open>record_lines\<close> states that contract of a decoder's loop over its own
  parser and step, and proves once how the loop runs over appended inputs and what it leaves
  unread. The two decoders interpret it in their theories.
\<close>

definition is_ascii_whitespace :: "u8 \<Rightarrow> bool" where
  "is_ascii_whitespace c \<longleftrightarrow> c = 9 \<or> c = 10 \<or> c = 12 \<or> c = 13 \<or> c = 32"

definition trim_ascii :: "u8 list \<Rightarrow> u8 list" where
  "trim_ascii line = trim_by is_ascii_whitespace line"

definition crlf :: "u8 list" where
  "crlf = [13, 10]"

lemma trim_ascii_empty [simp]: "trim_ascii [] = []"
  by (simp add: trim_ascii_def)

lemma trim_ascii_cr:
  assumes "l \<noteq> []" "\<not> is_ascii_whitespace (hd l)" "\<not> is_ascii_whitespace (last l)"
  shows "trim_ascii (l @ [13]) = l"
  unfolding trim_ascii_def
  by (rule trim_by_snoc) (use assms in \<open>auto simp: is_ascii_whitespace_def\<close>)

lemma split_on_split: "split_on d (xs @ d # ys) = split_on d xs @ split_on d ys"
  by (induction xs) (auto split: list.splits)

text \<open>A rendered record: its text, then the line ending. Splitting leaves the \<open>CR\<close> on.\<close>

lemma split_on_crlf_lines:
  assumes "\<And>l. l \<in> set ls \<Longrightarrow> 10 \<notin> set l"
  shows "split_on 10 (concat (map (\<lambda>l. l @ crlf) ls)) = map (\<lambda>l. l @ [13]) ls @ [[]]"
proof -
  have "concat (map (\<lambda>l. l @ crlf) ls) = concat (map (\<lambda>p. p @ [10]) (map (\<lambda>l. l @ [13]) ls)) @ []"
    by (simp add: crlf_def comp_def)
  then show ?thesis
    using split_on_lines [of "map (\<lambda>l. l @ [13]) ls" 10 "[]"] assms by fastforce
qed

text \<open>Blocks laid over one another, offsets relative to the load address.\<close>

definition overlay :: "usize \<Rightarrow> (usize \<times> u8 list) list \<Rightarrow> (nat \<rightharpoonup> u8) \<Rightarrow> nat \<rightharpoonup> u8" where
  "overlay la blocks m = fold (\<lambda>(a, d) m. m ++ block_map (a - la) d) blocks m"

lemma overlay_simps [simp]:
  "overlay la [] m = m"
  "overlay la ((a, d) # bs) m = overlay la bs (m ++ block_map (a - la) d)"
  by (simp_all add: overlay_def)

lemma unat_byte_inj: "unat (a :: u8) = unat b \<Longrightarrow> a = b"
  by (rule word_unat_eq_iff [THEN iffD2])

lemma take_min_split:
  "offset < length data \<Longrightarrow>
     take (offset + min (length data - offset) k) data =
     take offset data @ take (min (length data - offset) k) (drop offset data)"
  by (simp add: take_add)

locale record_lines =
  fixes parse :: "u8 list \<Rightarrow> nat \<Rightarrow> ('e, 'r) result"
    and step :: "usize \<Rightarrow> nat \<Rightarrow> 'r \<Rightarrow> 'd \<Rightarrow> ('e, 'd) result"
    and stopped :: "'d \<Rightarrow> bool"
    and run :: "usize \<Rightarrow> nat \<Rightarrow> u8 list list \<Rightarrow> 'd \<Rightarrow> ('e, 'd) result"
  assumes run_Nil: "run la n [] st = Inr st"
    and run_blank: "trim_ascii raw = [] \<Longrightarrow> run la n (raw # rest) st = run la (Suc n) rest st"
    and run_stop: "trim_ascii raw \<noteq> [] \<Longrightarrow> stopped st \<Longrightarrow> run la n (raw # rest) st = Inr st"
    and run_record: "trim_ascii raw \<noteq> [] \<Longrightarrow> \<not> stopped st \<Longrightarrow>
          run la n (raw # rest) st =
            bind_r (parse (trim_ascii raw) (Suc n))
              (\<lambda>r. bind_r (step la (Suc n) r st) (run la (Suc n) rest))"
begin

lemma run_stopped: "stopped st \<Longrightarrow> run la n ls st = Inr st"
proof (induction ls arbitrary: n)
  case (Cons raw ls)
  then show ?case by (cases "trim_ascii raw = []") (simp_all add: run_blank run_stop)
qed (simp add: run_Nil)

lemma run_append:
  "run la n (ls @ rest) st = bind_r (run la n ls st) (run la (n + length ls) rest)"
proof (induction ls arbitrary: n st)
  case (Cons raw ls)
  show ?case
  proof (cases "trim_ascii raw = []")
    case True
    then show ?thesis by (simp add: run_blank Cons.IH)
  next
    case nonblank: False
    show ?thesis
    proof (cases "stopped st")
      case True
      with nonblank show ?thesis by (simp add: run_stop run_stopped)
    next
      case False
      with nonblank show ?thesis
        by (cases "parse (trim_ascii raw) (Suc n)")
          (auto simp: run_record Cons.IH bind_r_def split: sum.splits)
    qed
  qed
qed (simp add: run_Nil)

lemma run_after_stop:
  "run la n ls st = Inr st' \<Longrightarrow> stopped st' \<Longrightarrow> run la n (ls @ junk) st = Inr st'"
  by (simp add: run_append run_stopped)

text \<open>A state predicate that every step keeps holds at the end of every successful run.\<close>

lemma run_invariant:
  assumes step: "\<And>n r st st'. P st \<Longrightarrow> \<not> stopped st \<Longrightarrow> step la n r st = Inr st' \<Longrightarrow> P st'"
    and "P st" "run la n ls st = Inr st'"
  shows "P st'"
  using assms(2,3)
proof (induction ls arbitrary: n st)
  case (Cons raw ls)
  show ?case
  proof (cases "trim_ascii raw = [] \<or> stopped st")
    case True
    with Cons show ?thesis
      by (cases "trim_ascii raw = []") (auto simp: run_blank run_stop)
  next
    case False
    with Cons.prems obtain r st1 where "step la (Suc n) r st = Inr st1" "run la (Suc n) ls st1 = Inr st'"
      by (auto simp: run_record bind_r_Inr_iff)
    with Cons step False show ?thesis by blast
  qed
qed (simp add: run_Nil)

text \<open>A run that ends stopped has parsed the record that stopped it.\<close>

lemma run_stopped_by:
  assumes "run la n ls st = Inr st'" "stopped st'" "\<not> stopped st"
  shows "\<exists>raw k r s s'. raw \<in> set ls \<and> trim_ascii raw \<noteq> [] \<and> parse (trim_ascii raw) k = Inr r \<and>
           step la k r s = Inr s' \<and> \<not> stopped s \<and> stopped s'"
  using assms
proof (induction ls arbitrary: n st)
  case (Cons raw ls)
  show ?case
  proof (cases "trim_ascii raw = []")
    case True
    with Cons show ?thesis by (fastforce simp: run_blank)
  next
    case False
    with Cons.prems obtain r st1 where r: "parse (trim_ascii raw) (Suc n) = Inr r"
      "step la (Suc n) r st = Inr st1" "run la (Suc n) ls st1 = Inr st'"
      by (auto simp: run_record bind_r_Inr_iff)
    show ?thesis
    proof (cases "stopped st1")
      case True
      have "raw \<in> set (raw # ls)" by simp
      with r(1,2) True False Cons.prems(3) show ?thesis by blast
    next
      case notst: False
      obtain raw' k r' s s' where "raw' \<in> set ls" "trim_ascii raw' \<noteq> []"
        "parse (trim_ascii raw') k = Inr r'" "step la k r' s = Inr s'" "\<not> stopped s" "stopped s'"
        using Cons.IH [OF r(3) Cons.prems(2) notst] by blast
      then show ?thesis by (meson list.set_intros(2))
    qed
  qed
qed (simp add: run_Nil)

lemma run_line:
  assumes "trim_ascii raw = line" "line \<noteq> []" "\<not> stopped st" "parse line (Suc n) = Inr r"
  shows "run la n (raw # rest) st = bind_r (step la (Suc n) r st) (run la (Suc n) rest)"
  using assms by (simp add: run_record)

end

end
