(* ===== verification/Ihex.thy ===== *)
theory Ihex
  imports Record_Lines
begin

text \<open>
  \<open>rust/gen/src/ihex.rs\<close>: Intel HEX decoding and encoding. The decoder's state is the image
  accumulator, the extended base address and the end-of-file flag; its line loop interprets
  \<open>record_lines\<close>. The encoder is the source's offset loop. \<open>ihex_meaning\<close> is the abstract
  reading of a file, the list of absolute blocks its data records describe, against which the
  decoder is proved.
\<close>

section \<open>Errors and records\<close>

datatype ihex_error =
    IhexMissingColon nat
  | IhexBadHex nat
  | IhexBadLength nat
  | IhexBadChecksum nat u8 u8
  | IhexUnsupportedRecordType nat u8
  | IhexAddressBelowLoad nat usize usize
  | IhexOverlappingData usize
  | IhexImageTooLarge usize usize
  | IhexMissingEof
  | IhexNoData

fun ihex_from_place :: "place_error \<Rightarrow> nat \<Rightarrow> ihex_error" where
  "ihex_from_place (PlaceAddressBelowLoad address load_addr) line =
     IhexAddressBelowLoad line address load_addr"
| "ihex_from_place (PlaceOverlap offset) line = IhexOverlappingData offset"
| "ihex_from_place (PlaceTooLarge sz mx) line = IhexImageTooLarge sz mx"

record ihex_record =
  ihex_address :: u16
  ihex_type :: u8
  ihex_data :: "u8 list"

definition ihex_parse_record :: "u8 list \<Rightarrow> nat \<Rightarrow> (ihex_error, ihex_record) result" where
  "ihex_parse_record line line_no =
     (if first line \<noteq> Some 0x3A then Inl (IhexMissingColon line_no)
      else bind_r (ok_or (decode_hex_pairs (drop 1 line)) (IhexBadHex line_no)) (\<lambda>bytes.
        if length bytes < 5 then Inl (IhexBadLength line_no)
        else let count = unat (bytes ! 0) in
          if length bytes \<noteq> count + 5 then Inl (IhexBadLength line_no)
          else if byte_sum bytes \<noteq> 0
          then Inl (IhexBadChecksum line_no
                      (0 - byte_sum (take (length bytes - 1) bytes)) (bytes ! (length bytes - 1)))
          else Inr \<lparr>ihex_address = push_bit 8 (ucast (bytes ! 1)) OR ucast (bytes ! 2),
                    ihex_type = bytes ! 3,
                    ihex_data = take count (drop 4 bytes)\<rparr>))"

section \<open>Decoding\<close>

record ihex_state =
  ih_acc :: image_accumulator
  ih_base :: usize
  ih_eof :: bool

definition ihex_init :: ihex_state where
  "ihex_init = \<lparr>ih_acc = acc_new, ih_base = 0, ih_eof = False\<rparr>"

text \<open>The two data bytes of an extended address record, as a \<open>usize\<close>.\<close>

definition be16 :: "u8 list \<Rightarrow> usize" where
  "be16 d = push_bit 8 (unat (d ! 0)) OR unat (d ! 1)"

definition ihex_step ::
  "usize \<Rightarrow> nat \<Rightarrow> ihex_record \<Rightarrow> ihex_state \<Rightarrow> (ihex_error, ihex_state) result" where
  "ihex_step load_addr line_no r st =
     (if ihex_type r = 0x00 then
        bind_r (ok_or (checked_add (ih_base st) (unat (ihex_address r)))
                  (IhexImageTooLarge usize_max MAX_IMAGE_SIZE))
          (\<lambda>address.
             bind_r (map_err (\<lambda>e. ihex_from_place e line_no)
                       (place address load_addr (ihex_data r) (ih_acc st)))
               (\<lambda>acc. Inr (st\<lparr>ih_acc := acc\<rparr>)))
      else if ihex_type r = 0x01 then Inr (st\<lparr>ih_eof := True\<rparr>)
      else if ihex_type r = 0x02 then
        (if length (ihex_data r) \<noteq> 2 then Inl (IhexBadLength line_no)
         else Inr (st\<lparr>ih_base := push_bit 4 (be16 (ihex_data r))\<rparr>))
      else if ihex_type r = 0x04 then
        (if length (ihex_data r) \<noteq> 2 then Inl (IhexBadLength line_no)
         else Inr (st\<lparr>ih_base := push_bit 16 (be16 (ihex_data r))\<rparr>))
      else if ihex_type r = 0x03 \<or> ihex_type r = 0x05 then Inr st
      else Inl (IhexUnsupportedRecordType line_no (ihex_type r)))"

fun ihex_loop ::
  "usize \<Rightarrow> nat \<Rightarrow> u8 list list \<Rightarrow> ihex_state \<Rightarrow> (ihex_error, ihex_state) result" where
  "ihex_loop load_addr idx [] st = Inr st"
| "ihex_loop load_addr idx (raw_line # rest) st =
     (let line_no = idx + 1; line = trim_ascii raw_line in
      if line = [] then ihex_loop load_addr line_no rest st
      else if ih_eof st then Inr st
      else bind_r (ihex_parse_record line line_no) (\<lambda>r.
             bind_r (ihex_step load_addr line_no r st) (ihex_loop load_addr line_no rest)))"

definition decode_ihex :: "u8 list \<Rightarrow> usize \<Rightarrow> (ihex_error, u8 list) result" where
  "decode_ihex input load_addr =
     bind_r (ihex_loop load_addr 0 (split_on 10 input) ihex_init) (\<lambda>st.
       if \<not> ih_eof st then Inl IhexMissingEof
       else if acc_is_empty (ih_acc st) then Inl IhexNoData
       else Inr (into_image (ih_acc st)))"

interpretation ihex: record_lines ihex_parse_record ihex_step ih_eof ihex_loop
  by unfold_locales (simp_all add: Let_def)

section \<open>Encoding\<close>

definition push_data_record :: "u8 list \<Rightarrow> u16 \<Rightarrow> u8 list \<Rightarrow> u8 list" where
  "push_data_record out address data =
     (let byte_count = word_of_nat (length data);
          out = out @ bytes_of '':'';
          out = push_hex8 out byte_count;
          out = push_hex8 out (ucast (drop_bit 8 address));
          out = push_hex8 out (ucast address);
          out = push_hex8 out 0x00;
          csum = byte_count + ucast (drop_bit 8 address) + ucast address;
          (out, csum) = fold (\<lambda>b (out, csum). (push_hex8 out b, csum + b)) data (out, csum);
          out = push_hex8 out (0 - csum)
      in out @ crlf)"

definition push_ela_record :: "u8 list \<Rightarrow> u16 \<Rightarrow> u8 list" where
  "push_ela_record out upper =
     (let out = out @ bytes_of '':02000004'';
          out = push_hex8 out (ucast (drop_bit 8 upper));
          out = push_hex8 out (ucast upper);
          csum = 0x02 + 0x04 + ucast (drop_bit 8 upper) + ucast upper;
          out = push_hex8 out (0 - csum)
      in out @ crlf)"

function ihex_encode_loop ::
  "u8 list \<Rightarrow> usize \<Rightarrow> nat \<Rightarrow> u16 option \<Rightarrow> u8 list \<Rightarrow> u8 list" where
  "ihex_encode_loop data load_addr offset current_upper out =
     (if offset < length data then
        let address = wrapping_uadd load_addr offset;
            chunk_len = min (length data - offset) 16;
            upper = word_of_nat (drop_bit 16 address AND 0xFFFF);
            out = (if current_upper \<noteq> Some upper then push_ela_record out upper else out);
            out = push_data_record out (word_of_nat address) (take chunk_len (drop offset data))
        in ihex_encode_loop data load_addr (offset + chunk_len) (Some upper) out
      else out)"
  by pat_completeness auto
termination
  by (relation "measure (\<lambda>(data, load_addr, offset, cur, out). length data - offset)") auto

declare ihex_encode_loop.simps [simp del]

definition encode_ihex :: "u8 list \<Rightarrow> usize \<Rightarrow> u8 list" where
  "encode_ihex data load_addr =
     (let out = (if data \<noteq> [] then ihex_encode_loop data load_addr 0 None [] else [])
      in out @ bytes_of '':00000001FF'' @ crlf)"

section \<open>The abstract meaning of a file\<close>

text \<open>
  The blocks a file describes: every data record up to the end-of-file record, at its extended
  address. Nothing here knows of images, load addresses or errors.
\<close>

fun ihex_meaning :: "usize \<Rightarrow> u8 list list \<Rightarrow> (usize \<times> u8 list) list" where
  "ihex_meaning base [] = []"
| "ihex_meaning base (raw # rest) =
     (case ihex_parse_record (trim_ascii raw) 0 of
        Inl _ \<Rightarrow> ihex_meaning base rest
      | Inr r \<Rightarrow>
          if ihex_type r = 0 then (base + unat (ihex_address r), ihex_data r) # ihex_meaning base rest
          else if ihex_type r = 1 then []
          else if ihex_type r = 2 then ihex_meaning (16 * be16 (ihex_data r)) rest
          else if ihex_type r = 4 then ihex_meaning (65536 * be16 (ihex_data r)) rest
          else ihex_meaning base rest)"

section \<open>What the encoder writes\<close>

text \<open>A rendered record: the colon, then the bytes and their two's complement checksum.\<close>

definition ihex_line :: "u8 list \<Rightarrow> u8 list" where
  "ihex_line bs = 0x3A # hexs (bs @ [- byte_sum bs])"

definition data_bytes :: "u16 \<Rightarrow> u8 list \<Rightarrow> u8 list" where
  "data_bytes a d = [word_of_nat (length d), ucast (drop_bit 8 a), ucast a, 0] @ d"

definition ela_bytes :: "u16 \<Rightarrow> u8 list" where
  "ela_bytes u = [2, 0, 0, 4, ucast (drop_bit 8 u), ucast u]"

definition eof_bytes :: "u8 list" where
  "eof_bytes = [0, 0, 0, 1]"

lemma push_data_record_line: "push_data_record out a d = out @ ihex_line (data_bytes a d) @ crlf"
  unfolding push_data_record_def Let_def push_bytes_fold
  by (simp add: push_hex8_out [of "out @ _"] push_hex8_out [of "_ # _"] push_hex8_out [of "_ @ _"]
      ihex_line_def data_bytes_def hexs_append algebra_simps)

lemma push_ela_record_line: "push_ela_record out u = out @ ihex_line (ela_bytes u) @ crlf"
proof -
  have "bytes_of '':02000004'' = 0x3A # hexs [2, 0, 0, 4]"
    by (simp add: push_hex8_def hex_digits_def)
  then show ?thesis
    unfolding push_ela_record_def Let_def
    by (simp add: push_hex8_out [of "out @ _"] push_hex8_out [of "_ @ _"]
        ihex_line_def ela_bytes_def algebra_simps)
qed

lemma eof_line: "bytes_of '':00000001FF'' = ihex_line eof_bytes"
  by (simp add: ihex_line_def eof_bytes_def push_hex8_def hex_digits_def mask_eq_exp_minus_1)

lemma ihex_line_clean:
  "ihex_line bs \<noteq> []" "hd (ihex_line bs) = 0x3A"
  "c \<in> set (ihex_line bs) \<Longrightarrow> 48 \<le> c \<and> c \<le> 70"
  using hexs_range [of c] by (auto simp: ihex_line_def)

lemma ihex_line_no_lf: "10 \<notin> set (ihex_line bs)"
  using ihex_line_clean(3) [of 10 bs] by auto

lemma ihex_line_trim: "trim_ascii (ihex_line bs @ [13]) = ihex_line bs"
proof (rule trim_ascii_cr)
  have vis: "\<not> is_ascii_whitespace c" if "c \<in> set (ihex_line bs)" for c
    using ihex_line_clean(3) [OF that] by (auto simp: is_ascii_whitespace_def)
  show "ihex_line bs \<noteq> []" by (rule ihex_line_clean)
  then show "\<not> is_ascii_whitespace (hd (ihex_line bs))" "\<not> is_ascii_whitespace (last (ihex_line bs))"
    by (auto intro!: vis)
qed

lemma ihex_parse_line:
  assumes "4 \<le> length bs" "length bs = unat (bs ! 0) + 4"
  shows "ihex_parse_record (ihex_line bs) n =
     Inr \<lparr>ihex_address = push_bit 8 (ucast (bs ! 1)) OR ucast (bs ! 2),
          ihex_type = bs ! 3, ihex_data = drop 4 bs\<rparr>"
  using assms by (simp add: ihex_parse_record_def ihex_line_def nth_append)

lemma u16_bytes_join: "push_bit 8 (ucast (ucast (drop_bit 8 a) :: u8)) OR ucast (ucast a :: u8) = (a :: u16)"
  by (rule bit_eqI) (auto simp: bit_simps not_le)

lemma be16_sum: "be16 d = 256 * unat (d ! 0) + unat (d ! 1)"
proof -
  have "unat (d ! 1) < 2 ^ 8" using unsigned_less [of "d ! 1"] by simp
  then have "\<not> bit (push_bit 8 (unat (d ! 0))) k \<or> \<not> bit (unat (d ! 1)) k" for k
    by (metis bit_push_bit_iff bit_take_bit_iff linorder_not_less take_bit_nat_eq_self)
  then show ?thesis
    by (simp add: be16_def push_bit_eq_mult disjunctive_add [symmetric] mult.commute)
qed

lemma be16_u16: "be16 [ucast (drop_bit 8 u), ucast (u :: u16)] = unat u"
proof -
  have "unat u < 65536" using unsigned_less [of u] by simp
  then have "unat u div 256 < 256" by (simp add: div_less_iff_less_mult)
  moreover have "unat (drop_bit 8 u) = unat u div 256"
    unfolding unat_drop_bit_eq by (simp add: drop_bit_eq_div)
  ultimately show ?thesis
    by (simp add: be16_sum unsigned_ucast_eq take_bit_eq_mod)
qed

lemma parse_data_line:
  "length d \<le> 255 \<Longrightarrow> ihex_parse_record (ihex_line (data_bytes a d)) n =
     Inr \<lparr>ihex_address = a, ihex_type = 0, ihex_data = d\<rparr>"
  by (subst ihex_parse_line) (simp_all add: data_bytes_def u16_bytes_join unat_of_nat)

lemma parse_ela_line:
  "ihex_parse_record (ihex_line (ela_bytes u)) n =
     Inr \<lparr>ihex_address = 0, ihex_type = 4, ihex_data = [ucast (drop_bit 8 u), ucast u]\<rparr>"
  by (subst ihex_parse_line) (simp_all add: ela_bytes_def)

lemma parse_eof_line:
  "ihex_parse_record (ihex_line eof_bytes) n = Inr \<lparr>ihex_address = 0, ihex_type = 1, ihex_data = []\<rparr>"
  by (subst ihex_parse_line) (simp_all add: eof_bytes_def)

text \<open>The encoder's loop as the list of lines it writes.\<close>

definition upper16 :: "usize \<Rightarrow> u16" where
  "upper16 address = word_of_nat (drop_bit 16 address AND 0xFFFF)"

function ihex_lines :: "u8 list \<Rightarrow> usize \<Rightarrow> nat \<Rightarrow> u16 option \<Rightarrow> u8 list list" where
  "ihex_lines data la offset cur =
     (if offset < length data then
        let address = wrapping_uadd la offset; n = min (length data - offset) 16; u = upper16 address in
        (if cur \<noteq> Some u then [ihex_line (ela_bytes u)] else []) @
        ihex_line (data_bytes (word_of_nat address) (take n (drop offset data))) #
        ihex_lines data la (offset + n) (Some u)
      else [])"
  by pat_completeness auto
termination
  by (relation "measure (\<lambda>(data, la, offset, cur). length data - offset)") auto

declare ihex_lines.simps [simp del]

lemma ihex_encode_loop_lines:
  "ihex_encode_loop data la offset cur out =
     out @ concat (map (\<lambda>l. l @ crlf) (ihex_lines data la offset cur))"
proof (induction data la offset cur out rule: ihex_encode_loop.induct)
  case (1 data la offset cur out)
  show ?case
  proof (cases "offset < length data")
    case True
    note IH = "1.IH" [OF True refl refl refl refl refl]
    show ?thesis
      unfolding ihex_encode_loop.simps [of data la offset] ihex_lines.simps [of data la offset]
      using True IH
      by (simp add: Let_def upper16_def push_data_record_line push_ela_record_line)
  next
    case False
    then show ?thesis by (simp add: ihex_encode_loop.simps ihex_lines.simps)
  qed
qed

lemma ihex_lines_rendered: "l \<in> set (ihex_lines data la offset cur) \<Longrightarrow> \<exists>bs. l = ihex_line bs"
proof (induction data la offset cur rule: ihex_lines.induct)
  case (1 data la offset cur)
  then show ?case
    by (subst (asm) (2) ihex_lines.simps) (auto simp: Let_def split: if_splits)
qed

section \<open>Decoding what was encoded\<close>

lemma upper16_unat: "address < 2 ^ 32 \<Longrightarrow> unat (upper16 address) = address div 65536"
proof -
  assume "address < 2 ^ 32"
  then have "address div 65536 < 2 ^ 16" by (simp add: div_less_iff_less_mult)
  moreover from this have "drop_bit 16 address AND 0xFFFF = address div 65536"
    using take_bit_eq_mask [of 16 "address div 65536"]
    by (simp add: drop_bit_eq_div mask_eq_exp_minus_1 take_bit_nat_eq_self)
  ultimately show ?thesis by (simp add: upper16_def unat_of_nat)
qed

declare ihex_loop.simps(2) [simp del]

lemma ihex_loop_data:
  "\<not> ih_eof st \<Longrightarrow> length d \<le> 255 \<Longrightarrow>
     ihex_loop la n ((ihex_line (data_bytes a d) @ [13]) # rest) st =
       bind_r (ihex_step la (Suc n) \<lparr>ihex_address = a, ihex_type = 0, ihex_data = d\<rparr> st)
         (ihex_loop la (Suc n) rest)"
  by (subst ihex.run_line [OF ihex_line_trim ihex_line_clean(1) _ parse_data_line]) auto

lemma ihex_loop_ela:
  "\<not> ih_eof st \<Longrightarrow>
     ihex_loop la n ((ihex_line (ela_bytes u) @ [13]) # rest) st =
       ihex_loop la (Suc n) rest (st\<lparr>ih_base := 65536 * unat u\<rparr>)"
  by (subst ihex.run_line [OF ihex_line_trim ihex_line_clean(1) _ parse_ela_line])
    (auto simp: ihex_step_def be16_u16 push_bit_eq_mult mult.commute)

lemma ihex_loop_eof:
  "\<not> ih_eof st \<Longrightarrow>
     ihex_loop la n ((ihex_line eof_bytes @ [13]) # rest) st = Inr (st\<lparr>ih_eof := True\<rparr>)"
  by (subst ihex.run_line [OF ihex_line_trim ihex_line_clean(1) _ parse_eof_line])
    (auto simp: ihex_step_def ihex.run_stopped)

lemma ihex_run_ela:
  assumes "\<not> ih_eof st" "\<forall>u. cur = Some u \<longrightarrow> ih_base st = 65536 * unat u"
  shows "ihex_loop la n (map (\<lambda>l. l @ [13]) (if cur \<noteq> Some u then [ihex_line (ela_bytes u)] else [])) st =
     Inr (st\<lparr>ih_base := 65536 * unat u\<rparr>)"
proof (cases "cur = Some u")
  case True
  then show ?thesis using assms(2) by simp
next
  case False
  then show ?thesis using assms(1) by (simp add: ihex_loop_ela)
qed

lemma ihex_run_lines:
  assumes "la + length data \<le> 2 ^ 32" "length data \<le> MAX_IMAGE_SIZE" "offset \<le> length data"
    and "acc_inv (ih_acc st)" "acc_map (ih_acc st) = block_map 0 (take offset data)" "\<not> ih_eof st"
    and "\<forall>u. cur = Some u \<longrightarrow> ih_base st = 65536 * unat u"
  shows "\<exists>st'. ihex_loop la n (map (\<lambda>l. l @ [13]) (ihex_lines data la offset cur)) st = Inr st' \<and>
     acc_inv (ih_acc st') \<and> acc_map (ih_acc st') = block_map 0 data \<and> \<not> ih_eof st'"
  using assms
proof (induction data la offset cur arbitrary: n st rule: ihex_lines.induct)
  case (1 data la offset cur)
  show ?case
  proof (cases "offset < length data")
    case False
    then show ?thesis using "1.prems" by (simp add: ihex_lines.simps)
  next
    case True
    define k where "k = min (length data - offset) 16"
    define d where "d = take k (drop offset data)"
    define a where "a = la + offset"
    define u where "u = upper16 a"
    let ?ela = "if cur \<noteq> Some u then [ihex_line (ela_bytes u)] else []"
    let ?st1 = "st\<lparr>ih_base := 65536 * unat u\<rparr>"
    have alt: "a < 2 ^ 32" and d: "d \<noteq> []" "length d = k" "k \<le> 16" "0 < k" "offset + k \<le> length data"
      using True "1.prems"(1) by (auto simp: a_def d_def k_def)
    have wadd: "wrapping_uadd la offset = a"
      using alt by (simp add: a_def wrapping_uadd_def)
    have lines: "ihex_lines data la offset cur =
        ?ela @ ihex_line (data_bytes (word_of_nat a) d) # ihex_lines data la (offset + k) (Some u)"
      using True by (subst ihex_lines.simps) (simp add: Let_def wadd d_def k_def u_def)
    have addr: "65536 * unat u + unat (word_of_nat a :: u16) = a"
      using upper16_unat [OF alt] by (simp add: u_def unat_of_nat)
    have off: "length (take offset data) = offset" using True by simp
    obtain acc where put: "place a la d (ih_acc st) = Inr acc" and acc: "acc_inv acc"
      and map: "acc_map acc = block_map 0 (take (offset + k) data)"
      using acc.put_append [OF "1.prems"(4,5) d(1), of la] off d "1.prems"(1,2)
        usize_max_ge_u32 [of "la + offset + k"] take_min_split [OF True, of 16]
      by (auto simp: a_def d_def k_def)
    have step: "ihex_step la m \<lparr>ihex_address = word_of_nat a, ihex_type = 0, ihex_data = d\<rparr> ?st1 =
        Inr (?st1\<lparr>ih_acc := acc\<rparr>)" for m
      using put addr alt by (simp add: ihex_step_def checked_add_def usize_max_def)
    have run1: "ihex_loop la n (map (\<lambda>l. l @ [13]) (ihex_lines data la offset cur)) st =
        ihex_loop la (Suc (n + length ?ela)) (map (\<lambda>l. l @ [13]) (ihex_lines data la (offset + k) (Some u)))
          (?st1\<lparr>ih_acc := acc\<rparr>)"
    proof -
      have "ihex_loop la n (map (\<lambda>l. l @ [13]) (ihex_lines data la offset cur)) st =
          bind_r (ihex_loop la n (map (\<lambda>l. l @ [13]) ?ela) st)
            (ihex_loop la (n + length ?ela) (map (\<lambda>l. l @ [13])
              (ihex_line (data_bytes (word_of_nat a) d) # ihex_lines data la (offset + k) (Some u))))"
        unfolding lines map_append ihex.run_append length_map ..
      also have "\<dots> = ihex_loop la (n + length ?ela) (map (\<lambda>l. l @ [13])
              (ihex_line (data_bytes (word_of_nat a) d) # ihex_lines data la (offset + k) (Some u))) ?st1"
        unfolding ihex_run_ela [OF "1.prems"(6,7)] bind_r_simps ..
      finally show ?thesis
        using "1.prems"(6) d(2,3) by (simp add: ihex_loop_data step)
    qed
    show ?thesis
      unfolding run1
    proof (rule "1.IH" [OF True refl refl refl, unfolded wadd, folded k_def u_def])
      show "acc_map (ih_acc (?st1\<lparr>ih_acc := acc\<rparr>)) = block_map 0 (take (offset + k) data)"
        using map by simp
    qed (use "1.prems" d acc in auto)
  qed
qed

lemma encode_ihex_lines:
  "encode_ihex data la =
     concat (map (\<lambda>l. l @ crlf) (ihex_lines data la 0 None @ [ihex_line eof_bytes]))"
  using ihex_encode_loop_lines [of data la 0 None "[]"] eof_line
  by (auto simp: encode_ihex_def ihex_lines.simps [of "[]"])

lemma split_encoded:
  "split_on 10 (encode_ihex data la) =
     map (\<lambda>l. l @ [13]) (ihex_lines data la 0 None) @ [ihex_line eof_bytes @ [13], []]"
  unfolding encode_ihex_lines
  by (subst split_on_crlf_lines) (use ihex_lines_rendered ihex_line_no_lf in fastforce)+

lemma ihex_encode_decode:
  assumes "data \<noteq> []" "length data \<le> MAX_IMAGE_SIZE" "la + length data \<le> 2 ^ 32"
  shows "decode_ihex (encode_ihex data la) la = Inr data"
proof -
  obtain st where run: "ihex_loop la 0 (map (\<lambda>l. l @ [13]) (ihex_lines data la 0 None)) ihex_init = Inr st"
    and st: "acc_inv (ih_acc st)" "acc_map (ih_acc st) = block_map 0 data" "\<not> ih_eof st"
    using ihex_run_lines [of la data 0 ihex_init None 0] assms by (auto simp: ihex_init_def)
  have "ihex_loop la 0 (split_on 10 (encode_ihex data la)) ihex_init = Inr (st\<lparr>ih_eof := True\<rparr>)"
    unfolding split_encoded ihex.run_append run bind_r_simps
    using st(3)
    by (simp add: ihex_loop_eof)
  moreover have "acc_map (ih_acc st) \<noteq> Map.empty"
    using assms(1) dom_block_map [of 0 data] by (auto simp: st(2) dom_def)
  ultimately show ?thesis
    using st by (simp add: decode_ihex_def acc_is_empty_iff into_image_block)
qed

text \<open>
  C13: encoding an image as Intel HEX and decoding the text with the same load address gives the
  image back, for every non-empty image that fits the maximum image size and a 32-bit address.
\<close>

theorem ihex_roundtrip:
  assumes "data \<noteq> []" "length data \<le> MAX_IMAGE_SIZE" "la + length data \<le> 2 ^ 32"
  shows "decode_ihex (encode_ihex data la) la = Inr data"
  using assms by (rule ihex_encode_decode)

theorem ihex_roundtrip_witness:
  "decode_ihex (encode_ihex [0xDE, 0xAD, 0xBE] 0xFFFE) 0xFFFE = Inr [0xDE, 0xAD, 0xBE]"
  by (rule ihex_roundtrip) (simp_all add: MAX_IMAGE_SIZE_def)

section \<open>Decoding computes the meaning of the file\<close>

lemma ihex_parse_empty [simp]: "ihex_parse_record [] n = Inl (IhexMissingColon n)"
  by (simp add: ihex_parse_record_def)

lemma ihex_parse_line_no: "ihex_parse_record l n = Inr r \<Longrightarrow> ihex_parse_record l m = Inr r"
  by (auto simp: ihex_parse_record_def Let_def bind_r_Inr_iff split: if_splits)

lemma ihex_step_frame:
  assumes "ihex_step la n r st = Inr st'" "acc_inv (ih_acc st)"
  shows "acc_inv (ih_acc st')"
    and "acc_map (ih_acc st') = (if ihex_type r = 0
           then acc_map (ih_acc st) ++ block_map (ih_base st + unat (ihex_address r) - la) (ihex_data r)
           else acc_map (ih_acc st))"
    and "ihex_type r = 0 \<Longrightarrow> ihex_data r \<noteq> [] \<Longrightarrow> la \<le> ih_base st + unat (ihex_address r)"
    and "ih_base st' = (if ihex_type r = 2 then 16 * be16 (ihex_data r)
           else if ihex_type r = 4 then 65536 * be16 (ihex_data r) else ih_base st)"
    and "ih_eof st' \<longleftrightarrow> ihex_type r = 1 \<or> ih_eof st"
  using assms
  by (auto simp: ihex_step_def bind_r_Inr_iff push_bit_eq_mult mult.commute split: if_splits
      dest: place_ok)
    (use place_ok_iff in blast)

lemma ihex_loop_meaning:
  assumes "ihex_loop la n ls st = Inr st'" "acc_inv (ih_acc st)" "\<not> ih_eof st"
  shows "acc_inv (ih_acc st') \<and>
     acc_map (ih_acc st') = overlay la (ihex_meaning (ih_base st) ls) (acc_map (ih_acc st)) \<and>
     (\<forall>(a, d) \<in> set (ihex_meaning (ih_base st) ls). d \<noteq> [] \<longrightarrow> la \<le> a)"
  using assms
proof (induction ls arbitrary: n st)
  case (Cons raw ls)
  show ?case
  proof (cases "trim_ascii raw = []")
    case True
    then show ?thesis using Cons by (simp add: ihex.run_blank)
  next
    case False
    with Cons.prems obtain r st1 where r: "ihex_parse_record (trim_ascii raw) (Suc n) = Inr r"
      and st1: "ihex_step la (Suc n) r st = Inr st1" and rest: "ihex_loop la (Suc n) ls st1 = Inr st'"
      by (auto simp: ihex.run_record bind_r_Inr_iff)
    note r0 = ihex_parse_line_no [OF r, of 0]
    note f = ihex_step_frame [OF st1 Cons.prems(2)]
    show ?thesis
    proof (cases "ihex_type r = 1")
      case True
      then have "st' = st1" using rest f(5) by (simp add: ihex.run_stopped)
      then show ?thesis using f True by (simp add: r0)
    next
      case noteof: False
      have "\<not> ih_eof st1" using noteof f(5) Cons.prems(3) by simp
      note IH = Cons.IH [OF rest f(1) this]
      show ?thesis
        using IH f(2,3,4) noteof by (auto simp: r0 split: if_splits)
    qed
  qed
qed simp

lemma decode_ihex_state:
  assumes "decode_ihex input la = Inr img"
  obtains st where "ihex_loop la 0 (split_on 10 input) ihex_init = Inr st" "ih_eof st"
    "acc_inv (ih_acc st)" "acc_map (ih_acc st) \<noteq> Map.empty" "img = into_image (ih_acc st)"
    "acc_map (ih_acc st) = overlay la (ihex_meaning 0 (split_on 10 input)) Map.empty"
    "\<forall>(a, d) \<in> set (ihex_meaning 0 (split_on 10 input)). d \<noteq> [] \<longrightarrow> la \<le> a"
proof -
  from assms obtain st where st: "ihex_loop la 0 (split_on 10 input) ihex_init = Inr st"
    "ih_eof st" "\<not> acc_is_empty (ih_acc st)" "img = into_image (ih_acc st)"
    by (auto simp: decode_ihex_def bind_r_Inr_iff split: if_splits)
  with ihex_loop_meaning [OF st(1)] acc_is_empty_iff [of "ih_acc st"] that show ?thesis
    by (simp add: ihex_init_def)
qed

text \<open>
  C15: when decoding succeeds, the image is exactly what the file describes: byte \<open>i\<close> is the
  one the data records put at absolute address \<open>load address + i\<close>, the fill byte where no
  record reaches, the length is the highest described offset plus one, and no record holds a
  byte below the load address.
\<close>

theorem ihex_decode_meaning:
  assumes "decode_ihex input la = Inr img"
  shows "(\<forall>i < length img. img ! i =
            (case overlay la (ihex_meaning 0 (split_on 10 input)) Map.empty i of
               Some b \<Rightarrow> b | None \<Rightarrow> UNWRITTEN_BYTE)) \<and>
         length img = Suc (Max (dom (overlay la (ihex_meaning 0 (split_on 10 input)) Map.empty))) \<and>
         (\<forall>(a, d) \<in> set (ihex_meaning 0 (split_on 10 input)). d \<noteq> [] \<longrightarrow> la \<le> a)"
proof -
  obtain st :: ihex_state where "ihex_loop la 0 (split_on 10 input) ihex_init = Inr st" "ih_eof st"
    and st: "acc_inv (ih_acc st)" "acc_map (ih_acc st) \<noteq> Map.empty" "img = into_image (ih_acc st)"
    "acc_map (ih_acc st) = overlay la (ihex_meaning 0 (split_on 10 input)) Map.empty"
    "\<forall>(a, d) \<in> set (ihex_meaning 0 (split_on 10 input)). d \<noteq> [] \<longrightarrow> la \<le> a"
    by (rule decode_ihex_state [OF assms])
  show ?thesis
    using into_image_nth [OF st(1)] acc_extent [OF st(1)] st(2,5) by (simp add: st(3) flip: st(4))
qed

theorem ihex_decode_meaning_witness:
  "overlay 16 (ihex_meaning 0 (split_on 10 (encode_ihex [7, 8] 16))) Map.empty 1 = Some 8"
proof -
  have "decode_ihex (encode_ihex [7, 8] 16) 16 = Inr [7, 8]"
    by (rule ihex_encode_decode) (simp_all add: MAX_IMAGE_SIZE_def)
  then have "[7, 8 :: u8] ! 1 =
      (case overlay 16 (ihex_meaning 0 (split_on 10 (encode_ihex [7, 8] 16))) Map.empty 1 of
         Some b \<Rightarrow> b | None \<Rightarrow> UNWRITTEN_BYTE)"
    by (rule ihex_decode_meaning [THEN conjunct1, rule_format]) simp
  then show ?thesis
    by (cases "overlay 16 (ihex_meaning 0 (split_on 10 (encode_ihex [7, 8] 16))) Map.empty 1")
      (simp_all only: option.case nth_Cons_Suc One_nat_def nth_Cons_0, simp add: UNWRITTEN_BYTE_def)
qed

section \<open>Framing errors\<close>

lemma ihex_parse_bytes:
  "ihex_parse_record (0x3A # hexs bs) n =
     (if length bs < 5 \<or> length bs \<noteq> unat (bs ! 0) + 5 then Inl (IhexBadLength n)
      else if byte_sum bs \<noteq> 0
      then Inl (IhexBadChecksum n (- byte_sum (butlast bs)) (last bs))
      else Inr \<lparr>ihex_address = push_bit 8 (ucast (bs ! 1)) OR ucast (bs ! 2),
                ihex_type = bs ! 3, ihex_data = take (unat (bs ! 0)) (drop 4 bs)\<rparr>)"
  by (cases "bs = []")
    (auto simp: ihex_parse_record_def Let_def butlast_conv_take last_conv_nth simp del: hexs_simps)

text \<open>
  C17: the checksum and the byte count together catch every single corrupted byte of a record: a
  record that parses, with any one byte replaced by a different one, is rejected, for its length
  when the byte count itself is hit and for its checksum otherwise.
\<close>

theorem ihex_detects_corruption:
  assumes "ihex_parse_record (0x3A # hexs bs) n = Inr r" "i < length bs" "b \<noteq> bs ! i"
  shows "ihex_parse_record (0x3A # hexs (bs[i := b])) n =
     Inl (if i = 0 then IhexBadLength n
          else IhexBadChecksum n (- byte_sum (butlast (bs[i := b]))) (last (bs[i := b])))"
proof -
  have ok: "5 \<le> length bs" "length bs = unat (bs ! 0) + 5" "byte_sum bs = 0"
    using assms(1) by (auto simp: ihex_parse_bytes split: if_splits)
  show ?thesis
  proof (cases "i = 0")
    case True
    then have "unat (bs[i := b] ! 0) \<noteq> unat (bs ! 0)"
      using assms(2,3) unat_byte_inj by auto
    then show ?thesis using ok True by (simp add: ihex_parse_bytes)
  next
    case False
    have "byte_sum (bs[i := b]) \<noteq> 0"
      using assms(2,3) ok(3) by (simp add: byte_sum_update)
    then show ?thesis using ok False assms(2) by (simp add: ihex_parse_bytes)
  qed
qed

theorem ihex_detects_corruption_witness:
  "ihex_parse_record (0x3A # hexs ([0, 0, 0, 1, 0xFF][3 := 2])) 1 =
     Inl (IhexBadChecksum 1 0xFE 0xFF)"
proof -
  have "ihex_parse_record (0x3A # hexs [0, 0, 0, 1, 0xFF]) 1 =
      Inr \<lparr>ihex_address = 0, ihex_type = 1, ihex_data = []\<rparr>"
    unfolding ihex_parse_bytes by simp
  then have "ihex_parse_record (0x3A # hexs ([0, 0, 0, 1, 0xFF][3 := 2])) 1 =
     Inl (if (3::nat) = 0 then IhexBadLength 1
          else IhexBadChecksum 1 (- byte_sum (butlast ([0, 0, 0, 1, 0xFF][3 := 2])))
                 (last ([0, 0, 0, 1, 0xFF][3 := 2])))"
    by (rule ihex_detects_corruption) simp_all
  then show ?thesis by simp
qed

text \<open>
  A successfully decoded file stays decoded, to the same image, whatever lines are appended
  after it: nothing after the end-of-file record is looked at.
\<close>

theorem ihex_ignores_trailer:
  assumes "decode_ihex input la = Inr img"
  shows "decode_ihex (input @ 10 # junk) la = Inr img"
proof -
  obtain st where "ihex_loop la 0 (split_on 10 input) ihex_init = Inr st" "ih_eof st"
    using assms by (auto simp: decode_ihex_def bind_r_Inr_iff split: if_splits)
  then have "ihex_loop la 0 (split_on 10 (input @ 10 # junk)) ihex_init = Inr st"
    unfolding split_on_split by (rule ihex.run_after_stop)
  with \<open>ihex_loop la 0 (split_on 10 input) ihex_init = Inr st\<close> assms show ?thesis
    by (simp add: decode_ihex_def)
qed

theorem ihex_ignores_trailer_witness:
  "decode_ihex (encode_ihex [1, 2, 3] 0 @ 10 # bytes_of ''not hex'') 0 = Inr [1, 2, 3]"
proof -
  have "decode_ihex (encode_ihex [1, 2, 3] 0) 0 = Inr [1, 2, 3]"
    by (rule ihex_encode_decode) (simp_all add: MAX_IMAGE_SIZE_def)
  then show ?thesis by (rule ihex_ignores_trailer)
qed

text \<open>
  C19: decoding succeeds only on a file that has an end-of-file record, and then gives a
  non-empty image of at most the maximum image size.
\<close>

theorem ihex_decode_bounds:
  assumes "decode_ihex input la = Inr img"
  shows "0 < length img \<and> length img \<le> MAX_IMAGE_SIZE \<and>
     (\<exists>raw \<in> set (split_on 10 input). \<exists>k r.
        ihex_parse_record (trim_ascii raw) k = Inr r \<and> ihex_type r = 1)"
proof -
  obtain st :: ihex_state where run: "ihex_loop la 0 (split_on 10 input) ihex_init = Inr st"
    and eof: "ih_eof st" and inv: "acc_inv (ih_acc st)" and ne: "acc_map (ih_acc st) \<noteq> Map.empty"
    and img: "img = into_image (ih_acc st)"
    "acc_map (ih_acc st) = overlay la (ihex_meaning 0 (split_on 10 input)) Map.empty"
    "\<forall>(a, d) \<in> set (ihex_meaning 0 (split_on 10 input)). d \<noteq> [] \<longrightarrow> la \<le> a"
    by (rule decode_ihex_state [OF assms])
  have "length img \<le> MAX_IMAGE_SIZE"
    using inv by (simp add: img(1) acc_inv_def acc_core_def into_image_def)
  moreover have "0 < length img"
    using acc_extent [OF inv] ne by (simp add: img(1))
  moreover obtain raw k r s s' where "raw \<in> set (split_on 10 input)"
    "ihex_parse_record (trim_ascii raw) k = Inr r" "ihex_step la k r s = Inr s'"
    "\<not> ih_eof s" "ih_eof s'"
    using ihex.run_stopped_by [OF run eof] by (auto simp: ihex_init_def)
  moreover from this have "ihex_type r = 1"
    by (auto simp: ihex_step_def bind_r_Inr_iff split: if_splits)
  ultimately show ?thesis by blast
qed

theorem ihex_decode_bounds_witness:
  "0 < length [1, 2, 3 :: u8] \<and> (\<exists>raw \<in> set (split_on 10 (encode_ihex [1, 2, 3] 0)). \<exists>k r.
        ihex_parse_record (trim_ascii raw) k = Inr r \<and> ihex_type r = 1)"
proof -
  have "decode_ihex (encode_ihex [1, 2, 3] 0) 0 = Inr [1, 2, 3]"
    by (rule ihex_encode_decode) (simp_all add: MAX_IMAGE_SIZE_def)
  from ihex_decode_bounds [OF this] show ?thesis by blast
qed

text \<open>The one image whose encoding does not decode back: the empty one has no data record.\<close>

lemma ihex_empty_image: "decode_ihex (encode_ihex [] la) la = Inl IhexNoData"
proof -
  have "split_on 10 (encode_ihex [] la) = [ihex_line eof_bytes @ [13], []]"
    by (simp add: split_encoded ihex_lines.simps)
  then show ?thesis
    by (simp add: decode_ihex_def ihex_init_def ihex_loop_eof acc_is_empty_def acc_new_def)
qed

end
