(* ===== verification/Srec.thy ===== *)
theory Srec
  imports Record_Lines
begin

text \<open>
  \<open>rust/gen/src/srec.rs\<close>: Motorola S-record decoding and encoding. The decoder's state adds
  the terminator flag, the number of data records seen and the first declared count to the
  image accumulator; its line loop interprets \<open>record_lines\<close>. \<open>srec_meaning\<close> is the abstract
  reading of a file against which the decoder is proved.
\<close>

section \<open>Errors and records\<close>

datatype srec_error =
    SrecMissingS nat
  | SrecBadHex nat
  | SrecBadLength nat
  | SrecBadChecksum nat u8 u8
  | SrecUnsupportedRecordType nat u8
  | SrecAddressBelowLoad nat usize usize
  | SrecOverlappingData usize
  | SrecImageTooLarge usize usize
  | SrecRecordCountMismatch usize usize
  | SrecNoData

fun srec_from_place :: "place_error \<Rightarrow> nat \<Rightarrow> srec_error" where
  "srec_from_place (PlaceAddressBelowLoad address load_addr) line =
     SrecAddressBelowLoad line address load_addr"
| "srec_from_place (PlaceOverlap offset) line = SrecOverlappingData offset"
| "srec_from_place (PlaceTooLarge sz mx) line = SrecImageTooLarge sz mx"

record srec_record =
  srec_type :: u8
  srec_address :: usize
  srec_data :: "u8 list"

definition address_width :: "u8 \<Rightarrow> nat option" where
  "address_width record_type =
     (if record_type = 0 \<or> record_type = 1 \<or> record_type = 5 \<or> record_type = 9 then Some 2
      else if record_type = 2 \<or> record_type = 6 \<or> record_type = 8 then Some 3
      else if record_type = 3 \<or> record_type = 7 then Some 4
      else None)"

definition srec_fold_address :: "u8 list \<Rightarrow> usize" where
  "srec_fold_address bs = fold (\<lambda>b acc. push_bit 8 acc OR unat b) bs 0"

definition srec_parse_record :: "u8 list \<Rightarrow> nat \<Rightarrow> (srec_error, srec_record) result" where
  "srec_parse_record line line_no =
     (if first line \<noteq> Some 0x53 \<and> first line \<noteq> Some 0x73 then Inl (SrecMissingS line_no)
      else bind_r (case get line 1 of
                     Some c \<Rightarrow> if 48 \<le> c \<and> c \<le> 57 then Inr (c - 48) else Inl (SrecBadHex line_no)
                   | None \<Rightarrow> Inl (SrecBadLength line_no)) (\<lambda>record_type.
        case address_width record_type of
          None \<Rightarrow> Inl (SrecUnsupportedRecordType line_no record_type)
        | Some width \<Rightarrow>
            bind_r (ok_or (decode_hex_pairs (drop 2 line)) (SrecBadHex line_no)) (\<lambda>bytes.
              if length bytes < width + 2 then Inl (SrecBadLength line_no)
              else let count = unat (bytes ! 0) in
                if length bytes \<noteq> count + 1 then Inl (SrecBadLength line_no)
                else let sum = byte_sum (take (length bytes - 1) bytes);
                         expected = NOT sum;
                         actual = bytes ! (length bytes - 1) in
                  if expected \<noteq> actual then Inl (SrecBadChecksum line_no expected actual)
                  else Inr \<lparr>srec_type = record_type,
                            srec_address = srec_fold_address (take width (drop 1 bytes)),
                            srec_data = take (length bytes - 1 - (1 + width)) (drop (1 + width) bytes)\<rparr>)))"

section \<open>Decoding\<close>

record srec_state =
  sr_acc :: image_accumulator
  sr_terminated :: bool
  sr_data_records :: usize
  sr_declared :: "usize option"

definition srec_init :: srec_state where
  "srec_init = \<lparr>sr_acc = acc_new, sr_terminated = False, sr_data_records = 0, sr_declared = None\<rparr>"

definition srec_step ::
  "usize \<Rightarrow> nat \<Rightarrow> srec_record \<Rightarrow> srec_state \<Rightarrow> (srec_error, srec_state) result" where
  "srec_step load_addr line_no r st =
     (if srec_type r = 0 then Inr st
      else if 1 \<le> srec_type r \<and> srec_type r \<le> 3 then
        (let st1 = (if srec_data r \<noteq> [] then st\<lparr>sr_data_records := sr_data_records st + 1\<rparr> else st) in
         bind_r (map_err (\<lambda>e. srec_from_place e line_no)
                   (place (srec_address r) load_addr (srec_data r) (sr_acc st1)))
           (\<lambda>acc. Inr (st1\<lparr>sr_acc := acc\<rparr>)))
      else if srec_type r = 5 \<or> srec_type r = 6 then
        Inr (st\<lparr>sr_declared := (case sr_declared st of None \<Rightarrow> Some (srec_address r) | Some n \<Rightarrow> Some n)\<rparr>)
      else if 7 \<le> srec_type r \<and> srec_type r \<le> 9 then Inr (st\<lparr>sr_terminated := True\<rparr>)
      else Inl (SrecUnsupportedRecordType line_no (srec_type r)))"

fun srec_loop ::
  "usize \<Rightarrow> nat \<Rightarrow> u8 list list \<Rightarrow> srec_state \<Rightarrow> (srec_error, srec_state) result" where
  "srec_loop load_addr idx [] st = Inr st"
| "srec_loop load_addr idx (raw_line # rest) st =
     (let line_no = idx + 1; line = trim_ascii raw_line in
      if line = [] then srec_loop load_addr line_no rest st
      else if sr_terminated st then Inr st
      else bind_r (srec_parse_record line line_no) (\<lambda>r.
             bind_r (srec_step load_addr line_no r st) (srec_loop load_addr line_no rest)))"

definition decode_srec :: "u8 list \<Rightarrow> usize \<Rightarrow> (srec_error, u8 list) result" where
  "decode_srec input load_addr =
     bind_r (srec_loop load_addr 0 (split_on 10 input) srec_init) (\<lambda>st.
       case sr_declared st of
         Some declared \<Rightarrow>
           if declared \<noteq> sr_data_records st
           then Inl (SrecRecordCountMismatch declared (sr_data_records st))
           else if acc_is_empty (sr_acc st) then Inl SrecNoData
           else Inr (into_image (sr_acc st))
       | None \<Rightarrow>
           if acc_is_empty (sr_acc st) then Inl SrecNoData
           else Inr (into_image (sr_acc st)))"

interpretation srec: record_lines srec_parse_record srec_step sr_terminated srec_loop
  by unfold_locales (simp_all add: Let_def)

declare srec_loop.simps(2) [simp del]

section \<open>Encoding\<close>

definition data_record_type :: "usize \<Rightarrow> u8" where
  "data_record_type top_address =
     (if top_address \<le> 0xFFFF then 1 else if top_address \<le> 0xFFFFFF then 2 else 3)"

definition push_record :: "u8 list \<Rightarrow> u8 \<Rightarrow> nat \<Rightarrow> usize \<Rightarrow> u8 list \<Rightarrow> u8 list" where
  "push_record out record_type width address data =
     (let count = word_of_nat (width + length data + 1);
          out = out @ bytes_of ''S'';
          out = out @ [48 + record_type];
          out = push_hex8 out count;
          csum = count;
          (out, csum) = fold (\<lambda>i (out, csum).
              let byte = byte_at address i in (push_hex8 out byte, csum + byte))
            (rev [0..<width]) (out, csum);
          (out, csum) = fold (\<lambda>b (out, csum). (push_hex8 out b, csum + b)) data (out, csum);
          out = push_hex8 out (NOT csum)
      in out @ crlf)"

function srec_encode_loop ::
  "u8 list \<Rightarrow> usize \<Rightarrow> u8 \<Rightarrow> nat \<Rightarrow> nat \<Rightarrow> usize \<Rightarrow> u8 list \<Rightarrow> usize \<times> u8 list" where
  "srec_encode_loop data load_addr record_type width offset records out =
     (if offset < length data then
        let chunk_len = min (length data - offset) 16;
            out = push_record out record_type width (wrapping_uadd load_addr offset)
                    (take chunk_len (drop offset data))
        in srec_encode_loop data load_addr record_type width (offset + chunk_len) (records + 1) out
      else (records, out))"
  by pat_completeness auto
termination
  by (relation "measure (\<lambda>(data, load_addr, ty, w, offset, n, out). length data - offset)") auto

declare srec_encode_loop.simps [simp del]

definition encode_srec :: "u8 list \<Rightarrow> usize \<Rightarrow> u8 list" where
  "encode_srec data load_addr =
     (let out = push_record [] 0 2 0 [];
          top_address = wrapping_uadd load_addr (length data - 1);
          record_type = data_record_type top_address;
          width = (case address_width record_type of Some w \<Rightarrow> w | None \<Rightarrow> 0);
          (records, out) = srec_encode_loop data load_addr record_type width 0 0 out;
          out = (if records \<le> 0xFFFF then push_record out 5 2 records []
                 else push_record out 6 3 records []);
          terminator = (if record_type = 1 then 9 else if record_type = 2 then 8 else 7)
      in push_record out terminator width 0 [])"

section \<open>The abstract meaning of a file\<close>

text \<open>The blocks of the data records up to the terminator, and how many of them hold data.\<close>

fun srec_meaning :: "u8 list list \<Rightarrow> (usize \<times> u8 list) list" where
  "srec_meaning [] = []"
| "srec_meaning (raw # rest) =
     (case srec_parse_record (trim_ascii raw) 0 of
        Inl _ \<Rightarrow> srec_meaning rest
      | Inr r \<Rightarrow>
          if srec_type r \<in> {1, 2, 3} then (srec_address r, srec_data r) # srec_meaning rest
          else if srec_type r \<in> {7, 8, 9} then []
          else srec_meaning rest)"

text \<open>The first count a file declares before its terminator.\<close>

fun srec_declared :: "u8 list list \<Rightarrow> usize option" where
  "srec_declared [] = None"
| "srec_declared (raw # rest) =
     (case srec_parse_record (trim_ascii raw) 0 of
        Inl _ \<Rightarrow> srec_declared rest
      | Inr r \<Rightarrow>
          if srec_type r \<in> {5, 6} then Some (srec_address r)
          else if srec_type r \<in> {7, 8, 9} then None
          else srec_declared rest)"

section \<open>What the encoder writes\<close>

definition srec_line :: "u8 \<Rightarrow> u8 list \<Rightarrow> u8 list" where
  "srec_line ty bs = 0x53 # (48 + ty) # hexs (bs @ [NOT (byte_sum bs)])"

definition address_bytes :: "nat \<Rightarrow> usize \<Rightarrow> u8 list" where
  "address_bytes width a = map (byte_at a) (rev [0..<width])"

definition srec_bytes :: "nat \<Rightarrow> usize \<Rightarrow> u8 list \<Rightarrow> u8 list" where
  "srec_bytes width a d = word_of_nat (width + length d + 1) # address_bytes width a @ d"

lemma length_address_bytes [simp]: "length (address_bytes width a) = width"
  by (simp add: address_bytes_def)

lemma srec_fold_address_be: "srec_fold_address bs = be_fold bs"
proof -
  have join: "push_bit 8 x OR unat (b :: u8) = x * 256 + unat b" for x b
  proof -
    have "unat b < 2 ^ 8" using unsigned_less [of b] by simp
    then have "\<not> bit (push_bit 8 x) k \<or> \<not> bit (unat b) k" for k
      by (metis bit_push_bit_iff bit_take_bit_iff linorder_not_less take_bit_nat_eq_self)
    then show ?thesis
      by (simp add: push_bit_eq_mult disjunctive_add [symmetric])
  qed
  show ?thesis by (simp add: srec_fold_address_def be_fold_def join)
qed

lemma srec_fold_address_bytes: "srec_fold_address (address_bytes w a) = a mod 256 ^ w"
  by (simp add: srec_fold_address_be address_bytes_def be_fold_bytes_mod)

lemma push_address_fold:
  "fold (\<lambda>i (out, csum). let byte = f i in (push_hex8 out byte, csum + byte)) is (out, csum) =
     (out @ hexs (map f is), csum + byte_sum (map f is))"
proof (induction "is" arbitrary: out csum)
  case (Cons i "is")
  then show ?case using push_hex8_out [of out "f i"] by (simp add: add.assoc Let_def)
qed simp

lemma push_record_line:
  "push_record out ty width a d = out @ srec_line ty (srec_bytes width a d) @ crlf"
  unfolding push_record_def Let_def push_bytes_fold push_address_fold [unfolded Let_def]
  by (simp add: push_hex8_out [of "out @ _"] push_hex8_out [of "_ # _"] push_hex8_out [of "_ @ _"]
      srec_line_def srec_bytes_def address_bytes_def hexs_append add.assoc)

lemma srec_parse_line:
  assumes "address_width ty = Some w" "w + length d + 1 \<le> 255"
  shows "srec_parse_record (srec_line ty (srec_bytes w a d)) n =
     Inr \<lparr>srec_type = ty, srec_address = a mod 256 ^ w, srec_data = d\<rparr>"
proof -
  have "48 \<le> 48 + ty \<and> 48 + ty \<le> 57"
    using assms(1) by (auto simp: address_width_def split: if_splits)
  moreover obtain c where c: "c = (word_of_nat (w + length d + 1) :: u8)" by blast
  moreover have "unat c = w + length d + 1"
    using assms(2) unfolding c by (subst unat_of_nat) simp
  ultimately show ?thesis
    using assms(1)
    by (simp add: srec_parse_record_def srec_line_def srec_bytes_def get_def Let_def nth_append
        srec_fold_address_bytes flip: c del: hexs_simps of_nat_add of_nat_Suc)
qed

lemma srec_line_clean:
  assumes "address_width ty = Some w"
  shows "srec_line ty bs \<noteq> []"
    and "c \<in> set (srec_line ty bs) \<Longrightarrow> 48 \<le> c \<and> c \<le> 83"
proof -
  have "48 \<le> 48 + ty \<and> 48 + ty \<le> 57"
    using assms by (auto simp: address_width_def split: if_splits)
  then show "c \<in> set (srec_line ty bs) \<Longrightarrow> 48 \<le> c \<and> c \<le> 83"
    using hexs_range [of c]
    by (auto simp: srec_line_def intro: order_trans [of _ 57 83] order_trans [of _ 70 83])
qed (simp add: srec_line_def)

lemma srec_line_no_lf: "address_width ty = Some w \<Longrightarrow> 10 \<notin> set (srec_line ty bs)"
  using srec_line_clean(2) [of ty w 10 bs] by auto

lemma srec_line_trim:
  assumes "address_width ty = Some w"
  shows "trim_ascii (srec_line ty bs @ [13]) = srec_line ty bs"
proof (rule trim_ascii_cr)
  have vis: "\<not> is_ascii_whitespace c" if "c \<in> set (srec_line ty bs)" for c
    using srec_line_clean(2) [OF assms that] by (auto simp: is_ascii_whitespace_def)
  show "srec_line ty bs \<noteq> []" by (rule srec_line_clean [OF assms])
  then show "\<not> is_ascii_whitespace (hd (srec_line ty bs))" "\<not> is_ascii_whitespace (last (srec_line ty bs))"
    by (auto intro!: vis)
qed

lemma srec_loop_line:
  assumes "address_width ty = Some w" "w + length d + 1 \<le> 255" "\<not> sr_terminated st"
  shows "srec_loop la n ((srec_line ty (srec_bytes w a d) @ [13]) # rest) st =
     bind_r (srec_step la (Suc n) \<lparr>srec_type = ty, srec_address = a mod 256 ^ w, srec_data = d\<rparr> st)
       (srec_loop la (Suc n) rest)"
  using srec.run_line [OF srec_line_trim [OF assms(1)] srec_line_clean(1) [OF assms(1)] assms(3)
      srec_parse_line [OF assms(1,2)]] .

text \<open>The encoder's loop as the list of data lines it writes.\<close>

function srec_lines :: "u8 list \<Rightarrow> usize \<Rightarrow> u8 \<Rightarrow> nat \<Rightarrow> nat \<Rightarrow> u8 list list" where
  "srec_lines data la ty w offset =
     (if offset < length data then
        let n = min (length data - offset) 16 in
        srec_line ty (srec_bytes w (wrapping_uadd la offset) (take n (drop offset data))) #
        srec_lines data la ty w (offset + n)
      else [])"
  by pat_completeness auto
termination
  by (relation "measure (\<lambda>(data, la, ty, w, offset). length data - offset)") auto

declare srec_lines.simps [simp del]

lemma srec_encode_loop_lines:
  "srec_encode_loop data la ty w offset k out =
     (k + length (srec_lines data la ty w offset),
      out @ concat (map (\<lambda>l. l @ crlf) (srec_lines data la ty w offset)))"
proof (induction data la ty w offset k out rule: srec_encode_loop.induct)
  case (1 data la ty w offset k out)
  show ?case
  proof (cases "offset < length data")
    case True
    note IH = "1.IH" [OF True refl refl]
    show ?thesis
      unfolding srec_encode_loop.simps [of data la ty w offset] srec_lines.simps [of data la ty w offset]
      using True IH by (simp add: Let_def push_record_line)
  next
    case False
    then show ?thesis by (simp add: srec_encode_loop.simps srec_lines.simps)
  qed
qed

lemma srec_lines_rendered:
  "l \<in> set (srec_lines data la ty w offset) \<Longrightarrow> \<exists>bs. l = srec_line ty bs"
proof (induction data la ty w offset rule: srec_lines.induct)
  case (1 data la ty w offset)
  then show ?case
    by (subst (asm) (2) srec_lines.simps) (auto simp: Let_def split: if_splits)
qed

lemma srec_lines_count: "16 * length (srec_lines data la ty w offset) \<le> length data - offset + 15"
proof (induction data la ty w offset rule: srec_lines.induct)
  case (1 data la ty w offset)
  then show ?case
    by (cases "offset < length data"; cases "length data - offset \<le> 16")
      (simp_all add: srec_lines.simps [of data la ty w offset] Let_def, arith+)
qed

section \<open>Decoding what was encoded\<close>

lemma data_record_type_width:
  assumes "hi < 2 ^ 32"
  obtains w where "address_width (data_record_type hi) = Some w" "hi < 256 ^ w" "w \<le> 4"
    "data_record_type hi \<in> {1, 2, 3}"
proof (cases "hi \<le> 0xFFFF")
  case True
  then show ?thesis by (intro that [of 2]) (auto simp: data_record_type_def address_width_def)
next
  case False
  show ?thesis
  proof (cases "hi \<le> 0xFFFFFF")
    case True
    with False show ?thesis by (intro that [of 3]) (auto simp: data_record_type_def address_width_def)
  next
    case False
    with assms show ?thesis by (intro that [of 4]) (auto simp: data_record_type_def address_width_def)
  qed
qed

lemma srec_run_lines:
  assumes "la + length data \<le> 2 ^ 32" "length data \<le> MAX_IMAGE_SIZE" "offset \<le> length data"
    and "address_width ty = Some w" "w \<le> 4" "ty \<in> {1, 2, 3}" "la + length data \<le> 256 ^ w"
    and "acc_inv (sr_acc st)" "acc_map (sr_acc st) = block_map 0 (take offset data)"
    and "\<not> sr_terminated st"
  shows "\<exists>acc. srec_loop la n (map (\<lambda>l. l @ [13]) (srec_lines data la ty w offset)) st =
      Inr (st\<lparr>sr_acc := acc,
              sr_data_records := sr_data_records st + length (srec_lines data la ty w offset)\<rparr>) \<and>
     acc_inv acc \<and> acc_map acc = block_map 0 data"
  using assms
proof (induction data la ty w offset arbitrary: n st rule: srec_lines.induct)
  case (1 data la ty w offset)
  show ?case
  proof (cases "offset < length data")
    case False
    then show ?thesis using "1.prems" by (auto simp: srec_lines.simps intro!: exI [of _ "sr_acc st"])
  next
    case True
    define k where "k = min (length data - offset) 16"
    define d where "d = take k (drop offset data)"
    define a where "a = la + offset"
    have d: "d \<noteq> []" "length d = k" "k \<le> 16" "0 < k" "offset + k \<le> length data"
      and a: "a < 256 ^ w" "a < 2 ^ 32"
      using True "1.prems"(1,7) by (auto simp: a_def d_def k_def)
    have wadd: "wrapping_uadd la offset = a"
      using a(2) by (simp add: a_def wrapping_uadd_def)
    have lines: "srec_lines data la ty w offset =
        srec_line ty (srec_bytes w a d) # srec_lines data la ty w (offset + k)"
      using True by (subst srec_lines.simps) (simp add: Let_def wadd d_def k_def)
    have off: "length (take offset data) = offset" using True by simp
    obtain acc where put: "place a la d (sr_acc st) = Inr acc" and acc: "acc_inv acc"
      and map: "acc_map acc = block_map 0 (take (offset + k) data)"
      using acc.put_append [OF "1.prems"(8,9) d(1), of la] off d "1.prems"(1,2)
        usize_max_ge_u32 [of "la + offset + k"] take_min_split [OF True, of 16]
      by (auto simp: a_def d_def k_def)
    let ?st1 = "st\<lparr>sr_data_records := sr_data_records st + 1, sr_acc := acc\<rparr>"
    have step: "srec_step la m \<lparr>srec_type = ty, srec_address = a mod 256 ^ w, srec_data = d\<rparr> st = Inr ?st1" for m
      using put d(1) a(1) "1.prems"(6) by (auto simp: srec_step_def)
    obtain acc' where "srec_loop la (Suc n) (map (\<lambda>l. l @ [13]) (srec_lines data la ty w (offset + k))) ?st1 =
      Inr (?st1\<lparr>sr_acc := acc',
              sr_data_records := sr_data_records ?st1 + length (srec_lines data la ty w (offset + k))\<rparr>)"
      "acc_inv acc'" "acc_map acc' = block_map 0 data"
      using "1.IH" [OF True refl, folded k_def, of ?st1 "Suc n"] "1.prems" d acc map by auto
    then show ?thesis
      using "1.prems"(4,5,10) d(2,3)
      by (auto simp: lines srec_loop_line step intro!: exI [of _ acc'])
  qed
qed

lemma srec_step_count:
  "\<not> sr_terminated st \<Longrightarrow> sr_declared st = None \<Longrightarrow>
     srec_loop la n ((srec_line 5 (srec_bytes 2 k []) @ [13]) # rest) st =
       srec_loop la (Suc n) rest (st\<lparr>sr_declared := Some (k mod 65536)\<rparr>)"
  by (subst srec_loop_line [where w = 2]) (simp_all add: address_width_def srec_step_def)

lemma srec_step_header:
  "\<not> sr_terminated st \<Longrightarrow>
     srec_loop la n ((srec_line 0 (srec_bytes 2 0 []) @ [13]) # rest) st = srec_loop la (Suc n) rest st"
  by (subst srec_loop_line [where w = 2]) (simp_all add: address_width_def srec_step_def)

lemma srec_step_terminator:
  assumes "\<not> sr_terminated st" "address_width ty = Some w" "w \<le> 4" "ty \<in> {7, 8, 9}"
  shows "srec_loop la n ((srec_line ty (srec_bytes w a []) @ [13]) # rest) st =
       Inr (st\<lparr>sr_terminated := True\<rparr>)"
  by (subst srec_loop_line [OF assms(2) _ assms(1)])
    (use assms(3,4) in \<open>auto simp: srec_step_def srec.run_stopped\<close>)

definition terminator_of :: "u8 \<Rightarrow> u8" where
  "terminator_of ty = (if ty = 1 then 9 else if ty = 2 then 8 else 7)"

lemma encode_srec_lines:
  assumes "length data \<le> MAX_IMAGE_SIZE" "address_width ty = Some w"
    and "ty = data_record_type (wrapping_uadd la (length data - 1))"
  shows "encode_srec data la = concat (map (\<lambda>l. l @ crlf)
     (srec_line 0 (srec_bytes 2 0 []) # srec_lines data la ty w 0 @
      [srec_line 5 (srec_bytes 2 (length (srec_lines data la ty w 0)) []),
       srec_line (terminator_of ty) (srec_bytes w 0 [])]))"
proof -
  have "length (srec_lines data la ty w 0) \<le> 0xFFFF"
    using srec_lines_count [of data la ty w 0] assms(1) by (simp add: MAX_IMAGE_SIZE_def)
  then show ?thesis
    unfolding encode_srec_def Let_def assms(3) [symmetric] assms(2) option.case
      srec_encode_loop_lines prod.case
    by (simp add: push_record_line terminator_of_def)
qed

lemma srec_encode_decode:
  assumes "data \<noteq> []" "length data \<le> MAX_IMAGE_SIZE" "la + length data \<le> 2 ^ 32"
  shows "decode_srec (encode_srec data la) la = Inr data"
proof -
  let ?hi = "la + length data - 1"
  define ty where "ty = data_record_type ?hi"
  have "?hi < 2 ^ 32" using assms by (cases data) auto
  then obtain w where w: "address_width ty = Some w" "?hi < 256 ^ w" "w \<le> 4" "ty \<in> {1, 2, 3}"
    unfolding ty_def by (rule data_record_type_width)
  let ?lines = "srec_lines data la ty w 0"
  have bound: "la + length data \<le> 256 ^ w" using w(2) by simp
  have wadd: "wrapping_uadd la (length data - 1) = ?hi"
    using assms by (cases data) (auto simp: wrapping_uadd_def)
  have fin: "address_width (terminator_of ty) = Some w" "terminator_of ty \<in> {7, 8, 9}"
    using w(1,4) by (auto simp: terminator_of_def address_width_def split: if_splits)
  have count: "length ?lines mod 65536 = length ?lines"
    using srec_lines_count [of data la ty w 0] assms(2) by (simp add: MAX_IMAGE_SIZE_def)
  have no_lf: "10 \<notin> set l" if "l \<in> set ?lines" for l
    using srec_lines_rendered [OF that] srec_line_no_lf [OF w(1)] by auto
  have split: "split_on 10 (encode_srec data la) =
      (srec_line 0 (srec_bytes 2 0 []) @ [13]) # map (\<lambda>l. l @ [13]) ?lines @
      [srec_line 5 (srec_bytes 2 (length ?lines) []) @ [13],
       srec_line (terminator_of ty) (srec_bytes w 0 []) @ [13], []]"
    unfolding encode_srec_lines [OF assms(2) w(1) ty_def [folded wadd]]
    by (subst split_on_crlf_lines)
      (use no_lf srec_line_no_lf [OF fin(1)] srec_line_no_lf [of 0 2] srec_line_no_lf [of 5 2]
        in \<open>auto simp: address_width_def\<close>)
  obtain acc where run: "srec_loop la 1 (map (\<lambda>l. l @ [13]) ?lines) srec_init =
      Inr (srec_init\<lparr>sr_acc := acc, sr_data_records := length ?lines\<rparr>)"
    and acc: "acc_inv acc" "acc_map acc = block_map 0 data"
    using srec_run_lines [of la data 0 ty w srec_init 1] assms w bound by (auto simp: srec_init_def)
  have init: "\<not> sr_terminated srec_init" "sr_declared srec_init = None"
    by (simp_all add: srec_init_def)
  have "srec_loop la 0 (split_on 10 (encode_srec data la)) srec_init =
      Inr (srec_init\<lparr>sr_acc := acc, sr_data_records := length ?lines,
             sr_declared := Some (length ?lines), sr_terminated := True\<rparr>)"
    unfolding split
    by (simp add: srec_step_header srec.run_append run [unfolded One_nat_def] srec_step_count count
        init srec_step_terminator [OF _ fin(1) w(3) fin(2)])
  moreover have "acc_map acc \<noteq> Map.empty"
    using assms(1) dom_block_map [of 0 data] by (auto simp: acc(2) dom_def)
  ultimately show ?thesis
    using acc by (simp add: decode_srec_def acc_is_empty_iff into_image_block)
qed

text \<open>
  C14: encoding an image as S-records and decoding the text with the same load address gives the
  image back, for every non-empty image that fits the maximum image size and a 32-bit address,
  whichever of the three address widths the encoder picks.
\<close>

theorem srec_roundtrip:
  assumes "data \<noteq> []" "length data \<le> MAX_IMAGE_SIZE" "la + length data \<le> 2 ^ 32"
  shows "decode_srec (encode_srec data la) la = Inr data"
  using assms by (rule srec_encode_decode)

theorem srec_roundtrip_witness:
  "decode_srec (encode_srec [0xDE, 0xAD, 0xBE] 0xFFFE) 0xFFFE = Inr [0xDE, 0xAD, 0xBE]"
  by (rule srec_roundtrip) (simp_all add: MAX_IMAGE_SIZE_def)

section \<open>Decoding computes the meaning of the file\<close>

lemma srec_parse_empty [simp]: "srec_parse_record [] n = Inl (SrecMissingS n)"
  by (simp add: srec_parse_record_def)

lemma srec_parse_line_no: "srec_parse_record l n = Inr r \<Longrightarrow> srec_parse_record l m = Inr r"
  unfolding srec_parse_record_def Let_def bind_r_def ok_or_def
  by (simp split: if_split_asm option.split_asm sum.split_asm)

lemma u8_of_unat: "unat (t :: u8) = n \<Longrightarrow> n < 256 \<Longrightarrow> t = word_of_nat n"
  by (rule unat_byte_inj) (simp add: unat_of_nat)

lemma u8_range_cases:
  "1 \<le> (t :: u8) \<and> t \<le> 3 \<longleftrightarrow> t \<in> {1, 2, 3}"
  "7 \<le> (t :: u8) \<and> t \<le> 9 \<longleftrightarrow> t \<in> {7, 8, 9}"
proof -
  have "t \<in> {1, 2, 3}" if "1 \<le> t \<and> t \<le> 3"
  proof -
    have "unat t = 1 \<or> unat t = 2 \<or> unat t = 3"
      using that by (simp add: word_le_nat_alt) arith
    then show ?thesis using u8_of_unat [of t 1] u8_of_unat [of t 2] u8_of_unat [of t 3] by auto
  qed
  then show "1 \<le> t \<and> t \<le> 3 \<longleftrightarrow> t \<in> {1, 2, 3}" by auto
  have "t \<in> {7, 8, 9}" if "7 \<le> t \<and> t \<le> 9"
  proof -
    have "unat t = 7 \<or> unat t = 8 \<or> unat t = 9"
      using that by (simp add: word_le_nat_alt) arith
    then show ?thesis using u8_of_unat [of t 7] u8_of_unat [of t 8] u8_of_unat [of t 9] by auto
  qed
  then show "7 \<le> t \<and> t \<le> 9 \<longleftrightarrow> t \<in> {7, 8, 9}" by auto
qed

lemma srec_step_data:
  assumes "srec_step la n r st = Inr st'" "srec_type r \<in> {1, 2, 3}"
  obtains acc where "place (srec_address r) la (srec_data r) (sr_acc st) = Inr acc"
    "st' = st\<lparr>sr_acc := acc,
               sr_data_records := sr_data_records st + (if srec_data r \<noteq> [] then 1 else 0)\<rparr>"
proof -
  have "srec_type r \<noteq> 0" using assms(2) by auto
  then show ?thesis
    using assms that by (auto simp: srec_step_def u8_range_cases Let_def bind_r_Inr_iff split: if_splits)
qed

lemma srec_step_other:
  assumes "srec_step la n r st = Inr st'" "srec_type r \<notin> {1, 2, 3}"
  shows "st' = st\<lparr>sr_declared := (if srec_type r \<in> {5, 6} \<and> sr_declared st = None
                                   then Some (srec_address r) else sr_declared st),
                  sr_terminated := srec_type r \<in> {7, 8, 9} \<or> sr_terminated st\<rparr>"
proof -
  consider "srec_type r = 0" | "srec_type r \<in> {5, 6}" | "srec_type r \<in> {7, 8, 9}"
    using assms by (auto simp: srec_step_def u8_range_cases Let_def split: if_splits)
  then show ?thesis
    using assms
    by cases (auto simp: srec_step_def u8_range_cases Let_def split: option.splits)
qed

lemma srec_loop_meaning:
  assumes "srec_loop la n ls st = Inr st'" "acc_inv (sr_acc st)" "\<not> sr_terminated st"
  shows "acc_inv (sr_acc st') \<and>
     acc_map (sr_acc st') = overlay la (srec_meaning ls) (acc_map (sr_acc st)) \<and>
     (\<forall>(a, d) \<in> set (srec_meaning ls). d \<noteq> [] \<longrightarrow> la \<le> a) \<and>
     sr_data_records st' =
       sr_data_records st + length (filter (\<lambda>(a, d). d \<noteq> []) (srec_meaning ls)) \<and>
     sr_declared st' = (case sr_declared st of Some c \<Rightarrow> Some c | None \<Rightarrow> srec_declared ls)"
  using assms
proof (induction ls arbitrary: n st)
  case Nil
  then show ?case by (auto split: option.splits)
next
  case (Cons raw ls)
  show ?case
  proof (cases "trim_ascii raw = []")
    case True
    then show ?thesis using Cons by (simp add: srec.run_blank split: option.splits)
  next
    case False
    with Cons.prems obtain r st1 where r: "srec_parse_record (trim_ascii raw) (Suc n) = Inr r"
      and st1: "srec_step la (Suc n) r st = Inr st1" and rest: "srec_loop la (Suc n) ls st1 = Inr st'"
      by (auto simp: srec.run_record bind_r_Inr_iff)
    note r0 = srec_parse_line_no [OF r, of 0]
    show ?thesis
    proof (cases "srec_type r \<in> {1, 2, 3}")
      case True
      from st1 True obtain acc where acc: "place (srec_address r) la (srec_data r) (sr_acc st) = Inr acc"
        and eq: "st1 = st\<lparr>sr_acc := acc,
               sr_data_records := sr_data_records st + (if srec_data r \<noteq> [] then 1 else 0)\<rparr>"
        by (rule srec_step_data)
      note p = place_ok [OF Cons.prems(2) acc]
      have la: "srec_data r \<noteq> [] \<longrightarrow> la \<le> srec_address r"
        using place_ok_iff [OF Cons.prems(2), of "srec_address r" la "srec_data r"] acc by blast
      have IH: "acc_inv (sr_acc st') \<and>
         acc_map (sr_acc st') = overlay la (srec_meaning ls) (acc_map acc) \<and>
         (\<forall>(a, d) \<in> set (srec_meaning ls). d \<noteq> [] \<longrightarrow> la \<le> a) \<and>
         sr_data_records st' = sr_data_records st1 +
           length (filter (\<lambda>(a, d). d \<noteq> []) (srec_meaning ls)) \<and>
         sr_declared st' = (case sr_declared st of Some c \<Rightarrow> Some c | None \<Rightarrow> srec_declared ls)"
        using Cons.IH [OF rest] p Cons.prems(3) by (simp add: eq)
      have ty: "srec_type r \<notin> {5, 6}" "srec_type r \<notin> {7, 8, 9}" using True by auto
      show ?thesis using IH p la True ty by (simp add: r0 eq split: option.splits)
    next
      case notdata: False
      note eq = srec_step_other [OF st1 notdata]
      show ?thesis
      proof (cases "srec_type r \<in> {7, 8, 9}")
        case True
        then have "st' = st1" using rest by (simp add: eq srec.run_stopped)
        moreover have "srec_type r \<notin> {5, 6}" using True by auto
        ultimately show ?thesis using True notdata Cons.prems(2)
          by (auto simp: r0 eq split: option.splits)
      next
        case False
        then show ?thesis
          using Cons.IH [OF rest] notdata Cons.prems(2,3)
          by (cases "srec_type r \<in> {5, 6}") (auto simp: r0 eq split: option.splits)
      qed
    qed
  qed
qed

lemma decode_srec_state:
  assumes "decode_srec input la = Inr img"
  obtains st :: srec_state where "acc_inv (sr_acc st)" "acc_map (sr_acc st) \<noteq> Map.empty"
    "img = into_image (sr_acc st)"
    "acc_map (sr_acc st) = overlay la (srec_meaning (split_on 10 input)) Map.empty"
    "\<forall>(a, d) \<in> set (srec_meaning (split_on 10 input)). d \<noteq> [] \<longrightarrow> la \<le> a"
    "\<forall>c. srec_declared (split_on 10 input) = Some c \<longrightarrow>
       c = length (filter (\<lambda>(a, d). d \<noteq> []) (srec_meaning (split_on 10 input)))"
proof -
  from assms obtain st where st: "srec_loop la 0 (split_on 10 input) srec_init = Inr st"
    "\<not> acc_is_empty (sr_acc st)" "img = into_image (sr_acc st)"
    "sr_declared st \<in> {None, Some (sr_data_records st)}"
    by (auto simp: decode_srec_def bind_r_Inr_iff split: if_splits option.splits)
  have "acc_inv (sr_acc st) \<and>
     acc_map (sr_acc st) = overlay la (srec_meaning (split_on 10 input)) Map.empty \<and>
     (\<forall>(a, d) \<in> set (srec_meaning (split_on 10 input)). d \<noteq> [] \<longrightarrow> la \<le> a) \<and>
     sr_data_records st = length (filter (\<lambda>(a, d). d \<noteq> []) (srec_meaning (split_on 10 input))) \<and>
     sr_declared st = srec_declared (split_on 10 input)"
    using srec_loop_meaning [OF st(1)] by (simp add: srec_init_def)
  with st(2,3,4) acc_is_empty_iff [of "sr_acc st"] that [of st] show ?thesis by auto
qed

text \<open>
  C16: when decoding succeeds, the image is exactly what the file's data records describe (the
  byte put at load address + \<open>i\<close>, or the fill byte), no record holds a byte below the load
  address, and the first declared record count, if any, is the number of data records.
\<close>

theorem srec_decode_meaning:
  assumes "decode_srec input la = Inr img"
  shows "(\<forall>i < length img. img ! i =
            (case overlay la (srec_meaning (split_on 10 input)) Map.empty i of
               Some b \<Rightarrow> b | None \<Rightarrow> UNWRITTEN_BYTE)) \<and>
         length img = Suc (Max (dom (overlay la (srec_meaning (split_on 10 input)) Map.empty))) \<and>
         (\<forall>(a, d) \<in> set (srec_meaning (split_on 10 input)). d \<noteq> [] \<longrightarrow> la \<le> a) \<and>
         (\<forall>c. srec_declared (split_on 10 input) = Some c \<longrightarrow>
            c = length (filter (\<lambda>(a, d). d \<noteq> []) (srec_meaning (split_on 10 input))))"
proof -
  obtain st :: srec_state where st: "acc_inv (sr_acc st)" "acc_map (sr_acc st) \<noteq> Map.empty"
    "img = into_image (sr_acc st)"
    "acc_map (sr_acc st) = overlay la (srec_meaning (split_on 10 input)) Map.empty"
    "\<forall>(a, d) \<in> set (srec_meaning (split_on 10 input)). d \<noteq> [] \<longrightarrow> la \<le> a"
    "\<forall>c. srec_declared (split_on 10 input) = Some c \<longrightarrow>
       c = length (filter (\<lambda>(a, d). d \<noteq> []) (srec_meaning (split_on 10 input)))"
    by (rule decode_srec_state [OF assms])
  show ?thesis
    using into_image_nth [OF st(1)] acc_extent [OF st(1)] st(2,5,6) by (simp add: st(3) flip: st(4))
qed

theorem srec_decode_meaning_witness:
  "overlay 16 (srec_meaning (split_on 10 (encode_srec [7, 8] 16))) Map.empty 1 = Some 8"
proof -
  have "decode_srec (encode_srec [7, 8] 16) 16 = Inr [7, 8]"
    by (rule srec_encode_decode) (simp_all add: MAX_IMAGE_SIZE_def)
  then have "[7, 8 :: u8] ! 1 =
      (case overlay 16 (srec_meaning (split_on 10 (encode_srec [7, 8] 16))) Map.empty 1 of
         Some b \<Rightarrow> b | None \<Rightarrow> UNWRITTEN_BYTE)"
    by (rule srec_decode_meaning [THEN conjunct1, rule_format]) simp
  then show ?thesis
    by (cases "overlay 16 (srec_meaning (split_on 10 (encode_srec [7, 8] 16))) Map.empty 1")
      (simp_all only: option.case nth_Cons_Suc One_nat_def nth_Cons_0, simp add: UNWRITTEN_BYTE_def)
qed

section \<open>Framing errors\<close>

lemma srec_parse_bytes:
  assumes "address_width ty = Some w"
  shows "srec_parse_record (0x53 # (48 + ty) # hexs bs) n =
     (if length bs < w + 2 \<or> length bs \<noteq> unat (bs ! 0) + 1 then Inl (SrecBadLength n)
      else if NOT (byte_sum (butlast bs)) \<noteq> last bs
      then Inl (SrecBadChecksum n (NOT (byte_sum (butlast bs))) (last bs))
      else Inr \<lparr>srec_type = ty, srec_address = srec_fold_address (take w (drop 1 bs)),
                srec_data = take (length bs - 1 - (1 + w)) (drop (1 + w) bs)\<rparr>)"
proof -
  have "48 \<le> 48 + ty \<and> 48 + ty \<le> 57"
    using assms by (auto simp: address_width_def split: if_splits)
  then show ?thesis
    using assms
    by (cases "bs = []")
      (auto simp: srec_parse_record_def get_def Let_def butlast_conv_take last_conv_nth
        simp del: hexs_simps)
qed

lemma byte_sum_butlast: "bs \<noteq> [] \<Longrightarrow> byte_sum bs = byte_sum (butlast bs) + last bs"
  using byte_sum_append [of "butlast bs" "[last bs]"] by simp

lemma srec_checksum_iff: "bs \<noteq> [] \<Longrightarrow> NOT (byte_sum (butlast bs)) = last bs \<longleftrightarrow> byte_sum bs = -1"
  unfolding byte_sum_butlast by (metis add_left_cancel word_add_not)

text \<open>
  C18: every single corrupted byte of an S-record is caught, as for Intel HEX but with the ones'
  complement checksum: as a wrong length when the count byte is hit, as a wrong checksum otherwise.
\<close>

theorem srec_detects_corruption:
  assumes "address_width ty = Some w" "srec_parse_record (0x53 # (48 + ty) # hexs bs) n = Inr r"
    and "i < length bs" "b \<noteq> bs ! i"
  shows "srec_parse_record (0x53 # (48 + ty) # hexs (bs[i := b])) n =
     Inl (if i = 0 then SrecBadLength n
          else SrecBadChecksum n (NOT (byte_sum (butlast (bs[i := b])))) (last (bs[i := b])))"
proof -
  have ne: "bs \<noteq> []" using assms(3) by auto
  then have ok: "w + 2 \<le> length bs" "length bs = unat (bs ! 0) + 1" "byte_sum bs = -1"
    using assms(2,3) srec_checksum_iff [of bs]
    by (auto simp: srec_parse_bytes [OF assms(1)] split: if_splits)
  show ?thesis
  proof (cases "i = 0")
    case True
    then have "unat (bs[i := b] ! 0) \<noteq> unat (bs ! 0)"
      using assms(3,4) unat_byte_inj by auto
    then show ?thesis using ok True by (simp add: srec_parse_bytes [OF assms(1)])
  next
    case False
    have "byte_sum (bs[i := b]) \<noteq> -1"
      using assms(3,4) ok(3) by (simp add: byte_sum_update)
    moreover have "bs[i := b] \<noteq> []" using assms(3) by auto
    ultimately show ?thesis
      using ok False assms(3) srec_checksum_iff [of "bs[i := b]"]
      by (simp add: srec_parse_bytes [OF assms(1)])
  qed
qed

theorem srec_detects_corruption_witness:
  "srec_parse_record (0x53 # (48 + 9) # hexs ([3, 0, 0, 0xFC][2 := 1])) 1 =
     Inl (SrecBadChecksum 1 0xFB 0xFC)"
proof -
  have w: "address_width 9 = Some 2" by (simp add: address_width_def)
  have "srec_parse_record (0x53 # (48 + 9) # hexs [3, 0, 0, 0xFC]) 1 =
      Inr \<lparr>srec_type = 9, srec_address = 0, srec_data = []\<rparr>"
    unfolding srec_parse_bytes [OF w] by (simp add: srec_fold_address_def)
  with w have "srec_parse_record (0x53 # (48 + 9) # hexs ([3, 0, 0, 0xFC][2 := 1])) 1 =
     Inl (if (2::nat) = 0 then SrecBadLength 1
          else SrecBadChecksum 1 (NOT (byte_sum (butlast ([3, 0, 0, 0xFC][2 := 1]))))
                 (last ([3, 0, 0, 0xFC][2 := 1])))"
    by (rule srec_detects_corruption) simp_all
  then show ?thesis by simp
qed

text \<open>
  The type character alone refuses some lines: not a digit is a hex error, \<open>S4\<close> an unsupported
  type, whatever follows. (The error's comment in the source also assigns it non-digits.)
\<close>

lemma srec_bad_type:
  "srec_parse_record (0x53 # c # rest) n =
     (if c < 48 \<or> 57 < c then Inl (SrecBadHex n)
      else if c = 0x34 then Inl (SrecUnsupportedRecordType n 4)
      else srec_parse_record (0x73 # c # rest) n)"
  by (auto simp: srec_parse_record_def get_def address_width_def)

end
