(* ===== verification/Flash_Place.thy ===== *)
theory Flash_Place
  imports Fw_Version
begin

text \<open>
  The flash chips of a board and where the v2 builder places ROM slots on them:
  \<open>rust/gen/src/flash.rs\<close>. Addresses and sizes are \<open>u32\<close> values, kept as natural numbers
  with the overflow test of \<open>checked_add\<close> written out.
\<close>

section \<open>The chips of a board\<close>

definition METADATA_OFFSET :: nat where "METADATA_OFFSET = 0xC000"
definition METADATA_SIZE :: nat where "METADATA_SIZE = 0x4000"
definition FLASH_CS1_BASE_ADDR :: nat where "FLASH_CS1_BASE_ADDR = 0x11000000"

record flash_chips =
  fc_size :: board_size
  fc_first_base :: nat
  fc_first_len :: nat
  fc_second_len :: "nat option"

text \<open>\<open>None\<close> is the panic of \<open>FlashLayout::of\<close> on a size without a layout.\<close>

definition flash_chips_new :: "variant \<Rightarrow> board_size \<Rightarrow> flash_chips option" where
  "flash_chips_new mcu sz =
     (case variant_family mcu of
        Rp2350 \<Rightarrow>
          map_option (\<lambda>layout. \<lparr>fc_size = sz, fc_first_base = get_flash_base (variant_family mcu),
              fc_first_len = flash_size_bytes (fl_cs0 layout),
              fc_second_len = (if fl_cs1 layout \<noteq> FlashSizeNone
                then Some (flash_size_bytes (fl_cs1 layout)) else None)\<rparr>)
            (flash_layout_of sz)
      | Stm32f4 \<Rightarrow>
          Some \<lparr>fc_size = sz, fc_first_base = get_flash_base (variant_family mcu),
            fc_first_len = flash_storage_bytes mcu, fc_second_len = None\<rparr>)"

definition first_end :: "flash_chips \<Rightarrow> nat" where
  "first_end c = fc_first_base c + fc_first_len c"

definition second_range :: "flash_chips \<Rightarrow> (nat \<times> nat) option" where
  "second_range c =
     map_option (\<lambda>len. (FLASH_CS1_BASE_ADDR, FLASH_CS1_BASE_ADDR + len)) (fc_second_len c)"

definition rom_data_start :: "flash_chips \<Rightarrow> nat" where
  "rom_data_start c = fc_first_base c + METADATA_OFFSET + METADATA_SIZE"

section \<open>Placing slots\<close>

record space =
  sp_next :: nat
  sp_end :: nat

definition space_take :: "space \<Rightarrow> nat \<Rightarrow> (nat \<times> space) option" where
  "space_take s sz =
     (let stop = sp_next s + sz in
      if stop < 2 ^ 32 \<and> stop \<le> sp_end s then Some (sp_next s, s\<lparr>sp_next := stop\<rparr>) else None)"

datatype slot_error = SlotDoesNotFit nat

fun place_loop :: "space \<Rightarrow> space option \<Rightarrow> nat \<Rightarrow> nat list \<Rightarrow> (slot_error, nat list) result" where
  "place_loop one two slot [] = Inr []"
| "place_loop one two slot (sz # sizes) =
     (case space_take one sz of
        Some (addr, one) \<Rightarrow>
          bind_r (place_loop one two (Suc slot) sizes) (\<lambda>addrs. Inr (addr # addrs))
      | None \<Rightarrow>
          (case Option.bind two (\<lambda>s. space_take s sz) of
             Some (addr, s) \<Rightarrow>
               bind_r (place_loop one (Some s) (Suc slot) sizes) (\<lambda>addrs. Inr (addr # addrs))
           | None \<Rightarrow> Inl (SlotDoesNotFit slot)))"

definition slot_addresses :: "flash_chips \<Rightarrow> nat list \<Rightarrow> (slot_error, nat list) result" where
  "slot_addresses chips sizes =
     place_loop \<lparr>sp_next = rom_data_start chips, sp_end = first_end chips\<rparr>
       (map_option (\<lambda>(start, stop). \<lparr>sp_next = start, sp_end = stop\<rparr>) (second_range chips)) 0 sizes"

section \<open>First fit\<close>

text \<open>
  What the loop computes, told from the slots placed so far (each its address and size)
  rather than from the mutable spaces: a slot goes behind the earlier slots of the first chip
  if it fits there, and else behind those of the second.
\<close>

definition on_first :: "flash_chips \<Rightarrow> nat \<Rightarrow> bool" where
  "on_first chips addr \<longleftrightarrow> addr \<le> first_end chips"

definition used_first :: "flash_chips \<Rightarrow> (nat \<times> nat) list \<Rightarrow> nat" where
  "used_first chips placed = sum_list (map snd (filter (\<lambda>(a, _). on_first chips a) placed))"

definition used_second :: "flash_chips \<Rightarrow> (nat \<times> nat) list \<Rightarrow> nat" where
  "used_second chips placed = sum_list (map snd (filter (\<lambda>(a, _). \<not> on_first chips a) placed))"

definition first_fit :: "flash_chips \<Rightarrow> (nat \<times> nat) list \<Rightarrow> nat \<Rightarrow> nat option" where
  "first_fit chips placed sz =
     (let one = rom_data_start chips + used_first chips placed in
      if one + sz \<le> first_end chips then Some one
      else (case second_range chips of
              None \<Rightarrow> None
            | Some (start, stop) \<Rightarrow>
                let two = start + used_second chips placed in
                if two + sz \<le> stop then Some two else None))"

text \<open>The chips of every supported board lie apart, below \<open>2^32\<close>.\<close>

definition chips_apart :: "flash_chips \<Rightarrow> bool" where
  "chips_apart c \<longleftrightarrow> rom_data_start c \<le> first_end c \<and> first_end c < FLASH_CS1_BASE_ADDR \<and>
     (case second_range c of None \<Rightarrow> True | Some (_, stop) \<Rightarrow> stop < 2 ^ 32)"

lemma flash_chips_new_Some: "\<exists>c. flash_chips_new mcu sz = Some c"
  by (cases mcu; cases sz)
    (simp_all add: flash_chips_new_def flash_layout_of_def FLASH_LAYOUTS_def)

lemma new_chips_apart: "flash_chips_new mcu sz = Some c \<Longrightarrow> chips_apart c"
  by (cases mcu; cases sz)
    (auto simp: flash_chips_new_def flash_layout_of_def FLASH_LAYOUTS_def chips_apart_def
      rom_data_start_def first_end_def second_range_def METADATA_OFFSET_def METADATA_SIZE_def
      FLASH_CS1_BASE_ADDR_def flash_size_bytes_def OTP_FLASH_DEVINFO_SIZE_UNIT_def
      flash_storage_bytes_def)

definition first_space :: "flash_chips \<Rightarrow> (nat \<times> nat) list \<Rightarrow> space" where
  "first_space chips placed =
     \<lparr>sp_next = rom_data_start chips + used_first chips placed, sp_end = first_end chips\<rparr>"

definition second_space :: "flash_chips \<Rightarrow> (nat \<times> nat) list \<Rightarrow> space option" where
  "second_space chips placed =
     map_option (\<lambda>(start, stop). \<lparr>sp_next = start + used_second chips placed, sp_end = stop\<rparr>)
       (second_range chips)"

lemma used_snoc [simp]:
  "used_first chips (p @ [(a, sz)]) = used_first chips p + (if on_first chips a then sz else 0)"
  "used_second chips (p @ [(a, sz)]) = used_second chips p + (if on_first chips a then 0 else sz)"
  by (simp_all add: used_first_def used_second_def)

lemma second_range_start: "second_range c = Some (start, stop) \<Longrightarrow> start = FLASH_CS1_BASE_ADDR"
  by (auto simp: second_range_def)

text \<open>One round of the loop is one application of \<open>first_fit\<close>.\<close>

lemma place_loop_step:
  assumes "chips_apart chips"
  shows "place_loop (first_space chips p) (second_space chips p) k (sz # sizes) =
    (case first_fit chips p sz of
       Some a \<Rightarrow> bind_r (place_loop (first_space chips (p @ [(a, sz)]))
           (second_space chips (p @ [(a, sz)])) (Suc k) sizes) (\<lambda>addrs. Inr (a # addrs))
     | None \<Rightarrow> Inl (SlotDoesNotFit k))"
proof (cases "rom_data_start chips + used_first chips p + sz \<le> first_end chips")
  case True
  then have "on_first chips (rom_data_start chips + used_first chips p)"
    by (simp add: on_first_def)
  moreover have "first_end chips < 2 ^ 32"
    using assms by (simp add: chips_apart_def FLASH_CS1_BASE_ADDR_def)
  ultimately show ?thesis using True
    by (simp add: first_fit_def first_space_def second_space_def space_take_def Let_def ac_simps)
next
  case no_first: False
  show ?thesis
  proof (cases "second_range chips")
    case None
    then show ?thesis using no_first
      by (simp add: first_fit_def first_space_def second_space_def space_take_def Let_def)
  next
    case (Some r)
    obtain start stop where r: "r = (start, stop)" by (cases r)
    have start: "start = FLASH_CS1_BASE_ADDR" using Some r second_range_start by simp
    then have "\<not> on_first chips (start + used_second chips p)"
      using assms by (simp add: on_first_def chips_apart_def)
    moreover have "stop < 2 ^ 32" using assms Some r by (simp add: chips_apart_def)
    ultimately show ?thesis using no_first Some r
      by (auto simp: first_fit_def first_space_def second_space_def space_take_def Let_def ac_simps)
  qed
qed

lemma place_loop_Inr:
  assumes "chips_apart chips"
  shows "place_loop (first_space chips p) (second_space chips p) k sizes = Inr addrs \<longleftrightarrow>
    length addrs = length sizes \<and>
    (\<forall>i<length sizes. first_fit chips (p @ zip (take i addrs) (take i sizes)) (sizes ! i) = Some (addrs ! i))"
proof (induction sizes arbitrary: p k addrs)
  case (Cons sz sizes)
  show ?case
  proof (cases addrs)
    case Nil
    then show ?thesis
      by (auto simp: place_loop_step [OF assms] bind_r_Inr_iff simp del: place_loop.simps split: option.splits)
  next
    case (Cons a as)
    have "place_loop (first_space chips p) (second_space chips p) k (sz # sizes) = Inr (a # as) \<longleftrightarrow>
      first_fit chips p sz = Some a \<and>
      place_loop (first_space chips (p @ [(a, sz)])) (second_space chips (p @ [(a, sz)])) (Suc k) sizes = Inr as"
      by (auto simp: place_loop_step [OF assms] bind_r_Inr_iff simp del: place_loop.simps split: option.splits)
    also have "\<dots> \<longleftrightarrow> length as = length sizes \<and> (\<forall>i<Suc (length sizes).
        first_fit chips (p @ zip (take i (a # as)) (take i (sz # sizes))) ((sz # sizes) ! i) = Some ((a # as) ! i))"
      unfolding Cons.IH All_less_Suc2 by auto
    finally show ?thesis using Cons by simp
  qed
qed auto

lemma place_loop_length: "place_loop one two k sizes = Inr addrs \<Longrightarrow> length addrs = length sizes"
  by (induction one two k sizes arbitrary: addrs rule: place_loop.induct)
    (auto simp: bind_r_Inr_iff split: option.splits prod.splits)

lemma place_loop_Nil: "place_loop one two k [] = Inr []"
  by simp

lemma place_loop_Inl:
  assumes "chips_apart chips"
  shows "place_loop (first_space chips p) (second_space chips p) k sizes = Inl (SlotDoesNotFit n) \<longleftrightarrow>
    (\<exists>i<length sizes. n = k + i \<and> (\<exists>addrs.
      place_loop (first_space chips p) (second_space chips p) k (take i sizes) = Inr addrs \<and>
      first_fit chips (p @ zip addrs (take i sizes)) (sizes ! i) = None))"
proof (induction sizes arbitrary: p k)
  case (Cons sz sizes)
  show ?case
  proof (cases "first_fit chips p sz")
    case None
    then show ?thesis
      by (auto simp: place_loop_step [OF assms] Ex_less_Suc2 place_loop_Nil
          simp del: place_loop.simps intro!: exI [of _ "[]"])
  next
    case (Some a)
    show ?thesis
      using Some
      by (auto simp: place_loop_step [OF assms] Ex_less_Suc2 bind_r_Inl_iff bind_r_Inr_iff Cons
          place_loop_Nil simp del: place_loop.simps)
  qed
qed simp

lemma slot_addresses_spaces: "slot_addresses chips = place_loop (first_space chips []) (second_space chips []) 0"
  by (intro ext)
    (simp add: slot_addresses_def first_space_def second_space_def used_first_def used_second_def)

lemma slot_addresses_Inr:
  assumes "chips_apart chips"
  shows "slot_addresses chips sizes = Inr addrs \<longleftrightarrow> length addrs = length sizes \<and>
    (\<forall>i<length sizes. first_fit chips (zip (take i addrs) (take i sizes)) (sizes ! i) = Some (addrs ! i))"
  using place_loop_Inr [OF assms, of "[]"] by (simp add: slot_addresses_spaces)

text \<open>
  C38: slots are placed first-fit. The loop over the two spaces returns a list of addresses
  exactly when each slot's address is the one \<open>first_fit\<close> gives it behind the slots before it,
  and refuses with the number of the first slot that fits on neither chip behind the slots
  placed before it.
\<close>

theorem slots_first_fit:
  assumes "flash_chips_new mcu sz = Some chips"
  shows "(slot_addresses chips sizes = Inr addrs \<longleftrightarrow> length addrs = length sizes \<and>
      (\<forall>i<length sizes. first_fit chips (zip (take i addrs) (take i sizes)) (sizes ! i) = Some (addrs ! i))) \<and>
    (slot_addresses chips sizes = Inl (SlotDoesNotFit n) \<longleftrightarrow> n < length sizes \<and>
      (\<exists>as. slot_addresses chips (take n sizes) = Inr as \<and>
        first_fit chips (zip as (take n sizes)) (sizes ! n) = None))"
  using slot_addresses_Inr [OF new_chips_apart [OF assms]]
    place_loop_Inl [OF new_chips_apart [OF assms], of "[]" 0 sizes n]
  by (auto simp: slot_addresses_spaces)

theorem slots_first_fit_witness:
  "flash_chips_new RP2350 Size_L = Some \<lparr>fc_size = Size_L, fc_first_base = 0x10000000,
     fc_first_len = 0x200000, fc_second_len = Some 0x200000\<rparr> \<and>
   slot_addresses \<lparr>fc_size = Size_L, fc_first_base = 0x10000000,
     fc_first_len = 0x200000, fc_second_len = Some 0x200000\<rparr> [0x100000, 0x80000, 0x80000, 0x40000] =
     Inr [0x10010000, 0x10110000, 0x11000000, 0x10190000]"
proof
  show c: "flash_chips_new RP2350 Size_L = Some \<lparr>fc_size = Size_L, fc_first_base = 0x10000000,
     fc_first_len = 0x200000, fc_second_len = Some 0x200000\<rparr>"
    by (simp add: flash_chips_new_def flash_layout_of_def FLASH_LAYOUTS_def flash_size_bytes_def
        OTP_FLASH_DEVINFO_SIZE_UNIT_def)
  show "slot_addresses \<lparr>fc_size = Size_L, fc_first_base = 0x10000000,
     fc_first_len = 0x200000, fc_second_len = Some 0x200000\<rparr> [0x100000, 0x80000, 0x80000, 0x40000] =
     Inr [0x10010000, 0x10110000, 0x11000000, 0x10190000]"
    unfolding slots_first_fit [OF c, THEN conjunct1]
    by (simp add: All_less_Suc2 first_fit_def rom_data_start_def first_end_def
        second_range_def used_first_def used_second_def on_first_def METADATA_OFFSET_def
        METADATA_SIZE_def FLASH_CS1_BASE_ADDR_def)
qed

section \<open>Slots do not overlap\<close>

lemma first_fit_address:
  assumes "first_fit chips p sz = Some a" "chips_apart chips"
  shows "if on_first chips a
    then a = rom_data_start chips + used_first chips p \<and> a + sz \<le> first_end chips
    else \<exists>start stop. second_range chips = Some (start, stop) \<and>
      a = start + used_second chips p \<and> a + sz \<le> stop"
proof (cases "rom_data_start chips + used_first chips p + sz \<le> first_end chips")
  case True
  then show ?thesis using assms(1) by (auto simp: first_fit_def Let_def on_first_def)
next
  case False
  then obtain start stop where "second_range chips = Some (start, stop)"
    "a = start + used_second chips p" "a + sz \<le> stop"
    using assms(1) by (auto simp: first_fit_def Let_def split: option.splits if_splits)
  moreover have "first_end chips < start"
    using calculation(1) second_range_start assms(2) by (fastforce simp: chips_apart_def)
  ultimately show ?thesis by (auto simp: on_first_def)
qed

lemma used_take_mono:
  assumes "i \<le> j"
  shows "used_first chips (take i p) \<le> used_first chips (take j p)"
    "used_second chips (take i p) \<le> used_second chips (take j p)"
proof -
  have "take j p = take i p @ take (j - i) (drop i p)" using assms by (metis le_add_diff_inverse take_add)
  then show "used_first chips (take i p) \<le> used_first chips (take j p)"
    "used_second chips (take i p) \<le> used_second chips (take j p)"
    by (simp_all add: used_first_def used_second_def)
qed

lemma used_take_Suc:
  assumes "i < length p"
  shows "used_first chips (take (Suc i) p) = used_first chips (take i p) + (if on_first chips (fst (p ! i)) then snd (p ! i) else 0)"
    "used_second chips (take (Suc i) p) = used_second chips (take i p) + (if on_first chips (fst (p ! i)) then 0 else snd (p ! i))"
  using assms by (cases "p ! i"; simp add: take_Suc_conv_app_nth)+

text \<open>Of two slots on the same chip the later one lies behind the earlier one.\<close>

lemma placed_behind:
  assumes "chips_apart chips" "length addrs = length sizes"
    and fit: "\<And>i. i < length sizes \<Longrightarrow>
      first_fit chips (zip (take i addrs) (take i sizes)) (sizes ! i) = Some (addrs ! i)"
    and "i < j" "j < length sizes" "on_first chips (addrs ! i) = on_first chips (addrs ! j)"
  shows "addrs ! i + sizes ! i \<le> addrs ! j"
proof -
  let ?p = "zip addrs sizes"
  have zt: "zip (take k addrs) (take k sizes) = take k ?p" for k by (simp add: take_zip)
  have i: "i < length sizes" using assms by simp
  note ai = first_fit_address [OF fit [OF i] assms(1), unfolded zt]
    and aj = first_fit_address [OF fit [OF assms(5)] assms(1), unfolded zt]
  have pi: "?p ! i = (addrs ! i, sizes ! i)" using i assms(2) by simp
  note suc = used_take_Suc [of i ?p chips] and mono = used_take_mono [of "Suc i" j chips ?p]
  show ?thesis
    using ai aj suc mono i assms(2,4,6) unfolding pi
    by (cases "on_first chips (addrs ! i)") auto
qed

lemma placed_apart:
  assumes "flash_chips_new mcu sz = Some chips" "slot_addresses chips sizes = Inr addrs"
  shows "length addrs = length sizes \<and>
    (\<forall>i<length sizes. (rom_data_start chips \<le> addrs ! i \<and> addrs ! i + sizes ! i \<le> first_end chips) \<or>
      (\<exists>start stop. second_range chips = Some (start, stop) \<and> first_end chips < start \<and>
        start \<le> addrs ! i \<and> addrs ! i + sizes ! i \<le> stop)) \<and>
    (\<forall>j<length sizes. \<forall>i<j. {addrs ! i ..< addrs ! i + sizes ! i} \<inter> {addrs ! j ..< addrs ! j + sizes ! j} = {})"
proof (intro conjI allI impI)
  note apart = new_chips_apart [OF assms(1)]
  from assms(2) have len: "length addrs = length sizes"
    and fit: "\<And>i. i < length sizes \<Longrightarrow>
      first_fit chips (zip (take i addrs) (take i sizes)) (sizes ! i) = Some (addrs ! i)"
    by (simp_all add: slot_addresses_Inr [OF apart])
  show "length addrs = length sizes" by (rule len)
  have place: "if on_first chips (addrs ! i)
    then rom_data_start chips \<le> addrs ! i \<and> addrs ! i + sizes ! i \<le> first_end chips
    else \<exists>start stop. second_range chips = Some (start, stop) \<and> first_end chips < start \<and>
      start \<le> addrs ! i \<and> addrs ! i + sizes ! i \<le> stop" if i: "i < length sizes" for i
    using first_fit_address [OF fit [OF i] apart] second_range_start apart
    by (fastforce simp: chips_apart_def split: if_splits)
  then show "(rom_data_start chips \<le> addrs ! i \<and> addrs ! i + sizes ! i \<le> first_end chips) \<or>
      (\<exists>start stop. second_range chips = Some (start, stop) \<and> first_end chips < start \<and>
        start \<le> addrs ! i \<and> addrs ! i + sizes ! i \<le> stop)" if "i < length sizes" for i
    using that by meson
  fix i j assume j: "j < length sizes" and "i < j"
  then have i: "i < length sizes" by simp
  show "{addrs ! i ..< addrs ! i + sizes ! i} \<inter> {addrs ! j ..< addrs ! j + sizes ! j} = {}"
  proof (cases "on_first chips (addrs ! i) = on_first chips (addrs ! j)")
    case True
    show ?thesis using placed_behind [OF apart len fit \<open>i < j\<close> j True] by auto
  next
    case False
    then show ?thesis using place [OF i] place [OF j] by (auto split: if_splits)
  qed
qed

text \<open>
  A placement is sound. Each slot has its address, lies whole inside the ROM data of the
  first chip or inside the second chip, and no two slots share a byte.
\<close>

theorem slots_apart:
  assumes "flash_chips_new mcu sz = Some chips" "slot_addresses chips sizes = Inr addrs"
  shows "length addrs = length sizes \<and>
    (\<forall>i<length sizes. (rom_data_start chips \<le> addrs ! i \<and> addrs ! i + sizes ! i \<le> first_end chips) \<or>
      (\<exists>start stop. second_range chips = Some (start, stop) \<and> first_end chips < start \<and>
        start \<le> addrs ! i \<and> addrs ! i + sizes ! i \<le> stop)) \<and>
    (\<forall>j<length sizes. \<forall>i<j. {addrs ! i ..< addrs ! i + sizes ! i} \<inter> {addrs ! j ..< addrs ! j + sizes ! j} = {})"
  by (rule placed_apart [OF assms])

theorem slots_apart_witness:
  "\<exists>c addrs. flash_chips_new F411RE Size_M = Some c \<and> slot_addresses c [0x4000, 0x4000] = Inr addrs \<and>
     {addrs ! 0 ..< addrs ! 0 + 0x4000} \<inter> {addrs ! 1 ..< addrs ! 1 + 0x4000} = {}"
proof -
  define c where "c = \<lparr>fc_size = Size_M, fc_first_base = 0x08000000, fc_first_len = 0x80000, fc_second_len = None\<rparr>"
  have c: "flash_chips_new F411RE Size_M = Some c"
    by (simp add: flash_chips_new_def flash_storage_bytes_def c_def)
  have a: "slot_addresses c [0x4000, 0x4000] = Inr [0x08010000, 0x08014000]"
    by (simp add: slot_addresses_def space_take_def c_def rom_data_start_def first_end_def
        second_range_def METADATA_OFFSET_def METADATA_SIZE_def)
  show ?thesis using c a slots_apart [OF c a] by fastforce
qed

end
