(* ===== verification/Gen_Build.thy ===== *)
theory Gen_Build
  imports Gen_Builder Ihex Srec Rom_Slot Flash_Place
begin

text \<open>
  From a completed builder to chip sets with their images: \<open>build_chip_sets\<close> and
  \<open>chip_sets_with\<close> of \<open>rust/gen/src/builder.rs\<close> and \<open>ChipSet::new\<close> of \<open>rust/gen/src/image.rs\<close>.
  Record-oriented files are decoded before they become chip images. \<open>None\<close> is a panic.
\<close>

section \<open>Errors\<close>

datatype set_error =
    SetNoChips nat
  | SetTooManyChips nat nat nat
  | SetTooFewChips nat nat nat
  | InvalidServeAlg serve_alg
  | OverridesEmpty
  | ServeAlgParamsEmpty

datatype serialize_error = SerOverflow | SerCountOverflow string | SerFieldTooNew string firmware_version

datatype gen_error =
    SetErr set_error
  | ImageErr image_error
  | LoadAddressWithBinary ustr
  | DuplicateUnsupportedForFormat ustr file_format
  | IntelHexErr ustr ihex_error
  | SrecErr ustr srec_error
  | ConfigErr config_error
  | NotReady build_error
  | LayoutErr layout_error
  | TableErr rom_error
  | PlaceErr slot_error
  | ReservedPinInUse nat ustr
  | TooOldForBoardSize firmware_version
  | SerializeErr serialize_error

section \<open>Chip sets\<close>

record chip_set =
  se_id :: nat
  se_set_type :: chip_set_type
  se_serve_alg :: serve_alg
  se_chips :: "chip list"
  se_overrides :: "firmware_config option"

definition check_set_overrides :: "firmware_config option \<Rightarrow> (set_error, unit) result" where
  "check_set_overrides overrides =
     (case overrides of
        None \<Rightarrow> Inr ()
      | Some o' \<Rightarrow>
          bind_r (fail_if (fw_ice o' = None \<and> fw_fire o' = None \<and> fw_led o' = None \<and> fw_swd o' = None \<and>
              fw_serve_alg_params o' = None) OverridesEmpty) (\<lambda>_.
            fail_if (fw_serve_alg_params o' = Some []) ServeAlgParamsEmpty))"

definition chip_set_new ::
  "nat \<Rightarrow> chip_set_type \<Rightarrow> serve_alg \<Rightarrow> chip list \<Rightarrow> firmware_config option \<Rightarrow> (set_error, chip_set) result" where
  "chip_set_new id' set_type alg chips overrides =
     bind_r (fail_if (chips = []) (SetNoChips id')) (\<lambda>_.
     bind_r (fail_if (1 < length chips \<and> set_type = Set_Single) (SetTooManyChips id' 1 (length chips))) (\<lambda>_.
     bind_r (fail_if (length chips = 1 \<and> set_type \<noteq> Set_Single) (SetTooFewChips id' 2 (length chips))) (\<lambda>_.
     bind_r (case set_type of
               Set_Multi \<Rightarrow> Inr AddrOnAnyCs
             | _ \<Rightarrow> if alg \<in> {AlgDefault, AddrOnCs, TwoCsOneAddr} then Inr alg else Inl (InvalidServeAlg alg)) (\<lambda>alg.
     bind_r (check_set_overrides overrides) (\<lambda>_.
       Inr \<lparr>se_id = id', se_set_type = set_type, se_serve_alg = alg, se_chips = chips,
            se_overrides = overrides\<rparr>)))))"

definition set_has_data :: "chip_set \<Rightarrow> bool" where
  "set_has_data s = has_data (hd (se_chips s))"

section \<open>The image of a chip\<close>

definition PAD_BLANK_BYTE :: u8 where "PAD_BLANK_BYTE = 0xAA"

text \<open>\<open>{:#X}\<close>\<close>

definition show_upper_hex :: "nat \<Rightarrow> ustr" where
  "show_upper_hex n = lit ''0x'' @ map upper_digit (digits_of 16 n)"

definition config_filename :: "chip_config \<Rightarrow> ustr" where
  "config_filename c =
     (case cc_label c of
        Some label \<Rightarrow> label
      | None \<Rightarrow>
          let base = (case cc_extract c of
                Some extract \<Rightarrow> cc_file c @ lit ''|'' @ extract
              | None \<Rightarrow> cc_file c);
              base = (case cc_location c of
                Some l \<Rightarrow> base @ lit ''|start='' @ show_upper_hex (lo_start l) @ lit '',length='' @
                  show_upper_hex (lo_length l)
              | None \<Rightarrow> base)
          in if cc_transform c = [] then base
             else base @ lit ''|transform='' @ format_transform_list (cc_transform c))"

fun address_value :: "load_address \<Rightarrow> usize" where "address_value (LoadAddress a) = a"

text \<open>
  The flat image of a file with the byte it is padded with: a record file is decoded, any other
  is taken as it is.
\<close>

definition decode_source ::
  "chip_config \<Rightarrow> u8 list option \<Rightarrow> (gen_error, u8 list option \<times> u8) result" where
  "decode_source c data =
     (let filename = config_filename c; load = address_value (cc_load_address c);
          no_duplicate = (\<lambda>format. fail_if (cc_size_handling c = SH_Duplicate)
            (DuplicateUnsupportedForFormat filename format))
      in
        case (cc_format c, data) of
          (IntelHex, Some raw) \<Rightarrow>
            bind_r (no_duplicate IntelHex) (\<lambda>_.
            bind_r (map_err (IntelHexErr filename) (decode_ihex raw load)) (\<lambda>decoded.
              Inr (Some decoded, UNWRITTEN_BYTE)))
        | (SrecFormat, Some raw) \<Rightarrow>
            bind_r (no_duplicate SrecFormat) (\<lambda>_.
            bind_r (map_err (SrecErr filename) (decode_srec raw load)) (\<lambda>decoded.
              Inr (Some decoded, UNWRITTEN_BYTE)))
        | _ \<Rightarrow> Inr (data, PAD_BLANK_BYTE))"

definition chip_image ::
  "nat \<Rightarrow> chip_set_config \<Rightarrow> chip_config \<Rightarrow> cs_config \<Rightarrow> u8 list option \<Rightarrow> (gen_error, chip) result" where
  "chip_image chip_id st c cs data =
     bind_r (fail_if (cc_format c = Binary \<and> \<not> is_zero (cc_load_address c))
       (LoadAddressWithBinary (config_filename c))) (\<lambda>_.
     bind_r (decode_source c data) (\<lambda>(source, blank).
       map_err ImageErr
         (if source = None \<and> set_standby st \<and> chip_function_of (cc_chip_type c) = FunRom
          then without_image chip_id (config_filename c) (cc_label c) (cc_chip_type c)
            (cc_chip_type_raw c) cs (cc_location c) (cc_transform c)
          else from_raw_rom_image chip_id (config_filename c) (cc_label c) source
            (replicate (ct_size_bytes (cc_chip_type c)) 0) (cc_chip_type c) (cc_chip_type_raw c) cs
            (cc_size_handling c) blank (cc_location c) (cc_transform c))))"

text \<open>The file of a chip: \<open>None\<close> is the panic of \<open>unwrap\<close> on a file that was not added.\<close>

definition chip_file :: "builder \<Rightarrow> nat \<Rightarrow> u8 list option option" where
  "chip_file b chip_id =
     (case bt_get (bu_file_ids b) chip_id of
        None \<Rightarrow> Some None
      | Some file_id \<Rightarrow> map_option Some (bt_get (bu_files b) file_id))"

definition build_chip ::
  "builder \<Rightarrow> nat \<Rightarrow> chip_set_config \<Rightarrow> chip_config \<Rightarrow> (gen_error, chip) result option" where
  "build_chip b chip_id st c =
     Option.bind (chip_cs_config c) (\<lambda>cs.
       map_option (chip_image chip_id st c cs) (chip_file b chip_id))"

fun build_set_chips ::
  "builder \<Rightarrow> chip_set_config \<Rightarrow> nat \<Rightarrow> chip_config list \<Rightarrow> (gen_error, chip list) result option" where
  "build_set_chips b st chip_id [] = Some (Inr [])"
| "build_set_chips b st chip_id (c # cs) =
     bind_p (build_chip b chip_id st c) (\<lambda>chip.
     bind_p (build_set_chips b st (Suc chip_id) cs) (\<lambda>chips. Some (Inr (chip # chips))))"

fun build_sets_loop ::
  "builder \<Rightarrow> serve_alg \<Rightarrow> nat \<Rightarrow> nat \<Rightarrow> chip_set_config list \<Rightarrow> (gen_error, chip_set list) result option" where
  "build_sets_loop b alg set_id chip_id [] = Some (Inr [])"
| "build_sets_loop b alg set_id chip_id (st # sets) =
     bind_p (build_set_chips b st chip_id (st_chips st)) (\<lambda>chips.
     bind_p (Some (map_err SetErr (chip_set_new set_id (st_set_type st)
         (case st_serve_alg st of Some a \<Rightarrow> a | None \<Rightarrow> alg) chips (st_overrides st)))) (\<lambda>s.
     bind_p (build_sets_loop b alg (Suc set_id) (chip_id + length (st_chips st)) sets) (\<lambda>ss.
       Some (Inr (s # ss)))))"

text \<open>The argument \<open>alg\<close> is the serving algorithm of the firmware properties.\<close>

definition build_chip_sets :: "builder \<Rightarrow> serve_alg \<Rightarrow> (gen_error, chip_set list) result option" where
  "build_chip_sets b alg = build_sets_loop b alg 0 0 (cf_chip_sets (bu_config b))"

section \<open>The chips that are built\<close>

lemma from_raw_facts:
  assumes "from_raw_rom_image index filename label source dest ct raw cs sh blank loc transforms = Inr c"
  shows "ch_index c = index" "ch_type c = ct" "ch_type_raw c = raw" "ch_cs_config c = cs"
    "ch_data c = None \<longleftrightarrow> source = None" "source = None \<Longrightarrow> ct_is_ram ct"
    "ch_data c = Some d \<Longrightarrow> length d = length dest"
proof -
  show "ch_data c = Some d \<Longrightarrow> length d = length dest"
  proof -
    assume d: "ch_data c = Some d"
    then obtain img used where size: "ct_size_bytes ct \<le> length dest"
      and r: "reconcile ct filename img used sh blank dest = Inr d"
      using assms by (auto simp: from_raw_rom_image_def Let_def bind_r_Inr_iff split: if_splits option.splits)
    obtain bytes where "fit_image ct used sh blank img = Some bytes" "d = bytes @ drop (served_size ct) dest"
      using r reconcile_fit [OF size] by auto
    then show "length d = length dest" using fit_image_length served_size_le [of ct] size by fastforce
  qed
qed (use assms in \<open>auto simp: from_raw_rom_image_def Let_def bind_r_Inr_iff split: if_splits option.splits\<close>)

lemma decode_source_None: "decode_source c data = Inr (source, blank) \<Longrightarrow> source = None \<longleftrightarrow> data = None"
  by (auto simp: decode_source_def Let_def bind_r_Inr_iff split: file_format.splits option.splits)

lemma chip_image_facts:
  assumes "chip_image i st c cs data = Inr chip"
  shows "ch_index chip = i" "ch_type chip = cc_chip_type c" "ch_type_raw chip = cc_chip_type_raw c"
    "ch_cs_config chip = cs" "ch_data chip = None \<longleftrightarrow> data = None"
    "data = None \<Longrightarrow> ct_is_ram (cc_chip_type c) \<or> set_standby st \<and> chip_function_of (cc_chip_type c) = FunRom"
    "ch_data chip = Some d \<Longrightarrow> length d = ct_size_bytes (cc_chip_type c)"
proof -
  obtain source blank where s: "decode_source c data = Inr (source, blank)"
    and mk: "(if source = None \<and> set_standby st \<and> chip_function_of (cc_chip_type c) = FunRom
          then without_image i (config_filename c) (cc_label c) (cc_chip_type c)
            (cc_chip_type_raw c) cs (cc_location c) (cc_transform c)
          else from_raw_rom_image i (config_filename c) (cc_label c) source
            (replicate (ct_size_bytes (cc_chip_type c)) 0) (cc_chip_type c) (cc_chip_type_raw c) cs
            (cc_size_handling c) blank (cc_location c) (cc_transform c)) = Inr chip"
    using assms by (auto simp: chip_image_def bind_r_Inr_iff)
  note n = decode_source_None [OF s]
  show "ch_index chip = i" "ch_type chip = cc_chip_type c" "ch_type_raw chip = cc_chip_type_raw c"
    "ch_cs_config chip = cs" "ch_data chip = None \<longleftrightarrow> data = None"
    "data = None \<Longrightarrow> ct_is_ram (cc_chip_type c) \<or> set_standby st \<and> chip_function_of (cc_chip_type c) = FunRom"
    "ch_data chip = Some d \<Longrightarrow> length d = ct_size_bytes (cc_chip_type c)"
    using mk n
    by (auto simp: without_image_def bind_r_Inr_iff dest: from_raw_facts split: if_splits)
qed

lemma build_set_chips_Inr:
  "build_set_chips b st n cs = Some (Inr chips) \<Longrightarrow>
     length chips = length cs \<and> (\<forall>j<length cs. build_chip b (n + j) st (cs ! j) = Some (Inr (chips ! j)))"
proof (induction b st n cs arbitrary: chips rule: build_set_chips.induct)
  case (2 b st n c cs)
  then obtain chip chips' where "chips = chip # chips'" "build_chip b n st c = Some (Inr chip)"
    "build_set_chips b st (Suc n) cs = Some (Inr chips')"
    by (auto simp: bind_p_Inr_iff)
  with 2(1) [of chips'] show ?case by (auto simp: nth_Cons split: nat.splits)
qed simp

text \<open>The flat number of the first chip of a set.\<close>

abbreviation first_chip :: "chip_set_config list \<Rightarrow> nat \<Rightarrow> nat" where
  "first_chip sets k \<equiv> length (concat (map st_chips (take k sets)))"

lemma build_sets_loop_Inr:
  "build_sets_loop b alg m n cfgs = Some (Inr sets) \<Longrightarrow>
     length sets = length cfgs \<and>
     (\<forall>k<length cfgs. build_set_chips b (cfgs ! k) (n + first_chip cfgs k) (st_chips (cfgs ! k)) =
          Some (Inr (se_chips (sets ! k))) \<and>
        chip_set_new (m + k) (st_set_type (cfgs ! k))
          (case st_serve_alg (cfgs ! k) of Some a \<Rightarrow> a | None \<Rightarrow> alg)
          (se_chips (sets ! k)) (st_overrides (cfgs ! k)) = Inr (sets ! k))"
proof (induction b alg m n cfgs arbitrary: sets rule: build_sets_loop.induct)
  case (2 b alg m n st cfgs)
  then obtain chips s ss where s: "sets = s # ss" "build_set_chips b st n (st_chips st) = Some (Inr chips)"
    "chip_set_new m (st_set_type st) (case st_serve_alg st of Some a \<Rightarrow> a | None \<Rightarrow> alg) chips (st_overrides st) = Inr s"
    "build_sets_loop b alg (Suc m) (n + length (st_chips st)) cfgs = Some (Inr ss)"
    by (auto simp: bind_p_Inr_iff)
  have "se_chips s = chips" using s(3) by (auto simp: chip_set_new_def bind_r_Inr_iff)
  with 2(1) [OF s(4)] s show ?case
    by (auto simp: nth_Cons add.assoc split: nat.splits)
qed simp

lemma chip_set_new_facts:
  assumes "chip_set_new i ty alg chips ov = Inr s"
  shows "se_id s = i" "se_set_type s = ty" "se_chips s = chips" "se_overrides s = ov" "chips \<noteq> []"
    "ty = Set_Single \<longleftrightarrow> length chips = 1"
    "se_serve_alg s = (if ty = Set_Multi then AddrOnAnyCs else alg)" "se_serve_alg s = AddrOnAnyCs \<longleftrightarrow> ty = Set_Multi"
  using assms
  by (cases ty; cases chips; auto simp: chip_set_new_def bind_r_Inr_iff split: if_splits)+

text \<open>The chip configurations of all sets, flat, by set and place.\<close>

lemma all_chips_nth:
  assumes "k < length (cf_chip_sets c)" "j < length (st_chips (cf_chip_sets c ! k))"
  shows "first_chip (cf_chip_sets c) k + j < length (all_chips c)"
    "all_chips c ! (first_chip (cf_chip_sets c) k + j) = st_chips (cf_chip_sets c ! k) ! j"
proof -
  let ?ss = "cf_chip_sets c"
  have "?ss = take k ?ss @ ?ss ! k # drop (Suc k) ?ss" using assms(1) by (simp add: id_take_nth_drop)
  then have "all_chips c = concat (map st_chips (take k ?ss)) @ st_chips (?ss ! k) @ concat (map st_chips (drop (Suc k) ?ss))"
    unfolding all_chips_def by (metis concat.simps(2) concat_append list.simps(9) map_append)
  then show "first_chip ?ss k + j < length (all_chips c)"
    "all_chips c ! (first_chip ?ss k + j) = st_chips (?ss ! k) ! j"
    using assms(2) by (simp_all add: nth_append)
qed

text \<open>A set built from its configuration.\<close>

lemma built_set:
  assumes "build_chip_sets b alg = Some (Inr sets)" "k < length sets"
  defines "cfg \<equiv> cf_chip_sets (bu_config b) ! k"
  shows "length sets = length (cf_chip_sets (bu_config b))" "length (se_chips (sets ! k)) = length (st_chips cfg)"
    "se_id (sets ! k) = k" "se_set_type (sets ! k) = st_set_type cfg" "se_overrides (sets ! k) = st_overrides cfg"
    "se_chips (sets ! k) \<noteq> []" "st_set_type cfg = Set_Single \<longleftrightarrow> length (st_chips cfg) = 1"
    "se_serve_alg (sets ! k) = AddrOnAnyCs \<longleftrightarrow> st_set_type cfg = Set_Multi"
    "j < length (st_chips cfg) \<Longrightarrow>
      build_chip b (first_chip (cf_chip_sets (bu_config b)) k + j) cfg (st_chips cfg ! j) = Some (Inr (se_chips (sets ! k) ! j))"
proof -
  note L = build_sets_loop_Inr [OF assms(1) [unfolded build_chip_sets_def]]
  then show len: "length sets = length (cf_chip_sets (bu_config b))" by simp
  have chips: "build_set_chips b cfg (first_chip (cf_chip_sets (bu_config b)) k) (st_chips cfg) = Some (Inr (se_chips (sets ! k)))"
    and new: "chip_set_new k (st_set_type cfg) (case st_serve_alg cfg of Some a \<Rightarrow> a | None \<Rightarrow> alg)
      (se_chips (sets ! k)) (st_overrides cfg) = Inr (sets ! k)"
    using L assms(2) len by (simp_all add: cfg_def)
  note c = build_set_chips_Inr [OF chips] and f = chip_set_new_facts [OF new]
  show "length (se_chips (sets ! k)) = length (st_chips cfg)" using c by simp
  show "se_id (sets ! k) = k" "se_set_type (sets ! k) = st_set_type cfg" "se_overrides (sets ! k) = st_overrides cfg"
    "se_chips (sets ! k) \<noteq> []" "se_serve_alg (sets ! k) = AddrOnAnyCs \<longleftrightarrow> st_set_type cfg = Set_Multi"
    using f by simp_all
  show "st_set_type cfg = Set_Single \<longleftrightarrow> length (st_chips cfg) = 1" using f(6) c by simp
  show "j < length (st_chips cfg) \<Longrightarrow>
      build_chip b (first_chip (cf_chip_sets (bu_config b)) k + j) cfg (st_chips cfg ! j) = Some (Inr (se_chips (sets ! k) ! j))"
    using c by simp
qed

lemma build_chip_Inr:
  assumes "build_chip b i st c = Some (Inr chip)"
  obtains cs data where "chip_cs_config c = Some cs" "chip_file b i = Some data" "chip_image i st c cs data = Inr chip"
  using assms by (auto simp: build_chip_def bind_eq_Some_conv)

lemma built_chip:
  assumes "build_chip_sets b alg = Some (Inr sets)" "k < length sets" "j < length (se_chips (sets ! k))"
  defines "chip \<equiv> se_chips (sets ! k) ! j" and "i \<equiv> first_chip (cf_chip_sets (bu_config b)) k + j"
  shows "i < length (all_chips (bu_config b))" "ch_index chip = i"
    "ch_type chip = cc_chip_type (all_chips (bu_config b) ! i)"
    "chip_cs_config (all_chips (bu_config b) ! i) = Some (ch_cs_config chip)"
    "ch_data chip = None \<longleftrightarrow> bt_get (bu_file_ids b) i = None"
    "ch_data chip = Some d \<Longrightarrow> length d = ct_size_bytes (ch_type chip)"
    "ch_data chip = None \<Longrightarrow> ct_is_ram (ch_type chip) \<or>
       set_standby (cf_chip_sets (bu_config b) ! k) \<and> chip_function_of (ch_type chip) = FunRom"
proof -
  note s = built_set [OF assms(1,2)]
  let ?cfg = "cf_chip_sets (bu_config b) ! k"
  have k: "k < length (cf_chip_sets (bu_config b))" and j: "j < length (st_chips ?cfg)"
    using assms(2,3) s(1,2) by simp_all
  note all = all_chips_nth [OF k j]
  obtain cs data where c: "chip_cs_config (st_chips ?cfg ! j) = Some cs" "chip_file b i = Some data"
    "chip_image i ?cfg (st_chips ?cfg ! j) cs data = Inr chip"
    using build_chip_Inr [OF s(9) [OF j]] unfolding i_def chip_def by metis
  note f = chip_image_facts [OF c(3)]
  have "data = None \<longleftrightarrow> bt_get (bu_file_ids b) i = None"
    using c(2) by (auto simp: chip_file_def split: option.splits)
  then show "i < length (all_chips (bu_config b))" "ch_index chip = i"
    "ch_type chip = cc_chip_type (all_chips (bu_config b) ! i)"
    "chip_cs_config (all_chips (bu_config b) ! i) = Some (ch_cs_config chip)"
    "ch_data chip = None \<longleftrightarrow> bt_get (bu_file_ids b) i = None"
    "ch_data chip = Some d \<Longrightarrow> length d = ct_size_bytes (ch_type chip)"
    "ch_data chip = None \<Longrightarrow> ct_is_ram (ch_type chip) \<or>
       set_standby (cf_chip_sets (bu_config b) ! k) \<and> chip_function_of (ch_type chip) = FunRom"
    using all c(1) f unfolding i_def [symmetric] by simp_all
qed

end
