(* ===== verification/Build_V2.thy ===== *)
theory Build_V2
  imports Gen_Build
begin

text \<open>
  The v2 build (\<open>Builder::build_v2\<close> in \<open>rust/gen/src/builder.rs\<close>, \<open>v2/hardware_info.rs\<close>): chip
  sets become slots, slots are placed on the flash chips, and each slot's image is written into
  the ROM data at its place. The metadata header is composed here; its generated serializer and
  the generated table of metadata generations are parameters. \<open>None\<close> is a panic.
\<close>

section \<open>Properties of the firmware\<close>

record firmware_properties =
  pr_version :: firmware_version
  pr_board :: board
  pr_mcu_variant :: variant
  pr_serve_alg :: serve_alg
  pr_boot_logging :: bool
  pr_board_size :: board_size

definition properties_new ::
  "firmware_version \<Rightarrow> board \<Rightarrow> variant \<Rightarrow> serve_alg \<Rightarrow> bool \<Rightarrow> (variant, firmware_properties) result" where
  "properties_new version b mcu alg boot_logging =
     (if variant_family mcu \<noteq> bd_mcu_family b then Inl mcu
      else Inr \<lparr>pr_version = version, pr_board = b, pr_mcu_variant = mcu, pr_serve_alg = alg,
             pr_boot_logging = boot_logging, pr_board_size = Size_M\<rparr>)"

definition with_board_size :: "firmware_properties \<Rightarrow> board_size \<Rightarrow> firmware_properties" where
  "with_board_size p sz = p\<lparr>pr_board_size := sz\<rparr>"

definition supports_board_size :: "firmware_version \<Rightarrow> board_size \<Rightarrow> bool" where
  "supports_board_size version sz \<longleftrightarrow> sz = Size_M \<or> FirmwareVersion 0 8 0 0 \<le> version"

definition board_supports_size :: "board \<Rightarrow> board_size \<Rightarrow> bool option" where
  "board_supports_size b sz =
     map_option (\<lambda>chips. second_range chips = None \<or> bd_external_flash_cs_pin b \<noteq> None)
       (flash_chips_new RP2350 sz)"

section \<open>Hardware information\<close>

definition MAX_IMG_SEL_PINS :: nat where "MAX_IMG_SEL_PINS = 7"
definition MAX_PHYS_PINS :: nat where "MAX_PHYS_PINS = 40"
definition MAX_X_PIN_GPIOS :: nat where "MAX_X_PIN_GPIOS = 2"

datatype rp235x_variant = Rp235xVariantA | Rp235xVariantB

record hardware_info =
  hi_hw_rev :: string
  hi_rp235x :: rp235x_variant
  hi_num_phys_pins :: nat
  hi_usb_capable :: nat
  hi_gpio_vbus :: nat
  hi_gpio_ext_flash_cs :: nat
  hi_gpio_status :: nat
  hi_gpio_neopixel :: nat
  hi_gpio_swdio :: nat
  hi_gpio_swclk :: nat
  hi_gpio_sel :: "nat list"
  hi_sel_jumper_pull :: u8
  hi_gpio_from_phys_pin :: "nat list list"
  hi_gpio_x1 :: "nat list"
  hi_gpio_x2 :: "nat list"

text \<open>The loops that fill arrays; an index out of range is a panic.\<close>

definition row_set :: "nat list list option \<Rightarrow> nat \<Rightarrow> nat list \<Rightarrow> nat list list option" where
  "row_set rows i gpios =
     Option.bind rows (\<lambda>rows.
       if i < length rows then
         map_option (\<lambda>row. rows[i := row]) (foldl array_set (Some (rows ! i)) (enumerate 0 gpios))
       else if gpios = [] then Some rows else None)"

definition pin_gpio_rows :: "(nat \<times> nat list) list \<Rightarrow> nat list list option" where
  "pin_gpio_rows pins =
     foldl (\<lambda>rows (phys_pin, gpios). row_set rows ((phys_pin + 255) mod 256) gpios)
       (Some (replicate MAX_PHYS_PINS (replicate 2 GPIO_NONE))) pins"

definition x_pin_gpios :: "nat \<Rightarrow> (nat \<times> nat list) list \<Rightarrow> nat list" where
  "x_pin_gpios x pins =
     foldl (\<lambda>row (x_pin, gpios).
         if x_pin = x then take MAX_X_PIN_GPIOS gpios @ drop (length (take MAX_X_PIN_GPIOS gpios)) row
         else row)
       (replicate MAX_X_PIN_GPIOS GPIO_NONE) pins"

definition sel_pulls :: "nat list \<Rightarrow> u8" where
  "sel_pulls pulls =
     fold (\<lambda>(i, pull) acc. acc OR push_bit (i mod 8) (of_nat pull AND 1)) (enumerated pulls) 0"

definition rp_variant_code :: "rp_variant \<Rightarrow> rp235x_variant" where
  "rp_variant_code v = (case v of Chip_Set.Rp235xA \<Rightarrow> Rp235xVariantA | Chip_Set.Rp235xB \<Rightarrow> Rp235xVariantB)"

definition build_hardware_info :: "board \<Rightarrow> hardware_info option" where
  "build_hardware_info b =
     Option.bind (bd_rp_variant b) (\<lambda>variant.
     Option.bind (fill_pins MAX_IMG_SEL_PINS (bd_sel_pins b)) (\<lambda>sel.
     map_option (\<lambda>rows.
       \<lparr>hi_hw_rev = bd_name b, hi_rp235x = rp_variant_code variant, hi_num_phys_pins = bd_chip_pins b,
        hi_usb_capable = of_bool (bd_has_usb b),
        hi_gpio_vbus = or_default (bd_usb_vbus_pin b) GPIO_NONE,
        hi_gpio_ext_flash_cs = or_default (bd_external_flash_cs_pin b) GPIO_NONE,
        hi_gpio_status = bd_pin_status b,
        hi_gpio_neopixel = or_default (bd_pin_neo b) GPIO_NONE,
        hi_gpio_swdio = bd_swdio_sel_pin b, hi_gpio_swclk = bd_swclk_sel_pin b,
        hi_gpio_sel = sel, hi_sel_jumper_pull = sel_pulls (bd_sel_jumper_pulls b),
        hi_gpio_from_phys_pin = rows,
        hi_gpio_x1 = x_pin_gpios 1 (bd_x_pin_map b), hi_gpio_x2 = x_pin_gpios 2 (bd_x_pin_map b)\<rparr>)
       (pin_gpio_rows (bd_socket_pin_map b))))"

text \<open>
  What the arrays hold, on a board whose pins are numbered from 1 to \<open>MAX_PHYS_PINS\<close> without
  repetition, each wired to at most two GPIOs.
\<close>

definition header_board_ok :: "board \<Rightarrow> bool" where
  "header_board_ok b \<longleftrightarrow> bd_rp_variant b \<noteq> None \<and> length (bd_sel_pins b) \<le> MAX_IMG_SEL_PINS \<and>
     distinct (map fst (bd_socket_pin_map b)) \<and>
     list_all (\<lambda>(pin, gpios). 1 \<le> pin \<and> pin \<le> MAX_PHYS_PINS \<and> length gpios \<le> 2) (bd_socket_pin_map b)"

definition padded_gpios :: "nat \<Rightarrow> nat list \<Rightarrow> nat list" where
  "padded_gpios n gpios = gpios @ replicate (n - length gpios) GPIO_NONE"

lemma row_set_Some:
  assumes "i < length rows" "rows ! i = replicate 2 GPIO_NONE" "length gpios \<le> 2"
  shows "row_set (Some rows) i gpios = Some (rows[i := padded_gpios 2 gpios])"
  using assms fill_pins_step [of "[]" gpios 2 GPIO_NONE] by (simp add: row_set_def padded_gpios_def)

lemma previous_index:
  fixes pin :: nat
  assumes "1 \<le> pin" "pin \<le> 256"
  shows "(pin + 255) mod 256 = pin - 1"
proof -
  have "pin + 255 = (pin - 1) + 256" using assms by simp
  then show ?thesis using assms by (simp only: mod_add_self2 mod_less)
qed

lemma pin_rows_loop:
  assumes "list_all (\<lambda>(pin, gpios). 1 \<le> pin \<and> pin \<le> MAX_PHYS_PINS \<and> length gpios \<le> 2) pins"
    and "length rows = MAX_PHYS_PINS" "\<forall>row \<in> set rows. length row = 2" "distinct (map fst pins)"
    and "\<forall>pin \<in> fst ` set pins. rows ! (pin - 1) = replicate 2 GPIO_NONE"
  shows "\<exists>rows'. foldl (\<lambda>rows (phys_pin, gpios). row_set rows ((phys_pin + 255) mod 256) gpios) (Some rows) pins = Some rows' \<and>
    length rows' = MAX_PHYS_PINS \<and>
    (\<forall>i<MAX_PHYS_PINS. rows' ! i = (case map_of pins (i + 1) of Some gpios \<Rightarrow> padded_gpios 2 gpios | None \<Rightarrow> rows ! i))"
  using assms
proof (induction pins arbitrary: rows)
  case (Cons pg pins)
  obtain pin gpios where pg: "pg = (pin, gpios)" by fastforce
  have p: "1 \<le> pin" "pin \<le> MAX_PHYS_PINS" "length gpios \<le> 2" using Cons.prems(1) pg by simp_all
  have idx: "(pin + 255) mod 256 = pin - 1"
    using p by (intro previous_index) (simp_all add: MAX_PHYS_PINS_def)
  let ?rows = "rows[pin - 1 := padded_gpios 2 gpios]"
  have row: "rows ! (pin - 1) = replicate 2 GPIO_NONE" using Cons.prems(5) pg by simp
  have i: "pin - 1 < length rows" using p Cons.prems(2) by simp
  then have step: "row_set (Some rows) ((pin + 255) mod 256) gpios = Some ?rows"
    using row_set_Some [of "pin - 1" rows gpios] p(3) row unfolding idx by simp
  have "\<exists>rows'. foldl (\<lambda>rows (phys_pin, gpios). row_set rows ((phys_pin + 255) mod 256) gpios) (Some ?rows) pins = Some rows' \<and>
    length rows' = MAX_PHYS_PINS \<and>
    (\<forall>i<MAX_PHYS_PINS. rows' ! i = (case map_of pins (i + 1) of Some gpios \<Rightarrow> padded_gpios 2 gpios | None \<Rightarrow> ?rows ! i))"
  proof (rule Cons.IH)
    show "list_all (\<lambda>(pin, gpios). 1 \<le> pin \<and> pin \<le> MAX_PHYS_PINS \<and> length gpios \<le> 2) pins"
      "length ?rows = MAX_PHYS_PINS" "distinct (map fst pins)" using Cons.prems by simp_all
    show "\<forall>row \<in> set ?rows. length row = 2"
      using Cons.prems(3) p(3) by (auto simp: padded_gpios_def dest!: set_update_subset_insert [THEN subsetD])
    show "\<forall>q \<in> fst ` set pins. ?rows ! (q - 1) = replicate 2 GPIO_NONE"
    proof
      fix q assume q: "q \<in> fst ` set pins"
      then have "q \<noteq> pin" "1 \<le> q" using Cons.prems(1,4) pg by (auto simp: list_all_iff image_iff)
      then have "q - 1 \<noteq> pin - 1" using p(1) by linarith
      then have "?rows ! (q - 1) = rows ! (q - 1)" by simp
      then show "?rows ! (q - 1) = replicate 2 GPIO_NONE" using Cons.prems(5) q by auto
    qed
  qed
  then obtain rows' where r: "foldl (\<lambda>rows (phys_pin, gpios). row_set rows ((phys_pin + 255) mod 256) gpios) (Some ?rows) pins = Some rows'"
    "length rows' = MAX_PHYS_PINS"
    "\<forall>i<MAX_PHYS_PINS. rows' ! i = (case map_of pins (i + 1) of Some gpios \<Rightarrow> padded_gpios 2 gpios | None \<Rightarrow> ?rows ! i)"
    by blast
  have "map_of pins pin = None" using Cons.prems(4) pg by (simp add: map_of_eq_None_iff)
  then have "rows' ! j = (case map_of (pg # pins) (j + 1) of Some gpios \<Rightarrow> padded_gpios 2 gpios | None \<Rightarrow> rows ! j)"
    if "j < MAX_PHYS_PINS" for j
    using r(3) that i p(1) pg by (cases "j + 1 = pin") (auto simp: nth_list_update split: option.splits)
  with r(1,2) step show ?case by (auto simp: pg)
qed auto

lemma find_map_of:
  "List.find (\<lambda>(key, _). key = k) entries = map_option (Pair k) (map_of entries k)"
  by (induction entries) auto

lemma hardware_info_fields:
  assumes "header_board_ok b"
  shows "\<exists>hw. build_hardware_info b = Some hw \<and>
    hi_gpio_sel hw = padded_gpios MAX_IMG_SEL_PINS (bd_sel_pins b) \<and>
    length (hi_gpio_from_phys_pin hw) = MAX_PHYS_PINS \<and>
    (\<forall>pin \<in> {1..MAX_PHYS_PINS}. hi_gpio_from_phys_pin hw ! (pin - 1) = padded_gpios 2 (gpios_for_socket_pin b pin))"
proof -
  let ?pins = "bd_socket_pin_map b"
  have "\<exists>rows'. foldl (\<lambda>rows (phys_pin, gpios). row_set rows ((phys_pin + 255) mod 256) gpios)
        (Some (replicate MAX_PHYS_PINS (replicate 2 GPIO_NONE))) ?pins = Some rows' \<and>
    length rows' = MAX_PHYS_PINS \<and>
    (\<forall>i<MAX_PHYS_PINS. rows' ! i = (case map_of ?pins (i + 1) of Some gpios \<Rightarrow> padded_gpios 2 gpios
       | None \<Rightarrow> replicate MAX_PHYS_PINS (replicate 2 GPIO_NONE) ! i))"
    using assms by (intro pin_rows_loop) (auto simp: header_board_ok_def list_all_iff)
  then obtain rows where rows: "pin_gpio_rows ?pins = Some rows" "length rows = MAX_PHYS_PINS"
    "\<forall>i<MAX_PHYS_PINS. rows ! i = (case map_of ?pins (i + 1) of Some gpios \<Rightarrow> padded_gpios 2 gpios
       | None \<Rightarrow> replicate MAX_PHYS_PINS (replicate 2 GPIO_NONE) ! i)"
    unfolding pin_gpio_rows_def by blast
  have sel: "fill_pins MAX_IMG_SEL_PINS (bd_sel_pins b) = Some (padded_gpios MAX_IMG_SEL_PINS (bd_sel_pins b))"
    using assms by (simp add: header_board_ok_def fill_pins_Some padded_gpios_def)
  have of: "gpios_for_socket_pin b pin = (case map_of ?pins pin of Some gpios \<Rightarrow> gpios | None \<Rightarrow> [])" for pin
    by (simp add: gpios_for_socket_pin_def find_map_of split: option.splits)
  have "rows ! (pin - 1) = padded_gpios 2 (gpios_for_socket_pin b pin)" if "pin \<in> {1..MAX_PHYS_PINS}" for pin
    using rows(3) [rule_format, of "pin - 1"] that by (auto simp: of padded_gpios_def split: option.splits)
  moreover obtain variant where "bd_rp_variant b = Some variant" using assms by (auto simp: header_board_ok_def)
  ultimately show ?thesis using rows(1,2) sel by (auto simp: build_hardware_info_def)
qed

text \<open>
  The hardware information says what the board says. For a board the arrays have room for,
  it is built without a panic, and holds the GPIOs of each socket pin, and no GPIO for a pin that
  has none, and the select pins in order, the rest of the array unused.
\<close>

theorem hardware_info_of_board:
  assumes "header_board_ok b"
  shows "\<exists>hw. build_hardware_info b = Some hw \<and>
    hi_gpio_sel hw = padded_gpios MAX_IMG_SEL_PINS (bd_sel_pins b) \<and>
    length (hi_gpio_from_phys_pin hw) = MAX_PHYS_PINS \<and>
    (\<forall>pin \<in> {1..MAX_PHYS_PINS}. hi_gpio_from_phys_pin hw ! (pin - 1) = padded_gpios 2 (gpios_for_socket_pin b pin))"
  by (rule hardware_info_fields [OF assms])

section \<open>Slots\<close>

datatype plugin_slot_type = SlotPluginSystem | SlotPluginUser | SlotPluginPio

text \<open>
  The metadata of a slot and of its one ROM, for a plugin: it has no algorithm configuration
  and no pin map. A slot of either kind is one entry of the source's two vectors, the slot and its layouts.
\<close>

record plugin_slot =
  pl_rom_type :: ustr
  pl_filename :: "ustr option"
  pl_chip_size :: nat
  pl_rbcp_rom_type :: nat
  pl_data :: nat
  pl_size :: nat
  pl_slot_type :: plugin_slot_type
  pl_overrides :: "onerom_firmware_overrides option"

datatype built_slot =
    RomSlot "onerom_firmware_overrides rom_slot" addr_layout cs_data_layout
  | PluginSlot plugin_slot

definition NO_IMAGE :: nat where "NO_IMAGE = 0xFFFFFFFF"

fun slot_size :: "built_slot \<Rightarrow> nat" where
  "slot_size (RomSlot s _ _) = rs_size s"
| "slot_size (PluginSlot p) = pl_size p"

fun slot_data :: "built_slot \<Rightarrow> nat" where
  "slot_data (RomSlot s _ _) = rs_data s"
| "slot_data (PluginSlot p) = pl_data p"

fun set_slot_data :: "nat \<Rightarrow> built_slot \<Rightarrow> built_slot" where
  "set_slot_data a (RomSlot s al cd) = RomSlot (s\<lparr>rs_data := a\<rparr>) al cd"
| "set_slot_data a (PluginSlot p) = PluginSlot (p\<lparr>pl_data := a\<rparr>)"

definition override_block :: "chip_set \<Rightarrow> onerom_firmware_overrides option option" where
  "override_block s =
     (case se_overrides s of None \<Rightarrow> Some None | Some o' \<Rightarrow> map_option Some (build_firmware_overrides o'))"

definition plugin_slot_type_of :: "chip_type \<Rightarrow> plugin_slot_type option" where
  "plugin_slot_type_of ct =
     (if is_type ct ''SystemPlugin'' then Some SlotPluginSystem
      else if is_type ct ''UserPlugin'' then Some SlotPluginUser
      else if is_type ct ''PioPlugin'' then Some SlotPluginPio
      else None)"

definition build_plugin_slot :: "chip_set \<Rightarrow> plugin_slot option" where
  "build_plugin_slot s =
     (let c = hd (se_chips s) in
      Option.bind (plugin_slot_type_of (ch_type c)) (\<lambda>ty.
      map_option (\<lambda>overrides.
        \<lparr>pl_rom_type = ch_type_raw c, pl_filename = truncate_filename (chip_filename c),
         pl_chip_size = ct_size_bytes (ch_type c) mod 2 ^ 32,
         pl_rbcp_rom_type = ct_rbcp_type (ch_type c), pl_data = 0,
         pl_size = (case ch_data c of None \<Rightarrow> 0 | Some d \<Rightarrow> length d mod 2 ^ 32),
         pl_slot_type = ty, pl_overrides = overrides\<rparr>)
        (override_block s)))"

definition force_16_bit :: "chip_set \<Rightarrow> bool" where
  "force_16_bit s =
     (case Option.bind (se_overrides s) fw_fire of None \<Rightarrow> False | Some fire \<Rightarrow> fi_force_16_bit fire)"

definition map_err_p :: "('e \<Rightarrow> 'f) \<Rightarrow> ('e, 'a) result option \<Rightarrow> ('f, 'a) result option" where
  "map_err_p h = map_option (map_err h)"

definition lay_out_rom_slot ::
  "board \<Rightarrow> chip_set \<Rightarrow> (gen_error, onerom_firmware_overrides rom_slot \<times> addr_layout \<times> cs_data_layout) result option" where
  "lay_out_rom_slot b s =
     Option.bind (override_block s) (\<lambda>overrides.
     bind_p (map_err_p LayoutErr
       (build_rom_slot b (se_set_type s) (se_chips s) 0 overrides (force_16_bit s))) (\<lambda>(slot, al, cd, _).
       Some (Inr (slot, al, cd))))"

definition check_reserved_pins :: "board \<Rightarrow> reserved_pins \<Rightarrow> alg_config \<Rightarrow> header_pin option" where
  "check_reserved_pins b reserved alg =
     List.find (\<lambda>pin. list_ex (\<lambda>g. bit (used_gpios alg) g \<and> has_gpio_on pin b g) [0..<64])
       (reserved_pin_list reserved)"

text \<open>The loop over the sets, \<open>rom_slot\<close> counting the slots that are no plugin.\<close>

fun build_slots ::
  "board \<Rightarrow> reserved_pins \<Rightarrow> nat \<Rightarrow> chip_set list \<Rightarrow> (gen_error, built_slot list) result option" where
  "build_slots b reserved rom_slot [] = Some (Inr [])"
| "build_slots b reserved rom_slot (s # sets) =
     (if ct_is_plugin (ch_type (hd (se_chips s))) then
        Option.bind (build_plugin_slot s) (\<lambda>p.
        bind_p (build_slots b reserved rom_slot sets) (\<lambda>slots. Some (Inr (PluginSlot p # slots))))
      else
        bind_p (lay_out_rom_slot b s) (\<lambda>(slot, al, cd).
          case check_reserved_pins b reserved (rs_alg slot) of
            Some pin \<Rightarrow> Some (Inl (ReservedPinInUse rom_slot (silkscreen pin)))
          | None \<Rightarrow>
              bind_p (build_slots b reserved (Suc rom_slot) sets) (\<lambda>slots.
                Some (Inr (RomSlot slot al cd # slots)))))"

section \<open>Placing the slots\<close>

definition stored_size :: "chip_set \<Rightarrow> built_slot \<Rightarrow> nat" where
  "stored_size s slot = (if set_has_data s then slot_size slot else 0)"

text \<open>Plugins run from where they are linked: the assertion of the loop, with \<open>contiguous\<close> a \<open>u32\<close>.\<close>

fun plugins_linked :: "nat \<Rightarrow> (chip_set \<times> nat \<times> nat) list \<Rightarrow> bool" where
  "plugins_linked contiguous [] \<longleftrightarrow> True"
| "plugins_linked contiguous ((s, addr, sz) # rest) \<longleftrightarrow>
     (is_type (ch_type (hd (se_chips s))) ''SystemPlugin'' \<or> is_type (ch_type (hd (se_chips s))) ''UserPlugin''
        \<longrightarrow> addr = contiguous) \<and>
     plugins_linked ((contiguous + sz) mod 2 ^ 32) rest"

definition place_slot :: "chip_set \<Rightarrow> built_slot \<Rightarrow> nat \<Rightarrow> built_slot" where
  "place_slot s slot addr = set_slot_data (if set_has_data s then addr else NO_IMAGE) slot"

text \<open>The offset of a flash address in the ROM data.\<close>

definition rom_offset :: "flash_chips \<Rightarrow> nat \<Rightarrow> nat" where
  "rom_offset chips addr =
     (case second_range chips of
        Some (start, stop) \<Rightarrow>
          if start \<le> addr \<and> addr < stop then first_end chips - rom_data_start chips + (addr - start)
          else addr - rom_data_start chips
      | None \<Rightarrow> addr - rom_data_start chips)"

definition rom_data_size :: "flash_chips \<Rightarrow> nat list \<Rightarrow> nat list \<Rightarrow> nat" where
  "rom_data_size chips addrs sizes =
     fold max (map2 (\<lambda>addr sz. rom_offset chips addr + sz) addrs sizes) 0"

section \<open>The ROM data\<close>

fun slot_image :: "chip_set \<Rightarrow> built_slot \<Rightarrow> (gen_error, u8 list) result option" where
  "slot_image s (RomSlot slot al cd) =
     map_err_p TableErr (build_rom_image al cd (se_set_type s) (se_chips s) (oc_dma (rs_alg slot)))"
| "slot_image s (PluginSlot p) =
     Some (Inr (case ch_data (hd (se_chips s)) of None \<Rightarrow> [] | Some d \<Rightarrow> d))"

text \<open>\<open>buf[start..start + image.len()].copy_from_slice(&image)\<close>\<close>

definition write_slice :: "nat \<Rightarrow> u8 list \<Rightarrow> u8 list \<Rightarrow> u8 list option" where
  "write_slice start img buf = (if start + length img \<le> length buf then Some (copy_at start img buf) else None)"

fun write_images ::
  "flash_chips \<Rightarrow> (chip_set \<times> built_slot \<times> nat) list \<Rightarrow> u8 list \<Rightarrow> (gen_error, u8 list) result option" where
  "write_images chips [] buf = Some (Inr buf)"
| "write_images chips ((s, slot, addr) # rest) buf =
     (if \<not> set_has_data s then write_images chips rest buf
      else bind_p (slot_image s slot) (\<lambda>img.
        Option.bind (write_slice (rom_offset chips addr) img buf) (write_images chips rest)))"

section \<open>The build\<close>

definition ONEROM_METADATA_MAGIC :: string where "ONEROM_METADATA_MAGIC = ''ONEROM_METADATA''"

record metadata_header =
  mh_magic :: "u8 list"
  mh_version :: nat
  mh_hw :: hardware_info
  mh_fw_name :: "ustr option"
  mh_fw_serial_number :: "ustr option"
  mh_rom_slot_count :: nat
  mh_boot_logging :: nat
  mh_swd_enabled :: nat
  mh_turbo_boot :: nat
  mh_rom_slots :: "built_slot list"
  mh_reserved_sel_pins :: u8
  mh_reserved_x_pins :: u8

text \<open>The first generation, from the newest down, whose first release is not after the version.\<close>

definition metadata_generation_for :: "(firmware_version \<times> nat) list \<Rightarrow> firmware_version \<Rightarrow> nat option" where
  "metadata_generation_for generations version =
     map_option snd (List.find (\<lambda>(first_release, _). first_release \<le> version) (rev generations))"

definition MIN_SCHEMA_VERSION :: firmware_version where "MIN_SCHEMA_VERSION = FirmwareVersion 0 7 0 0"

text \<open>Slots placed and their images written: the slots with their addresses, and the ROM data.\<close>

definition place_and_write ::
  "flash_chips \<Rightarrow> chip_set list \<Rightarrow> built_slot list \<Rightarrow> (gen_error, built_slot list \<times> u8 list) result option" where
  "place_and_write chips sets slots =
     (let sizes = map2 stored_size sets slots in
      bind_p (Some (map_err PlaceErr (slot_addresses chips sizes))) (\<lambda>addrs.
        if \<not> plugins_linked (rom_data_start chips) (zip sets (zip addrs sizes)) then None
        else
          let placed = map2 (\<lambda>(s, slot) addr. place_slot s slot addr) (zip sets slots) addrs in
          bind_p (write_images chips (zip sets (zip placed addrs))
              (replicate (rom_data_size chips addrs sizes) 0xFF)) (\<lambda>rom.
            Some (Inr (placed, rom)))))"

definition compose_header ::
  "nat \<Rightarrow> config \<Rightarrow> hardware_info \<Rightarrow> reserved_pins \<Rightarrow> built_slot list \<Rightarrow> metadata_header" where
  "compose_header generation c hw reserved slots =
     \<lparr>mh_magic = map of_char ONEROM_METADATA_MAGIC @ [0], mh_version = generation, mh_hw = hw,
      mh_fw_name = cf_instance_name c, mh_fw_serial_number = cf_serial_override c,
      mh_rom_slot_count = length slots mod 256, mh_boot_logging = of_bool (cf_boot_logging c),
      mh_swd_enabled = of_bool (cf_swd_enabled c), mh_turbo_boot = of_bool (cf_turbo_boot c),
      mh_rom_slots = slots, mh_reserved_sel_pins = rp_select reserved,
      mh_reserved_x_pins = rp_x reserved\<rparr>"

text \<open>\<open>build_v2\<close> up to the serializer.\<close>

definition compose_v2 ::
  "(firmware_version \<times> nat) list \<Rightarrow> builder \<Rightarrow> firmware_properties \<Rightarrow>
     (gen_error, metadata_header \<times> u8 list) result option" where
  "compose_v2 generations bu props =
     bind_p (Some (ok_or (metadata_generation_for generations (bu_version bu))
       (ConfigErr (FirmwareTooOld ''the v2 metadata schema'' (bu_version bu) MIN_SCHEMA_VERSION)))) (\<lambda>generation.
     bind_p (Some (map_err ConfigErr (reserved_pins_on (bu_config bu) (pr_board props)))) (\<lambda>reserved.
     bind_p (build_chip_sets bu (pr_serve_alg props)) (\<lambda>sets.
     bind_p (build_slots (pr_board props) reserved 0 sets) (\<lambda>slots.
     Option.bind (flash_chips_new (pr_mcu_variant props) (pr_board_size props)) (\<lambda>chips.
     bind_p (place_and_write chips sets slots) (\<lambda>(placed, rom).
     map_option (\<lambda>hw. Inr (compose_header generation (bu_config bu) hw reserved placed, rom))
       (build_hardware_info (pr_board props))))))))"

text \<open>
  The whole build: \<open>serialize\<close> stands for the generated serializer, writing to a buffer of
  \<open>METADATA_SIZE\<close> bytes at \<open>METADATA_BASE\<close>.
\<close>

definition build_v2 ::
  "(metadata_header \<Rightarrow> (serialize_error, u8 list) result) \<Rightarrow> (firmware_version \<times> nat) list \<Rightarrow> builder \<Rightarrow>
     firmware_properties \<Rightarrow> (gen_error, u8 list \<times> u8 list) result option" where
  "build_v2 serialize generations bu props =
     bind_p (compose_v2 generations bu props) (\<lambda>(header, rom).
       Some (map_err SerializeErr (bind_r (serialize header) (\<lambda>metadata. Inr (metadata, rom)))))"

text \<open>The checks \<open>build\<close> makes before it chooses a builder.\<close>

definition check_build :: "builder \<Rightarrow> firmware_properties \<Rightarrow> (gen_error, unit) result option" where
  "check_build bu props =
     bind_p (Some (fail_if (MAX_SUPPORTED_FIRMWARE_VERSION_V2 < pr_version props)
       (ConfigErr (FirmwareTooNew (pr_version props) MAX_SUPPORTED_FIRMWARE_VERSION_V2)))) (\<lambda>_.
     bind_p (map_err_p NotReady (build_validation bu (pr_version props))) (\<lambda>_.
       Some (fail_if (\<not> supports_board_size (bu_version bu) (pr_board_size props))
         (TooOldForBoardSize (bu_version bu)))))"

section \<open>Writing images apart from each other\<close>

text \<open>The bytes an image placed at an offset covers, and that it lies inside a buffer.\<close>

abbreviation covers :: "nat \<times> u8 list \<Rightarrow> nat \<Rightarrow> bool" where
  "covers w i \<equiv> fst w \<le> i \<and> i < fst w + length (snd w)"

abbreviation fits :: "nat \<Rightarrow> nat \<times> u8 list \<Rightarrow> bool" where
  "fits n w \<equiv> snd w = [] \<or> fst w + length (snd w) \<le> n"

lemma length_copy_at: "fits (length buf) w \<Longrightarrow> length (copy_at (fst w) (snd w) buf) = length buf"
  by (auto simp: copy_at_def)

lemma nth_copy_at:
  assumes "fits (length buf) w" "i < length buf"
  shows "copy_at (fst w) (snd w) buf ! i = (if covers w i then snd w ! (i - fst w) else buf ! i)"
  using assms by (auto simp: copy_at_def nth_append)

definition write_all :: "(nat \<times> u8 list) list \<Rightarrow> u8 list \<Rightarrow> u8 list" where
  "write_all ws buf = fold (\<lambda>w. copy_at (fst w) (snd w)) ws buf"

lemma write_all_apart:
  assumes "\<forall>w \<in> set ws. fits (length buf) w"
    and "\<forall>j k i. j < k \<longrightarrow> k < length ws \<longrightarrow> covers (ws ! j) i \<longrightarrow> \<not> covers (ws ! k) i"
  shows "length (write_all ws buf) = length buf"
    "k < length ws \<Longrightarrow> covers (ws ! k) i \<Longrightarrow> write_all ws buf ! i = snd (ws ! k) ! (i - fst (ws ! k))"
    "i < length buf \<Longrightarrow> \<forall>w \<in> set ws. \<not> covers w i \<Longrightarrow> write_all ws buf ! i = buf ! i"
proof -
  have "length (write_all ws buf) = length buf \<and>
    (\<forall>k<length ws. \<forall>i. covers (ws ! k) i \<longrightarrow> write_all ws buf ! i = snd (ws ! k) ! (i - fst (ws ! k))) \<and>
    (\<forall>i<length buf. (\<forall>w \<in> set ws. \<not> covers w i) \<longrightarrow> write_all ws buf ! i = buf ! i)"
    using assms
  proof (induction ws arbitrary: buf)
    case (Cons w ws)
    let ?buf = "copy_at (fst w) (snd w) buf"
    have fit: "fits (length buf) w" using Cons.prems(1) by simp
    note len = length_copy_at [OF fit] and nth = nth_copy_at [OF fit]
    have apart: "\<not> covers v i" if v: "v \<in> set ws" "covers w i" for v i
    proof -
      obtain k where "k < length ws" "v = ws ! k" using v(1) by (auto simp: in_set_conv_nth)
      then show ?thesis using Cons.prems(2) [rule_format, of 0 "Suc k" i] v(2) by simp
    qed
    have IH: "length (write_all ws ?buf) = length ?buf \<and>
      (\<forall>k<length ws. \<forall>i. covers (ws ! k) i \<longrightarrow> write_all ws ?buf ! i = snd (ws ! k) ! (i - fst (ws ! k))) \<and>
      (\<forall>i<length ?buf. (\<forall>w \<in> set ws. \<not> covers w i) \<longrightarrow> write_all ws ?buf ! i = ?buf ! i)"
    proof (rule Cons.IH)
      show "\<forall>w \<in> set ws. fits (length ?buf) w" unfolding len using Cons.prems(1) by simp
      have "\<not> covers (ws ! k) i" if "j < k" "k < length ws" "covers (ws ! j) i" for j k i
        using Cons.prems(2) [rule_format, of "Suc j" "Suc k" i] that by simp
      then show "\<forall>j k i. j < k \<longrightarrow> k < length ws \<longrightarrow> covers (ws ! j) i \<longrightarrow> \<not> covers (ws ! k) i" by blast
    qed
    have step: "write_all (w # ws) buf = write_all ws ?buf" by (simp add: write_all_def)
    show ?case
      unfolding step
    proof (intro conjI allI impI)
      show "length (write_all ws ?buf) = length buf" using IH len by simp
      fix k i assume k: "k < length (w # ws)" and c: "covers ((w # ws) ! k) i"
      show "write_all ws ?buf ! i = snd ((w # ws) ! k) ! (i - fst ((w # ws) ! k))"
      proof (cases k)
        case 0
        then have i: "covers w i" using c by simp
        then have l: "i < length buf" using fit by auto
        then have "write_all ws ?buf ! i = ?buf ! i" using IH apart i unfolding len by blast
        then show ?thesis using nth [OF l] i 0 by simp
      next
        case (Suc n)
        then show ?thesis using IH k c by simp
      qed
    next
      fix i assume i: "i < length buf" "\<forall>w \<in> set (w # ws). \<not> covers w i"
      then have "\<not> covers w i" "\<forall>w \<in> set ws. \<not> covers w i" by (meson list.set_intros)+
      then show "write_all ws ?buf ! i = buf ! i" using IH nth [OF i(1)] i(1) unfolding len by metis
    qed
  qed (simp add: write_all_def)
  then show "length (write_all ws buf) = length buf"
    "k < length ws \<Longrightarrow> covers (ws ! k) i \<Longrightarrow> write_all ws buf ! i = snd (ws ! k) ! (i - fst (ws ! k))"
    "i < length buf \<Longrightarrow> \<forall>w \<in> set ws. \<not> covers w i \<Longrightarrow> write_all ws buf ! i = buf ! i"
    by blast+
qed

text \<open>What a set contributes to the ROM data: nothing if it has no data.\<close>

fun writes_image :: "flash_chips \<Rightarrow> nat \<Rightarrow> chip_set \<times> built_slot \<times> nat \<Rightarrow> nat \<times> u8 list \<Rightarrow> bool" where
  "writes_image chips n (s, slot, addr) w \<longleftrightarrow> fst w = rom_offset chips addr \<and>
     (if set_has_data s then slot_image s slot = Some (Inr (snd w)) \<and> fst w + length (snd w) \<le> n
      else snd w = [])"

lemma write_images_Inr:
  "write_images chips items buf = Some (Inr rom) \<Longrightarrow>
     \<exists>ws. list_all2 (writes_image chips (length buf)) items ws \<and> rom = write_all ws buf"
proof (induction chips items buf rule: write_images.induct)
  case (2 chips s slot addr rest buf)
  show ?case
  proof (cases "set_has_data s")
    case False
    with 2(1,3) obtain ws where "list_all2 (writes_image chips (length buf)) rest ws" "rom = write_all ws buf"
      by auto
    with False show ?thesis
      by (intro exI [of _ "(rom_offset chips addr, []) # ws"]) (simp add: write_all_def copy_at_def)
  next
    case True
    with 2(3) obtain img where img: "slot_image s slot = Some (Inr img)"
      "rom_offset chips addr + length img \<le> length buf"
      "write_images chips rest (copy_at (rom_offset chips addr) img buf) = Some (Inr rom)"
      by (auto simp: bind_p_Inr_iff write_slice_def bind_eq_Some_conv split: if_splits)
    have len: "length (copy_at (rom_offset chips addr) img buf) = length buf"
      using length_copy_at [of "(rom_offset chips addr, img)" buf] img(2) by simp
    obtain ws where "list_all2 (writes_image chips (length buf)) rest ws"
      "rom = write_all ws (copy_at (rom_offset chips addr) img buf)"
      using 2(2) [of img "copy_at (rom_offset chips addr) img buf"] True img by (auto simp: len write_slice_def)
    with True img show ?thesis
      by (intro exI [of _ "(rom_offset chips addr, img) # ws"]) (simp add: write_all_def)
  qed
qed (simp add: write_all_def)

section \<open>The slots of the sets\<close>

fun slot_for :: "board \<Rightarrow> reserved_pins \<Rightarrow> chip_set \<Rightarrow> built_slot \<Rightarrow> bool" where
  "slot_for b reserved s (PluginSlot p) \<longleftrightarrow>
     ct_is_plugin (ch_type (hd (se_chips s))) \<and> build_plugin_slot s = Some p"
| "slot_for b reserved s (RomSlot slot al cd) \<longleftrightarrow>
     \<not> ct_is_plugin (ch_type (hd (se_chips s))) \<and> lay_out_rom_slot b s = Some (Inr (slot, al, cd)) \<and>
     check_reserved_pins b reserved (rs_alg slot) = None"

lemma build_slots_Inr:
  "build_slots b reserved n sets = Some (Inr slots) \<Longrightarrow> list_all2 (slot_for b reserved) sets slots"
proof (induction b reserved n sets arbitrary: slots rule: build_slots.induct)
  case (2 b reserved n s sets)
  then show ?case
    by (auto simp: bind_p_Inr_iff bind_eq_Some_conv split: if_splits option.splits prod.splits)
qed simp

lemma lay_out_Inr:
  assumes "lay_out_rom_slot b s = Some (Inr (slot, al, cd))"
  obtains ov pref where "build_rom_slot b (se_set_type s) (se_chips s) 0 ov (force_16_bit s) = Some (Inr (slot, al, cd, pref))"
  using assms by (auto simp: lay_out_rom_slot_def map_err_p_def bind_eq_Some_conv bind_p_Inr_iff
      map_option_eq_Some)

lemma table_length:
  assumes "build_rom_slot b set_type chips data ov force = Some (Inr (slot, al, cd, pref))"
    and "build_rom_image al cd set_type chips (oc_dma (rs_alg slot)) = Some (Inr table)"
  shows "length table = rs_size slot"
proof -
  obtain ctx alg where "assemble_slot ctx chips data ov al cd alg = Some (Inr (slot, al, cd, pref))" "rs_alg slot = alg"
    using build_rom_slot_Inr [OF assms(1)] by metis
  then have "rom_table_size al (oc_dma (rs_alg slot)) = Some (rs_size slot)"
    using assemble_slot_Inr(1) by metis
  then obtain wb where wb: "bytes_per_word (oc_dma (rs_alg slot)) = Some wb"
    "rs_size slot = (table_entries al * wb) mod 2 ^ 32"
    by (auto simp: rom_table_size_def)
  obtain banks multi data' ws where t: "table_entries al * wb \<le> MAX_IMAGE_SIZE"
    "map (table_entry (rom_tables_of al cd chips wb banks multi data')) [0..<table_entries al] = map Some ws"
    "table = concat ws"
    by (rule build_rom_image_Inr [OF assms(2) wb(1)])
  have "length w = wb" if "w \<in> set ws" for w
  proof -
    have "Some w \<in> set (map Some ws)" using that by simp
    then obtain i where "table_entry (rom_tables_of al cd chips wb banks multi data') i = Some w"
      unfolding t(2) [symmetric] by auto
    from table_entry_length [OF this] show ?thesis by (simp add: rom_tables_of_def)
  qed
  then have "length table = length ws * wb" unfolding t(3) by (intro length_concat_uniform) simp
  also have "length ws = table_entries al" using t(2) by (metis length_map length_upt diff_zero)
  finally show ?thesis using t(1) wb(2) by (simp add: MAX_IMAGE_SIZE_def)
qed

text \<open>Image lengths are \<open>u32\<close> values in the metadata.\<close>

definition plugin_data_ok :: "chip_set \<Rightarrow> bool" where
  "plugin_data_ok s \<longleftrightarrow> (case ch_data (hd (se_chips s)) of None \<Rightarrow> True | Some d \<Rightarrow> length d < 2 ^ 32)"

lemma slot_image_place [simp]: "slot_image s (place_slot s slot a) = slot_image s slot"
  by (cases slot) (simp_all add: place_slot_def)

lemma slot_image_length:
  assumes "slot_for b reserved s slot" "slot_image s slot = Some (Inr img)" "plugin_data_ok s" "set_has_data s"
  shows "length img = stored_size s slot"
proof (cases slot)
  case (RomSlot sl al cd)
  with assms(1) have "lay_out_rom_slot b s = Some (Inr (sl, al, cd))" by simp
  from assms(2) RomSlot have img: "build_rom_image al cd (se_set_type s) (se_chips s) (oc_dma (rs_alg sl)) = Some (Inr img)"
    by (auto simp: map_err_p_def)
  obtain ov pref where "build_rom_slot b (se_set_type s) (se_chips s) 0 ov (force_16_bit s) = Some (Inr (sl, al, cd, pref))"
    by (rule lay_out_Inr [OF \<open>lay_out_rom_slot b s = Some (Inr (sl, al, cd))\<close>])
  from table_length [OF this img] show ?thesis using assms(4) RomSlot by (simp add: stored_size_def)
next
  case (PluginSlot p)
  with assms show ?thesis
    by (auto simp: stored_size_def build_plugin_slot_def Let_def bind_eq_Some_conv plugin_data_ok_def split: option.splits)
qed

section \<open>Offsets in the ROM data\<close>

lemma rom_offset_first:
  assumes "chips_apart chips" "addr \<le> first_end chips"
  shows "rom_offset chips addr = addr - rom_data_start chips"
  using assms second_range_start by (fastforce simp: rom_offset_def chips_apart_def split: option.splits)

text \<open>Where a slot with bytes lies.\<close>

lemma placed_region:
  assumes "flash_chips_new mcu sz = Some chips" "slot_addresses chips sizes = Inr addrs"
    "i < length sizes" "0 < sizes ! i"
  obtains (first) "rom_data_start chips \<le> addrs ! i" "addrs ! i + sizes ! i \<le> first_end chips"
      "rom_offset chips (addrs ! i) = addrs ! i - rom_data_start chips"
  | (second) start stop where "second_range chips = Some (start, stop)" "first_end chips < start"
      "start \<le> addrs ! i" "addrs ! i + sizes ! i \<le> stop"
      "rom_offset chips (addrs ! i) = first_end chips - rom_data_start chips + (addrs ! i - start)"
proof -
  note apart = new_chips_apart [OF assms(1)] and placed = placed_apart [OF assms(1,2)]
  from placed assms(3) consider
      "rom_data_start chips \<le> addrs ! i" "addrs ! i + sizes ! i \<le> first_end chips"
    | start stop where "second_range chips = Some (start, stop)" "first_end chips < start"
      "start \<le> addrs ! i" "addrs ! i + sizes ! i \<le> stop" by blast
  then show thesis
  proof cases
    case 1
    then show thesis using rom_offset_first [OF apart] by (intro first) auto
  next
    case 2
    then show thesis using assms(4) by (intro second) (auto simp: rom_offset_def)
  qed
qed

lemma offsets_apart:
  assumes "flash_chips_new mcu sz = Some chips" "slot_addresses chips sizes = Inr addrs"
    and "i < length sizes" "j < length sizes" "i \<noteq> j"
    and "rom_offset chips (addrs ! i) \<le> n" "n < rom_offset chips (addrs ! i) + sizes ! i"
  shows "\<not> (rom_offset chips (addrs ! j) \<le> n \<and> n < rom_offset chips (addrs ! j) + sizes ! j)"
proof
  assume n: "rom_offset chips (addrs ! j) \<le> n \<and> n < rom_offset chips (addrs ! j) + sizes ! j"
  have pos: "0 < sizes ! i" "0 < sizes ! j" using assms(6,7) n by linarith+
  have "{addrs ! min i j ..< addrs ! min i j + sizes ! min i j} \<inter>
      {addrs ! max i j ..< addrs ! max i j + sizes ! max i j} = {}"
    using placed_apart [OF assms(1,2)] assms(3-5) by (auto simp: min_def max_def)
  then have apart: "{addrs ! i ..< addrs ! i + sizes ! i} \<inter> {addrs ! j ..< addrs ! j + sizes ! j} = {}"
    by (cases "i \<le> j") (auto simp: min_def max_def Int_commute)
  have both: False if "addrs ! i \<le> x" "x < addrs ! i + sizes ! i" "addrs ! j \<le> x" "x < addrs ! j + sizes ! j" for x
    using apart that by (meson atLeastLessThan_iff disjoint_iff)
  show False
  proof (cases rule: placed_region [OF assms(1-3) pos(1)])
    case first: 1
    then show False
    proof (cases rule: placed_region [OF assms(1,2,4) pos(2)])
      case 1
      show False
        by (rule both [of "n + rom_data_start chips"]) (use first 1 n assms(6,7) in linarith)+
    next
      case (2 start stop)
      with first show False using n assms(6,7) by linarith
    qed
  next
    case second: (2 start stop)
    then show False
    proof (cases rule: placed_region [OF assms(1,2,4) pos(2)])
      case 1
      with second show False using n assms(6,7) by linarith
    next
      case (2 start' stop')
      then have "start' = start" using second(1) by simp
      show False
        by (rule both [of "n - (first_end chips - rom_data_start chips) + start"])
          (use second 2 \<open>start' = start\<close> n assms(6,7) in linarith)+
    qed
  qed
qed

lemma fold_max_ge: "x \<in> set xs \<or> x \<le> m \<Longrightarrow> (x :: nat) \<le> fold max xs m"
proof (induction xs arbitrary: m)
  case (Cons y xs)
  have "x \<in> set xs \<or> x \<le> max y m" using Cons.prems by auto
  from Cons.IH [OF this] show ?case by simp
qed simp

lemma offset_within:
  assumes "length addrs = length sizes" "i < length sizes"
  shows "rom_offset chips (addrs ! i) + sizes ! i \<le> rom_data_size chips addrs sizes"
proof -
  have "map2 (\<lambda>addr sz. rom_offset chips addr + sz) addrs sizes ! i = rom_offset chips (addrs ! i) + sizes ! i"
    using assms by simp
  then have "rom_offset chips (addrs ! i) + sizes ! i \<in> set (map2 (\<lambda>addr sz. rom_offset chips addr + sz) addrs sizes)"
    using assms by (metis length_map length_zip min.idem nth_mem)
  then show ?thesis unfolding rom_data_size_def by (intro fold_max_ge disjI1)
qed

section \<open>The ROM data of a build\<close>

lemma stored_size_no_data: "\<not> set_has_data s \<Longrightarrow> stored_size s slot = 0"
  by (simp add: stored_size_def)

lemma take_drop_nth:
  assumes "\<And>i. i < n \<Longrightarrow> xs ! (o' + i) = ys ! i" "length ys = n" "o' + n \<le> length xs"
  shows "take n (drop o' xs) = ys"
  using assms by (intro nth_equalityI) auto

lemma slot_fields_place [simp]:
  "slot_size (place_slot s slot a) = slot_size slot"
  "slot_data (place_slot s slot a) = (if set_has_data s then a else NO_IMAGE)"
  by (cases slot; simp add: place_slot_def)+

text \<open>The bytes of the ROM data that belong to the image of a placed slot.\<close>

definition image_byte :: "flash_chips \<Rightarrow> chip_set list \<Rightarrow> built_slot list \<Rightarrow> nat \<Rightarrow> bool" where
  "image_byte chips sets slots i \<longleftrightarrow> (\<exists>k<length sets. set_has_data (sets ! k) \<and>
     rom_offset chips (slot_data (slots ! k)) \<le> i \<and>
     i < rom_offset chips (slot_data (slots ! k)) + slot_size (slots ! k))"

lemma place_and_write_rom:
  assumes "place_and_write chips sets slots = Some (Inr (placed, rom))"
    and "flash_chips_new mcu sz = Some chips" "list_all2 (slot_for b reserved) sets slots"
    and "\<forall>s \<in> set sets. plugin_data_ok s"
  obtains addrs where "slot_addresses chips (map2 stored_size sets slots) = Inr addrs"
    "length addrs = length sets"
    "placed = map2 (\<lambda>(s, slot) addr. place_slot s slot addr) (zip sets slots) addrs"
    "\<forall>k<length sets. set_has_data (sets ! k) \<longrightarrow> (\<exists>img. slot_image (sets ! k) (slots ! k) = Some (Inr img) \<and>
      length img = slot_size (slots ! k) \<and> rom_offset chips (addrs ! k) + length img \<le> length rom \<and>
      take (length img) (drop (rom_offset chips (addrs ! k)) rom) = img)"
    "\<forall>i<length rom. \<not> image_byte chips sets placed i \<longrightarrow> rom ! i = 0xFF"
proof -
  let ?sizes = "map2 stored_size sets slots"
  obtain addrs where a: "slot_addresses chips ?sizes = Inr addrs"
    and placed: "placed = map2 (\<lambda>(s, slot) addr. place_slot s slot addr) (zip sets slots) addrs"
    and w: "write_images chips (zip sets (zip placed addrs))
      (replicate (rom_data_size chips addrs ?sizes) 0xFF) = Some (Inr rom)"
    using assms(1) by (auto simp: place_and_write_def Let_def bind_p_Inr_iff map_err_def split: if_splits sum.splits)
  let ?n = "rom_data_size chips addrs ?sizes" and ?buf = "replicate (rom_data_size chips addrs ?sizes) (0xFF :: u8)"
  have len: "length slots = length sets" "length addrs = length sets"
    using list_all2_lengthD [OF assms(3)] placed_apart [OF assms(2) a] by simp_all
  have plen: "length placed = length sets" by (simp add: placed len)
  obtain ws where ws: "list_all2 (writes_image chips ?n) (zip sets (zip placed addrs)) ws" "rom = write_all ws ?buf"
    using write_images_Inr [OF w] by auto
  have wlen: "length ws = length sets" using list_all2_lengthD [OF ws(1)] len plen by simp
  have one: "fst (ws ! k) = rom_offset chips (addrs ! k)"
    "set_has_data (sets ! k) \<Longrightarrow> slot_image (sets ! k) (slots ! k) = Some (Inr (snd (ws ! k))) \<and>
       length (snd (ws ! k)) = slot_size (slots ! k) \<and> fst (ws ! k) + length (snd (ws ! k)) \<le> ?n"
    "length (snd (ws ! k)) = ?sizes ! k" if k: "k < length sets" for k
  proof -
    have "placed ! k = place_slot (sets ! k) (slots ! k) (addrs ! k)" using k len by (simp add: placed)
    then have "writes_image chips ?n (sets ! k, place_slot (sets ! k) (slots ! k) (addrs ! k), addrs ! k) (ws ! k)"
      using list_all2_nthD [OF ws(1), of k] k len plen by (cases "set_has_data (sets ! k)") simp_all
    moreover have "slot_for b reserved (sets ! k) (slots ! k)" using list_all2_nthD [OF assms(3)] k by simp
    moreover have "plugin_data_ok (sets ! k)" using assms(4) k by simp
    ultimately show "fst (ws ! k) = rom_offset chips (addrs ! k)"
      "set_has_data (sets ! k) \<Longrightarrow> slot_image (sets ! k) (slots ! k) = Some (Inr (snd (ws ! k))) \<and>
         length (snd (ws ! k)) = slot_size (slots ! k) \<and> fst (ws ! k) + length (snd (ws ! k)) \<le> ?n"
      "length (snd (ws ! k)) = ?sizes ! k"
      using slot_image_length k len
      by (auto simp: stored_size_def split: if_splits)
  qed
  have fits: "\<forall>w \<in> set ws. fits (length ?buf) w"
  proof
    fix w assume "w \<in> set ws"
    then obtain k where "k < length sets" "w = ws ! k" by (auto simp: in_set_conv_nth wlen)
    then show "fits (length ?buf) w"
      using offset_within [of addrs ?sizes k chips] one(1,3) [of k] len by simp
  qed
  have "\<not> covers (ws ! k) i" if "j < k" "k < length ws" "covers (ws ! j) i" for j k i
    using offsets_apart [OF assms(2) a, of j k i] that one(1,3) [of j] one(1,3) [of k] wlen len by simp
  then have "\<forall>j k i. j < k \<longrightarrow> k < length ws \<longrightarrow> covers (ws ! j) i \<longrightarrow> \<not> covers (ws ! k) i" by blast
  note all = write_all_apart [OF fits this]
  show thesis
  proof (rule that [OF a len(2) placed]; intro allI impI)
    fix k assume k: "k < length sets" "set_has_data (sets ! k)"
    note o = one(1) [OF k(1)] one(2) [OF k]
    have "take (length (snd (ws ! k))) (drop (rom_offset chips (addrs ! k)) rom) = snd (ws ! k)"
    proof (rule take_drop_nth)
      show "rom ! (rom_offset chips (addrs ! k) + i) = snd (ws ! k) ! i" if "i < length (snd (ws ! k))" for i
        using all(2) [of k "rom_offset chips (addrs ! k) + i"] that k(1) o wlen by (simp add: ws(2))
      show "rom_offset chips (addrs ! k) + length (snd (ws ! k)) \<le> length rom" using o all(1) by (simp add: ws(2))
    qed simp
    then show "\<exists>img. slot_image (sets ! k) (slots ! k) = Some (Inr img) \<and>
      length img = slot_size (slots ! k) \<and> rom_offset chips (addrs ! k) + length img \<le> length rom \<and>
      take (length img) (drop (rom_offset chips (addrs ! k)) rom) = img"
      using o all(1) by (auto simp: ws(2))
  next
    fix i assume i: "i < length rom" and "\<not> image_byte chips sets placed i"
    then have out: "\<not> (rom_offset chips (addrs ! k) \<le> i \<and> i < rom_offset chips (addrs ! k) + slot_size (slots ! k))"
      if "k < length sets" "set_has_data (sets ! k)" for k
      using that len by (auto simp: image_byte_def placed)
    have "\<forall>w \<in> set ws. \<not> covers w i"
    proof
      fix w assume "w \<in> set ws"
      then obtain k where k: "k < length sets" "w = ws ! k" by (auto simp: in_set_conv_nth wlen)
      then show "\<not> covers w i"
        using out [OF k(1)] one(1,3) [OF k(1)] len by (auto simp: stored_size_def split: if_splits)
    qed
    then show "rom ! i = 0xFF" using all(3) [of i] i all(1) by (simp add: ws(2))
  qed
qed

text \<open>The chip table: the size of every chip is a \<open>u32\<close> value.\<close>

definition type_sizes_ok :: "config \<Rightarrow> bool" where
  "type_sizes_ok c \<longleftrightarrow> list_all (\<lambda>chip. ct_size_bytes (cc_chip_type chip) < 2 ^ 32) (all_chips c)"

lemma built_data_ok:
  assumes "build_chip_sets b alg = Some (Inr sets)" "type_sizes_ok (bu_config b)"
  shows "\<forall>s \<in> set sets. plugin_data_ok s"
proof
  fix s assume "s \<in> set sets"
  then obtain k where k: "k < length sets" "s = sets ! k" by (auto simp: in_set_conv_nth)
  have ne: "se_chips s \<noteq> []" using built_set(6) [OF assms(1) k(1)] k(2) by simp
  then have hd: "hd (se_chips (sets ! k)) = se_chips (sets ! k) ! 0" by (simp add: hd_conv_nth k(2))
  have j: "0 < length (se_chips (sets ! k))" using ne k(2) by simp
  note c = built_chip [OF assms(1) k(1) j]
  show "plugin_data_ok s"
    using c(1,3,6) assms(2) unfolding plugin_data_ok_def k(2) hd
    by (auto simp: type_sizes_ok_def list_all_length split: option.splits)
qed

text \<open>A successful build, taken apart.\<close>

lemma compose_v2_Inr:
  assumes "compose_v2 generations bu props = Some (Inr (header, rom))"
  obtains reserved sets slots chips placed where
    "reserved_pins_on (bu_config bu) (pr_board props) = Inr reserved"
    "build_chip_sets bu (pr_serve_alg props) = Some (Inr sets)"
    "list_all2 (slot_for (pr_board props) reserved) sets slots"
    "flash_chips_new (pr_mcu_variant props) (pr_board_size props) = Some chips"
    "place_and_write chips sets slots = Some (Inr (placed, rom))"
    "mh_rom_slots header = placed" "mh_reserved_sel_pins header = rp_select reserved"
    "mh_reserved_x_pins header = rp_x reserved"
proof -
  from assms obtain reserved sets slots chips placed generation hw where
    c: "reserved_pins_on (bu_config bu) (pr_board props) = Inr reserved"
    "build_chip_sets bu (pr_serve_alg props) = Some (Inr sets)"
    "build_slots (pr_board props) reserved 0 sets = Some (Inr slots)"
    "flash_chips_new (pr_mcu_variant props) (pr_board_size props) = Some chips"
    "place_and_write chips sets slots = Some (Inr (placed, rom))"
    "header = compose_header generation (bu_config bu) hw reserved placed"
    by (auto simp: compose_v2_def bind_p_Inr_iff bind_eq_Some_conv split: prod.splits)
  show thesis by (rule that [OF c(1,2) build_slots_Inr [OF c(3)] c(4,5)]) (simp_all add: c(6) compose_header_def)
qed

text \<open>The placed slots of the header against the sets: data pointers and images.\<close>

definition image_stored :: "flash_chips \<Rightarrow> u8 list \<Rightarrow> chip_set \<Rightarrow> built_slot \<Rightarrow> bool" where
  "image_stored chips rom s slot \<longleftrightarrow>
     (if set_has_data s then
        \<exists>img. slot_image s slot = Some (Inr img) \<and> length img = slot_size slot \<and>
          rom_offset chips (slot_data slot) + length img \<le> length rom \<and>
          take (length img) (drop (rom_offset chips (slot_data slot)) rom) = img
      else slot_data slot = NO_IMAGE)"

lemma compose_v2_stored:
  assumes "compose_v2 generations bu props = Some (Inr (header, rom))"
    and "build_chip_sets bu (pr_serve_alg props) = Some (Inr sets)"
    and "flash_chips_new (pr_mcu_variant props) (pr_board_size props) = Some chips"
    and "type_sizes_ok (bu_config bu)"
  obtains reserved slots addrs where
    "reserved_pins_on (bu_config bu) (pr_board props) = Inr reserved"
    "list_all2 (slot_for (pr_board props) reserved) sets slots"
    "slot_addresses chips (map2 stored_size sets slots) = Inr addrs"
    "length addrs = length sets" "length (mh_rom_slots header) = length sets"
    "\<forall>k<length sets. mh_rom_slots header ! k = place_slot (sets ! k) (slots ! k) (addrs ! k)"
    "\<forall>k<length sets. image_stored chips rom (sets ! k) (mh_rom_slots header ! k)"
    "\<forall>i<length rom. \<not> image_byte chips sets (mh_rom_slots header) i \<longrightarrow> rom ! i = 0xFF"
proof -
  obtain reserved slots placed where b: "reserved_pins_on (bu_config bu) (pr_board props) = Inr reserved"
    "list_all2 (slot_for (pr_board props) reserved) sets slots"
    "place_and_write chips sets slots = Some (Inr (placed, rom))" "mh_rom_slots header = placed"
    using compose_v2_Inr [OF assms(1)] assms(2,3) by (metis option.inject sum.inject(2))
  obtain addrs where a: "slot_addresses chips (map2 stored_size sets slots) = Inr addrs"
    "length addrs = length sets"
    "placed = map2 (\<lambda>(s, slot) addr. place_slot s slot addr) (zip sets slots) addrs"
    "\<forall>k<length sets. set_has_data (sets ! k) \<longrightarrow> (\<exists>img. slot_image (sets ! k) (slots ! k) = Some (Inr img) \<and>
      length img = slot_size (slots ! k) \<and> rom_offset chips (addrs ! k) + length img \<le> length rom \<and>
      take (length img) (drop (rom_offset chips (addrs ! k)) rom) = img)"
    "\<forall>i<length rom. \<not> image_byte chips sets placed i \<longrightarrow> rom ! i = 0xFF"
    by (rule place_and_write_rom [OF b(3) assms(3) b(2) built_data_ok [OF assms(2,4)]])
  have len: "length slots = length sets" using list_all2_lengthD [OF b(2)] by simp
  have k: "mh_rom_slots header ! k = place_slot (sets ! k) (slots ! k) (addrs ! k)" if "k < length sets" for k
    using that a(2,3) b(4) len by simp
  show thesis
  proof (rule that [OF b(1,2) a(1,2)])
    show "length (mh_rom_slots header) = length sets" using a(2,3) b(4) len by simp
    show "\<forall>n<length sets. image_stored chips rom (sets ! n) (mh_rom_slots header ! n)"
      using a(4) by (simp add: image_stored_def k)
  qed (use k a(5) b(4) in simp_all)
qed

text \<open>The ROM slots of a header, by the set they are for.\<close>

lemma header_rom_slot:
  assumes "list_all2 (slot_for b reserved) sets slots" "k < length sets"
    and "placed_slot = place_slot (sets ! k) (slots ! k) a" "placed_slot = RomSlot slot al cd"
  obtains slot' ov pref where
    "build_rom_slot b (se_set_type (sets ! k)) (se_chips (sets ! k)) 0
      (ov :: onerom_firmware_overrides option) (force_16_bit (sets ! k)) =
      Some (Inr (slot', al, cd, pref))"
    "rs_alg slot = rs_alg slot'" "rs_size slot = rs_size slot'" "check_reserved_pins b reserved (rs_alg slot) = None"
proof -
  obtain slot0 where s0: "slots ! k = RomSlot slot0 al cd" "rs_alg slot = rs_alg slot0" "rs_size slot = rs_size slot0"
    using assms(3,4) by (cases "slots ! k") (auto simp: place_slot_def)
  have "slot_for b reserved (sets ! k) (slots ! k)" using list_all2_nthD [OF assms(1,2)] .
  then have f: "lay_out_rom_slot b (sets ! k) = Some (Inr (slot0, al, cd))" "check_reserved_pins b reserved (rs_alg slot0) = None"
    by (simp_all add: s0(1))
  obtain ov pref where r: "build_rom_slot b (se_set_type (sets ! k)) (se_chips (sets ! k)) 0 ov (force_16_bit (sets ! k)) =
      Some (Inr (slot0, al, cd, pref))"
    by (rule lay_out_Inr [OF f(1)])
  show thesis by (rule that [OF r]) (simp_all add: f(2) s0(2,3))
qed

section \<open>Properties of a build\<close>

text \<open>
  C3: the ROM data holds every image where the metadata says. In a finished build every set has
  its slot; the image of a set with data lies whole at the offset its data pointer stands for, no
  two images share a byte, a set without data has the pointer that says so, and every other byte
  is 0xFF.
\<close>

theorem rom_data_layout:
  assumes "compose_v2 generations bu props = Some (Inr (header, rom))"
    and "build_chip_sets bu (pr_serve_alg props) = Some (Inr sets)"
    and "flash_chips_new (pr_mcu_variant props) (pr_board_size props) = Some chips"
    and "type_sizes_ok (bu_config bu)"
  defines "slots \<equiv> mh_rom_slots header"
  shows "length slots = length sets \<and>
    (\<forall>k<length sets. image_stored chips rom (sets ! k) (slots ! k)) \<and>
    (\<forall>j<length sets. \<forall>k<length sets. j \<noteq> k \<and> set_has_data (sets ! j) \<and> set_has_data (sets ! k) \<longrightarrow>
      {rom_offset chips (slot_data (slots ! j)) ..< rom_offset chips (slot_data (slots ! j)) + slot_size (slots ! j)} \<inter>
      {rom_offset chips (slot_data (slots ! k)) ..< rom_offset chips (slot_data (slots ! k)) + slot_size (slots ! k)} = {}) \<and>
    (\<forall>i<length rom. \<not> image_byte chips sets slots i \<longrightarrow> rom ! i = 0xFF)"
proof -
  obtain reserved slots0 addrs where b: "list_all2 (slot_for (pr_board props) reserved) sets slots0"
    "slot_addresses chips (map2 stored_size sets slots0) = Inr addrs" "length addrs = length sets"
    "length slots = length sets" "\<forall>k<length sets. slots ! k = place_slot (sets ! k) (slots0 ! k) (addrs ! k)"
    "\<forall>k<length sets. image_stored chips rom (sets ! k) (slots ! k)"
    "\<forall>i<length rom. \<not> image_byte chips sets slots i \<longrightarrow> rom ! i = 0xFF"
    unfolding slots_def by (rule compose_v2_stored [OF assms(1-4)])
  have len: "length slots0 = length sets" using list_all2_lengthD [OF b(1)] by simp
  have "{rom_offset chips (slot_data (slots ! j)) ..< rom_offset chips (slot_data (slots ! j)) + slot_size (slots ! j)} \<inter>
      {rom_offset chips (slot_data (slots ! k)) ..< rom_offset chips (slot_data (slots ! k)) + slot_size (slots ! k)} = {}"
    if jk: "j < length sets" "k < length sets" "j \<noteq> k" "set_has_data (sets ! j)" "set_has_data (sets ! k)" for j k
    unfolding disjoint_iff using offsets_apart [OF assms(3) b(2), of j k] jk b(5) len by (simp add: stored_size_def)
  then show ?thesis using b(4,6,7) by blast
qed

text \<open>
  C1: what the finished image serves. Take the ROM data of a build, the metadata slot of a set
  with images and the bytes the slot's data pointer and size stand for. Whatever the levels of
  the pins, the entry the address PIO reads after the slot's input overrides shows on each data
  line the bit of the chip of the set the host selects, at the address the host drives; for a chip
  served 16 bits wide the entry is the whole word, of which the firmware shows the halves while
  /BYTE is low. The tables the build script generates enter as \<open>slot_ok\<close> and \<open>type_sizes_ok\<close>, which
  hold of every board and chip type there, native 16-bit chips included (\<open>Native_Slot\<close>); of the
  layouts found it is assumed that an index has fewer than 32 bits and that those of a multi set
  bond its X pins to the same GPIOs.
\<close>

theorem built_image_serves:
  fixes pins :: "nat \<Rightarrow> bool"
  assumes "compose_v2 generations bu props = Some (Inr (header, rom))"
    and "build_chip_sets bu (pr_serve_alg props) = Some (Inr sets)"
    and "flash_chips_new (pr_mcu_variant props) (pr_board_size props) = Some chips"
    and "type_sizes_ok (bu_config bu)"
    and "k < length sets" "mh_rom_slots header ! k = RomSlot slot al cd" "set_has_data (sets ! k)"
    and "slot_context_of (pr_board props) (se_set_type (sets ! k)) (se_chips (sets ! k)) (force_16_bit (sets ! k)) =
      Some (Inr ctx)" "slot_ok ctx"
    and "al_num_addr_pins al < 32" "se_set_type (sets ! k) = Set_Multi \<longrightarrow> x_bonds_agree al cd"
    and "d < length (cd_data_pin_gpios cd)"
  defines "table \<equiv> take (rs_size slot) (drop (rom_offset chips (rs_data slot)) rom)"
    and "seen \<equiv> pio_level (override_params (rs_alg slot)) pins"
    and "wb \<equiv> if sc_bit_mode ctx = BitMode16 then 2 else 1"
  shows "length table = rs_size slot \<and>
    served_level cd table wb (host_index al seen) (cd_data_pin_gpios cd ! d) =
    served_bit (se_chips (sets ! k)) wb
      (selected_chip ctx al cd (secondary_configs (se_set_type (sets ! k)) (se_chips (sets ! k))) pins)
      (host_address al pins) d"
proof -
  obtain reserved slots0 addrs where b: "list_all2 (slot_for (pr_board props) reserved) sets slots0"
    "\<forall>k<length sets. mh_rom_slots header ! k = place_slot (sets ! k) (slots0 ! k) (addrs ! k)"
    "\<forall>k<length sets. image_stored chips rom (sets ! k) (mh_rom_slots header ! k)"
    by (rule compose_v2_stored [OF assms(1-4)])
  have placed: "mh_rom_slots header ! k = place_slot (sets ! k) (slots0 ! k) (addrs ! k)" using b(2) assms(5) by blast
  obtain slot0 ov pref where s: "build_rom_slot (pr_board props) (se_set_type (sets ! k)) (se_chips (sets ! k)) 0
      (ov :: onerom_firmware_overrides option) (force_16_bit (sets ! k)) = Some (Inr (slot0, al, cd, pref))" "rs_alg slot = rs_alg slot0" "rs_size slot = rs_size slot0"
    by (rule header_rom_slot [OF b(1) assms(5) placed assms(6)])
  have "image_stored chips rom (sets ! k) (RomSlot slot al cd)" using b(3) assms(5,6) by metis
  then obtain img where img: "build_rom_image al cd (se_set_type (sets ! k)) (se_chips (sets ! k)) (oc_dma (rs_alg slot0)) = Some (Inr img)"
    "table = img" "length img = rs_size slot"
    using assms(7) by (auto simp: image_stored_def map_err_p_def table_def s(2))
  show ?thesis
    using slot_serves_host [OF s(1) img(1) assms(8-12), of pins] img(2,3) s(2,3) by (simp add: seen_def wb_def)
qed

text \<open>
  C4: a reserved pin is left alone. Where a build succeeds, none of the GPIOs a ROM slot's layouts
  name, and so none its algorithm drives or reads, is wired to a header pin that an entry of the
  configuration's reserved pins stands for. \<open>slot_ok\<close> is the condition on the board and the chip
  type; it holds of all those in the tables, with or without a /BYTE pin.
\<close>

theorem reserved_pins_spared:
  assumes "compose_v2 generations bu props = Some (Inr (header, rom))"
    and "build_chip_sets bu (pr_serve_alg props) = Some (Inr sets)"
    and "k < length sets" "mh_rom_slots header ! k = RomSlot slot al cd"
    and "slot_context_of (pr_board props) (se_set_type (sets ! k)) (se_chips (sets ! k)) (force_16_bit (sets ! k)) =
      Some (Inr ctx)" "slot_ok ctx"
    and "p \<in> set (cf_reserved_pins (bu_config bu))" "header_pin_on p (pr_board props) = Some hp"
    and "g \<in> set (addr_used_gpios al cd (oc_data (rs_alg slot)))"
  shows "\<not> has_gpio_on hp (pr_board props) g"
proof
  assume wired: "has_gpio_on hp (pr_board props) g"
  obtain reserved sets' slots0 chips placed where c: "reserved_pins_on (bu_config bu) (pr_board props) = Inr reserved"
    "build_chip_sets bu (pr_serve_alg props) = Some (Inr sets')"
    "list_all2 (slot_for (pr_board props) reserved) sets' slots0"
    "place_and_write chips sets' slots0 = Some (Inr (placed, rom))" "mh_rom_slots header = placed"
    by (rule compose_v2_Inr [OF assms(1)])
  have sets: "sets' = sets" using c(2) assms(2) by simp
  obtain addrs where "slot_addresses chips (map2 stored_size sets slots0) = Inr addrs"
    "placed = map2 (\<lambda>(s, slot) addr. place_slot s slot addr) (zip sets slots0) addrs"
    using c(4) by (auto simp: place_and_write_def Let_def bind_p_Inr_iff sets split: if_splits sum.splits)
  moreover have "length slots0 = length sets" using list_all2_lengthD [OF c(3)] sets by simp
  moreover have "length addrs = length (map2 stored_size sets slots0)"
    by (rule place_loop_length [OF calculation(1) [unfolded slot_addresses_def]])
  ultimately have pl: "mh_rom_slots header ! k = place_slot (sets ! k) (slots0 ! k) (addrs ! k)"
    using assms(3) c(5) by simp
  obtain slot0 ov pref where s: "build_rom_slot (pr_board props) (se_set_type (sets ! k)) (se_chips (sets ! k)) 0
      (ov :: onerom_firmware_overrides option) (force_16_bit (sets ! k)) = Some (Inr (slot0, al, cd, pref))" "rs_alg slot = rs_alg slot0"
    "check_reserved_pins (pr_board props) reserved (rs_alg slot) = None"
    by (rule header_rom_slot [OF c(3) [unfolded sets] assms(3) pl assms(4)])
  have "g \<in> {g. bit (used_gpios (rs_alg slot)) g}"
    using slot_used_gpios [OF s(1) assms(5,6)] assms(9) by (simp add: s(2))
  then have used: "bit (used_gpios (rs_alg slot)) g" "g < 64" using bit_imp_le_length by fastforce+
  have "selectable hp \<and> reserved_contains reserved hp"
    using reserve_loop_Inr [OF c(1) [unfolded reserved_pins_on_def]] assms(7,8)
    by (force simp: list_all_iff reservable_def bind_eq_Some_conv split: if_splits)
  then have "hp \<in> set (reserved_pin_list reserved)" by (simp add: set_reserved_pin_list)
  then show False
    using s(3) used wired by (auto simp: check_reserved_pins_def find_None_iff list_ex_iff)
qed

section \<open>Plugins stand where they are linked\<close>

text \<open>The chip types of the sets: no call of a builder changes them.\<close>

definition types_of_sets :: "config \<Rightarrow> chip_type list list" where
  "types_of_sets c = map (\<lambda>st. map cc_chip_type (st_chips st)) (cf_chip_sets c)"

lemma types_update_chip:
  "(\<And>c. cc_chip_type (f c) = cc_chip_type c) \<Longrightarrow>
     map (\<lambda>st. map cc_chip_type (st_chips st)) (update_chip n f sets) =
     map (\<lambda>st. map cc_chip_type (st_chips st)) sets"
  by (induction n f sets rule: update_chip.induct) (auto simp: map_update list_update_same_conv)

lemma builder_step_set_types: "builder_step b b' \<Longrightarrow> types_of_sets (bu_config b') = types_of_sets (bu_config b)"
  by (drule builder_step_kinds)
    (auto simp: add_file_config set_plugin_file_def Let_def types_of_sets_def types_update_chip split: option.splits if_splits)

text \<open>The system plugin alone in the first set's types, a user plugin in the second's behind it.\<close>

definition plugins_first :: "chip_type list list \<Rightarrow> bool" where
  "plugins_first sets \<longleftrightarrow> (\<forall>i<length sets. sets ! i \<noteq> [] \<and> (\<forall>ct \<in> set (sets ! i).
     (is_type ct ''SystemPlugin'' \<longrightarrow> i = 0) \<and>
     (is_type ct ''UserPlugin'' \<longrightarrow> i = 1 \<and> is_type (sets ! 0 ! 0) ''SystemPlugin'')))"

lemma reachable_plugins_first: "reachable b \<Longrightarrow> plugins_first (types_of_sets (bu_config b))"
proof (induction rule: reachable.induct)
  case (start version mcu_family c allow b w)
  then have ok: "check_config version mcu_family c allow = Inr w" and b: "bu_config b = c"
    by (auto simp: from_config_def bind_r_Inr_iff)
  have "\<exists>supported. sets_ok version c supported mcu_family"
    using check_config_ok [OF ok] by (auto simp: config_ok_def split: if_splits)
  then obtain supported where s: "\<forall>i<length (cf_chip_sets c). set_ok version c supported mcu_family i (cf_chip_sets c ! i)"
    by (auto simp: sets_ok_def)
  have first: "types_of_sets c ! 0 ! 0 = cc_chip_type (st_chips (cf_chip_sets c ! 0) ! 0)" if "0 < length (cf_chip_sets c)"
    using s that by (simp add: types_of_sets_def set_ok_def fitting_size_def)
  show ?case
    unfolding plugins_first_def b
  proof (intro allI impI conjI ballI)
    fix i assume "i < length (types_of_sets c)"
    then have i: "i < length (cf_chip_sets c)" by (simp add: types_of_sets_def)
    then have ok: "set_ok version c supported mcu_family i (cf_chip_sets c ! i)" using s by blast
    then show "types_of_sets c ! i \<noteq> []" using i by (simp add: types_of_sets_def set_ok_def fitting_size_def)
    fix ct assume "ct \<in> set (types_of_sets c ! i)"
    then have place: "place_ok c mcu_family i ct" using ok i by (auto simp: types_of_sets_def set_ok_def list_all_iff)
    then show "is_type ct ''SystemPlugin'' \<Longrightarrow> i = 0" "is_type ct ''UserPlugin'' \<Longrightarrow> i = 1"
      by (simp_all add: place_ok_def)
    show "is_type (types_of_sets c ! 0 ! 0) ''SystemPlugin''" if "is_type ct ''UserPlugin''"
      using place first i that by (cases "cf_chip_sets c = []") (simp_all add: place_ok_def)
  qed
qed (simp add: builder_step_set_types)

text \<open>The chip table: the plugin types by name, their regions 64 KiB each.\<close>

definition PLUGIN_REGION :: nat where "PLUGIN_REGION = 0x10000"

definition plugin_table_ok :: "chip_type \<Rightarrow> bool" where
  "plugin_table_ok ct \<longleftrightarrow> ct_size_bytes ct < 2 ^ 32 \<and>
     (ct_is_plugin ct \<longleftrightarrow> ct_name ct \<in> {''SystemPlugin'', ''UserPlugin'', ''PioPlugin''}) \<and>
     (ct_name ct \<in> {''SystemPlugin'', ''UserPlugin''} \<longrightarrow> ct_size_bytes ct = PLUGIN_REGION)"

abbreviation runs_in_place :: "chip_set \<Rightarrow> bool" where
  "runs_in_place s \<equiv> is_type (ch_type (hd (se_chips s))) ''SystemPlugin'' \<or> is_type (ch_type (hd (se_chips s))) ''UserPlugin''"

lemma plugins_linked_none: "\<forall>x \<in> set items. \<not> runs_in_place (fst x) \<Longrightarrow> plugins_linked c items"
  by (induction c items rule: plugins_linked.induct) auto

lemma first_fit_room:
  "rom_data_start chips + used_first chips placed + sz \<le> first_end chips \<Longrightarrow>
     first_fit chips placed sz = Some (rom_data_start chips + used_first chips placed)"
  by (simp add: first_fit_def Let_def)

lemma plugins_stay:
  assumes "flash_chips_new mcu sz = Some chips" "variant_family mcu = Rp2350"
    and "slot_addresses chips sizes = Inr addrs" "length sizes = length sets"
    and "\<And>k. k < length sets \<Longrightarrow> runs_in_place (sets ! k) \<Longrightarrow> k < 2 \<and> sizes ! k \<le> PLUGIN_REGION"
    and "1 < length sets \<Longrightarrow> runs_in_place (sets ! 1) \<Longrightarrow> runs_in_place (sets ! 0)"
  shows "plugins_linked (rom_data_start chips) (zip sets (zip addrs sizes))"
proof -
  have fits: "\<forall>i<length sizes. first_fit chips (zip (take i addrs) (take i sizes)) (sizes ! i) = Some (addrs ! i)"
    and len: "length addrs = length sizes"
    using slot_addresses_Inr [OF new_chips_apart [OF assms(1)]] assms(3) by blast+
  have room: "rom_data_start chips + 2 * PLUGIN_REGION \<le> first_end chips" "rom_data_start chips + 2 * PLUGIN_REGION < 2 ^ 32"
    using assms(1,2)
    by (cases sz; auto simp: flash_chips_new_def flash_layout_of_def FLASH_LAYOUTS_def rom_data_start_def first_end_def
        METADATA_OFFSET_def METADATA_SIZE_def flash_size_bytes_def OTP_FLASH_DEVINFO_SIZE_UNIT_def PLUGIN_REGION_def)+
  have later: "\<forall>x \<in> set (zip ss zs). \<not> runs_in_place (fst x)" if "\<And>k. k < length ss \<Longrightarrow> \<not> runs_in_place (ss ! k)" for ss and zs :: "(nat \<times> nat) list"
    using that by (metis in_set_conv_nth in_set_zipE prod.collapse)
  show ?thesis
  proof (cases sets)
    case (Cons s0 rest)
    then obtain z0 zs a0 as where z: "sizes = z0 # zs" "addrs = a0 # as" using assms(4) len by (cases sizes; cases addrs) auto
    have a0: "a0 = rom_data_start chips \<and> z0 \<le> PLUGIN_REGION" if "runs_in_place s0"
      using assms(5) [of 0] that Cons z fits [rule_format, of 0] first_fit_room [of chips "[]" z0] room
      by (simp add: used_first_def)
    show ?thesis
    proof (cases rest)
      case Nil
      then show ?thesis using a0 Cons z len assms(4) by auto
    next
      case (Cons s1 rest')
      then obtain z1 zs' a1 as' where z': "zs = z1 # zs'" "as = a1 # as'"
        using assms(4) len z \<open>sets = s0 # rest\<close> by (cases zs; cases as) auto
      have a1: "a1 = (rom_data_start chips + z0) mod 2 ^ 32" if "runs_in_place s1"
      proof -
        have s0: "runs_in_place s0" and z1: "z1 \<le> PLUGIN_REGION"
          using assms(5) [of 1] assms(6) that \<open>sets = s0 # rest\<close> Cons z z' by auto
        then have "used_first chips [(a0, z0)] = z0" using a0 room by (auto simp: used_first_def on_first_def)
        then have "a1 = rom_data_start chips + z0"
          using fits [rule_format, of 1] first_fit_room [of chips "[(a0, z0)]" z1] room z z' z1 a0 s0 by simp
        then show ?thesis using room a0 s0 by simp
      qed
      have "\<forall>x \<in> set (zip rest' (zip as' zs')). \<not> runs_in_place (fst x)"
        using assms(5) [of "Suc (Suc k)" for k] \<open>sets = s0 # rest\<close> Cons by (intro later) fastforce
      then have "plugins_linked c (zip rest' (zip as' zs'))" for c by (rule plugins_linked_none)
      then show ?thesis using a0 a1 \<open>sets = s0 # rest\<close> Cons z z' by simp
    qed
  qed simp
qed

section \<open>Builds that cannot panic\<close>

lemma bind_p_None_iff: "bind_p r f = None \<longleftrightarrow> r = None \<or> (\<exists>a. r = Some (Inr a) \<and> f a = None)"
  by (auto simp: bind_p_def split: option.splits sum.splits)

lemma build_set_chips_None:
  "build_set_chips b st n cs = None \<Longrightarrow> \<exists>j<length cs. build_chip b (n + j) st (cs ! j) = None"
proof (induction cs arbitrary: n)
  case (Cons c cs)
  then consider "build_chip b n st c = None" | "build_set_chips b st (Suc n) cs = None"
    by (auto simp: bind_p_None_iff)
  then show ?case
  proof cases
    case 2
    then obtain j where "j < length cs" "build_chip b (Suc n + j) st (cs ! j) = None" using Cons.IH by blast
    then show ?thesis by (intro exI [of _ "Suc j"]) simp
  qed auto
qed simp

lemma build_sets_loop_None:
  "build_sets_loop b alg m n cfgs = None \<Longrightarrow> \<exists>k<length cfgs. \<exists>j<length (st_chips (cfgs ! k)).
     build_chip b (n + first_chip cfgs k + j) (cfgs ! k) (st_chips (cfgs ! k) ! j) = None"
proof (induction cfgs arbitrary: m n)
  case (Cons st cfgs)
  then consider "build_set_chips b st n (st_chips st) = None"
    | "build_sets_loop b alg (Suc m) (n + length (st_chips st)) cfgs = None"
    by (auto simp: bind_p_None_iff)
  then show ?case
  proof cases
    case 1
    then show ?thesis using build_set_chips_None by (intro exI [of _ 0]) auto
  next
    case 2
    from Cons.IH [OF this] obtain k j where "k < length cfgs" "j < length (st_chips (cfgs ! k))"
      "build_chip b (n + length (st_chips st) + first_chip cfgs k + j) (cfgs ! k) (st_chips (cfgs ! k) ! j) = None"
      by blast
    then show ?thesis by (intro exI [of _ "Suc k"]) (auto simp: add.assoc)
  qed
qed simp

text \<open>The loading of files and the resolution of control lines in a ready builder.\<close>

lemma build_chip_sets_Some:
  assumes "builder_inv bu" "types_ok (bu_config bu)" "build_validation bu fw = Some (Inr ())"
    and "list_all (\<lambda>c. chip_cs_config c \<noteq> None) (all_chips (bu_config bu))"
  shows "build_chip_sets bu alg \<noteq> None"
proof
  let ?cfgs = "cf_chip_sets (bu_config bu)"
  assume "build_chip_sets bu alg = None"
  then obtain k j where k: "k < length ?cfgs" "j < length (st_chips (?cfgs ! k))"
    and none: "build_chip bu (0 + first_chip ?cfgs k + j) (?cfgs ! k) (st_chips (?cfgs ! k) ! j) = None"
    using build_sets_loop_None unfolding build_chip_sets_def by blast
  let ?i = "first_chip ?cfgs k + j"
  note all = all_chips_nth [OF k]
  have "chip_cs_config (st_chips (?cfgs ! k) ! j) \<noteq> None"
    using assms(4) [unfolded list_all_length, rule_format, OF all(1)] unfolding all(2) .
  moreover have "chip_file bu ?i \<noteq> None"
    using build_validation_inv(2) [OF assms(1-3)] by (auto simp: chip_file_def split: option.splits)
  ultimately show False using none by (auto simp: build_chip_def)
qed

text \<open>The layouts and the table of a ROM set return.\<close>

definition rom_set_returns :: "board \<Rightarrow> chip_set \<Rightarrow> bool" where
  "rom_set_returns b s \<longleftrightarrow> ct_is_plugin (ch_type (hd (se_chips s))) \<or>
     (case lay_out_rom_slot b s of
        None \<Rightarrow> False
      | Some (Inl e) \<Rightarrow> True
      | Some (Inr (slot, al, cd)) \<Rightarrow> slot_image s (RomSlot slot al cd) \<noteq> None)"

lemma override_block_Some: "override_block s \<noteq> None"
  using build_firmware_overrides_Some by (auto simp: override_block_def split: option.splits)

lemma build_plugin_slot_Some:
  assumes "ct_is_plugin (ch_type (hd (se_chips s)))" "plugin_table_ok (ch_type (hd (se_chips s)))"
  shows "build_plugin_slot s \<noteq> None"
proof -
  have "plugin_slot_type_of (ch_type (hd (se_chips s))) \<noteq> None"
    using assms by (auto simp: plugin_table_ok_def plugin_slot_type_of_def)
  then show ?thesis using override_block_Some [of s] by (auto simp: build_plugin_slot_def Let_def)
qed

lemma build_slots_None:
  "build_slots b reserved n sets = None \<Longrightarrow>
     \<exists>s \<in> set sets. \<not> rom_set_returns b s \<or> \<not> plugin_table_ok (ch_type (hd (se_chips s)))"
proof (induction sets arbitrary: n)
  case (Cons s sets)
  show ?case
  proof (cases "ct_is_plugin (ch_type (hd (se_chips s)))")
    case True
    with Cons.prems consider "build_plugin_slot s = None" | "build_slots b reserved n sets = None"
      by (auto simp: bind_p_None_iff bind_eq_None_conv)
    then show ?thesis using build_plugin_slot_Some [OF True] Cons.IH by cases auto
  next
    case False
    with Cons.prems consider "lay_out_rom_slot b s = None" | "build_slots b reserved (Suc n) sets = None"
      by (auto simp: bind_p_None_iff split: option.splits)
    then show ?thesis using False Cons.IH by cases (auto simp: rom_set_returns_def)
  qed
qed simp

lemma write_images_None:
  "write_images chips items buf = None \<Longrightarrow>
     \<exists>s slot addr. (s, slot, addr) \<in> set items \<and> set_has_data s \<and>
       (slot_image s slot = None \<or> (\<exists>img. slot_image s slot = Some (Inr img) \<and> length buf < rom_offset chips addr + length img))"
proof (induction items arbitrary: buf)
  case (Cons item items)
  obtain s slot addr where item: "item = (s, slot, addr)" by (cases item)
  show ?case
  proof (cases "set_has_data s \<and> (slot_image s slot = None \<or>
      (\<exists>img. slot_image s slot = Some (Inr img) \<and> length buf < rom_offset chips addr + length img))")
    case True
    then show ?thesis unfolding item by (meson list.set_intros(1))
  next
    case False
    have "\<exists>buf'. length buf' = length buf \<and> write_images chips items buf' = None"
    proof (cases "set_has_data s")
      case True
      with False Cons.prems item obtain img where "slot_image s slot = Some (Inr img)"
        "rom_offset chips addr + length img \<le> length buf"
        "write_images chips items (copy_at (rom_offset chips addr) img buf) = None"
        by (auto simp: bind_p_None_iff write_slice_def split: if_splits)
      then show ?thesis
        using length_copy_at [of "(rom_offset chips addr, img)" buf] by auto
    qed (use Cons.prems item in auto)
    then show ?thesis using Cons.IH by (metis list.set_intros(2))
  qed
qed simp

definition chip_table_ok :: "config \<Rightarrow> bool" where
  "chip_table_ok c \<longleftrightarrow> list_all (\<lambda>chip. plugin_table_ok (cc_chip_type chip)) (all_chips c)"

lemma chip_table_sizes: "chip_table_ok c \<Longrightarrow> type_sizes_ok c"
  by (auto simp: chip_table_ok_def type_sizes_ok_def plugin_table_ok_def list_all_iff)

text \<open>The first chip of a built set, and the size stored for it, against the configuration.\<close>

lemma built_first_chip:
  assumes "build_chip_sets bu alg = Some (Inr sets)" "k < length sets" "chip_table_ok (bu_config bu)"
  shows "k < length (types_of_sets (bu_config bu))"
    "ch_type (hd (se_chips (sets ! k))) = types_of_sets (bu_config bu) ! k ! 0"
    "types_of_sets (bu_config bu) ! k \<noteq> []"
    "plugin_table_ok (ch_type (hd (se_chips (sets ! k))))"
    "ch_data (hd (se_chips (sets ! k))) = Some d \<Longrightarrow> length d = ct_size_bytes (ch_type (hd (se_chips (sets ! k))))"
proof -
  note s = built_set [OF assms(1,2)]
  have j: "0 < length (se_chips (sets ! k))" using s(6) by simp
  note c = built_chip [OF assms(1,2) j]
  have hd: "hd (se_chips (sets ! k)) = se_chips (sets ! k) ! 0" using s(6) by (rule hd_conv_nth)
  have k: "k < length (cf_chip_sets (bu_config bu))" using assms(2) s(1) by simp
  then show "k < length (types_of_sets (bu_config bu))" by (simp add: types_of_sets_def)
  have j': "0 < length (st_chips (cf_chip_sets (bu_config bu) ! k))" using j s(2) by simp
  then show "types_of_sets (bu_config bu) ! k \<noteq> []" using k by (simp add: types_of_sets_def)
  show "ch_type (hd (se_chips (sets ! k))) = types_of_sets (bu_config bu) ! k ! 0"
    using c(3) all_chips_nth(2) [OF k j'] k j' by (simp add: hd types_of_sets_def)
  show "plugin_table_ok (ch_type (hd (se_chips (sets ! k))))"
    using assms(3) c(1,3) by (simp add: hd chip_table_ok_def list_all_length)
  show "ch_data (hd (se_chips (sets ! k))) = Some d \<Longrightarrow> length d = ct_size_bytes (ch_type (hd (se_chips (sets ! k))))"
    unfolding hd by (rule c(6))
qed

lemma placing_returns:
  assumes "reachable bu" "chip_table_ok (bu_config bu)" "build_chip_sets bu alg = Some (Inr sets)"
    and "list_all (rom_set_returns b) sets" "list_all2 (slot_for b reserved) sets slots"
    and "flash_chips_new mcu sz = Some chips" "variant_family mcu = Rp2350"
  shows "place_and_write chips sets slots \<noteq> None"
proof
  assume none: "place_and_write chips sets slots = None"
  let ?sizes = "map2 stored_size sets slots"
  have len: "length slots = length sets" using list_all2_lengthD [OF assms(5)] by simp
  from none obtain addrs where a: "slot_addresses chips ?sizes = Inr addrs"
    and bad: "\<not> plugins_linked (rom_data_start chips) (zip sets (zip addrs ?sizes)) \<or>
      write_images chips (zip sets (zip (map2 (\<lambda>(s, slot) addr. place_slot s slot addr) (zip sets slots) addrs) addrs))
        (replicate (rom_data_size chips addrs ?sizes) 0xFF) = None"
    by (auto simp: place_and_write_def Let_def bind_p_None_iff split: if_splits)
  have alen: "length addrs = length sets" using placed_apart [OF assms(6) a] len by simp
  note first = built_first_chip [OF assms(3) _ assms(2)] and places = reachable_plugins_first [OF assms(1)]
  have "plugins_linked (rom_data_start chips) (zip sets (zip addrs ?sizes))"
  proof (rule plugins_stay [OF assms(6,7) a])
    show "length ?sizes = length sets" using len by simp
    fix k assume k: "k < length sets" and run: "runs_in_place (sets ! k)"
    have t: "types_of_sets (bu_config bu) ! k ! 0 \<in> set (types_of_sets (bu_config bu) ! k)"
      using first(3) [OF k] by simp
    then have "k < 2" using places first(1,2) [OF k] run by (fastforce simp: plugins_first_def)
    moreover have "stored_size (sets ! k) (slots ! k) \<le> PLUGIN_REGION"
    proof (cases "slots ! k")
      case (PluginSlot p)
      then have "build_plugin_slot (sets ! k) = Some p" using list_all2_nthD [OF assms(5) k] by simp
      then have "pl_size p = (case ch_data (hd (se_chips (sets ! k))) of None \<Rightarrow> 0 | Some d \<Rightarrow> length d mod 2 ^ 32)"
        by (auto simp: build_plugin_slot_def Let_def bind_eq_Some_conv)
      moreover have "ct_size_bytes (ch_type (hd (se_chips (sets ! k)))) = PLUGIN_REGION"
        using first(4) [OF k] run by (auto simp: plugin_table_ok_def)
      ultimately show ?thesis
        using first(5) [OF k] PluginSlot
        by (auto simp: stored_size_def PLUGIN_REGION_def split: option.splits)
    next
      case (RomSlot sl al cd)
      then have "\<not> ct_is_plugin (ch_type (hd (se_chips (sets ! k))))" using list_all2_nthD [OF assms(5) k] by simp
      then show ?thesis using first(4) [OF k] run by (auto simp: plugin_table_ok_def)
    qed
    ultimately show "k < 2 \<and> ?sizes ! k \<le> PLUGIN_REGION" using k len by simp
  next
    assume l: "1 < length sets" and run: "runs_in_place (sets ! 1)"
    let ?ct = "types_of_sets (bu_config bu) ! 1 ! 0"
    have "?ct \<in> set (types_of_sets (bu_config bu) ! 1)" using first(3) [OF l] by simp
    then have "(is_type ?ct ''SystemPlugin'' \<longrightarrow> (1 :: nat) = 0) \<and>
        (is_type ?ct ''UserPlugin'' \<longrightarrow> is_type (types_of_sets (bu_config bu) ! 0 ! 0) ''SystemPlugin'')"
      using places first(1) [OF l] unfolding plugins_first_def by blast
    then have "is_type (types_of_sets (bu_config bu) ! 0 ! 0) ''SystemPlugin''"
      using run first(2) [OF l] by auto
    moreover have "0 < length sets" using l by linarith
    ultimately show "runs_in_place (sets ! 0)" using first(2) [of 0] by simp
  qed
  with bad have "write_images chips (zip sets (zip (map2 (\<lambda>(s, slot) addr. place_slot s slot addr) (zip sets slots) addrs) addrs))
      (replicate (rom_data_size chips addrs ?sizes) 0xFF) = None" by simp
  from write_images_None [OF this] obtain t slot addr where w:
    "(t, slot, addr) \<in> set (zip sets (zip (map2 (\<lambda>(s, slot) addr. place_slot s slot addr) (zip sets slots) addrs) addrs))"
    "set_has_data t"
    "slot_image t slot = None \<or> (\<exists>img. slot_image t slot = Some (Inr img) \<and>
       length (replicate (rom_data_size chips addrs ?sizes) (0xFF :: u8)) < rom_offset chips addr + length img)"
    by (elim exE conjE) (rule that)
  from w(1) obtain k where "k < length sets" "t = sets ! k" "addr = addrs ! k"
    "slot = place_slot (sets ! k) (slots ! k) (addrs ! k)"
    by (auto simp: set_zip len alen)
  with w(2,3) have k: "k < length sets" "set_has_data (sets ! k)"
    "slot_image (sets ! k) (slots ! k) = None \<or> (\<exists>img. slot_image (sets ! k) (slots ! k) = Some (Inr img) \<and>
       rom_data_size chips addrs ?sizes < rom_offset chips (addrs ! k) + length img)"
    by simp_all
  have "slot_for b reserved (sets ! k) (slots ! k)" using list_all2_nthD [OF assms(5) k(1)] .
  note image = slot_image_length [OF this]
  have "plugin_data_ok (sets ! k)"
    using built_data_ok [OF assms(3) chip_table_sizes [OF assms(2)]] k(1) by simp
  with image k have "slot_image (sets ! k) (slots ! k) = None"
    using offset_within [of addrs ?sizes k chips] alen len by fastforce
  moreover have "rom_set_returns b (sets ! k)" using assms(4) k(1) by (simp add: list_all_length)
  ultimately show False
    using list_all2_nthD [OF assms(5) k(1)] by (cases "slots ! k") (simp_all add: rom_set_returns_def)
qed

text \<open>What is left to show of a build: that control lines resolve and ROM sets are laid out.\<close>

lemma compose_returns:
  assumes "reachable bu" "build_validation bu fw = Some (Inr ())" "chip_table_ok (bu_config bu)"
    and "list_all (\<lambda>c. chip_cs_config c \<noteq> None) (all_chips (bu_config bu))"
    and "build_hardware_info (pr_board props) \<noteq> None" "variant_family (pr_mcu_variant props) = Rp2350"
    and "\<forall>sets. build_chip_sets bu (pr_serve_alg props) = Some (Inr sets) \<longrightarrow>
      list_all (rom_set_returns (pr_board props)) sets"
  shows "compose_v2 generations bu props \<noteq> None"
proof
  assume none: "compose_v2 generations bu props = None"
  note inv = reachable_inv [OF assms(1)]
  have chips: "build_chip_sets bu (pr_serve_alg props) \<noteq> None"
    using build_chip_sets_Some [OF _ _ assms(2,4)] inv by blast
  obtain flash where flash: "flash_chips_new (pr_mcu_variant props) (pr_board_size props) = Some flash"
    using flash_chips_new_Some by blast
  from none chips flash assms(5) obtain reserved sets where s: "build_chip_sets bu (pr_serve_alg props) = Some (Inr sets)"
    "build_slots (pr_board props) reserved 0 sets = None \<or>
     (\<exists>slots. build_slots (pr_board props) reserved 0 sets = Some (Inr slots) \<and> place_and_write flash sets slots = None)"
    by (auto simp: compose_v2_def bind_p_None_iff split: prod.splits)
  have returns: "list_all (rom_set_returns (pr_board props)) sets" using assms(7) s(1) by blast
  have "plugin_table_ok (ch_type (hd (se_chips t)))" if "t \<in> set sets" for t
    using that built_first_chip(4) [OF s(1) _ assms(3)] by (metis in_set_conv_nth)
  then have "build_slots (pr_board props) reserved 0 sets \<noteq> None"
    using build_slots_None returns by (fastforce simp: list_all_iff)
  then obtain slots where "build_slots (pr_board props) reserved 0 sets = Some (Inr slots)" "place_and_write flash sets slots = None"
    using s(2) by metis
  then show False
    using placing_returns [OF assms(1,3) s(1) returns build_slots_Inr flash assms(6)] by blast
qed

end
