(* ===== verification/Build_Returns.thy ===== *)
theory Build_Returns
  imports Build_V2
begin

text \<open>
  A build does not panic: the layouts, the slot and the table of every set return a value or an
  error, whatever the wiring of the board, so that only the preparation of the sets and the
  placement are left, which the invariant of the builder settles.
\<close>

section \<open>The layouts return\<close>

text \<open>
  What the chip table guarantees of every ROM and RAM type: two address lines at least, one to
  sixteen data lines, and for a type that is deselected by high address lines (8 bits wide
  only) that there are such lines, within the table.
\<close>

definition geometry_ok :: "chip_type \<Rightarrow> bool" where
  "geometry_ok ct \<longleftrightarrow>
     ct_num_addr_lines ct = length (ct_address_pins ct) \<and> 2 \<le> ct_num_addr_lines ct \<and>
     ct_data_pins ct \<noteq> [] \<and> length (ct_data_pins ct) \<le> MAX_DATA_PINS \<and>
     (case ct_deselect_all_high ct of
        None \<Rightarrow> True
      | Some high \<Rightarrow> high \<noteq> [] \<and> \<not> supports_bit_mode ct 16 \<and> (\<forall>i \<in> set high. i < ct_num_addr_lines ct \<and> i < 19))"

lemma line_candidates_Some:
  "\<forall>idx \<in> set idxs. idx < length (ct_address_pins ct) \<Longrightarrow> line_candidates ctx ct idxs fly \<noteq> None"
proof (induction idxs arbitrary: fly)
  case (Cons idx idxs)
  then have "line_candidates ctx ct idxs fly' \<noteq> None" for fly' by simp
  then show ?case using Cons.prems by (auto simp: not_le split: sum.splits prod.splits)
qed simp

lemma addr_start_le: "addr_line_start ctx \<le> 1"
  by (simp add: addr_line_start_def)

lemma addr_layout_returns:
  assumes "sc_chip_types ctx \<noteq> []" "geometry_ok (hd (sc_chip_types ctx))"
  shows "derive_addr_layout ctx \<noteq> None"
proof -
  obtain ct cts where ct: "sc_chip_types ctx = ct # cts" using assms(1) by (cases "sc_chip_types ctx") auto
  have g: "ct_num_addr_lines ct = length (ct_address_pins ct)" "2 \<le> ct_num_addr_lines ct"
    using assms(2) by (simp_all add: geometry_ok_def ct)
  have start: "addr_line_start ctx < ct_num_addr_lines ct" using addr_start_le [of ctx] g(2) by simp
  have "line_candidates ctx ct [addr_line_start ctx..<ct_num_addr_lines ct] 0 \<noteq> None"
    by (rule line_candidates_Some) (simp add: g(1))
  then have search: "addr_search_of ctx \<noteq> None"
    using start by (auto simp: addr_search_of_def ct Let_def split: sum.splits)
  have span: "span_gpios s (resolve_combo (as_candidates s) 0) \<noteq> []" if s: "addr_search_of ctx = Some (Inr s)" for s
  proof -
    obtain cands xs where c: "as_candidates s = cands @ xs" "length cands = as_lines s"
      "as_lines s = ct_num_addr_lines ct - addr_line_start ctx"
      "as_in_range s = min (as_lines s) (max_useful_addr_lines ctx)"
      by (rule addr_search_of_Inr [OF s]) (simp add: ct)
    have "0 < as_in_range s" using c(3,4) start by (simp add: max_useful_lines)
    moreover have "as_in_range s \<le> length (as_candidates s)" using c(1,2,4) by simp
    moreover have "length (resolve_combo (as_candidates s) 0) = length (as_candidates s)"
      by (simp add: resolve_combo_def)
    ultimately have "take (as_in_range s) (resolve_combo (as_candidates s) 0) \<noteq> []"
      by (cases "resolve_combo (as_candidates s) 0") auto
    then show ?thesis by (simp add: span_gpios_def)
  qed
  show ?thesis
  proof (cases "addr_search_of ctx")
    case None
    then show ?thesis using search by simp
  next
    case (Some r)
    then show ?thesis
      using span by (cases r) (auto simp: derive_addr_layout_def split: option.splits)
  qed
qed

lemma gather_select_Some:
  assumes "sc_set_type ctx = Set_Multi \<longrightarrow> sc_multi_cs_config ctx \<noteq> None"
  shows "gather_select ctx ct \<noteq> None"
  using assms by (auto simp: gather_select_def)

lemma selects_nonempty:
  assumes "gather_select ctx ct = Some (Inr g)"
  shows "sg_select g \<noteq> []"
proof (cases "sc_set_type ctx = Set_Multi")
  case True
  then show ?thesis using assms by (auto simp: gather_select_def gather_multi_def bind_r_Inr_iff)
next
  case False
  then obtain pins where "select_phys_pins (sc_board ctx) ct (sc_cs_config ctx) = Inr pins"
    "map_r (\<lambda>(role, pin). bind_r (gpios_for_pin ctx ct pin) (\<lambda>gpios. Inr (role, gpios))) pins = Inr (sg_select g)"
    using assms by (auto simp: gather_select_def gather_single_def bind_r_Inr_iff)
  then show ?thesis
    using map_r_length by (fastforce simp: select_phys_pins_def Let_def split: if_splits)
qed

lemma cs_layout_returns:
  assumes "derive_addr_layout ctx = Some (Inr al)" "sc_chip_types ctx \<noteq> []" "geometry_ok (hd (sc_chip_types ctx))"
    and "sc_set_type ctx = Set_Multi \<longrightarrow> sc_multi_cs_config ctx \<noteq> None"
    and "\<not> supports_bit_mode (hd (sc_chip_types ctx)) 16 \<longrightarrow> sc_bit_mode ctx = BitMode8"
  shows "derive_cs_data_layout ctx (Some al) \<noteq> None"
proof -
  obtain ct cts where ct: "sc_chip_types ctx = ct # cts" using assms(2) by (cases "sc_chip_types ctx") auto
  have g: "geometry_ok ct" using assms(3) by (simp add: ct)
  note w = derived_addr_wired [OF assms(1)]
  have len: "length (al_addr_pin_gpios al) = min (ct_num_addr_lines ct - addr_line_start ctx) (max_useful_addr_lines ctx)"
  proof -
    have "length (al_addr_pin_gpios al @ al_excess_addr_pin_gpios al) = ct_num_addr_lines ct - addr_line_start ctx"
      "length (al_addr_pin_gpios al) =
         min (length (al_addr_pin_gpios al @ al_excess_addr_pin_gpios al)) (max_useful_addr_lines ctx)"
      using w unfolding ct list.sel(1) by blast+
    then show ?thesis by (simp only:)
  qed
  have qual: "qualifier_gpios (ct_deselect_all_high ct) (al_addr_pin_gpios al) \<notin> {None, Some (Some [])}"
  proof (cases "ct_deselect_all_high ct")
    case (Some high)
    then have i: "high \<noteq> []" "\<not> supports_bit_mode ct 16" "\<forall>i \<in> set high. i < ct_num_addr_lines ct \<and> i < 19"
      using g Some by (auto simp: geometry_ok_def)
    then have "sc_bit_mode ctx = BitMode8" using assms(5) by (simp add: ct)
    then have "length (al_addr_pin_gpios al) = min (ct_num_addr_lines ct) 19"
      unfolding len by (simp add: addr_line_start_def max_useful_lines)
    then show ?thesis using i by (simp add: Some qualifier_gpios_def list_all_iff)
  qed (simp add: qualifier_gpios_def)
  obtain sel where sel: "gather_select ctx ct = Some sel"
    using gather_select_Some [OF assms(4)] by blast
  have search: "cs_search_of ctx ct (Some al) \<noteq> None"
    using qual sel by (auto simp: cs_search_of_def split: option.splits sum.splits)
  have calm: "search_cs_data ctx ct q \<noteq> None" if q: "cs_search_of ctx ct (Some al) = Some (Inr q)" for q
  proof -
    have "cq_data q \<noteq> []"
      using map_r_length [OF cs_search_of_Inr(3) [OF q]] g by (auto simp: geometry_ok_def)
    moreover have "sg_select (cq_gather q) \<noteq> []" by (rule selects_nonempty [OF cs_search_of_Inr(4) [OF q]])
    moreover have "cq_qual q \<noteq> Some []"
      using q qual by (auto simp: cs_search_of_def bind_r_Inr_iff split: option.splits sum.splits)
    ultimately have "try_cs_choice q (resolve_combo (cs_candidates q) combo) \<noteq> Panicked" for combo
      using try_cs_choice_Panicked [OF resolve_combo_choice, of q combo] by blast
    then have "Panicked \<notin> set (cs_outcomes q)" unfolding cs_outcomes_def set_map by (metis imageE)
    then show ?thesis by (auto simp: search_cs_data_def split: option.splits)
  qed
  show ?thesis
    using search calm by (auto simp: derive_cs_data_layout_def ct split: option.splits sum.splits)
qed

section \<open>The slot and its table return\<close>

lemma derived_pin_counts:
  assumes "derive_addr_layout ctx = Some (Inr al)" "derive_cs_data_layout ctx (Some al) = Some (Inr cd)"
    and "length (ct_data_pins (hd (sc_chip_types ctx))) \<le> MAX_DATA_PINS"
  shows "length (al_addr_pin_gpios al) \<le> MAX_ADDR_PINS" "length (cd_data_pin_gpios cd) \<le> MAX_DATA_PINS"
proof -
  have "length (al_addr_pin_gpios al) \<le> max_useful_addr_lines ctx"
    using derived_addr_wired [OF assms(1)] by linarith
  then show "length (al_addr_pin_gpios al) \<le> MAX_ADDR_PINS" by (simp add: max_useful_lines MAX_ADDR_PINS_def split: if_splits)
  have "length (cd_data_pin_gpios cd) = length (ct_data_pins (hd (sc_chip_types ctx)))"
    using derived_lines_wired [OF assms(2)] list_all2_lengthD by metis
  then show "length (cd_data_pin_gpios cd) \<le> MAX_DATA_PINS" using assms(3) by simp
qed

text \<open>What the preparation of a ROM set leaves: its size, its types and its data.\<close>

definition set_sound :: "chip_set_type \<Rightarrow> chip list \<Rightarrow> bool" where
  "set_sound set_type chips \<longleftrightarrow> geometry_ok (ch_type (hd chips)) \<and>
     (case set_type of
        Set_Single \<Rightarrow> length chips = 1
      | Set_Banked \<Rightarrow> length chips \<in> {2, 3, 4}
      | Set_Multi \<Rightarrow> length chips \<in> {2, 3} \<and>
          derive_multi_cs_config (ch_type (hd chips)) (ch_cs_config (hd chips)) (ch_cs_config (chips ! 1)) \<noteq> None) \<and>
     (\<forall>c \<in> set chips. \<forall>d. ch_data c = Some d \<longrightarrow> ct_size_bytes (ch_type c) \<le> length d)"

lemma set_sound_context:
  assumes "set_sound set_type chips"
  shows "slot_context_of b set_type chips force \<noteq> None"
proof (cases "set_type = Set_Multi")
  case True
  then obtain c0 c1 rest where "chips = c0 # c1 # rest" "derive_multi_cs_config (ch_type c0) (ch_cs_config c0) (ch_cs_config c1) \<noteq> None"
    using assms by (cases chips; cases "tl chips") (auto simp: set_sound_def)
  then show ?thesis using True by (auto simp: slot_context_of_def multi_config_of_def split: option.splits)
next
  case False
  have "chips \<noteq> []" using assms by (auto simp: set_sound_def split: chip_set_type.splits)
  then show ?thesis using False by (cases chips) (auto simp: slot_context_of_def multi_config_of_def split: option.splits)
qed

lemma slot_layouts_return:
  assumes "set_sound set_type chips" "slot_context_of b set_type chips force = Some (Inr ctx)"
  shows "derive_addr_layout ctx \<noteq> None"
    and "derive_addr_layout ctx = Some (Inr al) \<Longrightarrow> derive_cs_data_layout ctx (Some al) \<noteq> None"
proof -
  note c = slot_context_of_Inr [OF assms(2)]
  have t: "sc_chip_types ctx \<noteq> []" "hd (sc_chip_types ctx) = ch_type (hd chips)" using c(3,4) by (simp_all add: hd_map)
  have g: "geometry_ok (hd (sc_chip_types ctx))" using assms(1) by (simp add: t set_sound_def)
  show "derive_addr_layout ctx \<noteq> None" by (rule addr_layout_returns [OF t(1) g])
  have "sc_set_type ctx = Set_Multi \<longrightarrow> sc_multi_cs_config ctx \<noteq> None"
    using c(2,7) by (cases "sc_multi_cs_config ctx") (auto simp: multi_config_of_def split: list.splits)
  moreover have "\<not> supports_bit_mode (hd (sc_chip_types ctx)) 16 \<longrightarrow> sc_bit_mode ctx = BitMode8"
    using c(5) by (simp add: t bit_mode_for_def)
  ultimately show "derive_addr_layout ctx = Some (Inr al) \<Longrightarrow> derive_cs_data_layout ctx (Some al) \<noteq> None"
    using cs_layout_returns [OF _ t(1) g] by blast
qed

lemma rom_slot_returns:
  assumes "set_sound set_type chips"
  shows "build_rom_slot b set_type chips data fw force \<noteq> None"
proof -
  obtain r where r: "slot_context_of b set_type chips force = Some r" using set_sound_context [OF assms] by blast
  show ?thesis
  proof (cases r)
    case (Inl e)
    then show ?thesis using r by (simp add: build_rom_slot_def)
  next
    case (Inr ctx)
    with r have ctx: "slot_context_of b set_type chips force = Some (Inr ctx)" by simp
    note ret = slot_layouts_return [OF assms ctx]
    obtain ral where ral: "derive_addr_layout ctx = Some ral" using ret(1) by blast
    show ?thesis
    proof (cases ral)
      case (Inl e)
      then show ?thesis using ctx ral by (simp add: build_rom_slot_def)
    next
      case (Inr al)
      with ral have al: "derive_addr_layout ctx = Some (Inr al)" by simp
      obtain rcd where rcd: "derive_cs_data_layout ctx (Some al) = Some rcd" using ret(2) [OF al] by blast
      show ?thesis
      proof (cases rcd)
        case (Inl e)
        then show ?thesis using ctx al rcd by (simp add: build_rom_slot_def)
      next
        case (Inr cd)
        with rcd have cd: "derive_cs_data_layout ctx (Some al) = Some (Inr cd)" by simp
        note c = slot_context_of_Inr [OF ctx]
        have "length (ct_data_pins (hd (sc_chip_types ctx))) \<le> MAX_DATA_PINS"
          using assms c(3,4) by (simp add: set_sound_def geometry_ok_def hd_map)
        note n = derived_pin_counts [OF al cd this]
        show ?thesis
          using slot_outcome_cases [OF ctx al cd n, of data fw] by (auto split: if_splits)
      qed
    qed
  qed
qed

lemma rom_table_returns:
  assumes "set_sound set_type chips" "build_rom_slot b set_type chips data fw force = Some (Inr (slot, al, cd, pref))"
  shows "build_rom_image al cd set_type chips (oc_dma (rs_alg slot)) \<noteq> None"
proof -
  obtain ctx alg where c: "slot_context_of b set_type chips force = Some (Inr ctx)"
    "derive_addr_layout ctx = Some (Inr al)" "derive_cs_data_layout ctx (Some al) = Some (Inr cd)"
    "build_alg_config ctx al cd (secondary_configs set_type chips) = Some alg" "rs_alg slot = alg"
    using build_rom_slot_Inr [OF assms(2)] by metis
  note s = slot_context_of_Inr [OF c(1)]
  have dma: "bytes_per_word (oc_dma (rs_alg slot)) = Some (if sc_bit_mode ctx = BitMode16 then 2 else 1)"
    using build_alg_config_Some(5) [OF c(4)] by (simp add: c(5) bytes_per_word_dma)
  have x: "set_type \<noteq> Set_Single \<longrightarrow> al_x1_gpio al \<noteq> None \<and> (3 \<le> length chips \<longrightarrow> al_x2_gpio al \<noteq> None)"
    using derived_x_present [OF c(2)] s(2,3) by simp
  have "set_shape al cd set_type (length chips)"
    using assms(1) x derived_multi_select [OF c(3)] s(2)
    by (cases set_type) (simp_all add: set_sound_def set_shape_def)
  then show ?thesis
    using rom_image_outcome [OF dma, of al cd set_type chips] assms(1)
    by (auto simp: set_sound_def split: if_splits)
qed

section \<open>What acceptance leaves with a builder\<close>

text \<open>The checks of the control lines look neither at the file nor at the plugin name of a chip.\<close>

definition bare :: "chip_config \<Rightarrow> chip_config" where
  "bare chip = chip\<lparr>cc_file := [], cc_plugin := None\<rparr>"

lemma bare_fields [simp]:
  "cc_chip_type (bare chip) = cc_chip_type chip" "cc_cs1 (bare chip) = cc_cs1 chip"
  "cc_cs2 (bare chip) = cc_cs2 chip" "cc_cs3 (bare chip) = cc_cs3 chip" "cc_cs4 (bare chip) = cc_cs4 chip"
  "cc_ce (bare chip) = cc_ce chip" "cc_oe (bare chip) = cc_oe chip"
  "cc_allow_cs_ignore (bare chip) = cc_allow_cs_ignore chip"
  by (simp_all add: bare_def)

lemma bare_checks [simp]:
  "cs_values (bare chip) = cs_values chip" "line_logic (bare chip) = line_logic chip"
  "control_names (bare chip) = control_names chip" "active_names (bare chip) = active_names chip"
  "check_ignore (bare chip) = check_ignore chip" "check_cs_order (bare chip) = check_cs_order chip"
  "cs_primary_polarity (bare chip) = cs_primary_polarity chip"
proof -
  show l: "line_logic (bare chip) = line_logic chip"
    by (rule ext) (simp only: line_logic_def bare_fields)
  show n: "control_names (bare chip) = control_names chip" by (simp only: control_names_def bare_fields)
  show "active_names (bare chip) = active_names chip" by (simp only: active_names_def l n)
  show "check_ignore (bare chip) = check_ignore chip"
    unfolding check_ignore_def fun_eq_iff bare_fields by simp
  show "check_cs_order (bare chip) = check_cs_order chip"
    unfolding check_cs_order_def fun_eq_iff bare_fields by simp
  show "cs_primary_polarity (bare chip) = cs_primary_polarity chip"
    unfolding cs_primary_polarity_def bare_fields ..
  show "cs_values (bare chip) = cs_values chip" unfolding cs_values_def bare_fields ..
qed

lemma check_chip_cs_bare: "check_chip_cs set_type set_id (i, bare chip) = check_chip_cs set_type set_id (i, chip)"
  unfolding check_chip_cs_def Let_def split_conv bare_fields bare_checks ..

lemma check_secondary_bare: "check_secondary (bare chip0) set_id i sel (bare chip) = check_secondary chip0 set_id i sel chip"
  unfolding check_secondary_def bare_fields bare_checks ..

lemma check_secondaries_bare:
  "check_secondaries (bare chip0) set_id i sel (map bare chips) = check_secondaries chip0 set_id i sel chips"
  by (induction chips arbitrary: i sel) (simp_all add: check_secondary_bare)

lemma check_multi_bare: "chips \<noteq> [] \<Longrightarrow> check_multi set_id (map bare chips) = check_multi set_id chips"
  unfolding check_multi_def by (simp add: drop_map check_secondaries_bare)

lemma check_banked_bare:
  assumes "chips \<noteq> []"
  shows "check_banked (map bare chips) = Inr () \<longleftrightarrow> check_banked chips = Inr ()"
  using assms by (simp add: check_banked_def each_r_Inr_iff drop_map Let_def)

definition bare_set :: "chip_set_config \<Rightarrow> chip_set_config" where
  "bare_set st = st\<lparr>st_chips := map bare (st_chips st)\<rparr>"

lemma bare_set_fields [simp]:
  "st_chips (bare_set st) = map bare (st_chips st)" "st_set_type (bare_set st) = st_set_type st"
  by (simp_all add: bare_set_def)

lemma check_set_cs_bare:
  "check_set_cs (set_id, bare_set st) = Inr () \<longleftrightarrow> check_set_cs (set_id, st) = Inr ()"
proof -
  have each: "each_r (check_chip_cs t set_id) (enumerated (map bare chips)) = Inr () \<longleftrightarrow>
      each_r (check_chip_cs t set_id) (enumerated chips) = Inr ()" for t chips
  proof -
    have "enumerated (map bare chips) = map (\<lambda>(i, c). (i, bare c)) (enumerated chips)"
      by (simp add: enumerated_def zip_map2)
    then show ?thesis by (auto simp: each_r_Inr_iff check_chip_cs_bare)
  qed
  have plugins: "list_all (\<lambda>c. ct_is_plugin (cc_chip_type c)) (map bare (st_chips st)) \<longleftrightarrow>
      list_all (\<lambda>c. ct_is_plugin (cc_chip_type c)) (st_chips st)"
    by (simp add: list.pred_map comp_def)
  have multi: "2 \<le> length (st_chips st) \<Longrightarrow> check_multi set_id (map bare (st_chips st)) = check_multi set_id (st_chips st)"
    by (rule check_multi_bare) auto
  have banked: "1 < length (st_chips st) \<Longrightarrow>
      check_banked (map bare (st_chips st)) = Inr () \<longleftrightarrow> check_banked (st_chips st) = Inr ()"
    by (rule check_banked_bare) auto
  show ?thesis
    unfolding check_set_cs_def Let_def split_conv bare_set_fields plugins length_map
    using each [of "st_set_type st" "st_chips st"] multi banked
    by (cases "list_all (\<lambda>c. ct_is_plugin (cc_chip_type c)) (st_chips st)") (auto simp: bind_r_Inr_iff)
qed

definition bare_sets :: "config \<Rightarrow> chip_set_config list" where
  "bare_sets c = map bare_set (cf_chip_sets c)"

lemma bare_update_chip: "(\<And>c. bare (f c) = bare c) \<Longrightarrow> map bare_set (update_chip n f sets) = map bare_set sets"
  by (induction n f sets rule: update_chip.induct)
    (auto simp: bare_set_def map_update list_update_same_conv)

lemma builder_step_bare:
  assumes "builder_step b b'"
  shows "bare_sets (bu_config b') = bare_sets (bu_config b) \<and> bu_version b' = bu_version b"
  using builder_step_kinds [OF assms]
proof (elim disjE exE)
  fix fd assume a: "add_file b fd = Inr b'"
  then show ?thesis
    unfolding add_file_config [OF a] by (auto simp: add_file_def bind_r_Inr_iff Let_def split: prod.splits)
next
  fix i f assume "set_plugin_file b i f = Inr b'"
  then show ?thesis
    by (auto simp: set_plugin_file_def Let_def bare_sets_def bare_update_chip bare_def split: option.splits if_splits)
qed simp

text \<open>The sets of a builder for firmware from 0.7.0 on pass the checks and are small.\<close>

definition sets_accepted :: "chip_set_config list \<Rightarrow> bool" where
  "sets_accepted sets \<longleftrightarrow> (\<forall>k<length sets. check_set_cs (k, sets ! k) = Inr () \<and>
     (st_set_type (sets ! k) = Set_Multi \<longrightarrow> length (st_chips (sets ! k)) \<le> 3) \<and>
     (st_set_type (sets ! k) = Set_Banked \<longrightarrow> length (st_chips (sets ! k)) \<le> 4))"

lemma sets_accepted_bare: "sets_accepted (map bare_set sets) \<longleftrightarrow> sets_accepted sets"
  by (simp add: sets_accepted_def check_set_cs_bare)

lemma reachable_accepted:
  assumes "reachable b" "MAX_SUPPORTED_FIRMWARE_VERSION_V1 < bu_version b"
  shows "sets_accepted (cf_chip_sets (bu_config b))"
proof -
  from assms have "sets_accepted (bare_sets (bu_config b))"
  proof (induction rule: reachable.induct)
    case (start version mcu_family c allow b w)
    then have ok: "check_config version mcu_family c allow = Inr w" and b: "bu_config b = c" "bu_version b = version"
      by (auto simp: from_config_def bind_r_Inr_iff)
    have "MIN_SUPPORTED_FIRMWARE_VERSION_V2 \<le> version"
      using check_config_ok [OF ok] start.prems b(2) by (auto simp: config_ok_def split: if_splits)
    then have v2: "validate_config_v2 version mcu_family c allow = Inr w"
      using ok by (simp add: check_config_def bind_r_Inr_iff)
    have "\<forall>k<length (cf_chip_sets c). check_set_cs (k, cf_chip_sets c ! k) = Inr ()"
      using validate_v2_ok(8) [OF v2] by (auto simp: check_cs_v2_def each_r_Inr_iff set_enumerated)
    moreover have "\<forall>k<length (cf_chip_sets c). fitting_size (cf_chip_sets c ! k)"
      using validate_v2_ok(3) [OF v2] by (simp add: sets_ok_def set_ok_def)
    ultimately have "sets_accepted (cf_chip_sets c)" by (auto simp: sets_accepted_def fitting_size_def)
    then show ?case by (simp add: b bare_sets_def sets_accepted_bare)
  next
    case (step b b')
    then show ?case using builder_step_bare by metis
  qed
  then show ?thesis by (simp add: bare_sets_def sets_accepted_bare)
qed

section \<open>The build returns\<close>

text \<open>
  The chip types of a configuration as the table has them: plugins have no control lines, the
  others meet \<open>lines_ok\<close> and \<open>geometry_ok\<close>.
\<close>

definition tables_ok :: "config \<Rightarrow> bool" where
  "tables_ok c \<longleftrightarrow> chip_table_ok c \<and>
     list_all (\<lambda>chip. let ct = cc_chip_type chip in
       if ct_is_plugin ct then ct_control_lines ct = [] else lines_ok ct \<and> geometry_ok ct) (all_chips c)"

text \<open>No plugin states CS2 to CS4 alone: nothing checks the lines of a plugin.\<close>

definition plugins_plain :: "config \<Rightarrow> bool" where
  "plugins_plain c \<longleftrightarrow>
     list_all (\<lambda>chip. ct_is_plugin (cc_chip_type chip) \<and> cc_cs1 chip = None \<and> cc_ce chip = None \<and> cc_oe chip = None \<longrightarrow>
       cc_cs2 chip = None \<and> cc_cs3 chip = None \<and> cc_cs4 chip = None) (all_chips c)"

lemma no_lines_resolve:
  assumes "ct_control_lines (cc_chip_type chip) = []"
  shows "chip_cs_config chip =
    (if cc_ce chip \<noteq> None \<or> cc_oe chip \<noteq> None then Some (new_with_ce_oe (cc_ce chip) (cc_oe chip))
     else cs_config_new (cc_cs1 chip) (cc_cs2 chip) (cc_cs3 chip) (cc_cs4 chip))"
  by (simp add: chip_cs_config_def from_chip_type_def resolve_line_def assms)

lemma accepted_lines_resolve:
  assumes "sets_accepted (cf_chip_sets c)" "tables_ok c" "plugins_plain c"
  shows "list_all (\<lambda>chip. chip_cs_config chip \<noteq> None) (all_chips c)"
proof -
  have "chip_cs_config chip \<noteq> None" if mem: "chip \<in> set (all_chips c)" for chip
  proof (cases "ct_is_plugin (cc_chip_type chip)")
    case True
    then have "ct_control_lines (cc_chip_type chip) = []"
      and "cc_cs1 chip = None \<and> cc_ce chip = None \<and> cc_oe chip = None \<longrightarrow>
        cc_cs2 chip = None \<and> cc_cs3 chip = None \<and> cc_cs4 chip = None"
      using assms(2,3) mem by (auto simp: tables_ok_def plugins_plain_def list_all_iff Let_def)
    then show ?thesis
      by (cases "cc_cs1 chip") (simp_all add: no_lines_resolve cs_config_new_def)
  next
    case False
    obtain st where st: "st \<in> set (cf_chip_sets c)" "chip \<in> set (st_chips st)"
      using mem by (auto simp: all_chips_def)
    then obtain k i where k: "k < length (cf_chip_sets c)" "i < length (st_chips (cf_chip_sets c ! k))"
      "chip = st_chips (cf_chip_sets c ! k) ! i"
      by (metis in_set_conv_nth)
    have "lines_ok (cc_chip_type chip)"
      using assms(2) mem False by (auto simp: tables_ok_def list_all_iff Let_def)
    moreover have "check_chip_cs (st_set_type (cf_chip_sets c ! k)) k (i, chip) = Inr ()"
      unfolding k(3) by (rule check_set_cs_chip) (use assms(1) k False in \<open>auto simp: sets_accepted_def\<close>)
    ultimately show ?thesis using chip_resolves [OF _ False] by blast
  qed
  then show ?thesis by (simp add: list_all_iff)
qed

lemma multi_select_derives:
  assumes "check_set_cs (k, st) = Inr ()" "st_set_type st = Set_Multi" "2 \<le> length (st_chips st)"
    and "\<not> ct_is_plugin (cc_chip_type (st_chips st ! 0))"
    and table: "\<forall>chip \<in> set (st_chips st). if ct_is_plugin (cc_chip_type chip) then ct_control_lines (cc_chip_type chip) = []
      else lines_ok (cc_chip_type chip)"
    and "chip_cs_config (st_chips st ! 1) = Some cfg1"
  shows "derive_multi_cs_config (cc_chip_type (st_chips st ! 0)) cfg0 cfg1 \<noteq> None"
proof -
  let ?c0 = "st_chips st ! 0" and ?c1 = "st_chips st ! 1"
  have l: "1 < length (st_chips st)" using assms(3) by linarith
  have "?c1 \<in> set (drop 1 (st_chips st))"
    using assms(3) by (cases "st_chips st"; cases "tl (st_chips st)") auto
  then obtain s where s: "s \<in> set (control_names ?c0)" "active_names ?c1 = [s]"
    using multi_set_select [OF assms(1-4)] by blast
  have "ct_control_lines (cc_chip_type ?c1) \<noteq> []"
    using s(2) by (auto simp: active_names_def control_names_def)
  then have ok: "\<not> ct_is_plugin (cc_chip_type ?c1)" "lines_ok (cc_chip_type ?c1)"
    using table nth_mem [OF l] by (auto split: if_splits)
  have "control_line_logic s cfg1 \<noteq> CsIgnore"
    by (rule sole_line_active [OF check_set_cs_chip [OF assms(1) l ok(1)] ok assms(6) s(2)])
  then show ?thesis
    using derive_multi_Some [of s "cc_chip_type ?c0" cfg1 cfg0] s(1) by (auto simp: named_lines_control)
qed

lemma built_set_sound:
  assumes "build_chip_sets bu alg = Some (Inr sets)" "k < length sets"
    and "sets_accepted (cf_chip_sets (bu_config bu))" "tables_ok (bu_config bu)"
    and "\<not> ct_is_plugin (ch_type (hd (se_chips (sets ! k))))"
  shows "set_sound (se_set_type (sets ! k)) (se_chips (sets ! k))"
proof -
  let ?cfg = "cf_chip_sets (bu_config bu) ! k" and ?chips = "se_chips (sets ! k)"
  note s = built_set [OF assms(1,2)]
  have k: "k < length (cf_chip_sets (bu_config bu))" using assms(2) s(1) by simp
  have chip: "ch_type (?chips ! j) = cc_chip_type (st_chips ?cfg ! j)"
      "chip_cs_config (st_chips ?cfg ! j) = Some (ch_cs_config (?chips ! j))"
      "st_chips ?cfg ! j \<in> set (all_chips (bu_config bu))"
      "\<And>d. ch_data (?chips ! j) = Some d \<Longrightarrow> length d = ct_size_bytes (ch_type (?chips ! j))"
    if j: "j < length ?chips" for j
  proof -
    have j': "j < length (st_chips ?cfg)" using j s(2) by simp
    note a = all_chips_nth [OF k j'] and c = built_chip [OF assms(1,2) j]
    show "ch_type (?chips ! j) = cc_chip_type (st_chips ?cfg ! j)"
      "chip_cs_config (st_chips ?cfg ! j) = Some (ch_cs_config (?chips ! j))"
      using c(3,4) a(2) by simp_all
    show "st_chips ?cfg ! j \<in> set (all_chips (bu_config bu))" using a nth_mem by metis
    show "\<And>d. ch_data (?chips ! j) = Some d \<Longrightarrow> length d = ct_size_bytes (ch_type (?chips ! j))" by (rule c(6))
  qed
  have hd: "hd ?chips = ?chips ! 0" "0 < length ?chips" using s(6) by (simp_all add: hd_conv_nth)
  have table: "if ct_is_plugin (cc_chip_type c) then ct_control_lines (cc_chip_type c) = []
      else lines_ok (cc_chip_type c) \<and> geometry_ok (cc_chip_type c)" if "c \<in> set (all_chips (bu_config bu))" for c
    using assms(4) that by (auto simp: tables_ok_def list_all_iff Let_def)
  have rom: "\<not> ct_is_plugin (cc_chip_type (st_chips ?cfg ! 0))" using assms(5) chip(1) [OF hd(2)] by (simp add: hd(1))
  then have geo: "geometry_ok (ch_type (hd ?chips))" using table [OF chip(3) [OF hd(2)]] chip(1) [OF hd(2)] by (simp add: hd(1))
  have acc: "check_set_cs (k, ?cfg) = Inr ()" "st_set_type ?cfg = Set_Multi \<Longrightarrow> length (st_chips ?cfg) \<le> 3"
    "st_set_type ?cfg = Set_Banked \<Longrightarrow> length (st_chips ?cfg) \<le> 4"
    using assms(3) k by (auto simp: sets_accepted_def)
  have data: "\<forall>c \<in> set ?chips. \<forall>d. ch_data c = Some d \<longrightarrow> ct_size_bytes (ch_type c) \<le> length d"
    using chip(4) by (auto simp: in_set_conv_nth)
  have type: "se_set_type (sets ! k) = st_set_type ?cfg" "length ?chips = length (st_chips ?cfg)"
    "st_set_type ?cfg = Set_Single \<longleftrightarrow> length ?chips = 1"
    using s by simp_all
  have multi: "derive_multi_cs_config (ch_type (hd ?chips)) (ch_cs_config (hd ?chips)) (ch_cs_config (?chips ! 1)) \<noteq> None"
    if m: "st_set_type ?cfg = Set_Multi"
  proof -
    have two: "2 \<le> length (st_chips ?cfg)" using type hd(2) m by (cases "length ?chips") auto
    then have one: "1 < length ?chips" using type(2) by simp
    have "\<forall>c \<in> set (st_chips ?cfg). if ct_is_plugin (cc_chip_type c) then ct_control_lines (cc_chip_type c) = []
        else lines_ok (cc_chip_type c)"
      using table k by (force simp: all_chips_def)
    from multi_select_derives [OF acc(1) m two rom this chip(2) [OF one]] show ?thesis
      using chip(1) [OF hd(2)] by (simp add: hd(1))
  qed
  show ?thesis
  proof (cases "st_set_type ?cfg")
    case Set_Single
    then show ?thesis using geo data type by (simp add: set_sound_def)
  next
    case Set_Banked
    then have "length ?chips \<noteq> 1" "length ?chips \<le> 4" using type acc(3) by simp_all
    then have "length ?chips = 2 \<or> length ?chips = 3 \<or> length ?chips = 4" using hd(2) by arith
    then have "length ?chips \<in> {2, 3, 4}" by blast
    then show ?thesis using Set_Banked geo data type(1) by (simp add: set_sound_def)
  next
    case Set_Multi
    then have "length ?chips \<noteq> 1" "length ?chips \<le> 3" using type acc(2) by simp_all
    then have "length ?chips = 2 \<or> length ?chips = 3" using hd(2) by arith
    then have "length ?chips \<in> {2, 3}" by blast
    then show ?thesis using Set_Multi geo data type(1) multi by (simp add: set_sound_def)
  qed
qed

lemma sound_set_returns:
  assumes "set_sound (se_set_type s) (se_chips s)"
  shows "rom_set_returns b s"
proof -
  obtain ov where ov: "override_block s = Some ov" using override_block_Some by blast
  show ?thesis
  proof (cases "build_rom_slot b (se_set_type s) (se_chips s) 0 ov (force_16_bit s)")
    case None
    then show ?thesis using rom_slot_returns [OF assms] by blast
  next
    case (Some r)
    show ?thesis
    proof (cases r)
      case (Inl e)
      then show ?thesis using Some ov by (simp add: rom_set_returns_def lay_out_rom_slot_def map_err_p_def)
    next
      case (Inr q)
      obtain slot al cd pref where q: "q = (slot, al, cd, pref)" by (cases q) auto
      have "build_rom_image al cd (se_set_type s) (se_chips s) (oc_dma (rs_alg slot)) \<noteq> None"
        using rom_table_returns [OF assms] Some Inr q by blast
      then show ?thesis
        using Some Inr q ov by (auto simp: rom_set_returns_def lay_out_rom_slot_def map_err_p_def)
    qed
  qed
qed

text \<open>
  C2: a build cannot panic. For a builder reached by its calls from a configuration accepted for
  firmware from 0.7.0 on, and passing its readiness check, on a board the metadata can describe
  and a Fire MCU, composing the metadata and the ROM data returns a value or an error, whatever the
  wiring of the board: control lines resolve, every set is laid out or refused, every file is there
  to be read, the plugins stand where they are linked to run, which the build asserts, and no image
  is written beyond the ROM data. The chip types are those of a table that meets \<open>tables_ok\<close>, and no
  plugin states CS2 to CS4 but neither CS1 nor CE or OE: one that does is accepted and the build panics
  (\<open>plugin_lines_panic\<close>).
\<close>

theorem build_returns:
  assumes "reachable bu" "build_validation bu fw = Some (Inr ())"
    and "MAX_SUPPORTED_FIRMWARE_VERSION_V1 < bu_version bu"
    and "tables_ok (bu_config bu)" "plugins_plain (bu_config bu)"
    and "header_board_ok (pr_board props)" "variant_family (pr_mcu_variant props) = Rp2350"
  shows "compose_v2 generations bu props \<noteq> None"
proof (rule compose_returns [OF assms(1,2)])
  note acc = reachable_accepted [OF assms(1,3)]
  show "chip_table_ok (bu_config bu)" using assms(4) by (simp add: tables_ok_def)
  show "list_all (\<lambda>c. chip_cs_config c \<noteq> None) (all_chips (bu_config bu))"
    by (rule accepted_lines_resolve [OF acc assms(4,5)])
  show "build_hardware_info (pr_board props) \<noteq> None" using hardware_info_fields [OF assms(6)] by auto
  show "variant_family (pr_mcu_variant props) = Rp2350" by (rule assms(7))
  have "rom_set_returns b s" if "build_chip_sets bu alg = Some (Inr sets)" "s \<in> set sets" for b s alg sets
  proof (cases "ct_is_plugin (ch_type (hd (se_chips s)))")
    case True
    then show ?thesis by (simp add: rom_set_returns_def)
  next
    case False
    then show ?thesis
      using that built_set_sound [OF that(1) _ acc assms(4)] sound_set_returns by (metis in_set_conv_nth)
  qed
  then show "\<forall>sets. build_chip_sets bu (pr_serve_alg props) = Some (Inr sets) \<longrightarrow>
      list_all (rom_set_returns (pr_board props)) sets"
    by (simp add: list_all_iff)
qed

text \<open>
  A plugin chip with a CS2 level and no CS1 level: the checks skip the chip, and preparing
  its set panics.
\<close>

theorem plugin_lines_panic:
  assumes "cf_chip_sets (bu_config bu) = st # sets" "st_chips st = [chip]"
    and "ct_is_plugin (cc_chip_type chip)" "ct_control_lines (cc_chip_type chip) = []"
    and "cc_cs1 chip = None" "cc_cs2 chip \<noteq> None" "cc_ce chip = None" "cc_oe chip = None"
  shows "check_set_cs (0, st) = Inr () \<and> build_chip_sets bu alg = None"
proof
  show "check_set_cs (0, st) = Inr ()" using assms(2,3) by (simp add: check_set_cs_def Let_def)
  have "chip_cs_config chip = None" using assms(4-8) by (simp add: no_lines_resolve cs_config_new_def)
  then show "build_chip_sets bu alg = None" using assms(1,2) by (simp add: build_chip_sets_def build_chip_def)
qed

end
