(* ===== verification/Build_Example.thy ===== *)
theory Build_Example
  imports Build_Returns
begin

text \<open>
  A concrete build: two banks of a 23128 on a fire-28-d board with one select pin reserved, from
  the configuration through its acceptance and the files to the finished ROM data. The
  properties of \<open>Build_V2\<close> are applied to it.
\<close>

section \<open>The configuration\<close>

definition second_bank :: chip_config where
  "second_bank = multi_primary\<lparr>cc_file := lit ''b.bin''\<rparr>"

definition bank_set :: chip_set_config where
  "bank_set = \<lparr>st_set_type = Set_Banked, st_chips = [multi_primary, second_bank], st_serve_alg = None,
     st_overrides = None\<rparr>"

definition bank_config :: config where
  "bank_config = \<lparr>cf_version = 1, cf_chip_sets = [bank_set], cf_instance_name = None,
     cf_serial_override = None, cf_boot_logging = False, cf_swd_enabled = False, cf_turbo_boot = False,
     cf_reserved_pins = [HeaderPin (SelectPin 0)]\<rparr>"

lemma second_bank_fields:
  "cc_file second_bank = lit ''b.bin''" "cc_plugin second_bank = None" "cc_location second_bank = None"
  "cc_extract second_bank = None" "cc_chip_type second_bank = three_cs_chip"
  "cc_cs1 second_bank = Some ActiveLow" "cc_cs2 second_bank = None" "cc_cs3 second_bank = Some CsIgnore"
  "cc_cs4 second_bank = None" "cc_ce second_bank = None" "cc_oe second_bank = None" "cc_allow_cs_ignore second_bank"
  by (simp_all add: second_bank_def multi_primary_def chip_config_new_def)

lemma bank_set_fields:
  "st_set_type bank_set = Set_Banked" "st_chips bank_set = [multi_primary, second_bank]"
  "st_serve_alg bank_set = None" "st_overrides bank_set = None" "\<not> set_standby bank_set"
  by (simp_all add: bank_set_def set_standby_def)

lemma bank_config_fields:
  "cf_version bank_config = 1" "cf_chip_sets bank_config = [bank_set]"
  "cf_instance_name bank_config = None" "cf_serial_override bank_config = None"
  "\<not> cf_turbo_boot bank_config" "cf_reserved_pins bank_config = [HeaderPin (SelectPin 0)]"
  by (simp_all add: bank_config_def)

lemmas bank_fields = multi_fields primary_file_fields second_bank_fields bank_set_fields bank_config_fields three_cs_type

lemma bank_cs: "check_cs_v2 bank_config = Inr ()"
proof -
  have "check_chip_cs Set_Banked 0 (0, multi_primary) = Inr ()" "check_chip_cs Set_Banked 0 (1, second_bank) = Inr ()"
    by (simp_all add: check_chip_cs_def bank_fields has_line_iff check_cs_value_def cs_values_def
        check_ignore_def fail_if_def Let_def)
  moreover have "check_banked [multi_primary, second_bank] = Inr ()"
    by (simp add: check_banked_def cs_primary_polarity_def bank_fields has_line_iff fail_if_def)
  ultimately show ?thesis
    by (simp add: check_cs_v2_def check_set_cs_def bank_fields enumerated_def Let_def)
qed

lemma bank_sets_checked:
  "check_chip_sets (FirmwareVersion 0 8 0 0) bank_config SUPPORTED_CHIP_TYPES_V2 Rp2350 = Inr 1"
proof -
  have "check_set (FirmwareVersion 0 8 0 0) 0 bank_set = Inr ()"
    by (simp add: check_set_def bank_fields fail_if_def)
  moreover have "check_supported (FirmwareVersion 0 8 0 0) SUPPORTED_CHIP_TYPES_V2 Rp2350 three_cs_chip = Inr ()"
    by (simp add: check_supported_def three_cs_type SUPPORTED_CHIP_TYPES_V2_def fail_if_def)
  then have "check_chip (FirmwareVersion 0 8 0 0) bank_config SUPPORTED_CHIP_TYPES_V2 Rp2350 0 bank_set
      False n multi_primary = Inr ()" "check_chip (FirmwareVersion 0 8 0 0) bank_config SUPPORTED_CHIP_TYPES_V2 Rp2350 0 bank_set
      False n second_bank = Inr ()" for n
    by (simp_all add: check_chip_def bank_fields chip_function_of_def check_location_def check_plugin_place_def
        fail_if_def Let_def)
  ultimately show ?thesis
    by (simp add: check_chip_sets_def bank_fields enumerated_def)
qed

lemma bank_accepted: "check_config (FirmwareVersion 0 8 0 0) Rp2350 bank_config False = Inr []"
proof -
  have "validate_config_v2 (FirmwareVersion 0 8 0 0) Rp2350 bank_config False = Inr []"
    by (simp add: validate_config_v2_def bank_config_fields bank_set_fields bank_cs bank_sets_checked
        validate_config_version_def validate_firmware_version_def MIN_SUPPORTED_FIRMWARE_VERSION_V2_def
        MAX_SUPPORTED_FIRMWARE_VERSION_V2_def UNSUPPORTED_FIRMWARE_VERSIONS_V2_def fail_if_def)
  then show ?thesis
    by (simp add: check_config_def bank_config_fields bank_set_fields MIN_RESERVED_PINS_VERSION_def
        MIN_SUPPORTED_FIRMWARE_VERSION_V2_def MAX_SUPPORTED_FIRMWARE_VERSION_V2_def fail_if_def)
qed

section \<open>The builder\<close>

definition bank_start :: builder where
  "bank_start = \<lparr>bu_version = FirmwareVersion 0 8 0 0, bu_config = bank_config, bu_files = [],
     bu_licenses = [], bu_file_ids = [(0, 0), (1, 1)]\<rparr>"

definition bank_file :: "u8 \<Rightarrow> u8 list" where "bank_file v = replicate 16384 v"

definition bank_ready :: builder where
  "bank_ready = bank_start\<lparr>bu_files := [(0, bank_file 0xA5), (1, bank_file 0x5A)]\<rparr>"

lemma bank_ready_fields:
  "bu_version bank_ready = FirmwareVersion 0 8 0 0" "bu_config bank_ready = bank_config"
  "bu_files bank_ready = [(0, bank_file 0xA5), (1, bank_file 0x5A)]"
  "bu_licenses bank_ready = []" "bu_file_ids bank_ready = [(0, 0), (1, 1)]"
  by (simp_all add: bank_ready_def bank_start_def)

lemma bank_chips: "all_chips bank_config = [multi_primary, second_bank]"
  by (simp add: all_chips_def bank_config_fields bank_set_fields)

lemma bank_reachable: "reachable bank_ready"
proof -
  have "build_file_id_map bank_config = [(0, 0), (1, 1)]"
    by (simp add: build_file_id_map_def bank_chips primary_file_fields second_bank_fields file_key_def lit_def)
  then have "from_config (FirmwareVersion 0 8 0 0) Rp2350 bank_config False = Inr (bank_start, [])"
    by (simp add: from_config_def bank_accepted bank_start_def)
  moreover have "types_ok bank_config"
    by (simp add: types_ok_def bank_chips multi_fields second_bank_fields plugin_type_ok_def three_cs_type)
  ultimately have "reachable bank_start" by (rule reachable.start)
  moreover have "add_file bank_start (0, bank_file 0xA5) = Inr (bank_start\<lparr>bu_files := [(0, bank_file 0xA5)]\<rparr>)"
    by (simp add: add_file_def bank_start_def total_file_count_def distinct_values_def fail_if_def)
  moreover have "add_file (bank_start\<lparr>bu_files := [(0, bank_file 0xA5)]\<rparr>) (1, bank_file 0x5A) = Inr bank_ready"
    by (simp add: add_file_def bank_ready_def bank_start_def total_file_count_def distinct_values_def fail_if_def)
  ultimately show ?thesis by (meson builder_step.load reachable.step)
qed

lemma bank_validated: "build_validation bank_ready (FirmwareVersion 0 8 0 0) = Some (Inr ())"
  by (simp add: build_validation_def bank_ready_fields check_plugins_set_def bank_chips primary_file_fields
      second_bank_fields check_all_files_loaded_def total_file_count_def distinct_values_def fail_if_def
      check_all_licenses_validated_def validate_plugins_def multi_fields three_cs_type upt_conv_Cons)

section \<open>The chip set\<close>

definition bank_props :: firmware_properties where
  "bank_props = \<lparr>pr_version = FirmwareVersion 0 8 0 0, pr_board = fire_28_d, pr_mcu_variant = RP2350,
     pr_serve_alg = AlgDefault, pr_boot_logging = False, pr_board_size = Size_M\<rparr>"

lemma bank_props_fields:
  "pr_board bank_props = fire_28_d" "pr_mcu_variant bank_props = RP2350"
  "pr_serve_alg bank_props = AlgDefault" "pr_board_size bank_props = Size_M"
  by (simp_all add: bank_props_def)

definition bank_chip :: "nat \<Rightarrow> ustr \<Rightarrow> u8 \<Rightarrow> chip" where
  "bank_chip i filename v = \<lparr>ch_index = i, ch_filename = filename, ch_label = None,
     ch_type = three_cs_chip, ch_type_raw = lit ''23128'', ch_cs_config = sc_cs_config banked_pair,
     ch_data = Some (bank_file v), ch_location = None\<rparr>"

definition built_banks :: "chip list" where
  "built_banks = [bank_chip 0 (lit ''a.bin'') 0xA5, bank_chip 1 (lit ''b.bin'') 0x5A]"

definition built_bank_set :: chip_set where
  "built_bank_set = \<lparr>se_id = 0, se_set_type = Set_Banked, se_serve_alg = AlgDefault,
     se_chips = built_banks, se_overrides = None\<rparr>"

lemma bank_chip_fields:
  "ch_type (bank_chip i f v) = three_cs_chip" "ch_data (bank_chip i f v) = Some (bank_file v)"
  "ch_cs_config (bank_chip i f v) = sc_cs_config banked_pair" "length (bank_file v) = 16384"
  by (simp_all add: bank_chip_def bank_file_def)

lemma built_banks_fields:
  "length built_banks = 2" "hd built_banks = bank_chip 0 (lit ''a.bin'') 0xA5" "built_banks \<noteq> []"
  "map ch_type built_banks = [three_cs_chip, three_cs_chip]"
  by (simp_all add: built_banks_def bank_chip_fields)

lemma built_bank_set_fields:
  "se_set_type built_bank_set = Set_Banked" "se_chips built_bank_set = built_banks"
  "se_overrides built_bank_set = None" "set_has_data built_bank_set" "\<not> force_16_bit built_bank_set"
  by (simp_all add: built_bank_set_def set_has_data_def has_data_def built_banks_fields bank_chip_fields
      force_16_bit_def)

lemma bank_cs_configs:
  "chip_cs_config multi_primary = Some (sc_cs_config banked_pair)"
  "chip_cs_config second_bank = Some (sc_cs_config banked_pair)"
  by (simp_all add: chip_cs_config_def bank_fields from_chip_type_def cs_config_new_def resolve_line_def
      banked_pair_def three_cs_chip_def)

lemma bank_reconciled: "reconcile three_cs_chip filename (bank_file v) False SH_None blank
    (replicate (ct_size_bytes three_cs_chip) 0) = Inr (bank_file v)"
  by (simp add: reconcile_def Let_def served_size_def three_cs_chip_def copy_at_def bank_file_def)

lemma bank_image_of:
  assumes "c \<in> {multi_primary, second_bank}"
  shows "chip_image i bank_set c (sc_cs_config banked_pair) (Some (bank_file v)) = Inr (bank_chip i (cc_file c) v)"
proof -
  have f: "cc_chip_type c = three_cs_chip" "cc_format c = Binary" "cc_load_address c = LoadAddress 0"
    "cc_label c = None" "cc_extract c = None" "cc_location c = None" "cc_transform c = []"
    "cc_size_handling c = SH_None" "cc_chip_type_raw c = lit ''23128''"
    using assms by (auto simp: second_bank_def multi_primary_def chip_config_new_def)
  have "\<not> length (replicate (ct_size_bytes three_cs_chip) (0 :: u8)) < ct_size_bytes three_cs_chip" by simp
  then show ?thesis
    by (simp add: chip_image_def f decode_source_def Let_def fail_if_def config_filename_def from_raw_rom_image_def
        locate_def rearrange_def bank_reconciled bank_chip_def)
qed

lemma bank_sets_built: "build_chip_sets bank_ready AlgDefault = Some (Inr [built_bank_set])"
proof -
  have "build_chip bank_ready 0 bank_set multi_primary = Some (Inr (bank_chip 0 (lit ''a.bin'') 0xA5))"
    "build_chip bank_ready 1 bank_set second_bank = Some (Inr (bank_chip 1 (lit ''b.bin'') 0x5A))"
    by (simp_all add: build_chip_def bank_cs_configs chip_file_def bank_ready_fields bank_image_of
        primary_file_fields second_bank_fields)
  then have "build_set_chips bank_ready bank_set 0 (st_chips bank_set) = Some (Inr built_banks)"
    by (simp add: bank_set_fields built_banks_def)
  then show ?thesis
    by (simp add: build_chip_sets_def bank_ready_fields bank_config_fields bank_set_fields chip_set_new_def
        built_banks_fields check_set_overrides_def fail_if_def built_bank_set_def)
qed

section \<open>The slot\<close>

lemma built_context: "slot_context_of fire_28_d Set_Banked built_banks False = Some (Inr banked_pair)"
  by (simp add: slot_context_of_def built_banks_def bank_chip_fields socket_pin_offset_def three_cs_chip_def
      fire_28_d_def multi_config_of_def bit_mode_for_def supports_bit_mode_def banked_pair_def)

lemma built_bit_mode: "bit_mode_for three_cs_chip fire_28_d = BitMode8"
  by (simp add: bit_mode_for_def supports_bit_mode_def three_cs_chip_def)

lemma built_slot_laid_out:
  obtains slot where "lay_out_rom_slot fire_28_d built_bank_set = Some (Inr (slot, banked_pair_layout, banked_cs_data))"
    "rs_size slot = 65536"
    "\<exists>pref. build_rom_slot fire_28_d Set_Banked built_banks 0 (None :: onerom_firmware_overrides option) False =
      Some (Inr (slot, banked_pair_layout, banked_cs_data, pref))"
proof -
  have "\<exists>slot pref. build_rom_slot fire_28_d Set_Banked built_banks 0 (None :: onerom_firmware_overrides option) False =
      Some (Inr (slot, banked_pair_layout, banked_cs_data, pref)) \<and> rs_size slot = 65536"
    using slot_outcome_cases [OF built_context banked_pair_derived banked_cs_derived, of 0
        "None :: onerom_firmware_overrides option"]
    by (simp add: banked_size(1) built_banks_fields bank_chip_fields built_bit_mode MAX_IMAGE_SIZE_def
        banked_pair_layout_def [THEN arg_cong, of al_addr_pin_gpios]
        banked_cs_data_def [THEN arg_cong, of cd_data_pin_gpios] MAX_ADDR_PINS_def MAX_DATA_PINS_def) blast
  then obtain slot pref where s: "build_rom_slot fire_28_d Set_Banked built_banks 0
      (None :: onerom_firmware_overrides option) False = Some (Inr (slot, banked_pair_layout, banked_cs_data, pref))"
    "rs_size slot = 65536" by blast
  have "lay_out_rom_slot fire_28_d built_bank_set = Some (Inr (slot, banked_pair_layout, banked_cs_data))"
    by (simp add: lay_out_rom_slot_def override_block_def built_bank_set_fields s(1) map_err_p_def)
  then show thesis using s by (intro that) blast+
qed

lemma built_alg:
  assumes "build_rom_slot fire_28_d Set_Banked built_banks 0 (ov :: 'o option) False =
      Some (Inr (slot, banked_pair_layout, banked_cs_data, pref))"
  shows "oc_data (rs_alg slot) = AlgData0 (data_common banked_cs_data 8)" "oc_dma (rs_alg slot) = build_alg_dma BitMode8"
proof -
  have c: "build_alg_config banked_pair banked_pair_layout banked_cs_data [] = Some (rs_alg slot)"
    using slot_apart(3) [OF assms built_context banked_ok] by (simp add: secondary_configs_def)
  have m: "sc_bit_mode banked_pair = BitMode8" by (simp add: banked_pair_def)
  show "oc_data (rs_alg slot) = AlgData0 (data_common banked_cs_data 8)"
    using build_alg_config_Some(2) [OF c] by (simp add: build_alg_data_def m)
  show "oc_dma (rs_alg slot) = build_alg_dma BitMode8"
    using build_alg_config_Some(5) [OF c] by (simp add: m)
qed

lemma built_table:
  obtains table where "build_rom_image banked_pair_layout banked_cs_data Set_Banked built_banks (build_alg_dma BitMode8) =
    Some (Inr table)"
proof -
  have "set_shape banked_pair_layout banked_cs_data Set_Banked (length built_banks)"
    by (simp add: set_shape_def banked_pair_layout_def built_banks_fields)
  moreover have "\<forall>c \<in> set built_banks. \<forall>data. ch_data c = Some data \<longrightarrow> ct_size_bytes (ch_type c) \<le> length data"
    by (auto simp: built_banks_def bank_chip_fields three_cs_chip_def)
  ultimately have "\<exists>table. build_rom_image banked_pair_layout banked_cs_data Set_Banked built_banks
      (build_alg_dma BitMode8) = Some (Inr table)"
    using rom_image_outcome [of "build_alg_dma BitMode8" 1 banked_pair_layout banked_cs_data Set_Banked built_banks]
    by (simp add: bytes_per_word_dma banked_size(1) MAX_IMAGE_SIZE_def) (simp add: built_banks_def bank_chip_fields)
  then show thesis using that by blast
qed

definition bank_reserved :: reserved_pins where
  "bank_reserved = snd (reserved_insert no_reserved (SelectPin 0))"

lemma bank_reserved_on: "reserved_pins_on bank_config fire_28_d = Inr bank_reserved"
  by (simp add: reserved_pins_on_def bank_config_fields bank_reserved_def header_pin_on_def gpio_on_def get_def
      fire_28_d_def [THEN arg_cong, of bd_sel_pins] NO_PIN_def
      reserved_insert_def MAX_SELECT_PINS_def)

lemma built_slot_spared:
  assumes "build_rom_slot fire_28_d Set_Banked built_banks 0 (ov :: 'o option) False =
      Some (Inr (slot, banked_pair_layout, banked_cs_data, pref))"
  shows "check_reserved_pins fire_28_d bank_reserved (rs_alg slot) = None"
proof -
  have "{g. bit (used_gpios (rs_alg slot)) g} =
      set (addr_used_gpios banked_pair_layout banked_cs_data (oc_data (rs_alg slot)))"
    by (rule slot_used_gpios [OF assms built_context banked_ok])
  then have "40 \<in> {g. bit (used_gpios (rs_alg slot)) g} \<longleftrightarrow>
      40 \<in> set (addr_used_gpios banked_pair_layout banked_cs_data (AlgData0 (data_common banked_cs_data 8)))"
    by (simp only: built_alg(1) [OF assms])
  then have "\<not> bit (used_gpios (rs_alg slot)) 40" by (simp add: banked_used)
  moreover have "has_gpio_on (SelectPin 0) fire_28_d g \<longleftrightarrow> g = 40" for g
    by (auto simp: has_gpio_on_def gpio_on_def get_def fire_28_d_def [THEN arg_cong, of bd_sel_pins] NO_PIN_def)
  moreover have "reserved_pin_list bank_reserved = [SelectPin 0]"
    by (simp add: reserved_pin_list_def bank_reserved_def reserved_insert_def reserved_contains_def no_reserved_def
        MAX_SELECT_PINS_def upt_conv_Cons flag_def set_if_def)
  ultimately show ?thesis by (auto simp: check_reserved_pins_def list_ex_iff)
qed

section \<open>The ROM data\<close>

definition bank_flash :: flash_chips where
  "bank_flash = \<lparr>fc_size = Size_M, fc_first_base = 0x10000000, fc_first_len = 0x200000, fc_second_len = None\<rparr>"

lemma bank_flash_new: "flash_chips_new RP2350 Size_M = Some bank_flash"
  by (simp add: flash_chips_new_def flash_layout_of_def FLASH_LAYOUTS_def flash_size_bytes_def
      OTP_FLASH_DEVINFO_SIZE_UNIT_def bank_flash_def)

lemma bank_addresses: "slot_addresses bank_flash [65536] = Inr [0x10010000]"
  by (simp add: slot_addresses_def space_take_def bank_flash_def rom_data_start_def first_end_def
      second_range_def METADATA_OFFSET_def METADATA_SIZE_def)

lemma bank_offset: "rom_offset bank_flash 0x10010000 = 0"
  by (simp add: rom_offset_def bank_flash_def rom_data_start_def second_range_def METADATA_OFFSET_def
      METADATA_SIZE_def)

lemma bank_header_ok: "header_board_ok fire_28_d"
  by (simp add: header_board_ok_def fire_28_d_def MAX_IMG_SEL_PINS_def MAX_PHYS_PINS_def)

abbreviation bank_generations :: "(firmware_version \<times> nat) list" where
  "bank_generations \<equiv> [(FirmwareVersion 0 7 0 0, 2)]"

lemma bank_composed:
  obtains header rom slot where
    "compose_v2 bank_generations bank_ready bank_props = Some (Inr (header, rom))"
    "mh_rom_slots header = [RomSlot slot banked_pair_layout banked_cs_data]"
    "rs_data slot = 0x10010000" "rs_size slot = 65536"
    "oc_data (rs_alg slot) = AlgData0 (data_common banked_cs_data 8)"
proof -
  obtain slot pref where slot: "lay_out_rom_slot fire_28_d built_bank_set = Some (Inr (slot, banked_pair_layout, banked_cs_data))"
    "rs_size slot = 65536" "build_rom_slot fire_28_d Set_Banked built_banks 0 (None :: onerom_firmware_overrides option) False =
      Some (Inr (slot, banked_pair_layout, banked_cs_data, pref))"
    by (rule built_slot_laid_out) blast
  note alg = built_alg [OF slot(3)]
  obtain table where table: "build_rom_image banked_pair_layout banked_cs_data Set_Banked built_banks
      (oc_dma (rs_alg slot)) = Some (Inr table)"
    using built_table unfolding alg(2) by blast
  have len: "length table = 65536" using table_length [OF slot(3) table] slot(2) by simp
  have slots: "build_slots fire_28_d bank_reserved 0 [built_bank_set] = Some (Inr [RomSlot slot banked_pair_layout banked_cs_data])"
    by (simp add: built_bank_set_fields built_banks_fields bank_chip_fields three_cs_lines slot(1) built_slot_spared [OF slot(3)])
  let ?slot = "slot\<lparr>rs_data := 0x10010000\<rparr>"
  have "slot_image built_bank_set (RomSlot ?slot banked_pair_layout banked_cs_data) = Some (Inr table)"
    by (simp add: built_bank_set_fields table map_err_p_def)
  moreover have "write_slice 0 table (replicate 65536 0xFF) = Some table"
    using len by (simp add: write_slice_def copy_at_def)
  ultimately have "write_images bank_flash [(built_bank_set, RomSlot ?slot banked_pair_layout banked_cs_data, 0x10010000)]
      (replicate 65536 0xFF) = Some (Inr table)"
    by (simp add: built_bank_set_fields bank_offset)
  then have placed: "place_and_write bank_flash [built_bank_set] [RomSlot slot banked_pair_layout banked_cs_data] =
      Some (Inr ([RomSlot ?slot banked_pair_layout banked_cs_data], table))"
    by (simp add: place_and_write_def stored_size_def built_bank_set_fields slot(2) bank_addresses built_banks_fields
        bank_chip_fields three_cs_type place_slot_def rom_data_size_def bank_offset)
  obtain hw where hw: "build_hardware_info fire_28_d = Some hw" using hardware_info_fields [OF bank_header_ok] by blast
  have gen: "metadata_generation_for bank_generations (FirmwareVersion 0 8 0 0) = Some 2"
    by (simp add: metadata_generation_for_def)
  let ?header = "compose_header 2 bank_config hw bank_reserved [RomSlot ?slot banked_pair_layout banked_cs_data]"
  have "compose_v2 bank_generations bank_ready bank_props = Some (Inr (?header, table))"
    by (simp add: compose_v2_def bank_ready_fields gen ok_or_def bank_props_fields bank_reserved_on bank_sets_built
        slots bank_flash_new placed hw del: build_slots.simps)
  then show thesis by (rule that [of _ _ ?slot]) (simp_all add: compose_header_def slot(2) alg(1))
qed

section \<open>The properties of the build, applied\<close>

lemma bank_built: "build_chip_sets bank_ready (pr_serve_alg bank_props) = Some (Inr [built_bank_set])"
  by (simp add: bank_props_fields bank_sets_built)

lemma bank_chips_new: "flash_chips_new (pr_mcu_variant bank_props) (pr_board_size bank_props) = Some bank_flash"
  by (simp add: bank_props_fields bank_flash_new)

lemma bank_table_ok: "chip_table_ok (bu_config bank_ready)" "type_sizes_ok (bu_config bank_ready)"
  by (simp_all add: chip_table_ok_def type_sizes_ok_def bank_ready_fields bank_chips multi_fields second_bank_fields
      plugin_table_ok_def three_cs_chip_def)

lemma bank_set_context:
  "slot_context_of (pr_board bank_props) (se_set_type ([built_bank_set] ! 0)) (se_chips ([built_bank_set] ! 0))
     (force_16_bit ([built_bank_set] ! 0)) = Some (Inr banked_pair)"
  by (simp add: bank_props_fields built_bank_set_fields built_context)

theorem rom_data_layout_witness:
  "\<exists>header rom. compose_v2 bank_generations bank_ready bank_props = Some (Inr (header, rom)) \<and>
     length (mh_rom_slots header) = 1 \<and> image_stored bank_flash rom built_bank_set (mh_rom_slots header ! 0)"
proof -
  obtain header rom where c: "compose_v2 bank_generations bank_ready bank_props = Some (Inr (header, rom))"
    by (rule bank_composed)
  show ?thesis using c rom_data_layout [OF c bank_built bank_chips_new bank_table_ok(2)] by auto
qed

text \<open>With X1 open the second bank, all 0x5A, is served: its bit 1 is set.\<close>

theorem built_image_serves_witness:
  "\<exists>header rom slot. compose_v2 bank_generations bank_ready bank_props = Some (Inr (header, rom)) \<and>
     mh_rom_slots header = [RomSlot slot banked_pair_layout banked_cs_data] \<and>
     served_level banked_cs_data (take 65536 rom) 1
       (host_index banked_pair_layout (pio_level (override_params (rs_alg slot)) (\<lambda>g. g = 18))) 1"
proof -
  obtain header rom slot where c: "compose_v2 bank_generations bank_ready bank_props = Some (Inr (header, rom))"
    and h: "mh_rom_slots header = [RomSlot slot banked_pair_layout banked_cs_data]"
    and s: "rs_data slot = 0x10010000" "rs_size slot = 65536"
    by (rule bank_composed)
  have k: "mh_rom_slots header ! 0 = RomSlot slot banked_pair_layout banked_cs_data" "set_has_data ([built_bank_set] ! 0)"
    by (simp_all add: h built_bank_set_fields)
  have fit: "al_num_addr_pins banked_pair_layout < 32" "1 < length (cd_data_pin_gpios banked_cs_data)"
    "se_set_type ([built_bank_set] ! 0) = Set_Multi \<longrightarrow> x_bonds_agree banked_pair_layout banked_cs_data"
    by (simp_all add: banked_pair_layout_def banked_cs_data_def built_bank_set_fields)
  have "selected_chip banked_pair banked_pair_layout banked_cs_data [] (\<lambda>g. g = 18) = Some 1"
    by (simp add: selected_chip_def banked_pair_def banked_pair_layout_def jumper_closed_def fire_28_d_def)
  moreover have "host_address banked_pair_layout (\<lambda>g. g = 18) = 0"
    by (simp add: host_address_def banked_pair_layout_def)
  moreover have "served_bit built_banks 1 (Some 1) 0 1"
    by (simp add: served_bit_def built_banks_def bank_chip_fields bank_file_def
        three_cs_chip_def [THEN arg_cong, of ct_size_bytes])
  moreover have "0 < length [built_bank_set]" by simp
  note built_image_serves [OF c bank_built bank_chips_new bank_table_ok(2) this k bank_set_context banked_ok fit(1,3,2),
      of "\<lambda>g. g = 18"]
  ultimately have "served_level banked_cs_data (take 65536 rom) 1
       (host_index banked_pair_layout (pio_level (override_params (rs_alg slot)) (\<lambda>g. g = 18))) 1"
    by (simp add: s bank_offset built_bank_set_fields secondary_configs_def
        banked_pair_def [THEN arg_cong, of sc_bit_mode] banked_cs_data_def [THEN arg_cong, of cd_data_pin_gpios])
  then show ?thesis using c h by blast
qed

text \<open>The reserved select pin is on GPIO 40, which is none of the slot's.\<close>

theorem reserved_pins_spared_witness:
  "\<exists>header rom. compose_v2 bank_generations bank_ready bank_props = Some (Inr (header, rom)) \<and>
     has_gpio_on (SelectPin 0) fire_28_d 40 \<and> \<not> has_gpio_on (SelectPin 0) fire_28_d 28"
proof -
  obtain header rom slot where c: "compose_v2 bank_generations bank_ready bank_props = Some (Inr (header, rom))"
    and h: "mh_rom_slots header = [RomSlot slot banked_pair_layout banked_cs_data]"
    and a: "oc_data (rs_alg slot) = AlgData0 (data_common banked_cs_data 8)"
    by (rule bank_composed)
  have k: "0 < length [built_bank_set]" "mh_rom_slots header ! 0 = RomSlot slot banked_pair_layout banked_cs_data"
    by (simp_all add: h)
  have pin: "HeaderPin (SelectPin 0) \<in> set (cf_reserved_pins (bu_config bank_ready))"
    "header_pin_on (HeaderPin (SelectPin 0)) (pr_board bank_props) = Some (SelectPin 0)"
    by (simp_all add: bank_ready_fields bank_config_fields bank_props_fields header_pin_on_def gpio_on_def get_def
        fire_28_d_def [THEN arg_cong, of bd_sel_pins] NO_PIN_def)
  have g: "28 \<in> set (addr_used_gpios banked_pair_layout banked_cs_data (oc_data (rs_alg slot)))"
    by (simp add: a banked_used)
  have "\<not> has_gpio_on (SelectPin 0) fire_28_d 28"
    using reserved_pins_spared [OF c bank_built k bank_set_context banked_ok pin g]
    by (simp add: bank_props_fields)
  moreover have "has_gpio_on (SelectPin 0) fire_28_d 40"
    by (simp add: has_gpio_on_def gpio_on_def get_def fire_28_d_def [THEN arg_cong, of bd_sel_pins] NO_PIN_def)
  ultimately show ?thesis using c by blast
qed

theorem build_returns_witness: "compose_v2 bank_generations bank_ready bank_props \<noteq> None"
proof (rule build_returns [OF bank_reachable bank_validated])
  show "MAX_SUPPORTED_FIRMWARE_VERSION_V1 < bu_version bank_ready"
    by (simp add: bank_ready_fields MAX_SUPPORTED_FIRMWARE_VERSION_V1_def)
  have "geometry_ok three_cs_chip"
    by (simp add: geometry_ok_def three_cs_chip_def MAX_DATA_PINS_def)
  moreover have "\<not> ct_is_plugin three_cs_chip" by (simp add: three_cs_chip_def)
  ultimately show "tables_ok (bu_config bank_ready)" "plugins_plain (bu_config bank_ready)"
    using bank_table_ok(1) three_cs_lines_ok
    by (simp_all add: tables_ok_def plugins_plain_def bank_ready_fields bank_chips multi_fields second_bank_fields)
  show "header_board_ok (pr_board bank_props)" using bank_header_ok by (simp add: bank_props_fields)
  show "variant_family (pr_mcu_variant bank_props) = Rp2350" by (simp add: bank_props_fields)
qed

theorem hardware_info_of_board_witness:
  "\<exists>hw. build_hardware_info fire_28_d = Some hw \<and> hi_gpio_sel hw = [40, 41, 38, 39, 255, 255, 255] \<and>
     hi_gpio_from_phys_pin hw ! 19 = [10, 255]"
proof -
  obtain hw where hw: "build_hardware_info fire_28_d = Some hw"
    "hi_gpio_sel hw = padded_gpios MAX_IMG_SEL_PINS (bd_sel_pins fire_28_d)"
    "\<forall>pin \<in> {1..MAX_PHYS_PINS}. hi_gpio_from_phys_pin hw ! (pin - 1) = padded_gpios 2 (gpios_for_socket_pin fire_28_d pin)"
    using hardware_info_of_board [OF bank_header_ok] by blast
  have "hi_gpio_from_phys_pin hw ! 19 = padded_gpios 2 (gpios_for_socket_pin fire_28_d 20)"
    using hw(3) [rule_format, of 20] by (simp add: MAX_PHYS_PINS_def)
  then show ?thesis
    using hw(1,2) by (simp add: padded_gpios_def GPIO_NONE_def MAX_IMG_SEL_PINS_def gpios_for_socket_pin_def
        fire_28_d_def [THEN arg_cong, of bd_sel_pins] fire_28_d_def [THEN arg_cong, of bd_socket_pin_map] numeral_nat)
qed

end
