(* ===== verification/Image_V1.thy ===== *)
theory Image_V1
  imports Gen_Build
begin

text \<open>
  The images of the legacy build, for firmware before 0.7: \<open>Chip::get_byte\<close>, \<open>ChipSet::get_byte\<close>,
  \<open>ChipSet::image_size\<close>, \<open>multi_cs_logic\<close> and \<open>handle_snowflake_chip_types\<close> of
  \<open>rust/gen/src/image.rs\<close>. An image holds, at the address the pins of the socket form as the
  microcontroller sees them, the byte with its bits where the data pins are. The pin tables of a
  board are generated and are fields of \<open>v1_board\<close>; shift amounts wrap as in a release build.
  \<open>None\<close> is a panic.
\<close>

section \<open>Boards\<close>

record v1_board =
  vb_board :: board
  vb_addr_map :: "nat option list"
  vb_num_addr_pins :: nat
  vb_data_pins :: "nat list"
  vb_bit_x1 :: nat
  vb_bit_x2 :: nat
  vb_bit_cs1 :: "string \<Rightarrow> nat"
  vb_bit_cs2 :: "string \<Rightarrow> nat"
  vb_bit_cs3 :: "string \<Rightarrow> nat"
  vb_bit_ce :: "string \<Rightarrow> nat"
  vb_bit_oe :: "string \<Rightarrow> nat"
  vb_mcu_pio :: bool
  vb_supported_types :: "string list"
  vb_extra_types :: "string list"

definition allows_chip_type :: "v1_board \<Rightarrow> chip_type \<Rightarrow> bool" where
  "allows_chip_type v ct \<longleftrightarrow> ct_name ct \<in> set (vb_supported_types v) \<or> ct_name ct \<in> set (vb_extra_types v)"

abbreviation vb_name :: "v1_board \<Rightarrow> string" where "vb_name v \<equiv> bd_name (vb_board v)"
abbreviation vb_pins :: "v1_board \<Rightarrow> nat" where "vb_pins v \<equiv> bd_chip_pins (vb_board v)"

definition PAD_RAM_BYTE :: u8 where "PAD_RAM_BYTE = 0x55"

definition MIN_FW_VER_FIRE_28_18_ADDR_PINS :: firmware_version where
  "MIN_FW_VER_FIRE_28_18_ADDR_PINS = FirmwareVersion 0 6 3 0"

definition SYSTEM_PLUGIN_SIZE :: nat where "SYSTEM_PLUGIN_SIZE = 0x10000"

text \<open>\<open>address & (1 << pin) != 0\<close>\<close>

definition pin_high :: "usize \<Rightarrow> nat \<Rightarrow> bool" where
  "pin_high address pin \<longleftrightarrow> bit address (pin mod 64)"

section \<open>Addresses and bytes of a chip\<close>

definition address_to_logical :: "nat option list \<Rightarrow> usize \<Rightarrow> nat \<Rightarrow> usize" where
  "address_to_logical pin_map address num_addr_lines =
     fold (\<lambda>(pin, item) result.
         case item of
           Some addr_bit \<Rightarrow>
             if addr_bit < num_addr_lines \<and> pin_high address pin then result OR 2 ^ (addr_bit mod 64) else result
         | None \<Rightarrow> result)
       (enumerated pin_map) 0"

text \<open>Where a data pin stands in the byte.\<close>

definition data_position :: "nat \<Rightarrow> nat option" where
  "data_position pin =
     (if 15 < pin then if pin < 24 then Some (pin - 16) else None
      else if pin < 8 then Some pin else None)"

definition byte_mangled :: "u8 \<Rightarrow> v1_board \<Rightarrow> u8 option" where
  "byte_mangled byte v =
     fold (\<lambda>bit_pos result.
         Option.bind result (\<lambda>r.
           if \<not> bit byte bit_pos then Some r
           else Option.bind (get (vb_data_pins v) bit_pos) (\<lambda>pin.
             map_option (\<lambda>pos. r OR push_bit pos 1) (data_position pin))))
       [0..<8] (Some 0)"

definition get_byte_raw :: "chip \<Rightarrow> usize \<Rightarrow> u8 option" where
  "get_byte_raw c address = Option.bind (ch_data c) (\<lambda>data. get data address)"

definition chip_get_byte :: "chip \<Rightarrow> nat option list \<Rightarrow> usize \<Rightarrow> v1_board \<Rightarrow> u8 option" where
  "chip_get_byte c pin_map address v =
     Option.bind (ch_data c) (\<lambda>data.
     Option.bind (get data (address_to_logical pin_map address (ct_num_addr_lines (ch_type c)))) (\<lambda>byte.
       byte_mangled byte v))"

definition truncate_addr_map :: "nat option list \<Rightarrow> nat \<Rightarrow> nat option list" where
  "truncate_addr_map pin_map num_addr_lines =
     map (\<lambda>item. case item of
         Some addr_bit \<Rightarrow> if num_addr_lines \<le> addr_bit then None else Some addr_bit
       | None \<Rightarrow> None) pin_map"

section \<open>Chip types with address lines of their own\<close>

definition index_of :: "'a \<Rightarrow> 'a list \<Rightarrow> nat option" where
  "index_of x xs = (if x \<in> set xs then Some (length (takeWhile (\<lambda>y. y \<noteq> x) xs)) else None)"

text \<open>Vectors: \<open>remove(0)\<close>, and an indexed write.\<close>

definition remove_first :: "'a list \<Rightarrow> 'a list option" where
  "remove_first xs = (if xs = [] then None else Some (tl xs))"

definition vec_set :: "nat \<Rightarrow> 'a \<Rightarrow> 'a list \<Rightarrow> 'a list option" where
  "vec_set i x xs = (if i < length xs then Some (xs[i := x]) else None)"

definition vec_swap :: "nat \<Rightarrow> nat \<Rightarrow> 'a list \<Rightarrow> 'a list option" where
  "vec_swap i j xs =
     (if i < length xs \<and> j < length xs then Some (xs[i := xs ! j, j := xs ! i]) else None)"

text \<open>Two address lines exchanged, where both are found.\<close>

definition exchange_lines :: "nat \<Rightarrow> nat \<Rightarrow> nat option list \<Rightarrow> nat option list option" where
  "exchange_lines m n pin_map =
     Option.bind (index_of (Some m) pin_map) (\<lambda>i.
     Option.bind (index_of (Some n) pin_map) (\<lambda>j.
       Some (pin_map[i := Some n, j := Some m])))"

definition is_fire_28_ab :: "v1_board \<Rightarrow> bool" where
  "is_fire_28_ab v \<longleftrightarrow> vb_name v = ''fire-28-a'' \<or> vb_name v = ''fire-28-b''"

definition map_2364_in_28 :: "v1_board \<Rightarrow> nat option list \<Rightarrow> nat option list option" where
  "map_2364_in_28 v pin_map =
     (let cs_pin = (if is_fire_28_ab v then vb_bit_ce v ''2764'' else vb_bit_oe v ''2764'');
          cs1_pin = vb_bit_cs1 v ''231024''
      in
        Option.bind (index_of (Some 16) pin_map) (\<lambda>i16.
        Option.bind (vec_swap i16 cs_pin pin_map) (\<lambda>pin_map.
        Option.bind (index_of (Some 11) pin_map) (\<lambda>i11.
        Option.bind (index_of (Some 12) pin_map) (\<lambda>i12.
        Option.bind (get pin_map cs1_pin) (\<lambda>old_cs1.
          Some (pin_map[cs1_pin := Some 11, i11 := Some 12, i12 := old_cs1])))))))"

definition map_27C301 :: "v1_board \<Rightarrow> nat option list \<Rightarrow> nat option list option" where
  "map_27C301 v pin_map =
     Option.bind (index_of (Some 16) pin_map) (\<lambda>a16.
       if vb_name v = ''fire-32-a'' then
         if a16 = 0 then map_option (\<lambda>m. m @ [Some 16]) (remove_first pin_map) else None
       else if vb_name v = ''fire-32-b'' then
         if a16 = 2 then
           Option.bind (remove_first pin_map) (\<lambda>m.
           Option.bind (remove_first m) (\<lambda>m.
             vec_set 0 None (m @ [None, Some 16])))
         else None
       else None)"

definition map_23QL :: "v1_board \<Rightarrow> nat option list \<Rightarrow> nat option list option" where
  "map_23QL v pin_map =
     Option.bind (index_of (Some 15) pin_map) (\<lambda>i15.
     Option.bind (vec_set (vb_bit_ce v ''27512'') (Some 15) pin_map) (\<lambda>m.
     Option.bind (vec_set (vb_bit_oe v ''27512'') None m) (\<lambda>m.
     Option.bind (vec_set i15 None m) (\<lambda>m.
       if is_fire_28_ab v then map_option (\<lambda>m. m @ [None]) (remove_first m) else Some m))))"

definition handle_snowflake_chip_types :: "v1_board \<Rightarrow> nat option list \<Rightarrow> chip_type \<Rightarrow> nat option list option" where
  "handle_snowflake_chip_types v pin_map ct =
     (if vb_pins v = 24 \<and> is_type ct ''2732'' then exchange_lines 11 12 pin_map
      else if vb_pins v = 28 \<and> is_type ct ''2364'' then map_2364_in_28 v pin_map
      else if vb_pins v = 28 \<and> \<not> is_type ct ''231024'' \<and> \<not> is_type ct ''2364'' \<and>
          \<not> is_type ct ''23QL512'' \<and> \<not> is_type ct ''23QL384'' then
        Option.bind (remove_first pin_map) (\<lambda>m.
        Option.bind (remove_first m) (\<lambda>m.
          let m = m @ [None, None] in
          if is_type ct ''28C256'' then exchange_lines 14 15 m else Some m))
      else if is_type ct ''27C301'' then map_27C301 v pin_map
      else if is_type ct ''23QL512'' \<or> is_type ct ''23QL384'' then map_23QL v pin_map
      else if is_type ct ''SST39SF040'' then
        if vb_name v \<noteq> ''fire-32-b'' then None
        else map_option (\<lambda>m. m @ [Some 18]) (remove_first pin_map)
      else Some pin_map)"

text \<open>The map of a chip of a set, as \<open>get_byte\<close> takes it.\<close>

definition chip_addr_map :: "v1_board \<Rightarrow> chip_type \<Rightarrow> nat option list option" where
  "chip_addr_map v ct =
     map_option (\<lambda>m. truncate_addr_map m (ct_num_addr_lines ct))
       (handle_snowflake_chip_types v (vb_addr_map v) ct)"

section \<open>The image of a set\<close>

definition image_size :: "chip_set \<Rightarrow> v1_board \<Rightarrow> firmware_version \<Rightarrow> nat option" where
  "image_size s v fw =
     (if se_chips s = [] then None
      else if se_set_type s = Set_Multi \<or> se_set_type s = Set_Banked then
        if vb_pins v = 24 then Some (2 ^ 16) else None
      else if length (se_chips s) \<noteq> 1 then None
      else
        let ct = ch_type (hd (se_chips s)); n = vb_num_addr_pins v; family = bd_mcu_family (vb_board v) in
          if ct_is_plugin ct then Some SYSTEM_PLUGIN_SIZE
          else if vb_pins v = 24 \<and> family = Stm32f4 then if n = 13 then Some (2 ^ 14) else None
          else if vb_pins v = 28 \<and> family = Stm32f4 then if n = 14 then Some (2 ^ 16) else None
          else if vb_pins v = 24 then if n = 13 then Some (2 ^ 16) else None
          else if vb_pins v = 28 then
            if fw < MIN_FW_VER_FIRE_28_18_ADDR_PINS then Some (2 ^ 16)
            else if n \<noteq> 18 then None
            else if is_type ct ''2364'' \<or> is_type ct ''231024'' then Some (2 ^ 18)
            else if is_type ct ''23QL384'' \<or> is_type ct ''23QL512'' then
              Some (if is_fire_28_ab v then 2 ^ 17 else 2 ^ 18)
            else Some (2 ^ 16)
          else if (vb_pins v = 32 \<or> vb_pins v = 40) \<and> family = Rp2350 then
            if n = 19 then Some (2 ^ 19) else None
          else None)"

text \<open>
  A bank, chosen by the levels of X1 and X2. Where the jumpers pull low the complement of X2 is not
  masked: on a 64-bit \<open>usize\<close> every bit above bit 1 is set as well (\<open>bank_of_mod\<close> says when the
  chip chosen is the one meant).
\<close>

definition bank_of :: "v1_board \<Rightarrow> usize \<Rightarrow> nat" where
  "bank_of v address =
     (let a = word_of_nat address :: 64 word;
          x1 = drop_bit (vb_bit_x1 v mod 64) a;
          x2 = drop_bit (vb_bit_x2 v mod 64) a
      in unat (if bd_x_jumper_pull (vb_board v) = 1 then (x1 AND 1) OR push_bit 1 (x2 AND 1)
               else (NOT x1 AND 1) OR push_bit 1 (NOT (x2 AND 1))))"

definition bank_address :: "v1_board \<Rightarrow> usize \<Rightarrow> usize" where
  "bank_address v address = unset_bit (vb_bit_x2 v mod 64) (unset_bit (vb_bit_x1 v mod 64) address)"

definition is_pin_active :: "bool \<Rightarrow> bool \<Rightarrow> usize \<Rightarrow> nat \<Rightarrow> bool" where
  "is_pin_active active_high invert_cs1_x address pin \<longleftrightarrow>
     (if \<not> invert_cs1_x then if active_high then pin_high address pin else \<not> pin_high address pin
      else if active_high then \<not> pin_high address pin else pin_high address pin)"

definition cs_bit_for_chip_in_set :: "v1_board \<Rightarrow> chip_type \<Rightarrow> nat \<Rightarrow> nat" where
  "cs_bit_for_chip_in_set v ct index =
     (if index = 0 then vb_bit_cs1 v (ct_name ct) else if index = 1 then vb_bit_x1 v
      else if index = 2 then vb_bit_x2 v else 255)"

text \<open>
  The further lines of a chip. An active-high line that is asserted speaks against the chip, as
  the source has it.
\<close>

definition further_line_ok :: "cs_logic option \<Rightarrow> usize \<Rightarrow> nat \<Rightarrow> bool" where
  "further_line_ok logic address pin \<longleftrightarrow>
     (case logic of
        Some ActiveLow \<Rightarrow> \<not> pin_high address pin
      | Some ActiveHigh \<Rightarrow> \<not> pin_high address pin
      | _ \<Rightarrow> True)"

definition check_chip_cs_requirements :: "chip \<Rightarrow> usize \<Rightarrow> v1_board \<Rightarrow> bool" where
  "check_chip_cs_requirements c address v \<longleftrightarrow>
     (case ch_cs_config c of
        CeOe \<Rightarrow> True
      | CeOeExplicit _ _ \<Rightarrow> True
      | cfg \<Rightarrow>
          further_line_ok (cs2_logic cfg) address (vb_bit_cs2 v (ct_name (ch_type c))) \<and>
          further_line_ok (cs3_logic cfg) address (vb_bit_cs3 v (ct_name (ch_type c))))"

fun multi_get_byte :: "v1_board \<Rightarrow> bool \<Rightarrow> usize \<Rightarrow> nat \<Rightarrow> chip list \<Rightarrow> u8 option" where
  "multi_get_byte v invert_cs1_x address index [] = byte_mangled PAD_NO_CHIP_BYTE v"
| "multi_get_byte v invert_cs1_x address index (c # chips) =
     Option.bind (chip_addr_map v (ch_type c)) (\<lambda>pin_map.
     Option.bind (cs1_logic (ch_cs_config c)) (\<lambda>cs1.
       let active = is_pin_active (cs1 = ActiveHigh) invert_cs1_x address;
           cs_pin = cs_bit_for_chip_in_set v (ch_type c) index;
           active_count = length (filter active [vb_bit_cs1 v (ct_name (ch_type c)), vb_bit_x1 v, vb_bit_x2 v])
       in
         if 15 < cs_pin then None
         else if active cs_pin \<and> active_count = 1 \<and> check_chip_cs_requirements c address v
         then chip_get_byte c pin_map address v
         else multi_get_byte v invert_cs1_x address (index + 1) chips))"

definition mapped_get_byte :: "v1_board \<Rightarrow> chip \<Rightarrow> usize \<Rightarrow> u8 option" where
  "mapped_get_byte v c address =
     Option.bind (chip_addr_map v (ch_type c)) (\<lambda>pin_map.
       if ct_size_bytes (ch_type c) \<le> address_to_logical pin_map address (ct_num_addr_lines (ch_type c)) then
         if is_power_of_two (ct_size_bytes (ch_type c)) then None else byte_mangled PAD_NO_CHIP_BYTE v
       else chip_get_byte c pin_map address v)"

definition set_get_byte :: "chip_set \<Rightarrow> usize \<Rightarrow> v1_board \<Rightarrow> firmware_version \<Rightarrow> bool \<Rightarrow> u8 option" where
  "set_get_byte s address v fw invert_cs1_x =
     (let function = chip_function_of (ch_type (hd (se_chips s))) in
      if \<not> set_has_data s \<and> function = FunRam then byte_mangled PAD_RAM_BYTE v
      else if function = FunPlugin then get_byte_raw (hd (se_chips s)) address
      else Option.bind (image_size s v fw) (\<lambda>size.
        if size \<le> address then None
        else if se_set_type s = Set_Banked then
          if 65536 \<le> address then None
          else mapped_get_byte v (se_chips s ! (bank_of v address mod length (se_chips s))) (bank_address v address)
        else if length (se_chips s) = 1 then mapped_get_byte v (hd (se_chips s)) address
        else if 65536 \<le> address then None
        else multi_get_byte v invert_cs1_x address 0 (se_chips s)))"

section \<open>The polarity of a set\<close>

datatype cs_logic_error = InconsistentCsLogic cs_logic cs_logic

fun line_ignored :: "cs_logic option \<Rightarrow> (cs_logic_error, unit) result" where
  "line_ignored (Some l) = fail_if (l \<noteq> CsIgnore) (InconsistentCsLogic CsIgnore l)"
| "line_ignored None = Inr ()"

fun same_cs1 :: "cs_logic option \<Rightarrow> chip list \<Rightarrow> (cs_logic_error, unit) result option" where
  "same_cs1 first_cs1 [] = Some (Inr ())"
| "same_cs1 first_cs1 (c # chips) =
     (let cs1 = cs1_logic (ch_cs_config c) in
      if cs1 \<noteq> first_cs1 then
        Option.bind first_cs1 (\<lambda>f. map_option (\<lambda>o'. Inl (InconsistentCsLogic f o')) cs1)
      else same_cs1 first_cs1 chips)"

definition further_lines_ignored :: "chip list \<Rightarrow> (cs_logic_error, unit) result" where
  "further_lines_ignored chips =
     each_r (\<lambda>c. if ch_cs_config c = CeOe then Inr ()
       else bind_r (line_ignored (cs2_logic (ch_cs_config c))) (\<lambda>_.
         line_ignored (cs3_logic (ch_cs_config c)))) chips"

definition multi_cs_logic :: "chip_set \<Rightarrow> (cs_logic_error, cs_logic) result option" where
  "multi_cs_logic s =
     (let first_cs1 = cs1_logic (ch_cs_config (hd (se_chips s))) in
      if length (se_chips s) = 1 then Some (Inr CsIgnore)
      else bind_p (same_cs1 first_cs1 (se_chips s)) (\<lambda>_.
        bind_p (Some (if se_set_type s = Set_Multi then further_lines_ignored (se_chips s) else Inr ())) (\<lambda>_.
          map_option Inr first_cs1)))"

section \<open>Addresses and bytes, bit by bit\<close>

lemma bit_power_two_nat: "bit ((2 :: nat) ^ n) i \<longleftrightarrow> i = n"
  by (auto simp: bit_exp_iff)

lemma bit_address_to_logical:
  assumes "n \<le> 64"
  shows "bit (address_to_logical m address n) i \<longleftrightarrow>
    i < n \<and> (\<exists>pin<length m. m ! pin = Some i \<and> pin_high address pin)"
proof -
  let ?f = "\<lambda>(pin, item). case item of
      Some addr_bit \<Rightarrow> if addr_bit < n \<and> pin_high address pin then 2 ^ (addr_bit mod 64) else 0 | None \<Rightarrow> (0 :: nat)"
  have "address_to_logical m address n = fold (\<lambda>x r. r OR ?f x) (enumerated m) 0"
    unfolding address_to_logical_def
    by (intro fold_cong) (auto split: option.splits prod.splits)
  then have "bit (address_to_logical m address n) i \<longleftrightarrow> (\<exists>x \<in> set (enumerated m). bit (?f x) i)"
    by (simp add: bit_fold_or)
  also have "\<dots> \<longleftrightarrow> (\<exists>pin item. (pin, item) \<in> set (enumerated m) \<and> item = Some i \<and> i < n \<and> pin_high address pin)"
    unfolding Bex_def split_paired_Ex
    using assms by (auto simp: bit_power_two_nat split: option.splits if_splits)
  also have "\<dots> \<longleftrightarrow> i < n \<and> (\<exists>pin<length m. m ! pin = Some i \<and> pin_high address pin)"
    by (auto simp: set_enumerated)
  finally show ?thesis .
qed

text \<open>The address the pins show: each line high if a pin mapped to it is.\<close>

definition shown_address :: "nat option list \<Rightarrow> usize \<Rightarrow> nat \<Rightarrow> nat" where
  "shown_address m address n =
     horner_sum of_bool 2 (map (\<lambda>i. \<exists>pin<length m. m ! pin = Some i \<and> pin_high address pin) [0..<n])"

lemma address_to_logical_shown: "n \<le> 64 \<Longrightarrow> address_to_logical m address n = shown_address m address n"
  by (rule bit_eqI) (auto simp: bit_address_to_logical shown_address_def bit_horner_sum_bit_iff)

text \<open>A board whose first eight data pins have places of their own in the byte.\<close>

definition data_pins_ok :: "v1_board \<Rightarrow> bool" where
  "data_pins_ok v \<longleftrightarrow> 8 \<le> length (vb_data_pins v) \<and>
     list_all (\<lambda>pin. data_position pin \<noteq> None) (take 8 (vb_data_pins v)) \<and>
     distinct (map data_position (take 8 (vb_data_pins v)))"

definition data_place :: "v1_board \<Rightarrow> nat \<Rightarrow> nat" where
  "data_place v d = the (data_position (vb_data_pins v ! d))"

lemma data_place_distinct:
  assumes "data_pins_ok v" "j < 8" "k < 8"
  shows "data_position (vb_data_pins v ! k) = Some (data_place v k)" "data_place v k < 8"
    "data_place v j = data_place v k \<longleftrightarrow> j = k"
proof -
  have p: "data_position (vb_data_pins v ! i) = Some (data_place v i)" if "i < 8" for i
    using assms(1) that by (auto simp: data_pins_ok_def data_place_def list_all_length)
  show "data_position (vb_data_pins v ! k) = Some (data_place v k)" by (rule p [OF assms(3)])
  then show "data_place v k < 8" by (auto simp: data_position_def split: if_splits)
  have "map data_position (take 8 (vb_data_pins v)) ! i = Some (data_place v i)" if "i < 8" for i
    using assms(1) p [OF that] that by (simp add: data_pins_ok_def)
  then show "data_place v j = data_place v k \<longleftrightarrow> j = k"
    using assms nth_eq_iff_index_eq [of "map data_position (take 8 (vb_data_pins v))" j k]
    by (auto simp: data_pins_ok_def)
qed

lemma byte_mangled_bits:
  assumes "data_pins_ok v"
  obtains r where "byte_mangled byte v = Some r" "\<forall>d<8. bit r (data_place v d) \<longleftrightarrow> bit byte d"
proof -
  let ?step = "\<lambda>bit_pos (result :: u8 option). Option.bind result (\<lambda>r.
           if \<not> bit byte bit_pos then Some r
           else Option.bind (get (vb_data_pins v) bit_pos) (\<lambda>pin.
             map_option (\<lambda>pos. r OR push_bit pos 1) (data_position pin)))"
  have "\<exists>r. fold ?step [0..<n] (Some 0) = Some r \<and>
      (\<forall>d<8. bit r (data_place v d) \<longleftrightarrow> d < n \<and> bit byte d)" if n: "n \<le> 8" for n
    using n
  proof (induction n)
    case (Suc n)
    from Suc.IH [OF Suc_leD [OF Suc.prems]] obtain r where r: "fold ?step [0..<n] (Some 0) = Some r"
      "\<forall>d<8. bit r (data_place v d) \<longleftrightarrow> d < n \<and> bit byte d" by blast
    have n8: "n < 8" using Suc.prems by simp
    have g: "get (vb_data_pins v) n = Some (vb_data_pins v ! n)"
      using assms n8 by (simp add: get_def data_pins_ok_def)
    note pos = data_place_distinct [OF assms n8 n8]
    let ?r = "if bit byte n then r OR push_bit (data_place v n) 1 else r"
    have "fold ?step [0..<Suc n] (Some 0) = Some ?r"
      using r(1) g pos(1) by simp
    moreover have "bit ?r (data_place v d) \<longleftrightarrow> d < Suc n \<and> bit byte d" if d: "d < 8" for d
    proof -
      have "bit (push_bit (data_place v n) (1 :: u8)) (data_place v d) \<longleftrightarrow> d = n"
        using data_place_distinct(2,3) [OF assms n8 d] pos(2)
        by (auto simp: bit_exp_iff)
      then show ?thesis using r(2) d by (auto simp: bit_or_iff less_Suc_eq)
    qed
    ultimately show ?case by blast
  qed simp
  from this [of 8] obtain r where "byte_mangled byte v = Some r" "\<forall>d<8. bit r (data_place v d) \<longleftrightarrow> bit byte d"
    unfolding byte_mangled_def by auto
  then show thesis by (rule that)
qed

section \<open>What a set serves\<close>

text \<open>
  The bit a chip gives at the levels of an address, on data line \<open>d\<close>: that of its image at the
  address shown, and the padding where the image is shorter.
\<close>

definition v1_chip_bit :: "nat option list \<Rightarrow> chip \<Rightarrow> usize \<Rightarrow> nat \<Rightarrow> bool" where
  "v1_chip_bit m c address d =
     (let shown = shown_address m address (ct_num_addr_lines (ch_type c)) in
      case ch_data c of
        Some data \<Rightarrow> if shown < length data then bit (data ! shown) d else bit PAD_NO_CHIP_BYTE d
      | None \<Rightarrow> False)"

text \<open>
  The chip a set answers with. In a multi set chip \<open>k\<close> answers where, of CS1, X1 and X2, line
  \<open>k\<close> alone is asserted.
\<close>

definition select_asserted :: "v1_board \<Rightarrow> bool \<Rightarrow> chip \<Rightarrow> usize \<Rightarrow> nat \<Rightarrow> bool" where
  "select_asserted v invert_cs1_x c address l =
     is_pin_active (cs1_logic (ch_cs_config c) = Some ActiveHigh) invert_cs1_x address
       (cs_bit_for_chip_in_set v (ch_type c) l)"

text \<open>The bank the levels of X1 and X2 state: a closed jumper counts, whichever way it pulls.\<close>

definition closed_bank :: "v1_board \<Rightarrow> usize \<Rightarrow> nat" where
  "closed_bank v address =
     (let closed = (\<lambda>pin. pin_high address pin \<longleftrightarrow> bd_x_jumper_pull (vb_board v) = 1) in
      of_bool (closed (vb_bit_x1 v)) + 2 * of_bool (closed (vb_bit_x2 v)))"

definition banked_chip :: "v1_board \<Rightarrow> usize \<Rightarrow> nat \<Rightarrow> nat" where
  "banked_chip v address n = (if n \<in> {1..4} then closed_bank v address else bank_of v address) mod n"

lemma word_low_bit: "(x :: 64 word) AND 1 = of_bool (bit x 0)"
  by (simp add: and_one_eq odd_iff_mod_2_eq_one bit_0)

lemma bank_of_levels:
  "bank_of v address =
     (if bd_x_jumper_pull (vb_board v) = 1 then closed_bank v address
      else of_bool (\<not> pin_high address (vb_bit_x1 v)) +
        (if pin_high address (vb_bit_x2 v) then 2 ^ 64 - 4 else 2 ^ 64 - 2))"
proof -
  have max_word: "unat (- 1 :: 64 word) = 2 ^ 64 - 1" by (simp add: unsigned_minus_1_eq_mask mask_eq_exp_minus_1)
  have b: "bit (drop_bit (n mod 64) (word_of_nat address :: 64 word)) 0 \<longleftrightarrow> pin_high address n" for n
    by (simp add: bit_drop_bit_eq bit_of_nat_iff pin_high_def possible_bit_word)
  show ?thesis
    by (cases "pin_high address (vb_bit_x1 v)"; cases "pin_high address (vb_bit_x2 v)")
      (simp_all add: bank_of_def closed_bank_def Let_def word_low_bit b bit_not_iff max_word)
qed

text \<open>Of up to four chips, which a configuration may have, the unmasked bits choose none other.\<close>

lemma bank_of_mod:
  assumes "n \<in> {1..4}"
  shows "bank_of v address mod n = closed_bank v address mod n"
proof -
  consider "n = 1" | "n = 2" | "n = 3" | "n = 4" using assms by force
  then show ?thesis
    by cases (simp_all add: bank_of_levels closed_bank_def Let_def)
qed

lemma banked_chip_eq: "banked_chip v address n = bank_of v address mod n"
  by (simp add: banked_chip_def bank_of_mod)

definition v1_answers :: "chip_set \<Rightarrow> v1_board \<Rightarrow> bool \<Rightarrow> usize \<Rightarrow> nat \<Rightarrow> bool" where
  "v1_answers s v invert_cs1_x address k \<longleftrightarrow> k < length (se_chips s) \<and>
     (case se_set_type s of
        Set_Single \<Rightarrow> True
      | Set_Banked \<Rightarrow> k = banked_chip v address (length (se_chips s))
      | Set_Multi \<Rightarrow> k < 3 \<and> (\<forall>l \<in> {0, 1, 2}. select_asserted v invert_cs1_x (se_chips s ! k) address l \<longleftrightarrow> l = k))"

definition v1_address :: "chip_set \<Rightarrow> v1_board \<Rightarrow> usize \<Rightarrow> usize" where
  "v1_address s v address = (if se_set_type s = Set_Banked then bank_address v address else address)"

text \<open>The data of every chip has its size, and its address lines fit a \<open>usize\<close>.\<close>

definition v1_chips_ok :: "chip_set \<Rightarrow> bool" where
  "v1_chips_ok s \<longleftrightarrow> (\<forall>c \<in> set (se_chips s). ct_num_addr_lines (ch_type c) \<le> 64 \<and>
     (\<forall>data. ch_data c = Some data \<longrightarrow> length data = ct_size_bytes (ch_type c)))"

lemma chip_get_byte_bits:
  assumes "chip_get_byte c m address v = Some b" "data_pins_ok v" "ct_num_addr_lines (ch_type c) \<le> 64" "d < 8"
  shows "bit b (data_place v d) \<longleftrightarrow> v1_chip_bit m c address d"
proof -
  obtain data byte where c: "ch_data c = Some data" "byte_mangled byte v = Some b"
    "get data (address_to_logical m address (ct_num_addr_lines (ch_type c))) = Some byte"
    using assms(1) by (auto simp: chip_get_byte_def bind_eq_Some_conv)
  obtain r where "byte_mangled byte v = Some r" "\<forall>d<8. bit r (data_place v d) \<longleftrightarrow> bit byte d"
    by (rule byte_mangled_bits [OF assms(2)])
  then show ?thesis
    using c assms(3,4) by (auto simp: v1_chip_bit_def Let_def address_to_logical_shown get_def split: if_splits)
qed

lemma pad_bits:
  assumes "byte_mangled byte v = Some b" "data_pins_ok v" "d < 8"
  shows "bit b (data_place v d) \<longleftrightarrow> bit byte d"
  using assms byte_mangled_bits [OF assms(2), of byte] by auto

lemma mapped_get_byte_bits:
  assumes "mapped_get_byte v c address = Some b" "data_pins_ok v" "ct_num_addr_lines (ch_type c) \<le> 64" "d < 8"
    and "ch_data c = Some data" "length data = ct_size_bytes (ch_type c)"
  shows "\<exists>m. chip_addr_map v (ch_type c) = Some m \<and> (bit b (data_place v d) \<longleftrightarrow> v1_chip_bit m c address d)"
proof -
  obtain m where m: "chip_addr_map v (ch_type c) = Some m"
    "(if ct_size_bytes (ch_type c) \<le> address_to_logical m address (ct_num_addr_lines (ch_type c)) then
         if is_power_of_two (ct_size_bytes (ch_type c)) then None else byte_mangled PAD_NO_CHIP_BYTE v
       else chip_get_byte c m address v) = Some b"
    using assms(1) by (auto simp: mapped_get_byte_def bind_eq_Some_conv)
  show ?thesis
  proof (cases "ct_size_bytes (ch_type c) \<le> address_to_logical m address (ct_num_addr_lines (ch_type c))")
    case True
    then have "byte_mangled PAD_NO_CHIP_BYTE v = Some b" using m(2) by (simp split: if_splits)
    then show ?thesis
      using True m(1) assms(3-6) pad_bits [OF _ assms(2,4)]
      by (auto simp: v1_chip_bit_def Let_def address_to_logical_shown)
  next
    case False
    then show ?thesis using m chip_get_byte_bits [OF _ assms(2-4)] by auto
  qed
qed

lemma further_lines_ok:
  assumes "further_lines_ignored chips = Inr ()" "c \<in> set chips"
  shows "check_chip_cs_requirements c address v"
proof -
  have "(if ch_cs_config c = CeOe then Inr ()
       else bind_r (line_ignored (cs2_logic (ch_cs_config c))) (\<lambda>_.
         line_ignored (cs3_logic (ch_cs_config c)))) = Inr ()"
    using assms by (auto simp: further_lines_ignored_def each_r_Inr_iff list_all_iff)
  then show ?thesis
    by (auto simp: check_chip_cs_requirements_def further_line_ok_def bind_r_Inr_iff fail_if_def
        split: cs_config.splits option.splits cs_logic.splits if_splits elim!: line_ignored.elims)
qed

text \<open>The test of the loop over a multi set: one line is asserted, and it is the chip's own.\<close>

abbreviation only_asserted :: "v1_board \<Rightarrow> bool \<Rightarrow> chip \<Rightarrow> usize \<Rightarrow> nat \<Rightarrow> bool" where
  "only_asserted v invert_cs1_x c address k \<equiv>
     \<forall>l \<in> {0, 1, 2}. select_asserted v invert_cs1_x c address l \<longleftrightarrow> l = k"

lemma one_of_three:
  fixes k :: nat
  assumes "k < 3"
  shows "(\<forall>l \<in> {0, 1, 2}. P l \<longleftrightarrow> l = k) \<longleftrightarrow> P k \<and> length (filter P [0, 1, 2]) = 1"
proof -
  consider "k = 0" | "k = 1" | "k = 2" using assms by linarith
  then show ?thesis by cases auto
qed

lemma only_asserted_iff:
  fixes address :: usize and invert_cs1_x :: bool
  assumes "cs1_logic (ch_cs_config c) = Some cs1" "k < 3"
  defines "active \<equiv> is_pin_active (cs1 = ActiveHigh) invert_cs1_x address"
  shows "only_asserted v invert_cs1_x c address k \<longleftrightarrow>
    active (cs_bit_for_chip_in_set v (ch_type c) k) \<and>
    length (filter active [vb_bit_cs1 v (ct_name (ch_type c)), vb_bit_x1 v, vb_bit_x2 v]) = 1"
proof -
  let ?line = "cs_bit_for_chip_in_set v (ch_type c)"
  have "[vb_bit_cs1 v (ct_name (ch_type c)), vb_bit_x1 v, vb_bit_x2 v] = map ?line [0, 1, 2]"
    by (simp add: cs_bit_for_chip_in_set_def)
  then have "length (filter active [vb_bit_cs1 v (ct_name (ch_type c)), vb_bit_x1 v, vb_bit_x2 v]) =
      length (filter (active \<circ> ?line) [0, 1, 2])"
    by (simp only: filter_map length_map)
  moreover have "select_asserted v invert_cs1_x c address l = (active \<circ> ?line) l" for l
    by (simp add: select_asserted_def active_def assms(1))
  ultimately show ?thesis using one_of_three [OF assms(2), of "active \<circ> ?line"] by (simp only: comp_apply)
qed

lemma multi_get_byte_answer:
  assumes "multi_get_byte v invert_cs1_x address i chips = Some b" "further_lines_ignored chips = Inr ()"
  shows "(\<exists>k<length chips. i + k < 3 \<and> only_asserted v invert_cs1_x (chips ! k) address (i + k) \<and>
      (\<exists>m. chip_addr_map v (ch_type (chips ! k)) = Some m \<and> chip_get_byte (chips ! k) m address v = Some b)) \<or>
    (\<forall>k<length chips. \<not> only_asserted v invert_cs1_x (chips ! k) address (i + k)) \<and>
      byte_mangled PAD_NO_CHIP_BYTE v = Some b"
  using assms
proof (induction chips arbitrary: i)
  case (Cons c chips)
  from Cons.prems(1) obtain m cs1 where m: "chip_addr_map v (ch_type c) = Some m"
    "cs1_logic (ch_cs_config c) = Some cs1"
    by (auto simp: bind_eq_Some_conv)
  have ok: "check_chip_cs_requirements c address v" using further_lines_ok [OF Cons.prems(2)] by simp
  have low: "cs_bit_for_chip_in_set v (ch_type c) i \<le> 15"
    using Cons.prems(1) m by (auto simp: Let_def split: if_splits)
  then have i: "i < 3" by (auto simp: cs_bit_for_chip_in_set_def split: if_splits)
  note only = only_asserted_iff [OF m(2) i, of v invert_cs1_x address]
  have ignored: "further_lines_ignored chips = Inr ()"
    using Cons.prems(2) by (simp add: further_lines_ignored_def bind_r_Inr_iff)
  show ?case
  proof (cases "only_asserted v invert_cs1_x c address i")
    case True
    then have "chip_get_byte c m address v = Some b"
      using Cons.prems(1) m ok low unfolding only by (simp add: Let_def)
    then show ?thesis using True m(1) i by (intro disjI1 exI [of _ 0]) simp
  next
    case False
    then have "multi_get_byte v invert_cs1_x address (i + 1) chips = Some b"
      using Cons.prems(1) m low unfolding only by (auto simp: Let_def)
    from Cons.IH [OF this ignored] show ?thesis
    proof (elim disjE exE conjE)
      fix k m' assume "k < length chips" "i + 1 + k < 3" "only_asserted v invert_cs1_x (chips ! k) address (i + 1 + k)"
        "chip_addr_map v (ch_type (chips ! k)) = Some m'" "chip_get_byte (chips ! k) m' address v = Some b"
      then show ?thesis by (intro disjI1 exI [of _ "Suc k"]) simp
    next
      assume "\<forall>k<length chips. \<not> only_asserted v invert_cs1_x (chips ! k) address (i + 1 + k)"
        "byte_mangled PAD_NO_CHIP_BYTE v = Some b"
      then show ?thesis using False by (intro disjI2) (auto simp: nth_Cons split: nat.splits)
    qed
  qed
qed simp

lemma only_asserted_unique:
  assumes "only_asserted v invert_cs1_x c address j" "only_asserted v invert_cs1_x c' address k" "j < 3" "k < 3"
    and "cs1_logic (ch_cs_config c) = cs1_logic (ch_cs_config c')"
  shows "j = k"
proof (rule ccontr)
  assume jk: "j \<noteq> k"
  have x: "select_asserted v invert_cs1_x c address l = select_asserted v invert_cs1_x c' address l" if "l \<in> {1, 2}" for l
    using that assms(5) by (auto simp: select_asserted_def cs_bit_for_chip_in_set_def)
  from jk assms(3,4) have "j \<in> {1, 2} \<or> k \<in> {1, 2}" by auto
  then show False
  proof
    assume "j \<in> {1, 2}"
    then show False using x [of j] assms(1,2) jk by auto
  next
    assume "k \<in> {1, 2}"
    then show False using x [of k] assms(1,2) jk by auto
  qed
qed

lemma same_cs1_Inr: "same_cs1 l chips = Some (Inr ()) \<Longrightarrow> c \<in> set chips \<Longrightarrow> cs1_logic (ch_cs_config c) = l"
  by (induction chips) (auto simp: Let_def bind_eq_Some_conv split: if_splits)

lemma multi_cs_logic_Inr:
  assumes "multi_cs_logic s = Some (Inr l)" "length (se_chips s) \<noteq> 1"
  shows "c \<in> set (se_chips s) \<Longrightarrow> cs1_logic (ch_cs_config c) = Some l"
    "se_set_type s = Set_Multi \<Longrightarrow> further_lines_ignored (se_chips s) = Inr ()"
  using assms by (auto simp: multi_cs_logic_def Let_def bind_p_Inr_iff dest: same_cs1_Inr)

text \<open>
  Whatever address the pins form, a set with data answers with the chip selected: on each data
  pin the byte at that address has the bit of that chip's image, at the address shown on the
  chip's own address lines. Where no chip of a multi set is selected it has the padding.
\<close>

lemma set_byte_answer:
  assumes "set_get_byte s address v fw invert_cs1_x = Some b" "set_has_data s"
    and "\<not> ct_is_plugin (ch_type (hd (se_chips s)))" "se_chips s \<noteq> []"
    and "se_set_type s = Set_Single \<longleftrightarrow> length (se_chips s) = 1"
    and "multi_cs_logic s = Some (Inr l)" "data_pins_ok v" "v1_chips_ok s" "d < 8"
    and "\<forall>c \<in> set (se_chips s). ch_data c \<noteq> None"
  shows "(\<forall>k. v1_answers s v invert_cs1_x address k \<longrightarrow>
      (\<exists>m. chip_addr_map v (ch_type (se_chips s ! k)) = Some m \<and>
        (bit b (data_place v d) \<longleftrightarrow> v1_chip_bit m (se_chips s ! k) (v1_address s v address) d))) \<and>
    ((\<nexists>k. v1_answers s v invert_cs1_x address k) \<longrightarrow> (bit b (data_place v d) \<longleftrightarrow> bit PAD_NO_CHIP_BYTE d))"
proof -
  let ?chips = "se_chips s"
  have chip: "ct_num_addr_lines (ch_type (?chips ! k)) \<le> 64"
    "\<exists>data. ch_data (?chips ! k) = Some data \<and> length data = ct_size_bytes (ch_type (?chips ! k))"
    if "k < length ?chips" for k
    using assms(8,10) nth_mem [OF that] unfolding v1_chips_ok_def by blast+
  have mapped: "\<exists>m. chip_addr_map v (ch_type (?chips ! k)) = Some m \<and>
      (bit b (data_place v d) \<longleftrightarrow> v1_chip_bit m (?chips ! k) a d)"
    if "mapped_get_byte v (?chips ! k) a = Some b" "k < length ?chips" for k a
    using mapped_get_byte_bits [OF that(1) assms(7) chip(1) [OF that(2)] assms(9)] chip(2) [OF that(2)] by blast
  have body: "(if se_set_type s = Set_Banked then
          if 65536 \<le> address then None
          else mapped_get_byte v (?chips ! (bank_of v address mod length ?chips)) (bank_address v address)
        else if length ?chips = 1 then mapped_get_byte v (hd ?chips) address
        else if 65536 \<le> address then None
        else multi_get_byte v invert_cs1_x address 0 ?chips) = Some b"
    using assms(1-3) by (auto simp: set_get_byte_def Let_def chip_function_of_def bind_eq_Some_conv split: if_splits)
  show ?thesis
  proof (cases "se_set_type s")
    case Set_Single
    then have one: "length ?chips = 1" using assms(5) by simp
    then have "mapped_get_byte v (?chips ! 0) address = Some b"
      using body Set_Single assms(4) by (simp add: hd_conv_nth)
    from mapped [OF this] show ?thesis using one Set_Single by (auto simp: v1_answers_def v1_address_def)
  next
    case Set_Banked
    then have "mapped_get_byte v (?chips ! (bank_of v address mod length ?chips)) (bank_address v address) = Some b"
      using body by (simp split: if_splits)
    from mapped [OF this] show ?thesis using Set_Banked assms(4) by (auto simp: v1_answers_def v1_address_def banked_chip_eq)
  next
    case Set_Multi
    then have len: "length ?chips \<noteq> 1" using assms(5) by auto
    note logic = multi_cs_logic_Inr [OF assms(6) len]
    have multi: "multi_get_byte v invert_cs1_x address 0 ?chips = Some b"
      using body Set_Multi len by (simp split: if_splits)
    have answers: "v1_answers s v invert_cs1_x address k \<longleftrightarrow>
        k < length ?chips \<and> k < 3 \<and> only_asserted v invert_cs1_x (?chips ! k) address k" for k
      by (simp add: v1_answers_def Set_Multi)
    from multi_get_byte_answer [OF multi logic(2) [OF Set_Multi]] show ?thesis
    proof (elim disjE exE conjE)
      fix k m assume k: "k < length ?chips" "only_asserted v invert_cs1_x (?chips ! k) address (0 + k)"
        and low: "0 + k < 3" and m: "chip_addr_map v (ch_type (?chips ! k)) = Some m" "chip_get_byte (?chips ! k) m address v = Some b"
      have bits: "bit b (data_place v d) \<longleftrightarrow> v1_chip_bit m (?chips ! k) address d"
        by (rule chip_get_byte_bits [OF m(2) assms(7) chip(1) [OF k(1)] assms(9)])
      have unique: "j = k" if j: "v1_answers s v invert_cs1_x address j" for j
      proof (rule only_asserted_unique)
        have j': "j < length ?chips" using j answers by simp
        show "only_asserted v invert_cs1_x (?chips ! j) address j" "j < 3" using j answers by simp_all
        show "only_asserted v invert_cs1_x (?chips ! k) address k" "k < 3" using k(2) low by simp_all
        show "cs1_logic (ch_cs_config (?chips ! j)) = cs1_logic (ch_cs_config (?chips ! k))"
          using logic(1) nth_mem [OF j'] nth_mem [OF k(1)] by simp
      qed
      have "v1_answers s v invert_cs1_x address k" using answers k low by simp
      moreover have "v1_address s v address = address" by (simp add: v1_address_def Set_Multi)
      ultimately show ?thesis using unique m(1) bits by metis
    next
      assume "\<forall>k<length ?chips. \<not> only_asserted v invert_cs1_x (?chips ! k) address (0 + k)"
        "byte_mangled PAD_NO_CHIP_BYTE v = Some b"
      then show ?thesis using pad_bits [OF _ assms(7,9)] answers by auto
    qed
  qed
qed

end
