(* ===== verification/Meta_V1.thy ===== *)
theory Meta_V1
  imports Image_V1 Build_V2
begin

text \<open>
  The metadata of the legacy build: the writer of \<open>rust/gen/src/meta/metav1.rs\<close> and the metadata
  part of \<open>ChipSet\<close> in \<open>rust/gen/src/image.rs\<close>. A writer takes the buffer from where it writes on
  and gives the number of bytes written, the buffer after, and what it found out on the way.
  Pointers are \<open>u32\<close> sums, cut to 32 bits where they are stored. \<open>None\<close> is a panic.
\<close>

section \<open>Bytes\<close>

definition char_utf8 :: "nat \<Rightarrow> u8 list" where
  "char_utf8 c =
     (if c < 0x80 then [of_nat c]
      else if c < 0x800 then [of_nat (0xC0 + c div 64), of_nat (0x80 + c mod 64)]
      else if c < 0x10000 then
        [of_nat (0xE0 + c div 4096), of_nat (0x80 + c div 64 mod 64), of_nat (0x80 + c mod 64)]
      else [of_nat (0xF0 + c div 262144), of_nat (0x80 + c div 4096 mod 64), of_nat (0x80 + c div 64 mod 64),
        of_nat (0x80 + c mod 64)])"

definition str_bytes :: "ustr \<Rightarrow> u8 list" where
  "str_bytes s = concat (map char_utf8 s)"

definition le32 :: "nat \<Rightarrow> u8 list" where
  "le32 n = map (\<lambda>k. of_nat (n div 256 ^ k)) [0..<4]"

text \<open>Chunks written one behind the other.\<close>

fun put_all :: "nat \<Rightarrow> u8 list list \<Rightarrow> u8 list \<Rightarrow> (nat \<times> u8 list) option" where
  "put_all offset [] buf = Some (offset, buf)"
| "put_all offset (x # xs) buf = Option.bind (write_slice offset x buf) (put_all (offset + length x) xs)"

section \<open>Writers\<close>

datatype v1_error =
    MetaTooSmall string nat nat
  | MissingPointer nat
  | CsLogicErr cs_logic_error
  | UnsupportedBoardChipType chip_type
  | CpuServeNot24
  | CpuServeNot28C16
  | SetsErr gen_error

type_synonym 'x writer = "u8 list \<Rightarrow> (v1_error, nat \<times> u8 list \<times> 'x) result option"

definition written :: "(nat \<times> u8 list) option \<Rightarrow> (v1_error, nat \<times> u8 list \<times> unit) result option" where
  "written r = map_option (\<lambda>(n, buf). Inr (n, buf, ())) r"

text \<open>\<open>writer(&mut buf[offset..])\<close>, and the offset behind what it wrote.\<close>

definition at_tail :: "nat \<Rightarrow> 'x writer \<Rightarrow> 'x writer" where
  "at_tail offset w buf =
     (if length buf < offset then None
      else bind_p (w (drop offset buf)) (\<lambda>(n, tail, x). Some (Inr (offset + n, take offset buf @ tail, x))))"

section \<open>Chips and sets\<close>

definition v1_type_codes :: "(string \<times> nat) list" where
  "v1_type_codes =
     [(''2316'', 0), (''2332'', 1), (''2364'', 2), (''23128'', 3), (''23256'', 4), (''23512'', 5), (''2704'', 6),
      (''2708'', 7), (''2716'', 8), (''2732'', 9), (''2764'', 10), (''27128'', 11), (''27256'', 12), (''27512'', 13),
      (''231024'', 14), (''23C1010'', 15), (''27C010'', 15), (''27C020'', 16), (''27C040'', 17), (''27C080'', 18),
      (''27C400'', 19), (''6116'', 20), (''27C301'', 21), (''SystemPlugin'', 22), (''UserPlugin'', 23),
      (''PioPlugin'', 24), (''SST39SF040'', 25), (''28C16'', 26), (''28C64'', 27), (''28C256'', 28), (''28C512'', 29),
      (''23QL512'', 30), (''23QL384'', 31), (''23C1001'', 32), (''27C200'', 33)]"

definition chip_type_c_enum_val :: "chip_type \<Rightarrow> u8 option" where
  "chip_type_c_enum_val ct = map_option of_nat (map_of v1_type_codes (ct_name ct))"

fun cs_enum_val :: "cs_logic \<Rightarrow> u8" where
  "cs_enum_val ActiveLow = 0"
| "cs_enum_val ActiveHigh = 1"
| "cs_enum_val CsIgnore = 2"

definition CHIP_METADATA_LEN_NO_FILENAME :: nat where "CHIP_METADATA_LEN_NO_FILENAME = 4"
definition CHIP_METADATA_LEN_WITH_FILENAME :: nat where "CHIP_METADATA_LEN_WITH_FILENAME = 8"

definition chips_metadata_len :: "chip_set \<Rightarrow> bool \<Rightarrow> nat" where
  "chips_metadata_len s include_filenames =
     (if include_filenames then CHIP_METADATA_LEN_WITH_FILENAME else CHIP_METADATA_LEN_NO_FILENAME) *
       length (se_chips s)"

text \<open>The four bytes of a chip: its type and the states of CS1 to CS3.\<close>

definition chip_codes :: "chip \<Rightarrow> u8 list option" where
  "chip_codes c =
     Option.bind (chip_type_c_enum_val (ch_type c)) (\<lambda>code.
       if ct_is_plugin (ch_type c) then Some [code, cs_enum_val CsIgnore, cs_enum_val CsIgnore, cs_enum_val CsIgnore]
       else Option.bind (cs1_logic (ch_cs_config c)) (\<lambda>cs1.
         Some [code, cs_enum_val cs1,
           (case cs2_logic (ch_cs_config c) of None \<Rightarrow> 2 | Some l \<Rightarrow> cs_enum_val l),
           (case cs3_logic (ch_cs_config c) of None \<Rightarrow> 2 | Some l \<Rightarrow> cs_enum_val l)]))"

fun chip_metadata_loop :: "nat list \<Rightarrow> bool \<Rightarrow> nat \<Rightarrow> chip list \<Rightarrow> nat list writer" where
  "chip_metadata_loop filename_ptrs include_filenames offset [] buf = Some (Inr (offset, buf, []))"
| "chip_metadata_loop filename_ptrs include_filenames offset (c # chips) buf =
     Option.bind (chip_codes c) (\<lambda>codes.
     Option.bind (write_slice offset codes buf) (\<lambda>buf.
     bind_p (if \<not> include_filenames then Some (Inr (offset + 4, buf))
       else case get filename_ptrs (ch_index c) of
         None \<Rightarrow> Some (Inl (MissingPointer (ch_index c)))
       | Some ptr \<Rightarrow> map_option (\<lambda>buf. Inr (offset + 8, buf)) (write_slice (offset + 4) (le32 ptr) buf)) (\<lambda>(next_offset, buf).
     bind_p (chip_metadata_loop filename_ptrs include_filenames next_offset chips buf) (\<lambda>(n, buf, ptrs).
       Some (Inr (n, buf, offset # ptrs))))))"

text \<open>The array of pointers the caller passes has one place for each chip.\<close>

definition write_chip_metadata :: "chip_set \<Rightarrow> nat list \<Rightarrow> bool \<Rightarrow> nat list writer" where
  "write_chip_metadata s filename_ptrs include_filenames buf =
     (if length buf < chips_metadata_len s include_filenames
      then Some (Inl (MetaTooSmall ''write_chip_metadata1'' (chips_metadata_len s include_filenames) (length buf)))
      else chip_metadata_loop filename_ptrs include_filenames 0 (se_chips s) buf)"

definition write_chip_pointer_array :: "chip_set \<Rightarrow> nat list \<Rightarrow> unit writer" where
  "write_chip_pointer_array s chip_metadata_ptrs buf =
     (if length buf < 4 * length (se_chips s)
      then Some (Inl (MetaTooSmall ''write_chip_pointer_array'' (4 * length (se_chips s)) (length buf)))
      else if length chip_metadata_ptrs < length (se_chips s)
      then Some (Inl (MissingPointer (length chip_metadata_ptrs)))
      else written (put_all 0 (map le32 chip_metadata_ptrs) buf))"

definition CHIP_SET_METADATA_LEN :: nat where "CHIP_SET_METADATA_LEN = 16"
definition CHIP_SET_METADATA_LEN_EXTRA_INFO :: nat where "CHIP_SET_METADATA_LEN_EXTRA_INFO = 64"
definition CHIP_SET_SERVE_CONFIG_METADATA_LEN :: nat where "CHIP_SET_SERVE_CONFIG_METADATA_LEN = 64"

definition chip_set_metadata_len :: "firmware_version \<Rightarrow> nat" where
  "chip_set_metadata_len fw =
     (if MIN_FIRMWARE_OVERRIDES_VERSION \<le> fw then CHIP_SET_METADATA_LEN_EXTRA_INFO else CHIP_SET_METADATA_LEN)"

definition ptr_or_none :: "nat option \<Rightarrow> nat" where
  "ptr_or_none p = or_default p 0xFFFFFFFF"

definition write_set_metadata ::
  "chip_set \<Rightarrow> nat \<Rightarrow> nat \<Rightarrow> v1_board \<Rightarrow> firmware_version \<Rightarrow> nat option \<Rightarrow> nat option \<Rightarrow> unit writer" where
  "write_set_metadata s data_ptr chip_array_ptr v fw serve_config_ptr firmware_overrides_ptr buf =
     (if length buf < chip_set_metadata_len fw
      then Some (Inl (MetaTooSmall ''write_set_metadata'' (chip_set_metadata_len fw) (length buf)))
      else Option.bind (image_size s v fw) (\<lambda>data_size.
        bind_p (map_err_p CsLogicErr (multi_cs_logic s)) (\<lambda>cs.
          let extra = MIN_FIRMWARE_OVERRIDES_VERSION \<le> fw in
          written (put_all 0
            ([le32 data_ptr, le32 data_size, le32 chip_array_ptr, [of_nat (length (se_chips s))],
              [c_enum_value (se_serve_alg s)], [cs_enum_val cs], [if extra then 1 else PAD_METADATA_BYTE]] @
             (if extra then [le32 (ptr_or_none serve_config_ptr), le32 (ptr_or_none firmware_overrides_ptr),
                replicate 40 0] else [])) buf))))"

section \<open>The whole of the metadata\<close>

definition METADATA_VERSION :: nat where "METADATA_VERSION = 1"
definition FIRMWARE_SIZE :: nat where "FIRMWARE_SIZE = 0xC000"
definition METADATA_START :: nat where "METADATA_START = FIRMWARE_SIZE"
definition ROM_IMAGE_DATA_START :: nat where "ROM_IMAGE_DATA_START = 65536"
definition MAX_METADATA_LEN :: nat where "MAX_METADATA_LEN = 16384"
definition METADATA_HEADER_LEN :: nat where "METADATA_HEADER_LEN = 256"
definition METADATA_CHIP_SET_OFFSET :: nat where "METADATA_CHIP_SET_OFFSET = 24"

definition HEADER_MAGIC :: "u8 list" where
  "HEADER_MAGIC = map of_char ''ONEROM_METADATA'' @ [0]"

record metadata =
  me_board :: v1_board
  me_sets :: "chip_set list"
  me_filenames :: bool
  me_pio :: bool
  me_version :: firmware_version

definition abs_metadata_start :: "metadata \<Rightarrow> nat" where
  "abs_metadata_start m = get_flash_base (bd_mcu_family (vb_board (me_board m))) + METADATA_START"

definition abs_chip_image_start :: "metadata \<Rightarrow> nat" where
  "abs_chip_image_start m = get_flash_base (bd_mcu_family (vb_board (me_board m))) + ROM_IMAGE_DATA_START"

definition meta_chips :: "metadata \<Rightarrow> chip list" where
  "meta_chips m = concat (map se_chips (me_sets m))"

definition round_up_4 :: "nat \<Rightarrow> nat" where
  "round_up_4 len = (if len mod 4 \<noteq> 0 then len + (4 - len mod 4) else len)"

definition filenames_metadata_len :: "metadata \<Rightarrow> nat" where
  "filenames_metadata_len m =
     round_up_4 (if \<not> me_filenames m then 0
       else sum_list (map (\<lambda>c. str_len (chip_filename c) + 1) (meta_chips m)))"

definition sets_len :: "metadata \<Rightarrow> nat" where
  "sets_len m =
     sum_list (map (\<lambda>s. chips_metadata_len s (me_filenames m) + length (se_chips s) * 4) (me_sets m)) +
     length (me_sets m) * chip_set_metadata_len (me_version m)"

definition firmware_overrides_len :: "metadata \<Rightarrow> nat" where
  "firmware_overrides_len m =
     (if me_version m < MIN_FIRMWARE_OVERRIDES_VERSION then 0
      else sum_list (map (\<lambda>s. case se_overrides s of
          None \<Rightarrow> 0
        | Some o' \<Rightarrow> CHIP_SET_FIRMWARE_OVERRIDES_METADATA_LEN +
            (if fw_serve_alg_params o' \<noteq> None then CHIP_SET_FIRMWARE_OVERRIDES_METADATA_LEN else 0))
        (me_sets m)))"

text \<open>Too much metadata is a panic.\<close>

definition metadata_len :: "metadata \<Rightarrow> nat option" where
  "metadata_len m =
     (let len = METADATA_HEADER_LEN + filenames_metadata_len m + firmware_overrides_len m + sets_len m in
      if MAX_METADATA_LEN < len then None else Some len)"

definition write_header :: "metadata \<Rightarrow> unit writer" where
  "write_header m buf =
     (if length buf < METADATA_HEADER_LEN
      then Some (Inl (MetaTooSmall ''write_header'' METADATA_HEADER_LEN (length buf)))
      else written (put_all 0
        [HEADER_MAGIC, le32 METADATA_VERSION, [of_nat (length (me_sets m))], replicate 3 0, le32 0xFFFFFFFF,
         replicate 228 0xFF] buf))"

text \<open>The pointers it gives are offsets from where the names begin.\<close>

fun filenames_loop :: "nat \<Rightarrow> nat \<Rightarrow> chip list \<Rightarrow> u8 list \<Rightarrow> (nat \<times> u8 list \<times> nat list) option" where
  "filenames_loop offset ii [] buf = Some (offset, buf, [])"
| "filenames_loop offset ii (c # chips) buf =
     (if ii \<noteq> ch_index c then None
      else Option.bind (put_all offset [str_bytes (chip_filename c), [0]] buf) (\<lambda>(next_offset, buf).
        map_option (\<lambda>(n, buf, ptrs). (n, buf, offset # ptrs)) (filenames_loop next_offset (ii + 1) chips buf)))"

definition write_filenames :: "metadata \<Rightarrow> nat list writer" where
  "write_filenames m buf =
     (if length buf < filenames_metadata_len m
      then Some (Inl (MetaTooSmall ''write_filenames1'' (filenames_metadata_len m) (length buf)))
      else map_option Inr (filenames_loop 0 0 (meta_chips m) buf))"

text \<open>The names with absolute pointers, padded to a multiple of four.\<close>

definition padding_4 :: "nat \<Rightarrow> nat" where
  "padding_4 len = (if len mod 4 \<noteq> 0 then 4 - len mod 4 else 0)"

definition write_names :: "metadata \<Rightarrow> nat \<Rightarrow> nat list writer" where
  "write_names m offset buf =
     (if \<not> me_filenames m then Some (Inr (offset, buf, replicate (length (meta_chips m)) 0xFF))
      else bind_p (at_tail offset (write_filenames m) buf) (\<lambda>(next_offset, buf, ptrs).
        let ptrs = map (\<lambda>p. p + (offset + abs_metadata_start m)) ptrs;
            padding = padding_4 (next_offset - offset)
        in Option.bind (put_all next_offset (replicate padding [PAD_METADATA_BYTE]) buf) (\<lambda>(next_offset, buf).
             if next_offset mod 4 \<noteq> 0 then None else Some (Inr (next_offset, buf, ptrs)))))"

definition write_overrides :: "firmware_config \<Rightarrow> unit writer" where
  "write_overrides o' buf =
     (case serialize_firmware_overrides o' buf of
        Inl n \<Rightarrow> Some (Inl (MetaTooSmall ''serialize_firmware_overrides'' CHIP_SET_FIRMWARE_OVERRIDES_METADATA_LEN n))
      | Inr buf \<Rightarrow> Some (Inr (CHIP_SET_FIRMWARE_OVERRIDES_METADATA_LEN, buf, ())))"

definition serialize_serve_config :: "u8 list \<Rightarrow> unit writer" where
  "serialize_serve_config params buf =
     (if length buf < CHIP_SET_SERVE_CONFIG_METADATA_LEN
      then Some (Inl (MetaTooSmall ''serialize_serve_config'' CHIP_SET_SERVE_CONFIG_METADATA_LEN (length buf)))
      else
        let len = min (length params) CHIP_SET_SERVE_CONFIG_METADATA_LEN in
          Some (Inr (CHIP_SET_SERVE_CONFIG_METADATA_LEN,
            take len params @ replicate (CHIP_SET_SERVE_CONFIG_METADATA_LEN - len) PAD_METADATA_BYTE @
            drop CHIP_SET_SERVE_CONFIG_METADATA_LEN buf, ())))"

text \<open>The override blocks: for each set the pointers to its block and to its serve parameters.\<close>

fun overrides_loop :: "nat \<Rightarrow> nat \<Rightarrow> chip_set list \<Rightarrow> (nat option \<times> nat option) list writer" where
  "overrides_loop base offset [] buf = Some (Inr (offset, buf, []))"
| "overrides_loop base offset (s # sets) buf =
     bind_p (case se_overrides s of
         None \<Rightarrow> Some (Inr (offset, buf, (None, None)))
       | Some o' \<Rightarrow>
           bind_p (at_tail offset (write_overrides o') buf) (\<lambda>(params_offset, buf, _).
             case fw_serve_alg_params o' of
               None \<Rightarrow> Some (Inr (params_offset, buf, (Some (offset + base), None)))
             | Some params \<Rightarrow>
                 bind_p (at_tail params_offset (serialize_serve_config params) buf) (\<lambda>(next_offset, buf, _).
                   Some (Inr (next_offset, buf, (Some (offset + base), Some (params_offset + base))))))) (\<lambda>(next_offset, buf, ptrs).
     bind_p (overrides_loop base next_offset sets buf) (\<lambda>(n, buf, rest).
       Some (Inr (n, buf, ptrs # rest))))"

definition write_override_blocks :: "metadata \<Rightarrow> nat \<Rightarrow> (nat option \<times> nat option) list writer" where
  "write_override_blocks m offset buf =
     (if MIN_FIRMWARE_OVERRIDES_VERSION \<le> me_version m then overrides_loop (abs_metadata_start m) offset (me_sets m) buf
      else Some (Inr (offset, buf, replicate (length (me_sets m)) (None, None))))"

text \<open>A set of RAM without an image has no data.\<close>

definition no_image_set :: "chip_set \<Rightarrow> bool" where
  "no_image_set s \<longleftrightarrow> \<not> set_has_data s \<and> chip_function_of (ch_type (hd (se_chips s))) = FunRam"

fun data_ptrs :: "v1_board \<Rightarrow> firmware_version \<Rightarrow> nat \<Rightarrow> chip_set list \<Rightarrow> nat list option" where
  "data_ptrs v fw next_ptr [] = Some []"
| "data_ptrs v fw next_ptr (s # sets) =
     (if no_image_set s then map_option (Cons 0xFFFFFFFF) (data_ptrs v fw next_ptr sets)
      else Option.bind (image_size s v fw) (\<lambda>size.
        map_option (Cons next_ptr) (data_ptrs v fw (next_ptr + size) sets)))"

fun chips_loop :: "nat list \<Rightarrow> bool \<Rightarrow> nat \<Rightarrow> nat \<Rightarrow> chip_set list \<Rightarrow> nat list list writer" where
  "chips_loop filename_ptrs include_filenames base offset [] buf = Some (Inr (offset, buf, []))"
| "chips_loop filename_ptrs include_filenames base offset (s # sets) buf =
     bind_p (at_tail offset (write_chip_metadata s filename_ptrs include_filenames) buf) (\<lambda>(next_offset, buf, ptrs).
     bind_p (chips_loop filename_ptrs include_filenames base next_offset sets buf) (\<lambda>(n, buf, rest).
       Some (Inr (n, buf, (map (\<lambda>p. p + (offset + base)) ptrs) # rest))))"

fun arrays_loop :: "nat \<Rightarrow> nat \<Rightarrow> (chip_set \<times> nat list) list \<Rightarrow> nat list writer" where
  "arrays_loop base offset [] buf = Some (Inr (offset, buf, []))"
| "arrays_loop base offset ((s, ptrs) # sets) buf =
     bind_p (at_tail offset (write_chip_pointer_array s ptrs) buf) (\<lambda>(next_offset, buf, _).
     bind_p (arrays_loop base next_offset sets buf) (\<lambda>(n, buf, rest).
       Some (Inr (n, buf, (offset + base) # rest))))"

fun sets_loop ::
  "v1_board \<Rightarrow> firmware_version \<Rightarrow> nat \<Rightarrow> (chip_set \<times> nat \<times> nat \<times> nat option \<times> nat option) list \<Rightarrow> unit writer" where
  "sets_loop v fw offset [] buf = Some (Inr (offset, buf, ()))"
| "sets_loop v fw offset ((s, data_ptr, array_ptr, overrides_ptr, serve_ptr) # sets) buf =
     bind_p (at_tail offset (write_set_metadata s data_ptr array_ptr v fw serve_ptr overrides_ptr) buf) (\<lambda>(next_offset, buf, _).
       sets_loop v fw next_offset sets buf)"

definition update_chip_set_ptr :: "u8 list \<Rightarrow> nat \<Rightarrow> (v1_error, u8 list) result option" where
  "update_chip_set_ptr buf ptr =
     (if length buf < METADATA_CHIP_SET_OFFSET + 4
      then Some (Inl (MetaTooSmall ''update_chip_set_ptr'' (METADATA_CHIP_SET_OFFSET + 4) (length buf)))
      else map_option Inr (write_slice METADATA_CHIP_SET_OFFSET (le32 ptr) buf))"

text \<open>
  All of it, and the pointers to the images of the sets: the parts one behind the other, then the
  pointer to the sets in the header.
\<close>

definition write_parts :: "metadata \<Rightarrow> (nat \<times> nat list) writer" where
  "write_parts m buf =
     (let base = abs_metadata_start m; v = me_board m; fw = me_version m; sets = me_sets m in
      bind_p (at_tail 0 (write_header m) buf) (\<lambda>(offset, buf, _).
      bind_p (write_names m offset buf) (\<lambda>(offset, buf, filename_ptrs).
      bind_p (write_override_blocks m offset buf) (\<lambda>(offset, buf, override_ptrs).
      Option.bind (data_ptrs v fw (abs_chip_image_start m) sets) (\<lambda>rom_data_ptrs.
      bind_p (chips_loop filename_ptrs (me_filenames m) base offset sets buf) (\<lambda>(offset, buf, chip_ptrs).
      bind_p (arrays_loop base offset (zip sets chip_ptrs) buf) (\<lambda>(offset, buf, array_ptrs).
      bind_p (sets_loop v fw offset (zip sets (zip rom_data_ptrs (zip array_ptrs override_ptrs))) buf) (\<lambda>(n, buf, _).
        Some (Inr (n, buf, (offset + base, rom_data_ptrs)))))))))))"

definition write_all_meta :: "metadata \<Rightarrow> nat list writer" where
  "write_all_meta m buf =
     Option.bind (metadata_len m) (\<lambda>len.
       if length buf < len then Some (Inl (MetaTooSmall ''write_all'' len (length buf)))
       else
         bind_p (write_parts m buf) (\<lambda>(offset, buf, (first_chip_set_ptr, rom_data_ptrs)).
         bind_p (update_chip_set_ptr buf first_chip_set_ptr) (\<lambda>buf.
           Some (Inr (offset, buf, rom_data_ptrs)))))"

section \<open>Writers that append\<close>

text \<open>
  A writer at an offset appends \<open>enc\<close>: whatever stands before the offset is kept, and as many
  bytes behind it are replaced as there are in \<open>enc\<close>.
\<close>

definition appends :: "nat \<Rightarrow> 'x writer \<Rightarrow> u8 list \<Rightarrow> 'x \<Rightarrow> bool" where
  "appends offset w enc x \<longleftrightarrow> (\<forall>pre rest. length pre = offset \<longrightarrow> length enc \<le> length rest \<longrightarrow>
     w (pre @ rest) = Some (Inr (offset + length enc, pre @ enc @ drop (length enc) rest, x)))"

lemma appendsI:
  assumes "\<And>pre rest. length pre = offset \<Longrightarrow> length enc \<le> length rest \<Longrightarrow>
     w (pre @ rest) = Some (Inr (offset + length enc, pre @ enc @ drop (length enc) rest, x))"
  shows "appends offset w enc x"
  using assms by (simp add: appends_def)

lemma appendsD:
  assumes "appends offset w enc x" "length pre = offset" "length enc \<le> length rest"
  shows "w (pre @ rest) = Some (Inr (offset + length enc, pre @ enc @ drop (length enc) rest, x))"
  using assms by (simp add: appends_def)

text \<open>Two writers in sequence, and a writer whose result is used.\<close>

lemma appends_bind:
  assumes "appends offset w1 enc1 x" "appends (offset + length enc1) (w2 (offset + length enc1) x) enc2 y"
  shows "appends offset (\<lambda>buf. bind_p (w1 buf) (\<lambda>(n, buf, a). w2 n a buf)) (enc1 @ enc2) y"
proof (rule appendsI)
  fix pre rest :: "u8 list"
  assume pre: "length pre = offset" and rest: "length (enc1 @ enc2) \<le> length rest"
  have "w1 (pre @ rest) = Some (Inr (offset + length enc1, (pre @ enc1) @ drop (length enc1) rest, x))"
    using appendsD [OF assms(1) pre, of rest] rest by simp
  moreover have "w2 (offset + length enc1) x ((pre @ enc1) @ drop (length enc1) rest) =
      Some (Inr (offset + length enc1 + length enc2, (pre @ enc1) @ enc2 @ drop (length enc2) (drop (length enc1) rest), y))"
    by (rule appendsD [OF assms(2)]) (use pre rest in simp_all)
  ultimately show "bind_p (w1 (pre @ rest)) (\<lambda>(n, buf, a). w2 n a buf) =
      Some (Inr (offset + length (enc1 @ enc2), pre @ (enc1 @ enc2) @ drop (length (enc1 @ enc2)) rest, y))"
    by (simp add: add.assoc add.commute)
qed

lemma appends_map:
  "appends offset w enc x \<Longrightarrow> appends offset (\<lambda>buf. bind_p (w buf) (\<lambda>(n, buf, a). Some (Inr (n, buf, f a)))) enc (f x)"
  by (simp add: appends_def)

lemma appends_nothing: "appends offset (\<lambda>buf. Some (Inr (offset, buf, x))) [] x"
  by (simp add: appends_def)

lemma at_tail_appends: "appends 0 w enc x \<Longrightarrow> appends offset (at_tail offset w) enc x"
  using appendsD [of 0 w enc x "[]"] by (intro appendsI) (simp add: at_tail_def)

lemma put_all_at:
  "length pre = offset \<Longrightarrow> length (concat xs) \<le> length rest \<Longrightarrow>
     put_all offset xs (pre @ rest) =
       Some (offset + length (concat xs), pre @ concat xs @ drop (length (concat xs)) rest)"
proof (induction xs arbitrary: offset pre rest)
  case (Cons x xs)
  have "write_slice offset x (pre @ rest) = Some ((pre @ x) @ drop (length x) rest)"
    using Cons.prems by (simp add: write_slice_def copy_at_def)
  moreover have "put_all (offset + length x) xs ((pre @ x) @ drop (length x) rest) =
      Some (offset + length x + length (concat xs), (pre @ x) @ concat xs @ drop (length (concat xs)) (drop (length x) rest))"
    by (rule Cons.IH) (use Cons.prems in simp_all)
  ultimately show ?case by (simp add: add.commute add.assoc)
qed simp

lemma written_appends: "enc = concat xs \<Longrightarrow> appends 0 (\<lambda>buf. written (put_all 0 xs buf)) enc ()"
  using put_all_at [of "[]" 0 xs] by (intro appendsI) (simp add: written_def)

lemma checked_appends:
  assumes "appends 0 w enc x" "n \<le> length enc"
  shows "appends 0 (\<lambda>buf. if length buf < n then e buf else w buf) enc x"
  using assms by (auto simp: appends_def)

section \<open>The bytes of chips\<close>

lemma length_char_utf8: "length (char_utf8 c) = char_len c"
  by (simp add: char_utf8_def char_len_def)

lemma length_str_bytes: "length (str_bytes s) = str_len s"
  by (simp add: str_bytes_def str_len_def length_concat comp_def length_char_utf8)

lemma length_le32 [simp]: "length (le32 n) = 4"
  by (simp add: le32_def)

definition chip_entry :: "nat list \<Rightarrow> bool \<Rightarrow> chip \<Rightarrow> u8 list" where
  "chip_entry filename_ptrs include_filenames c =
     the (chip_codes c) @ (if include_filenames then le32 (filename_ptrs ! ch_index c) else [])"

definition entry_len :: "bool \<Rightarrow> nat" where
  "entry_len include_filenames = (if include_filenames then 8 else 4)"

text \<open>A chip the metadata can describe.\<close>

definition describable :: "bool \<Rightarrow> nat \<Rightarrow> chip \<Rightarrow> bool" where
  "describable incl names c \<longleftrightarrow> chip_codes c \<noteq> None \<and> (incl \<longrightarrow> ch_index c < names)"

lemma length_chip_codes: "chip_codes c = Some codes \<Longrightarrow> length codes = 4"
  by (auto simp: chip_codes_def bind_eq_Some_conv split: if_splits)

lemma length_chip_entry: "describable incl names c \<Longrightarrow> length (chip_entry ptrs incl c) = entry_len incl"
  by (auto simp: describable_def chip_entry_def entry_len_def length_chip_codes)

lemma chip_metadata_loop_appends:
  assumes "\<forall>c \<in> set chips. describable incl (length filename_ptrs) c"
  shows "appends offset (chip_metadata_loop filename_ptrs incl offset chips)
    (concat (map (chip_entry filename_ptrs incl) chips)) (map (\<lambda>j. offset + j * entry_len incl) [0..<length chips])"
  using assms
proof (induction chips arbitrary: offset)
  case Nil
  then show ?case by (simp add: appends_def)
next
  case (Cons c chips)
  obtain codes where codes: "chip_codes c = Some codes" "incl \<Longrightarrow> ch_index c < length filename_ptrs"
    using Cons.prems by (auto simp: describable_def)
  note l4 = length_chip_codes [OF codes(1)]
  let ?entry = "chip_entry filename_ptrs incl c" and ?rest = "concat (map (chip_entry filename_ptrs incl) chips)"
  have entry: "length ?entry = entry_len incl" using length_chip_entry [of incl "length filename_ptrs" c] Cons.prems by simp
  have IH: "appends (offset + entry_len incl) (chip_metadata_loop filename_ptrs incl (offset + entry_len incl) chips)
      ?rest (map (\<lambda>j. offset + entry_len incl + j * entry_len incl) [0..<length chips])"
    by (rule Cons.IH) (use Cons.prems in simp)
  have ptrs: "map (\<lambda>j. offset + j * entry_len incl) [0..<length (c # chips)] =
      offset # map (\<lambda>j. offset + entry_len incl + j * entry_len incl) [0..<length chips]"
    by (simp add: upt_conv_Cons map_upt_Suc flip: add.assoc del: upt_Suc) (simp add: map_Suc_upt [symmetric] comp_def del: upt_Suc)
  show ?case
  proof (rule appendsI)
    fix pre rest :: "u8 list"
    assume pre: "length pre = offset" and rest: "length (concat (map (chip_entry filename_ptrs incl) (c # chips))) \<le> length rest"
    have room: "entry_len incl \<le> length rest" "length ?rest \<le> length (drop (entry_len incl) rest)"
      using rest entry by simp_all
    have one: "chip_metadata_loop filename_ptrs incl offset (c # chips) (pre @ rest) =
        bind_p (chip_metadata_loop filename_ptrs incl (offset + entry_len incl) chips
          ((pre @ ?entry) @ drop (entry_len incl) rest)) (\<lambda>(n, buf, ptrs). Some (Inr (n, buf, offset # ptrs)))"
      using pre room(1) codes l4
      by (auto simp: chip_entry_def entry_len_def write_slice_def copy_at_def get_def)
    have "chip_metadata_loop filename_ptrs incl (offset + entry_len incl) chips ((pre @ ?entry) @ drop (entry_len incl) rest) =
      Some (Inr (offset + entry_len incl + length ?rest, (pre @ ?entry) @ ?rest @ drop (length ?rest) (drop (entry_len incl) rest),
        map (\<lambda>j. offset + entry_len incl + j * entry_len incl) [0..<length chips]))"
      by (rule appendsD [OF IH]) (use pre entry room(2) in simp_all)
    then show "chip_metadata_loop filename_ptrs incl offset (c # chips) (pre @ rest) =
      Some (Inr (offset + length (concat (map (chip_entry filename_ptrs incl) (c # chips))),
        pre @ concat (map (chip_entry filename_ptrs incl) (c # chips)) @
          drop (length (concat (map (chip_entry filename_ptrs incl) (c # chips)))) rest,
        map (\<lambda>j. offset + j * entry_len incl) [0..<length (c # chips)]))"
      unfolding one ptrs using entry by (simp add: add.commute add.assoc)
  qed
qed

section \<open>The bytes of sets\<close>

definition set_chips :: "nat list \<Rightarrow> bool \<Rightarrow> chip_set \<Rightarrow> u8 list" where
  "set_chips filename_ptrs incl s = concat (map (chip_entry filename_ptrs incl) (se_chips s))"

lemma length_chip_entries:
  "\<forall>c \<in> set chips. describable incl (length ptrs) c \<Longrightarrow>
     length (concat (map (chip_entry ptrs incl) chips)) = length chips * entry_len incl"
  by (induction chips) (auto simp: length_chip_entry)

lemma length_set_chips:
  "\<forall>c \<in> set (se_chips s). describable incl (length ptrs) c \<Longrightarrow> length (set_chips ptrs incl s) = length (se_chips s) * entry_len incl"
  unfolding set_chips_def by (rule length_chip_entries)

lemma write_chip_metadata_appends:
  assumes "\<forall>c \<in> set (se_chips s). describable incl (length ptrs) c"
  shows "appends 0 (write_chip_metadata s ptrs incl) (set_chips ptrs incl s)
    (map (\<lambda>j. j * entry_len incl) [0..<length (se_chips s)])"
proof -
  have "chips_metadata_len s incl \<le> length (set_chips ptrs incl s)"
    using length_set_chips [of s, OF assms]
    by (auto simp: chips_metadata_len_def entry_len_def CHIP_METADATA_LEN_WITH_FILENAME_def CHIP_METADATA_LEN_NO_FILENAME_def)
  then show ?thesis
    using checked_appends [OF chip_metadata_loop_appends [OF assms, of 0, folded set_chips_def],
        of "chips_metadata_len s incl" "\<lambda>buf. Some (Inl (MetaTooSmall ''write_chip_metadata1'' (chips_metadata_len s incl) (length buf)))"]
    by (simp add: write_chip_metadata_def [abs_def])
qed

fun chip_ptrs :: "bool \<Rightarrow> nat \<Rightarrow> nat \<Rightarrow> chip_set list \<Rightarrow> nat list list" where
  "chip_ptrs incl base offset [] = []"
| "chip_ptrs incl base offset (s # sets) =
     map (\<lambda>j. j * entry_len incl + (offset + base)) [0..<length (se_chips s)] #
     chip_ptrs incl base (offset + length (se_chips s) * entry_len incl) sets"

lemma chips_loop_appends:
  assumes "\<forall>s \<in> set sets. \<forall>c \<in> set (se_chips s). describable incl (length ptrs) c"
  shows "appends offset (chips_loop ptrs incl base offset sets) (concat (map (set_chips ptrs incl) sets))
    (chip_ptrs incl base offset sets)"
  using assms
proof (induction sets arbitrary: offset)
  case Nil
  then show ?case by (simp add: appends_def)
next
  case (Cons s sets)
  have s: "\<forall>c \<in> set (se_chips s). describable incl (length ptrs) c" using Cons.prems by simp
  let ?k = "\<lambda>n a buf. bind_p (chips_loop ptrs incl base n sets buf) (\<lambda>(n, buf, rest).
      Some (Inr (n, buf, map (\<lambda>p. p + (offset + base)) a # rest)))"
  have eq: "chips_loop ptrs incl base offset (s # sets) =
      (\<lambda>buf. bind_p (at_tail offset (write_chip_metadata s ptrs incl) buf) (\<lambda>(n, buf, a). ?k n a buf))"
    by (rule ext) simp
  have "appends (offset + length (set_chips ptrs incl s)) (chips_loop ptrs incl base (offset + length (set_chips ptrs incl s)) sets)
      (concat (map (set_chips ptrs incl) sets)) (chip_ptrs incl base (offset + length (set_chips ptrs incl s)) sets)"
    by (rule Cons.IH) (use Cons.prems in simp)
  from appends_bind [where ?w2.0 = ?k, OF at_tail_appends [OF write_chip_metadata_appends [OF s]], OF appends_map [OF this]]
  show ?case unfolding eq using length_set_chips [OF s] by (simp add: comp_def)
qed

lemma arrays_loop_appends:
  assumes "\<forall>(s, ptrs) \<in> set items. length ptrs = length (se_chips s)"
  shows "appends offset (arrays_loop base offset items) (concat (map (\<lambda>(s, ptrs). concat (map le32 ptrs)) items))
    (map (\<lambda>k. offset + base + 4 * length (concat (map snd (take k items)))) [0..<length items])"
  using assms
proof (induction items arbitrary: offset)
  case Nil
  then show ?case by (simp add: appends_def)
next
  case (Cons item items)
  obtain s ptrs where item: "item = (s, ptrs)" by (cases item)
  let ?enc = "concat (map le32 ptrs)"
  have len: "length ptrs = length (se_chips s)" "length ?enc = 4 * length ptrs"
    using Cons.prems item by (simp_all add: length_concat comp_def sum_list_triv)
  have "appends 0 (\<lambda>buf. if length buf < 4 * length (se_chips s) then Some (Inl (MetaTooSmall ''write_chip_pointer_array'' (4 * length (se_chips s)) (length buf)))
      else written (put_all 0 (map le32 ptrs) buf)) ?enc ()"
    by (rule checked_appends [OF written_appends]) (simp_all add: len)
  then have one: "appends 0 (write_chip_pointer_array s ptrs) ?enc ()"
    using len by (simp add: write_chip_pointer_array_def [abs_def] cong: if_cong)
  let ?k = "\<lambda>n a buf. bind_p (arrays_loop base n items buf) (\<lambda>(n, buf, rest).
       Some (Inr (n, buf, (offset + base) # rest)))"
  have eq: "arrays_loop base offset (item # items) =
      (\<lambda>buf. bind_p (at_tail offset (write_chip_pointer_array s ptrs) buf) (\<lambda>(n, buf, a). ?k n a buf))"
    by (rule ext) (simp add: item)
  have "appends (offset + length ?enc) (arrays_loop base (offset + length ?enc) items)
      (concat (map (\<lambda>(s, ptrs). concat (map le32 ptrs)) items))
      (map (\<lambda>k. offset + length ?enc + base + 4 * length (concat (map snd (take k items)))) [0..<length items])"
    by (rule Cons.IH) (use Cons.prems in simp)
  from appends_bind [where ?w2.0 = ?k, OF at_tail_appends [OF one], OF appends_map [OF this]]
  have "appends offset (arrays_loop base offset (item # items)) (?enc @ concat (map (\<lambda>(s, ptrs). concat (map le32 ptrs)) items))
      ((offset + base) # map (\<lambda>k. offset + length ?enc + base + 4 * length (concat (map snd (take k items)))) [0..<length items])"
    unfolding eq .
  moreover have "(offset + base) # map (\<lambda>k. offset + length ?enc + base + 4 * length (concat (map snd (take k items)))) [0..<length items] =
      map (\<lambda>k. offset + base + 4 * length (concat (map snd (take k (item # items))))) [0..<length (item # items)]"
    by (simp add: upt_conv_Cons item len del: upt_Suc) (simp add: map_Suc_upt [symmetric] comp_def item len algebra_simps del: upt_Suc)
  ultimately show ?case by (simp only: item list.map concat.simps split_conv)
qed

text \<open>The entry of a set.\<close>

definition set_entry :: "v1_board \<Rightarrow> firmware_version \<Rightarrow> chip_set \<times> nat \<times> nat \<times> nat option \<times> nat option \<Rightarrow> u8 list" where
  "set_entry v fw = (\<lambda>(s, data_ptr, array_ptr, overrides_ptr, serve_ptr).
     le32 data_ptr @ le32 (the (image_size s v fw)) @ le32 array_ptr @
     [of_nat (length (se_chips s)), c_enum_value (se_serve_alg s),
      (case multi_cs_logic s of Some (Inr cs) \<Rightarrow> cs_enum_val cs | _ \<Rightarrow> 0),
      if MIN_FIRMWARE_OVERRIDES_VERSION \<le> fw then 1 else PAD_METADATA_BYTE] @
     (if MIN_FIRMWARE_OVERRIDES_VERSION \<le> fw
      then le32 (ptr_or_none serve_ptr) @ le32 (ptr_or_none overrides_ptr) @ replicate 40 0 else []))"

definition set_sized :: "v1_board \<Rightarrow> firmware_version \<Rightarrow> chip_set \<Rightarrow> bool" where
  "set_sized v fw s \<longleftrightarrow> image_size s v fw \<noteq> None \<and> (\<exists>cs. multi_cs_logic s = Some (Inr cs))"

lemma length_set_entry: "length (set_entry v fw item) = chip_set_metadata_len fw"
  by (cases item) (auto simp: set_entry_def chip_set_metadata_len_def CHIP_SET_METADATA_LEN_def CHIP_SET_METADATA_LEN_EXTRA_INFO_def)

lemma write_set_metadata_appends:
  assumes "set_sized v fw s"
  shows "appends 0 (write_set_metadata s data_ptr array_ptr v fw serve_ptr overrides_ptr)
    (set_entry v fw (s, data_ptr, array_ptr, overrides_ptr, serve_ptr)) ()"
proof -
  obtain sz cs where sz: "image_size s v fw = Some sz" "multi_cs_logic s = Some (Inr cs)"
    using assms by (auto simp: set_sized_def)
  let ?extra = "MIN_FIRMWARE_OVERRIDES_VERSION \<le> fw"
  let ?item = "(s, data_ptr, array_ptr, overrides_ptr, serve_ptr)"
  let ?chunks = "[le32 data_ptr, le32 sz, le32 array_ptr, [of_nat (length (se_chips s))],
      [c_enum_value (se_serve_alg s)], [cs_enum_val cs], [if ?extra then 1 else PAD_METADATA_BYTE]] @
     (if ?extra then [le32 (ptr_or_none serve_ptr), le32 (ptr_or_none overrides_ptr), replicate 40 0] else [])"
  have enc: "set_entry v fw ?item = concat ?chunks" by (simp add: set_entry_def sz)
  have "appends 0 (\<lambda>buf. if length buf < chip_set_metadata_len fw
      then Some (Inl (MetaTooSmall ''write_set_metadata'' (chip_set_metadata_len fw) (length buf)))
      else written (put_all 0 ?chunks buf)) (set_entry v fw ?item) ()"
    by (rule checked_appends [OF written_appends [OF enc]]) (simp add: length_set_entry)
  then show ?thesis by (simp add: write_set_metadata_def [abs_def] sz Let_def map_err_p_def cong: if_cong)
qed

lemma sets_loop_appends:
  assumes "\<forall>item \<in> set items. set_sized v fw (fst item)"
  shows "appends offset (sets_loop v fw offset items) (concat (map (set_entry v fw) items)) ()"
  using assms
proof (induction items arbitrary: offset)
  case Nil
  then show ?case by (simp add: appends_def)
next
  case (Cons item items)
  obtain s data_ptr array_ptr overrides_ptr serve_ptr where item: "item = (s, data_ptr, array_ptr, overrides_ptr, serve_ptr)"
    by (cases item)
  have s: "set_sized v fw s" using Cons.prems item by simp
  have eq: "sets_loop v fw offset (item # items) =
      (\<lambda>buf. bind_p (at_tail offset (write_set_metadata s data_ptr array_ptr v fw serve_ptr overrides_ptr) buf)
        (\<lambda>(n, buf, a). sets_loop v fw n items buf))"
    by (rule ext) (simp add: item)
  have "appends (offset + length (set_entry v fw item)) (sets_loop v fw (offset + length (set_entry v fw item)) items)
      (concat (map (set_entry v fw) items)) ()"
    by (rule Cons.IH) (use Cons.prems in simp)
  from appends_bind [where ?w2.0 = "\<lambda>n a buf. sets_loop v fw n items buf",
      OF at_tail_appends [OF write_set_metadata_appends [OF s, of data_ptr array_ptr serve_ptr overrides_ptr]],
      folded item, OF this]
  show ?case unfolding eq by simp
qed

section \<open>The names\<close>

definition name_bytes :: "chip \<Rightarrow> u8 list" where
  "name_bytes c = str_bytes (chip_filename c) @ [0]"

fun name_offsets :: "nat \<Rightarrow> chip list \<Rightarrow> nat list" where
  "name_offsets offset [] = []"
| "name_offsets offset (c # chips) = offset # name_offsets (offset + length (name_bytes c)) chips"

definition numbered :: "nat \<Rightarrow> chip list \<Rightarrow> bool" where
  "numbered i chips \<longleftrightarrow> map ch_index chips = [i..<i + length chips]"

lemma filenames_loop_at:
  assumes "numbered i chips"
  shows "appends offset (\<lambda>buf. map_option Inr (filenames_loop offset i chips buf)) (concat (map name_bytes chips)) (name_offsets offset chips)"
  using assms
proof (induction chips arbitrary: offset i)
  case Nil
  then show ?case by (simp add: appends_def)
next
  case (Cons c chips)
  have c: "ch_index c = i" "numbered (i + 1) chips"
    using Cons.prems by (auto simp: numbered_def upt_conv_Cons simp del: upt_Suc)
  let ?rest = "concat (map name_bytes chips)"
  show ?case
  proof (rule appendsI)
    fix pre rest :: "u8 list"
    assume pre: "length pre = offset" and rest: "length (concat (map name_bytes (c # chips))) \<le> length rest"
    have put: "put_all offset [str_bytes (chip_filename c), [0]] (pre @ rest) =
        Some (offset + length (name_bytes c), (pre @ name_bytes c) @ drop (length (name_bytes c)) rest)"
      using put_all_at [OF pre, of "[str_bytes (chip_filename c), [0]]" rest] rest by (simp add: name_bytes_def)
    have "map_option Inr (filenames_loop (offset + length (name_bytes c)) (i + 1) chips
          ((pre @ name_bytes c) @ drop (length (name_bytes c)) rest)) =
        (Some (Inr (offset + length (name_bytes c) + length ?rest,
          (pre @ name_bytes c) @ ?rest @ drop (length ?rest) (drop (length (name_bytes c)) rest),
          name_offsets (offset + length (name_bytes c)) chips)) :: (v1_error, nat \<times> u8 list \<times> nat list) result option)"
      by (rule appendsD [OF Cons.IH [OF c(2)]]) (use pre rest in simp_all)
    then have "filenames_loop (offset + length (name_bytes c)) (i + 1) chips
          ((pre @ name_bytes c) @ drop (length (name_bytes c)) rest) =
        Some (offset + length (name_bytes c) + length ?rest,
          (pre @ name_bytes c) @ ?rest @ drop (length ?rest) (drop (length (name_bytes c)) rest),
          name_offsets (offset + length (name_bytes c)) chips)"
      by auto
    then show "map_option Inr (filenames_loop offset i (c # chips) (pre @ rest)) =
      Some (Inr (offset + length (concat (map name_bytes (c # chips))),
        pre @ concat (map name_bytes (c # chips)) @ drop (length (concat (map name_bytes (c # chips)))) rest,
        name_offsets offset (c # chips)))"
      using c(1) put by (simp add: add.assoc add.commute)
  qed
qed

lemma round_up_4_padding: "round_up_4 len = len + padding_4 len"
  by (simp add: round_up_4_def padding_4_def)

lemma padding_4_mod: "(len + padding_4 len) mod 4 = 0"
  unfolding padding_4_def by (cases "len mod 4 = 0") (simp_all, presburger)

text \<open>The bytes of the names, and the pointers to them.\<close>

definition names_bytes :: "metadata \<Rightarrow> u8 list" where
  "names_bytes m =
     (if me_filenames m then
        let names = concat (map name_bytes (meta_chips m)) in
          names @ replicate (padding_4 (length names)) PAD_METADATA_BYTE
      else [])"

definition name_ptrs :: "metadata \<Rightarrow> nat \<Rightarrow> nat list" where
  "name_ptrs m offset =
     (if me_filenames m then map (\<lambda>p. p + (offset + abs_metadata_start m)) (name_offsets 0 (meta_chips m))
      else replicate (length (meta_chips m)) 0xFF)"

lemma length_names: "length (concat (map name_bytes chips)) = sum_list (map (\<lambda>c. str_len (chip_filename c) + 1) chips)"
  by (simp add: length_concat comp_def name_bytes_def length_str_bytes)

lemma length_names_bytes: "length (names_bytes m) = filenames_metadata_len m"
  by (simp add: names_bytes_def filenames_metadata_len_def Let_def round_up_4_padding length_names padding_4_def)

lemma length_name_offsets [simp]: "length (name_offsets offset chips) = length chips"
  by (induction chips arbitrary: offset) simp_all

lemma length_name_ptrs [simp]: "length (name_ptrs m offset) = length (meta_chips m)"
  by (simp add: name_ptrs_def)

lemma write_names_appends:
  assumes "me_filenames m \<Longrightarrow> numbered 0 (meta_chips m)" "offset mod 4 = 0"
  shows "appends offset (write_names m offset) (names_bytes m) (name_ptrs m offset)"
proof (cases "me_filenames m")
  case False
  then show ?thesis by (simp add: names_bytes_def name_ptrs_def appends_def write_names_def)
next
  case True
  let ?names = "concat (map name_bytes (meta_chips m))"
  let ?pad = "padding_4 (length ?names)"
  have len: "filenames_metadata_len m = length ?names + ?pad"
    using length_names_bytes [of m] True by (simp add: names_bytes_def Let_def)
  show ?thesis
  proof (rule appendsI)
    fix pre rest :: "u8 list"
    assume pre: "length pre = offset" and rest: "length (names_bytes m) \<le> length rest"
    have room: "length ?names + ?pad \<le> length rest" using rest by (simp add: length_names_bytes len)
    have "at_tail offset (write_filenames m) (pre @ rest) =
        Some (Inr (offset + length ?names, (pre @ ?names) @ drop (length ?names) rest, name_offsets 0 (meta_chips m)))"
      using appendsD [OF filenames_loop_at [OF assms(1) [OF True], of 0], of "[]" rest] room pre
      by (simp add: at_tail_def write_filenames_def len)
    moreover have "put_all (offset + length ?names) (replicate ?pad [PAD_METADATA_BYTE]) ((pre @ ?names) @ drop (length ?names) rest) =
        Some (offset + length ?names + ?pad, (pre @ ?names) @ replicate ?pad PAD_METADATA_BYTE @ drop ?pad (drop (length ?names) rest))"
      using put_all_at [of "pre @ ?names" "offset + length ?names" "replicate ?pad [PAD_METADATA_BYTE]" "drop (length ?names) rest"]
        pre room by (simp add: concat_replicate_single)
    moreover have "(offset + length ?names + ?pad) mod 4 = 0"
      using assms(2) padding_4_mod [of "length ?names"] by (metis add.assoc mod_add_eq add_0 mod_0)
    ultimately show "write_names m offset (pre @ rest) =
        Some (Inr (offset + length (names_bytes m), pre @ names_bytes m @ drop (length (names_bytes m)) rest, name_ptrs m offset))"
      using True by (simp add: write_names_def Let_def names_bytes_def name_ptrs_def add.assoc add.commute)
  qed
qed

section \<open>The override blocks and the header\<close>

definition serve_bytes :: "u8 list \<Rightarrow> u8 list" where
  "serve_bytes params = take 64 params @ replicate (64 - length params) PAD_METADATA_BYTE"

definition set_overrides :: "chip_set \<Rightarrow> u8 list" where
  "set_overrides s =
     (case se_overrides s of
        None \<Rightarrow> []
      | Some o' \<Rightarrow> fw_overrides_core o' @ replicate 40 PAD_METADATA_BYTE @
          (case fw_serve_alg_params o' of None \<Rightarrow> [] | Some params \<Rightarrow> serve_bytes params))"

definition set_override_ptrs :: "nat \<Rightarrow> chip_set \<Rightarrow> nat option \<times> nat option" where
  "set_override_ptrs ptr s =
     (case se_overrides s of
        None \<Rightarrow> (None, None)
      | Some o' \<Rightarrow> (Some ptr, map_option (\<lambda>_. ptr + 64) (fw_serve_alg_params o')))"

fun override_ptrs :: "nat \<Rightarrow> nat \<Rightarrow> chip_set list \<Rightarrow> (nat option \<times> nat option) list" where
  "override_ptrs base offset [] = []"
| "override_ptrs base offset (s # sets) =
     set_override_ptrs (offset + base) s # override_ptrs base (offset + length (set_overrides s)) sets"

lemma length_serve_bytes [simp]: "length (serve_bytes params) = 64"
  by (simp add: serve_bytes_def)

lemma write_overrides_appends: "appends 0 (write_overrides o') (fw_overrides_core o' @ replicate 40 PAD_METADATA_BYTE) ()"
  by (intro appendsI) (simp add: write_overrides_def serialize_firmware_overrides_def core_fields(1)
      CHIP_SET_FIRMWARE_OVERRIDES_METADATA_LEN_def)

lemma serialize_serve_config_appends: "appends 0 (serialize_serve_config params) (serve_bytes params) ()"
  by (intro appendsI, unfold length_serve_bytes)
    (auto simp: serialize_serve_config_def serve_bytes_def CHIP_SET_SERVE_CONFIG_METADATA_LEN_def Let_def min_def)

lemma set_overrides_appends:
  "appends offset (\<lambda>buf. case se_overrides s of
         None \<Rightarrow> Some (Inr (offset, buf, (None, None)))
       | Some o' \<Rightarrow>
           bind_p (at_tail offset (write_overrides o') buf) (\<lambda>(params_offset, buf, _).
             case fw_serve_alg_params o' of
               None \<Rightarrow> Some (Inr (params_offset, buf, (Some (offset + base), None)))
             | Some params \<Rightarrow>
                 bind_p (at_tail params_offset (serialize_serve_config params) buf) (\<lambda>(next_offset, buf, _).
                   Some (Inr (next_offset, buf, (Some (offset + base), Some (params_offset + base)))))))
     (set_overrides s) (set_override_ptrs (offset + base) s)"
proof (cases "se_overrides s")
  case None
  then show ?thesis by (simp add: set_overrides_def set_override_ptrs_def appends_nothing)
next
  case (Some o')
  let ?core = "fw_overrides_core o' @ replicate 40 PAD_METADATA_BYTE"
  have len: "length ?core = 64" by (simp add: core_fields(1))
  note first = at_tail_appends [OF write_overrides_appends, of offset o']
  show ?thesis
  proof (cases "fw_serve_alg_params o'")
    case None
    have "appends offset (\<lambda>buf. bind_p (at_tail offset (write_overrides o') buf) (\<lambda>(n, buf, a).
        Some (Inr (n, buf, (Some (offset + base), None))))) ?core (Some (offset + base), None)"
      by (rule appends_map [OF first])
    then show ?thesis using Some None by (simp add: set_overrides_def set_override_ptrs_def)
  next
    case (Some params)
    let ?k = "\<lambda>n a buf. bind_p (at_tail n (serialize_serve_config params) buf) (\<lambda>(next_offset, buf, _).
        Some (Inr (next_offset, buf, (Some (offset + base), Some (n + base)))))"
    have "appends (offset + length ?core) (?k (offset + length ?core) ()) (serve_bytes params)
        (Some (offset + base), Some (offset + length ?core + base))"
      by (rule appends_map [OF at_tail_appends [OF serialize_serve_config_appends]])
    from appends_bind [where ?w2.0 = ?k, OF first this]
    have "appends offset (\<lambda>buf. bind_p (at_tail offset (write_overrides o') buf) (\<lambda>(n, buf, a). ?k n a buf))
        (?core @ serve_bytes params) (Some (offset + base), Some (offset + base + 64))"
      unfolding len by (simp add: ac_simps)
    then show ?thesis using \<open>se_overrides s = Some o'\<close> Some by (simp add: set_overrides_def set_override_ptrs_def ac_simps)
  qed
qed

lemma overrides_loop_appends:
  "appends offset (overrides_loop base offset sets) (concat (map set_overrides sets)) (override_ptrs base offset sets)"
proof (induction sets arbitrary: offset)
  case Nil
  then show ?case by (simp add: appends_def)
next
  case (Cons s sets)
  let ?k = "\<lambda>n a buf. bind_p (overrides_loop base n sets buf) (\<lambda>(n, buf, rest). Some (Inr (n, buf, a # rest)))"
  from appends_bind [where ?w2.0 = ?k, OF set_overrides_appends [of offset base s] appends_map [OF Cons.IH]]
  show ?case by simp
qed

definition override_bytes :: "metadata \<Rightarrow> u8 list" where
  "override_bytes m =
     (if MIN_FIRMWARE_OVERRIDES_VERSION \<le> me_version m then concat (map set_overrides (me_sets m)) else [])"

definition block_ptrs :: "metadata \<Rightarrow> nat \<Rightarrow> (nat option \<times> nat option) list" where
  "block_ptrs m offset =
     (if MIN_FIRMWARE_OVERRIDES_VERSION \<le> me_version m then override_ptrs (abs_metadata_start m) offset (me_sets m)
      else replicate (length (me_sets m)) (None, None))"

lemma write_override_blocks_appends:
  "appends offset (write_override_blocks m offset) (override_bytes m) (block_ptrs m offset)"
  unfolding write_override_blocks_def [abs_def] override_bytes_def block_ptrs_def
  by (simp add: overrides_loop_appends appends_nothing)

lemma length_override_ptrs [simp]: "length (override_ptrs base offset sets) = length sets"
  by (induction sets arbitrary: offset) simp_all

lemma length_block_ptrs [simp]: "length (block_ptrs m offset) = length (me_sets m)"
  by (simp add: block_ptrs_def)

lemma length_override_bytes: "length (override_bytes m) = firmware_overrides_len m"
proof -
  have "length (set_overrides s) = (case se_overrides s of
          None \<Rightarrow> 0
        | Some o' \<Rightarrow> CHIP_SET_FIRMWARE_OVERRIDES_METADATA_LEN +
            (if fw_serve_alg_params o' \<noteq> None then CHIP_SET_FIRMWARE_OVERRIDES_METADATA_LEN else 0))" for s
    by (auto simp: set_overrides_def core_fields(1) CHIP_SET_FIRMWARE_OVERRIDES_METADATA_LEN_def split: option.splits)
  then show ?thesis
    by (auto simp: override_bytes_def firmware_overrides_len_def length_concat comp_def cong: map_cong)
qed

definition header_bytes :: "metadata \<Rightarrow> nat \<Rightarrow> u8 list" where
  "header_bytes m ptr =
     HEADER_MAGIC @ le32 METADATA_VERSION @ of_nat (length (me_sets m)) # replicate 3 0 @ le32 ptr @ replicate 228 0xFF"

lemma length_header_bytes [simp]: "length (header_bytes m ptr) = METADATA_HEADER_LEN"
  by (simp add: header_bytes_def HEADER_MAGIC_def METADATA_HEADER_LEN_def)

lemma write_header_appends: "appends 0 (write_header m) (header_bytes m 0xFFFFFFFF) ()"
proof -
  let ?chunks = "[HEADER_MAGIC, le32 METADATA_VERSION, [of_nat (length (me_sets m))], replicate 3 0, le32 0xFFFFFFFF,
      replicate 228 0xFF]"
  have "header_bytes m 0xFFFFFFFF = concat ?chunks" by (simp add: header_bytes_def)
  from checked_appends [OF written_appends [OF this], of METADATA_HEADER_LEN
      "\<lambda>buf. Some (Inl (MetaTooSmall ''write_header'' METADATA_HEADER_LEN (length buf)))"]
  show ?thesis by (simp add: write_header_def [abs_def])
qed

lemma update_header:
  "update_chip_set_ptr (header_bytes m p @ rest) ptr = Some (Inr (header_bytes m ptr @ rest))"
  by (simp add: update_chip_set_ptr_def header_bytes_def write_slice_def copy_at_def HEADER_MAGIC_def METADATA_CHIP_SET_OFFSET_def
      numeral_eq_Suc)

section \<open>All of the metadata\<close>

text \<open>Where the parts begin.\<close>

definition overrides_start :: "metadata \<Rightarrow> nat" where
  "overrides_start m = METADATA_HEADER_LEN + filenames_metadata_len m"

definition chips_start :: "metadata \<Rightarrow> nat" where
  "chips_start m = overrides_start m + firmware_overrides_len m"

definition arrays_start :: "metadata \<Rightarrow> nat" where
  "arrays_start m = chips_start m + sum_list (map (\<lambda>s. chips_metadata_len s (me_filenames m)) (me_sets m))"

definition sets_start :: "metadata \<Rightarrow> nat" where
  "sets_start m = arrays_start m + 4 * length (meta_chips m)"

definition meta_chip_ptrs :: "metadata \<Rightarrow> nat list list" where
  "meta_chip_ptrs m = chip_ptrs (me_filenames m) (abs_metadata_start m) (chips_start m) (me_sets m)"

definition meta_array_ptrs :: "metadata \<Rightarrow> nat list" where
  "meta_array_ptrs m =
     map (\<lambda>k. arrays_start m + abs_metadata_start m + 4 * length (concat (map se_chips (take k (me_sets m)))))
       [0..<length (me_sets m)]"

definition meta_items :: "metadata \<Rightarrow> nat list \<Rightarrow> (chip_set \<times> nat \<times> nat \<times> nat option \<times> nat option) list" where
  "meta_items m rom_data_ptrs =
     zip (me_sets m) (zip rom_data_ptrs (zip (meta_array_ptrs m) (block_ptrs m (overrides_start m))))"

definition metadata_bytes :: "metadata \<Rightarrow> nat \<Rightarrow> nat list \<Rightarrow> u8 list" where
  "metadata_bytes m ptr rom_data_ptrs =
     header_bytes m ptr @ names_bytes m @ override_bytes m @
     concat (map (set_chips (name_ptrs m METADATA_HEADER_LEN) (me_filenames m)) (me_sets m)) @
     concat (map le32 (concat (meta_chip_ptrs m))) @
     concat (map (set_entry (me_board m) (me_version m)) (meta_items m rom_data_ptrs))"

text \<open>Metadata that can be written: what the writers need of chips and sets.\<close>

definition meta_writable :: "metadata \<Rightarrow> bool" where
  "meta_writable m \<longleftrightarrow>
     (\<forall>s \<in> set (me_sets m). set_sized (me_board m) (me_version m) s \<and>
       (\<forall>c \<in> set (se_chips s). describable (me_filenames m) (length (meta_chips m)) c)) \<and>
     (me_filenames m \<longrightarrow> numbered 0 (meta_chips m))"

lemma length_all_set_chips:
  "\<forall>s \<in> set sets. \<forall>c \<in> set (se_chips s). describable incl (length ptrs) c \<Longrightarrow>
     length (concat (map (set_chips ptrs incl) sets)) = sum_list (map (\<lambda>s. chips_metadata_len s incl) sets)"
  by (induction sets) (auto simp: length_set_chips chips_metadata_len_def entry_len_def
      CHIP_METADATA_LEN_WITH_FILENAME_def CHIP_METADATA_LEN_NO_FILENAME_def)

lemma chip_ptrs_lengths: "map length (chip_ptrs incl base offset sets) = map (length \<circ> se_chips) sets"
  by (induction sets arbitrary: offset) simp_all

lemma length_concat_map_length: "length (concat xss) = sum_list (map length xss)"
  by (simp add: length_concat)

lemma meta_chip_ptrs_facts:
  "length (meta_chip_ptrs m) = length (me_sets m)"
  "\<forall>(s, ptrs) \<in> set (zip (me_sets m) (meta_chip_ptrs m)). length ptrs = length (se_chips s)"
  "map snd (zip (me_sets m) (meta_chip_ptrs m)) = meta_chip_ptrs m"
  "length (concat (take k (meta_chip_ptrs m))) = length (concat (map se_chips (take k (me_sets m))))"
proof -
  note lens = chip_ptrs_lengths [of "me_filenames m" "abs_metadata_start m" "chips_start m" "me_sets m",
      folded meta_chip_ptrs_def]
  from arg_cong [OF lens, of length] show len: "length (meta_chip_ptrs m) = length (me_sets m)" by simp
  then show "map snd (zip (me_sets m) (meta_chip_ptrs m)) = meta_chip_ptrs m" by simp
  show "\<forall>(s, ptrs) \<in> set (zip (me_sets m) (meta_chip_ptrs m)). length ptrs = length (se_chips s)"
  proof (clarify)
    fix s ptrs assume "(s, ptrs) \<in> set (zip (me_sets m) (meta_chip_ptrs m))"
    then obtain k where k: "k < length (me_sets m)" "s = me_sets m ! k" "ptrs = meta_chip_ptrs m ! k"
      using len by (auto simp: in_set_zip)
    then show "length ptrs = length (se_chips s)"
      using arg_cong [OF lens, of "\<lambda>xs. xs ! k"] len by simp
  qed
  have "map length (take k (meta_chip_ptrs m)) = map (length \<circ> se_chips) (take k (me_sets m))"
    using arg_cong [OF lens, of "take k"] by (simp add: take_map)
  then show "length (concat (take k (meta_chip_ptrs m))) = length (concat (map se_chips (take k (me_sets m))))"
    by (simp add: length_concat_map_length)
qed

lemma concat_map_snd: "concat (map (\<lambda>(s, ptrs). concat (map f ptrs)) items) = concat (map f (concat (map snd items)))"
  by (induction items) auto

lemma data_ptrs_length: "data_ptrs v fw next_ptr sets = Some ptrs \<Longrightarrow> length ptrs = length sets"
  by (induction sets arbitrary: next_ptr ptrs) (auto simp: bind_eq_Some_conv split: if_splits)

lemma write_parts_appends:
  assumes writable: "meta_writable m"
    and ptrs: "data_ptrs (me_board m) (me_version m) (abs_chip_image_start m) (me_sets m) = Some rom_data_ptrs"
  shows "appends 0 (write_parts m) (metadata_bytes m 0xFFFFFFFF rom_data_ptrs)
    (sets_start m + abs_metadata_start m, rom_data_ptrs)"
proof -
  let ?base = "abs_metadata_start m" and ?v = "me_board m" and ?fw = "me_version m" and ?sets = "me_sets m"
  let ?fptrs = "name_ptrs m METADATA_HEADER_LEN" and ?incl = "me_filenames m"
  let ?arrays = "concat (map le32 (concat (meta_chip_ptrs m)))"
  let ?chips = "concat (map (set_chips ?fptrs ?incl) ?sets)"
  have describable: "\<forall>s \<in> set ?sets. \<forall>c \<in> set (se_chips s). describable ?incl (length ?fptrs) c"
    using writable by (simp add: meta_writable_def)
  have names: "appends METADATA_HEADER_LEN (write_names m METADATA_HEADER_LEN) (names_bytes m) ?fptrs"
    by (rule write_names_appends) (use writable in \<open>simp_all add: meta_writable_def METADATA_HEADER_LEN_def\<close>)
  have blocks: "appends (overrides_start m) (write_override_blocks m (overrides_start m)) (override_bytes m) (block_ptrs m (overrides_start m))"
    by (rule write_override_blocks_appends)
  have chips: "appends (chips_start m) (chips_loop ?fptrs ?incl ?base (chips_start m) ?sets) ?chips (meta_chip_ptrs m)"
    unfolding meta_chip_ptrs_def by (rule chips_loop_appends [OF describable])
  have "concat (map (\<lambda>(s, ptrs). concat (map le32 ptrs)) (zip ?sets (meta_chip_ptrs m))) = ?arrays"
    unfolding concat_map_snd meta_chip_ptrs_facts(3) ..
  moreover have "map (\<lambda>k. arrays_start m + ?base + 4 * length (concat (map snd (take k (zip ?sets (meta_chip_ptrs m))))))
      [0..<length (zip ?sets (meta_chip_ptrs m))] = meta_array_ptrs m"
    by (simp add: meta_array_ptrs_def meta_chip_ptrs_facts flip: take_map)
  ultimately have arrays: "appends (arrays_start m) (arrays_loop ?base (arrays_start m) (zip ?sets (meta_chip_ptrs m))) ?arrays (meta_array_ptrs m)"
    using arrays_loop_appends [OF meta_chip_ptrs_facts(2) [of m], of "arrays_start m" ?base] by simp
  have "\<forall>item \<in> set (meta_items m rom_data_ptrs). set_sized ?v ?fw (fst item)"
    using writable by (auto simp: meta_items_def meta_writable_def dest: set_zip_leftD)
  then have sets: "appends (sets_start m) (sets_loop ?v ?fw (sets_start m) (meta_items m rom_data_ptrs))
      (concat (map (set_entry ?v ?fw) (meta_items m rom_data_ptrs))) ()"
    by (rule sets_loop_appends)
  have offsets: "0 + length (header_bytes m 0xFFFFFFFF) = METADATA_HEADER_LEN"
    "METADATA_HEADER_LEN + length (names_bytes m) = overrides_start m"
    "overrides_start m + length (override_bytes m) = chips_start m"
    "chips_start m + length ?chips = arrays_start m"
    "arrays_start m + length ?arrays = sets_start m"
    using length_all_set_chips [OF describable] meta_chip_ptrs_facts(4) [of "length ?sets" m] meta_chip_ptrs_facts(1) [of m]
    by (simp_all add: length_names_bytes overrides_start_def chips_start_def length_override_bytes arrays_start_def
        sets_start_def meta_chips_def length_concat comp_def sum_list_triv)
  show ?thesis
    unfolding write_parts_def [abs_def] Let_def ptrs Option.bind.bind_lunit metadata_bytes_def
    by (rule appends_bind [OF at_tail_appends [OF write_header_appends]], unfold offsets,
        rule appends_bind [OF names], unfold offsets, rule appends_bind [OF blocks], unfold offsets,
        rule appends_bind [OF chips], unfold offsets, rule appends_bind [OF arrays], unfold offsets,
        fold meta_items_def, rule appends_map [OF sets])
qed

lemma length_entries: "length (concat (map (set_entry v fw) items)) = length items * chip_set_metadata_len fw"
  by (simp add: length_concat comp_def length_set_entry sum_list_triv)

lemma length_metadata_bytes:
  assumes "meta_writable m" "metadata_len m = Some len" "length rom_data_ptrs = length (me_sets m)"
  shows "length (metadata_bytes m ptr rom_data_ptrs) = len"
proof -
  have "\<forall>s \<in> set (me_sets m). \<forall>c \<in> set (se_chips s).
      describable (me_filenames m) (length (name_ptrs m METADATA_HEADER_LEN)) c"
    using assms(1) by (simp add: meta_writable_def)
  note chips = length_all_set_chips [OF this]
  have arrays: "length (concat (map le32 (concat (meta_chip_ptrs m)))) = 4 * length (meta_chips m)"
    using meta_chip_ptrs_facts(4) [of "length (me_sets m)" m] meta_chip_ptrs_facts(1) [of m]
    by (simp add: meta_chips_def length_concat comp_def sum_list_triv)
  have total: "sets_len m = sum_list (map (\<lambda>s. chips_metadata_len s (me_filenames m)) (me_sets m)) + 4 * length (meta_chips m) +
      length (me_sets m) * chip_set_metadata_len (me_version m)"
    by (simp add: sets_len_def meta_chips_def length_concat comp_def sum_list_addf sum_list_mult_const)
  have "length (meta_items m rom_data_ptrs) = length (me_sets m)"
    by (simp add: meta_items_def meta_array_ptrs_def assms(3))
  then have "length (metadata_bytes m ptr rom_data_ptrs) =
      METADATA_HEADER_LEN + filenames_metadata_len m + firmware_overrides_len m + sets_len m"
    by (simp add: metadata_bytes_def length_names_bytes length_override_bytes chips arrays length_entries total)
  then show ?thesis using assms(2) by (simp add: metadata_len_def Let_def split: if_splits)
qed

lemma write_all_meta_bytes:
  assumes "meta_writable m" "metadata_len m = Some len" "length buf = len"
    and ptrs: "data_ptrs (me_board m) (me_version m) (abs_chip_image_start m) (me_sets m) = Some rom_data_ptrs"
  shows "write_all_meta m buf =
    Some (Inr (len, metadata_bytes m (sets_start m + abs_metadata_start m) rom_data_ptrs, rom_data_ptrs))"
proof -
  let ?bytes = "metadata_bytes m 0xFFFFFFFF rom_data_ptrs"
  have len: "length ?bytes = len" by (rule length_metadata_bytes [OF assms(1,2) data_ptrs_length [OF ptrs]])
  have "write_parts m buf = Some (Inr (len, ?bytes, (sets_start m + abs_metadata_start m, rom_data_ptrs)))"
    using appendsD [OF write_parts_appends [OF assms(1) ptrs], of "[]" buf] len assms(3) by simp
  moreover have "update_chip_set_ptr ?bytes p = Some (Inr (metadata_bytes m p rom_data_ptrs))" for p
    unfolding metadata_bytes_def by (rule update_header)
  ultimately show ?thesis using assms(2,3) by (simp add: write_all_meta_def)
qed

section \<open>Metadata that was written\<close>

text \<open>Where the writer returns bytes, its metadata was writable.\<close>

lemma map_err_p_Inr: "map_err_p f r = Some (Inr x) \<longleftrightarrow> r = Some (Inr x)"
  by (cases r) (auto simp: map_err_p_def map_err_def split: sum.splits)

lemma at_tail_Inr:
  "at_tail offset w buf = Some (Inr (n, b, x)) \<Longrightarrow> \<exists>k t. w (drop offset buf) = Some (Inr (k, t, x))"
  by (auto simp: at_tail_def bind_p_Inr_iff split: if_splits)

lemma chip_metadata_loop_Inr:
  "chip_metadata_loop ptrs incl offset chips buf = Some (Inr r) \<Longrightarrow> c \<in> set chips \<Longrightarrow> describable incl (length ptrs) c"
  by (induction chips arbitrary: offset buf r)
    (fastforce simp: bind_eq_Some_conv bind_p_Inr_iff describable_def get_def split: if_splits option.splits)+

lemma chips_loop_Inr:
  assumes "chips_loop ptrs incl base offset sets buf = Some (Inr (n, b, cptrs))"
  shows "length cptrs = length sets \<and> (\<forall>s \<in> set sets. \<forall>c \<in> set (se_chips s). describable incl (length ptrs) c)"
  using assms
proof (induction sets arbitrary: offset buf n b cptrs)
  case (Cons s sets)
  obtain n1 b1 x n2 b2 rest where first: "at_tail offset (write_chip_metadata s ptrs incl) buf = Some (Inr (n1, b1, x))"
    and more: "chips_loop ptrs incl base n1 sets b1 = Some (Inr (n2, b2, rest))" "length cptrs = Suc (length rest)"
    using Cons.prems by (auto simp: bind_p_Inr_iff)
  obtain k t where "write_chip_metadata s ptrs incl (drop offset buf) = Some (Inr (k, t, x))"
    using at_tail_Inr [OF first] by blast
  then have "\<forall>c \<in> set (se_chips s). describable incl (length ptrs) c"
    by (auto simp: write_chip_metadata_def split: if_splits dest: chip_metadata_loop_Inr)
  then show ?case using Cons.IH [OF more(1)] more(2) by simp
qed simp

lemma arrays_loop_Inr: "arrays_loop base offset items buf = Some (Inr (n, b, ptrs)) \<Longrightarrow> length ptrs = length items"
  by (induction items arbitrary: offset buf n b ptrs) (auto simp: bind_p_Inr_iff)

lemma overrides_loop_Inr: "overrides_loop base offset sets buf = Some (Inr (n, b, ptrs)) \<Longrightarrow> length ptrs = length sets"
  by (induction sets arbitrary: offset buf n b ptrs) (auto simp: bind_p_Inr_iff)

lemma sets_loop_Inr:
  assumes "sets_loop v fw offset items buf = Some (Inr r)"
  shows "\<forall>item \<in> set items. set_sized v fw (fst item)"
  using assms
proof (induction items arbitrary: offset buf)
  case (Cons item items)
  obtain s data_ptr array_ptr overrides_ptr serve_ptr where item: "item = (s, data_ptr, array_ptr, overrides_ptr, serve_ptr)"
    by (cases item)
  obtain n1 b1 x where first: "at_tail offset (write_set_metadata s data_ptr array_ptr v fw serve_ptr overrides_ptr) buf =
      Some (Inr (n1, b1, x))" and more: "sets_loop v fw n1 items b1 = Some (Inr r)"
    using Cons.prems by (auto simp: item bind_p_Inr_iff)
  obtain k t where "write_set_metadata s data_ptr array_ptr v fw serve_ptr overrides_ptr (drop offset buf) = Some (Inr (k, t, x))"
    using at_tail_Inr [OF first] by blast
  then have "set_sized v fw s"
    by (auto simp: write_set_metadata_def set_sized_def bind_eq_Some_conv bind_p_Inr_iff map_err_p_Inr split: if_splits)
  then show ?case using Cons.IH [OF more] by (simp add: item)
qed simp

lemma filenames_loop_Some:
  "filenames_loop offset i chips buf = Some (n, b, ptrs) \<Longrightarrow> numbered i chips \<and> length ptrs = length chips"
proof (induction chips arbitrary: offset i buf n b ptrs)
  case (Cons c chips)
  then show ?case
    by (auto simp: bind_eq_Some_conv numbered_def upt_conv_Cons simp del: upt_Suc split: if_splits)
qed (simp add: numbered_def)

lemma write_names_Inr:
  assumes "write_names m offset buf = Some (Inr (n, b, ptrs))"
  shows "length ptrs = length (meta_chips m)" "me_filenames m \<Longrightarrow> numbered 0 (meta_chips m)"
  using assms
  by (auto simp: write_names_def write_filenames_def Let_def bind_p_Inr_iff bind_eq_Some_conv split: if_splits
      dest!: at_tail_Inr filenames_loop_Some)

lemma write_all_meta_writable:
  assumes "write_all_meta m buf = Some (Inr (n, b, ptrs))"
  shows "meta_writable m \<and> data_ptrs (me_board m) (me_version m) (abs_chip_image_start m) (me_sets m) = Some ptrs"
proof -
  obtain n' b' p where "write_parts m buf = Some (Inr (n', b', (p, ptrs)))"
    using assms by (auto simp: write_all_meta_def bind_eq_Some_conv bind_p_Inr_iff split: if_splits)
  then obtain o1 b1 o2 b2 fptrs o3 b3 blocks o4 b4 cptrs o5 b5 aptrs o6 b6 x where
    names: "write_names m o1 b1 = Some (Inr (o2, b2, fptrs))"
    and blocks: "write_override_blocks m o2 b2 = Some (Inr (o3, b3, blocks))"
    and ptrs: "data_ptrs (me_board m) (me_version m) (abs_chip_image_start m) (me_sets m) = Some ptrs"
    and chips: "chips_loop fptrs (me_filenames m) (abs_metadata_start m) o3 (me_sets m) b3 = Some (Inr (o4, b4, cptrs))"
    and arrays: "arrays_loop (abs_metadata_start m) o4 (zip (me_sets m) cptrs) b4 = Some (Inr (o5, b5, aptrs))"
    and sets: "sets_loop (me_board m) (me_version m) o5 (zip (me_sets m) (zip ptrs (zip aptrs blocks))) b5 = Some (Inr (o6, b6, x))"
    by (auto simp: write_parts_def Let_def bind_eq_Some_conv bind_p_Inr_iff)
  have lens: "length cptrs = length (me_sets m)" "length aptrs = length (me_sets m)" "length blocks = length (me_sets m)"
    "length ptrs = length (me_sets m)"
    using chips_loop_Inr [OF chips] arrays_loop_Inr [OF arrays] data_ptrs_length [OF ptrs] blocks
    by (auto simp: write_override_blocks_def split: if_splits dest: overrides_loop_Inr)
  have "map fst (zip (me_sets m) (zip ptrs (zip aptrs blocks))) = me_sets m" by (simp add: lens)
  then have "\<forall>s \<in> set (me_sets m). set_sized (me_board m) (me_version m) s"
    using sets_loop_Inr [OF sets] by (metis (no_types, lifting) image_iff list.set_map)
  then show ?thesis
    using chips_loop_Inr [OF chips] write_names_Inr [OF names] ptrs by (simp add: meta_writable_def)
qed

section \<open>Reading the metadata\<close>

definition read32 :: "u8 list \<Rightarrow> nat \<Rightarrow> nat" where
  "read32 buf offset =
     unat (buf ! offset) + 256 * unat (buf ! (offset + 1)) + 65536 * unat (buf ! (offset + 2)) +
     16777216 * unat (buf ! (offset + 3))"

lemma read32_le32:
  assumes "length pre = offset" "n < 2 ^ 32"
  shows "read32 (pre @ le32 n @ rest) offset = n"
proof -
  have "(pre @ le32 n @ rest) ! (offset + k) = of_nat (n div 256 ^ k)" if "k < 4" for k
    using that assms(1) by (simp add: nth_append le32_def)
  from this [of 0] this [of 1] this [of 2] this [of 3]
  have "read32 (pre @ le32 n @ rest) offset =
      n mod 256 + 256 * (n div 256 mod 256) + 65536 * (n div 65536 mod 256) + 16777216 * (n div 16777216 mod 256)"
    by (simp add: read32_def unat_of_nat)
  also have "\<dots> = n"
    using mod_mult2_eq [of n 256 256] mod_mult2_eq [of n 65536 256] mod_mult2_eq [of n 16777216 256] assms(2) by simp
  finally show ?thesis .
qed

text \<open>The entry of set \<open>k\<close> and its place.\<close>

lemma drop_take_entry:
  assumes "k < length items" "\<forall>x \<in> set items. length (f x) = w"
  shows "concat (map f items) = concat (map f (take k items)) @ f (items ! k) @ concat (map f (drop (Suc k) items))"
    "length (concat (map f (take k items))) = k * w"
proof -
  show "concat (map f items) = concat (map f (take k items)) @ f (items ! k) @ concat (map f (drop (Suc k) items))"
    using arg_cong [OF id_take_nth_drop [OF assms(1)], of "\<lambda>xs. concat (map f xs)"] by simp
  have "map (length \<circ> f) (take k items) = replicate k w"
    using assms by (auto simp: list_eq_iff_nth_eq)
  then show "length (concat (map f (take k items))) = k * w"
    by (simp add: length_concat_map_length sum_list_replicate)
qed

text \<open>
  Set \<open>k\<close> as it is read back: the header points to the first entry, and the entry gives the
  place and the length of the image and the number of chips.
\<close>

definition entry_offset :: "metadata \<Rightarrow> u8 list \<Rightarrow> nat \<Rightarrow> nat" where
  "entry_offset m buf k =
     read32 buf METADATA_CHIP_SET_OFFSET - abs_metadata_start m + k * chip_set_metadata_len (me_version m)"

lemma metadata_entry:
  assumes "meta_writable m" "metadata_len m = Some len" "length rom_data_ptrs = length (me_sets m)" "k < length (me_sets m)"
    and fits: "abs_metadata_start m + MAX_METADATA_LEN < 2 ^ 32" "rom_data_ptrs ! k < 2 ^ 32"
    and sz: "image_size (me_sets m ! k) (me_board m) (me_version m) = Some sz" "sz < 2 ^ 32"
  defines "buf \<equiv> metadata_bytes m (sets_start m + abs_metadata_start m) rom_data_ptrs"
  shows "read32 buf (entry_offset m buf k) = rom_data_ptrs ! k"
    "read32 buf (entry_offset m buf k + 4) = sz"
    "buf ! (entry_offset m buf k + 12) = of_nat (length (se_chips (me_sets m ! k)))"
proof -
  let ?items = "meta_items m rom_data_ptrs" and ?f = "set_entry (me_board m) (me_version m)"
  let ?w = "chip_set_metadata_len (me_version m)" and ?p = "sets_start m + abs_metadata_start m"
  have items: "length ?items = length (me_sets m)" by (simp add: meta_items_def meta_array_ptrs_def assms(3))
  then have k: "k < length ?items" using assms(4) by simp
  note split = drop_take_entry [of k ?items ?f ?w, OF k]
  have w: "\<forall>x \<in> set ?items. length (?f x) = ?w" by (simp add: length_set_entry)
  obtain front where buf: "buf = front @ concat (map ?f ?items)"
    unfolding buf_def metadata_bytes_def by (metis append.assoc)
  have "length buf = len" unfolding buf_def by (rule length_metadata_bytes [OF assms(1-3)])
  moreover have "length (concat (map ?f ?items)) = length (me_sets m) * ?w" by (simp add: length_entries items)
  moreover have len: "len = sets_start m + length (me_sets m) * ?w" "len \<le> MAX_METADATA_LEN"
    using assms(2) by (auto simp: metadata_len_def Let_def sets_start_def arrays_start_def chips_start_def overrides_start_def
        sets_len_def meta_chips_def length_concat comp_def sum_list_addf sum_list_mult_const split: if_splits)
  ultimately have front: "length front = sets_start m" using buf by simp
  obtain tl where hd: "buf = (HEADER_MAGIC @ le32 METADATA_VERSION @ of_nat (length (me_sets m)) # replicate 3 0) @ le32 ?p @ tl"
    unfolding buf_def metadata_bytes_def header_bytes_def by simp
  have "read32 buf METADATA_CHIP_SET_OFFSET = ?p"
    unfolding hd by (rule read32_le32) (use len fits in \<open>simp_all add: HEADER_MAGIC_def METADATA_CHIP_SET_OFFSET_def\<close>)
  then have off: "entry_offset m buf k = sets_start m + k * ?w" by (simp add: entry_offset_def)
  obtain s aptr optr sptr where item: "?items ! k = (s, rom_data_ptrs ! k, aptr, optr, sptr)" and s: "s = me_sets m ! k"
    using assms(3,4) k by (cases "block_ptrs m (overrides_start m) ! k") (auto simp: meta_items_def meta_array_ptrs_def)
  let ?pre = "front @ concat (map ?f (take k ?items))"
  have pre: "length ?pre = entry_offset m buf k" using split(2) [OF w] front off by simp
  obtain tl where e: "?f (?items ! k) = le32 (rom_data_ptrs ! k) @ le32 sz @ le32 aptr @ of_nat (length (se_chips s)) # tl"
    unfolding item by (simp add: set_entry_def s sz)
  obtain tl' where all: "buf = ?pre @ le32 (rom_data_ptrs ! k) @ le32 sz @ le32 aptr @ of_nat (length (se_chips s)) # tl'"
    using split(1) [OF w] e buf by simp
  show "read32 buf (entry_offset m buf k) = rom_data_ptrs ! k"
    unfolding all by (rule read32_le32 [OF pre [unfolded all] fits(2)])
  have "read32 ((?pre @ le32 (rom_data_ptrs ! k)) @ le32 sz @ (le32 aptr @ of_nat (length (se_chips s)) # tl')) (entry_offset m buf k + 4) = sz"
    by (rule read32_le32 [OF _ sz(2)]) (use pre in simp)
  then show "read32 buf (entry_offset m buf k + 4) = sz" using all by simp
  have "((?pre @ le32 (rom_data_ptrs ! k) @ le32 sz @ le32 aptr) @ of_nat (length (se_chips s)) # tl') ! (entry_offset m buf k + 12) =
      of_nat (length (se_chips s))"
    by (subst nth_append) (use pre in simp)
  then show "buf ! (entry_offset m buf k + 12) = of_nat (length (se_chips (me_sets m ! k)))" using all s by simp
qed

end
