(* ===== verification/Build_V1.thy ===== *)
theory Build_V1
  imports Meta_V1
begin

text \<open>
  The legacy build, for firmware before 0.7: \<open>build_v1\<close> of \<open>rust/gen/src/builder.rs\<close> with the
  writer of images of \<open>rust/gen/src/meta/metav1.rs\<close>, and \<open>build\<close>, which chooses between the two
  builds. The board \<open>v\<close> is that of the properties with its generated pin tables.
\<close>

section \<open>Writing the images\<close>

definition set_serve_mode :: "chip_set \<Rightarrow> fire_serve_mode option" where
  "set_serve_mode s = Option.bind (Option.bind (se_overrides s) fw_fire) fi_serve_mode"

definition flip_cs1_x :: "metadata \<Rightarrow> chip_set \<Rightarrow> bool" where
  "flip_cs1_x m s =
     (let pio = (case set_serve_mode s of Some mode \<Rightarrow> mode = ServePio | None \<Rightarrow> me_pio m)
      in if pio then se_set_type s = Set_Multi else False)"

definition set_image :: "metadata \<Rightarrow> chip_set \<Rightarrow> nat \<Rightarrow> u8 list option" where
  "set_image m s n =
     those (map (\<lambda>addr. set_get_byte s addr (me_board m) (me_version m) (flip_cs1_x m s)) [0..<n])"

fun roms_loop :: "metadata \<Rightarrow> nat \<Rightarrow> chip_set list \<Rightarrow> u8 list \<Rightarrow> u8 list option" where
  "roms_loop m offset [] buf = Some buf"
| "roms_loop m offset (s # sets) buf =
     (if no_image_set s then roms_loop m offset sets buf
      else Option.bind (image_size s (me_board m) (me_version m)) (\<lambda>size.
        Option.bind (set_image m s size) (\<lambda>img.
        Option.bind (write_slice offset img buf) (roms_loop m (offset + size) sets))))"

definition rom_images_size :: "metadata \<Rightarrow> nat option" where
  "rom_images_size m =
     map_option sum_list
       (those (map (\<lambda>s. image_size s (me_board m) (me_version m)) (filter set_has_data (me_sets m))))"

definition write_roms :: "metadata \<Rightarrow> u8 list \<Rightarrow> (v1_error, u8 list) result option" where
  "write_roms m buf =
     Option.bind (rom_images_size m) (\<lambda>len.
       if length buf < len then Some (Inl (MetaTooSmall ''write_roms'' len (length buf)))
       else map_option Inr (roms_loop m 0 (me_sets m) buf))"

section \<open>The build\<close>

definition rom_data_space :: "variant \<Rightarrow> nat option" where
  "rom_data_space mcu =
     map_option (\<lambda>chips. first_end chips - fc_first_base chips - FIRMWARE_SIZE - MAX_METADATA_LEN)
       (flash_chips_new mcu Size_M)"

definition check_board_types :: "v1_board \<Rightarrow> config \<Rightarrow> (v1_error, unit) result" where
  "check_board_types v cfg =
     each_r (\<lambda>st. each_r (\<lambda>c.
         if ct_is_plugin (cc_chip_type c) then Inr ()
         else fail_if (\<not> allows_chip_type v (cc_chip_type c)) (UnsupportedBoardChipType (cc_chip_type c)))
       (st_chips st)) (cf_chip_sets cfg)"

fun check_serve_modes :: "v1_board \<Rightarrow> chip_set_config list \<Rightarrow> (v1_error, unit) result option" where
  "check_serve_modes v [] = Some (Inr ())"
| "check_serve_modes v (st # sets) =
     bind_p (if Option.bind (Option.bind (st_overrides st) fw_fire) fi_serve_mode = Some ServeCpu then
         if vb_pins v \<noteq> 24 then Some (Inl CpuServeNot24)
         else map_option (\<lambda>c. fail_if (is_type (cc_chip_type c) ''28C16'') CpuServeNot28C16) (get (st_chips st) 0)
       else Some (Inr ())) (\<lambda>_. check_serve_modes v sets)"

definition v1_metadata :: "v1_board \<Rightarrow> firmware_properties \<Rightarrow> chip_set list \<Rightarrow> metadata" where
  "v1_metadata v props sets =
     \<lparr>me_board = v, me_sets = sets, me_filenames = pr_boot_logging props, me_pio = vb_mcu_pio v,
       me_version = pr_version props\<rparr>"

text \<open>No space for images at all is a panic.\<close>

definition write_v1 :: "metadata \<Rightarrow> variant \<Rightarrow> (v1_error, u8 list \<times> u8 list) result option" where
  "write_v1 m mcu =
     Option.bind (metadata_len m) (\<lambda>metadata_size.
     Option.bind (rom_images_size m) (\<lambda>rom_data_size.
     Option.bind (rom_data_space mcu) (\<lambda>rom_space.
       if \<not> 0 < rom_space then None
       else if rom_space < rom_data_size then Some (Inl (MetaTooSmall ''Flash'' rom_data_size rom_space))
       else
         bind_p (write_all_meta m (replicate metadata_size 0)) (\<lambda>(_, metadata, _).
         bind_p (write_roms m (replicate rom_data_size 0)) (\<lambda>rom.
           Some (Inr (metadata, rom)))))))"

definition build_v1 ::
  "v1_board \<Rightarrow> builder \<Rightarrow> firmware_properties \<Rightarrow> (v1_error, u8 list \<times> u8 list) result option" where
  "build_v1 v bu props =
     bind_p (Some (check_board_types v (bu_config bu))) (\<lambda>_.
     bind_p (check_serve_modes v (cf_chip_sets (bu_config bu))) (\<lambda>_.
     bind_p (map_err_p SetsErr (build_chip_sets bu (pr_serve_alg props))) (\<lambda>sets.
       write_v1 (v1_metadata v props sets) (pr_mcu_variant props))))"

text \<open>The builder's \<open>build\<close>: the checks, then the build of the firmware's generation.\<close>

definition build_any ::
  "(metadata_header \<Rightarrow> (serialize_error, u8 list) result) \<Rightarrow> (firmware_version \<times> nat) list \<Rightarrow> v1_board \<Rightarrow> builder \<Rightarrow>
     firmware_properties \<Rightarrow> (v1_error, u8 list \<times> u8 list) result option" where
  "build_any serialize generations v bu props =
     bind_p (map_err_p SetsErr (check_build bu props)) (\<lambda>_.
       if MAX_SUPPORTED_FIRMWARE_VERSION_V1 < bu_version bu
       then map_err_p SetsErr (build_v2 serialize generations bu props)
       else build_v1 v bu props)"

section \<open>The images in the ROM data\<close>

lemma set_image_Some:
  "set_image m s n = Some img \<longleftrightarrow> length img = n \<and>
     (\<forall>a<n. set_get_byte s a (me_board m) (me_version m) (flip_cs1_x m s) = Some (img ! a))"
  by (auto simp: set_image_def those_Some list_eq_iff_nth_eq)

text \<open>Image \<open>k\<close> stands where its data pointer says, counted from the start of the images.\<close>

definition rom_holds :: "metadata \<Rightarrow> nat \<Rightarrow> u8 list \<Rightarrow> chip_set \<Rightarrow> nat \<Rightarrow> bool" where
  "rom_holds m start rom s ptr \<longleftrightarrow>
     (\<exists>img. image_size s (me_board m) (me_version m) = Some (length img) \<and> set_image m s (length img) = Some img \<and>
       start \<le> ptr \<and> ptr - start + length img \<le> length rom \<and> take (length img) (drop (ptr - start) rom) = img)"

lemma roms_loop_holds:
  assumes "roms_loop m offset sets buf = Some rom"
    and "data_ptrs (me_board m) (me_version m) (start + offset) sets = Some ptrs"
  shows "length rom = length buf \<and> take offset rom = take offset buf \<and>
    (\<forall>k<length sets. \<not> no_image_set (sets ! k) \<longrightarrow> rom_holds m start rom (sets ! k) (ptrs ! k))"
  using assms
proof (induction sets arbitrary: offset buf ptrs)
  case (Cons s sets)
  show ?case
  proof (cases "no_image_set s")
    case True
    then obtain ptrs' where ptrs: "ptrs = 0xFFFFFFFF # ptrs'"
      "data_ptrs (me_board m) (me_version m) (start + offset) sets = Some ptrs'"
      using Cons.prems by auto
    from Cons.IH [OF _ ptrs(2)] Cons.prems(1) True show ?thesis
      by (auto simp: ptrs(1) nth_Cons split: nat.splits)
  next
    case False
    then obtain n img mid ptrs' where n: "image_size s (me_board m) (me_version m) = Some n"
      and img: "set_image m s n = Some img" and mid: "write_slice offset img buf = Some mid"
      and more: "roms_loop m (offset + n) sets mid = Some rom"
      and ptrs: "ptrs = (start + offset) # ptrs'" "data_ptrs (me_board m) (me_version m) (start + (offset + n)) sets = Some ptrs'"
      using Cons.prems by (auto simp: bind_eq_Some_conv add.assoc)
    have len: "length img = n" using img by (simp add: set_image_Some)
    have fits: "offset + n \<le> length buf" and mid': "mid = take offset buf @ img @ drop (offset + n) buf"
      using mid len by (auto simp: write_slice_def copy_at_def split: if_splits)
    note IH = Cons.IH [OF more ptrs(2)]
    have front: "take (offset + n) rom = take offset buf @ img"
      using IH fits len by (simp add: mid')
    have "take offset rom = take offset (take (offset + n) rom)" "take n (drop offset rom) = drop offset (take (offset + n) rom)"
      by (simp_all add: drop_take)
    then have t: "take offset rom = take offset buf" "take n (drop offset rom) = img"
      unfolding front using fits by simp_all
    have "length rom = length buf" using IH fits len by (simp add: mid')
    moreover from this have "rom_holds m start rom s (start + offset)"
      using n img len fits t(2) unfolding rom_holds_def by auto
    ultimately show ?thesis using IH t(1) by (auto simp: ptrs(1) nth_Cons split: nat.splits)
  qed
qed simp

lemma write_roms_holds:
  assumes "write_roms m buf = Some (Inr rom)"
    and "data_ptrs (me_board m) (me_version m) (abs_chip_image_start m) (me_sets m) = Some ptrs"
    and "k < length (me_sets m)" "\<not> no_image_set (me_sets m ! k)"
  shows "length rom = length buf" "rom_holds m (abs_chip_image_start m) rom (me_sets m ! k) (ptrs ! k)"
  using assms roms_loop_holds [of m 0 "me_sets m" buf rom "abs_chip_image_start m" ptrs]
  by (auto simp: write_roms_def bind_eq_Some_conv split: if_splits)

section \<open>What a finished build holds\<close>

text \<open>The image of set \<open>k\<close> as the metadata gives it: its entry has the place and the length.\<close>

definition v1_image :: "metadata \<Rightarrow> u8 list \<Rightarrow> u8 list \<Rightarrow> nat \<Rightarrow> u8 list" where
  "v1_image m metadata rom k =
     (let entry = entry_offset m metadata k
      in take (read32 metadata (entry + 4)) (drop (read32 metadata entry - abs_chip_image_start m) rom))"

lemma v1_metadata_fields [simp]:
  "me_board (v1_metadata v props sets) = v" "me_sets (v1_metadata v props sets) = sets"
  "me_filenames (v1_metadata v props sets) = pr_boot_logging props"
  "me_version (v1_metadata v props sets) = pr_version props"
  by (simp_all add: v1_metadata_def)

lemma build_v1_Inr:
  assumes "build_v1 v bu props = Some (Inr (metadata, rom))"
  obtains sets len rom_len space n ptrs where
    "build_chip_sets bu (pr_serve_alg props) = Some (Inr sets)"
    "metadata_len (v1_metadata v props sets) = Some len"
    "rom_data_space (pr_mcu_variant props) = Some space" "rom_len \<le> space"
    "write_all_meta (v1_metadata v props sets) (replicate len 0) = Some (Inr (n, metadata, ptrs))"
    "write_roms (v1_metadata v props sets) (replicate rom_len 0) = Some (Inr rom)"
proof -
  from assms obtain sets where sets: "build_chip_sets bu (pr_serve_alg props) = Some (Inr sets)"
    and w: "write_v1 (v1_metadata v props sets) (pr_mcu_variant props) = Some (Inr (metadata, rom))"
    by (auto simp: build_v1_def bind_p_Inr_iff map_err_p_Inr)
  from w obtain len rom_len space n ptrs where
    "metadata_len (v1_metadata v props sets) = Some len"
    "rom_data_space (pr_mcu_variant props) = Some space" "\<not> space < rom_len"
    "write_all_meta (v1_metadata v props sets) (replicate len 0) = Some (Inr (n, metadata, ptrs))"
    "write_roms (v1_metadata v props sets) (replicate rom_len 0) = Some (Inr rom)"
    by (auto simp: write_v1_def bind_eq_Some_conv bind_p_Inr_iff split: if_splits)
  then show thesis using that [OF sets] by (metis not_less)
qed

lemma flash_base_bound: "get_flash_base f \<le> 0x10000000"
  by (cases f) simp_all

lemma rom_space_bound: "rom_data_space mcu = Some space \<Longrightarrow> space \<le> 0x200000"
  by (cases mcu) (auto simp: rom_data_space_def flash_chips_new_def first_end_def flash_layout_of_def FLASH_LAYOUTS_def
      flash_storage_bytes_def flash_size_bytes_def OTP_FLASH_DEVINFO_SIZE_UNIT_def FIRMWARE_SIZE_def MAX_METADATA_LEN_def)

lemma image_size_bound:
  assumes "image_size s v fw = Some n"
  shows "n < 2 ^ 32"
proof -
  have "pred_option (\<lambda>n. n < 2 ^ 32) (image_size s v fw)"
    by (simp add: image_size_def Let_def SYSTEM_PLUGIN_SIZE_def)
  then show ?thesis by (simp add: assms)
qed

lemma v1_image_stored:
  assumes "build_v1 v bu props = Some (Inr (metadata, rom))"
    and sets: "build_chip_sets bu (pr_serve_alg props) = Some (Inr sets)"
    and k: "k < length sets" "\<not> no_image_set (sets ! k)"
  defines "m \<equiv> v1_metadata v props sets"
  shows "meta_writable m \<and> image_size (sets ! k) v (pr_version props) = Some (length (v1_image m metadata rom k)) \<and>
    set_image m (sets ! k) (length (v1_image m metadata rom k)) = Some (v1_image m metadata rom k)"
proof -
  obtain sets' len rom_len space n ptrs where sets': "build_chip_sets bu (pr_serve_alg props) = Some (Inr sets')"
    and b': "metadata_len (v1_metadata v props sets') = Some len"
    "rom_data_space (pr_mcu_variant props) = Some space" "rom_len \<le> space"
    "write_all_meta (v1_metadata v props sets') (replicate len 0) = Some (Inr (n, metadata, ptrs))"
    "write_roms (v1_metadata v props sets') (replicate rom_len 0) = Some (Inr rom)"
    by (rule build_v1_Inr [OF assms(1)])
  have "sets' = sets" using sets sets' by simp
  note b = b' [unfolded this, folded m_def]
  note w = write_all_meta_writable [OF b(4)]
  have ptrs: "data_ptrs (me_board m) (me_version m) (abs_chip_image_start m) (me_sets m) = Some ptrs" using w by simp
  have metadata: "metadata = metadata_bytes m (sets_start m + abs_metadata_start m) ptrs"
    using write_all_meta_bytes [OF _ b(1) _ ptrs, of "replicate len 0"] w b(4) by simp
  have k': "k < length (me_sets m)" "\<not> no_image_set (me_sets m ! k)" "me_sets m ! k = sets ! k"
    using k by (simp_all add: m_def)
  note stored = write_roms_holds [OF b(5) ptrs k'(1,2)]
  obtain img where img: "image_size (sets ! k) v (pr_version props) = Some (length img)"
    "set_image m (sets ! k) (length img) = Some img" "abs_chip_image_start m \<le> ptrs ! k"
    "ptrs ! k - abs_chip_image_start m + length img \<le> length rom"
    "take (length img) (drop (ptrs ! k - abs_chip_image_start m) rom) = img"
    using stored(2) unfolding rom_holds_def k'(3) by (auto simp: m_def)
  have start: "abs_metadata_start m + MAX_METADATA_LEN < 2 ^ 32" "abs_chip_image_start m + 0x200000 < 2 ^ 32"
    using flash_base_bound [of "bd_mcu_family (vb_board v)"]
    by (simp_all add: abs_metadata_start_def abs_chip_image_start_def m_def METADATA_START_def FIRMWARE_SIZE_def
        MAX_METADATA_LEN_def ROM_IMAGE_DATA_START_def)
  have "length rom \<le> 0x200000" using stored(1) rom_space_bound [OF b(2)] b(3) by simp
  then have ptr: "ptrs ! k < 2 ^ 32" using img(3,4) start(2) by simp
  have sized: "image_size (me_sets m ! k) (me_board m) (me_version m) = Some (length img)"
    using img(1) by (simp add: m_def)
  note entry = metadata_entry [OF conjunct1 [OF w] b(1) data_ptrs_length [OF ptrs] k'(1) start(1) ptr sized
      image_size_bound [OF sized], folded metadata]
  have "v1_image m metadata rom k = img"
    unfolding v1_image_def Let_def entry(1,2) by (rule img(5))
  then show ?thesis using w img(1,2) by simp
qed

text \<open>
  The bit of an image that a set serves at the levels of an address, on data line \<open>d\<close>: that of the
  chip the host selects, at the address it shows that chip; the padding where it selects none.
\<close>

definition v1_serves :: "chip_set \<Rightarrow> v1_board \<Rightarrow> bool \<Rightarrow> usize \<Rightarrow> nat \<Rightarrow> u8 \<Rightarrow> bool" where
  "v1_serves s v invert_cs1_x address d b \<longleftrightarrow>
     (\<forall>j. v1_answers s v invert_cs1_x address j \<longrightarrow>
       (\<exists>pin_map. chip_addr_map v (ch_type (se_chips s ! j)) = Some pin_map \<and>
         (bit b (data_place v d) \<longleftrightarrow> v1_chip_bit pin_map (se_chips s ! j) (v1_address s v address) d))) \<and>
     ((\<nexists>j. v1_answers s v invert_cs1_x address j) \<longrightarrow> (bit b (data_place v d) \<longleftrightarrow> bit PAD_NO_CHIP_BYTE d))"

lemma built_set_chips_ok:
  assumes "build_chip_sets bu alg = Some (Inr sets)" "k < length sets"
    and "\<forall>c \<in> set (all_chips (bu_config bu)). ct_num_addr_lines (cc_chip_type c) \<le> 64"
  shows "v1_chips_ok (sets ! k)"
  unfolding v1_chips_ok_def
proof
  fix c assume "c \<in> set (se_chips (sets ! k))"
  then obtain j where j: "j < length (se_chips (sets ! k))" "c = se_chips (sets ! k) ! j" by (auto simp: in_set_conv_nth)
  note chip = built_chip [OF assms(1,2) j(1), folded j(2)]
  show "ct_num_addr_lines (ch_type c) \<le> 64 \<and> (\<forall>data. ch_data c = Some data \<longrightarrow> length data = ct_size_bytes (ch_type c))"
    using chip(1,3,6) assms(3) nth_mem [OF chip(1)] by auto
qed

lemma v1_build_serves:
  assumes "build_v1 v bu props = Some (Inr (metadata, rom))"
    and sets: "build_chip_sets bu (pr_serve_alg props) = Some (Inr sets)" "k < length sets"
    and data: "\<forall>c \<in> set (se_chips (sets ! k)). ch_data c \<noteq> None"
    and plugin: "\<not> ct_is_plugin (ch_type (hd (se_chips (sets ! k))))"
    and lines: "\<forall>c \<in> set (all_chips (bu_config bu)). ct_num_addr_lines (cc_chip_type c) \<le> 64"
    and pins: "data_pins_ok v" "d < 8"
  defines "m \<equiv> v1_metadata v props sets"
  shows "image_size (sets ! k) v (pr_version props) = Some (length (v1_image m metadata rom k)) \<and>
    (\<forall>address < length (v1_image m metadata rom k).
      v1_serves (sets ! k) v (flip_cs1_x m (sets ! k)) address d (v1_image m metadata rom k ! address))"
proof -
  note built = built_set [OF sets]
  have has: "set_has_data (sets ! k)" using data built(6) by (cases "se_chips (sets ! k)") (auto simp: set_has_data_def has_data_def)
  then have "\<not> no_image_set (sets ! k)" by (simp add: no_image_set_def)
  note stored = v1_image_stored [OF assms(1) sets this, folded m_def]
  obtain l where l: "multi_cs_logic (sets ! k) = Some (Inr l)"
    using stored sets(2) unfolding meta_writable_def set_sized_def m_def by (metis nth_mem v1_metadata_fields(2))
  have single: "se_set_type (sets ! k) = Set_Single \<longleftrightarrow> length (se_chips (sets ! k)) = 1"
    using built(2,4,7) by simp
  have "v1_serves (sets ! k) v (flip_cs1_x m (sets ! k)) address d (v1_image m metadata rom k ! address)"
    if a: "address < length (v1_image m metadata rom k)" for address
  proof -
    have "set_get_byte (sets ! k) address v (pr_version props) (flip_cs1_x m (sets ! k)) = Some (v1_image m metadata rom k ! address)"
      using stored a by (simp add: set_image_Some m_def)
    from set_byte_answer [OF this has plugin built(6) single l pins(1) built_set_chips_ok [OF sets lines] pins(2) data]
    show ?thesis unfolding v1_serves_def .
  qed
  then show ?thesis using stored by simp
qed

section \<open>Properties of the legacy build\<close>

text \<open>
  C5: what an image of the legacy build serves. In a finished build the metadata's header leads to
  the entry of each set, and the entry to an image of the set's size in the ROM data. Whatever
  address the pins of the socket form, the byte there has on each data pin the bit of the chip the
  host selects, read at the address the host shows that chip on its own address lines; where no
  chip of a multi set is selected it has the padding.
\<close>

theorem legacy_image_serves:
  assumes "build_v1 v bu props = Some (Inr (metadata, rom))"
    and "build_chip_sets bu (pr_serve_alg props) = Some (Inr sets)" "k < length sets"
    and "\<forall>c \<in> set (se_chips (sets ! k)). ch_data c \<noteq> None"
    and "\<not> ct_is_plugin (ch_type (hd (se_chips (sets ! k))))"
    and "\<forall>c \<in> set (all_chips (bu_config bu)). ct_num_addr_lines (cc_chip_type c) \<le> 64"
    and "data_pins_ok v" "d < 8"
  defines "m \<equiv> v1_metadata v props sets"
  shows "image_size (sets ! k) v (pr_version props) = Some (length (v1_image m metadata rom k)) \<and>
    (\<forall>address < length (v1_image m metadata rom k).
      v1_serves (sets ! k) v (flip_cs1_x m (sets ! k)) address d (v1_image m metadata rom k ! address))"
  unfolding m_def by (rule v1_build_serves [OF assms(1-8)])

text \<open>
  C12: the metadata of the legacy build. Into a buffer of the length computed for it the writer
  puts, where every set can be described, exactly the header with the address of the sets, the
  names, the override blocks, the chips, the arrays of their addresses and the sets, each address
  that of the bytes it stands for; and there is no other way for it to succeed.
\<close>

theorem legacy_metadata_written:
  assumes "metadata_len m = Some len" "length buf = len"
  shows "write_all_meta m buf = Some (Inr r) \<longleftrightarrow>
    meta_writable m \<and>
    (\<exists>ptrs. data_ptrs (me_board m) (me_version m) (abs_chip_image_start m) (me_sets m) = Some ptrs \<and>
      r = (len, metadata_bytes m (sets_start m + abs_metadata_start m) ptrs, ptrs))"
proof
  assume r: "write_all_meta m buf = Some (Inr r)"
  obtain n b ptrs where "r = (n, b, ptrs)" by (cases r)
  with r have "meta_writable m \<and> data_ptrs (me_board m) (me_version m) (abs_chip_image_start m) (me_sets m) = Some ptrs"
    using write_all_meta_writable by blast
  with r show "meta_writable m \<and>
    (\<exists>ptrs. data_ptrs (me_board m) (me_version m) (abs_chip_image_start m) (me_sets m) = Some ptrs \<and>
      r = (len, metadata_bytes m (sets_start m + abs_metadata_start m) ptrs, ptrs))"
    using write_all_meta_bytes [OF _ assms] by auto
qed (use write_all_meta_bytes [OF _ assms] in auto)

end
