(* ===== verification/Build_V1_Example.thy ===== *)
theory Build_V1_Example
  imports Build_V1 Build_Example
begin

text \<open>
  A concrete legacy build: one 23128 on a fire-28-d board for firmware 0.6.5, from the
  configuration and its file to the metadata and the ROM data. The properties of the legacy build
  are applied to it.
\<close>

section \<open>The board\<close>

definition fire_28_d_v1 :: v1_board where
  "fire_28_d_v1 = \<lparr>vb_board = fire_28_d,
     vb_addr_map = map Some [17, 16, 14, 10, 11, 9, 8, 13, 15, 12, 7, 6, 5, 4, 3, 2, 1, 0] @ [None],
     vb_num_addr_pins = 18, vb_data_pins = [0, 1, 2, 3, 4, 5, 6, 7], vb_bit_x1 = 1, vb_bit_x2 = 0,
     vb_bit_cs1 = (\<lambda>_. 2), vb_bit_cs2 = (\<lambda>_. 3), vb_bit_cs3 = (\<lambda>_. 4), vb_bit_ce = (\<lambda>_. 2), vb_bit_oe = (\<lambda>_. 3),
     vb_mcu_pio = True, vb_supported_types = [''23128''], vb_extra_types = [''2364'']\<rparr>"

lemma fire_28_d_fields:
  "bd_name fire_28_d = ''fire-28-d''" "bd_chip_pins fire_28_d = 28" "bd_mcu_family fire_28_d = Rp2350"
  by (simp_all add: fire_28_d_def)

lemma v1_board_fields:
  "vb_board fire_28_d_v1 = fire_28_d" "vb_num_addr_pins fire_28_d_v1 = 18"
  "vb_data_pins fire_28_d_v1 = [0, 1, 2, 3, 4, 5, 6, 7]" "allows_chip_type fire_28_d_v1 three_cs_chip"
  "vb_addr_map fire_28_d_v1 = map Some [17, 16, 14, 10, 11, 9, 8, 13, 15, 12, 7, 6, 5, 4, 3, 2, 1, 0] @ [None]"
  by (simp_all add: fire_28_d_v1_def allows_chip_type_def three_cs_type)

lemma v1_data_pins: "data_pins_ok fire_28_d_v1"
  by (simp add: data_pins_ok_def v1_board_fields data_position_def)

lemma v1_addr_map:
  "chip_addr_map fire_28_d_v1 three_cs_chip =
     Some [None, Some 10, Some 11, Some 9, Some 8, Some 13, None, Some 12, Some 7, Some 6, Some 5, Some 4, Some 3, Some 2,
       Some 1, Some 0, None, None, None]"
  by (simp add: chip_addr_map_def handle_snowflake_chip_types_def v1_board_fields fire_28_d_fields three_cs_type
      remove_first_def Let_def truncate_addr_map_def) (simp add: three_cs_chip_def)

section \<open>The configuration and its chip set\<close>

definition v1_config :: config where
  "v1_config = \<lparr>cf_version = 1, cf_chip_sets = [single_set], cf_instance_name = None, cf_serial_override = None,
     cf_boot_logging = True, cf_swd_enabled = False, cf_turbo_boot = False, cf_reserved_pins = []\<rparr>"

definition v1_builder :: builder where
  "v1_builder = \<lparr>bu_version = FirmwareVersion 0 6 5 0, bu_config = v1_config, bu_files = [(0, bank_file 0xA5)],
     bu_licenses = [], bu_file_ids = [(0, 0)]\<rparr>"

definition v1_props :: firmware_properties where
  "v1_props = \<lparr>pr_version = FirmwareVersion 0 6 5 0, pr_board = fire_28_d, pr_mcu_variant = RP2350B,
     pr_serve_alg = AlgDefault, pr_boot_logging = True, pr_board_size = Size_M\<rparr>"

definition v1_set :: chip_set where
  "v1_set = \<lparr>se_id = 0, se_set_type = Set_Single, se_serve_alg = AlgDefault,
     se_chips = [bank_chip 0 (lit ''a.bin'') 0xA5], se_overrides = None\<rparr>"

lemma v1_input_fields:
  "bu_config v1_builder = v1_config" "cf_chip_sets v1_config = [single_set]" "bu_files v1_builder = [(0, bank_file 0xA5)]"
  "bu_file_ids v1_builder = [(0, 0)]" "pr_serve_alg v1_props = AlgDefault" "pr_boot_logging v1_props"
  "pr_mcu_variant v1_props = RP2350B" "pr_version v1_props = FirmwareVersion 0 6 5 0"
  by (simp_all add: v1_builder_def v1_config_def v1_props_def)

lemma v1_set_fields:
  "se_set_type v1_set = Set_Single" "se_chips v1_set = [bank_chip 0 (lit ''a.bin'') 0xA5]" "se_overrides v1_set = None"
  "set_has_data v1_set" "multi_cs_logic v1_set = Some (Inr CsIgnore)"
  by (simp_all add: v1_set_def set_has_data_def has_data_def bank_chip_fields multi_cs_logic_def)

lemma v1_sets_built: "build_chip_sets v1_builder AlgDefault = Some (Inr [v1_set])"
proof -
  have "chip_image 0 single_set multi_primary (sc_cs_config banked_pair) (Some (bank_file 0xA5)) =
      chip_image 0 bank_set multi_primary (sc_cs_config banked_pair) (Some (bank_file 0xA5))"
    by (simp add: chip_image_def single_set_fields bank_set_fields)
  then have "build_chip v1_builder 0 single_set multi_primary = Some (Inr (bank_chip 0 (lit ''a.bin'') 0xA5))"
    by (simp add: build_chip_def bank_cs_configs chip_file_def v1_input_fields bank_image_of primary_file_fields)
  then show ?thesis
    by (simp add: build_chip_sets_def v1_input_fields single_set_fields chip_set_new_def single_set_def
        check_set_overrides_def fail_if_def v1_set_def)
qed

section \<open>Every byte of the image\<close>

lemma shown_address_less: "shown_address m address n < 2 ^ n"
  using horner_sum_of_bool_2_less [of "map (\<lambda>i. \<exists>pin<length m. m ! pin = Some i \<and> pin_high address pin) [0..<n]"]
  by (simp add: shown_address_def)

text \<open>A single chip with as much data as its address lines reach has a byte at every address.\<close>

lemma single_get_byte_Some:
  assumes "se_chips s = [c]" "se_set_type s = Set_Single" "ch_data c = Some data" "ct_num_addr_lines (ch_type c) \<le> 64"
    and "ct_size_bytes (ch_type c) = 2 ^ ct_num_addr_lines (ch_type c)" "length data = ct_size_bytes (ch_type c)"
    and "\<not> ct_is_plugin (ch_type c)" "image_size s v fw = Some n" "address < n"
    and "chip_addr_map v (ch_type c) = Some m" "data_pins_ok v"
  shows "set_get_byte s address v fw invert_cs1_x \<noteq> None"
proof -
  let ?a = "address_to_logical m address (ct_num_addr_lines (ch_type c))"
  have a: "?a < length data" using assms(4-6) shown_address_less by (simp add: address_to_logical_shown)
  obtain b where "byte_mangled (data ! ?a) v = Some b" by (rule byte_mangled_bits [OF assms(11)])
  then have "mapped_get_byte v c address = Some b"
    using assms(3,6,10) a by (simp add: mapped_get_byte_def chip_get_byte_def get_def)
  then show ?thesis
    using assms(1-3,7-9) by (simp add: set_get_byte_def set_has_data_def has_data_def chip_function_of_def Let_def)
qed

lemma set_image_exists:
  "(\<And>a. a < n \<Longrightarrow> set_get_byte s a (me_board m) (me_version m) (flip_cs1_x m s) \<noteq> None) \<Longrightarrow>
     \<exists>img. set_image m s n = Some img"
  by (auto simp: set_image_Some intro!: exI [of _ "map (\<lambda>a. the (set_get_byte s a (me_board m) (me_version m) (flip_cs1_x m s))) [0..<n]"])

abbreviation v1_meta :: metadata where
  "v1_meta \<equiv> v1_metadata fire_28_d_v1 v1_props [v1_set]"

lemma v1_image_size: "image_size v1_set fire_28_d_v1 (FirmwareVersion 0 6 5 0) = Some 65536"
  by (simp add: image_size_def Let_def v1_set_fields bank_chip_fields three_cs_type v1_board_fields fire_28_d_fields
      MIN_FW_VER_FIRE_28_18_ADDR_PINS_def)

lemma v1_set_image: "\<exists>img. set_image v1_meta v1_set 65536 = Some img"
proof (rule set_image_exists)
  fix a :: nat assume "a < 65536"
  then show "set_get_byte v1_set a (me_board v1_meta) (me_version v1_meta) (flip_cs1_x v1_meta v1_set) \<noteq> None"
    unfolding v1_metadata_fields v1_input_fields
    by (rule single_get_byte_Some [OF v1_set_fields(2,1) bank_chip_fields(2) _ _ _ _ v1_image_size, rotated 4,
          unfolded bank_chip_fields(1), OF _ v1_addr_map v1_data_pins])
      (simp_all add: bank_chip_fields three_cs_type three_cs_chip_def [THEN arg_cong, of ct_num_addr_lines]
        three_cs_chip_def [THEN arg_cong, of ct_size_bytes])
qed

section \<open>The build\<close>

lemma v1_bank_chip: "ch_index (bank_chip i f b) = i" "chip_filename (bank_chip i (lit ''a.bin'') b) = lit ''a.bin''"
  "chip_codes (bank_chip i f b) = Some [3, 0, 1, 2]"
  by (simp_all add: bank_chip_def chip_filename_def chip_codes_def chip_type_c_enum_val_def v1_type_codes_def three_cs_type
      banked_pair_def)

lemma v1_metadata_len: "metadata_len v1_meta = Some 340"
proof -
  have "str_len (chip_filename (bank_chip 0 (lit ''a.bin'') 0xA5)) = 5"
    unfolding v1_bank_chip by (simp add: str_len_def char_len_def lit_def)
  then have "filenames_metadata_len v1_meta = 8"
    by (simp add: filenames_metadata_len_def round_up_4_def v1_input_fields meta_chips_def v1_set_fields)
  then show ?thesis
    by (simp add: metadata_len_def firmware_overrides_len_def sets_len_def chips_metadata_len_def v1_set_fields v1_input_fields
        CHIP_METADATA_LEN_WITH_FILENAME_def METADATA_HEADER_LEN_def MAX_METADATA_LEN_def chip_set_metadata_len_def
        CHIP_SET_METADATA_LEN_EXTRA_INFO_def MIN_FIRMWARE_OVERRIDES_VERSION_def)
qed

lemma v1_writable: "meta_writable v1_meta"
  by (simp add: meta_writable_def set_sized_def v1_input_fields v1_image_size v1_set_fields describable_def v1_bank_chip
      meta_chips_def numbered_def)

lemma v1_data_ptrs: "data_ptrs fire_28_d_v1 (FirmwareVersion 0 6 5 0) p [v1_set] = Some [p]"
  by (simp add: no_image_set_def v1_set_fields v1_image_size)

lemma v1_rom_size: "rom_images_size v1_meta = Some 65536"
  by (simp add: rom_images_size_def v1_set_fields v1_image_size v1_input_fields)

lemma v1_space: "rom_data_space RP2350B = Some 2031616"
  by (simp add: rom_data_space_def flash_chips_new_def first_end_def flash_layout_of_def FLASH_LAYOUTS_def
      flash_size_bytes_def OTP_FLASH_DEVINFO_SIZE_UNIT_def FIRMWARE_SIZE_def MAX_METADATA_LEN_def)

lemma v1_built: "\<exists>metadata rom. build_v1 fire_28_d_v1 v1_builder v1_props = Some (Inr (metadata, rom))"
proof -
  obtain img where img: "set_image v1_meta v1_set 65536 = Some img" using v1_set_image by blast
  have "length img = 65536" using img by (simp add: set_image_Some)
  then have "write_slice 0 img (replicate 65536 0) = Some img" by (simp add: write_slice_def copy_at_def)
  then have roms: "write_roms v1_meta (replicate 65536 0) = Some (Inr img)"
    using img by (simp add: write_roms_def v1_rom_size no_image_set_def v1_set_fields v1_image_size v1_input_fields)
  have "data_ptrs (me_board v1_meta) (me_version v1_meta) (abs_chip_image_start v1_meta) (me_sets v1_meta) =
      Some [abs_chip_image_start v1_meta]"
    by (simp add: v1_data_ptrs v1_input_fields del: data_ptrs.simps)
  from write_all_meta_bytes [OF v1_writable v1_metadata_len length_replicate this]
  obtain metadata where "write_all_meta v1_meta (replicate 340 0) = Some (Inr (340, metadata, [abs_chip_image_start v1_meta]))"
    by blast
  then have "write_v1 v1_meta RP2350B = Some (Inr (metadata, img))"
    using roms by (simp add: write_v1_def v1_metadata_len v1_rom_size v1_space)
  moreover have "check_board_types fire_28_d_v1 v1_config = Inr ()"
    by (simp add: check_board_types_def v1_input_fields single_set_fields multi_fields v1_board_fields three_cs_type fail_if_def)
  moreover have "check_serve_modes fire_28_d_v1 [single_set] = Some (Inr ())"
    by (simp add: single_set_fields)
  ultimately show ?thesis
    by (simp add: build_v1_def v1_input_fields v1_sets_built map_err_p_def)
qed

theorem legacy_image_serves_witness:
  "\<exists>metadata rom. build_v1 fire_28_d_v1 v1_builder v1_props = Some (Inr (metadata, rom)) \<and>
     length (v1_image v1_meta metadata rom 0) = 65536 \<and>
     (\<forall>address < 65536. v1_serves v1_set fire_28_d_v1 (flip_cs1_x v1_meta v1_set) address 0
       (v1_image v1_meta metadata rom 0 ! address))"
proof -
  obtain metadata rom where build: "build_v1 fire_28_d_v1 v1_builder v1_props = Some (Inr (metadata, rom))"
    using v1_built by blast
  have "image_size ([v1_set] ! 0) fire_28_d_v1 (pr_version v1_props) = Some (length (v1_image v1_meta metadata rom 0)) \<and>
    (\<forall>address < length (v1_image v1_meta metadata rom 0). v1_serves ([v1_set] ! 0) fire_28_d_v1
      (flip_cs1_x v1_meta ([v1_set] ! 0)) address 0 (v1_image v1_meta metadata rom 0 ! address))"
  proof (rule legacy_image_serves [OF build])
    show "build_chip_sets v1_builder (pr_serve_alg v1_props) = Some (Inr [v1_set])"
      by (simp add: v1_input_fields v1_sets_built)
    show "\<forall>c \<in> set (all_chips (bu_config v1_builder)). ct_num_addr_lines (cc_chip_type c) \<le> 64"
      by (simp add: all_chips_def v1_input_fields single_set_fields multi_fields
          three_cs_chip_def [THEN arg_cong, of ct_num_addr_lines])
    show "data_pins_ok fire_28_d_v1" by (rule v1_data_pins)
  qed (simp_all add: v1_set_fields bank_chip_fields three_cs_type)
  then show ?thesis using build by (intro exI [of _ metadata] exI [of _ rom] conjI) (auto simp: v1_input_fields v1_image_size)
qed

theorem legacy_metadata_written_witness:
  "\<exists>metadata. write_all_meta v1_meta (replicate 340 0) = Some (Inr (340, metadata, [abs_chip_image_start v1_meta]))"
proof -
  have "data_ptrs (me_board v1_meta) (me_version v1_meta) (abs_chip_image_start v1_meta) (me_sets v1_meta) =
      Some [abs_chip_image_start v1_meta]"
    by (simp add: v1_data_ptrs v1_input_fields del: data_ptrs.simps)
  then show ?thesis
    using legacy_metadata_written [OF v1_metadata_len length_replicate] v1_writable by blast
qed

end
