(* ===== verification/Spec2Isabelle.thy ===== *)
theory Spec2Isabelle
  imports Otp_Commission Otp_Identity Native_Slot Build_Example Build_V1_Example
begin

text \<open>
  One ROM, a flash-based replacement for ROM chips: a shallow embedding of the image generator
  (\<open>rust/gen\<close>) and of the OTP store (\<open>rust/metadata/src/otp.rs\<close>), with the parts of
  \<open>rust/config\<close> they are built on.

  \<^bold>\<open>What the program does.\<close> The generator takes a configuration (sets of chips, each chip naming an
  image file), checks it, tells its caller which files it needs, takes the files one by one, and
  builds two buffers for a board's flash: a metadata header and the ROM data. For each set it
  chooses which GPIOs the two PIO blocks of the microcontroller read as address and drive as
  data, derives an algorithm configuration from that, and writes a table in which the firmware
  finds, at the index the raw GPIO levels form, the byte to put on the data pins. The OTP store
  holds what commissioning a board writes, row by row, into memory that cannot be rewritten.

  \<^bold>\<open>Theories and sources.\<close> Every theory opens with the source files it follows; definitions carry
  the names of the source.

  \<^item> \<open>Onerom_Prelude\<close>, \<open>Onerom_Text\<close>, \<open>Btree_Map\<close>: Rust integers (\<open>u8\<close>, \<open>u16\<close>, \<open>u32\<close>, \<open>u64\<close> as words;
    \<open>usize\<close> as natural numbers with checked arithmetic), results as sums, strings as lists of
    code points with their UTF-8 lengths, ordered maps. Locale \<open>keyed_store\<close>.
  \<^item> \<open>Hexfile\<close>, \<open>Record_Lines\<close>, \<open>Ihex\<close>, \<open>Srec\<close>: \<open>hexfile.rs\<close>, \<open>ihex.rs\<close>, \<open>srec.rs\<close>. The accumulator that
    both decoders fill is the interface \<open>record_image\<close>; the line loop of both is \<open>record_lines\<close>.
    Round trips, the meaning of a decoded file, detection of corruption, bounds.
  \<^item> \<open>Transform\<close>, \<open>Chip_Image\<close>: \<open>transform.rs\<close> and the chip part of \<open>image.rs\<close>: a file becomes the image
    of a chip by location, transforms and size handling.
  \<^item> \<open>Fw_Version\<close>, \<open>Chip_Set\<close>: \<open>config/src/fw.rs\<close>, \<open>config/src/mcu.rs\<close>, chip-select configuration,
    boards and chip types, the bond search all layouts share.
  \<^item> \<open>Addr_Layout\<close>, \<open>Cs_Data_Layout\<close>, \<open>Rom_Image\<close>: \<open>v2/addr_layout.rs\<close>, \<open>v2/cs_data_layout.rs\<close>,
    \<open>v2/rom_image.rs\<close>. The two searches give the best layout there is; a table built on their
    results serves the chips.
  \<^item> \<open>Gpio_Overrides\<close>, \<open>Alg_Config\<close>, \<open>Slot_Gpios\<close>, \<open>Rom_Slot\<close>, \<open>Native_Slot\<close>: \<open>v2/cs_overrides.rs\<close>,
    \<open>v2/gpio_pull_config.rs\<close>, \<open>v2/alg_config.rs\<close>, \<open>v2/alg_cs.rs\<close>, \<open>v2/gpio_use.rs\<close>, \<open>v2/rom_slot.rs\<close>, \<open>v2/rom_info.rs\<close>.
    The overrides turn the levels the host drives into the levels the table is indexed by;
    \<open>Native_Slot\<close> is a 27C400 on a Fire 40 board, 16 bits wide with a /BYTE pin.
  \<^item> \<open>Flash_Place\<close>: \<open>flash.rs\<close>: the placement loop is first fit over the flash chips.
  \<^item> \<open>Firmware_Overrides\<close>: \<open>firmware.rs\<close>, the v1 block and the v2 record with their readers.
  \<^item> \<open>Header_Pin\<close>, \<open>Gen_Config\<close>, \<open>Cs_Check\<close>, \<open>Gen_Validate\<close>: \<open>config/src/pin.rs\<close>, the configuration records
    of \<open>gen/src/lib.rs\<close> and the checks of \<open>builder.rs\<close>, for both generations of firmware.
  \<^item> \<open>Gen_Builder\<close>: the state of \<open>Builder\<close> with all its calls, as a step relation with its invariant.
  \<^item> \<open>Gen_Build\<close>, \<open>Build_V2\<close>, \<open>Build_Returns\<close>, \<open>Build_Example\<close>: \<open>build_chip_sets\<close>, \<open>ChipSet::new\<close>,
    \<open>build_hardware_info\<close>, \<open>build_v2\<close> and the checks of \<open>build\<close>. Here the parts meet: the
    properties speak of the bytes of the finished ROM data, \<open>Build_Returns\<close> shows that an accepted
    configuration cannot make the build panic, and the last theory applies them to a
    configuration followed from its acceptance to the image.
  \<^item> \<open>Image_V1\<close>, \<open>Meta_V1\<close>, \<open>Build_V1\<close>, \<open>Build_V1_Example\<close>: \<open>build_v1\<close>, the build for firmware before
    0.7: \<open>get_byte\<close>, \<open>image_size\<close> and \<open>multi_cs_logic\<close> of \<open>image.rs\<close>, the writers of \<open>meta/metav1.rs\<close>
    as functions from the buffer at an offset (\<open>appends\<close> is what each is shown to do), the ROM data
    and \<open>build\<close>. The properties read the finished metadata back down to the bytes of the images;
    the last theory builds an image for a fire-28-d board.
  \<^item> \<open>Otp_Store\<close>, \<open>Otp_Parse\<close>, \<open>Otp_Commission\<close>, \<open>Otp_Identity\<close>: \<open>metadata/src/otp.rs\<close> and
    \<open>config/src/hw/board_size.rs\<close>: writes of an instance, the parsers of both areas, commissioning
    cut short at any write, board sizes, CHIPID text. Locale \<open>hex_alphabet\<close>.

  \<^bold>\<open>How the proofs fit together.\<close> \<open>rom_image_serves\<close> (\<open>Rom_Image\<close>) relates a table to the chips under
  conditions on the layouts; \<open>derived_layouts_fit\<close> shows that derived layouts meet them;
  \<open>slot_levels\<close> (\<open>Rom_Slot\<close>) shows that the input overrides give the levels those conditions ask
  for; \<open>slot_serves\<close> joins them for one slot. \<open>built_image_serves\<close> (\<open>Build_V2\<close>) carries this to the
  finished image: with the placement lemmas of \<open>Flash_Place\<close> each slot's table is found at its
  data pointer (\<open>rom_data_layout\<close>). \<open>build_returns\<close> (\<open>Build_Returns\<close>) excludes every panic of
  the build: the acceptance of a configuration is carried through all calls of the builder
  (\<open>reachable_accepted\<close>), accepted control lines resolve (\<open>accepted_lines_resolve\<close>,
  \<open>multi_set_derives\<close>), the two layout searches, the slot and the table return for the chip sets
  made of them (\<open>sound_set_returns\<close>), and the builder's invariant, loaded files and accepted plugin
  places (\<open>compose_returns\<close>) exclude a panic of the rest. \<open>reserved_pins_spared\<close> joins the reserved pins of the configuration with
  the GPIO mask read off an algorithm configuration (\<open>used_gpios_identify\<close>). For the legacy build
  \<open>legacy_metadata_written\<close> gives every byte of the metadata, \<open>set_byte_answer\<close> (\<open>Image_V1\<close>) the chip
  that answers at an address, and \<open>legacy_image_serves\<close> joins them along the pointers.

  \<^bold>\<open>Conventions.\<close> A panic (\<open>unwrap\<close>, \<open>expect\<close>, an index out of range, a failed assertion) is \<open>None\<close>, an
  error is \<open>Inl\<close>, so a function that can do both has type \<open>('e, 'a) result option\<close>. GPIO and pin
  numbers are natural numbers: the sums the code forms of them stay below 256 on boards of at
  most 48 GPIOs. Flash addresses are natural numbers with the \<open>u32\<close> bound of \<open>Space::take\<close> written
  out; sizes cast to \<open>u32\<close> are taken modulo \<open>2 ^ 32\<close>, counts cast to \<open>u8\<close> modulo \<open>256\<close>. All loops
  are structural or end by a measure; no fuel is used.

  \<^bold>\<open>What the properties assume.\<close> Boards and chip types are generated from JSON and are
  parameters. Conditions state what their tables contain, and hold of every board with a socket
  map (the Fire boards) and every chip type in \<open>rust/config/json\<close>: \<open>slot_ok\<close>, made of \<open>board_ok\<close>,
  \<open>chip_ok\<close> and \<open>byte_ok\<close> (pins that are distinct and wired to GPIOs of their own; the /BYTE GPIO of
  a board on no pin that a chip served with /BYTE has read as an address or select line),
  \<open>lines_ok\<close> (control lines with distinct names, CE and OE together, CS lines from CS1 on; a type
  may have CE, OE and CS lines, as the 23C1001 does), \<open>geometry_ok\<close>, \<open>tables_ok\<close>, \<open>types_ok\<close>,
  \<open>type_sizes_ok\<close>, \<open>chip_table_ok\<close> and \<open>header_board_ok\<close> (plugin types of 64 KiB known by name and
  without control lines; pins and select pins that fit the metadata). The witnesses show them
  for a fire-28-d board with a 23128 and for a fire-40-b board with a 27C400; \<open>pin31_a17_ok\<close> for
  the 27C400 variant with A17 where others have /BYTE. \<open>plugins_plain\<close> is a condition on the
  configuration: without it the build panics (\<open>plugin_lines_panic\<close>).
  \<open>x_bonds_agree\<close> asks that the two layouts of a multi set bond its X pins to the same GPIOs, and that
  a table index has fewer than 32 bits is assumed where a table is read. Both are so for those
  tables: fire-28-c and fire-28-d alone have X pins with two GPIOs, and evaluating the two
  derivations for every chip type and every split of its control lines finds them agreeing. The generated serializer and the generated table of
  metadata generations are arguments of \<open>build_v2\<close> and \<open>compose_v2\<close>; SHA-256 is an argument where
  the OTP record uses it. The pin tables of the legacy build, which the build script computes from
  the same JSON, are the fields of \<open>v1_board\<close>; \<open>data_pins_ok\<close> asks for data pins with places of their
  own in the byte.

  \<^bold>\<open>Not modelled.\<close> The generated metadata records with their serializer and parser, and the generator that
  prints them (\<open>rust/metadata-gen\<close>); the reports on which board serves what (\<open>compat.rs\<close>); JSON
  parsing and schemas; texts of most errors, descriptions and notes. The tools around the
  generator (\<open>rust/cli\<close>, \<open>rust/app\<close>, \<open>rust/fw\<close>, \<open>rust/studio\<close>, \<open>rust/signing-server\<close>) are devices, network and
  user interfaces; the emulator, testers, Lab and the C firmware run on hardware or through
  foreign functions.
\<close>

end
